(* ===== verification/GoBase.thy ===== *)
theory GoBase
  imports Main
begin

text \<open>
  The prelude of the development: the conventions every component theory shares.

  \<^item> A Go string or byte slice is a \<open>string\<close>, a list of 8-bit characters.
  \<^item> A fallible function returns a sum, \<open>Inl\<close> the error and \<open>Inr\<close> the result;
    \<open>sbind\<close> is the "if err != nil then return err" of the source.
  \<^item> A \<open>context.Context\<close> is the number of \<open>ctx.Err()\<close> calls that still succeed:
    quantifying over it covers every moment at which a cancellation can be observed.
    Once it has ended, it stays ended, as a Go context does.
  \<^item> A loop over an index is a recursive function whose measure is the distance left.
\<close>

named_theorems result_simps \<open>equations and inversions of the error monad\<close>

type_synonym bytes = "char list"

abbreviation byte :: "char \<Rightarrow> nat" where
  "byte c \<equiv> of_char c"

subsection \<open>Errors as values\<close>

definition sbind :: "'e + 'a \<Rightarrow> ('a \<Rightarrow> 'e + 'b) \<Rightarrow> 'e + 'b" where
  "sbind m f = (case m of Inl e \<Rightarrow> Inl e | Inr x \<Rightarrow> f x)"

lemma sbind_Inl [simp]: "sbind (Inl e) f = Inl e"
  by (simp add: sbind_def)

lemma sbind_Inr [simp]: "sbind (Inr x) f = f x"
  by (simp add: sbind_def)

lemma sbind_Inr_conv [result_simps]:
  "sbind m f = Inr y \<longleftrightarrow> (\<exists>x. m = Inr x \<and> f x = Inr y)"
  by (cases m) auto

lemma sbind_Inl_conv [result_simps]:
  "sbind m f = Inl e \<longleftrightarrow> m = Inl e \<or> (\<exists>x. m = Inr x \<and> f x = Inl e)"
  by (cases m) auto

lemma sbind_InrE [elim?]:
  assumes "sbind m f = Inr y"
  obtains x where "m = Inr x" "f x = Inr y"
  using assms by (auto simp: sbind_Inr_conv)

lemma sbind_cong [fundef_cong]:
  assumes "m = m'" and "\<And>x. m' = Inr x \<Longrightarrow> f x = f' x"
  shows "sbind m f = sbind m' f'"
  using assms by (cases m') auto

lemma sbind_assoc: "sbind (sbind m f) g = sbind m (\<lambda>x. sbind (f x) g)"
  by (cases m) auto

definition guard :: "bool \<Rightarrow> 'e \<Rightarrow> 'e + unit" where
  "guard b e = (if b then Inr () else Inl e)"

lemma guard_Inr [simp]: "guard b e = Inr u \<longleftrightarrow> b"
  by (auto simp: guard_def)

lemma guard_simps [simp]: "guard True e = Inr ()" "guard False e = Inl e"
  by (simp_all add: guard_def)

definition is_ok :: "'e + 'a \<Rightarrow> bool" where
  "is_ok m = (case m of Inl _ \<Rightarrow> False | Inr _ \<Rightarrow> True)"

lemma is_ok_simps [simp]: "is_ok (Inr x)" "\<not> is_ok (Inl e)"
  by (simp_all add: is_ok_def)

lemma is_ok_conv: "is_ok m \<longleftrightarrow> (\<exists>x. m = Inr x)"
  by (cases m) auto

subsection \<open>Steps over a state\<close>

text \<open>
  A function that changes state returns its result and the next state; an error keeps what was done
  before it, since a failed Go function leaves its earlier effects in place.
\<close>

type_synonym ('s, 'e, 'a) step = "'s \<Rightarrow> ('e + 'a) \<times> 's"

definition andthen :: "('s, 'e, 'a) step \<Rightarrow> ('a \<Rightarrow> ('s, 'e, 'b) step) \<Rightarrow> ('s, 'e, 'b) step" where
  "andthen m f p = (case m p of (Inl e, p') \<Rightarrow> (Inl e, p') | (Inr x, p') \<Rightarrow> f x p')"

definition give :: "'a \<Rightarrow> ('s, 'e, 'a) step" where
  "give x p = (Inr x, p)"

definition raise :: "'e \<Rightarrow> ('s, 'e, 'a) step" where
  "raise e p = (Inl e, p)"

definition lift_sum :: "'e + 'a \<Rightarrow> ('s, 'e, 'a) step" where
  "lift_sum r p = (r, p)"

lemma andthen_Inr: "andthen m f p = (Inr y, p') \<longleftrightarrow> (\<exists>x p1. m p = (Inr x, p1) \<and> f x p1 = (Inr y, p'))"
  by (auto simp: andthen_def split: prod.splits sum.splits)

lemma andthen_InrE:
  assumes "andthen m f p = (Inr y, p')"
  obtains x p1 where "m p = (Inr x, p1)" "f x p1 = (Inr y, p')"
  using assms by (auto simp: andthen_Inr)

lemma give_Inr [simp]: "give x p = (Inr y, p') \<longleftrightarrow> y = x \<and> p' = p"
  by (auto simp: give_def)

lemma raise_Inr [simp]: "raise e p \<noteq> (Inr y, p')"
  by (simp add: raise_def)

lemma lift_sum_Inr [simp]: "lift_sum r p = (Inr y, p') \<longleftrightarrow> r = Inr y \<and> p' = p"
  by (auto simp: lift_sum_def)

text \<open>
  \<open>hoare P m Q E\<close>: from a state with P, a result x leaves Q x and an error leaves E. The rules are
  syntax-directed, so a proof about a whole operation follows its text.
\<close>

definition hoare :: "('s \<Rightarrow> bool) \<Rightarrow> ('s, 'e, 'a) step \<Rightarrow> ('a \<Rightarrow> 's \<Rightarrow> bool) \<Rightarrow> ('s \<Rightarrow> bool) \<Rightarrow> bool" where
  "hoare P m Q E \<longleftrightarrow> (\<forall>s. P s \<longrightarrow> (case m s of (Inl _, s') \<Rightarrow> E s' | (Inr x, s') \<Rightarrow> Q x s'))"

named_theorems hoare_rules \<open>syntax-directed rules of the step monad\<close>

lemma hoare_andthen [hoare_rules]:
  assumes "hoare P m Q E" "\<And>x. hoare (Q x) (f x) R E"
  shows "hoare P (andthen m f) R E"
  using assms unfolding hoare_def andthen_def by (fastforce split: prod.splits sum.splits)

lemma hoare_give: "(\<And>s. P s \<Longrightarrow> Q x s) \<Longrightarrow> hoare P (give x) Q E"
  by (simp add: hoare_def give_def)

lemma hoare_raise: "(\<And>s. P s \<Longrightarrow> E s) \<Longrightarrow> hoare P (raise e) Q E"
  by (simp add: hoare_def raise_def)

lemma hoare_lift: "(\<And>s x. P s \<Longrightarrow> r = Inr x \<Longrightarrow> Q x s) \<Longrightarrow> (\<And>s. P s \<Longrightarrow> E s) \<Longrightarrow> hoare P (lift_sum r) Q E"
  by (cases r) (auto simp: hoare_def lift_sum_def)

lemma hoare_if [hoare_rules]:
  "(b \<Longrightarrow> hoare P m Q E) \<Longrightarrow> (\<not> b \<Longrightarrow> hoare P n Q E) \<Longrightarrow> hoare P (if b then m else n) Q E"
  by simp

lemma hoare_option [hoare_rules]:
  "(x = None \<Longrightarrow> hoare P m Q E) \<Longrightarrow> (\<And>y. x = Some y \<Longrightarrow> hoare P (n y) Q E) \<Longrightarrow>
   hoare P (case x of None \<Rightarrow> m | Some y \<Rightarrow> n y) Q E"
  by (cases x) auto

lemma hoare_sum [hoare_rules]:
  "(\<And>y. x = Inl y \<Longrightarrow> hoare P (m y) Q E) \<Longrightarrow> (\<And>y. x = Inr y \<Longrightarrow> hoare P (n y) Q E) \<Longrightarrow>
   hoare P (case x of Inl y \<Rightarrow> m y | Inr y \<Rightarrow> n y) Q E"
  by (cases x) auto

lemma hoare_prod [hoare_rules]:
  "(\<And>y z. x = (y, z) \<Longrightarrow> hoare P (m y z) Q E) \<Longrightarrow> hoare P (case x of (y, z) \<Rightarrow> m y z) Q E"
  by (cases x) auto

lemma hoare_weaken:
  assumes "hoare P m Q E" "\<And>s. P' s \<Longrightarrow> P s" "\<And>x s. Q x s \<Longrightarrow> Q' x s" "\<And>s. E s \<Longrightarrow> E' s"
  shows "hoare P' m Q' E'"
  using assms unfolding hoare_def by (fastforce split: prod.splits sum.splits)

lemma hoare_conj:
  "hoare P m Q E \<Longrightarrow> hoare P' m Q' E' \<Longrightarrow> hoare (\<lambda>s. P s \<and> P' s) m (\<lambda>x s. Q x s \<and> Q' x s) (\<lambda>s. E s \<and> E' s)"
  unfolding hoare_def by (fastforce split: prod.splits sum.splits)

text \<open>\<open>keeps P m\<close>: the step preserves P, whether it fails or not.\<close>

definition keeps :: "('s \<Rightarrow> bool) \<Rightarrow> ('s, 'e, 'a) step \<Rightarrow> bool" where
  "keeps P m \<longleftrightarrow> (\<forall>s. P s \<longrightarrow> P (snd (m s)))"

named_theorems keeps_rules \<open>syntax-directed rules of preservation\<close>

lemma keepsD: "keeps P m \<Longrightarrow> P s \<Longrightarrow> m s = (r, s') \<Longrightarrow> P s'"
  unfolding keeps_def by (metis snd_conv)

lemma keeps_hoare: "keeps P m \<longleftrightarrow> hoare P m (\<lambda>_. P) P"
  unfolding keeps_def hoare_def by (fastforce split: prod.splits sum.splits)

lemma keeps_andthen [keeps_rules]: "keeps P m \<Longrightarrow> (\<And>x. keeps P (f x)) \<Longrightarrow> keeps P (andthen m f)"
  unfolding keeps_hoare by (rule hoare_andthen)

lemma keeps_const [keeps_rules]: "keeps P (give x)" "keeps P (raise e)" "keeps P (lift_sum r)"
  by (simp_all add: keeps_def give_def raise_def lift_sum_def)

lemma keeps_lift: "(\<And>x. r = Inr x \<Longrightarrow> keeps P (f x)) \<Longrightarrow> keeps P (andthen (lift_sum r) f)"
  by (cases r) (auto simp: keeps_def andthen_def lift_sum_def)

text \<open>\<open>gives V m\<close>: every result of m is in V.\<close>

definition gives :: "('a \<Rightarrow> bool) \<Rightarrow> ('s, 'e, 'a) step \<Rightarrow> bool" where
  "gives V m \<longleftrightarrow> (\<forall>s x s'. m s = (Inr x, s') \<longrightarrow> V x)"

lemma keeps_gives:
  assumes "keeps P m" "gives V m" "\<And>x. V x \<Longrightarrow> keeps P (f x)"
  shows "keeps P (andthen m f)"
  unfolding keeps_def
proof (intro allI impI)
  fix s assume p: "P s"
  obtain r s1 where m: "m s = (r, s1)" by (cases "m s")
  have "P s1" by (rule keepsD [OF assms(1) p m])
  then show "P (snd (andthen m f s))"
    using m assms(2,3) by (cases r) (auto simp: andthen_def gives_def keeps_def)
qed

lemma gives_andthen: "gives V m \<Longrightarrow> (\<And>x. V x \<Longrightarrow> gives W (f x)) \<Longrightarrow> gives W (andthen m f)"
  unfolding gives_def andthen_Inr by blast

lemma gives_any: "gives (\<lambda>_. True) m"
  by (simp add: gives_def)

lemma gives_give: "V x \<Longrightarrow> gives V (give x)"
  by (simp add: gives_def)

lemma gives_if: "(b \<Longrightarrow> gives V m) \<Longrightarrow> (\<not> b \<Longrightarrow> gives V n) \<Longrightarrow> gives V (if b then m else n)"
  by simp

lemma keeps_if [keeps_rules]: "(b \<Longrightarrow> keeps P m) \<Longrightarrow> (\<not> b \<Longrightarrow> keeps P n) \<Longrightarrow> keeps P (if b then m else n)"
  by simp

lemma keeps_option [keeps_rules]:
  "(x = None \<Longrightarrow> keeps P m) \<Longrightarrow> (\<And>y. x = Some y \<Longrightarrow> keeps P (n y)) \<Longrightarrow> keeps P (case x of None \<Rightarrow> m | Some y \<Rightarrow> n y)"
  by (cases x) auto

lemma keeps_sum [keeps_rules]:
  "(\<And>y. x = Inl y \<Longrightarrow> keeps P (m y)) \<Longrightarrow> (\<And>y. x = Inr y \<Longrightarrow> keeps P (n y)) \<Longrightarrow>
   keeps P (case x of Inl y \<Rightarrow> m y | Inr y \<Rightarrow> n y)"
  by (cases x) auto

lemma keeps_prod [keeps_rules]: "(\<And>y z. x = (y, z) \<Longrightarrow> keeps P (m y z)) \<Longrightarrow> keeps P (case x of (y, z) \<Rightarrow> m y z)"
  by (cases x) auto

lemma keeps_list [keeps_rules]:
  "(x = [] \<Longrightarrow> keeps P m) \<Longrightarrow> (\<And>y ys. x = y # ys \<Longrightarrow> keeps P (n y ys)) \<Longrightarrow> keeps P (case x of [] \<Rightarrow> m | y # ys \<Rightarrow> n y ys)"
  by (cases x) auto

subsection \<open>Contexts\<close>

datatype ctx = Background | EndsAfter nat

fun ctx_err :: "ctx \<Rightarrow> bool \<times> ctx" where
  "ctx_err Background = (False, Background)"
| "ctx_err (EndsAfter 0) = (True, EndsAfter 0)"
| "ctx_err (EndsAfter (Suc n)) = (False, EndsAfter n)"

lemma ctx_err_ended: "ctx_err c = (True, c') \<Longrightarrow> ctx_err c' = (True, c')"
  by (cases c rule: ctx_err.cases) auto

lemma ctx_err_Background [simp]: "fst (ctx_err Background) = False" "snd (ctx_err Background) = Background"
  by simp_all

text \<open>\<open>checked e c k\<close> is \<open>if ctx.Err() != nil then return e else k\<close> with the context after the check.\<close>

definition checked :: "'e \<Rightarrow> ctx \<Rightarrow> (ctx \<Rightarrow> 'e + 'a) \<Rightarrow> 'e + 'a" where
  "checked e c k = (let (ended, c') = ctx_err c in if ended then Inl e else k c')"

lemma checked_Background [simp]: "checked e Background k = k Background"
  by (simp add: checked_def)

lemma checked_cong [fundef_cong]:
  assumes "e = e'" "c = c'" "\<And>x. k x = k' x"
  shows "checked e c k = checked e' c' k'"
proof -
  have "k = k'" using assms(3) by (rule ext)
  then show ?thesis using assms(1,2) by simp
qed

lemma checked_Inr_conv [result_simps]:
  "checked e c k = Inr y \<longleftrightarrow> (\<exists>c'. ctx_err c = (False, c') \<and> k c' = Inr y)"
  by (auto simp: checked_def split: prod.splits)

lemma ctx_err_Background_conv [simp]:
  "ctx_err c = (b, Background) \<longleftrightarrow> c = Background \<and> \<not> b"
  by (cases c rule: ctx_err.cases) auto

subsection \<open>Lists\<close>

lemma sum_list_map_update:
  fixes f :: "'a \<Rightarrow> int"
  assumes "i < length xs"
  shows "sum_list (map f (xs[i := x])) = sum_list (map f xs) + f x - f (xs ! i)"
  using assms
proof (induction xs arbitrary: i)
  case Nil
  then show ?case by simp
next
  case (Cons y ys)
  then show ?case by (cases i) auto
qed

lemma member_le_sum_list_map:
  fixes f :: "'a \<Rightarrow> int"
  assumes "x \<in> set xs" and "\<And>y. y \<in> set xs \<Longrightarrow> 0 \<le> f y"
  shows "f x \<le> sum_list (map f xs)"
  using assms
proof (induction xs)
  case Nil
  then show ?case by simp
next
  case (Cons y ys)
  have "0 \<le> sum_list (map f ys)"
    using Cons.prems(2) by (intro sum_list_nonneg) auto
  moreover have "0 \<le> f y" using Cons.prems(2) by simp
  ultimately show ?case using Cons by fastforce
qed

lemma nth_update: "xs[i := x] ! j = (if i = j \<and> i < length xs then x else xs ! j)"
  by (cases "i < length xs") (auto simp: nth_list_update list_update_beyond)

lemma all_set_update:
  assumes "\<forall>x\<in>set xs. P x" and "P y"
  shows "\<forall>x\<in>set (xs[i := y]). P x"
  using assms by (auto dest: set_update_subset_insert [THEN subsetD])

end
