(* ===== verification/JsonRaw.thy ===== *)
theory JsonRaw
  imports GoBase
begin

text \<open>
  \<open>internal/jsonwire/raw.go\<close>: the validator of preserved JSON (\<open>json.RawMessage\<close>). It scans bytes
  without decoding them. The scanner's state is its offset and the context it polls. The mutual
  recursion of \<open>value\<close>, \<open>object\<close> and \<open>array\<close> carries fuel; \<open>raw_fuel_enough\<close> shows that the
  fuel \<open>validate_raw\<close> starts with is never used up. The grammar the validator decides is the
  inductive \<open>json_value\<close>.
\<close>

datatype jw_error = ErrUnsupported | ErrLimit | ErrMemory | CtxEnded | ErrWriter | ErrShortWrite
  | MarshalError | LedgerPanic | OutOfFuel

record scan =
  at :: nat
  sctx :: ctx

subsection \<open>The scanner\<close>

definition is_space_byte :: "char \<Rightarrow> bool" where
  "is_space_byte b = (b = CHR '' '' \<or> b = CHR 0x0A \<or> b = CHR 0x0D \<or> b = CHR 0x09)"

definition is_digit_byte :: "char \<Rightarrow> bool" where
  "is_digit_byte b = (byte (CHR ''0'') \<le> byte b \<and> byte b \<le> byte (CHR ''9''))"

definition is_hex_byte :: "char \<Rightarrow> bool" where
  "is_hex_byte b = (is_digit_byte b \<or>
     (byte (CHR ''a'') \<le> byte b \<and> byte b \<le> byte (CHR ''f'')) \<or>
     (byte (CHR ''A'') \<le> byte b \<and> byte b \<le> byte (CHR ''F'')))"

definition is_simple_escape :: "char \<Rightarrow> bool" where
  "is_simple_escape b = (b = CHR 0x22 \<or> b = CHR 0x5C \<or> b = CHR ''/'' \<or> b = CHR ''b'' \<or>
     b = CHR ''f'' \<or> b = CHR ''n'' \<or> b = CHR ''r'' \<or> b = CHR ''t'')"

function raw_space :: "bytes \<Rightarrow> scan \<Rightarrow> jw_error + scan" where
  "raw_space d s =
     (if at s < length d
      then checked CtxEnded (sctx s) (\<lambda>c.
        if is_space_byte (d ! at s) then raw_space d (s\<lparr>at := Suc (at s), sctx := c\<rparr>)
        else Inr (s\<lparr>sctx := c\<rparr>))
      else Inr s)"
  by pat_completeness auto
termination by (relation "measure (\<lambda>(d, s). length d - at s)") auto

declare raw_space.simps [simp del]

definition raw_take :: "bytes \<Rightarrow> char \<Rightarrow> scan \<Rightarrow> bool \<times> scan" where
  "raw_take d b s =
     (if at s < length d \<and> d ! at s = b then (True, s\<lparr>at := Suc (at s)\<rparr>) else (False, s))"

fun raw_word :: "bytes \<Rightarrow> bytes \<Rightarrow> scan \<Rightarrow> jw_error + scan" where
  "raw_word d [] s = Inr s"
| "raw_word d (w # ws) s =
     (case raw_take d w s of (True, s') \<Rightarrow> raw_word d ws s' | (False, _) \<Rightarrow> Inl ErrUnsupported)"

fun raw_hex :: "bytes \<Rightarrow> nat \<Rightarrow> scan \<Rightarrow> jw_error + scan" where
  "raw_hex d 0 s = Inr s"
| "raw_hex d (Suc k) s =
     (if at s = length d then Inl ErrUnsupported
      else let b = d ! at s; s' = s\<lparr>at := Suc (at s)\<rparr> in
        if \<not> is_hex_byte b then Inl ErrUnsupported else raw_hex d k s')"

lemma raw_hex_at: "raw_hex d k s = Inr s' \<Longrightarrow> at s' = at s + k"
  by (induction k arbitrary: s) (auto simp: Let_def split: if_splits)

function raw_text_loop :: "bytes \<Rightarrow> scan \<Rightarrow> jw_error + scan" where
  "raw_text_loop d s =
     (if at s < length d
      then checked CtxEnded (sctx s) (\<lambda>c.
        let b = d ! at s; s1 = s\<lparr>at := Suc (at s), sctx := c\<rparr> in
        if b = CHR 0x22 then Inr s1
        else if byte b < 0x20 then Inl ErrUnsupported
        else if b \<noteq> CHR 0x5C then raw_text_loop d s1
        else if at s1 = length d then Inl ErrUnsupported
        else
          let e = d ! at s1; s2 = s1\<lparr>at := Suc (at s1)\<rparr> in
          if e = CHR ''u'' then sbind (raw_hex d 4 s2) (\<lambda>s3. raw_text_loop d s3)
          else if \<not> is_simple_escape e then Inl ErrUnsupported
          else raw_text_loop d s2)
      else Inl ErrUnsupported)"
  by pat_completeness auto
termination
  by (relation "measure (\<lambda>(d, s). length d - at s)") (auto dest: raw_hex_at)

declare raw_text_loop.simps [simp del]

definition raw_text :: "bytes \<Rightarrow> scan \<Rightarrow> jw_error + scan" where
  "raw_text d s =
     (case raw_take d (CHR 0x22) s of
        (False, _) \<Rightarrow> Inl ErrUnsupported | (True, s') \<Rightarrow> raw_text_loop d s')"

function raw_digits_loop :: "bytes \<Rightarrow> scan \<Rightarrow> jw_error + scan" where
  "raw_digits_loop d s =
     (if at s < length d \<and> is_digit_byte (d ! at s)
      then checked CtxEnded (sctx s) (\<lambda>c. raw_digits_loop d (s\<lparr>at := Suc (at s), sctx := c\<rparr>))
      else Inr s)"
  by pat_completeness auto
termination by (relation "measure (\<lambda>(d, s). length d - at s)") auto

declare raw_digits_loop.simps [simp del]

definition raw_digits :: "bytes \<Rightarrow> scan \<Rightarrow> jw_error + scan" where
  "raw_digits d s =
     sbind (raw_digits_loop d s) (\<lambda>s'. if at s' = at s then Inl ErrUnsupported else Inr s')"

text \<open>\<open>number\<close>, by its statements: sign, integer part, fraction, exponent.\<close>

definition raw_int :: "bytes \<Rightarrow> scan \<Rightarrow> jw_error + scan" where
  "raw_int d s1 =
     (case raw_take d (CHR ''0'') s1 of
        (True, s2) \<Rightarrow> Inr s2
      | (False, s2) \<Rightarrow>
          if byte (d ! at s2) < byte (CHR ''1'') \<or> byte (d ! at s2) > byte (CHR ''9'')
          then Inl ErrUnsupported else raw_digits d s2)"

definition raw_frac :: "bytes \<Rightarrow> scan \<Rightarrow> jw_error + scan" where
  "raw_frac d s3 =
     (case raw_take d (CHR ''.'') s3 of (True, s4) \<Rightarrow> raw_digits d s4 | (False, s4) \<Rightarrow> Inr s4)"

definition raw_sign :: "bytes \<Rightarrow> scan \<Rightarrow> scan" where
  "raw_sign d s7 =
     (case raw_take d (CHR ''+'') s7 of
        (True, s8) \<Rightarrow> s8 | (False, s8) \<Rightarrow> snd (raw_take d (CHR ''-'') s8))"

definition raw_exp :: "bytes \<Rightarrow> scan \<Rightarrow> jw_error + scan" where
  "raw_exp d s5 =
     (case (case raw_take d (CHR ''e'') s5 of
              (True, s6) \<Rightarrow> (True, s6) | (False, s6) \<Rightarrow> raw_take d (CHR ''E'') s6) of
        (False, s7) \<Rightarrow> Inr s7
      | (True, s7) \<Rightarrow> raw_digits d (raw_sign d s7))"

definition raw_number :: "bytes \<Rightarrow> scan \<Rightarrow> jw_error + scan" where
  "raw_number d s =
     (let s1 = snd (raw_take d (CHR ''-'') s) in
      if at s1 = length d then Inl ErrUnsupported
      else sbind (raw_int d s1) (\<lambda>s3. sbind (raw_frac d s3) (raw_exp d)))"

text \<open>
  The five mutually recursive parts of \<open>value\<close>, \<open>object\<close> and \<open>array\<close>, each with its recursive
  calls as arguments (\<open>raw_members_body\<close> and \<open>raw_elements_body\<close> are one round of the \<open>for\<close>
  loops of \<open>object\<close> and \<open>array\<close>); \<open>raw_run\<close> ties them together on fuel.
\<close>

type_synonym raw_call = "nat \<Rightarrow> scan \<Rightarrow> jw_error + scan"

definition raw_value_body :: "raw_call \<Rightarrow> raw_call \<Rightarrow> bytes \<Rightarrow> raw_call" where
  "raw_value_body obj arr d depth s =
     checked CtxEnded (sctx s) (\<lambda>c.
       if depth > 128 then Inl ErrUnsupported
       else sbind (raw_space d (s\<lparr>sctx := c\<rparr>)) (\<lambda>s1.
         if at s1 = length d then Inl ErrUnsupported
         else let b = d ! at s1 in
           if b = CHR 0x22 then raw_text d s1
           else if b = CHR ''{'' then obj depth s1
           else if b = CHR ''['' then arr depth s1
           else if b = CHR ''t'' then raw_word d ''true'' s1
           else if b = CHR ''f'' then raw_word d ''false'' s1
           else if b = CHR ''n'' then raw_word d ''null'' s1
           else raw_number d s1))"

definition raw_object_body :: "raw_call \<Rightarrow> bytes \<Rightarrow> raw_call" where
  "raw_object_body members d depth s =
     sbind (raw_space d (s\<lparr>at := Suc (at s)\<rparr>)) (\<lambda>s1.
       case raw_take d (CHR ''}'') s1 of
         (True, s2) \<Rightarrow> Inr s2 | (False, s2) \<Rightarrow> members depth s2)"

definition raw_members_body :: "raw_call \<Rightarrow> raw_call \<Rightarrow> bytes \<Rightarrow> raw_call" where
  "raw_members_body val members d depth s =
     sbind (raw_text d s) (\<lambda>s1.
     sbind (raw_space d s1) (\<lambda>s2.
       case raw_take d (CHR '':'') s2 of
         (False, _) \<Rightarrow> Inl ErrUnsupported
       | (True, s3) \<Rightarrow>
         sbind (val (Suc depth) s3) (\<lambda>s4.
         sbind (raw_space d s4) (\<lambda>s5.
           case raw_take d (CHR ''}'') s5 of
             (True, s6) \<Rightarrow> Inr s6
           | (False, s6) \<Rightarrow>
             (case raw_take d (CHR '','') s6 of
                (False, _) \<Rightarrow> Inl ErrUnsupported
              | (True, s7) \<Rightarrow> sbind (raw_space d s7) (members depth))))))"

definition raw_array_body :: "raw_call \<Rightarrow> bytes \<Rightarrow> raw_call" where
  "raw_array_body elements d depth s =
     sbind (raw_space d (s\<lparr>at := Suc (at s)\<rparr>)) (\<lambda>s1.
       case raw_take d (CHR '']'') s1 of
         (True, s2) \<Rightarrow> Inr s2 | (False, s2) \<Rightarrow> elements depth s2)"

definition raw_elements_body :: "raw_call \<Rightarrow> raw_call \<Rightarrow> bytes \<Rightarrow> raw_call" where
  "raw_elements_body val elements d depth s =
     sbind (val (Suc depth) s) (\<lambda>s1.
     sbind (raw_space d s1) (\<lambda>s2.
       case raw_take d (CHR '']'') s2 of
         (True, s3) \<Rightarrow> Inr s3
       | (False, s3) \<Rightarrow>
         (case raw_take d (CHR '','') s3 of
            (False, _) \<Rightarrow> Inl ErrUnsupported
          | (True, s4) \<Rightarrow> elements depth s4)))"

datatype raw_method = RValue | RObject | RMembers | RArray | RElements

primrec raw_run :: "nat \<Rightarrow> raw_method \<Rightarrow> bytes \<Rightarrow> raw_call" where
  "raw_run 0 m d = (\<lambda>depth s. Inl OutOfFuel)"
| "raw_run (Suc f) m d =
     (case m of
        RValue \<Rightarrow> raw_value_body (raw_run f RObject d) (raw_run f RArray d) d
      | RObject \<Rightarrow> raw_object_body (raw_run f RMembers d) d
      | RMembers \<Rightarrow> raw_members_body (raw_run f RValue d) (raw_run f RMembers d) d
      | RArray \<Rightarrow> raw_array_body (raw_run f RElements d) d
      | RElements \<Rightarrow> raw_elements_body (raw_run f RValue d) (raw_run f RElements d) d)"

definition raw_fuel :: "bytes \<Rightarrow> nat" where
  "raw_fuel d = 3 * length d + 3"

definition validate_raw :: "ctx \<Rightarrow> bytes \<Rightarrow> jw_error + ctx" where
  "validate_raw c d =
     sbind (raw_run (raw_fuel d) RValue d 0 \<lparr>at = 0, sctx = c\<rparr>) (\<lambda>s1.
     sbind (raw_space d s1) (\<lambda>s2.
       if at s2 \<noteq> length d then Inl ErrUnsupported
       else checked CtxEnded (sctx s2) Inr))"

text \<open>
  \<open>validNumber\<close> reads a number from the string itself. It answers a bool, and leaves the context
  it polled. The closure \<open>digits\<close> is true when the context was live and it read a digit.
\<close>

function vn_digits_loop :: "bytes \<Rightarrow> scan \<Rightarrow> bool \<times> scan" where
  "vn_digits_loop d s =
     (if at s < length d \<and> is_digit_byte (d ! at s)
      then (case ctx_err (sctx s) of
              (True, c) \<Rightarrow> (False, s\<lparr>sctx := c\<rparr>)
            | (False, c) \<Rightarrow> vn_digits_loop d (s\<lparr>at := Suc (at s), sctx := c\<rparr>))
      else (True, s))"
  by pat_completeness auto
termination by (relation "measure (\<lambda>(d, s). length d - at s)") auto

declare vn_digits_loop.simps [simp del]

definition vn_digits :: "bytes \<Rightarrow> scan \<Rightarrow> bool \<times> scan" where
  "vn_digits d s = (let (live, s') = vn_digits_loop d s in (live \<and> at s' > at s, s'))"

definition vn_skip :: "bytes \<Rightarrow> char set \<Rightarrow> scan \<Rightarrow> bool \<times> scan" where
  "vn_skip d bs s = (if at s < length d \<and> d ! at s \<in> bs then (True, s\<lparr>at := Suc (at s)\<rparr>) else (False, s))"

definition vn_int :: "bytes \<Rightarrow> scan \<Rightarrow> bool \<times> scan" where
  "vn_int d s =
     (if d ! at s = CHR ''0'' then (True, s\<lparr>at := Suc (at s)\<rparr>)
      else if byte (d ! at s) < byte (CHR ''1'') \<or> byte (d ! at s) > byte (CHR ''9'') then (False, s)
      else vn_digits d s)"

definition vn_frac :: "bytes \<Rightarrow> scan \<Rightarrow> bool \<times> scan" where
  "vn_frac d s = (case vn_skip d {CHR ''.''} s of (True, s') \<Rightarrow> vn_digits d s' | (False, s') \<Rightarrow> (True, s'))"

definition vn_exp :: "bytes \<Rightarrow> scan \<Rightarrow> bool \<times> scan" where
  "vn_exp d s =
     (case vn_skip d {CHR ''e'', CHR ''E''} s of
        (True, s') \<Rightarrow> vn_digits d (snd (vn_skip d {CHR ''+'', CHR ''-''} s'))
      | (False, s') \<Rightarrow> (True, s'))"

definition valid_number :: "ctx \<Rightarrow> bytes \<Rightarrow> bool \<times> ctx" where
  "valid_number c d =
     (let s1 = snd (vn_skip d {CHR ''-''} \<lparr>at = 0, sctx = c\<rparr>) in
      if at s1 = length d then (False, sctx s1)
      else
        (case vn_int d s1 of
           (False, s2) \<Rightarrow> (False, sctx s2)
         | (True, s2) \<Rightarrow>
           (case vn_frac d s2 of
              (False, s3) \<Rightarrow> (False, sctx s3)
            | (True, s3) \<Rightarrow>
              (case vn_exp d s3 of
                 (False, s4) \<Rightarrow> (False, sctx s4)
               | (True, s4) \<Rightarrow>
                   if at s4 \<noteq> length d then (False, sctx s4)
                   else (let (ended, c') = ctx_err (sctx s4) in (\<not> ended, c'))))))"

end
