(* ===== verification/GoUtf8.thy ===== *)
theory GoUtf8
  imports GoBase
begin

text \<open>UTF-8 as \<open>unicode/utf8\<close> decodes and validates it.\<close>

text \<open>\<open>utf8.DecodeRuneInString\<close> as the pair of the rune and its size; an invalid byte is \<open>RuneError\<close>, 1.\<close>

definition rune_error :: nat where
  "rune_error = 0xFFFD"

definition cont_byte :: "nat \<Rightarrow> nat \<Rightarrow> char \<Rightarrow> bool" where
  "cont_byte lo hi b = (lo \<le> byte b \<and> byte b \<le> hi)"

definition decode_rune2 :: "nat \<Rightarrow> bytes \<Rightarrow> nat \<times> nat" where
  "decode_rune2 b0 r =
     (case r of
        c1 # _ \<Rightarrow> if cont_byte 0x80 0xBF c1
          then ((b0 - 0xC0) * 64 + (byte c1 - 0x80), 2) else (rune_error, 1)
      | _ \<Rightarrow> (rune_error, 1))"

definition decode_rune3 :: "nat \<Rightarrow> bytes \<Rightarrow> nat \<times> nat" where
  "decode_rune3 b0 r =
     (case r of
        c1 # c2 # _ \<Rightarrow>
          if cont_byte (if b0 = 0xE0 then 0xA0 else 0x80) (if b0 = 0xED then 0x9F else 0xBF) c1 \<and>
             cont_byte 0x80 0xBF c2
          then ((b0 - 0xE0) * 4096 + (byte c1 - 0x80) * 64 + (byte c2 - 0x80), 3) else (rune_error, 1)
      | _ \<Rightarrow> (rune_error, 1))"

definition decode_rune4 :: "nat \<Rightarrow> bytes \<Rightarrow> nat \<times> nat" where
  "decode_rune4 b0 r =
     (case r of
        c1 # c2 # c3 # _ \<Rightarrow>
          if cont_byte (if b0 = 0xF0 then 0x90 else 0x80) (if b0 = 0xF4 then 0x8F else 0xBF) c1 \<and>
             cont_byte 0x80 0xBF c2 \<and> cont_byte 0x80 0xBF c3
          then ((b0 - 0xF0) * 262144 + (byte c1 - 0x80) * 4096 + (byte c2 - 0x80) * 64 + (byte c3 - 0x80), 4)
          else (rune_error, 1)
      | _ \<Rightarrow> (rune_error, 1))"

definition decode_rune :: "bytes \<Rightarrow> nat \<times> nat" where
  "decode_rune s =
     (case s of
        [] \<Rightarrow> (rune_error, 0)
      | c0 # r \<Rightarrow>
         if byte c0 < 0x80 then (byte c0, 1)
         else if byte c0 < 0xC2 \<or> 0xF4 < byte c0 then (rune_error, 1)
         else if byte c0 < 0xE0 then decode_rune2 (byte c0) r
         else if byte c0 < 0xF0 then decode_rune3 (byte c0) r
         else decode_rune4 (byte c0) r)"

lemma decode_rune2_size: "0 < snd (decode_rune2 b r) \<and> snd (decode_rune2 b r) \<le> Suc (length r)"
  unfolding decode_rune2_def by (simp split: list.split)

lemma decode_rune3_size: "0 < snd (decode_rune3 b r) \<and> snd (decode_rune3 b r) \<le> Suc (length r)"
  unfolding decode_rune3_def by (simp split: list.split)

lemma decode_rune4_size: "0 < snd (decode_rune4 b r) \<and> snd (decode_rune4 b r) \<le> Suc (length r)"
  unfolding decode_rune4_def by (simp split: list.split)

lemma decode_rune_size: "s \<noteq> [] \<Longrightarrow> 0 < snd (decode_rune s) \<and> snd (decode_rune s) \<le> length s"
  by (cases s) (simp_all add: decode_rune_def decode_rune2_size decode_rune3_size decode_rune4_size)

text \<open>\<open>utf8.ValidString\<close>: no byte of the string decodes as an error of one byte.\<close>

function valid_utf8 :: "bytes \<Rightarrow> bool" where
  "valid_utf8 s =
     (if s = [] then True
      else (let (r, size) = decode_rune s in
        if r = rune_error \<and> size = 1 then False else valid_utf8 (drop size s)))"
  by pat_completeness auto
termination
proof (relation "measure length")
  fix s :: bytes and x r size
  assume "s \<noteq> []" "x = decode_rune s" "(r, size) = x"
  then show "(drop size s, s) \<in> measure length" using decode_rune_size [of s] by (cases "decode_rune s") simp
qed simp

declare valid_utf8.simps [simp del]

end
