(* ===== verification/JsonWire.thy ===== *)
theory JsonWire
  imports Complex_Main JsonRaw GoUtf8 "HOL-Library.List_Lexorder" "HOL-Library.Char_ord"
begin

text \<open>
  \<open>internal/jsonwire/size.go\<close>, \<open>traverse.go\<close> and \<open>encode.go\<close>: one traversal of a Go value, used both
  to bound its JSON wire size (\<open>Bound\<close>) and to stream it (\<open>Encode\<close>).

  \<^item> \<open>gv\<close> is what the traversal observes of a \<open>reflect.Value\<close>: its kind, its contents, and for
    types that need it the answer of a method (\<open>Validate\<close>, \<open>MarshalJSON\<close>, \<open>IsZero\<close>). Maps are
    lists of entries with distinct keys, in the order \<open>MapRange\<close> yields them.
  \<^item> A step is an \<open>act\<close>: it takes the state to an optional error and the next state, since the
    state matters after an error too (deferred releases). \<open>run_all\<close> stops at the first error.
  \<^item> \<open>w_left = Some n\<close> is a traversal with a counter, \<open>None\<close> one with a stream encoder.
  \<^item> \<open>wenv\<close> holds what is not under src: the \<open>io.Writer\<close>, the ledger behind \<open>MemoryBudget\<close>, the
    number of comparator polls \<open>slices.SortFunc\<close> makes, and \<open>strconv.FormatFloat\<close>.
\<close>

subsection \<open>Values\<close>

record sfield =
  f_name :: bytes
  f_exported :: bool
  f_anonymous :: bool
  f_tag :: bytes
  f_basic :: bool
  f_zeroer :: bool

text \<open>
  \<open>f_basic\<close>: the kind (of a pointer's target) is Bool, Int..Float64 or String. \<open>f_zeroer\<close>: the
  field's type has a method \<open>IsZero() bool\<close>. Floats are a sign and an exact magnitude.
\<close>

datatype gv =
    GInvalid
  | GNil
  | GRef gv
  | GBool bool
  | GInt int
  | GUint nat
  | GFloat nat bool rat
  | GInfNan
  | GString bytes
  | GNilSlice
  | GBytes bytes
  | GSlice "gv list"
  | GArray "gv list"
  | GNilMap
  | GMap bool "(bytes \<times> gv) list"
  | GStruct "(sfield \<times> gv) list"
  | GTime bool bool "bytes option"
  | GNumber bytes
  | GRaw "bytes option"
  | GBatch "bytes option"
  | GNativeImport bool "(sfield \<times> gv) list"
  | GMarshaler bool bool
  | GOther bool

record ('w, 'b) wenv =
  e_write :: "'w \<Rightarrow> bytes \<Rightarrow> (nat \<times> bool) \<times> 'w"
  e_rsv :: "int \<Rightarrow> 'b \<Rightarrow> (bool \<times> 'b) option"
  e_rel :: "int \<Rightarrow> 'b \<Rightarrow> 'b option"
  e_polls :: "bytes list \<Rightarrow> nat"
  e_float :: "bool \<Rightarrow> rat \<Rightarrow> char \<Rightarrow> nat \<Rightarrow> bytes"

record ('w, 'b) wst =
  w_ctx :: ctx
  w_left :: "int option"
  w_buf :: bytes
  w_writer :: 'w
  w_budget :: 'b

type_synonym 's act = "'s \<Rightarrow> jw_error option \<times> 's"

subsection \<open>Steps\<close>

definition ok :: "'s act" where
  "ok s = (None, s)"

definition fail :: "jw_error \<Rightarrow> 's act" where
  "fail e s = (Some e, s)"

fun run_all :: "'s act list \<Rightarrow> 's act" where
  "run_all [] s = (None, s)"
| "run_all (a # as) s = (case a s of (Some e, s') \<Rightarrow> (Some e, s') | (None, s') \<Rightarrow> run_all as s')"

definition poll :: "('w, 'b) wst act" where
  "poll s = (case ctx_err (w_ctx s) of
     (True, c) \<Rightarrow> (Some CtxEnded, s\<lparr>w_ctx := c\<rparr>) | (False, c) \<Rightarrow> (None, s\<lparr>w_ctx := c\<rparr>))"

subsection \<open>Text\<close>

definition safe_ascii :: "char \<Rightarrow> bool" where
  "safe_ascii b = (byte b \<ge> 0x20 \<and> byte b < 0x80 \<and> b \<noteq> CHR 0x22 \<and> b \<noteq> CHR 0x5C \<and>
     b \<noteq> CHR ''<'' \<and> b \<noteq> CHR ''>'' \<and> b \<noteq> CHR ''&'')"

definition run_limit :: nat where
  "run_limit = 32768"

text \<open>A maximal run of safe bytes, at most 32 KiB long.\<close>

definition safe_run :: "bytes \<Rightarrow> bytes" where
  "safe_run s = takeWhile safe_ascii (take run_limit s)"

subsection \<open>The counter\<close>

definition count_add :: "int \<Rightarrow> ('w, 'b) wst act" where
  "count_add n s =
     (case w_left s of
        None \<Rightarrow> (None, s)
      | Some l \<Rightarrow> if n < 0 \<or> n > l then (Some ErrLimit, s) else (None, s\<lparr>w_left := Some (l - n)\<rparr>))"

text \<open>The size of the character at the head of s, and how many bytes of s it takes.\<close>

definition count_char :: "bytes \<Rightarrow> int \<times> nat" where
  "count_char s =
     (let b = hd s in
      if b = CHR 0x22 \<or> b = CHR 0x5C \<or> b = CHR 0x0A \<or> b = CHR 0x0D \<or> b = CHR 0x09 \<or> b = CHR 0x08 \<or> b = CHR 0x0C
      then (2, 1)
      else if byte b < 0x20 \<or> b = CHR ''<'' \<or> b = CHR ''>'' \<or> b = CHR ''&'' then (6, 1)
      else if byte b < 0x80 then (1, 1)
      else let (r, size) = decode_rune s in
        (if r = rune_error \<and> size = 1 \<or> r = 0x2028 \<or> r = 0x2029 then 6 else int size, size))"

lemma count_char_size: "s \<noteq> [] \<Longrightarrow> 0 < snd (count_char s) \<and> snd (count_char s) \<le> length s"
  using decode_rune_size [of s] unfolding count_char_def Let_def
  by (cases "decode_rune s") simp

lemma safe_run_nonempty: "s \<noteq> [] \<Longrightarrow> safe_ascii (hd s) \<Longrightarrow> safe_run s \<noteq> []"
  by (cases s) (auto simp: safe_run_def run_limit_def take_Cons')

lemma length_safe_run: "length (safe_run s) \<le> length s"
  unfolding safe_run_def by (rule order_trans [OF length_takeWhile_le]) simp

text \<open>What one round of \<open>counter.text\<close> adds, and how many bytes it moves on.\<close>

definition count_next :: "bytes \<Rightarrow> int \<times> nat" where
  "count_next r = (if safe_ascii (hd r) then (int (length (safe_run r)), length (safe_run r)) else count_char r)"

lemma count_next_size: "r \<noteq> [] \<Longrightarrow> 0 < snd (count_next r) \<and> snd (count_next r) \<le> length r"
  using count_char_size [of r] safe_run_nonempty [of r] length_safe_run [of r]
  by (simp add: count_next_def)

text \<open>The loop of \<open>counter.text\<close>: the rest of the string, its offset i, and \<open>checkedAt\<close>.\<close>

function count_text_loop :: "bytes \<Rightarrow> int \<Rightarrow> int \<Rightarrow> ('w, 'b) wst act" where
  "count_text_loop r i checkedAt s =
     (if r = [] then (None, s)
      else
        (case run_all [if i - checkedAt \<ge> 256 then poll else ok, count_add (fst (count_next r))] s of
           (Some e, s') \<Rightarrow> (Some e, s')
         | (None, s') \<Rightarrow>
             count_text_loop (drop (snd (count_next r)) r) (i + int (snd (count_next r)))
               (if i - checkedAt \<ge> 256 then i else checkedAt) s'))"
  by pat_completeness auto
termination
proof (relation "measure (\<lambda>(r, i, c, s). length r)", goal_cases)
  case 1
  then show ?case by simp
next
  case 2
  then show ?case using count_next_size by simp
qed

declare count_text_loop.simps [simp del]

definition count_text :: "bytes \<Rightarrow> ('w, 'b) wst act" where
  "count_text str = run_all [count_add 2, count_text_loop str 0 (- 256)]"


text \<open>\<open>counter.rawMessage\<close>: each offset is polled when it is a multiple of 256.\<close>

definition line_separator :: "bytes \<Rightarrow> bool" where
  "line_separator r = (case r of a # b # c # _ \<Rightarrow>
     a = CHR 0xE2 \<and> b = CHR 0x80 \<and> (c = CHR 0xA8 \<or> c = CHR 0xA9) | _ \<Rightarrow> False)"

definition html_byte :: "char \<Rightarrow> bool" where
  "html_byte b = (b = CHR ''<'' \<or> b = CHR ''>'' \<or> b = CHR ''&'')"

function count_raw_loop :: "bytes \<Rightarrow> nat \<Rightarrow> ('w, 'b) wst act" where
  "count_raw_loop r i s =
     (if r = [] then (None, s)
      else
        (case run_all [if i mod 256 = 0 then poll else ok,
                       if html_byte (hd r) then count_add 5 else ok,
                       if line_separator r then count_add 3 else ok] s of
           (Some e, s') \<Rightarrow> (Some e, s')
         | (None, s') \<Rightarrow>
             (let k = (if line_separator r then 3 else 1) in count_raw_loop (drop k r) (i + k) s')))"
  by pat_completeness auto
termination by (relation "measure (\<lambda>(r, i, s). length r)") auto

declare count_raw_loop.simps [simp del]

definition count_raw :: "bytes \<Rightarrow> ('w, 'b) wst act" where
  "count_raw x = run_all [count_add (int (length x)), count_raw_loop x 0]"

subsection \<open>The stream encoder\<close>

definition buffer_size :: nat where
  "buffer_size = 32768"

definition flush :: "('w, 'b) wenv \<Rightarrow> ('w, 'b) wst act" where
  "flush E s =
     (case poll s of
        (Some e, s1) \<Rightarrow> (Some e, s1)
      | (None, s1) \<Rightarrow>
          if w_buf s1 = [] then (None, s1)
          else
            (let ((n, failed), w) = e_write E (w_writer s1) (w_buf s1) in
             (if failed then Some ErrWriter else if n \<noteq> length (w_buf s1) then Some ErrShortWrite else None,
              s1\<lparr>w_writer := w, w_buf := []\<rparr>)))"

lemma flush_buf: "flush E s = (None, s') \<Longrightarrow> w_buf s' = []"
  by (auto simp: flush_def poll_def split: prod.splits bool.splits option.splits if_splits)

text \<open>
  \<open>streamEncoder.text\<close>, and \<open>Write\<close>, which differs in the count it also returns: copy what fits,
  flush when the buffer is full.
\<close>

definition text_round :: "('w, 'b) wenv \<Rightarrow> bytes \<Rightarrow> ('w, 'b) wst act" where
  "text_round E str s =
     (case poll s of
        (Some e, s1) \<Rightarrow> (Some e, s1)
      | (None, s1) \<Rightarrow>
         (let s2 = s1\<lparr>w_buf := w_buf s1 @ take (buffer_size - length (w_buf s1)) str\<rparr> in
          if length (w_buf s2) \<ge> buffer_size then flush E s2 else (None, s2)))"

lemma text_round_buf:
  assumes "text_round E str s = (None, s')"
  shows "length (w_buf s') < buffer_size"
  using assms
  by (auto simp: text_round_def Let_def not_le buffer_size_def dest: flush_buf split: prod.splits option.splits if_splits)

function stream_text :: "('w, 'b) wenv \<Rightarrow> bytes \<Rightarrow> ('w, 'b) wst act" where
  "stream_text E str s =
     (if str = [] then (None, s)
      else
        (case text_round E str s of
           (Some e, s') \<Rightarrow> (Some e, s')
         | (None, s') \<Rightarrow> stream_text E (drop (buffer_size - length (w_buf s)) str) s'))"
  by pat_completeness auto
termination
proof (relation "measure (\<lambda>(E, str, s). 2 * length str + (if length (w_buf s) \<ge> buffer_size then 1 else 0))", goal_cases)
  case 1
  then show ?case by simp
next
  case (2 E str s x s')
  then have "text_round E str s = (None, s')" by simp
  from text_round_buf [OF this] 2(1) show ?case by (cases str) (auto simp: not_le)
qed

declare stream_text.simps [simp del]

definition hex_digit :: "nat \<Rightarrow> char" where
  "hex_digit n = ''0123456789abcdef'' ! n"

definition unicode_escape :: "char \<Rightarrow> bytes" where
  "unicode_escape b = [CHR 0x5C, CHR ''u'', CHR ''0'', CHR ''0'', hex_digit (byte b div 16), hex_digit (byte b mod 16)]"

definition replacement :: bytes where
  "replacement = [CHR 0xEF, CHR 0xBF, CHR 0xBD]"

text \<open>What \<open>escaped\<close> emits for the character at the head of r, and how many bytes it moves on.\<close>

definition escape_char :: "bytes \<Rightarrow> bytes \<times> nat" where
  "escape_char r =
     (let b = hd r in
      if b = CHR 0x22 then ([CHR 0x5C, CHR 0x22], 1)
      else if b = CHR 0x5C then ([CHR 0x5C, CHR 0x5C], 1)
      else if b = CHR 0x0A then ([CHR 0x5C, CHR ''n''], 1)
      else if b = CHR 0x0D then ([CHR 0x5C, CHR ''r''], 1)
      else if b = CHR 0x09 then ([CHR 0x5C, CHR ''t''], 1)
      else if b = CHR 0x08 then ([CHR 0x5C, CHR ''b''], 1)
      else if b = CHR 0x0C then ([CHR 0x5C, CHR ''f''], 1)
      else if byte b < 0x20 \<or> b = CHR ''<'' \<or> b = CHR ''>'' \<or> b = CHR ''&'' then (unicode_escape b, 1)
      else if byte b \<ge> 0x80 then
        (let (rn, size) = decode_rune r in
         (if rn = 0x2029 then CHR 0x5C # ''u2029''
          else if rn = 0x2028 then CHR 0x5C # ''u2028''
          else if rn = rune_error \<and> size = 1 then replacement
          else take size r, size))
      else ([b], 1))"

definition escape_next :: "bytes \<Rightarrow> bytes \<times> nat" where
  "escape_next r = (if safe_ascii (hd r) then (safe_run r, length (safe_run r)) else escape_char r)"

lemma escape_char_size: "r \<noteq> [] \<Longrightarrow> 0 < snd (escape_char r) \<and> snd (escape_char r) \<le> length r"
  using decode_rune_size [of r] unfolding escape_char_def Let_def
  by (cases "decode_rune r") (simp add: Suc_le_eq)

lemma escape_next_size: "r \<noteq> [] \<Longrightarrow> 0 < snd (escape_next r) \<and> snd (escape_next r) \<le> length r"
  using escape_char_size [of r] safe_run_nonempty [of r] length_safe_run [of r]
  by (simp add: escape_next_def)

function escaped :: "(bytes \<Rightarrow> ('w, 'b) wst act) \<Rightarrow> bytes \<Rightarrow> ('w, 'b) wst act" where
  "escaped emit r s =
     (if r = [] then (None, s)
      else
        (case run_all [poll, emit (fst (escape_next r))] s of
           (Some e, s') \<Rightarrow> (Some e, s')
         | (None, s') \<Rightarrow> escaped emit (drop (snd (escape_next r)) r) s'))"
  by pat_completeness auto
termination
proof (relation "measure (\<lambda>(f, r, s). length r)", goal_cases)
  case 1
  then show ?case by simp
next
  case 2
  then show ?case using escape_next_size by simp
qed

declare escaped.simps [simp del]

definition stream_quote :: "('w, 'b) wenv \<Rightarrow> bytes \<Rightarrow> bool \<Rightarrow> ('w, 'b) wst act" where
  "stream_quote E str double =
     (let emit = (if double then (\<lambda>part. escaped (stream_text E) part) else stream_text E);
          q = [CHR 0x22] in
      run_all [stream_text E q, if double then emit q else ok, escaped emit str,
               if double then emit q else ok, stream_text E q])"

text \<open>
  Base64 as \<open>encoding/base64\<close> streams it: runs of at most 768 data bytes in whole groups of three,
  then \<open>Close\<close> with the padded rest.
\<close>

definition b64_char :: "nat \<Rightarrow> char" where
  "b64_char n = ''ABCDEFGHIJKLMNOPQRSTUVWXYZabcdefghijklmnopqrstuvwxyz0123456789+/'' ! n"

fun b64 :: "bytes \<Rightarrow> bytes" where
  "b64 [] = []"
| "b64 [a] = [b64_char (byte a div 4), b64_char (byte a mod 4 * 16), CHR ''='', CHR ''='']"
| "b64 [a, b] = [b64_char (byte a div 4), b64_char (byte a mod 4 * 16 + byte b div 16),
     b64_char (byte b mod 16 * 4), CHR ''='']"
| "b64 (a # b # c # r) = b64_char (byte a div 4) # b64_char (byte a mod 4 * 16 + byte b div 16) #
     b64_char (byte b mod 16 * 4 + byte c div 64) # b64_char (byte c mod 64) # b64 r"

function b64_write :: "('w, 'b) wenv \<Rightarrow> bytes \<Rightarrow> ('w, 'b) wst act" where
  "b64_write E p s =
     (if length p < 3 then (if p = [] then (None, s) else stream_text E (b64 p) s)
      else
        (let nn = min 768 (length p - length p mod 3) in
         case stream_text E (b64 (take nn p)) s of
           (Some e, s') \<Rightarrow> (Some e, s')
         | (None, s') \<Rightarrow> b64_write E (drop nn p) s'))"
  by pat_completeness auto
termination
proof (relation "measure (\<lambda>(E, p, s). length p)", goal_cases)
  case 1
  then show ?case by simp
next
  case (2 E p s nn)
  have "length p mod 3 < 3" by simp
  then show ?case using 2 by auto
qed

declare b64_write.simps [simp del]

definition stream_base64 :: "('w, 'b) wenv \<Rightarrow> bytes \<Rightarrow> ('w, 'b) wst act" where
  "stream_base64 E data =
     run_all [stream_text E [CHR 0x22], b64_write E data, stream_text E [CHR 0x22]]"

definition raw_escape :: "bytes \<Rightarrow> bytes" where
  "raw_escape r =
     (if html_byte (hd r) then unicode_escape (hd r)
      else if line_separator r then (if r ! 2 = CHR 0xA9 then CHR 0x5C # ''u2029'' else CHR 0x5C # ''u2028'')
      else [hd r])"

definition raw_quote_state :: "char \<Rightarrow> bool \<Rightarrow> bool \<Rightarrow> bool \<times> bool" where
  "raw_quote_state b inString esc =
     (if inString then
        (if esc then (True, False) else if b = CHR 0x5C then (True, True)
         else if b = CHR 0x22 then (False, False) else (True, False))
      else (b = CHR 0x22, esc))"

function stream_raw_loop :: "('w, 'b) wenv \<Rightarrow> bytes \<Rightarrow> bool \<Rightarrow> bool \<Rightarrow> ('w, 'b) wst act" where
  "stream_raw_loop E r inString esc s =
     (if r = [] then (None, s)
      else
        (case poll s of
           (Some e, s1) \<Rightarrow> (Some e, s1)
         | (None, s1) \<Rightarrow>
           if \<not> inString \<and> is_space_byte (hd r) then stream_raw_loop E (tl r) inString esc s1
           else
             (case stream_text E (raw_escape r) s1 of
                (Some e, s2) \<Rightarrow> (Some e, s2)
              | (None, s2) \<Rightarrow>
                  stream_raw_loop E (drop (if line_separator r then 3 else 1) r)
                    (fst (raw_quote_state (hd r) inString esc)) (snd (raw_quote_state (hd r) inString esc)) s2)))"
  by pat_completeness auto
termination by (relation "measure (\<lambda>(E, r, i, e, s). length r)") auto

declare stream_raw_loop.simps [simp del]


subsection \<open>Struct fields\<close>

definition cut :: "char \<Rightarrow> bytes \<Rightarrow> bytes \<times> bytes" where
  "cut c s = (takeWhile (\<lambda>x. x \<noteq> c) s, tl (dropWhile (\<lambda>x. x \<noteq> c) s))"

fun contains_sub :: "bytes \<Rightarrow> bytes \<Rightarrow> bool" where
  "contains_sub [] sub = (sub = [])"
| "contains_sub (x # xs) sub = (take (length sub) (x # xs) = sub \<or> contains_sub xs sub)"

definition has_option :: "bytes \<Rightarrow> bytes \<Rightarrow> bool" where
  "has_option opts opt = contains_sub ('','' @ opts @ '','') ('','' @ opt @ '','')"

text \<open>\<open>reflect.Value.IsZero\<close> of the contents.\<close>

primrec is_zero :: "gv \<Rightarrow> bool" where
  "is_zero GInvalid = True"
| "is_zero GNil = True"
| "is_zero (GRef v) = False"
| "is_zero (GBool b) = (\<not> b)"
| "is_zero (GInt n) = (n = 0)"
| "is_zero (GUint n) = (n = 0)"
| "is_zero (GFloat bits neg m) = (\<not> neg \<and> m = 0)"
| "is_zero GInfNan = False"
| "is_zero (GString s) = (s = [])"
| "is_zero GNilSlice = True"
| "is_zero (GBytes s) = False"
| "is_zero (GSlice vs) = False"
| "is_zero (GArray vs) = list_all id (map is_zero vs)"
| "is_zero GNilMap = True"
| "is_zero (GMap sk kvs) = False"
| "is_zero (GStruct fs) = list_all snd (map (map_prod id is_zero) fs)"
| "is_zero (GTime z rz t) = rz"
| "is_zero (GNumber s) = (s = [])"
| "is_zero (GRaw x) = (x = None)"
| "is_zero (GBatch x) = (x = Some [])"
| "is_zero (GNativeImport valid fs) = list_all snd (map (map_prod id is_zero) fs)"
| "is_zero (GMarshaler e z) = z"
| "is_zero (GOther z) = z"

fun wire_empty :: "gv \<Rightarrow> bool" where
  "wire_empty (GArray vs) = (vs = [])"
| "wire_empty (GMap sk kvs) = (kvs = [])"
| "wire_empty GNilMap = True"
| "wire_empty (GSlice vs) = (vs = [])"
| "wire_empty (GBytes s) = (s = [])"
| "wire_empty GNilSlice = True"
| "wire_empty (GString s) = (s = [])"
| "wire_empty (GNumber s) = (s = [])"
| "wire_empty (GRaw x) = (case x of None \<Rightarrow> True | Some s \<Rightarrow> s = [])"
| "wire_empty (GBool b) = (\<not> b)"
| "wire_empty (GInt n) = (n = 0)"
| "wire_empty (GUint n) = (n = 0)"
| "wire_empty (GFloat bits neg m) = (\<not> neg \<and> m = 0)"
| "wire_empty GInfNan = False"
| "wire_empty GNil = True"
| "wire_empty (GRef v) = False"
| "wire_empty (GMarshaler e z) = e"
| "wire_empty _ = False"

fun wire_zero :: "bool \<Rightarrow> gv \<Rightarrow> jw_error + bool" where
  "wire_zero zeroer (GTime z rz t) = Inr z"
| "wire_zero zeroer (GBatch x) = Inr (x = Some [])"
| "wire_zero zeroer v = (if zeroer then Inl ErrUnsupported else Inr (is_zero v))"

text \<open>\<open>field\<close>: \<open>None\<close> is a skipped field, \<open>Some (name, quoted)\<close> one to write.\<close>

definition field :: "sfield \<Rightarrow> gv \<Rightarrow> jw_error + (bytes \<times> bool) option" where
  "field f v =
     (if \<not> f_exported f \<and> \<not> f_anonymous f then Inr None
      else if f_tag f = ''-'' then Inr None
      else if f_anonymous f then Inl ErrUnsupported
      else
        (let (name0, opts) = cut (CHR '','') (f_tag f);
             name = (if name0 = [] then f_name f else name0) in
         if has_option opts ''omitempty'' \<and> wire_empty v then Inr None
         else
           sbind (if has_option opts ''omitzero'' then wire_zero (f_zeroer f) v else Inr False) (\<lambda>zero.
             if zero then Inr None
             else Inr (Some (name, has_option opts ''string'' \<and> f_basic f)))))"

subsection \<open>The traversal\<close>

definition literal :: "('w, 'b) wenv \<Rightarrow> bytes \<Rightarrow> int \<Rightarrow> ('w, 'b) wst act" where
  "literal E str bound s = (if w_left s \<noteq> None then count_add bound s else stream_text E str s)"

definition quoted_text :: "('w, 'b) wenv \<Rightarrow> bytes \<Rightarrow> ('w, 'b) wst act" where
  "quoted_text E str s = (if w_left s \<noteq> None then count_text str s else stream_quote E str False s)"

definition punctuation :: "('w, 'b) wenv \<Rightarrow> bytes \<Rightarrow> ('w, 'b) wst act" where
  "punctuation E str = literal E str (int (length str))"

definition scalar :: "('w, 'b) wenv \<Rightarrow> bytes \<Rightarrow> int \<Rightarrow> bool \<Rightarrow> ('w, 'b) wst act" where
  "scalar E str bound quoted s =
     (if quoted
      then (if w_left s \<noteq> None then count_add (bound + 2) s else quoted_text E str s)
      else literal E str bound s)"

text \<open>The doubly quoted string of a \<open>",string"\<close> field.\<close>

definition quoted_string :: "('w, 'b) wenv \<Rightarrow> bytes \<Rightarrow> ('w, 'b) wst act" where
  "quoted_string E str s =
     (case w_left s of
        None \<Rightarrow> stream_quote E str True s
      | Some left0 \<Rightarrow>
        (case count_text str s of
           (Some e, s') \<Rightarrow> (Some e, s')
         | (None, s') \<Rightarrow> count_add (left0 - the (w_left s') + 2) s'))"

fun dec_nat :: "nat \<Rightarrow> bytes" where
  "dec_nat n = (if n < 10 then [char_of (48 + n)] else dec_nat (n div 10) @ [char_of (48 + n mod 10)])"

declare dec_nat.simps [simp del]

definition format_int :: "int \<Rightarrow> bytes" where
  "format_int n = (if n < 0 then CHR ''-'' # dec_nat (nat (- n)) else dec_nat (nat n))"

definition format_bool :: "bool \<Rightarrow> bytes" where
  "format_bool b = (if b then ''true'' else ''false'')"

text \<open>The constants 1e-6 and 1e21 rounded to \<open>float64\<close> and \<open>float32\<close>.\<close>

definition float_small :: "nat \<Rightarrow> rat" where
  "float_small bits = (if bits = 64 then 4722366482869645 / 4722366482869645213696 else 8796093 / 8796093022208)"

definition float_large :: "nat \<Rightarrow> rat" where
  "float_large bits = (if bits = 64 then 1000000000000000000000 else 1000000020040877342720)"

definition float_format :: "nat \<Rightarrow> rat \<Rightarrow> char" where
  "float_format bits m =
     (if m \<noteq> 0 \<and> (bits = 64 \<or> bits = 32) \<and> (m < float_small bits \<or> m \<ge> float_large bits)
      then CHR ''e'' else CHR ''f'')"

fun index_of :: "bytes \<Rightarrow> bytes \<Rightarrow> nat option" where
  "index_of [] sub = (if sub = [] then Some 0 else None)"
| "index_of (x # xs) sub =
     (if take (length sub) (x # xs) = sub then Some 0
      else case index_of xs sub of None \<Rightarrow> None | Some i \<Rightarrow> Some (Suc i))"

definition trim_exponent :: "bytes \<Rightarrow> bytes" where
  "trim_exponent str =
     (case index_of str ''e-'' of
        Some i \<Rightarrow> if i + 3 < length str \<and> str ! (i + 2) = CHR ''0''
                  then take (i + 2) str @ drop (i + 3) str else str
      | None \<Rightarrow> str)"

definition float_text :: "('w, 'b) wenv \<Rightarrow> nat \<Rightarrow> bool \<Rightarrow> rat \<Rightarrow> bytes" where
  "float_text E bits neg m =
     (let fmt = float_format bits m; str = e_float E neg m fmt bits in
      if fmt = CHR ''e'' then trim_exponent str else str)"

definition floating :: "('w, 'b) wenv \<Rightarrow> nat \<Rightarrow> bool \<Rightarrow> rat \<Rightarrow> bool \<Rightarrow> ('w, 'b) wst act" where
  "floating E bits neg m = scalar E (float_text E bits neg m) 24"

text \<open>A reservation with its deferred release.\<close>

definition with_charge :: "('w, 'b) wenv \<Rightarrow> int \<Rightarrow> ('w, 'b) wst act \<Rightarrow> ('w, 'b) wst act" where
  "with_charge E n body s =
     (case e_rsv E n (w_budget s) of
        None \<Rightarrow> (Some LedgerPanic, s)
      | Some (False, b) \<Rightarrow> (Some ErrMemory, s\<lparr>w_budget := b\<rparr>)
      | Some (True, b) \<Rightarrow>
        (let (r, s') = body (s\<lparr>w_budget := b\<rparr>) in
         case e_rel E n (w_budget s') of
           None \<Rightarrow> (Some LedgerPanic, s')
         | Some b' \<Rightarrow> (r, s'\<lparr>w_budget := b'\<rparr>)))"

text \<open>The loops over elements, entries and fields: \<open>first\<close> is the flag that holds back the comma.\<close>

fun items :: "('w, 'b) wenv \<Rightarrow> bool \<Rightarrow> ('w, 'b) wst act list \<Rightarrow> ('w, 'b) wst act list" where
  "items E first [] = []"
| "items E first (a # as) = (if first then [] else [punctuation E '','']) @ a # items E False as"

definition sequence_of :: "('w, 'b) wenv \<Rightarrow> ('w, 'b) wst act list \<Rightarrow> ('w, 'b) wst act" where
  "sequence_of E as = run_all (punctuation E ''['' # items E True as @ [punctuation E '']''])"

definition entry :: "('w, 'b) wenv \<Rightarrow> bytes \<Rightarrow> ('w, 'b) wst act \<Rightarrow> ('w, 'b) wst act" where
  "entry E key a = run_all [quoted_text E key, punctuation E '':'', a]"

fun polls :: "nat \<Rightarrow> ('w, 'b) wst act" where
  "polls 0 s = (None, s)"
| "polls (Suc n) s = run_all [poll, polls n] s"

definition max_int64 :: int where
  "max_int64 = 9223372036854775807"

fun polled_items :: "('w, 'b) wenv \<Rightarrow> bool \<Rightarrow> ('w, 'b) wst act list \<Rightarrow> ('w, 'b) wst act list" where
  "polled_items E first [] = []"
| "polled_items E first (a # as) =
     [poll] @ (if first then [] else [punctuation E '','']) @ a # polled_items E False as"

definition stream_object :: "('w, 'b) wenv \<Rightarrow> (bytes \<times> ('w, 'b) wst act) list \<Rightarrow> ('w, 'b) wst act" where
  "stream_object E kas =
     (if int (length kas) > max_int64 div 64 then fail ErrMemory
      else with_charge E (int (length kas) * 64)
        (run_all ([polls (length kas), polls (e_polls E (map fst kas))] @
           polled_items E True (map (\<lambda>(k, a). entry E k a) (sort_key fst kas)) @ [punctuation E ''}''])))"

definition object_of :: "('w, 'b) wenv \<Rightarrow> bool \<Rightarrow> (bytes \<times> ('w, 'b) wst act) list \<Rightarrow> ('w, 'b) wst act" where
  "object_of E string_keys kas =
     (if \<not> string_keys then fail ErrUnsupported
      else run_all [punctuation E ''{'',
        \<lambda>s. if w_left s = None then stream_object E kas s
             else run_all (items E True (map (\<lambda>(k, a). entry E k a) kas) @ [punctuation E ''}'']) s])"

fun field_items ::
    "('w, 'b) wenv \<Rightarrow> bool \<Rightarrow> (jw_error + (bytes \<times> bool) option) list \<Rightarrow> (bool \<Rightarrow> ('w, 'b) wst act) list
     \<Rightarrow> ('w, 'b) wst act list" where
  "field_items E first (p # ps) (a # as) =
     (case p of
        Inl e \<Rightarrow> [fail e]
      | Inr None \<Rightarrow> field_items E first ps as
      | Inr (Some (name, quoted)) \<Rightarrow>
          (if first then [] else [punctuation E '','']) @ entry E name (a quoted) # field_items E False ps as)"
| "field_items E first _ _ = []"

definition structure_of ::
    "('w, 'b) wenv \<Rightarrow> (jw_error + (bytes \<times> bool) option) list \<Rightarrow> (bool \<Rightarrow> ('w, 'b) wst act) list
     \<Rightarrow> ('w, 'b) wst act" where
  "structure_of E plan as =
     (if length as > 128 then fail ErrUnsupported
      else
        (let body = run_all (punctuation E ''{'' # field_items E True plan as @ [punctuation E ''}'']) in
         (\<lambda>s. if w_left s = None then with_charge E (int (length as) * 128) body s else body s)))"

definition number_text :: "bytes \<Rightarrow> bytes" where
  "number_text x = (if x = [] then ''0'' else x)"

text \<open>
  \<open>validNumber\<close> answers a bool only, so a context that may have ended is asked once more.
\<close>

definition number :: "('w, 'b) wenv \<Rightarrow> bytes \<Rightarrow> bool \<Rightarrow> ('w, 'b) wst act" where
  "number E x quoted s =
     (let (valid, c) = valid_number (w_ctx s) (number_text x); s' = s\<lparr>w_ctx := c\<rparr> in
      if valid then scalar E (number_text x) (int (length (number_text x))) quoted s'
      else run_all [poll, fail ErrUnsupported] s')"

text \<open>A preserved raw value: validated first, then counted or compacted. No poll follows an error.\<close>

definition raw_message :: "('w, 'b) wenv \<Rightarrow> bytes option \<Rightarrow> ('w, 'b) wst act" where
  "raw_message E x s =
     (case x of
        None \<Rightarrow> literal E ''null'' 4 s
      | Some r \<Rightarrow>
        (case validate_raw (w_ctx s) r of
           Inl e \<Rightarrow> (Some e, s)
         | Inr c \<Rightarrow>
            if w_left s \<noteq> None then count_raw r (s\<lparr>w_ctx := c\<rparr>)
            else stream_raw_loop E r False False (s\<lparr>w_ctx := c\<rparr>)))"

definition native_limit :: int where
  "native_limit = 16 * 1024"

text \<open>\<open>NativeImport\<close>: validated, then preflighted against a counter of its own.\<close>

definition native_import :: "bool \<Rightarrow> ('w, 'b) wst act \<Rightarrow> ('w, 'b) wst act" where
  "native_import valid body s =
     (if \<not> valid then (Some ErrUnsupported, s)
      else
        (case body (s\<lparr>w_left := Some native_limit\<rparr>) of
           (Some e, s1) \<Rightarrow> (Some e, s1\<lparr>w_left := w_left s\<rparr>)
         | (None, s1) \<Rightarrow>
            if w_left s \<noteq> None
            then count_add (native_limit - the (w_left s1)) (s1\<lparr>w_left := w_left s\<rparr>)
            else body (s1\<lparr>w_left := None\<rparr>)))"

definition entering :: "nat \<Rightarrow> ('w, 'b) wst act \<Rightarrow> ('w, 'b) wst act" where
  "entering depth a = run_all [poll, if depth > 128 then fail ErrUnsupported else a]"

primrec tvalue :: "('w, 'b) wenv \<Rightarrow> gv \<Rightarrow> nat \<Rightarrow> bool \<Rightarrow> ('w, 'b) wst act" where
  "tvalue E GInvalid = (\<lambda>d q. entering d (literal E ''null'' 4))"
| "tvalue E GNil = (\<lambda>d q. entering d (literal E ''null'' 4))"
| "tvalue E (GRef v) = (\<lambda>d q. entering d (tvalue E v (Suc d) q))"
| "tvalue E (GBool b) = (\<lambda>d q. entering d (scalar E (format_bool b) 5 q))"
| "tvalue E (GInt n) = (\<lambda>d q. entering d (scalar E (format_int n) 20 q))"
| "tvalue E (GUint n) = (\<lambda>d q. entering d (scalar E (dec_nat n) 20 q))"
| "tvalue E (GFloat bits neg m) = (\<lambda>d q. entering d (floating E bits neg m q))"
| "tvalue E GInfNan = (\<lambda>d q. entering d (fail ErrUnsupported))"
| "tvalue E (GString str) = (\<lambda>d q. entering d (if q then quoted_string E str else quoted_text E str))"
| "tvalue E GNilSlice = (\<lambda>d q. entering d (literal E ''null'' 4))"
| "tvalue E (GBytes data) = (\<lambda>d q. entering d (\<lambda>s.
     if w_left s \<noteq> None then count_add (2 + (int (length data) + 2) div 3 * 4) s
     else stream_base64 E data s))"
| "tvalue E (GSlice vs) = (\<lambda>d q. entering d (sequence_of E (map (\<lambda>a. a (Suc d) False) (map (tvalue E) vs))))"
| "tvalue E (GArray vs) = (\<lambda>d q. entering d (sequence_of E (map (\<lambda>a. a (Suc d) False) (map (tvalue E) vs))))"
| "tvalue E GNilMap = (\<lambda>d q. entering d (literal E ''null'' 4))"
| "tvalue E (GMap sk kvs) = (\<lambda>d q. entering d
     (object_of E sk (map (\<lambda>(k, a). (k, a (Suc d) False)) (map (map_prod id (tvalue E)) kvs))))"
| "tvalue E (GStruct fs) = (\<lambda>d q. entering d
     (structure_of E (map (\<lambda>(f, v). field f v) fs) (map (\<lambda>(f, a). a (Suc d)) (map (map_prod id (tvalue E)) fs))))"
| "tvalue E (GTime z rz t) = (\<lambda>d q. entering d
     (case t of None \<Rightarrow> fail MarshalError | Some raw \<Rightarrow> literal E raw 37))"
| "tvalue E (GNumber x) = (\<lambda>d q. entering d (number E x q))"
| "tvalue E (GRaw x) = (\<lambda>d q. entering d (raw_message E x))"
| "tvalue E (GBatch x) = (\<lambda>d q. entering d
     (case x of None \<Rightarrow> fail ErrUnsupported | Some str \<Rightarrow> quoted_text E str))"
| "tvalue E (GNativeImport valid fs) = (\<lambda>d q. entering d (native_import valid
     (structure_of E (map (\<lambda>(f, v). field f v) fs) (map (\<lambda>(f, a). a (Suc d)) (map (map_prod id (tvalue E)) fs)))))"
| "tvalue E (GMarshaler e z) = (\<lambda>d q. entering d (fail ErrUnsupported))"
| "tvalue E (GOther z) = (\<lambda>d q. entering d (fail ErrUnsupported))"

subsection \<open>\<open>Bound\<close> and \<open>Encode\<close>\<close>

text \<open>\<open>Bound\<close> on the state it shares the context with; the counter is its own.\<close>

definition bound :: "('w, 'b) wenv \<Rightarrow> gv \<Rightarrow> int \<Rightarrow> ('w, 'b) wst \<Rightarrow> (int \<times> jw_error option) \<times> ('w, 'b) wst" where
  "bound E v limit s =
     (let (e, s') = tvalue E v 0 False (s\<lparr>w_left := Some limit\<rparr>) in
      ((limit - the (w_left s'), e), s'\<lparr>w_left := w_left s\<rparr>))"

definition scratch :: int where
  "scratch = 64 * 1024"

definition encode_body :: "('w, 'b) wenv \<Rightarrow> gv \<Rightarrow> ('w, 'b) wst act" where
  "encode_body E v s =
     (case bound E v max_int64 s of
        ((n, Some e), s1) \<Rightarrow> (Some e, s1)
      | ((n, None), s1) \<Rightarrow>
          run_all [tvalue E v 0 False, stream_text E [CHR 0x0A], flush E] (s1\<lparr>w_buf := [], w_left := None\<rparr>))"

definition encode :: "('w, 'b) wenv \<Rightarrow> gv \<Rightarrow> ctx \<Rightarrow> 'w \<Rightarrow> 'b option \<Rightarrow> jw_error option \<times> 'w \<times> 'b option" where
  "encode E v c w budget =
     (case budget of
        None \<Rightarrow> (Some ErrMemory, w, None)
      | Some b \<Rightarrow>
        (let (e, s) = with_charge E scratch (encode_body E v)
            \<lparr>w_ctx = c, w_left = None, w_buf = [], w_writer = w, w_budget = b\<rparr> in
         (e, w_writer s, Some (w_budget s))))"

end
