(* ===== verification/JsonEscape.thy ===== *)
theory JsonEscape
  imports JsonWire
begin

text \<open>
  Strings on the wire. \<open>esc\<close> is the escaping of one character after the other; the encoder's runs
  of safe bytes, its chunks and its second pass over the chunks of the first all give it.
\<close>

subsection \<open>Escaping, character by character\<close>

definition esc_next :: "bytes \<Rightarrow> bytes \<times> nat" where
  "esc_next r = (if safe_ascii (hd r) then ([hd r], 1) else escape_char r)"

lemma esc_next_size: "r \<noteq> [] \<Longrightarrow> 0 < snd (esc_next r) \<and> snd (esc_next r) \<le> length r"
  using escape_char_size [of r] by (cases r) (auto simp: esc_next_def)

function esc :: "bytes \<Rightarrow> bytes" where
  "esc r = (if r = [] then [] else fst (esc_next r) @ esc (drop (snd (esc_next r)) r))"
  by pat_completeness auto
termination
proof (relation "measure length", goal_cases)
  case 1
  then show ?case by simp
next
  case 2
  then show ?case using esc_next_size by simp
qed

declare esc.simps [simp del]

lemma esc_Nil [simp]: "esc [] = []"
  by (simp add: esc.simps)

lemma esc_step: "r \<noteq> [] \<Longrightarrow> esc r = fst (esc_next r) @ esc (drop (snd (esc_next r)) r)"
  by (subst esc.simps) simp

lemma esc_safe: "\<forall>b\<in>set p. safe_ascii b \<Longrightarrow> esc (p @ t) = p @ esc t"
proof (induction p)
  case (Cons b p)
  then show ?case by (subst esc_step) (simp_all add: esc_next_def)
qed simp

lemma safe_run_prefix: "\<exists>t. r = safe_run r @ t"
proof -
  have "take run_limit r = safe_run r @ dropWhile safe_ascii (take run_limit r)" by (simp add: safe_run_def)
  then have "r = (safe_run r @ dropWhile safe_ascii (take run_limit r)) @ drop run_limit r"
    by (metis append_take_drop_id)
  then show ?thesis by (metis append.assoc)
qed

lemma safe_run_safe: "b \<in> set (safe_run r) \<Longrightarrow> safe_ascii b"
  by (auto simp: safe_run_def dest: set_takeWhileD)

lemma esc_run: "esc r = safe_run r @ esc (drop (length (safe_run r)) r)"
proof -
  obtain t where t: "r = safe_run r @ t" using safe_run_prefix by blast
  then have "drop (length (safe_run r)) r = t" by (metis append_eq_conv_conj)
  then show ?thesis using esc_safe [of "safe_run r" t] safe_run_safe t by metis
qed

text \<open>The encoder's rounds, which take a whole run of safe bytes at once, give the same text.\<close>

lemma esc_rounds: "r \<noteq> [] \<Longrightarrow> esc r = fst (escape_next r) @ esc (drop (snd (escape_next r)) r)"
  using esc_run [of r] esc_step [of r] by (cases "safe_ascii (hd r)") (simp_all add: escape_next_def esc_next_def)

subsection \<open>The size the counter gives a string\<close>

function csize :: "bytes \<Rightarrow> int" where
  "csize r = (if r = [] then 0 else fst (count_next r) + csize (drop (snd (count_next r)) r))"
  by pat_completeness auto
termination
proof (relation "measure length", goal_cases)
  case 1
  then show ?case by simp
next
  case 2
  then show ?case using count_next_size by simp
qed

declare csize.simps [simp del]

lemma csize_Nil [simp]: "csize [] = 0"
  by (simp add: csize.simps)

text \<open>A round of the counter and a round of the encoder take the same bytes.\<close>

lemma count_escape_char_size: "snd (count_char r) = snd (escape_char r)"
proof (cases "byte (hd r) < 0x80")
  case True
  then show ?thesis by (simp add: count_char_def escape_char_def Let_def)
next
  case False
  then have "hd r \<noteq> CHR 0x22" "hd r \<noteq> CHR 0x5C" "hd r \<noteq> CHR 0x0A" "hd r \<noteq> CHR 0x0D" "hd r \<noteq> CHR 0x09"
    "hd r \<noteq> CHR 0x08" "hd r \<noteq> CHR 0x0C" "hd r \<noteq> CHR ''<''" "hd r \<noteq> CHR ''>''" "hd r \<noteq> CHR ''&''"
    "\<not> byte (hd r) < 0x20" by auto
  with False show ?thesis
    unfolding count_char_def escape_char_def Let_def by (cases "decode_rune r") simp
qed

lemma count_escape_size: "snd (count_next r) = snd (escape_next r)"
  by (simp add: count_next_def escape_next_def count_escape_char_size)


subsection \<open>The parts the encoder emits\<close>

lemma decode_rune_take:
  assumes "decode_rune r = (rn, k)" "2 \<le> k"
  shows "decode_rune (take k r @ t) = (rn, k)"
proof (cases r)
  case Nil
  then show ?thesis using assms by (simp add: decode_rune_def)
next
  case (Cons c0 q)
  have k: "k = Suc (k - 1)" using assms(2) by simp
  have d2: "decode_rune2 b (take (k - 1) q @ t) = (rn, k)" if "decode_rune2 b q = (rn, k)" for b
    using that assms(2) by (cases q) (auto simp: decode_rune2_def split: if_splits)
  have d3: "decode_rune3 b (take (k - 1) q @ t) = (rn, k)" if d: "decode_rune3 b q = (rn, k)" for b
  proof -
    obtain c1 c2 q' where q: "q = c1 # c2 # q'" "k = 3"
      using d assms(2) unfolding decode_rune3_def by (simp split: list.splits if_splits)
    then have "take (k - 1) q @ t = c1 # c2 # t" by simp
    then show ?thesis using d q unfolding decode_rune3_def by (simp only: list.case)
  qed
  have d4: "decode_rune4 b (take (k - 1) q @ t) = (rn, k)" if d: "decode_rune4 b q = (rn, k)" for b
  proof -
    obtain c1 c2 c3 q' where q: "q = c1 # c2 # c3 # q'" "k = 4"
      using d assms(2) unfolding decode_rune4_def by (simp split: list.splits if_splits)
    then have "take (k - 1) q @ t = c1 # c2 # c3 # t" by simp
    then show ?thesis using d q unfolding decode_rune4_def by (simp only: list.case)
  qed
  have tk: "take k r = c0 # take (k - 1) q" using k Cons by (metis take_Suc_Cons)
  consider "byte c0 < 0x80" | "\<not> byte c0 < 0x80" "byte c0 < 0xC2 \<or> 0xF4 < byte c0"
    | "\<not> byte c0 < 0x80" "\<not> (byte c0 < 0xC2 \<or> 0xF4 < byte c0)" "byte c0 < 0xE0"
    | "\<not> byte c0 < 0x80" "\<not> (byte c0 < 0xC2 \<or> 0xF4 < byte c0)" "\<not> byte c0 < 0xE0" "byte c0 < 0xF0"
    | "\<not> byte c0 < 0x80" "\<not> (byte c0 < 0xC2 \<or> 0xF4 < byte c0)" "\<not> byte c0 < 0xE0" "\<not> byte c0 < 0xF0"
    by blast
  then show ?thesis
  proof cases
    case 1 then show ?thesis using assms Cons by (simp add: decode_rune_def)
  next
    case 2 then show ?thesis using assms Cons unfolding decode_rune_def by (simp split: if_splits)
  next
    case 3 then show ?thesis using assms(1) tk Cons d2 [of "byte c0"]
      unfolding decode_rune_def by (simp only: list.case if_False if_True append_Cons)
  next
    case 4 then show ?thesis using assms(1) tk Cons d3 [of "byte c0"]
      unfolding decode_rune_def by (simp only: list.case if_False if_True append_Cons)
  next
    case 5 then show ?thesis using assms(1) tk Cons d4 [of "byte c0"]
      unfolding decode_rune_def by (simp only: list.case if_False if_True append_Cons)
  qed
qed

lemma escape_char_ascii: "byte b < 0x80 \<Longrightarrow> escape_char (b # t) = escape_char [b]"
  by (simp add: escape_char_def Let_def)

lemma escape_char_ascii_size: "byte b < 0x80 \<Longrightarrow> snd (escape_char (b # t)) = 1"
  by (simp add: escape_char_def Let_def)

lemma esc_ascii_Cons: "byte b < 0x80 \<Longrightarrow> esc (b # t) = fst (esc_next [b]) @ esc t"
  using escape_char_ascii [of b t] escape_char_ascii_size [of b "[]"]
  by (subst esc_step) (simp_all add: esc_next_def)

lemma esc_ascii_append: "\<forall>b\<in>set p. byte b < 0x80 \<Longrightarrow> esc (p @ t) = esc p @ esc t"
  by (induction p) (simp_all add: esc_ascii_Cons)

text \<open>A part that stays whole: whatever follows it, it is escaped on its own.\<close>

definition closed_part :: "bytes \<Rightarrow> bool" where
  "closed_part p = (\<forall>t. esc (p @ t) = esc p @ esc t)"

lemma closed_ascii: "\<forall>b\<in>set p. byte b < 0x80 \<Longrightarrow> closed_part p"
  by (simp add: closed_part_def esc_ascii_append)

lemma rune_head:
  assumes "decode_rune r = (rn, k)" "2 \<le> k"
  shows "r \<noteq> []" "\<not> byte (hd r) < 0x80"
  using assms by (auto simp: decode_rune_def split: list.splits if_splits)

lemma esc_rune:
  assumes "decode_rune r = (rn, k)" "2 \<le> k" "rn \<noteq> 0x2028" "rn \<noteq> 0x2029"
  shows "esc (take k r @ t) = take k r @ esc t"
proof -
  have d: "decode_rune (take k r @ t) = (rn, k)" by (rule decode_rune_take [OF assms(1,2)])
  have h: "take k r @ t \<noteq> []" "\<not> byte (hd (take k r @ t)) < 0x80" using rune_head [OF d assms(2)] by auto
  define c where "c = hd (take k r @ t)"
  have kl: "k \<le> length r" using decode_rune_size [of r] rune_head(1) [OF assms(1,2)] assms(1) by simp
  have c: "\<not> byte c < 0x80" using h(2) by (simp add: c_def)
  then have ns: "\<not> safe_ascii c" by (simp add: safe_ascii_def)
  have "c \<noteq> CHR 0x22" "c \<noteq> CHR 0x5C" "c \<noteq> CHR 0x0A" "c \<noteq> CHR 0x0D" "c \<noteq> CHR 0x09" "c \<noteq> CHR 0x08" "c \<noteq> CHR 0x0C"
    "c \<noteq> CHR ''<''" "c \<noteq> CHR ''>''" "c \<noteq> CHR ''&''" "\<not> byte c < 0x20" using c by auto
  then have e: "escape_char (take k r @ t) = (take k r, k)"
    unfolding escape_char_def Let_def c_def [symmetric] d using c assms kl by simp
  show ?thesis
    using esc_step [OF h(1)] ns kl unfolding esc_next_def c_def [symmetric] by (simp add: e)
qed

lemma closed_rune:
  assumes "decode_rune r = (rn, k)" "2 \<le> k" "rn \<noteq> 0x2028" "rn \<noteq> 0x2029"
  shows "closed_part (take k r)" "esc (take k r) = take k r"
  using esc_rune [OF assms] esc_rune [OF assms, of "[]"] by (simp_all add: closed_part_def)

lemma replacement_rune: "decode_rune replacement = (rune_error, 3)"
  by (simp add: decode_rune_def decode_rune3_def replacement_def cont_byte_def rune_error_def)

lemma closed_replacement: "closed_part replacement" "esc replacement = replacement"
  using closed_rune [OF replacement_rune] by (simp_all add: rune_error_def replacement_def)

lemma hex_digit_ascii: "n < 16 \<Longrightarrow> byte (hex_digit n) < 0x80 \<and> safe_ascii (hex_digit n)"
proof -
  have "list_all (\<lambda>n. byte (hex_digit n) < 0x80 \<and> safe_ascii (hex_digit n)) [0..<16]" by code_simp
  moreover assume "n < 16"
  ultimately show ?thesis by (simp add: list_all_iff)
qed

lemma byte_div16: "byte b div 16 < 16"
proof -
  have "byte b < 16 * 16" by simp
  then show ?thesis by (simp only: less_mult_imp_div_less)
qed


lemma esc_ascii_one: "byte b < 0x80 \<Longrightarrow> esc [b] = fst (esc_next [b])"
  using esc_ascii_Cons [of b "[]"] by simp

lemma esc_safe_all: "\<forall>b\<in>set p. safe_ascii b \<Longrightarrow> esc p = p"
  using esc_safe [of p "[]"] by simp

lemma closed_safe: "\<forall>b\<in>set p. safe_ascii b \<Longrightarrow> closed_part p"
  by (simp add: closed_part_def esc_safe esc_safe_all)

lemma esc_backslash: "esc (CHR 0x5C # t) = CHR 0x5C # CHR 0x5C # esc t"
  by (simp add: esc_ascii_Cons esc_next_def safe_ascii_def escape_char_def Let_def)

lemma esc_quote: "esc (CHR 0x22 # t) = CHR 0x5C # CHR 0x22 # esc t"
  by (simp add: esc_ascii_Cons esc_next_def safe_ascii_def escape_char_def Let_def)

text \<open>An escape sequence is a backslash and safe characters, or a backslash and an escaped one.\<close>

lemma esc_sequence: "\<forall>b\<in>set p. safe_ascii b \<Longrightarrow> esc (CHR 0x5C # p) = CHR 0x5C # CHR 0x5C # p"
  by (simp add: esc_backslash esc_safe_all)

lemma closed_sequence: "\<forall>b\<in>set p. safe_ascii b \<Longrightarrow> closed_part (CHR 0x5C # p)"
  by (simp add: closed_part_def esc_backslash esc_safe esc_safe_all)

definition part_ok :: "bytes \<Rightarrow> int \<Rightarrow> bool" where
  "part_ok p n = (closed_part p \<and> int (length p) \<le> n \<and> int (length (esc p)) \<le> 2 * n)"

lemma part_sequence:
  "\<lbrakk>\<forall>b\<in>set p. safe_ascii b; int (Suc (length p)) \<le> n\<rbrakk> \<Longrightarrow> part_ok (CHR 0x5C # p) n"
  by (simp add: part_ok_def closed_sequence esc_sequence)

lemma part_escaped:
  "part_ok [CHR 0x5C, CHR 0x22] 2" "part_ok [CHR 0x5C, CHR 0x5C] 2"
  by (simp_all add: part_ok_def closed_part_def esc_backslash esc_quote)

lemma safe_letters [simp]: "safe_ascii (CHR ''n'')" "safe_ascii (CHR ''r'')" "safe_ascii (CHR ''t'')"
  "safe_ascii (CHR ''b'')" "safe_ascii (CHR ''f'')" "safe_ascii (CHR ''u'')" "safe_ascii (CHR ''0'')"
  "safe_ascii (CHR ''2'')" "safe_ascii (CHR ''8'')" "safe_ascii (CHR ''9'')"
  by (simp_all add: safe_ascii_def)

lemma decode_size_one:
  "\<not> byte b < 0x80 \<Longrightarrow> snd (decode_rune (b # q)) = 1 \<Longrightarrow> fst (decode_rune (b # q)) = rune_error"
proof -
  have "snd (decode_rune2 n q) = 1 \<Longrightarrow> fst (decode_rune2 n q) = rune_error"
    "snd (decode_rune3 n q) = 1 \<Longrightarrow> fst (decode_rune3 n q) = rune_error"
    "snd (decode_rune4 n q) = 1 \<Longrightarrow> fst (decode_rune4 n q) = rune_error" for n
    unfolding decode_rune2_def decode_rune3_def decode_rune4_def
    by (simp_all only: split: list.split if_split) auto
  then show "\<not> byte b < 0x80 \<Longrightarrow> snd (decode_rune (b # q)) = 1 \<Longrightarrow> fst (decode_rune (b # q)) = rune_error"
    unfolding decode_rune_def by (simp only: list.case split: if_split) auto
qed

lemma escape_char_part:
  assumes "r \<noteq> []" "\<not> safe_ascii (hd r)"
  shows "part_ok (fst (escape_char r)) (fst (count_char r))"
proof -
  define b where "b = hd r"
  consider "b \<in> {CHR 0x22, CHR 0x5C}" | "b \<in> {CHR 0x0A, CHR 0x0D, CHR 0x09, CHR 0x08, CHR 0x0C}"
    | "b \<notin> {CHR 0x22, CHR 0x5C, CHR 0x0A, CHR 0x0D, CHR 0x09, CHR 0x08, CHR 0x0C}"
      "byte b < 0x20 \<or> b = CHR ''<'' \<or> b = CHR ''>'' \<or> b = CHR ''&''"
    | "\<not> byte b < 0x80"
    using assms(2) unfolding b_def [symmetric] safe_ascii_def by fastforce
  then show ?thesis
  proof cases
    case 1
    then have "b = CHR 0x22 \<or> b = CHR 0x5C" by simp
    then show ?thesis
      unfolding escape_char_def count_char_def Let_def b_def [symmetric]
      by (elim disjE) (simp_all add: part_escaped)
  next
    case 2
    then have "b = CHR 0x0A \<or> b = CHR 0x0D \<or> b = CHR 0x09 \<or> b = CHR 0x08 \<or> b = CHR 0x0C" by simp
    then show ?thesis
      unfolding escape_char_def count_char_def Let_def b_def [symmetric]
      by (elim disjE) (simp_all add: part_sequence)
  next
    case 3
    have "part_ok (unicode_escape b) 6"
      unfolding unicode_escape_def by (rule part_sequence) (simp_all add: hex_digit_ascii byte_div16)
    moreover have "escape_char r = (unicode_escape b, 1)" "count_char r = (6, 1)"
      using 3 unfolding escape_char_def count_char_def Let_def b_def [symmetric] by simp_all
    ultimately show ?thesis by simp
  next
    case 4
    then have ne: "b \<noteq> CHR 0x22" "b \<noteq> CHR 0x5C" "b \<noteq> CHR 0x0A" "b \<noteq> CHR 0x0D" "b \<noteq> CHR 0x09"
      "b \<noteq> CHR 0x08" "b \<noteq> CHR 0x0C" "b \<noteq> CHR ''<''" "b \<noteq> CHR ''>''" "b \<noteq> CHR ''&''" "\<not> byte b < 0x20" by auto
    obtain rn k where d: "decode_rune r = (rn, k)" by (cases "decode_rune r")
    have kl: "0 < k" "k \<le> length r" using decode_rune_size [OF assms(1)] d by simp_all
    have e: "fst (escape_char r) = (if rn = 0x2029 then CHR 0x5C # ''u2029''
          else if rn = 0x2028 then CHR 0x5C # ''u2028''
          else if rn = rune_error \<and> k = 1 then replacement else take k r)"
      and c: "fst (count_char r) = (if rn = rune_error \<and> k = 1 \<or> rn = 0x2028 \<or> rn = 0x2029 then 6 else int k)"
      using 4 ne unfolding escape_char_def count_char_def Let_def b_def [symmetric] d by simp_all
    show ?thesis
    proof (cases "rn = 0x2028 \<or> rn = 0x2029")
      case True
      then show ?thesis unfolding e c by (auto intro!: part_sequence)
    next
      case nosep: False
      show ?thesis
      proof (cases "rn = rune_error \<and> k = 1")
        case True
        then show ?thesis using nosep closed_replacement unfolding e c
          by (auto simp: part_ok_def replacement_def)
      next
        case False
        have "2 \<le> k"
        proof (rule ccontr)
          assume "\<not> 2 \<le> k"
          then have k: "k = 1" using kl by simp
          obtain q where r: "r = b # q" using assms(1) by (cases r) (auto simp: b_def)
          have "rn = rune_error" using decode_size_one [of b q] d 4 unfolding r k by simp
          then show False using False k by simp
        qed
        then show ?thesis
          using closed_rune [OF d] nosep False kl unfolding e c by (simp add: part_ok_def)
      qed
    qed
  qed
qed

lemma escape_next_part: "r \<noteq> [] \<Longrightarrow> part_ok (fst (escape_next r)) (fst (count_next r))"
  using escape_char_part [of r] safe_run_safe [of _ r]
  by (simp add: escape_next_def count_next_def part_ok_def closed_safe esc_safe_all)

lemma esc_length: "int (length (esc r)) \<le> csize r"
proof (induction r rule: csize.induct)
  case (1 r)
  then show ?case
    using escape_next_part [of r] by (cases "r = []")
      (simp_all add: csize.simps [of r] esc_rounds [of r] count_escape_size part_ok_def)
qed

lemma esc_esc_length: "int (length (esc (esc r))) \<le> 2 * csize r"
proof (induction r rule: csize.induct)
  case (1 r)
  then show ?case
    using escape_next_part [of r] by (cases "r = []")
      (simp_all add: csize.simps [of r] esc_rounds [of r] count_escape_size part_ok_def closed_part_def)
qed

end
