(* ===== verification/JsonGrammar.thy ===== *)
theory JsonGrammar
  imports JsonRaw
begin

text \<open>
  The grammar that \<open>validateRaw\<close> decides, and the proof that it does. A scan from offset i to
  offset j has consumed the segment \<open>seg d i j\<close>. Soundness (\<open>*_sound\<close>) says that what a successful
  scan consumed is in the language, under any context; completeness (\<open>*_complete\<close>) that the scan
  succeeds on every word of the language, with enough fuel and a context that has not ended.
\<close>

subsection \<open>The grammar\<close>

definition all_ws :: "bytes \<Rightarrow> bool" where
  "all_ws w = (\<forall>b\<in>set w. is_space_byte b)"

definition all_digits :: "bytes \<Rightarrow> bool" where
  "all_digits w = (\<forall>b\<in>set w. is_digit_byte b)"

inductive json_text_tail :: "bytes \<Rightarrow> bool" where
  close: "json_text_tail [CHR 0x22]"
| plain: "\<lbrakk>b \<noteq> CHR 0x22; \<not> byte b < 0x20; b \<noteq> CHR 0x5C; json_text_tail t\<rbrakk> \<Longrightarrow> json_text_tail (b # t)"
| escape: "\<lbrakk>is_simple_escape e; json_text_tail t\<rbrakk> \<Longrightarrow> json_text_tail (CHR 0x5C # e # t)"
| unicode: "\<lbrakk>length h = 4; \<forall>x\<in>set h. is_hex_byte x; json_text_tail t\<rbrakk>
    \<Longrightarrow> json_text_tail (CHR 0x5C # CHR ''u'' # h @ t)"

definition json_string :: "bytes \<Rightarrow> bool" where
  "json_string w = (\<exists>t. w = CHR 0x22 # t \<and> json_text_tail t)"

definition json_digits :: "bytes \<Rightarrow> bool" where
  "json_digits w = (w \<noteq> [] \<and> all_digits w)"

definition json_int :: "bytes \<Rightarrow> bool" where
  "json_int w = (w = ''0'' \<or> (json_digits w \<and> hd w \<noteq> CHR ''0''))"

definition json_frac :: "bytes \<Rightarrow> bool" where
  "json_frac w = (w = [] \<or> (\<exists>ds. w = CHR ''.'' # ds \<and> json_digits ds))"

definition json_exp :: "bytes \<Rightarrow> bool" where
  "json_exp w = (w = [] \<or> (\<exists>e sign ds. w = e # sign @ ds \<and> (e = CHR ''e'' \<or> e = CHR ''E'') \<and>
     (sign = [] \<or> sign = ''+'' \<or> sign = ''-'') \<and> json_digits ds))"

definition json_number :: "bytes \<Rightarrow> bool" where
  "json_number w = (\<exists>sign i f e. w = sign @ i @ f @ e \<and> (sign = [] \<or> sign = ''-'') \<and>
     json_int i \<and> json_frac f \<and> json_exp e)"

text \<open>\<open>json_value n\<close>: a value with at most n levels of nesting.\<close>

inductive json_value :: "nat \<Rightarrow> bytes \<Rightarrow> bool"
  and json_members :: "nat \<Rightarrow> bytes \<Rightarrow> bool"
  and json_elements :: "nat \<Rightarrow> bytes \<Rightarrow> bool"
where
  str: "json_string w \<Longrightarrow> json_value (Suc n) w"
| num: "json_number w \<Longrightarrow> json_value (Suc n) w"
| jtrue: "json_value (Suc n) ''true''"
| jfalse: "json_value (Suc n) ''false''"
| jnull: "json_value (Suc n) ''null''"
| obj0: "all_ws w \<Longrightarrow> json_value (Suc n) (CHR ''{'' # w @ ''}'')"
| obj: "\<lbrakk>all_ws w; json_members n m\<rbrakk> \<Longrightarrow> json_value (Suc n) (CHR ''{'' # w @ m @ ''}'')"
| arr0: "all_ws w \<Longrightarrow> json_value (Suc n) (CHR ''['' # w @ '']'')"
| arr: "json_elements n m \<Longrightarrow> json_value (Suc n) (CHR ''['' # m @ '']'')"
| member: "\<lbrakk>json_string k; all_ws w1; all_ws w2; json_value n v; all_ws w3\<rbrakk>
    \<Longrightarrow> json_members n (k @ w1 @ '':'' @ w2 @ v @ w3)"
| members: "\<lbrakk>json_string k; all_ws w1; all_ws w2; json_value n v; all_ws w3; all_ws w4;
     json_members n m\<rbrakk> \<Longrightarrow> json_members n (k @ w1 @ '':'' @ w2 @ v @ w3 @ '','' @ w4 @ m)"
| element: "\<lbrakk>all_ws w1; json_value n v; all_ws w2\<rbrakk> \<Longrightarrow> json_elements n (w1 @ v @ w2)"
| elements: "\<lbrakk>all_ws w1; json_value n v; all_ws w2; json_elements n m\<rbrakk>
    \<Longrightarrow> json_elements n (w1 @ v @ w2 @ '','' @ m)"

definition json_document :: "bytes \<Rightarrow> bool" where
  "json_document d = (\<exists>w1 v w2. d = w1 @ v @ w2 \<and> all_ws w1 \<and> json_value 129 v \<and> all_ws w2)"

subsection \<open>Segments\<close>

definition seg :: "bytes \<Rightarrow> nat \<Rightarrow> nat \<Rightarrow> bytes" where
  "seg d i j = take (j - i) (drop i d)"

lemma seg_refl [simp]: "seg d i i = []"
  by (simp add: seg_def)

lemma seg_append:
  assumes "i \<le> j" "j \<le> k"
  shows "seg d i k = seg d i j @ seg d j k"
proof -
  obtain a b where j: "j = i + a" and k: "k = i + a + b"
    using assms by (metis le_Suc_ex)
  show ?thesis
    unfolding seg_def j k by (simp add: take_add drop_drop add.commute)
qed

lemma seg_Suc: "i < length d \<Longrightarrow> seg d i (Suc i) = [d ! i]"
  by (simp add: seg_def Cons_nth_drop_Suc [symmetric])

lemma seg_Cons:
  assumes "i < length d" "Suc i \<le> j"
  shows "seg d i j = d ! i # seg d (Suc i) j"
  using seg_append [of i "Suc i" j d] assms by (simp add: seg_Suc)

lemma seg_all: "seg d 0 (length d) = d"
  by (simp add: seg_def)

lemma length_seg [simp]: "j \<le> length d \<Longrightarrow> length (seg d i j) = j - i"
  by (simp add: seg_def)

text \<open>\<open>scans L d s s'\<close>: the scan went from s to s' inside the data, over a word of L.\<close>

definition scans :: "(bytes \<Rightarrow> bool) \<Rightarrow> bytes \<Rightarrow> scan \<Rightarrow> scan \<Rightarrow> bool" where
  "scans L d s s' = (at s \<le> at s' \<and> at s' \<le> length d \<and> L (seg d (at s) (at s')))"

lemma scansI: "\<lbrakk>at s \<le> at s'; at s' \<le> length d; L (seg d (at s) (at s'))\<rbrakk> \<Longrightarrow> scans L d s s'"
  by (simp add: scans_def)

lemma scans_at: "scans L d s s' \<Longrightarrow> at s \<le> at s' \<and> at s' \<le> length d"
  by (simp add: scans_def)

lemma scans_seg: "scans L d s s' \<Longrightarrow> L (seg d (at s) (at s'))"
  by (simp add: scans_def)

lemma scans_seq:
  assumes "scans A d s s1" "scans B d s1 s2" "\<And>a b. A a \<Longrightarrow> B b \<Longrightarrow> C (a @ b)"
  shows "scans C d s s2"
  using assms by (auto simp: scans_def seg_append [of "at s" "at s1" "at s2"])

lemma scans_mono: "scans A d s s' \<Longrightarrow> (\<And>w. A w \<Longrightarrow> B w) \<Longrightarrow> scans B d s s'"
  by (simp add: scans_def)

lemma raw_take_True:
  "raw_take d b s = (True, s') \<longleftrightarrow> at s < length d \<and> d ! at s = b \<and> s' = s\<lparr>at := Suc (at s)\<rparr>"
  by (auto simp: raw_take_def)

lemma raw_take_False:
  "raw_take d b s = (False, s') \<longleftrightarrow> \<not> (at s < length d \<and> d ! at s = b) \<and> s' = s"
  by (auto simp: raw_take_def)

lemma raw_take_scans: "raw_take d b s = (True, s') \<Longrightarrow> scans (\<lambda>w. w = [b]) d s s'"
  by (auto simp: raw_take_True scans_def seg_Suc)

lemma scans_byte: "at s < length d \<Longrightarrow> at s' = Suc (at s) \<Longrightarrow> scans (\<lambda>w. w = [d ! at s]) d s s'"
  by (simp add: scans_def seg_Suc)


subsection \<open>Soundness of the leaves\<close>

lemma all_ws_simps [simp]: "all_ws []" "all_ws (b # w) = (is_space_byte b \<and> all_ws w)"
  "all_ws (v @ w) = (all_ws v \<and> all_ws w)"
  by (auto simp: all_ws_def)

lemma all_digits_simps [simp]: "all_digits []"
  "all_digits (b # w) = (is_digit_byte b \<and> all_digits w)"
  by (auto simp: all_digits_def)

lemma raw_space_sound:
  "raw_space d s = Inr s' \<Longrightarrow> at s \<le> length d \<Longrightarrow> scans all_ws d s s'"
proof (induction d s rule: raw_space.induct)
  case (1 d s)
  show ?case
  proof (cases "at s < length d")
    case False
    then show ?thesis using 1(2,3) by (subst (asm) raw_space.simps) (simp add: scans_def)
  next
    case True
    obtain c where c: "ctx_err (sctx s) = (False, c)"
      "(if is_space_byte (d ! at s) then raw_space d (s\<lparr>at := Suc (at s), sctx := c\<rparr>)
        else Inr (s\<lparr>sctx := c\<rparr>)) = Inr s'"
      using 1(2) True by (subst (asm) raw_space.simps) (auto simp: checked_Inr_conv)
    show ?thesis
    proof (cases "is_space_byte (d ! at s)")
      case False
      then show ?thesis using c True by (auto simp: scans_def)
    next
      case sp: True
      then have r: "raw_space d (s\<lparr>at := Suc (at s), sctx := c\<rparr>) = Inr s'" using c by simp
      have "scans all_ws d (s\<lparr>at := Suc (at s), sctx := c\<rparr>) s'"
        using 1(1) [OF True sp r] True by simp
      then show ?thesis using True sp by (auto simp: scans_def seg_Cons)
    qed
  qed
qed

lemma raw_word_sound:
  "raw_word d w s = Inr s' \<Longrightarrow> at s \<le> length d \<Longrightarrow> scans (\<lambda>x. x = w) d s s'"
proof (induction w arbitrary: s)
  case Nil
  then show ?case by (simp add: scans_def)
next
  case (Cons b w)
  then obtain s1 where t: "raw_take d b s = (True, s1)" and r: "raw_word d w s1 = Inr s'"
    by (auto split: prod.splits bool.splits)
  have "scans (\<lambda>x. x = [b]) d s s1" by (rule raw_take_scans [OF t])
  moreover from this have "scans (\<lambda>x. x = w) d s1 s'" using Cons.IH [OF r] by (simp add: scans_def)
  ultimately show ?case by (rule scans_seq) simp
qed

lemma raw_hex_sound:
  "raw_hex d k s = Inr s' \<Longrightarrow> at s \<le> length d \<Longrightarrow>
   scans (\<lambda>w. length w = k \<and> (\<forall>x\<in>set w. is_hex_byte x)) d s s'"
proof (induction k arbitrary: s)
  case 0
  then show ?case by (simp add: scans_def)
next
  case (Suc k)
  then have l: "at s < length d" and h: "is_hex_byte (d ! at s)"
    and r: "raw_hex d k (s\<lparr>at := Suc (at s)\<rparr>) = Inr s'"
    by (auto simp: Let_def split: if_splits)
  have "scans (\<lambda>w. length w = k \<and> (\<forall>x\<in>set w. is_hex_byte x)) d (s\<lparr>at := Suc (at s)\<rparr>) s'"
    using Suc.IH [OF r] l by simp
  then show ?case using l h by (auto simp: scans_def seg_Cons)
qed

lemma raw_text_loop_sound:
  "raw_text_loop d s = Inr s' \<Longrightarrow> at s \<le> length d \<Longrightarrow> scans json_text_tail d s s'"
proof (induction d s rule: raw_text_loop.induct)
  case (1 d s)
  have l: "at s < length d" using 1(4) by (subst (asm) raw_text_loop.simps) (simp split: if_splits)
  define b where "b = d ! at s"
  obtain c where c: "ctx_err (sctx s) = (False, c)"
    using 1(4) l by (subst (asm) raw_text_loop.simps) (auto simp: checked_Inr_conv)
  define s1 where "s1 = s\<lparr>at := Suc (at s), sctx := c\<rparr>"
  have at1: "at s1 = Suc (at s)" by (simp add: s1_def)
  have step: "(if b = CHR 0x22 then Inr s1
        else if byte b < 0x20 then Inl ErrUnsupported
        else if b \<noteq> CHR 0x5C then raw_text_loop d s1
        else if at s1 = length d then Inl ErrUnsupported
        else
          let e = d ! at s1; s2 = s1\<lparr>at := Suc (at s1)\<rparr> in
          if e = CHR ''u'' then sbind (raw_hex d 4 s2) (\<lambda>s3. raw_text_loop d s3)
          else if \<not> is_simple_escape e then Inl ErrUnsupported
          else raw_text_loop d s2) = Inr s'"
    using 1(4) unfolding raw_text_loop.simps [of d s] checked_def c Let_def s1_def b_def
    by (simp only: l if_True prod.case if_False)
  have byte1: "scans (\<lambda>w. w = [b]) d s s1" using scans_byte [OF l at1] by (simp add: b_def)
  show ?case
  proof (cases "b = CHR 0x22")
    case True
    then show ?thesis using step byte1 by (auto intro: scans_mono json_text_tail.close)
  next
    case nq: False
    then have nlt: "\<not> byte b < 0x20" using step by (auto split: if_splits)
    show ?thesis
    proof (cases "b = CHR 0x5C")
      case False
      then have r: "raw_text_loop d s1 = Inr s'" using step nq nlt by simp
      have "scans json_text_tail d s1 s'"
        using 1(1) [OF l b_def s1_def nq nlt False r] l by (simp add: at1)
      with byte1 show ?thesis
        by (rule scans_seq) (simp add: json_text_tail.plain [OF nq nlt False])
    next
      case bs: True
      then have b5: "\<not> b \<noteq> CHR 0x5C" by simp
      have l1: "at s1 \<noteq> length d" using step nq nlt bs by (auto split: if_splits)
      then have l1': "at s1 < length d" using l at1 by simp
      define e where "e = d ! at s1"
      define s2 where "s2 = s1\<lparr>at := Suc (at s1)\<rparr>"
      have byte2: "scans (\<lambda>w. w = [e]) d s1 s2"
        using scans_byte [OF l1', of s2] by (simp add: e_def s2_def)
      have both: "scans (\<lambda>w. w = [CHR 0x5C, e]) d s s2"
        by (rule scans_seq [OF byte1 byte2]) (simp add: bs)
      show ?thesis
      proof (cases "e = CHR ''u''")
        case True
        then obtain s3 where h: "raw_hex d 4 s2 = Inr s3" and r: "raw_text_loop d s3 = Inr s'"
          using step nq nlt bs l1
          by (auto simp: Let_def e_def [symmetric] s2_def [symmetric] sbind_Inr_conv)
        have hx: "scans (\<lambda>w. length w = 4 \<and> (\<forall>x\<in>set w. is_hex_byte x)) d s2 s3"
          by (rule raw_hex_sound [OF h]) (use l1' in \<open>simp add: s2_def\<close>)
        have tl: "scans json_text_tail d s3 s'"
          using 1(2) [OF l b_def s1_def nq nlt b5 l1 e_def s2_def True h r] scans_at [OF hx] by simp
        have "scans (\<lambda>w. \<exists>h t. w = h @ t \<and> length h = 4 \<and> (\<forall>x\<in>set h. is_hex_byte x) \<and> json_text_tail t) d s2 s'"
          by (rule scans_seq [OF hx tl]) blast
        with both show ?thesis
          by (rule scans_seq) (auto simp: True intro: json_text_tail.unicode)
      next
        case False
        then have ok: "is_simple_escape e" and r: "raw_text_loop d s2 = Inr s'"
          using step nq nlt bs l1
          by (auto simp: Let_def e_def [symmetric] s2_def [symmetric] split: if_splits)
        have nn: "\<not> \<not> is_simple_escape e" using ok by simp
        have "scans json_text_tail d s2 s'"
          using 1(3) [OF l b_def s1_def nq nlt b5 l1 e_def s2_def False nn r] l1' by (simp add: s2_def)
        with both show ?thesis
          by (rule scans_seq) (simp add: json_text_tail.escape [OF ok])
      qed
    qed
  qed
qed

lemma raw_text_sound:
  assumes "raw_text d s = Inr s'" "at s \<le> length d"
  shows "scans json_string d s s'"
proof -
  obtain s1 where t: "raw_take d (CHR 0x22) s = (True, s1)" and r: "raw_text_loop d s1 = Inr s'"
    using assms(1) by (auto simp: raw_text_def split: prod.splits bool.splits)
  have a: "scans (\<lambda>w. w = [CHR 0x22]) d s s1" by (rule raw_take_scans [OF t])
  then have "scans json_text_tail d s1 s'" using raw_text_loop_sound [OF r] by (simp add: scans_def)
  with a show ?thesis by (rule scans_seq) (simp add: json_string_def)
qed


lemma raw_digits_loop_sound:
  "raw_digits_loop d s = Inr s' \<Longrightarrow> at s \<le> length d \<Longrightarrow> scans all_digits d s s'"
proof (induction d s rule: raw_digits_loop.induct)
  case (1 d s)
  show ?case
  proof (cases "at s < length d \<and> is_digit_byte (d ! at s)")
    case False
    then show ?thesis using 1(2,3) by (subst (asm) raw_digits_loop.simps) (auto simp: scans_def)
  next
    case True
    obtain c where r: "raw_digits_loop d (s\<lparr>at := Suc (at s), sctx := c\<rparr>) = Inr s'"
      using 1(2) True by (subst (asm) raw_digits_loop.simps) (auto simp: checked_Inr_conv)
    have "scans all_digits d (s\<lparr>at := Suc (at s), sctx := c\<rparr>) s'"
      using 1(1) [OF True r] True by simp
    then show ?thesis using True by (auto simp: scans_def seg_Cons)
  qed
qed

lemma raw_digits_sound:
  assumes "raw_digits d s = Inr s'" "at s \<le> length d"
  shows "scans json_digits d s s'"
proof -
  have r: "raw_digits_loop d s = Inr s'" and n: "at s' \<noteq> at s"
    using assms(1) by (auto simp: raw_digits_def sbind_Inr_conv split: if_splits)
  have "scans all_digits d s s'" by (rule raw_digits_loop_sound [OF r assms(2)])
  then have "at s < at s'" "at s' \<le> length d" "all_digits (seg d (at s) (at s'))"
    using n by (auto simp: scans_def)
  moreover from this have "seg d (at s) (at s') \<noteq> []"
    by (metis length_seg list.size(3) zero_less_diff less_irrefl)
  ultimately show ?thesis by (simp add: scans_def json_digits_def)
qed

lemma raw_take_snd:
  "at s \<le> length d \<Longrightarrow> scans (\<lambda>w. w = [] \<or> w = [b]) d s (snd (raw_take d b s))"
  by (auto simp: raw_take_def scans_def seg_Suc)

lemma raw_int_sound:
  assumes "raw_int d s = Inr s'" "at s \<le> length d"
  shows "scans json_int d s s'"
proof (cases "raw_take d (CHR ''0'') s")
  case (Pair t s2)
  show ?thesis
  proof (cases t)
    case True
    then show ?thesis using assms Pair
      by (auto simp: raw_int_def raw_take_True scans_def seg_Suc json_int_def)
  next
    case False
    then have s2: "s2 = s" using Pair by (simp add: raw_take_False)
    have b: "\<not> byte (d ! at s) < byte (CHR ''1'')" and r: "raw_digits d s = Inr s'"
      using assms(1) Pair False by (auto simp: raw_int_def s2 split: if_splits)
    have sc: "scans json_digits d s s'" by (rule raw_digits_sound [OF r assms(2)])
    then have lt: "at s < at s'" "at s' \<le> length d"
      by (auto simp: scans_def json_digits_def) (metis le_neq_implies_less seg_refl)
    then have "hd (seg d (at s) (at s')) = d ! at s" by (simp add: seg_Cons)
    moreover have "d ! at s \<noteq> CHR ''0''" using b by auto
    ultimately show ?thesis using sc by (simp add: scans_def json_int_def)
  qed
qed

lemma raw_frac_sound:
  assumes "raw_frac d s = Inr s'" "at s \<le> length d"
  shows "scans json_frac d s s'"
proof (cases "raw_take d (CHR ''.'') s")
  case (Pair t s2)
  show ?thesis
  proof (cases t)
    case True
    then have a: "scans (\<lambda>w. w = ''.'') d s s2" and r: "raw_digits d s2 = Inr s'"
      using Pair assms(1) raw_take_scans by (auto simp: raw_frac_def)
    have "scans json_digits d s2 s'" using raw_digits_sound [OF r] scans_at [OF a] by simp
    with a show ?thesis by (rule scans_seq) (simp add: json_frac_def)
  next
    case False
    then have "s2 = s" using Pair by (simp add: raw_take_False)
    then have "s' = s" using Pair False assms(1) by (simp add: raw_frac_def)
    then show ?thesis using assms(2) by (simp add: scans_def json_frac_def)
  qed
qed

lemma raw_sign_sound:
  assumes "at s \<le> length d"
  shows "scans (\<lambda>w. w = [] \<or> w = ''+'' \<or> w = ''-'') d s (raw_sign d s)"
  using assms by (auto simp: raw_sign_def raw_take_def scans_def seg_Suc)

lemma json_exp_intro:
  "\<lbrakk>a = CHR ''e'' \<or> a = CHR ''E''; sg = [] \<or> sg = ''+'' \<or> sg = ''-''; json_digits ds\<rbrakk>
   \<Longrightarrow> json_exp (a # sg @ ds)"
  unfolding json_exp_def by blast

lemma raw_exp_sound:
  assumes "raw_exp d s = Inr s'" "at s \<le> length d"
  shows "scans json_exp d s s'"
proof (cases "(case raw_take d (CHR ''e'') s of
              (True, s6) \<Rightarrow> (True, s6) | (False, s6) \<Rightarrow> raw_take d (CHR ''E'') s6)")
  case (Pair t s7)
  show ?thesis
  proof (cases t)
    case True
    then have a: "scans (\<lambda>w. w = ''e'' \<or> w = ''E'') d s s7" and r: "raw_digits d (raw_sign d s7) = Inr s'"
      using Pair assms(1) by (auto simp: raw_exp_def raw_take_def scans_def seg_Suc split: if_splits)
    have b: "scans (\<lambda>w. w = [] \<or> w = ''+'' \<or> w = ''-'') d s7 (raw_sign d s7)"
      by (rule raw_sign_sound) (use scans_at [OF a] in simp)
    have c: "scans json_digits d (raw_sign d s7) s'"
      using raw_digits_sound [OF r] scans_at [OF b] by simp
    have "scans (\<lambda>w. \<exists>sg ds. w = sg @ ds \<and> (sg = [] \<or> sg = ''+'' \<or> sg = ''-'') \<and> json_digits ds) d s7 s'"
      by (rule scans_seq [OF b c]) blast
    with a show ?thesis by (rule scans_seq) (metis append_Cons append_Nil json_exp_intro)
  next
    case False
    then have "s' = s" using Pair assms(1) by (auto simp: raw_exp_def raw_take_def split: if_splits)
    then show ?thesis using assms(2) by (simp add: scans_def json_exp_def)
  qed
qed

lemma raw_number_sound:
  assumes "raw_number d s = Inr s'" "at s \<le> length d"
  shows "scans json_number d s s'"
proof -
  define s1 where "s1 = snd (raw_take d (CHR ''-'') s)"
  obtain s3 s5 where i: "raw_int d s1 = Inr s3" and f: "raw_frac d s3 = Inr s5"
    and e: "raw_exp d s5 = Inr s'"
    using assms(1)
    by (auto simp: raw_number_def s1_def [symmetric] Let_def sbind_Inr_conv split: if_splits)
  have a: "scans (\<lambda>w. w = [] \<or> w = ''-'') d s s1"
    unfolding s1_def by (rule raw_take_snd [OF assms(2)])
  have b: "scans json_int d s1 s3" using raw_int_sound [OF i] scans_at [OF a] by simp
  have c: "scans json_frac d s3 s5" using raw_frac_sound [OF f] scans_at [OF b] by simp
  have g: "scans json_exp d s5 s'" using raw_exp_sound [OF e] scans_at [OF c] by simp
  have h: "scans (\<lambda>w. \<exists>f e. w = f @ e \<and> json_frac f \<and> json_exp e) d s3 s'"
    by (rule scans_seq [OF c g]) blast
  have j: "scans (\<lambda>w. \<exists>i f e. w = i @ f @ e \<and> json_int i \<and> json_frac f \<and> json_exp e) d s1 s'"
    by (rule scans_seq [OF b h]) blast
  show ?thesis by (rule scans_seq [OF a j]) (auto simp: json_number_def)
qed


subsection \<open>Soundness of the validator\<close>

definition ws_value :: "nat \<Rightarrow> bytes \<Rightarrow> bool" where
  "ws_value n w = (\<exists>u v. w = u @ v \<and> all_ws u \<and> json_value n v)"

definition object_rest :: "nat \<Rightarrow> bytes \<Rightarrow> bool" where
  "object_rest n w = (\<exists>m. w = m @ ''}'' \<and> json_members n m)"

definition array_rest :: "nat \<Rightarrow> bytes \<Rightarrow> bool" where
  "array_rest n w = (\<exists>m. w = m @ '']'' \<and> json_elements n m)"

text \<open>The language of each part at a depth: a value at depth 128 is the last one the scanner enters.\<close>

fun raw_language :: "raw_method \<Rightarrow> nat \<Rightarrow> bytes \<Rightarrow> bool" where
  "raw_language RValue k = ws_value (129 - k)"
| "raw_language RObject k = (\<lambda>w. json_value (129 - k) w)"
| "raw_language RMembers k = object_rest (128 - k)"
| "raw_language RArray k = (\<lambda>w. json_value (129 - k) w)"
| "raw_language RElements k = array_rest (128 - k)"

fun raw_ready :: "raw_method \<Rightarrow> bytes \<Rightarrow> nat \<Rightarrow> scan \<Rightarrow> bool" where
  "raw_ready RObject d k s = (k \<le> 128 \<and> at s < length d \<and> d ! at s = CHR ''{'')"
| "raw_ready RArray d k s = (k \<le> 128 \<and> at s < length d \<and> d ! at s = CHR ''['')"
| "raw_ready RValue d k s = (at s \<le> length d)"
| "raw_ready RMembers d k s = (k \<le> 128 \<and> at s \<le> length d)"
| "raw_ready RElements d k s = (k \<le> 128 \<and> at s \<le> length d)"

definition raw_sound :: "raw_call \<Rightarrow> raw_method \<Rightarrow> bytes \<Rightarrow> bool" where
  "raw_sound call m d = (\<forall>k s s'. raw_ready m d k s \<longrightarrow> call k s = Inr s' \<longrightarrow> scans (raw_language m k) d s s')"

lemma raw_soundD:
  "\<lbrakk>raw_sound call m d; call k s = Inr s'; raw_ready m d k s\<rbrakk> \<Longrightarrow> scans (raw_language m k) d s s'"
  by (simp add: raw_sound_def)

lemma raw_value_sound:
  assumes "raw_sound obj RObject d" "raw_sound arr RArray d"
  shows "raw_sound (raw_value_body obj arr d) RValue d"
  unfolding raw_sound_def
proof (intro allI impI)
  fix k s s' assume l: "raw_ready RValue d k s" and r: "raw_value_body obj arr d k s = Inr s'"
  obtain c s1 where k: "k \<le> 128" and sp: "raw_space d (s\<lparr>sctx := c\<rparr>) = Inr s1" and e: "at s1 \<noteq> length d"
    and b: "(let b = d ! at s1 in
           if b = CHR 0x22 then raw_text d s1
           else if b = CHR ''{'' then obj k s1
           else if b = CHR ''['' then arr k s1
           else if b = CHR ''t'' then raw_word d ''true'' s1
           else if b = CHR ''f'' then raw_word d ''false'' s1
           else if b = CHR ''n'' then raw_word d ''null'' s1
           else raw_number d s1) = Inr s'"
    using r unfolding raw_value_body_def
    by (auto simp: checked_Inr_conv sbind_Inr_conv simp del: raw_word.simps split: if_splits)
  have ws: "scans all_ws d s s1" using raw_space_sound [OF sp] l by (simp add: scans_def)
  then have l1: "at s1 \<le> length d" "at s1 < length d" using e by (auto simp: scans_def)
  have n: "129 - k = Suc (128 - k)" using k by simp
  have v: "scans (json_value (129 - k)) d s1 s'"
  proof -
    consider "d ! at s1 = CHR 0x22" "raw_text d s1 = Inr s'" | "d ! at s1 = CHR ''{''" "obj k s1 = Inr s'"
      | "d ! at s1 = CHR ''[''" "arr k s1 = Inr s'" | "raw_word d ''true'' s1 = Inr s'"
      | "raw_word d ''false'' s1 = Inr s'" | "raw_word d ''null'' s1 = Inr s'" | "raw_number d s1 = Inr s'"
      using b unfolding Let_def by (simp only: split: if_splits)
    then show ?thesis
    proof cases
      case 1 then show ?thesis using raw_text_sound [OF 1(2) l1(1)]
        by (simp add: scans_def n json_value_json_members_json_elements.str)
    next
      case 2 then show ?thesis using raw_soundD [OF assms(1) 2(2)] l1 k by simp
    next
      case 3 then show ?thesis using raw_soundD [OF assms(2) 3(2)] l1 k by simp
    next
      case 4 then show ?thesis using raw_word_sound [OF 4 l1(1)]
        by (simp add: scans_def n json_value_json_members_json_elements.jtrue)
    next
      case 5 then show ?thesis using raw_word_sound [OF 5 l1(1)]
        by (simp add: scans_def n json_value_json_members_json_elements.jfalse)
    next
      case 6 then show ?thesis using raw_word_sound [OF 6 l1(1)]
        by (simp add: scans_def n json_value_json_members_json_elements.jnull)
    next
      case 7 then show ?thesis using raw_number_sound [OF 7 l1(1)]
        by (simp add: scans_def n json_value_json_members_json_elements.num)
    qed
  qed
  show "scans (raw_language RValue k) d s s'"
    by (rule scans_seq [OF ws v]) (auto simp: ws_value_def)
qed

lemma raw_object_sound:
  assumes "raw_sound members RMembers d"
  shows "raw_sound (raw_object_body members d) RObject d"
  unfolding raw_sound_def
proof (intro allI impI)
  fix k s s' assume l: "raw_ready RObject d k s" and r: "raw_object_body members d k s = Inr s'"
  define s0 where "s0 = s\<lparr>at := Suc (at s)\<rparr>"
  obtain s1 where sp: "raw_space d s0 = Inr s1"
    and t: "(case raw_take d (CHR ''}'') s1 of (True, s2) \<Rightarrow> Inr s2 | (False, s2) \<Rightarrow> members k s2) = Inr s'"
    using r unfolding raw_object_body_def s0_def by (auto simp: sbind_Inr_conv)
  have b0: "scans (\<lambda>w. w = ''{'') d s s0" using scans_byte [of s d s0] l by (simp add: s0_def)
  have ws: "scans all_ws d s0 s1" by (rule raw_space_sound [OF sp]) (use scans_at [OF b0] in simp)
  have "k \<le> 128" using l by simp
  then have n: "129 - k = Suc (128 - k)" by linarith
  have rest: "scans (\<lambda>w. w = ''}'' \<or> object_rest (128 - k) w) d s1 s'"
  proof (cases "raw_take d (CHR ''}'') s1")
    case (Pair q s2)
    show ?thesis
    proof (cases q)
      case True
      then have "s' = s2" using t Pair by simp
      then show ?thesis using raw_take_scans [of d "CHR ''}''" s1 s2] Pair True by (simp add: scans_def)
    next
      case False
      then have "members k s1 = Inr s'" using t Pair by (auto simp: raw_take_False)
      from raw_soundD [OF assms this] show ?thesis using l scans_at [OF ws] by (simp add: scans_def)
    qed
  qed
  have ws_rest: "scans (\<lambda>w. \<exists>u v. w = u @ v \<and> all_ws u \<and> (v = ''}'' \<or> object_rest (128 - k) v)) d s0 s'"
    by (rule scans_seq [OF ws rest]) blast
  show "scans (raw_language RObject k) d s s'"
    by (rule scans_seq [OF b0 ws_rest])
      (auto simp: n object_rest_def intro: json_value_json_members_json_elements.intros)
qed

lemma json_elements_ws:
  "\<lbrakk>all_ws u; json_elements n m\<rbrakk> \<Longrightarrow> json_elements n (u @ m)"
proof (erule json_elements.cases)
  fix n' w1 v w2
  assume "all_ws u" "n = n'" "m = w1 @ v @ w2" "all_ws w1" "json_value n' v" "all_ws w2"
  then show ?thesis using element [of "u @ w1" n v w2] by simp
next
  fix n' w1 v w2 m'
  assume "all_ws u" "n = n'" "m = w1 @ v @ w2 @ '','' @ m'" "all_ws w1" "json_value n' v" "all_ws w2"
    "json_elements n' m'"
  then show ?thesis using elements [of "u @ w1" n v w2 m'] by simp
qed

lemma raw_array_sound:
  assumes "raw_sound elements RElements d"
  shows "raw_sound (raw_array_body elements d) RArray d"
  unfolding raw_sound_def
proof (intro allI impI)
  fix k s s' assume l: "raw_ready RArray d k s" and r: "raw_array_body elements d k s = Inr s'"
  define s0 where "s0 = s\<lparr>at := Suc (at s)\<rparr>"
  obtain s1 where sp: "raw_space d s0 = Inr s1"
    and t: "(case raw_take d (CHR '']'') s1 of (True, s2) \<Rightarrow> Inr s2 | (False, s2) \<Rightarrow> elements k s2) = Inr s'"
    using r unfolding raw_array_body_def s0_def by (auto simp: sbind_Inr_conv)
  have b0: "scans (\<lambda>w. w = ''['') d s s0" using scans_byte [of s d s0] l by (simp add: s0_def)
  have ws: "scans all_ws d s0 s1" by (rule raw_space_sound [OF sp]) (use scans_at [OF b0] in simp)
  have "k \<le> 128" using l by simp
  then have n: "129 - k = Suc (128 - k)" by linarith
  have rest: "scans (\<lambda>w. w = '']'' \<or> array_rest (128 - k) w) d s1 s'"
  proof (cases "raw_take d (CHR '']'') s1")
    case (Pair q s2)
    show ?thesis
    proof (cases q)
      case True
      then have "s' = s2" using t Pair by simp
      then show ?thesis using raw_take_scans [of d "CHR '']''" s1 s2] Pair True by (simp add: scans_def)
    next
      case False
      then have "elements k s1 = Inr s'" using t Pair by (auto simp: raw_take_False)
      from raw_soundD [OF assms this] show ?thesis using l scans_at [OF ws] by (simp add: scans_def)
    qed
  qed
  have ws_rest: "scans (\<lambda>w. \<exists>u v. w = u @ v \<and> all_ws u \<and> (v = '']'' \<or> array_rest (128 - k) v)) d s0 s'"
    by (rule scans_seq [OF ws rest]) blast
  show "scans (raw_language RArray k) d s s'"
    by (rule scans_seq [OF b0 ws_rest])
      (auto simp: n array_rest_def intro: json_value_json_members_json_elements.arr0
        json_value_json_members_json_elements.arr [OF json_elements_ws, simplified])
qed


lemma take_split:
  obtains s2 where "raw_take d b s = (True, s2)" "scans (\<lambda>w. w = [b]) d s s2"
  | "raw_take d b s = (False, s)"
proof (cases "raw_take d b s")
  case (Pair q s2)
  show ?thesis
  proof (cases q)
    case True
    then show ?thesis using Pair raw_take_scans [of d b s s2] that(1) [of s2] by simp
  next
    case False
    then show ?thesis using Pair that(2) by (simp add: raw_take_False)
  qed
qed

definition member_head :: "nat \<Rightarrow> bytes \<Rightarrow> bool" where
  "member_head n w = (\<exists>k w1 v w3. w = k @ w1 @ '':'' @ v @ w3 \<and> json_string k \<and> all_ws w1 \<and>
     ws_value n v \<and> all_ws w3)"

lemma member_head_one: "member_head n w \<Longrightarrow> json_members n w"
  unfolding member_head_def ws_value_def
  by clarify (metis append.assoc json_value_json_members_json_elements.member)

lemma member_head_more:
  "\<lbrakk>member_head n w; all_ws u; json_members n m\<rbrakk> \<Longrightarrow> json_members n (w @ '','' @ u @ m)"
  unfolding member_head_def ws_value_def
  by clarify (metis append.assoc json_value_json_members_json_elements.members)

lemma raw_members_body_InrE:
  assumes "raw_members_body val members d k s = Inr s'"
  obtains s1 s2 s3 s4 s5 where "raw_text d s = Inr s1" "raw_space d s1 = Inr s2"
    "raw_take d (CHR '':'') s2 = (True, s3)" "val (Suc k) s3 = Inr s4" "raw_space d s4 = Inr s5"
    "(case raw_take d (CHR ''}'') s5 of
        (True, s6) \<Rightarrow> Inr s6
      | (False, s6) \<Rightarrow>
        (case raw_take d (CHR '','') s6 of
           (False, _) \<Rightarrow> Inl ErrUnsupported
         | (True, s7) \<Rightarrow> sbind (raw_space d s7) (members k))) = Inr s'"
proof -
  obtain s1 s2 where a: "raw_text d s = Inr s1" "raw_space d s1 = Inr s2"
    and b: "(case raw_take d (CHR '':'') s2 of
         (False, _) \<Rightarrow> Inl ErrUnsupported
       | (True, s3) \<Rightarrow>
         sbind (val (Suc k) s3) (\<lambda>s4.
         sbind (raw_space d s4) (\<lambda>s5.
           case raw_take d (CHR ''}'') s5 of
             (True, s6) \<Rightarrow> Inr s6
           | (False, s6) \<Rightarrow>
             (case raw_take d (CHR '','') s6 of
                (False, _) \<Rightarrow> Inl ErrUnsupported
              | (True, s7) \<Rightarrow> sbind (raw_space d s7) (members k))))) = Inr s'"
    using assms unfolding raw_members_body_def sbind_Inr_conv by blast
  show thesis
  proof (rule take_split [of d "CHR '':''" s2])
    fix s3 assume c: "raw_take d (CHR '':'') s2 = (True, s3)"
    show thesis
      using b unfolding c prod.case bool.case sbind_Inr_conv by (blast intro: that a c)
  next
    assume "raw_take d (CHR '':'') s2 = (False, s2)"
    then show thesis using b by simp
  qed
qed

lemma raw_members_sound:
  assumes "raw_sound val RValue d" "raw_sound members RMembers d"
  shows "raw_sound (raw_members_body val members d) RMembers d"
  unfolding raw_sound_def
proof (intro allI impI)
  fix k s s' assume l: "raw_ready RMembers d k s" and r: "raw_members_body val members d k s = Inr s'"
  obtain s1 s2 s3 s4 s5 where key: "raw_text d s = Inr s1" and sp1: "raw_space d s1 = Inr s2"
    and colon: "raw_take d (CHR '':'') s2 = (True, s3)" and v: "val (Suc k) s3 = Inr s4"
    and sp2: "raw_space d s4 = Inr s5"
    and t: "(case raw_take d (CHR ''}'') s5 of
             (True, s6) \<Rightarrow> Inr s6
           | (False, s6) \<Rightarrow>
             (case raw_take d (CHR '','') s6 of
                (False, _) \<Rightarrow> Inl ErrUnsupported
              | (True, s7) \<Rightarrow> sbind (raw_space d s7) (members k))) = Inr s'"
    by (rule raw_members_body_InrE [OF r]) blast
  have a1: "scans json_string d s s1" by (rule raw_text_sound [OF key]) (use l in simp)
  have a2: "scans all_ws d s1 s2" by (rule raw_space_sound [OF sp1]) (use scans_at [OF a1] in simp)
  have a3: "scans (\<lambda>w. w = '':'') d s2 s3" by (rule raw_take_scans [OF colon])
  have a4: "scans (ws_value (128 - k)) d s3 s4"
    using raw_soundD [OF assms(1) v] scans_at [OF a3] by simp
  have a5: "scans all_ws d s4 s5" by (rule raw_space_sound [OF sp2]) (use scans_at [OF a4] in simp)
  have b1: "scans (\<lambda>w. \<exists>k w1. w = k @ w1 \<and> json_string k \<and> all_ws w1) d s s2"
    by (rule scans_seq [OF a1 a2]) blast
  have b2: "scans (\<lambda>w. \<exists>k w1. w = k @ w1 @ '':'' \<and> json_string k \<and> all_ws w1) d s s3"
    by (rule scans_seq [OF b1 a3]) auto
  have b3: "scans (\<lambda>w. \<exists>v w3. w = v @ w3 \<and> ws_value (128 - k) v \<and> all_ws w3) d s3 s5"
    by (rule scans_seq [OF a4 a5]) blast
  have head: "scans (member_head (128 - k)) d s s5"
  proof (rule scans_seq [OF b2 b3])
    fix a b assume "\<exists>k w1. a = k @ w1 @ '':'' \<and> json_string k \<and> all_ws w1"
      "\<exists>v w3. b = v @ w3 \<and> ws_value (128 - k) v \<and> all_ws w3"
    then show "member_head (128 - k) (a @ b)" unfolding member_head_def by (metis append.assoc)
  qed
  show "scans (raw_language RMembers k) d s s'"
  proof (rule take_split [of d "CHR ''}''" s5])
    fix s6 assume "raw_take d (CHR ''}'') s5 = (True, s6)" and c: "scans (\<lambda>w. w = ''}'') d s5 s6"
    then have "s' = s6" using t by simp
    with head c show ?thesis
      by (auto intro: scans_seq simp: object_rest_def member_head_one)
  next
    assume f: "raw_take d (CHR ''}'') s5 = (False, s5)"
    then obtain s7 s8 where comma: "raw_take d (CHR '','') s5 = (True, s7)"
      and sp3: "raw_space d s7 = Inr s8" and m: "members k s8 = Inr s'"
      using t by (auto simp: sbind_Inr_conv split: prod.splits bool.splits)
    have c1: "scans (\<lambda>w. w = '','') d s5 s7" by (rule raw_take_scans [OF comma])
    have c2: "scans all_ws d s7 s8" by (rule raw_space_sound [OF sp3]) (use scans_at [OF c1] in simp)
    have c3: "scans (object_rest (128 - k)) d s8 s'"
      using raw_soundD [OF assms(2) m] l scans_at [OF c2] by simp
    have d1: "scans (\<lambda>w. \<exists>m. w = m @ '','' \<and> member_head (128 - k) m) d s s7"
      by (rule scans_seq [OF head c1]) blast
    have d2: "scans (\<lambda>w. \<exists>m u. w = m @ '','' @ u \<and> member_head (128 - k) m \<and> all_ws u) d s s8"
      by (rule scans_seq [OF d1 c2]) (metis append.assoc)
    show ?thesis
      by (rule scans_seq [OF d2 c3])
        (auto simp: object_rest_def dest!: member_head_more)
  qed
qed

definition element_head :: "nat \<Rightarrow> bytes \<Rightarrow> bool" where
  "element_head n w = (\<exists>v x. w = v @ x \<and> ws_value n v \<and> all_ws x)"

lemma element_head_one: "element_head n w \<Longrightarrow> json_elements n w"
  unfolding element_head_def ws_value_def
  by clarify (metis append.assoc json_value_json_members_json_elements.element)

lemma element_head_more:
  "\<lbrakk>element_head n w; json_elements n m\<rbrakk> \<Longrightarrow> json_elements n (w @ '','' @ m)"
  unfolding element_head_def ws_value_def
  by clarify (metis append.assoc json_value_json_members_json_elements.elements)

lemma raw_elements_sound:
  assumes "raw_sound val RValue d" "raw_sound elements RElements d"
  shows "raw_sound (raw_elements_body val elements d) RElements d"
  unfolding raw_sound_def
proof (intro allI impI)
  fix k s s' assume l: "raw_ready RElements d k s" and r: "raw_elements_body val elements d k s = Inr s'"
  obtain s1 s2 where v: "val (Suc k) s = Inr s1" and sp: "raw_space d s1 = Inr s2"
    and t: "(case raw_take d (CHR '']'') s2 of
         (True, s3) \<Rightarrow> Inr s3
       | (False, s3) \<Rightarrow>
         (case raw_take d (CHR '','') s3 of
            (False, _) \<Rightarrow> Inl ErrUnsupported
          | (True, s4) \<Rightarrow> elements k s4)) = Inr s'"
    using r unfolding raw_elements_body_def sbind_Inr_conv by blast
  have a1: "scans (ws_value (128 - k)) d s s1" using raw_soundD [OF assms(1) v] l by simp
  have a2: "scans all_ws d s1 s2" by (rule raw_space_sound [OF sp]) (use scans_at [OF a1] in simp)
  have head: "scans (element_head (128 - k)) d s s2"
    by (rule scans_seq [OF a1 a2]) (unfold element_head_def, blast)
  show "scans (raw_language RElements k) d s s'"
  proof (rule take_split [of d "CHR '']''" s2])
    fix s3 assume "raw_take d (CHR '']'') s2 = (True, s3)" and c: "scans (\<lambda>w. w = '']'') d s2 s3"
    then have e: "s' = s3" using t by simp
    show ?thesis unfolding e
      by (rule scans_seq [OF head c])
        (use element_head_one in \<open>auto simp: array_rest_def\<close>)
  next
    assume f: "raw_take d (CHR '']'') s2 = (False, s2)"
    then obtain s4 where comma: "raw_take d (CHR '','') s2 = (True, s4)" and m: "elements k s4 = Inr s'"
      using t by (auto split: prod.splits bool.splits)
    have c1: "scans (\<lambda>w. w = '','') d s2 s4" by (rule raw_take_scans [OF comma])
    have c2: "scans (array_rest (128 - k)) d s4 s'"
      using raw_soundD [OF assms(2) m] l scans_at [OF c1] by simp
    have d1: "scans (\<lambda>w. \<exists>u. w = u @ '','' \<and> element_head (128 - k) u) d s s4"
      by (rule scans_seq [OF head c1]) blast
    show ?thesis
      by (rule scans_seq [OF d1 c2])
        (use element_head_more in \<open>auto simp: array_rest_def\<close>)
  qed
qed

lemma raw_run_sound: "raw_sound (raw_run f m d) m d"
proof (induction f arbitrary: m)
  case 0
  then show ?case by (simp add: raw_sound_def)
next
  case (Suc f)
  show ?case
    by (cases m)
      (simp_all add: raw_value_sound raw_object_sound raw_members_sound raw_array_sound raw_elements_sound Suc)
qed

lemma validate_raw_sound:
  assumes "validate_raw c d = Inr c'"
  shows "json_document d"
proof -
  obtain s1 s2 where v: "raw_run (raw_fuel d) RValue d 0 \<lparr>at = 0, sctx = c\<rparr> = Inr s1"
    and sp: "raw_space d s1 = Inr s2" and e: "at s2 = length d"
    using assms by (auto simp: validate_raw_def sbind_Inr_conv split: if_splits)
  have a: "scans (ws_value 129) d \<lparr>at = 0, sctx = c\<rparr> s1"
    using raw_soundD [OF raw_run_sound v] by simp
  have b: "scans all_ws d s1 s2" by (rule raw_space_sound [OF sp]) (use scans_at [OF a] in simp)
  have "scans json_document d \<lparr>at = 0, sctx = c\<rparr> s2"
    by (rule scans_seq [OF a b]) (unfold ws_value_def json_document_def, metis append.assoc)
  then show ?thesis using e by (simp add: scans_def seg_all)
qed


subsection \<open>Completeness of the leaves\<close>

definition ahead :: "bytes \<Rightarrow> scan \<Rightarrow> bytes \<Rightarrow> bool" where
  "ahead d s u = (sctx s = Background \<and> at s \<le> length d \<and> drop (at s) d = u)"

definition adv :: "scan \<Rightarrow> nat \<Rightarrow> scan" where
  "adv s n = s\<lparr>at := at s + n\<rparr>"

lemma adv_simps [simp]: "at (adv s n) = at s + n" "sctx (adv s n) = sctx s"
  "adv (adv s m) n = adv s (m + n)" "adv s 0 = s"
  by (simp_all add: adv_def add.assoc)

lemma ahead_adv: "ahead d s (w @ r) \<Longrightarrow> ahead d (adv s (length w)) r"
proof -
  assume a: "ahead d s (w @ r)"
  then have "drop (length w) (drop (at s) d) = r" by (simp add: ahead_def)
  moreover have "length (drop (at s) d) = length (w @ r)" using a by (simp add: ahead_def)
  ultimately show ?thesis using a by (auto simp: ahead_def add.commute)
qed

lemma ahead_adv_Cons: "ahead d s (b # r) \<Longrightarrow> ahead d (adv s (Suc 0)) r"
  using ahead_adv [of d s "[b]" r] by simp

lemma ahead_ConsD:
  assumes "ahead d s (b # r)"
  shows "at s < length d" "d ! at s = b" "sctx s = Background"
proof -
  show l: "at s < length d" using assms by (cases "at s < length d") (auto simp: ahead_def)
  show "d ! at s = b" using assms Cons_nth_drop_Suc [OF l] by (simp add: ahead_def)
  show "sctx s = Background" using assms by (simp add: ahead_def)
qed

lemma ahead_NilD: "ahead d s [] \<Longrightarrow> at s = length d"
  by (simp add: ahead_def)

lemma upd_adv: "sctx s = Background \<Longrightarrow> s\<lparr>at := Suc (at s), sctx := Background\<rparr> = adv s (Suc 0)"
  "s\<lparr>at := Suc (at s)\<rparr> = adv s (Suc 0)"
  "(adv s (Suc 0))\<lparr>at := Suc (Suc (at s))\<rparr> = adv s (Suc (Suc 0))"
  "sctx s = Background \<Longrightarrow> s\<lparr>sctx := Background\<rparr> = s"
  by (simp_all add: adv_def)

definition no_head :: "(char \<Rightarrow> bool) \<Rightarrow> bytes \<Rightarrow> bool" where
  "no_head P r = (r = [] \<or> \<not> P (hd r))"

lemma no_head_simps [simp]: "no_head P []" "no_head P (b # r) = (\<not> P b)"
  by (auto simp: no_head_def)

lemma raw_space_complete:
  "\<lbrakk>ahead d s (w @ r); all_ws w; no_head is_space_byte r\<rbrakk> \<Longrightarrow> raw_space d s = Inr (adv s (length w))"
proof (induction w arbitrary: s)
  case Nil
  show ?case
  proof (cases r)
    case Nil
    then show ?thesis using Nil.prems by (subst raw_space.simps) (simp add: ahead_NilD)
  next
    case (Cons b t)
    then have a: "ahead d s (b # t)" using Nil.prems by simp
    show ?thesis using ahead_ConsD [OF a] Nil.prems(3) Cons
      by (subst raw_space.simps) (simp add: upd_adv)
  qed
next
  case (Cons b w)
  then have a: "ahead d s (b # w @ r)" and b: "is_space_byte b" and w: "all_ws w" by simp_all
  have "raw_space d s = raw_space d (adv s (Suc 0))"
    using ahead_ConsD [OF a] b by (subst raw_space.simps) (simp add: upd_adv)
  also have "\<dots> = Inr (adv (adv s (Suc 0)) (length w))"
    by (rule Cons.IH [OF ahead_adv_Cons [OF a] w Cons.prems(3)])
  finally show ?case by simp
qed

lemma raw_take_complete:
  "ahead d s (b # r) \<Longrightarrow> raw_take d b s = (True, adv s (Suc 0))"
  using ahead_ConsD by (simp add: raw_take_def upd_adv)

lemma raw_take_miss: "ahead d s r \<Longrightarrow> no_head (\<lambda>c. c = b) r \<Longrightarrow> raw_take d b s = (False, s)"
  by (cases r) (auto simp: raw_take_def dest: ahead_NilD ahead_ConsD)

lemma raw_word_complete: "ahead d s (w @ r) \<Longrightarrow> raw_word d w s = Inr (adv s (length w))"
proof (induction w arbitrary: s)
  case (Cons b w)
  then have a: "ahead d s (b # w @ r)" by simp
  show ?case using raw_take_complete [OF a] Cons.IH [OF ahead_adv_Cons [OF a]] by simp
qed simp

lemma raw_hex_complete:
  "\<lbrakk>ahead d s (h @ r); \<forall>x\<in>set h. is_hex_byte x\<rbrakk> \<Longrightarrow> raw_hex d (length h) s = Inr (adv s (length h))"
proof (induction h arbitrary: s)
  case (Cons b h)
  then have a: "ahead d s (b # h @ r)" and b: "is_hex_byte b" by simp_all
  show ?case using ahead_ConsD [OF a] b Cons.IH [OF ahead_adv_Cons [OF a]] Cons.prems(2)
    by (simp add: Let_def upd_adv)
qed simp

lemma raw_text_loop_complete:
  "json_text_tail t \<Longrightarrow> ahead d s (t @ r) \<Longrightarrow> raw_text_loop d s = Inr (adv s (length t))"
proof (induction t arbitrary: s rule: json_text_tail.induct)
  case close
  then have a: "ahead d s (CHR 0x22 # r)" by simp
  show ?case using ahead_ConsD [OF a] by (subst raw_text_loop.simps) (simp add: Let_def upd_adv)
next
  case (plain b t)
  then have a: "ahead d s (b # t @ r)" by simp
  have "raw_text_loop d s = raw_text_loop d (adv s (Suc 0))"
    using ahead_ConsD [OF a] plain(1,2,3) by (subst raw_text_loop.simps) (simp add: Let_def upd_adv)
  then show ?case using plain.IH [OF ahead_adv_Cons [OF a]] by simp
next
  case (escape e t)
  then have a: "ahead d s (CHR 0x5C # e # t @ r)" by simp
  have a2: "ahead d (adv s (Suc 0)) (e # t @ r)" by (rule ahead_adv_Cons [OF a])
  have a3: "ahead d (adv s (Suc (Suc 0))) (t @ r)" using ahead_adv_Cons [OF a2] by simp
  have e: "e \<noteq> CHR ''u''" using escape(1) by (auto simp: is_simple_escape_def)
  have "raw_text_loop d s = raw_text_loop d (adv s (Suc (Suc 0)))"
    using ahead_ConsD [OF a] ahead_ConsD [OF a2] escape(1) e
    by (subst raw_text_loop.simps) (simp add: Let_def upd_adv)
  then show ?case using escape.IH [OF a3] by simp
next
  case (unicode h t)
  then have a: "ahead d s (CHR 0x5C # CHR ''u'' # h @ t @ r)" by simp
  have a2: "ahead d (adv s (Suc 0)) (CHR ''u'' # h @ t @ r)" by (rule ahead_adv_Cons [OF a])
  have a3: "ahead d (adv s (Suc (Suc 0))) (h @ t @ r)" using ahead_adv_Cons [OF a2] by simp
  have a4: "ahead d (adv s (Suc (Suc 0) + 4)) (t @ r)" using ahead_adv [OF a3] unicode(1) by simp
  have hx: "raw_hex d 4 (adv s (Suc (Suc 0))) = Inr (adv s (Suc (Suc 0) + 4))"
    using raw_hex_complete [OF a3 unicode(2)] unicode(1) by simp
  have "raw_text_loop d s = raw_text_loop d (adv s (Suc (Suc 0) + 4))"
    using ahead_ConsD [OF a] ahead_ConsD [OF a2] hx
    by (subst raw_text_loop.simps) (simp add: Let_def upd_adv)
  then show ?case using unicode.IH [OF a4] unicode(1) by simp
qed

lemma raw_text_complete:
  assumes "json_string w" "ahead d s (w @ r)"
  shows "raw_text d s = Inr (adv s (length w))"
proof -
  obtain t where w: "w = CHR 0x22 # t" and t: "json_text_tail t"
    using assms(1) by (auto simp: json_string_def)
  have a: "ahead d s (CHR 0x22 # t @ r)" using assms(2) w by simp
  show ?thesis
    using raw_text_loop_complete [OF t ahead_adv_Cons [OF a]] raw_take_complete [OF a]
    by (simp add: raw_text_def w)
qed

lemma raw_digits_loop_complete:
  "\<lbrakk>ahead d s (w @ r); all_digits w; no_head is_digit_byte r\<rbrakk>
   \<Longrightarrow> raw_digits_loop d s = Inr (adv s (length w))"
proof (induction w arbitrary: s)
  case Nil
  show ?case
  proof (cases r)
    case Nil
    then show ?thesis using Nil.prems by (subst raw_digits_loop.simps) (simp add: ahead_NilD)
  next
    case (Cons b t)
    then have a: "ahead d s (b # t)" using Nil.prems by simp
    show ?thesis using ahead_ConsD [OF a] Nil.prems(3) Cons by (subst raw_digits_loop.simps) simp
  qed
next
  case (Cons b w)
  then have a: "ahead d s (b # w @ r)" and b: "is_digit_byte b" and w: "all_digits w" by simp_all
  have "raw_digits_loop d s = raw_digits_loop d (adv s (Suc 0))"
    using ahead_ConsD [OF a] b by (subst raw_digits_loop.simps) (simp add: upd_adv)
  also have "\<dots> = Inr (adv (adv s (Suc 0)) (length w))"
    by (rule Cons.IH [OF ahead_adv_Cons [OF a] w Cons.prems(3)])
  finally show ?case by simp
qed

lemma raw_digits_complete:
  "\<lbrakk>ahead d s (w @ r); json_digits w; no_head is_digit_byte r\<rbrakk> \<Longrightarrow> raw_digits d s = Inr (adv s (length w))"
  by (simp add: raw_digits_def json_digits_def raw_digits_loop_complete)


definition num_more :: "char \<Rightarrow> bool" where
  "num_more b = (is_digit_byte b \<or> b = CHR ''.'' \<or> b = CHR ''e'' \<or> b = CHR ''E'')"

lemma no_head_mono: "no_head P r \<Longrightarrow> (\<And>b. Q b \<Longrightarrow> P b) \<Longrightarrow> no_head Q r"
  by (auto simp: no_head_def)

lemma no_head_append: "no_head P (u @ r) = (if u = [] then no_head P r else \<not> P (hd u))"
  by (auto simp: no_head_def)

lemma digit_cases: "is_digit_byte b \<Longrightarrow> b \<noteq> CHR ''0'' \<Longrightarrow>
    \<not> byte b < byte (CHR ''1'') \<and> \<not> byte b > byte (CHR ''9'')"
proof -
  assume d: "is_digit_byte b" and n: "b \<noteq> CHR ''0''"
  have "byte b \<noteq> 48" proof
    assume "byte b = 48"
    then have "byte b = byte (CHR ''0'')" by simp
    then show False using n by (simp only: of_char_eq_iff)
  qed
  then show ?thesis using d by (simp add: is_digit_byte_def)
qed

lemma digit_not: "is_digit_byte b \<Longrightarrow> b \<noteq> CHR ''.'' \<and> b \<noteq> CHR ''e'' \<and> b \<noteq> CHR ''E'' \<and> b \<noteq> CHR ''-'' \<and>
    b \<noteq> CHR ''+'' \<and> b \<noteq> CHR ''{'' \<and> b \<noteq> CHR ''['' \<and> b \<noteq> CHR ''t'' \<and> b \<noteq> CHR ''f'' \<and> b \<noteq> CHR ''n'' \<and>
    b \<noteq> CHR 0x22 \<and> b \<noteq> CHR '']'' \<and> b \<noteq> CHR ''}'' \<and> \<not> is_space_byte b"
  by (auto simp: is_digit_byte_def is_space_byte_def)

lemma json_digits_Cons: "json_digits w \<Longrightarrow> \<exists>b t. w = b # t \<and> is_digit_byte b"
  by (cases w) (auto simp: json_digits_def)

lemma raw_int_complete:
  assumes "json_int i" "ahead d s (i @ r)" "no_head is_digit_byte r"
  shows "raw_int d s = Inr (adv s (length i))"
proof (cases "i = ''0''")
  case True
  then have "ahead d s (CHR ''0'' # r)" using assms(2) by simp
  from raw_take_complete [OF this] show ?thesis by (simp add: raw_int_def True)
next
  case False
  then have i: "json_digits i" "hd i \<noteq> CHR ''0''" using assms(1) by (auto simp: json_int_def)
  then obtain b t where bt: "i = b # t" "is_digit_byte b" using json_digits_Cons by blast
  then have a: "ahead d s (b # t @ r)" using assms(2) by simp
  have "raw_take d (CHR ''0'') s = (False, s)"
    by (rule raw_take_miss [OF assms(2)]) (use i bt in simp)
  then show ?thesis
    using digit_cases [of b] i(2) bt ahead_ConsD [OF a] raw_digits_complete [OF assms(2) i(1) assms(3)]
    by (simp add: raw_int_def)
qed

lemma raw_frac_complete:
  assumes "json_frac f" "ahead d s (f @ r)" "no_head is_digit_byte r" "no_head (\<lambda>c. c = CHR ''.'') r"
  shows "raw_frac d s = Inr (adv s (length f))"
proof (cases "f = []")
  case True
  then show ?thesis using raw_take_miss [OF _ assms(4)] assms(2) by (simp add: raw_frac_def)
next
  case False
  then obtain ds where f: "f = CHR ''.'' # ds" "json_digits ds" using assms(1) by (auto simp: json_frac_def)
  then have a: "ahead d s (CHR ''.'' # ds @ r)" using assms(2) by simp
  show ?thesis
    using raw_take_complete [OF a] raw_digits_complete [OF ahead_adv_Cons [OF a] f(2) assms(3)]
    by (simp add: raw_frac_def f)
qed

lemma raw_sign_complete:
  assumes "sg = [] \<or> sg = ''+'' \<or> sg = ''-''" "json_digits ds" "ahead d s (sg @ ds @ r)"
  shows "raw_sign d s = adv s (length sg)"
proof -
  obtain b t where bt: "ds = b # t" "is_digit_byte b" using json_digits_Cons assms(2) by blast
  consider "sg = []" | "sg = ''+''" | "sg = ''-''" using assms(1) by blast
  then show ?thesis
  proof cases
    case 1
    then have a: "ahead d s (ds @ r)" using assms(3) by simp
    have "raw_take d (CHR ''+'') s = (False, s)" "raw_take d (CHR ''-'') s = (False, s)"
      by (rule raw_take_miss [OF a], use bt digit_not in simp)+
    then show ?thesis by (simp add: raw_sign_def 1)
  next
    case 2
    then have a: "ahead d s (CHR ''+'' # ds @ r)" using assms(3) by simp
    show ?thesis using raw_take_complete [OF a] by (simp add: raw_sign_def 2)
  next
    case 3
    then have a: "ahead d s (CHR ''-'' # ds @ r)" using assms(3) by simp
    have "raw_take d (CHR ''+'') s = (False, s)" by (rule raw_take_miss [OF a]) simp
    then show ?thesis using raw_take_complete [OF a] by (simp add: raw_sign_def 3)
  qed
qed

lemma raw_exp_complete:
  assumes "json_exp e" "ahead d s (e @ r)" "no_head num_more r"
  shows "raw_exp d s = Inr (adv s (length e))"
proof (cases "e = []")
  case True
  then have a: "ahead d s r" using assms(2) by simp
  have "raw_take d (CHR ''e'') s = (False, s)" "raw_take d (CHR ''E'') s = (False, s)"
    by (rule raw_take_miss [OF a], rule no_head_mono [OF assms(3)], simp add: num_more_def)+
  then show ?thesis by (simp add: raw_exp_def True)
next
  case False
  then obtain b sg ds where e: "e = b # sg @ ds" "b = CHR ''e'' \<or> b = CHR ''E''"
    "sg = [] \<or> sg = ''+'' \<or> sg = ''-''" "json_digits ds" using assms(1) unfolding json_exp_def by blast
  have a: "ahead d s (b # sg @ ds @ r)" using assms(2) e(1) by simp
  have a1: "ahead d (adv s (Suc 0)) (sg @ ds @ r)" by (rule ahead_adv_Cons [OF a])
  have a2: "ahead d (adv s (Suc (length sg))) (ds @ r)" using ahead_adv [OF a1] by simp
  have t: "(case raw_take d (CHR ''e'') s of
              (True, s6) \<Rightarrow> (True, s6) | (False, s6) \<Rightarrow> raw_take d (CHR ''E'') s6) = (True, adv s (Suc 0))"
    using e(2) raw_take_complete [OF a] raw_take_miss [OF a, of "CHR ''e''"] by auto
  have "no_head is_digit_byte r" by (rule no_head_mono [OF assms(3)]) (simp add: num_more_def)
  then show ?thesis
    unfolding raw_exp_def t
    using raw_sign_complete [OF e(3,4) a1] raw_digits_complete [OF a2 e(4)] by (simp add: e(1))
qed

lemma json_exp_head: "json_exp e \<Longrightarrow> e = [] \<or> hd e = CHR ''e'' \<or> hd e = CHR ''E''"
  by (auto simp: json_exp_def)

lemma json_frac_head: "json_frac f \<Longrightarrow> f = [] \<or> hd f = CHR ''.''"
  by (auto simp: json_frac_def)

lemma json_int_head: "json_int i \<Longrightarrow> \<exists>b t. i = b # t \<and> is_digit_byte b"
proof -
  have "is_digit_byte (CHR ''0'')" by (simp add: is_digit_byte_def)
  moreover assume "json_int i"
  ultimately show ?thesis using json_digits_Cons [of i] unfolding json_int_def by blast
qed

lemma json_number_head:
  assumes "json_number w"
  obtains b t where "w = b # t" "is_digit_byte b \<or> b = CHR ''-''"
proof -
  obtain sg i f e where w: "w = sg @ i @ f @ e" "sg = [] \<or> sg = ''-''" "json_int i"
    using assms by (auto simp: json_number_def)
  obtain b t where "i = b # t" "is_digit_byte b" using json_int_head [OF w(3)] by blast
  then show thesis using w(1,2) that [of b "t @ f @ e"] that [of "CHR ''-''" "i @ f @ e"] by auto
qed

lemma raw_number_complete:
  assumes "json_number w" "ahead d s (w @ r)" "no_head num_more r"
  shows "raw_number d s = Inr (adv s (length w))"
proof -
  obtain sg i f e where w: "w = sg @ i @ f @ e" and sg: "sg = [] \<or> sg = ''-''" and i: "json_int i"
    and f: "json_frac f" and e: "json_exp e" using assms(1) by (auto simp: json_number_def)
  have he: "no_head is_digit_byte (e @ r)" "no_head (\<lambda>c. c = CHR ''.'') (e @ r)"
    using json_exp_head [OF e] no_head_mono [OF assms(3), of is_digit_byte]
      no_head_mono [OF assms(3), of "\<lambda>c. c = CHR ''.''"]
    by (auto simp: no_head_append num_more_def dest: digit_not)
  have hf: "no_head is_digit_byte (f @ e @ r)"
    using json_frac_head [OF f] he digit_not by (cases "f = []") (auto simp: no_head_append)
  obtain b t where bt: "i = b # t" "is_digit_byte b" using json_int_head [OF i] by blast
  have a0: "ahead d s (sg @ i @ f @ e @ r)" using assms(2) w by simp
  then have a1: "ahead d (adv s (length sg)) (i @ f @ e @ r)" by (rule ahead_adv)
  have a2: "ahead d (adv s (length sg + length i)) (f @ e @ r)" using ahead_adv [OF a1] by simp
  have a3: "ahead d (adv s (length sg + length i + length f)) (e @ r)" using ahead_adv [OF a2] by simp
  have s1: "snd (raw_take d (CHR ''-'') s) = adv s (length sg)"
    using sg
  proof
    assume "sg = []"
    then show ?thesis using raw_take_miss [OF a0, of "CHR ''-''"] bt digit_not by simp
  next
    assume m: "sg = ''-''"
    then have "ahead d s (CHR ''-'' # i @ f @ e @ r)" using a0 by simp
    from raw_take_complete [OF this] show ?thesis by (simp add: m)
  qed
  have l: "at (adv s (length sg)) \<noteq> length d"
    using ahead_ConsD(1) [of d "adv s (length sg)" b "t @ f @ e @ r"] a1 bt by simp
  have ri: "raw_int d (adv s (length sg)) = Inr (adv s (length sg + length i))"
    using raw_int_complete [OF i a1 hf] by simp
  have rf: "raw_frac d (adv s (length sg + length i)) = Inr (adv s (length sg + length i + length f))"
    using raw_frac_complete [OF f a2 he] by simp
  have re: "raw_exp d (adv s (length sg + length i + length f)) =
      Inr (adv s (length sg + length i + length f + length e))"
    using raw_exp_complete [OF e a3 assms(3)] by simp
  show ?thesis
    unfolding raw_number_def Let_def s1 if_not_P [OF l] ri sbind_Inr rf re by (simp add: w add.assoc)
qed


subsection \<open>Completeness of the validator\<close>

lemma raw_value_head:
  assumes "ahead d s (u @ b # t)" "all_ws u" "\<not> is_space_byte b" "k \<le> 128"
  shows "raw_run (Suc g) RValue d k s =
    (let s1 = adv s (length u) in
     if b = CHR 0x22 then raw_text d s1
     else if b = CHR ''{'' then raw_run g RObject d k s1
     else if b = CHR ''['' then raw_run g RArray d k s1
     else if b = CHR ''t'' then raw_word d ''true'' s1
     else if b = CHR ''f'' then raw_word d ''false'' s1
     else if b = CHR ''n'' then raw_word d ''null'' s1
     else raw_number d s1)"
proof -
  have sp: "raw_space d s = Inr (adv s (length u))"
    by (rule raw_space_complete [OF assms(1,2)]) (simp add: assms(3))
  have a: "ahead d (adv s (length u)) (b # t)" by (rule ahead_adv [OF assms(1)])
  have bg: "sctx s = Background" using assms(1) by (simp add: ahead_def)
  have l: "at (adv s (length u)) \<noteq> length d" using ahead_ConsD(1) [OF a] by simp
  show ?thesis
    unfolding raw_run.simps raw_method.case raw_value_body_def bg checked_Background upd_adv(4) [OF bg] sp
      sbind_Inr if_not_P [OF l] Let_def ahead_ConsD(2) [OF a]
    using assms(4) by simp
qed

definition value_done :: "nat \<Rightarrow> bytes \<Rightarrow> bool" where
  "value_done n v = (\<forall>f d k s u r. ahead d s (u @ v @ r) \<longrightarrow> all_ws u \<longrightarrow> no_head num_more r \<longrightarrow>
     n + k \<le> 129 \<longrightarrow> 3 * length v \<le> f \<longrightarrow> raw_run f RValue d k s = Inr (adv s (length u + length v)))"

definition members_done :: "nat \<Rightarrow> bytes \<Rightarrow> bool" where
  "members_done n m = (\<forall>f d k s r. ahead d s (m @ CHR ''}'' # r) \<longrightarrow> n + k \<le> 128 \<longrightarrow>
     3 * length m + 1 \<le> f \<longrightarrow> raw_run f RMembers d k s = Inr (adv s (Suc (length m))))"

text \<open>\<open>array\<close> has already skipped some white space when its loop starts.\<close>

definition elements_done :: "nat \<Rightarrow> bytes \<Rightarrow> bool" where
  "elements_done n m = (\<forall>f d k s r x y. m = x @ y \<longrightarrow> all_ws x \<longrightarrow> ahead d s (y @ CHR '']'' # r) \<longrightarrow>
     n + k \<le> 128 \<longrightarrow> 3 * length y + 1 \<le> f \<longrightarrow> raw_run f RElements d k s = Inr (adv s (Suc (length y))))"

lemma value_doneI:
  assumes "v = b # t" "\<not> is_space_byte b" "0 < n"
    and "\<And>g d k s r. ahead d s (v @ r) \<Longrightarrow> no_head num_more r \<Longrightarrow> n + k \<le> 129 \<Longrightarrow> 3 * length v \<le> Suc g \<Longrightarrow>
      (if b = CHR 0x22 then raw_text d s
       else if b = CHR ''{'' then raw_run g RObject d k s
       else if b = CHR ''['' then raw_run g RArray d k s
       else if b = CHR ''t'' then raw_word d ''true'' s
       else if b = CHR ''f'' then raw_word d ''false'' s
       else if b = CHR ''n'' then raw_word d ''null'' s
       else raw_number d s) = Inr (adv s (length v))"
  shows "value_done n v"
  unfolding value_done_def
proof (intro allI impI)
  fix f d k s u r
  assume a: "ahead d s (u @ v @ r)" and u: "all_ws u" and r: "no_head num_more r"
    and k: "n + k \<le> 129" and f: "3 * length v \<le> f"
  obtain g where g: "f = Suc g" using f assms(1) by (cases f) auto
  have a1: "ahead d s (u @ b # t @ r)" using a assms(1) by simp
  have k': "k \<le> 128" using k assms(3) by simp
  show "raw_run f RValue d k s = Inr (adv s (length u + length v))"
    unfolding g raw_value_head [OF a1 u assms(2) k'] Let_def
    using assms(4) [OF ahead_adv [OF a] r k] f g by simp
qed

lemma word_ahead:
  "ahead d s (CHR ''t'' # CHR ''r'' # CHR ''u'' # CHR ''e'' # r) \<Longrightarrow>
     raw_word d ''true'' s = Inr (adv s (Suc (Suc (Suc (Suc 0)))))"
  "ahead d s (CHR ''f'' # CHR ''a'' # CHR ''l'' # CHR ''s'' # CHR ''e'' # r) \<Longrightarrow>
     raw_word d ''false'' s = Inr (adv s (Suc (Suc (Suc (Suc (Suc 0))))))"
  "ahead d s (CHR ''n'' # CHR ''u'' # CHR ''l'' # CHR ''l'' # r) \<Longrightarrow>
     raw_word d ''null'' s = Inr (adv s (Suc (Suc (Suc (Suc 0)))))"
  using raw_word_complete [of d s "''true''" r] raw_word_complete [of d s "''false''" r]
    raw_word_complete [of d s "''null''" r] by (simp_all del: raw_word.simps)

lemma value_leaf_done:
  "json_string w \<Longrightarrow> value_done (Suc n) w"
  "json_number w \<Longrightarrow> value_done (Suc n) w"
  "value_done (Suc n) ''true''" "value_done (Suc n) ''false''" "value_done (Suc n) ''null''"
proof -
  { assume w: "json_string w"
    then obtain t where t: "w = CHR 0x22 # t" by (auto simp: json_string_def)
    show "value_done (Suc n) w"
      by (rule value_doneI [OF t]) (simp_all add: is_space_byte_def raw_text_complete [OF w]) }
  { assume w: "json_number w"
    then obtain b t where t: "w = b # t" and b: "is_digit_byte b \<or> b = CHR ''-''" by (rule json_number_head)
    have nb: "\<not> is_space_byte b" using b digit_not [of b] unfolding is_space_byte_def by (elim disjE) simp_all
    have nd: "b \<noteq> CHR 0x22" "b \<noteq> CHR ''{''" "b \<noteq> CHR ''[''" "b \<noteq> CHR ''t''" "b \<noteq> CHR ''f''" "b \<noteq> CHR ''n''"
      using b digit_not [of b] by (elim disjE; simp)+
    show "value_done (Suc n) w"
      by (rule value_doneI [OF t nb]) (simp_all add: nd raw_number_complete [OF w]) }
  show "value_done (Suc n) ''true''"
    by (rule value_doneI [OF refl], simp_all add: is_space_byte_def del: raw_word.simps)
      (drule word_ahead, simp_all del: raw_word.simps)
  show "value_done (Suc n) ''false''"
    by (rule value_doneI [OF refl], simp_all add: is_space_byte_def del: raw_word.simps)
      (drule word_ahead, simp_all del: raw_word.simps)
  show "value_done (Suc n) ''null''"
    by (rule value_doneI [OF refl], simp_all add: is_space_byte_def del: raw_word.simps)
      (drule word_ahead, simp_all del: raw_word.simps)
qed


lemma json_string_head: "json_string w \<Longrightarrow> \<exists>t. w = CHR 0x22 # t"
  by (auto simp: json_string_def)

lemma json_members_head: "json_members n m \<Longrightarrow> \<exists>t. m = CHR 0x22 # t"
  by (erule json_members.cases) (auto dest!: json_string_head)

lemma json_value_head:
  assumes "json_value n v"
  obtains b t where "v = b # t" "\<not> is_space_byte b" "b \<noteq> CHR '']''"
  using assms
proof cases
  case (str m)
  then show thesis using that json_string_head by (fastforce simp: is_space_byte_def)
next
  case (num m)
  then obtain b t where t: "v = b # t" "is_digit_byte b \<or> b = CHR ''-''" using json_number_head by blast
  then have "\<not> is_space_byte b" "b \<noteq> CHR '']''"
    using digit_not [of b] unfolding is_space_byte_def by (elim disjE; simp)+
  then show thesis using that t by blast
qed (use that in \<open>auto simp: is_space_byte_def\<close>)

lemma space_no_bracket: "is_space_byte b \<Longrightarrow> b \<noteq> CHR '']'' \<and> b \<noteq> CHR ''}'' \<and> b \<noteq> CHR '','' \<and> b \<noteq> CHR '':'' \<and> \<not> num_more b"
  by (auto simp: is_space_byte_def num_more_def is_digit_byte_def)

lemma separator_facts [simp]:
  "\<not> is_space_byte (CHR '']'')" "\<not> is_space_byte (CHR ''}'')" "\<not> is_space_byte (CHR '','')"
  "\<not> is_space_byte (CHR '':'')" "\<not> is_space_byte (CHR ''{'')" "\<not> is_space_byte (CHR ''['')"
  "\<not> is_space_byte (CHR 0x22)" "\<not> num_more (CHR '']'')" "\<not> num_more (CHR ''}'')" "\<not> num_more (CHR '','')"
  by (simp_all add: is_space_byte_def num_more_def is_digit_byte_def)

lemma no_head_ws: "all_ws w \<Longrightarrow> no_head num_more r \<Longrightarrow> no_head num_more (w @ r)"
  by (cases w) (auto dest: space_no_bracket)

lemma members_doneD:
  "\<lbrakk>members_done n m; ahead d s (m @ CHR ''}'' # r); n + k \<le> 128; 3 * length m + 1 \<le> f\<rbrakk>
   \<Longrightarrow> raw_run f RMembers d k s = Inr (adv s (Suc (length m)))"
  unfolding members_done_def by blast

lemma elements_doneD:
  "\<lbrakk>elements_done n (x @ y); all_ws x; ahead d s (y @ CHR '']'' # r); n + k \<le> 128; 3 * length y + 1 \<le> f\<rbrakk>
   \<Longrightarrow> raw_run f RElements d k s = Inr (adv s (Suc (length y)))"
  unfolding elements_done_def by blast

lemma value_doneD:
  "\<lbrakk>value_done n v; ahead d s (u @ v @ r); all_ws u; no_head num_more r; n + k \<le> 129; 3 * length v \<le> f\<rbrakk>
   \<Longrightarrow> raw_run f RValue d k s = Inr (adv s (length u + length v))"
  unfolding value_done_def by blast

lemma object_done:
  assumes "all_ws w" "m = [] \<or> json_members n m \<and> members_done n m"
  shows "value_done (Suc n) (CHR ''{'' # w @ m @ ''}'')"
proof (rule value_doneI [OF refl])
  fix g d k s r
  assume a: "ahead d s ((CHR ''{'' # w @ m @ ''}'') @ r)" and k: "Suc n + k \<le> 129"
    and f: "3 * length (CHR ''{'' # w @ m @ ''}'') \<le> Suc g"
  obtain h where g: "g = Suc h" using f by (cases g) auto
  have a1: "ahead d (adv s (Suc 0)) (w @ m @ CHR ''}'' # r)" using ahead_adv_Cons [of d s] a by simp
  have nh: "no_head is_space_byte (m @ CHR ''}'' # r)"
    using assms(2) json_members_head [of n m] by (auto simp: no_head_append)
  have sp: "raw_space d (adv s (Suc 0)) = Inr (adv s (Suc (length w)))"
    using raw_space_complete [OF a1 assms(1) nh] by simp
  have a2: "ahead d (adv s (Suc (length w))) (m @ CHR ''}'' # r)" using ahead_adv [OF a1] by simp
  have "raw_run g RObject d k s = Inr (adv s (Suc (length w + Suc (length m))))"
  proof (cases "m = []")
    case True
    then have a3: "ahead d (adv s (Suc (length w))) (CHR ''}'' # r)" using a2 by simp
    show ?thesis
      by (simp add: g raw_object_body_def upd_adv(2) sp raw_take_complete [OF a3] True)
  next
    case False
    then have m: "json_members n m" "members_done n m" using assms(2) by auto
    have miss: "raw_take d (CHR ''}'') (adv s (Suc (length w))) = (False, adv s (Suc (length w)))"
      by (rule raw_take_miss [OF a2]) (use json_members_head [OF m(1)] in auto)
    have "raw_run h RMembers d k (adv s (Suc (length w))) = Inr (adv (adv s (Suc (length w))) (Suc (length m)))"
      by (rule members_doneD [OF m(2) a2]) (use k f g in simp_all)
    then show ?thesis by (simp add: g raw_object_body_def upd_adv(2) sp miss)
  qed
  then show "(if CHR ''{'' = CHR 0x22 then raw_text d s
       else if CHR ''{'' = CHR ''{'' then raw_run g RObject d k s
       else if CHR ''{'' = CHR ''['' then raw_run g RArray d k s
       else if CHR ''{'' = CHR ''t'' then raw_word d ''true'' s
       else if CHR ''{'' = CHR ''f'' then raw_word d ''false'' s
       else if CHR ''{'' = CHR ''n'' then raw_word d ''null'' s
       else raw_number d s) = Inr (adv s (length (CHR ''{'' # w @ m @ ''}'')))" by simp
qed simp_all


lemma ws_prefix:
  assumes "x @ y = w @ b # t" "all_ws x" "\<not> is_space_byte b"
  obtains x' where "w = x @ x'" "y = x' @ b # t"
proof -
  obtain us where "x = w @ us \<and> us @ y = b # t \<or> x @ us = w \<and> y = us @ b # t"
    using assms(1) by (auto simp: append_eq_append_conv2)
  then show thesis
  proof
    assume u: "x = w @ us \<and> us @ y = b # t"
    then have "us = []" using assms(2,3) by (cases us) auto
    then show thesis using u that [of "[]"] by simp
  qed (use that in auto)
qed

lemma json_elements_head:
  assumes "json_elements n m"
  obtains w b t where "m = w @ b # t" "all_ws w" "\<not> is_space_byte b" "b \<noteq> CHR '']''"
  using assms
proof cases
  case (element w1 v w2)
  obtain b t where "v = b # t" "\<not> is_space_byte b" "b \<noteq> CHR '']''" using json_value_head [OF element(3)] .
  then show thesis using element that [of w1 b "t @ w2"] by simp
next
  case (elements w1 v w2 m')
  obtain b t where "v = b # t" "\<not> is_space_byte b" "b \<noteq> CHR '']''" using json_value_head [OF elements(3)] .
  then show thesis using elements that [of w1 b "t @ w2 @ '','' @ m'"] by simp
qed

lemma array0_done:
  assumes "all_ws w"
  shows "value_done (Suc n) (CHR ''['' # w @ '']'')"
proof (rule value_doneI [OF refl])
  fix g d k s r
  assume a: "ahead d s ((CHR ''['' # w @ '']'') @ r)" and f: "3 * length (CHR ''['' # w @ '']'') \<le> Suc g"
  obtain h where g: "g = Suc h" using f by (cases g) auto
  have a1: "ahead d (adv s (Suc 0)) (w @ CHR '']'' # r)" using ahead_adv_Cons [of d s] a by simp
  have sp: "raw_space d (adv s (Suc 0)) = Inr (adv s (Suc (length w)))"
    using raw_space_complete [OF a1 assms] by simp
  have a2: "ahead d (adv s (Suc (length w))) (CHR '']'' # r)" using ahead_adv [OF a1] by simp
  show "(if CHR ''['' = CHR 0x22 then raw_text d s
       else if CHR ''['' = CHR ''{'' then raw_run g RObject d k s
       else if CHR ''['' = CHR ''['' then raw_run g RArray d k s
       else if CHR ''['' = CHR ''t'' then raw_word d ''true'' s
       else if CHR ''['' = CHR ''f'' then raw_word d ''false'' s
       else if CHR ''['' = CHR ''n'' then raw_word d ''null'' s
       else raw_number d s) = Inr (adv s (length (CHR ''['' # w @ '']'')))"
    by (simp add: g raw_array_body_def upd_adv(2) sp raw_take_complete [OF a2])
qed simp_all

lemma array_done:
  assumes "json_elements n m" "elements_done n m"
  shows "value_done (Suc n) (CHR ''['' # m @ '']'')"
proof (rule value_doneI [OF refl])
  fix g d k s r
  assume a: "ahead d s ((CHR ''['' # m @ '']'') @ r)" and k: "Suc n + k \<le> 129"
    and f: "3 * length (CHR ''['' # m @ '']'') \<le> Suc g"
  obtain h where g: "g = Suc h" using f by (cases g) auto
  obtain w b t where m: "m = w @ b # t" "all_ws w" "\<not> is_space_byte b" "b \<noteq> CHR '']''"
    using json_elements_head [OF assms(1)] .
  have a1: "ahead d (adv s (Suc 0)) (w @ (b # t) @ CHR '']'' # r)"
    using ahead_adv_Cons [of d s] a m(1) by simp
  have sp: "raw_space d (adv s (Suc 0)) = Inr (adv s (Suc (length w)))"
    using raw_space_complete [OF a1 m(2)] m(3) by simp
  have a2: "ahead d (adv s (Suc (length w))) ((b # t) @ CHR '']'' # r)" using ahead_adv [OF a1] by simp
  have miss: "raw_take d (CHR '']'') (adv s (Suc (length w))) = (False, adv s (Suc (length w)))"
    by (rule raw_take_miss [OF a2]) (use m(4) in simp)
  have "raw_run h RElements d k (adv s (Suc (length w))) =
      Inr (adv (adv s (Suc (length w))) (Suc (length (b # t))))"
    by (rule elements_doneD [of n w]) (use assms(2) m k f g a2 in simp_all)
  then have "raw_run g RArray d k s = Inr (adv s (Suc (Suc (length m))))"
    by (simp add: g raw_array_body_def upd_adv(2) sp miss m(1))
  then show "(if CHR ''['' = CHR 0x22 then raw_text d s
       else if CHR ''['' = CHR ''{'' then raw_run g RObject d k s
       else if CHR ''['' = CHR ''['' then raw_run g RArray d k s
       else if CHR ''['' = CHR ''t'' then raw_word d ''true'' s
       else if CHR ''['' = CHR ''f'' then raw_word d ''false'' s
       else if CHR ''['' = CHR ''n'' then raw_word d ''null'' s
       else raw_number d s) = Inr (adv s (length (CHR ''['' # m @ '']'')))" by simp
qed simp_all


lemma raw_members_step:
  assumes "json_string key" "all_ws w1" "all_ws w2" "value_done n v" "all_ws w3"
    and a: "ahead d s (key @ w1 @ '':'' @ w2 @ v @ w3 @ c # r)" and c: "\<not> is_space_byte c" "\<not> num_more c"
    and k: "n + k \<le> 128" and f: "3 * length v \<le> g"
  defines "e \<equiv> length key + length w1 + 1 + length w2 + length v + length w3"
  shows "raw_run (Suc g) RMembers d k s =
     (case raw_take d (CHR ''}'') (adv s e) of
        (True, s6) \<Rightarrow> Inr s6
      | (False, s6) \<Rightarrow>
        (case raw_take d (CHR '','') s6 of
           (False, _) \<Rightarrow> Inl ErrUnsupported
         | (True, s7) \<Rightarrow> sbind (raw_space d s7) (raw_run g RMembers d k)))"
    and "ahead d (adv s e) (c # r)"
proof -
  have t1: "raw_text d s = Inr (adv s (length key))" by (rule raw_text_complete [OF assms(1) a])
  have a1: "ahead d (adv s (length key)) (w1 @ CHR '':'' # w2 @ v @ w3 @ c # r)"
    using ahead_adv [OF a] by simp
  have t2: "raw_space d (adv s (length key)) = Inr (adv s (length key + length w1))"
    using raw_space_complete [OF a1 assms(2)] by simp
  have a2: "ahead d (adv s (length key + length w1)) (CHR '':'' # w2 @ v @ w3 @ c # r)"
    using ahead_adv [OF a1] by simp
  have t3: "raw_take d (CHR '':'') (adv s (length key + length w1)) = (True, adv s (length key + length w1 + 1))"
    using raw_take_complete [OF a2] by simp
  have a3: "ahead d (adv s (length key + length w1 + 1)) (w2 @ v @ w3 @ c # r)"
    using ahead_adv_Cons [OF a2] by simp
  have nm: "no_head num_more (w3 @ c # r)" by (rule no_head_ws [OF assms(5)]) (simp add: c)
  have t4: "raw_run g RValue d (Suc k) (adv s (length key + length w1 + 1)) =
      Inr (adv s (length key + length w1 + 1 + length w2 + length v))"
    using value_doneD [OF assms(4) a3 assms(3) nm, of "Suc k" g] k f by (simp add: add.assoc)
  have a4: "ahead d (adv s (length key + length w1 + 1 + length w2 + length v)) (w3 @ c # r)"
    using ahead_adv [OF ahead_adv [OF a3]] by (simp add: add.assoc)
  have t5: "raw_space d (adv s (length key + length w1 + 1 + length w2 + length v)) = Inr (adv s e)"
    using raw_space_complete [OF a4 assms(5)] c(1) by (simp add: e_def)
  show "raw_run (Suc g) RMembers d k s =
     (case raw_take d (CHR ''}'') (adv s e) of
        (True, s6) \<Rightarrow> Inr s6
      | (False, s6) \<Rightarrow>
        (case raw_take d (CHR '','') s6 of
           (False, _) \<Rightarrow> Inl ErrUnsupported
         | (True, s7) \<Rightarrow> sbind (raw_space d s7) (raw_run g RMembers d k)))"
    unfolding raw_run.simps raw_method.case raw_members_body_def t1 sbind_Inr t2 t3 prod.case bool.case t4 t5 ..
  show "ahead d (adv s e) (c # r)" using ahead_adv [OF a4] by (simp add: e_def)
qed

lemma member_done:
  assumes "json_string key" "all_ws w1" "all_ws w2" "value_done n v" "all_ws w3"
  shows "members_done n (key @ w1 @ '':'' @ w2 @ v @ w3)"
  unfolding members_done_def
proof (intro allI impI)
  fix f d k s r
  assume a: "ahead d s ((key @ w1 @ '':'' @ w2 @ v @ w3) @ CHR ''}'' # r)" and k: "n + k \<le> 128"
    and f: "3 * length (key @ w1 @ '':'' @ w2 @ v @ w3) + 1 \<le> f"
  obtain g where g: "f = Suc g" using f by (cases f) auto
  have a': "ahead d s (key @ w1 @ '':'' @ w2 @ v @ w3 @ CHR ''}'' # r)" using a by simp
  have v: "3 * length v \<le> g" using f g by simp
  note step = raw_members_step [OF assms a' separator_facts(2,9) k v]
  show "raw_run f RMembers d k s = Inr (adv s (Suc (length (key @ w1 @ '':'' @ w2 @ v @ w3))))"
    unfolding g step(1) raw_take_complete [OF step(2)] by simp
qed

lemma members_more_done:
  assumes "json_string key" "all_ws w1" "all_ws w2" "value_done n v" "all_ws w3"
    and "all_ws w4" "json_members n m" "members_done n m"
  shows "members_done n (key @ w1 @ '':'' @ w2 @ v @ w3 @ '','' @ w4 @ m)"
  unfolding members_done_def
proof (intro allI impI)
  fix f d k s r
  assume a: "ahead d s ((key @ w1 @ '':'' @ w2 @ v @ w3 @ '','' @ w4 @ m) @ CHR ''}'' # r)"
    and k: "n + k \<le> 128" and f: "3 * length (key @ w1 @ '':'' @ w2 @ v @ w3 @ '','' @ w4 @ m) + 1 \<le> f"
  obtain g where g: "f = Suc g" using f by (cases f) auto
  have a': "ahead d s (key @ w1 @ '':'' @ w2 @ v @ w3 @ CHR '','' # w4 @ m @ CHR ''}'' # r)" using a by simp
  have v: "3 * length v \<le> g" using f g by simp
  note step = raw_members_step [OF assms(1-5) a' separator_facts(3,10) k v]
  let ?e = "length key + length w1 + 1 + length w2 + length v + length w3"
  have miss: "raw_take d (CHR ''}'') (adv s ?e) = (False, adv s ?e)"
    by (rule raw_take_miss [OF step(2)]) simp
  have a1: "ahead d (adv s (Suc ?e)) (w4 @ m @ CHR ''}'' # r)" using ahead_adv_Cons [OF step(2)] by simp
  have nh: "no_head is_space_byte (m @ CHR ''}'' # r)" using json_members_head [OF assms(7)] by auto
  have sp: "raw_space d (adv s (Suc ?e)) = Inr (adv s (Suc ?e + length w4))"
    using raw_space_complete [OF a1 assms(6) nh] by simp
  have a2: "ahead d (adv s (Suc ?e + length w4)) (m @ CHR ''}'' # r)" using ahead_adv [OF a1] by simp
  have "raw_run g RMembers d k (adv s (Suc ?e + length w4)) =
      Inr (adv (adv s (Suc ?e + length w4)) (Suc (length m)))"
    by (rule members_doneD [OF assms(8) a2 k]) (use f g in simp)
  then show "raw_run f RMembers d k s =
      Inr (adv s (Suc (length (key @ w1 @ '':'' @ w2 @ v @ w3 @ '','' @ w4 @ m))))"
    unfolding g step(1) miss prod.case bool.case raw_take_complete [OF step(2)] using sp
    by (simp add: add.assoc)
qed

lemma raw_elements_step:
  assumes "all_ws w1" "value_done n v" "all_ws w2"
    and a: "ahead d s (w1 @ v @ w2 @ c # r)" and c: "\<not> is_space_byte c" "\<not> num_more c"
    and k: "n + k \<le> 128" and f: "3 * length v \<le> g"
  defines "e \<equiv> length w1 + length v + length w2"
  shows "raw_run (Suc g) RElements d k s =
     (case raw_take d (CHR '']'') (adv s e) of
         (True, s3) \<Rightarrow> Inr s3
       | (False, s3) \<Rightarrow>
         (case raw_take d (CHR '','') s3 of
            (False, _) \<Rightarrow> Inl ErrUnsupported
          | (True, s4) \<Rightarrow> raw_run g RElements d k s4))"
    and "ahead d (adv s e) (c # r)"
proof -
  have nm: "no_head num_more (w2 @ c # r)" by (rule no_head_ws [OF assms(3)]) (simp add: c)
  have t1: "raw_run g RValue d (Suc k) s = Inr (adv s (length w1 + length v))"
    by (rule value_doneD [OF assms(2) a assms(1) nm]) (use k f in simp_all)
  have a1: "ahead d (adv s (length w1 + length v)) (w2 @ c # r)" using ahead_adv [OF ahead_adv [OF a]] by simp
  have t2: "raw_space d (adv s (length w1 + length v)) = Inr (adv s e)"
    using raw_space_complete [OF a1 assms(3)] c(1) by (simp add: e_def)
  show "raw_run (Suc g) RElements d k s =
     (case raw_take d (CHR '']'') (adv s e) of
         (True, s3) \<Rightarrow> Inr s3
       | (False, s3) \<Rightarrow>
         (case raw_take d (CHR '','') s3 of
            (False, _) \<Rightarrow> Inl ErrUnsupported
          | (True, s4) \<Rightarrow> raw_run g RElements d k s4))"
    unfolding raw_run.simps raw_method.case raw_elements_body_def t1 sbind_Inr t2 ..
  show "ahead d (adv s e) (c # r)" using ahead_adv [OF a1] by (simp add: e_def)
qed


lemma element_done:
  assumes "all_ws w1" "json_value n v" "value_done n v" "all_ws w2"
  shows "elements_done n (w1 @ v @ w2)"
  unfolding elements_done_def
proof (intro allI impI)
  fix f d k s r x y
  assume xy: "w1 @ v @ w2 = x @ y" and x: "all_ws x" and a: "ahead d s (y @ CHR '']'' # r)"
    and k: "n + k \<le> 128" and f: "3 * length y + 1 \<le> f"
  obtain b t where v: "v = b # t" "\<not> is_space_byte b" "b \<noteq> CHR '']''" using json_value_head [OF assms(2)] .
  obtain x' where x': "w1 = x @ x'" "y = x' @ v @ w2" using ws_prefix [of x y w1 b "t @ w2"] xy x v by auto
  obtain g where g: "f = Suc g" using f by (cases f) auto
  have wx: "all_ws x'" using assms(1) x'(1) by simp
  have a': "ahead d s (x' @ v @ w2 @ CHR '']'' # r)" using a x'(2) by simp
  have vl: "3 * length v \<le> g" using f g x'(2) by simp
  note step = raw_elements_step [OF wx assms(3,4) a' separator_facts(1,8) k vl]
  show "raw_run f RElements d k s = Inr (adv s (Suc (length y)))"
    unfolding g step(1) raw_take_complete [OF step(2)] by (simp add: x'(2))
qed

lemma elements_more_done:
  assumes "all_ws w1" "json_value n v" "value_done n v" "all_ws w2" "elements_done n m"
  shows "elements_done n (w1 @ v @ w2 @ '','' @ m)"
  unfolding elements_done_def
proof (intro allI impI)
  fix f d k s r x y
  assume xy: "w1 @ v @ w2 @ '','' @ m = x @ y" and x: "all_ws x" and a: "ahead d s (y @ CHR '']'' # r)"
    and k: "n + k \<le> 128" and f: "3 * length y + 1 \<le> f"
  obtain b t where v: "v = b # t" "\<not> is_space_byte b" "b \<noteq> CHR '']''" using json_value_head [OF assms(2)] .
  obtain x' where x': "w1 = x @ x'" "y = x' @ v @ w2 @ '','' @ m"
    using ws_prefix [of x y w1 b "t @ w2 @ '','' @ m"] xy x v by auto
  obtain g where g: "f = Suc g" using f by (cases f) auto
  have wx: "all_ws x'" using assms(1) x'(1) by simp
  have a': "ahead d s (x' @ v @ w2 @ CHR '','' # m @ CHR '']'' # r)" using a x'(2) by simp
  have vl: "3 * length v \<le> g" using f g x'(2) by simp
  note step = raw_elements_step [OF wx assms(3,4) a' separator_facts(3,10) k vl]
  let ?e = "length x' + length v + length w2"
  have miss: "raw_take d (CHR '']'') (adv s ?e) = (False, adv s ?e)" by (rule raw_take_miss [OF step(2)]) simp
  have a1: "ahead d (adv s (Suc ?e)) (m @ CHR '']'' # r)" using ahead_adv_Cons [OF step(2)] by simp
  have "raw_run g RElements d k (adv s (Suc ?e)) = Inr (adv (adv s (Suc ?e)) (Suc (length m)))"
    by (rule elements_doneD [of n "[]"]) (use assms(5) a1 k f g x'(2) in simp_all)
  then show "raw_run f RElements d k s = Inr (adv s (Suc (length y)))"
    unfolding g step(1) miss prod.case bool.case raw_take_complete [OF step(2)]
    by (simp add: x'(2) add.assoc)
qed

lemma grammar_done:
  "json_value n v \<Longrightarrow> value_done n v"
  "json_members n m \<Longrightarrow> members_done n m"
  "json_elements n m \<Longrightarrow> elements_done n m"
proof (induction rule: json_value_json_members_json_elements.inducts)
  case (obj0 w n) then show ?case using object_done [of w "[]"] by simp
next
  case (obj w n m) then show ?case using object_done by blast
qed (simp_all only: value_leaf_done array0_done array_done member_done members_more_done element_done elements_more_done)

lemma validate_raw_complete:
  assumes "json_document d"
  shows "validate_raw Background d = Inr Background"
proof -
  obtain w1 v w2 where d: "d = w1 @ v @ w2" "all_ws w1" "json_value 129 v" "all_ws w2"
    using assms by (auto simp: json_document_def)
  define s where "s = \<lparr>at = 0, sctx = Background\<rparr>"
  have a: "ahead d s (w1 @ v @ w2)" by (simp add: ahead_def s_def d(1))
  have r: "raw_run (raw_fuel d) RValue d 0 s = Inr (adv s (length w1 + length v))"
    by (rule value_doneD [OF grammar_done(1) [OF d(3)] a d(2)])
      (use no_head_ws [OF d(4), of "[]"] in \<open>simp_all add: raw_fuel_def d(1)\<close>)
  have a1: "ahead d (adv s (length w1 + length v)) (w2 @ [])" using ahead_adv [OF ahead_adv [OF a]] by simp
  have "raw_space d (adv s (length w1 + length v)) = Inr (adv s (length d))"
    using raw_space_complete [OF a1 d(4)] by (simp add: d(1) add.assoc)
  then show ?thesis
    using r unfolding validate_raw_def s_def [symmetric] by (simp add: s_def)
qed

subsection \<open>Fuel\<close>

text \<open>An error of a leaf is never \<open>OutOfFuel\<close>.\<close>

definition fuelled :: "jw_error + 'a \<Rightarrow> bool" where
  "fuelled r = (r \<noteq> Inl OutOfFuel)"

lemma fuelled_simps [simp]: "fuelled (Inr x)" "fuelled (Inl e) = (e \<noteq> OutOfFuel)"
  by (auto simp: fuelled_def)

lemma fuelled_sbind: "fuelled m \<Longrightarrow> (\<And>x. m = Inr x \<Longrightarrow> fuelled (f x)) \<Longrightarrow> fuelled (sbind m f)"
  by (cases m) auto

lemma fuelled_checked: "(\<And>c'. fuelled (k c')) \<Longrightarrow> fuelled (checked CtxEnded c k)"
  by (auto simp: checked_def split: prod.splits)

lemma fuelled_space: "fuelled (raw_space d s)"
  by (induction d s rule: raw_space.induct) (subst raw_space.simps, simp add: fuelled_checked)

lemma fuelled_word: "fuelled (raw_word d w s)"
  by (induction d w s rule: raw_word.induct) (auto split: prod.splits bool.splits)

lemma fuelled_hex: "fuelled (raw_hex d k s)"
  by (induction d k s rule: raw_hex.induct) (auto simp: Let_def)

lemma fuelled_text_loop: "fuelled (raw_text_loop d s)"
proof (induction d s rule: raw_text_loop.induct)
  case (1 d s)
  then show ?case
    by (subst raw_text_loop.simps) (auto simp: Let_def intro!: fuelled_checked fuelled_sbind fuelled_hex)
qed

lemma fuelled_text: "fuelled (raw_text d s)"
  by (simp add: raw_text_def fuelled_text_loop split: prod.splits bool.splits)

lemma fuelled_digits_loop: "fuelled (raw_digits_loop d s)"
  by (induction d s rule: raw_digits_loop.induct) (subst raw_digits_loop.simps, simp add: fuelled_checked)

lemma fuelled_digits: "fuelled (raw_digits d s)"
  by (auto simp: raw_digits_def intro!: fuelled_sbind fuelled_digits_loop)

lemma fuelled_number: "fuelled (raw_number d s)"
  by (auto simp: raw_number_def raw_int_def raw_frac_def raw_exp_def Let_def fuelled_digits
      intro!: fuelled_sbind split: prod.splits bool.splits)


fun raw_need :: "raw_method \<Rightarrow> nat \<Rightarrow> nat" where
  "raw_need RValue n = 3 * n + 3"
| "raw_need RObject n = 3 * n + 2"
| "raw_need RArray n = 3 * n + 2"
| "raw_need RMembers n = 3 * n + 4"
| "raw_need RElements n = 3 * n + 4"

definition fuel_ok :: "nat \<Rightarrow> raw_method \<Rightarrow> bytes \<Rightarrow> bool" where
  "fuel_ok f m d = (\<forall>k s. raw_ready m d k s \<longrightarrow> raw_need m (length d - at s) \<le> f \<longrightarrow> fuelled (raw_run f m d k s))"

lemma fuel_okD: "\<lbrakk>fuel_ok f m d; raw_ready m d k s; raw_need m (length d - at s) \<le> f\<rbrakk> \<Longrightarrow> fuelled (raw_run f m d k s)"
  by (simp add: fuel_ok_def)

lemma raw_run_at:
  "\<lbrakk>raw_run f m d k s = Inr s'; raw_ready m d k s\<rbrakk> \<Longrightarrow> at s \<le> at s' \<and> at s' \<le> length d"
  using scans_at [OF raw_soundD [OF raw_run_sound]] by blast

lemma raw_space_at: "raw_space d s = Inr s' \<Longrightarrow> at s \<le> length d \<Longrightarrow> at s \<le> at s' \<and> at s' \<le> length d"
  using scans_at [OF raw_space_sound] by blast

lemma raw_text_at: "raw_text d s = Inr s' \<Longrightarrow> at s \<le> length d \<Longrightarrow> at s \<le> at s' \<and> at s' \<le> length d"
  using scans_at [OF raw_text_sound] by blast

lemma fuel_value:
  assumes "fuel_ok f RObject d" "fuel_ok f RArray d"
  shows "fuel_ok (Suc f) RValue d"
  unfolding fuel_ok_def
proof (intro allI impI)
  fix k s assume l: "raw_ready RValue d k s" and n: "raw_need RValue (length d - at s) \<le> Suc f"
  have step: "fuelled (if at s1 = length d then Inl ErrUnsupported
         else let b = d ! at s1 in
           if b = CHR 0x22 then raw_text d s1
           else if b = CHR ''{'' then raw_run f RObject d k s1
           else if b = CHR ''['' then raw_run f RArray d k s1
           else if b = CHR ''t'' then raw_word d ''true'' s1
           else if b = CHR ''f'' then raw_word d ''false'' s1
           else if b = CHR ''n'' then raw_word d ''null'' s1
           else raw_number d s1)"
    if k: "k \<le> 128" and sp: "raw_space d (s\<lparr>sctx := c\<rparr>) = Inr s1" for c s1
  proof -
    have at: "at s \<le> at s1" "at s1 \<le> length d" using raw_space_at [OF sp] l by simp_all
    show ?thesis
      using at n k fuel_okD [OF assms(1), of k s1] fuel_okD [OF assms(2), of k s1]
      by (simp add: Let_def fuelled_text fuelled_word fuelled_number del: raw_word.simps)
  qed
  show "fuelled (raw_run (Suc f) RValue d k s)"
    unfolding raw_run.simps raw_method.case raw_value_body_def
    using step by (auto intro!: fuelled_checked fuelled_sbind fuelled_space)
qed

lemma fuel_object:
  assumes "fuel_ok f RMembers d"
  shows "fuel_ok (Suc f) RObject d"
  unfolding fuel_ok_def
proof (intro allI impI)
  fix k s assume l: "raw_ready RObject d k s" and n: "raw_need RObject (length d - at s) \<le> Suc f"
  show "fuelled (raw_run (Suc f) RObject d k s)"
    unfolding raw_run.simps raw_method.case raw_object_body_def
  proof (rule fuelled_sbind [OF fuelled_space])
    fix s1 assume sp: "raw_space d (s\<lparr>at := Suc (at s)\<rparr>) = Inr s1"
    have at: "Suc (at s) \<le> at s1" "at s1 \<le> length d" using raw_space_at [OF sp] l by simp_all
    then show "fuelled (case raw_take d (CHR ''}'') s1 of (True, s2) \<Rightarrow> Inr s2 | (False, s2) \<Rightarrow> raw_run f RMembers d k s2)"
      by (rule_tac take_split [of d "CHR ''}''" s1]) (use l n fuel_okD [OF assms, of k s1] in simp_all)
  qed
qed

lemma fuel_array:
  assumes "fuel_ok f RElements d"
  shows "fuel_ok (Suc f) RArray d"
  unfolding fuel_ok_def
proof (intro allI impI)
  fix k s assume l: "raw_ready RArray d k s" and n: "raw_need RArray (length d - at s) \<le> Suc f"
  show "fuelled (raw_run (Suc f) RArray d k s)"
    unfolding raw_run.simps raw_method.case raw_array_body_def
  proof (rule fuelled_sbind [OF fuelled_space])
    fix s1 assume sp: "raw_space d (s\<lparr>at := Suc (at s)\<rparr>) = Inr s1"
    have at: "Suc (at s) \<le> at s1" "at s1 \<le> length d" using raw_space_at [OF sp] l by simp_all
    then show "fuelled (case raw_take d (CHR '']'') s1 of (True, s2) \<Rightarrow> Inr s2 | (False, s2) \<Rightarrow> raw_run f RElements d k s2)"
      by (rule_tac take_split [of d "CHR '']''" s1]) (use l n fuel_okD [OF assms, of k s1] in simp_all)
  qed
qed

lemma fuel_elements:
  assumes "fuel_ok f RValue d" "fuel_ok f RElements d"
  shows "fuel_ok (Suc f) RElements d"
  unfolding fuel_ok_def
proof (intro allI impI)
  fix k s assume l: "raw_ready RElements d k s" and n: "raw_need RElements (length d - at s) \<le> Suc f"
  show "fuelled (raw_run (Suc f) RElements d k s)"
    unfolding raw_run.simps raw_method.case raw_elements_body_def
  proof (rule fuelled_sbind, goal_cases)
    case 1
    show ?case using fuel_okD [OF assms(1), of "Suc k" s] l n by simp
  next
    case (2 s1)
    have at1: "at s \<le> at s1" "at s1 \<le> length d" using raw_run_at [OF 2] l by simp_all
    show ?case
    proof (rule fuelled_sbind [OF fuelled_space])
      fix s2 assume sp: "raw_space d s1 = Inr s2"
      have at2: "at s \<le> at s2" "at s2 \<le> length d" using raw_space_at [OF sp] at1 by simp_all
      show "fuelled (case raw_take d (CHR '']'') s2 of (True, s3) \<Rightarrow> Inr s3
           | (False, s3) \<Rightarrow> (case raw_take d (CHR '','') s3 of (False, _) \<Rightarrow> Inl ErrUnsupported
              | (True, s4) \<Rightarrow> raw_run f RElements d k s4))"
      proof (rule take_split [of d "CHR '']''" s2])
        assume miss: "raw_take d (CHR '']'') s2 = (False, s2)"
        show ?thesis
        proof (rule take_split [of d "CHR '',''" s2])
          fix s4 assume t: "raw_take d (CHR '','') s2 = (True, s4)"
          have "at s4 = Suc (at s2)" "at s2 < length d" using t by (auto simp: raw_take_True)
          then show ?thesis using fuel_okD [OF assms(2), of k s4] l n at2 t miss by simp
        qed (simp add: miss)
      qed simp
    qed
  qed
qed

lemma fuel_members:
  assumes "fuel_ok f RValue d" "fuel_ok f RMembers d"
  shows "fuel_ok (Suc f) RMembers d"
  unfolding fuel_ok_def
proof (intro allI impI)
  fix k s assume l: "raw_ready RMembers d k s" and n: "raw_need RMembers (length d - at s) \<le> Suc f"
  have last: "fuelled (case raw_take d (CHR ''}'') s5 of (True, s6) \<Rightarrow> Inr s6
      | (False, s6) \<Rightarrow> (case raw_take d (CHR '','') s6 of (False, _) \<Rightarrow> Inl ErrUnsupported
         | (True, s7) \<Rightarrow> sbind (raw_space d s7) (raw_run f RMembers d k)))"
    if at: "at s \<le> at s5" "at s5 \<le> length d" for s5
  proof (rule take_split [of d "CHR ''}''" s5])
    assume miss: "raw_take d (CHR ''}'') s5 = (False, s5)"
    show ?thesis
    proof (rule take_split [of d "CHR '',''" s5])
      fix s7 assume t: "raw_take d (CHR '','') s5 = (True, s7)"
      have s7: "at s7 = Suc (at s5)" "at s5 < length d" using t by (auto simp: raw_take_True)
      have "fuelled (sbind (raw_space d s7) (raw_run f RMembers d k))"
      proof (rule fuelled_sbind [OF fuelled_space])
        fix s8 assume "raw_space d s7 = Inr s8"
        from raw_space_at [OF this] have "at s7 \<le> at s8" "at s8 \<le> length d" using s7 by simp_all
        then show "fuelled (raw_run f RMembers d k s8)"
          using fuel_okD [OF assms(2), of k s8] l n at s7 by simp
      qed
      then show ?thesis by (simp add: miss t)
    qed (simp add: miss)
  qed simp
  show "fuelled (raw_run (Suc f) RMembers d k s)"
    unfolding raw_run.simps raw_method.case raw_members_body_def
  proof (rule fuelled_sbind [OF fuelled_text], rule fuelled_sbind [OF fuelled_space])
    fix s1 s2 assume "raw_text d s = Inr s1" and sp: "raw_space d s1 = Inr s2"
    then have at2: "at s \<le> at s2" "at s2 \<le> length d"
      using raw_text_at [of d s s1] raw_space_at [OF sp] l by simp_all
    show "fuelled (case raw_take d (CHR '':'') s2 of (False, _) \<Rightarrow> Inl ErrUnsupported
       | (True, s3) \<Rightarrow> sbind (raw_run f RValue d (Suc k) s3) (\<lambda>s4. sbind (raw_space d s4) (\<lambda>s5.
           case raw_take d (CHR ''}'') s5 of (True, s6) \<Rightarrow> Inr s6
           | (False, s6) \<Rightarrow> (case raw_take d (CHR '','') s6 of (False, _) \<Rightarrow> Inl ErrUnsupported
              | (True, s7) \<Rightarrow> sbind (raw_space d s7) (raw_run f RMembers d k)))))"
    proof (rule take_split [of d "CHR '':''" s2])
      fix s3 assume t: "raw_take d (CHR '':'') s2 = (True, s3)"
      have s3: "at s3 = Suc (at s2)" "at s2 < length d" using t by (auto simp: raw_take_True)
      have "fuelled (raw_run f RValue d (Suc k) s3)" using fuel_okD [OF assms(1), of "Suc k" s3] n at2 s3 by simp
      then show ?thesis
        unfolding t prod.case bool.case
      proof (rule fuelled_sbind, goal_cases)
        case (1 s4)
        have at4: "at s \<le> at s4" "at s4 \<le> length d" using raw_run_at [OF 1] at2 s3 by simp_all
        show ?case
        proof (rule fuelled_sbind [OF fuelled_space])
          fix s5 assume "raw_space d s4 = Inr s5"
          from raw_space_at [OF this] have "at s \<le> at s5" "at s5 \<le> length d" using at4 by simp_all
          then show "fuelled (case raw_take d (CHR ''}'') s5 of (True, s6) \<Rightarrow> Inr s6
           | (False, s6) \<Rightarrow> (case raw_take d (CHR '','') s6 of (False, _) \<Rightarrow> Inl ErrUnsupported
              | (True, s7) \<Rightarrow> sbind (raw_space d s7) (raw_run f RMembers d k)))" by (rule last)
        qed
      qed
    qed simp
  qed
qed

lemma raw_fuel_enough: "fuel_ok f m d"
proof (induction f arbitrary: m)
  case 0
  have "0 < raw_need m n" for n by (cases m) auto
  then show ?case by (simp add: fuel_ok_def)
next
  case (Suc f)
  then show ?case by (cases m) (blast intro: fuel_value fuel_object fuel_members fuel_array fuel_elements)+
qed

lemma validate_raw_fuelled: "fuelled (validate_raw c d)"
  unfolding validate_raw_def
  using fuel_okD [OF raw_fuel_enough, of RValue d 0 "\<lparr>at = 0, sctx = c\<rparr>" "raw_fuel d"]
  by (auto simp: raw_fuel_def intro!: fuelled_sbind fuelled_space fuelled_checked)


subsection \<open>\<open>validNumber\<close>\<close>

text \<open>A step of \<open>validNumber\<close> and one of \<open>rawScan\<close> agree on what they accept and where they stop.\<close>

definition agrees :: "bool \<times> scan \<Rightarrow> jw_error + scan \<Rightarrow> bool" where
  "agrees r m = (case m of Inr s \<Rightarrow> r = (True, s) | Inl _ \<Rightarrow> \<not> fst r)"

lemma agrees_simps [simp]: "agrees r (Inr s) = (r = (True, s))" "agrees r (Inl e) = (\<not> fst r)"
  by (auto simp: agrees_def)

lemma vn_digits_loop_raw: "agrees (vn_digits_loop d s) (raw_digits_loop d s)"
proof (induction d s rule: raw_digits_loop.induct)
  case (1 d s)
  then show ?case
    by (subst vn_digits_loop.simps, subst raw_digits_loop.simps) (auto simp: checked_def split: prod.splits bool.splits)
qed

lemma raw_digits_loop_at: "raw_digits_loop d s = Inr s' \<Longrightarrow> at s \<le> at s'"
proof (induction d s arbitrary: s' rule: raw_digits_loop.induct)
  case (1 d s)
  show ?case
  proof (cases "at s < length d \<and> is_digit_byte (d ! at s)")
    case True
    obtain c where "raw_digits_loop d (s\<lparr>at := Suc (at s), sctx := c\<rparr>) = Inr s'"
      using 1(2) True by (subst (asm) raw_digits_loop.simps) (auto simp: checked_Inr_conv)
    from 1(1) [OF True this] show ?thesis by simp
  next
    case False
    then show ?thesis using 1(2) by (subst (asm) raw_digits_loop.simps) auto
  qed
qed

lemma vn_digits_raw: "agrees (vn_digits d s) (raw_digits d s)"
  using vn_digits_loop_raw [of d s] raw_digits_loop_at [of d s]
  by (cases "raw_digits_loop d s") (auto simp: vn_digits_def raw_digits_def Let_def split: prod.splits)

lemma vn_int_raw: "at s < length d \<Longrightarrow> agrees (vn_int d s) (raw_int d s)"
  using vn_digits_raw by (simp add: vn_int_def raw_int_def raw_take_def)

lemma vn_frac_raw: "agrees (vn_frac d s) (raw_frac d s)"
  using vn_digits_raw by (simp add: vn_frac_def vn_skip_def raw_frac_def raw_take_def)

lemma vn_sign_raw: "snd (vn_skip d {CHR ''+'', CHR ''-''} s) = raw_sign d s"
  by (auto simp: vn_skip_def raw_sign_def raw_take_def)

lemma vn_exp_raw: "agrees (vn_exp d s) (raw_exp d s)"
  using vn_digits_raw unfolding vn_exp_def vn_sign_raw by (auto simp: vn_skip_def raw_exp_def raw_take_def)

text \<open>\<open>validNumber\<close> and \<open>rawScan.number\<close>, written twice in the source, accept the same strings.\<close>

lemma valid_number_raw:
  "fst (valid_number c d) =
     (case raw_number d \<lparr>at = 0, sctx = c\<rparr> of
        Inl e \<Rightarrow> False | Inr s \<Rightarrow> at s = length d \<and> \<not> fst (ctx_err (sctx s)))"
proof -
  define s1 where "s1 = snd (raw_take d (CHR ''-'') \<lparr>at = 0, sctx = c\<rparr>)"
  have s1': "snd (vn_skip d {CHR ''-''} \<lparr>at = 0, sctx = c\<rparr>) = s1"
    by (simp add: s1_def vn_skip_def raw_take_def)
  show ?thesis
  proof (cases "at s1 = length d")
    case True
    then show ?thesis unfolding valid_number_def Let_def s1' raw_number_def s1_def [symmetric] by simp
  next
    case False
    then have l: "at s1 < length d" by (cases d) (auto simp: s1_def raw_take_def)
    have e: "fst (case vn_exp d s of
                 (False, s4) \<Rightarrow> (False, sctx s4)
               | (True, s4) \<Rightarrow>
                   if at s4 \<noteq> length d then (False, sctx s4)
                   else (let (ended, c') = ctx_err (sctx s4) in (\<not> ended, c'))) =
        (case raw_exp d s of Inl e \<Rightarrow> False | Inr s \<Rightarrow> at s = length d \<and> \<not> fst (ctx_err (sctx s)))" for s
      using vn_exp_raw [of d s]
      by (cases "raw_exp d s"; cases "vn_exp d s") (auto split: prod.split bool.split)
    have f: "fst (case vn_frac d s of
              (False, s3) \<Rightarrow> (False, sctx s3)
            | (True, s3) \<Rightarrow>
              (case vn_exp d s3 of
                 (False, s4) \<Rightarrow> (False, sctx s4)
               | (True, s4) \<Rightarrow>
                   if at s4 \<noteq> length d then (False, sctx s4)
                   else (let (ended, c') = ctx_err (sctx s4) in (\<not> ended, c')))) =
        (case sbind (raw_frac d s) (raw_exp d) of
           Inl e \<Rightarrow> False | Inr s \<Rightarrow> at s = length d \<and> \<not> fst (ctx_err (sctx s)))" for s
      using vn_frac_raw [of d s] e
      by (cases "raw_frac d s"; cases "vn_frac d s") (auto split: bool.split)
    show ?thesis
      unfolding valid_number_def Let_def s1' raw_number_def s1_def [symmetric] if_not_P [OF False]
      using vn_int_raw [OF l] f unfolding Let_def
      by (cases "raw_int d s1"; cases "vn_int d s1") (auto split: bool.split)
  qed
qed

lemma valid_number_sound: "fst (valid_number c d) \<Longrightarrow> json_number d"
proof -
  assume "fst (valid_number c d)"
  then obtain s where r: "raw_number d \<lparr>at = 0, sctx = c\<rparr> = Inr s" "at s = length d"
    by (auto simp: valid_number_raw split: sum.splits)
  from raw_number_sound [OF r(1)] r(2) show ?thesis by (simp add: scans_def seg_all)
qed

lemma valid_number_complete: "json_number d \<Longrightarrow> fst (valid_number Background d)"
  using raw_number_complete [of d d "\<lparr>at = 0, sctx = Background\<rparr>" "[]"]
  by (simp add: valid_number_raw ahead_def)

subsection \<open>Properties\<close>

text \<open>
  Claim C11. \<open>validateRaw\<close> with a live context accepts exactly the JSON texts: one value, at most
  129 levels deep, with white space around it. The scanner's limits (depth, control characters,
  leading zeros, escapes, separators) are those of the grammar and no other.
\<close>

theorem validate_raw_decides_json: "is_ok (validate_raw Background d) \<longleftrightarrow> json_document d"
proof
  assume "is_ok (validate_raw Background d)"
  then show "json_document d" using validate_raw_sound by (auto simp: is_ok_conv)
next
  assume "json_document d"
  then show "is_ok (validate_raw Background d)" by (simp add: validate_raw_complete)
qed

text \<open>
  Claim C30. Whenever the caller's context ends, the scan returns (the recursion never runs out of
  the fuel it starts with), and it never answers "valid" for a text that is not JSON.
\<close>

theorem validate_raw_total_sound:
  "validate_raw c d \<noteq> Inl OutOfFuel \<and> (is_ok (validate_raw c d) \<longrightarrow> json_document d)"
  using validate_raw_fuelled [of c d] validate_raw_sound by (auto simp: fuelled_def is_ok_conv)

theorem validate_raw_total_sound_witness:
  "validate_raw (EndsAfter 9) ''[1]'' \<noteq> Inl OutOfFuel \<and> json_document ''[1]''"
proof -
  have "is_ok (validate_raw (EndsAfter 9) ''[1]'')" by code_simp
  then show ?thesis using validate_raw_total_sound [of "EndsAfter 9" "''[1]''"] by blast
qed

text \<open>
  Claim C31. \<open>validNumber\<close>, which the encoder applies to every \<open>json.Number\<close>, accepts exactly the
  JSON numbers (no leading zeros, no bare sign, no empty fraction or exponent), although it is a
  second implementation next to \<open>rawScan.number\<close>.
\<close>

theorem valid_number_decides_number: "fst (valid_number Background d) \<longleftrightarrow> json_number d"
  using valid_number_sound valid_number_complete by blast

end
