(* ===== verification/JsonStream.thy ===== *)
theory JsonStream
  imports JsonEscape JsonGrammar
begin

text \<open>
  What a traversal writes. \<open>wire\<close> gives the text of a value as a plain recursive function, without
  buffer, counter, context or budget. \<open>writes\<close> says of a step of the encoder: when it succeeds, a
  stream has sent exactly that text, in whatever chunks, and a counter has paid at least its length
  (the latter for values whose scalars have the sizes the code assumes, \<open>gv_ok\<close>).
\<close>

subsection \<open>The text of a value\<close>

definition wire_str :: "bytes \<Rightarrow> bytes" where
  "wire_str str = [CHR 0x22] @ esc str @ [CHR 0x22]"

definition wire_str2 :: "bytes \<Rightarrow> bytes" where
  "wire_str2 str = wire_str ([CHR 0x22] @ esc str @ [CHR 0x22])"

definition wire_scalar :: "bytes \<Rightarrow> bool \<Rightarrow> bytes" where
  "wire_scalar str q = (if q then wire_str str else str)"

function compact :: "bytes \<Rightarrow> bool \<Rightarrow> bool \<Rightarrow> bytes" where
  "compact r inString es =
     (if r = [] then []
      else if \<not> inString \<and> is_space_byte (hd r) then compact (tl r) inString es
      else raw_escape r @ compact (drop (if line_separator r then 3 else 1) r)
             (fst (raw_quote_state (hd r) inString es)) (snd (raw_quote_state (hd r) inString es)))"
  by pat_completeness auto
termination by (relation "measure (\<lambda>(r, i, e). length r)") auto

declare compact.simps [simp del]

fun commas :: "bool \<Rightarrow> bytes list \<Rightarrow> bytes" where
  "commas first [] = []"
| "commas first (w # ws) = (if first then [] else '','') @ w @ commas False ws"

definition wire_entry :: "bytes \<Rightarrow> bytes \<Rightarrow> bytes" where
  "wire_entry k w = wire_str k @ '':'' @ w"

fun wire_fields :: "bool \<Rightarrow> (jw_error + (bytes \<times> bool) option) list \<Rightarrow> (bool \<Rightarrow> bytes) list \<Rightarrow> bytes" where
  "wire_fields first (p # ps) (w # ws) =
     (case p of
        Inl e \<Rightarrow> []
      | Inr None \<Rightarrow> wire_fields first ps ws
      | Inr (Some (name, q)) \<Rightarrow>
          (if first then [] else '','') @ wire_entry name (w q) @ wire_fields False ps ws)"
| "wire_fields first _ _ = []"

primrec wire :: "('w, 'b) wenv \<Rightarrow> gv \<Rightarrow> bool \<Rightarrow> bytes" where
  "wire E GInvalid = (\<lambda>q. ''null'')"
| "wire E GNil = (\<lambda>q. ''null'')"
| "wire E (GRef v) = wire E v"
| "wire E (GBool b) = wire_scalar (format_bool b)"
| "wire E (GInt n) = wire_scalar (format_int n)"
| "wire E (GUint n) = wire_scalar (dec_nat n)"
| "wire E (GFloat bits neg m) = wire_scalar (float_text E bits neg m)"
| "wire E GInfNan = (\<lambda>q. [])"
| "wire E (GString str) = (\<lambda>q. if q then wire_str2 str else wire_str str)"
| "wire E GNilSlice = (\<lambda>q. ''null'')"
| "wire E (GBytes data) = (\<lambda>q. [CHR 0x22] @ b64 data @ [CHR 0x22])"
| "wire E (GSlice vs) = (\<lambda>q. ''['' @ commas True (map (\<lambda>w. w False) (map (wire E) vs)) @ '']'')"
| "wire E (GArray vs) = (\<lambda>q. ''['' @ commas True (map (\<lambda>w. w False) (map (wire E) vs)) @ '']'')"
| "wire E GNilMap = (\<lambda>q. ''null'')"
| "wire E (GMap sk kvs) = (\<lambda>q. ''{'' @ commas True (map (\<lambda>(k, w). wire_entry k (w False))
     (sort_key fst (map (map_prod id (wire E)) kvs))) @ ''}'')"
| "wire E (GStruct fs) = (\<lambda>q. ''{'' @
     wire_fields True (map (\<lambda>(f, v). field f v) fs) (map snd (map (map_prod id (wire E)) fs)) @ ''}'')"
| "wire E (GTime z rz t) = (\<lambda>q. case t of None \<Rightarrow> [] | Some raw \<Rightarrow> raw)"
| "wire E (GNumber x) = wire_scalar (number_text x)"
| "wire E (GRaw x) = (\<lambda>q. case x of None \<Rightarrow> ''null'' | Some r \<Rightarrow> compact r False False)"
| "wire E (GBatch x) = (\<lambda>q. case x of None \<Rightarrow> [] | Some str \<Rightarrow> wire_str str)"
| "wire E (GNativeImport valid fs) = (\<lambda>q. ''{'' @
     wire_fields True (map (\<lambda>(f, v). field f v) fs) (map snd (map (map_prod id (wire E)) fs)) @ ''}'')"
| "wire E (GMarshaler e z) = (\<lambda>q. [])"
| "wire E (GOther z) = (\<lambda>q. [])"

text \<open>
  The sizes the code assumes of scalars: 64-bit integers, 24 bytes for a float, 37 for a time.
\<close>

definition fits :: "nat \<Rightarrow> bytes \<Rightarrow> bool" where
  "fits n str = (length str \<le> n \<and> (\<forall>b\<in>set str. safe_ascii b))"

primrec gv_ok :: "('w, 'b) wenv \<Rightarrow> gv \<Rightarrow> bool" where
  "gv_ok E GInvalid = True"
| "gv_ok E GNil = True"
| "gv_ok E (GRef v) = gv_ok E v"
| "gv_ok E (GBool b) = True"
| "gv_ok E (GInt n) = (- (2 ^ 63) \<le> n \<and> n < 2 ^ 63)"
| "gv_ok E (GUint n) = (n < 2 ^ 64)"
| "gv_ok E (GFloat bits neg m) = fits 24 (float_text E bits neg m)"
| "gv_ok E GInfNan = True"
| "gv_ok E (GString str) = True"
| "gv_ok E GNilSlice = True"
| "gv_ok E (GBytes data) = True"
| "gv_ok E (GSlice vs) = list_all id (map (gv_ok E) vs)"
| "gv_ok E (GArray vs) = list_all id (map (gv_ok E) vs)"
| "gv_ok E GNilMap = True"
| "gv_ok E (GMap sk kvs) = list_all snd (map (map_prod id (gv_ok E)) kvs)"
| "gv_ok E (GStruct fs) = list_all snd (map (map_prod id (gv_ok E)) fs)"
| "gv_ok E (GTime z rz t) = (case t of None \<Rightarrow> True | Some raw \<Rightarrow> length raw \<le> 37)"
| "gv_ok E (GNumber x) = True"
| "gv_ok E (GRaw x) = True"
| "gv_ok E (GBatch x) = True"
| "gv_ok E (GNativeImport valid fs) = list_all snd (map (map_prod id (gv_ok E)) fs)"
| "gv_ok E (GMarshaler e z) = True"
| "gv_ok E (GOther z) = True"

subsection \<open>Steps that write a text\<close>

text \<open>\<open>io.Writer\<close>: a call that reports no error and the full length has taken the bytes.\<close>

definition writer_ok :: "('w, 'b) wenv \<Rightarrow> ('w \<Rightarrow> bytes) \<Rightarrow> bool" where
  "writer_ok E recv = (\<forall>w b w'. e_write E w b = ((length b, False), w') \<longrightarrow> recv w' = recv w @ b)"

definition sent :: "('w \<Rightarrow> bytes) \<Rightarrow> ('w, 'b) wst \<Rightarrow> bytes" where
  "sent recv s = recv (w_writer s) @ w_buf s"

definition writes :: "bool \<Rightarrow> ('w \<Rightarrow> bytes) \<Rightarrow> ('w, 'b) wst act \<Rightarrow> bytes \<Rightarrow> bool" where
  "writes sized recv a out =
     (\<forall>s s'. a s = (None, s') \<longrightarrow>
        (case w_left s of
           None \<Rightarrow> w_left s' = None \<and> sent recv s' = sent recv s @ out
         | Some l \<Rightarrow> (\<exists>l'. w_left s' = Some l' \<and> (sized \<longrightarrow> int (length out) \<le> l - l'))))"

lemma writesI:
  assumes "\<And>s s'. a s = (None, s') \<Longrightarrow> w_left s = None \<Longrightarrow> w_left s' = None \<and> sent recv s' = sent recv s @ out"
    and "\<And>s s' l. a s = (None, s') \<Longrightarrow> w_left s = Some l \<Longrightarrow>
      \<exists>l'. w_left s' = Some l' \<and> (sized \<longrightarrow> int (length out) \<le> l - l')"
  shows "writes sized recv a out"
  unfolding writes_def using assms by (simp split: option.split)

lemma writesD:
  "\<lbrakk>writes z recv a out; a s = (None, s')\<rbrakk> \<Longrightarrow>
     (case w_left s of
        None \<Rightarrow> w_left s' = None \<and> sent recv s' = sent recv s @ out
      | Some l \<Rightarrow> (\<exists>l'. w_left s' = Some l' \<and> (z \<longrightarrow> int (length out) \<le> l - l')))"
  unfolding writes_def by blast

lemma writes_stream:
  "\<lbrakk>writes z recv a out; a s = (None, s'); w_left s = None\<rbrakk> \<Longrightarrow> w_left s' = None \<and> sent recv s' = sent recv s @ out"
  by (drule writesD, assumption) simp

lemma writes_count:
  "\<lbrakk>writes z recv a out; a s = (None, s'); w_left s = Some l\<rbrakk>
   \<Longrightarrow> \<exists>l'. w_left s' = Some l' \<and> (z \<longrightarrow> int (length out) \<le> l - l')"
  by (drule writesD, assumption) simp

lemma writes_ok: "writes z recv ok []"
  by (rule writesI) (auto simp: ok_def)

lemma writes_fail: "writes z recv (fail e) out"
  by (rule writesI) (auto simp: fail_def)

lemma writes_poll: "writes z recv poll []"
  by (rule writesI) (auto simp: poll_def sent_def split: prod.splits bool.splits)

lemma run_all_Cons_None:
  "run_all (a # as) s = (None, s') \<longleftrightarrow> (\<exists>s1. a s = (None, s1) \<and> run_all as s1 = (None, s'))"
  by (auto split: prod.splits option.splits)

lemma writes_Cons:
  assumes "writes z recv a u" "writes z recv (run_all as) v"
  shows "writes z recv (run_all (a # as)) (u @ v)"
proof (rule writesI)
  fix s s' assume r: "run_all (a # as) s = (None, s')" and l: "w_left s = None"
  obtain s1 where s1: "a s = (None, s1)" "run_all as s1 = (None, s')" using r unfolding run_all_Cons_None by blast
  from writes_stream [OF assms(1) s1(1) l] writes_stream [OF assms(2) s1(2)]
  show "w_left s' = None \<and> sent recv s' = sent recv s @ u @ v" by simp
next
  fix s s' l assume r: "run_all (a # as) s = (None, s')" and l: "w_left s = Some l"
  obtain s1 where s1: "a s = (None, s1)" "run_all as s1 = (None, s')" using r unfolding run_all_Cons_None by blast
  obtain l1 where l1: "w_left s1 = Some l1" "z \<longrightarrow> int (length u) \<le> l - l1"
    using writes_count [OF assms(1) s1(1) l] by blast
  then obtain l2 where "w_left s' = Some l2" "z \<longrightarrow> int (length v) \<le> l1 - l2"
    using writes_count [OF assms(2) s1(2)] by blast
  then show "\<exists>l'. w_left s' = Some l' \<and> (z \<longrightarrow> int (length (u @ v)) \<le> l - l')" using l1 by auto
qed

lemma writes_Nil: "writes z recv (run_all []) []"
  by (rule writesI) auto

lemma run_all_append_None:
  "run_all (as @ bs) s = (None, s') \<longleftrightarrow> (\<exists>s1. run_all as s = (None, s1) \<and> run_all bs s1 = (None, s'))"
  by (induction as arbitrary: s) (auto split: prod.splits option.splits)

lemma writes_app:
  assumes "writes z recv (run_all as) u" "writes z recv (run_all bs) v"
  shows "writes z recv (run_all (as @ bs)) (u @ v)"
proof (rule writesI)
  fix s s' assume r: "run_all (as @ bs) s = (None, s')" and l: "w_left s = None"
  obtain s2 where s2: "run_all as s = (None, s2)" "run_all bs s2 = (None, s')"
    using r unfolding run_all_append_None by blast
  from writes_stream [OF assms(1) s2(1) l] writes_stream [OF assms(2) s2(2)]
  show "w_left s' = None \<and> sent recv s' = sent recv s @ u @ v" by simp
next
  fix s s' l assume r: "run_all (as @ bs) s = (None, s')" and l: "w_left s = Some l"
  obtain s2 where s2: "run_all as s = (None, s2)" "run_all bs s2 = (None, s')"
    using r unfolding run_all_append_None by blast
  obtain l1 where l1: "w_left s2 = Some l1" "z \<longrightarrow> int (length u) \<le> l - l1"
    using writes_count [OF assms(1) s2(1) l] by blast
  then obtain l2 where "w_left s' = Some l2" "z \<longrightarrow> int (length v) \<le> l1 - l2"
    using writes_count [OF assms(2) s2(2)] by blast
  then show "\<exists>l'. w_left s' = Some l' \<and> (z \<longrightarrow> int (length (u @ v)) \<le> l - l')" using l1 by auto
qed


subsection \<open>The stream encoder's own operations\<close>

definition sends :: "('w \<Rightarrow> bytes) \<Rightarrow> ('w, 'b) wst act \<Rightarrow> bytes \<Rightarrow> bool" where
  "sends recv a out =
     (\<forall>s s'. a s = (None, s') \<longrightarrow> w_left s' = w_left s \<and> sent recv s' = sent recv s @ out)"

lemma sendsD: "\<lbrakk>sends recv a out; a s = (None, s')\<rbrakk> \<Longrightarrow> w_left s' = w_left s \<and> sent recv s' = sent recv s @ out"
  by (simp add: sends_def)

lemma sends_ok: "sends recv ok []"
  by (simp add: sends_def ok_def)

lemma sends_poll: "sends recv poll []"
  by (auto simp: sends_def poll_def sent_def split: prod.splits bool.splits)

lemma sends_Nil: "sends recv (run_all []) []"
  by (simp add: sends_def)

lemma sends_Cons:
  "\<lbrakk>sends recv a u; sends recv (run_all as) v\<rbrakk> \<Longrightarrow> sends recv (run_all (a # as)) (u @ v)"
  unfolding sends_def run_all_Cons_None by fastforce

lemma sends_flush: "writer_ok E recv \<Longrightarrow> sends recv (flush E) []"
  unfolding sends_def
proof (intro allI impI)
  fix s s' assume w: "writer_ok E recv" and r: "flush E s = (None, s')"
  obtain s1 where p: "poll s = (None, s1)"
    using r by (auto simp: flush_def split: prod.splits option.splits)
  have s1: "w_left s1 = w_left s \<and> sent recv s1 = sent recv s" using sendsD [OF sends_poll p] by simp
  show "w_left s' = w_left s \<and> sent recv s' = sent recv s @ []"
  proof (cases "w_buf s1 = []")
    case True
    then show ?thesis using r p s1 by (simp add: flush_def)
  next
    case False
    obtain n failed w' where e: "e_write E (w_writer s1) (w_buf s1) = ((n, failed), w')" by (metis prod.exhaust)
    then have f: "\<not> failed" "n = length (w_buf s1)" "s' = s1\<lparr>w_writer := w', w_buf := []\<rparr>"
      using r p False by (auto simp: flush_def split: if_splits)
    then have "recv w' = recv (w_writer s1) @ w_buf s1" using w e by (simp add: writer_ok_def)
    then show ?thesis using f s1 by (simp add: sent_def)
  qed
qed

lemma sends_text_round:
  "writer_ok E recv \<Longrightarrow> text_round E str s = (None, s') \<Longrightarrow>
   w_left s' = w_left s \<and> sent recv s' = sent recv s @ take (buffer_size - length (w_buf s)) str"
proof -
  assume w: "writer_ok E recv" and r: "text_round E str s = (None, s')"
  obtain s1 where p: "poll s = (None, s1)"
    using r by (auto simp: text_round_def split: prod.splits option.splits)
  have b: "w_buf s1 = w_buf s" using p by (auto simp: poll_def split: prod.splits bool.splits)
  define s2 where "s2 = s1\<lparr>w_buf := w_buf s1 @ take (buffer_size - length (w_buf s1)) str\<rparr>"
  have "(if length (w_buf s2) \<ge> buffer_size then flush E s2 else (None, s2)) = (None, s')"
    using r p unfolding text_round_def s2_def Let_def by (simp only: prod.case option.case)
  then have "w_left s' = w_left s2 \<and> sent recv s' = sent recv s2"
    using sendsD [OF sends_flush [OF w]] by (auto split: if_splits)
  moreover have "w_left s1 = w_left s \<and> sent recv s1 = sent recv s" using sendsD [OF sends_poll p] by simp
  ultimately show ?thesis by (simp add: s2_def sent_def b)
qed

lemma sends_text: "writer_ok E recv \<Longrightarrow> sends recv (stream_text E str) str"
  unfolding sends_def
proof (intro allI impI)
  fix s s' assume w: "writer_ok E recv" and "stream_text E str s = (None, s')"
  then show "w_left s' = w_left s \<and> sent recv s' = sent recv s @ str"
  proof (induction E str s rule: stream_text.induct)
    case (1 E str s)
    show ?case
    proof (cases "str = []")
      case True
      then show ?thesis using 1(3) by (simp add: stream_text.simps)
    next
      case False
      then obtain s1 where t: "text_round E str s = (None, s1)"
        and r: "stream_text E (drop (buffer_size - length (w_buf s)) str) s1 = (None, s')"
        using 1(3) by (subst (asm) stream_text.simps) (auto split: prod.splits option.splits)
      show ?thesis
        using 1(1) [OF False t [symmetric] refl 1(2) r] sends_text_round [OF 1(2) t] by simp
    qed
  qed
qed

lemma sends_escaped:
  assumes "\<And>p. sends recv (emit p) (g p)" and "G [] = []"
    and "\<And>r. r \<noteq> [] \<Longrightarrow> G r = g (fst (escape_next r)) @ G (drop (snd (escape_next r)) r)"
  shows "sends recv (escaped emit r) (G r)"
  unfolding sends_def
proof (intro allI impI)
  fix s s' assume "escaped emit r s = (None, s')"
  then show "w_left s' = w_left s \<and> sent recv s' = sent recv s @ G r"
    using assms(1)
  proof (induction emit r s rule: escaped.induct)
    case (1 emit r s)
    show ?case
    proof (cases "r = []")
      case True
      then show ?thesis using 1(2) assms(2) by (simp add: escaped.simps)
    next
      case False
      obtain s1 where t: "run_all [poll, emit (fst (escape_next r))] s = (None, s1)"
        and q: "escaped emit (drop (snd (escape_next r)) r) s1 = (None, s')"
        using 1(2) False by (subst (asm) escaped.simps) (auto simp del: run_all.simps split: prod.splits option.splits)
      have "sends recv (run_all [poll, emit (fst (escape_next r))]) ([] @ g (fst (escape_next r)) @ [])"
        by (intro sends_Cons sends_poll sends_Nil 1(3))
      from sendsD [OF this t] 1(1) [OF False t [symmetric] refl q 1(3)] assms(3) [OF False]
      show ?thesis by simp
    qed
  qed
qed

lemma esc_esc_rounds:
  "r \<noteq> [] \<Longrightarrow> esc (esc r) = esc (fst (escape_next r)) @ esc (esc (drop (snd (escape_next r)) r))"
  using escape_next_part [of r] esc_rounds [of r] by (simp add: part_ok_def closed_part_def)

lemma sends_esc: "writer_ok E recv \<Longrightarrow> sends recv (escaped (stream_text E) r) (esc r)"
  by (rule sends_escaped [where g = "\<lambda>p. p"]) (simp_all add: sends_text esc_rounds)

lemma sends_esc_esc: "writer_ok E recv \<Longrightarrow> sends recv (escaped (escaped (stream_text E)) r) (esc (esc r))"
  by (rule sends_escaped [where g = esc]) (simp_all add: sends_esc esc_esc_rounds)

lemma wire_str2_text: "wire_str2 str = [CHR 0x22] @ [CHR 0x5C, CHR 0x22] @ esc (esc str) @ [CHR 0x5C, CHR 0x22] @ [CHR 0x22]"
proof -
  have "closed_part (esc str)"
  proof (induction str rule: csize.induct)
    case (1 r)
    then show ?case
      using escape_next_part [of r] by (cases "r = []")
        (simp_all add: esc_rounds [of r] count_escape_size part_ok_def closed_part_def)
  qed
  then show ?thesis unfolding closed_part_def by (simp add: wire_str2_def wire_str_def esc_quote)
qed

lemma sends_quote:
  assumes "writer_ok E recv"
  shows "sends recv (stream_quote E str double) (if double then wire_str2 str else wire_str str)"
proof (cases double)
  case False
  have "sends recv (run_all [stream_text E [CHR 0x22], ok, escaped (stream_text E) str, ok, stream_text E [CHR 0x22]])
      ([CHR 0x22] @ [] @ esc str @ [] @ [CHR 0x22] @ [])"
    by (intro sends_Cons sends_Nil sends_text sends_ok sends_esc assms)
  then show ?thesis using False by (simp add: stream_quote_def wire_str_def Let_def del: run_all.simps)
next
  case True
  have "sends recv (run_all [stream_text E [CHR 0x22], escaped (stream_text E) [CHR 0x22],
        escaped (escaped (stream_text E)) str, escaped (stream_text E) [CHR 0x22], stream_text E [CHR 0x22]])
      ([CHR 0x22] @ esc [CHR 0x22] @ esc (esc str) @ esc [CHR 0x22] @ [CHR 0x22] @ [])"
    by (intro sends_Cons sends_Nil sends_text sends_esc sends_esc_esc assms)
  then show ?thesis using True
    by (simp add: stream_quote_def wire_str2_text Let_def esc_quote del: run_all.simps)
qed

lemma b64_append: "length x mod 3 = 0 \<Longrightarrow> b64 (x @ y) = b64 x @ b64 y"
  by (induction x rule: b64.induct) auto

lemma b64_length: "length (b64 x) = (length x + 2) div 3 * 4"
proof (induction x rule: b64.induct)
  case (4 a b c r)
  have "(5 + length r) div 3 = (length r + 2) div 3 + 1" by presburger
  then show ?case using 4 by simp
qed simp_all

lemma sends_b64_write: "writer_ok E recv \<Longrightarrow> sends recv (b64_write E p) (b64 p)"
  unfolding sends_def
proof (intro allI impI)
  fix s s' assume "writer_ok E recv" and "b64_write E p s = (None, s')"
  then show "w_left s' = w_left s \<and> sent recv s' = sent recv s @ b64 p"
  proof (induction E p s rule: b64_write.induct)
    case (1 E p s)
    show ?case
    proof (cases "length p < 3")
      case True
      then show ?thesis
        using 1(3) sendsD [OF sends_text [OF 1(2)], of "b64 p"]
        by (subst (asm) b64_write.simps) (auto split: if_splits)
    next
      case False
      define nn where "nn = min 768 (length p - length p mod 3)"
      obtain s1 where t: "stream_text E (b64 (take nn p)) s = (None, s1)"
        and q: "b64_write E (drop nn p) s1 = (None, s')"
        using 1(3) False by (subst (asm) b64_write.simps) (auto simp: Let_def nn_def split: prod.splits option.splits)
      have m: "nn mod 3 = 0"
      proof (cases "768 \<le> length p - length p mod 3")
        case True
        then have "nn = 768" by (simp add: nn_def)
        then show ?thesis by simp
      next
        case False
        then have "nn = length p - length p mod 3" by (simp add: nn_def)
        then show ?thesis by (simp add: minus_mod_eq_mult_div)
      qed
      have "nn \<le> length p" by (simp add: nn_def)
      then have "b64 p = b64 (take nn p) @ b64 (drop nn p)" using b64_append [of "take nn p" "drop nn p"] m by simp
      then show ?thesis
        using 1(1) [OF False nn_def t [symmetric] refl 1(2) q] sendsD [OF sends_text [OF 1(2)] t] by simp
    qed
  qed
qed

lemma sends_base64: "writer_ok E recv \<Longrightarrow> sends recv (stream_base64 E p) ([CHR 0x22] @ b64 p @ [CHR 0x22] @ [])"
  unfolding stream_base64_def by (intro sends_Cons sends_Nil sends_text sends_b64_write)

lemma sends_raw_loop: "writer_ok E recv \<Longrightarrow> sends recv (stream_raw_loop E r i e) (compact r i e)"
  unfolding sends_def
proof (intro allI impI)
  fix s s' assume "writer_ok E recv" and "stream_raw_loop E r i e s = (None, s')"
  then show "w_left s' = w_left s \<and> sent recv s' = sent recv s @ compact r i e"
  proof (induction E r i e s rule: stream_raw_loop.induct)
    case (1 E r i e s)
    show ?case
    proof (cases "r = []")
      case True
      then show ?thesis using 1(4) by (simp add: stream_raw_loop.simps compact.simps)
    next
      case False
      obtain s1 where p: "poll s = (None, s1)"
        using 1(4) False by (subst (asm) stream_raw_loop.simps) (auto split: prod.splits option.splits)
      note s1 = sendsD [OF sends_poll p]
      show ?thesis
      proof (cases "\<not> i \<and> is_space_byte (hd r)")
        case True
        then have "stream_raw_loop E (tl r) i e s1 = (None, s')"
          using 1(4) False p by (subst (asm) stream_raw_loop.simps) simp
        from 1(1) [OF False p [symmetric] refl True 1(3) this] s1 True False
        show ?thesis by (simp add: compact.simps [of r])
      next
        case ns: False
        then obtain s2 where t: "stream_text E (raw_escape r) s1 = (None, s2)"
          and q: "stream_raw_loop E (drop (if line_separator r then 3 else 1) r)
             (fst (raw_quote_state (hd r) i e)) (snd (raw_quote_state (hd r) i e)) s2 = (None, s')"
          using 1(4) False p
          by (subst (asm) stream_raw_loop.simps) (auto split: prod.splits option.splits if_splits)
        from 1(2) [OF False p [symmetric] refl ns t [symmetric] refl 1(3) q] sendsD [OF sends_text [OF 1(3)] t] s1
        show ?thesis unfolding compact.simps [of r] if_not_P [OF False] if_not_P [OF ns] by simp
      qed
    qed
  qed
qed


subsection \<open>The counter's operations\<close>

definition pays :: "('w, 'b) wst act \<Rightarrow> int \<Rightarrow> bool" where
  "pays a n = (\<forall>s s' l. a s = (None, s') \<longrightarrow> w_left s = Some l \<longrightarrow> w_left s' = Some (l - n))"

lemma paysD: "\<lbrakk>pays a n; a s = (None, s'); w_left s = Some l\<rbrakk> \<Longrightarrow> w_left s' = Some (l - n)"
  by (simp add: pays_def)

lemma pays_ok: "pays ok 0"
  by (simp add: pays_def ok_def)

lemma pays_poll: "pays poll 0"
  by (auto simp: pays_def poll_def split: prod.splits bool.splits)

lemma pays_add: "pays (count_add n) n"
  by (auto simp: pays_def count_add_def split: if_splits)

lemma pays_Nil: "pays (run_all []) 0"
  by (simp add: pays_def)

lemma pays_Cons: "\<lbrakk>pays a m; pays (run_all as) n\<rbrakk> \<Longrightarrow> pays (run_all (a # as)) (m + n)"
  unfolding pays_def run_all_Cons_None by fastforce

lemma pays_if: "\<lbrakk>b \<Longrightarrow> pays x m; \<not> b \<Longrightarrow> pays y n\<rbrakk> \<Longrightarrow> pays (if b then x else y) (if b then m else n)"
  by simp

lemma pays_text_loop: "pays (count_text_loop r i c) (csize r)"
  unfolding pays_def
proof (intro allI impI)
  fix s s' :: "('w, 'b) wst" and l
  assume "count_text_loop r i c s = (None, s')" "w_left s = Some l"
  then show "w_left s' = Some (l - csize r)"
  proof (induction r i c s arbitrary: l rule: count_text_loop.induct)
    case (1 r i c s)
    show ?case
    proof (cases "r = []")
      case True
      then show ?thesis using 1 by (simp add: count_text_loop.simps)
    next
      case False
      let ?c = "if i - c \<ge> 256 then i else c"
      obtain s1 where t: "run_all [if i - c \<ge> 256 then poll else ok, count_add (fst (count_next r))] s = (None, s1)"
        and q: "count_text_loop (drop (snd (count_next r)) r) (i + int (snd (count_next r))) ?c s1 = (None, s')"
        using 1(2) False by (subst (asm) count_text_loop.simps) (auto simp del: run_all.simps split: prod.splits option.splits)
      have "pays (run_all [if i - c \<ge> 256 then poll else ok, count_add (fst (count_next r))]) (0 + (fst (count_next r) + 0))"
        by (intro pays_Cons pays_Nil pays_add) (simp add: pays_ok pays_poll)
      from paysD [OF this t 1(3)] have "w_left s1 = Some (l - fst (count_next r))" by simp
      from 1(1) [OF False t [symmetric] refl q this] False show ?thesis by (simp add: csize.simps [of r])
    qed
  qed
qed

lemma pays_text: "pays (count_text str) (2 + csize str)"
proof -
  have "pays (run_all [count_add 2, count_text_loop str 0 (- 256)]) (2 + (csize str + 0))"
    by (intro pays_Cons pays_Nil pays_add pays_text_loop)
  then show ?thesis by (simp add: count_text_def del: run_all.simps)
qed

function craw :: "bytes \<Rightarrow> int" where
  "craw r = (if r = [] then 0
     else (if html_byte (hd r) then 5 else 0) + (if line_separator r then 3 else 0) +
       craw (drop (if line_separator r then 3 else 1) r))"
  by pat_completeness auto
termination by (relation "measure length") auto

declare craw.simps [simp del]

lemma pays_raw_loop: "pays (count_raw_loop r i) (craw r)"
  unfolding pays_def
proof (intro allI impI)
  fix s s' :: "('w, 'b) wst" and l
  assume "count_raw_loop r i s = (None, s')" "w_left s = Some l"
  then show "w_left s' = Some (l - craw r)"
  proof (induction r i s arbitrary: l rule: count_raw_loop.induct)
    case (1 r i s)
    let ?as = "[if i mod 256 = 0 then poll else ok, if html_byte (hd r) then count_add 5 else ok,
       if line_separator r then count_add 3 else ok] :: ('w, 'b) wst act list"
    show ?case
    proof (cases "r = []")
      case True
      then show ?thesis using 1 by (simp add: count_raw_loop.simps craw.simps)
    next
      case False
      define k where "k = (if line_separator r then 3 else 1 :: nat)"
      obtain s1 where t: "run_all ?as s = (None, s1)" and q: "count_raw_loop (drop k r) (i + k) s1 = (None, s')"
        using 1(2) False
        by (subst (asm) count_raw_loop.simps) (auto simp: Let_def k_def simp del: run_all.simps split: prod.splits option.splits)
      have "pays (run_all ?as) (0 + ((if html_byte (hd r) then 5 else 0) + ((if line_separator r then 3 else 0) + 0)))"
        by (intro pays_Cons pays_Nil pays_if) (simp_all add: pays_ok pays_poll pays_add)
      from paysD [OF this t 1(3)]
      have "w_left s1 = Some (l - ((if html_byte (hd r) then 5 else 0) + (if line_separator r then 3 else 0)))" by simp
      from 1(1) [OF False t [symmetric] refl k_def q this] False show ?thesis
        by (simp add: craw.simps [of r] k_def)
    qed
  qed
qed

lemma pays_raw: "pays (count_raw r) (int (length r) + craw r)"
proof -
  have "pays (run_all [count_add (int (length r)), count_raw_loop r 0]) (int (length r) + (craw r + 0))"
    by (intro pays_Cons pays_Nil pays_add pays_raw_loop)
  then show ?thesis by (simp add: count_raw_def del: run_all.simps)
qed

lemma line_separator_length: "line_separator r \<Longrightarrow> 3 \<le> length r \<and> \<not> html_byte (hd r) \<and> \<not> is_space_byte (hd r)"
  by (auto simp: line_separator_def html_byte_def is_space_byte_def split: list.splits)

lemma compact_length: "int (length (compact r i e)) \<le> int (length r) + craw r"
proof (induction r i e rule: compact.induct)
  case (1 r i e)
  show ?case
  proof (cases "r = []")
    case True
    then show ?thesis by (simp add: compact.simps craw.simps)
  next
    case False
    then obtain b t where bt: "r = b # t" by (cases r) auto
    show ?thesis
    proof (cases "\<not> i \<and> is_space_byte (hd r)")
      case True
      then have ns: "\<not> line_separator r" "\<not> html_byte (hd r)"
        using line_separator_length [of r] by (auto simp: html_byte_def is_space_byte_def)
      have "compact r i e = compact (tl r) i e"
        unfolding compact.simps [of r] if_not_P [OF False] if_P [OF True] ..
      then show ?thesis using 1(1) [OF False True] ns bt by (simp add: craw.simps [of "b # t"])
    next
      case ns: False
      have c: "compact r i e = raw_escape r @ compact (drop (if line_separator r then 3 else 1) r)
             (fst (raw_quote_state (hd r) i e)) (snd (raw_quote_state (hd r) i e))"
        unfolding compact.simps [of r] if_not_P [OF False] if_not_P [OF ns] ..
      show ?thesis
      proof (cases "line_separator r")
        case True
        then show ?thesis
          using 1(2) [OF False ns] c False line_separator_length [OF True]
          by (simp add: craw.simps [of r] raw_escape_def split: if_splits)
      next
        case nl: False
        then show ?thesis
          using 1(2) [OF False ns] c False bt
          by (simp add: craw.simps [of "b # t"] raw_escape_def unicode_escape_def)
      qed
    qed
  qed
qed


subsection \<open>The traversal\<close>

lemma writes_branch:
  assumes "sends recv b out" "pays a n" "z \<Longrightarrow> int (length out) \<le> n"
  shows "writes z recv (\<lambda>s. if w_left s \<noteq> None then a s else b s) out"
proof (rule writesI)
  fix s s' assume "(if w_left s \<noteq> None then a s else b s) = (None, s')" "w_left s = None"
  then show "w_left s' = None \<and> sent recv s' = sent recv s @ out" using sendsD [OF assms(1), of s s'] by simp
next
  fix s s' l assume "(if w_left s \<noteq> None then a s else b s) = (None, s')" and l: "w_left s = Some l"
  then have "a s = (None, s')" by simp
  from paysD [OF assms(2) this l] show "\<exists>l'. w_left s' = Some l' \<and> (z \<longrightarrow> int (length out) \<le> l - l')"
    using assms(3) by auto
qed

lemma writes_literal:
  "writer_ok E recv \<Longrightarrow> (z \<Longrightarrow> int (length str) \<le> n) \<Longrightarrow> writes z recv (literal E str n) str"
  using writes_branch [OF sends_text pays_add, of E recv z str n] unfolding literal_def [abs_def] by simp

lemma writes_punctuation: "writer_ok E recv \<Longrightarrow> writes z recv (punctuation E str) str"
  unfolding punctuation_def by (rule writes_literal) auto

lemma wire_str_length: "int (length (wire_str str)) \<le> 2 + csize str"
  using esc_length [of str] by (simp add: wire_str_def)

lemma writes_quoted_text: "writer_ok E recv \<Longrightarrow> writes z recv (quoted_text E str) (wire_str str)"
  using writes_branch [OF _ pays_text, of recv "stream_quote E str False" "wire_str str" z str]
    sends_quote [of E recv str False] wire_str_length [of str]
  unfolding quoted_text_def [abs_def] by simp

lemma fits_esc: "fits n str \<Longrightarrow> esc str = str"
  by (simp add: fits_def esc_safe_all)

lemma writes_scalar:
  assumes "writer_ok E recv" "z \<Longrightarrow> fits (nat n) str" "0 \<le> n"
  shows "writes z recv (scalar E str n q) (wire_scalar str q)"
proof (cases q)
  case False
  have "writes z recv (literal E str n) str"
    by (rule writes_literal [OF assms(1)]) (use assms(2,3) in \<open>auto simp: fits_def\<close>)
  moreover have "scalar E str n q = literal E str n" using False by (simp add: scalar_def [abs_def])
  ultimately show ?thesis using False by (simp add: wire_scalar_def)
next
  case True
  have q: "sends recv (stream_quote E str False) (wire_str str)" using sends_quote [OF assms(1), of str False] by simp
  have l: "z \<Longrightarrow> int (length (wire_str str)) \<le> n + 2"
    using assms(2,3) fits_esc [of "nat n" str] by (auto simp: wire_str_def fits_def)
  have "scalar E str n q = (\<lambda>s. if w_left s \<noteq> None then count_add (n + 2) s else stream_quote E str False s)"
    using True by (simp add: scalar_def fun_eq_iff quoted_text_def)
  then show ?thesis
    using writes_branch [where z = z, OF q pays_add l] True by (simp add: wire_scalar_def)
qed

lemma writes_quoted_string:
  assumes "writer_ok E recv"
  shows "writes z recv (quoted_string E str) (wire_str2 str)"
proof (rule writesI)
  fix s s' assume "quoted_string E str s = (None, s')" "w_left s = None"
  then show "w_left s' = None \<and> sent recv s' = sent recv s @ wire_str2 str"
    using sendsD [OF sends_quote [OF assms, of str True], of s s'] by (simp add: quoted_string_def)
next
  fix s s' l assume r: "quoted_string E str s = (None, s')" and l: "w_left s = Some l"
  then obtain s1 where t: "count_text str s = (None, s1)" and q: "count_add (l - the (w_left s1) + 2) s1 = (None, s')"
    by (auto simp: quoted_string_def split: prod.splits option.splits)
  have l1: "w_left s1 = Some (l - (2 + csize str))" by (rule paysD [OF pays_text t l])
  have "w_left s' = Some (l - (2 + csize str) - (l - the (w_left s1) + 2))" by (rule paysD [OF pays_add q l1])
  then show "\<exists>l'. w_left s' = Some l' \<and> (z \<longrightarrow> int (length (wire_str2 str)) \<le> l - l')"
    using l1 esc_esc_length [of str] by (simp add: wire_str2_text)
qed

lemma writes_bytes:
  assumes "writer_ok E recv"
  shows "writes z recv (\<lambda>s. if w_left s \<noteq> None then count_add (2 + (int (length p) + 2) div 3 * 4) s
     else stream_base64 E p s) ([CHR 0x22] @ b64 p @ [CHR 0x22])"
proof -
  have "int (length (b64 p)) = (int (length p) + 2) div 3 * 4" by (simp add: b64_length zdiv_int)
  then show ?thesis
    using writes_branch [OF sends_base64 [OF assms] pays_add, of z p "2 + (int (length p) + 2) div 3 * 4"] by simp
qed

lemma json_number_safe: "json_number x \<Longrightarrow> \<forall>b\<in>set x. safe_ascii b"
proof -
  have d: "json_digits ds \<Longrightarrow> b \<in> set ds \<Longrightarrow> safe_ascii b" for ds b
    unfolding json_digits_def all_digits_def safe_ascii_def is_digit_byte_def by fastforce
  assume "json_number x"
  then obtain sg i f e where x: "x = sg @ i @ f @ e" "sg = [] \<or> sg = ''-''" "json_int i" "json_frac f" "json_exp e"
    by (auto simp: json_number_def)
  have "\<forall>b\<in>set sg. safe_ascii b" using x(2) by (auto simp: safe_ascii_def)
  moreover have "\<forall>b\<in>set i. safe_ascii b" using x(3) d by (auto simp: json_int_def)
  moreover have "\<forall>b\<in>set f. safe_ascii b" using x(4) d by (auto simp: json_frac_def safe_ascii_def [of "CHR ''.''"])
  moreover have "\<forall>b\<in>set e. safe_ascii b"
    using x(5) d unfolding json_exp_def
    by (auto simp: safe_ascii_def [of "CHR ''e''"] safe_ascii_def [of "CHR ''E''"] safe_ascii_def [of "CHR ''+''"]
        safe_ascii_def [of "CHR ''-''"])
  ultimately show ?thesis using x(1) by auto
qed

lemma writes_upd_ctx:
  "writes z recv a out \<Longrightarrow> writes z recv (\<lambda>s. a (s\<lparr>w_ctx := f s\<rparr>)) out"
  by (rule writesI) (auto dest: writes_stream writes_count simp: sent_def)

lemma writes_cong:
  "(\<And>s s'. a s = (None, s') \<Longrightarrow> b s = (None, s')) \<Longrightarrow> writes z recv b out \<Longrightarrow> writes z recv a out"
  unfolding writes_def by blast

lemma writes_number:
  assumes "writer_ok E recv"
  shows "writes z recv (number E x q) (wire_scalar (number_text x) q)"
proof (cases "json_number (number_text x)")
  case True
  then have fit: "fits (nat (int (length (number_text x)))) (number_text x)"
    using json_number_safe by (simp add: fits_def)
  have w: "writes z recv (\<lambda>s. scalar E (number_text x) (int (length (number_text x))) q
      (s\<lparr>w_ctx := snd (valid_number (w_ctx s) (number_text x))\<rparr>)) (wire_scalar (number_text x) q)"
    by (rule writes_upd_ctx, rule writes_scalar [OF assms]) (use fit in auto)
  show ?thesis
    by (rule writes_cong [OF _ w])
      (auto simp: number_def Let_def poll_def fail_def split: prod.splits if_splits bool.splits)
next
  case False
  then have "\<not> fst (valid_number c (number_text x))" for c using valid_number_sound by blast
  note bad = this
  have "number E x q s \<noteq> (None, s')" for s s'
  proof -
    obtain c where "valid_number (w_ctx s) (number_text x) = (False, c)"
      using bad [of "w_ctx s"] by (cases "valid_number (w_ctx s) (number_text x)") auto
    then show ?thesis
      by (auto simp: number_def Let_def poll_def fail_def split: prod.splits bool.splits)
  qed
  then show ?thesis by (auto simp: writes_def)
qed

lemma writes_raw_message:
  assumes "writer_ok E recv"
  shows "writes z recv (raw_message E x) (case x of None \<Rightarrow> ''null'' | Some r \<Rightarrow> compact r False False)"
proof (cases x)
  case None
  then have "raw_message E x = literal E ''null'' 4" by (simp add: raw_message_def [abs_def])
  then show ?thesis using None writes_literal [OF assms, of z "''null''" 4] by simp
next
  case (Some r)
  have w: "writes z recv (\<lambda>s. if w_left s \<noteq> None then count_raw r s else stream_raw_loop E r False False s)
      (compact r False False)"
    by (rule writes_branch [OF sends_raw_loop [OF assms] pays_raw compact_length])
  have "writes z recv (\<lambda>s. (\<lambda>s. if w_left s \<noteq> None then count_raw r s else stream_raw_loop E r False False s)
      (s\<lparr>w_ctx := projr (validate_raw (w_ctx s) r)\<rparr>)) (compact r False False)"
    by (rule writes_upd_ctx [OF w])
  then show ?thesis unfolding Some option.case
    by (rule writes_cong [rotated]) (auto simp: raw_message_def split: sum.splits if_splits)
qed

end
