(* ===== verification/JsonBound.thy ===== *)
theory JsonBound
  imports JsonStream "HOL-Library.Multiset"
begin

text \<open>
  The traversal as a whole: a counting pass touches nothing but its counter and the context
  (\<open>quiet\<close>), and a successful traversal writes \<open>wire\<close> (\<open>writes_tvalue\<close>).
\<close>

subsection \<open>A counting pass is quiet\<close>

definition quiet_from :: "('w, 'b) wst \<Rightarrow> ('w, 'b) wst \<Rightarrow> bool" where
  "quiet_from s s' = (w_left s \<noteq> None \<longrightarrow>
     w_left s' \<noteq> None \<and> w_writer s' = w_writer s \<and> w_buf s' = w_buf s \<and> w_budget s' = w_budget s)"

definition quiet :: "('w, 'b) wst act \<Rightarrow> bool" where
  "quiet a = (\<forall>s. quiet_from s (snd (a s)))"

lemma quietD: "quiet a \<Longrightarrow> a s = (e, s') \<Longrightarrow> quiet_from s s'"
  unfolding quiet_def by (metis snd_conv)

lemma quietE: "quiet a \<Longrightarrow> quiet_from s (snd (a s))"
  by (simp add: quiet_def)

lemma quietI: "(\<And>s. quiet_from s (snd (a s))) \<Longrightarrow> quiet a"
  by (simp add: quiet_def)

lemma quiet_from_refl [simp]: "quiet_from s s"
  by (simp add: quiet_from_def)

lemma quiet_from_ctx [simp]: "quiet_from s (s\<lparr>w_ctx := c\<rparr>)"
  by (simp add: quiet_from_def)

lemma quiet_from_trans: "quiet_from s s1 \<Longrightarrow> quiet_from s1 s2 \<Longrightarrow> quiet_from s s2"
  by (simp add: quiet_from_def)

lemma quiet_ok: "quiet ok"
  by (simp add: quiet_def ok_def)

lemma quiet_fail: "quiet (fail e)"
  by (simp add: quiet_def fail_def)

lemma quiet_poll: "quiet poll"
  by (simp add: quiet_def poll_def split: prod.split bool.split)

lemma quiet_add: "quiet (count_add n)"
  by (simp add: quiet_def count_add_def quiet_from_def split: option.split)

lemma quiet_run_all: "\<forall>a\<in>set as. quiet a \<Longrightarrow> quiet (run_all as)"
proof (induction as)
  case Nil
  then show ?case by (simp add: quiet_def)
next
  case (Cons a as)
  show ?case
    unfolding quiet_def
  proof
    fix s
    obtain e s1 where a: "a s = (e, s1)" by (cases "a s")
    have 1: "quiet_from s s1" using Cons.prems a by (auto intro: quietD)
    have "quiet (run_all as)" using Cons by simp
    then have "quiet_from s1 (snd (run_all as s1))" by (simp add: quiet_def)
    then show "quiet_from s (snd (run_all (a # as) s))"
      using 1 a by (auto intro: quiet_from_trans split: option.split)
  qed
qed

lemma quiet_text_loop: "quiet_from s (snd (count_text_loop r i c s))"
proof (induction r i c s rule: count_text_loop.induct)
  case (1 r i c s)
  show ?case
  proof (cases "r = []")
    case True
    then show ?thesis by (simp add: count_text_loop.simps)
  next
    case False
    let ?as = "[if i - c \<ge> 256 then poll else ok, count_add (fst (count_next r))] :: ('w, 'b) wst act list"
    obtain e s1 where a: "run_all ?as s = (e, s1)" by (cases "run_all ?as s")
    have "quiet (run_all ?as)" by (rule quiet_run_all) (simp add: quiet_poll quiet_ok quiet_add)
    then have q: "quiet_from s s1" using a by (rule quietD)
    show ?thesis
    proof (cases e)
      case None
      then show ?thesis
        using 1 [OF False a [symmetric] None] q False a
        by (subst count_text_loop.simps) (auto intro: quiet_from_trans simp del: run_all.simps)
    next
      case (Some x)
      then show ?thesis using q False a by (subst count_text_loop.simps) (simp del: run_all.simps)
    qed
  qed
qed

lemma quiet_text: "quiet (count_text str)"
proof -
  have "quiet (run_all [count_add 2, count_text_loop str 0 (- 256)])"
    by (rule quiet_run_all) (simp add: quiet_add quietI [OF quiet_text_loop])
  then show ?thesis by (simp add: count_text_def del: run_all.simps)
qed

lemma quiet_raw_loop: "quiet_from s (snd (count_raw_loop r i s))"
proof (induction r i s rule: count_raw_loop.induct)
  case (1 r i s)
  show ?case
  proof (cases "r = []")
    case True
    then show ?thesis by (simp add: count_raw_loop.simps)
  next
    case False
    let ?as = "[if i mod 256 = 0 then poll else ok, if html_byte (hd r) then count_add 5 else ok,
       if line_separator r then count_add 3 else ok] :: ('w, 'b) wst act list"
    obtain e s1 where a: "run_all ?as s = (e, s1)" by (cases "run_all ?as s")
    have "quiet (run_all ?as)" by (rule quiet_run_all) (simp add: quiet_poll quiet_ok quiet_add)
    then have q: "quiet_from s s1" using a by (rule quietD)
    show ?thesis
    proof (cases e)
      case None
      then show ?thesis
        using 1 [OF False a [symmetric] None refl] q False a
        by (subst count_raw_loop.simps) (auto simp: Let_def intro: quiet_from_trans simp del: run_all.simps)
    next
      case (Some x)
      then show ?thesis using q False a by (subst count_raw_loop.simps) (simp del: run_all.simps)
    qed
  qed
qed

lemma quiet_raw: "quiet (count_raw r)"
proof -
  have "quiet (run_all [count_add (int (length r)), count_raw_loop r 0])"
    by (rule quiet_run_all) (simp add: quiet_add quietI [OF quiet_raw_loop])
  then show ?thesis by (simp add: count_raw_def del: run_all.simps)
qed

lemma quiet_branch: "quiet a \<Longrightarrow> quiet (\<lambda>s. if w_left s \<noteq> None then a s else b s)"
  by (simp add: quiet_def quiet_from_def)

lemma quiet_if_stream: "quiet b \<Longrightarrow> quiet (\<lambda>s. if w_left s = None then a s else b s)"
  by (simp add: quiet_def quiet_from_def)

lemma quiet_literal: "quiet (literal E str n)"
  using quiet_branch [OF quiet_add, of n "stream_text E str"] unfolding literal_def [abs_def] .

lemma quiet_punctuation: "quiet (punctuation E str)"
  by (simp add: punctuation_def quiet_literal)

lemma quiet_quoted_text: "quiet (quoted_text E str)"
  using quiet_branch [OF quiet_text, of str "stream_quote E str False"] unfolding quoted_text_def [abs_def] .

lemma quiet_scalar: "quiet (scalar E str n q)"
  by (rule quietI) (simp add: scalar_def quietE [OF quiet_add] quietE [OF quiet_quoted_text] quietE [OF quiet_literal])

lemma quiet_quoted_string: "quiet (quoted_string E str)"
proof (rule quietI)
  fix s :: "('a, 'b) wst"
  show "quiet_from s (snd (quoted_string E str s))"
  proof (cases "w_left s")
    case None
    then show ?thesis by (simp add: quiet_from_def)
  next
    case (Some l)
    obtain e s1 where t: "count_text str s = (e, s1)" by (cases "count_text str s")
    have q: "quiet_from s s1" by (rule quietD [OF quiet_text t])
    have "quiet_from s1 (snd (count_add (l - the (w_left s1) + 2) s1))" by (rule quietE [OF quiet_add])
    then show ?thesis using q Some t
      by (auto simp: quoted_string_def intro: quiet_from_trans split: option.split)
  qed
qed

lemma quiet_upd_ctx: "quiet a \<Longrightarrow> quiet (\<lambda>s. a (s\<lparr>w_ctx := f s\<rparr>))"
  unfolding quiet_def by (metis quiet_from_ctx quiet_from_trans)

lemma quiet_ctxD: "quiet a \<Longrightarrow> quiet_from s (snd (a (s\<lparr>w_ctx := c\<rparr>)))"
  unfolding quiet_def by (metis quiet_from_ctx quiet_from_trans)

lemma quiet_number: "quiet (number E x q)"
proof -
  have "quiet (run_all [poll, fail ErrUnsupported])"
    by (rule quiet_run_all) (simp add: quiet_poll quiet_fail)
  then show ?thesis
    unfolding quiet_def [of "number E x q"] number_def Let_def
    by (auto split: prod.split intro!: quiet_ctxD quiet_scalar simp del: run_all.simps)
qed

lemma quiet_raw_message: "quiet (raw_message E x)"
proof (rule quietI)
  fix s :: "('a, 'b) wst"
  show "quiet_from s (snd (raw_message E x s))"
  proof (cases "w_left s")
    case None
    then show ?thesis by (simp add: quiet_from_def)
  next
    case (Some l)
    then show ?thesis
      using quiet_ctxD [OF quiet_raw, of s]
      by (auto simp: raw_message_def quietE [OF quiet_literal] split: option.split sum.split)
  qed
qed

subsection \<open>Quiet containers\<close>

lemma quiet_items: "\<forall>a\<in>set as. quiet a \<Longrightarrow> a \<in> set (items E first as) \<Longrightarrow> quiet a"
  by (induction as arbitrary: first) (auto simp: quiet_punctuation split: if_splits)

lemma quiet_entry: "quiet a \<Longrightarrow> quiet (entry E k a)"
  unfolding entry_def by (rule quiet_run_all) (simp add: quiet_quoted_text quiet_punctuation)

lemma quiet_sequence: "\<forall>a\<in>set as. quiet a \<Longrightarrow> quiet (sequence_of E as)"
  unfolding sequence_of_def
  by (rule quiet_run_all) (auto simp: quiet_punctuation dest: quiet_items)

lemma quiet_object: "\<forall>(k, a)\<in>set kas. quiet a \<Longrightarrow> quiet (object_of E sk kas)"
proof -
  assume q: "\<forall>(k, a)\<in>set kas. quiet a"
  then have e: "\<forall>a\<in>set (map (\<lambda>(k, a). entry E k a) kas). quiet a" by (auto intro: quiet_entry)
  have c: "quiet (run_all (items E True (map (\<lambda>(k, a). entry E k a) kas) @ [punctuation E ''}'']))"
    by (rule quiet_run_all) (use quiet_items [OF e] quiet_punctuation in auto)
  have "quiet (\<lambda>s. if w_left s = None then stream_object E kas s
     else run_all (items E True (map (\<lambda>(k, a). entry E k a) kas) @ [punctuation E ''}'']) s)"
    using c by (rule quiet_if_stream)
  then have "quiet (run_all [punctuation E ''{'', \<lambda>s. if w_left s = None then stream_object E kas s
     else run_all (items E True (map (\<lambda>(k, a). entry E k a) kas) @ [punctuation E ''}'']) s])"
    by (intro quiet_run_all) (simp add: quiet_punctuation)
  then show ?thesis by (simp add: object_of_def quiet_fail del: run_all.simps)
qed

lemma quiet_field_items:
  "\<forall>a\<in>set as. \<forall>q. quiet (a q) \<Longrightarrow> x \<in> set (field_items E first plan as) \<Longrightarrow> quiet x"
  by (induction E first plan as rule: field_items.induct)
    (auto simp: quiet_punctuation quiet_fail quiet_entry split: sum.splits option.splits if_splits)

lemma quiet_structure: "\<forall>a\<in>set as. \<forall>q. quiet (a q) \<Longrightarrow> quiet (structure_of E plan as)"
proof -
  assume q: "\<forall>a\<in>set as. \<forall>q. quiet (a q)"
  define body where "body = run_all (punctuation E ''{'' # field_items E True plan as @ [punctuation E ''}''])"
  have "quiet body"
    unfolding body_def by (rule quiet_run_all) (use quiet_field_items [OF q] quiet_punctuation in auto)
  then have "quiet (\<lambda>s. if w_left s = None then with_charge E (int (length as) * 128) body s else body s)"
    by (rule quiet_if_stream)
  then show ?thesis unfolding structure_of_def body_def [symmetric] Let_def by (simp add: quiet_fail)
qed

lemma quiet_native: "quiet body \<Longrightarrow> quiet (native_import valid body)"
proof (rule quietI)
  fix s assume q: "quiet body"
  show "quiet_from s (snd (native_import valid body s))"
  proof (cases "w_left s")
    case None
    then show ?thesis by (simp add: quiet_from_def)
  next
    case (Some l)
    obtain e s1 where b: "body (s\<lparr>w_left := Some native_limit\<rparr>) = (e, s1)" by (cases "body (s\<lparr>w_left := Some native_limit\<rparr>)")
    have "quiet_from (s\<lparr>w_left := Some native_limit\<rparr>) s1" by (rule quietD [OF q b])
    then have q1: "quiet_from s (s1\<lparr>w_left := Some l\<rparr>)" using Some by (simp add: quiet_from_def)
    then have "quiet_from s (snd (count_add n (s1\<lparr>w_left := Some l\<rparr>)))" for n
      using quietE [OF quiet_add] quiet_from_trans by blast
    then show ?thesis using Some b q1
      by (auto simp: native_import_def split: option.split)
  qed
qed

lemma quiet_entering: "quiet a \<Longrightarrow> quiet (entering d a)"
  unfolding entering_def by (rule quiet_run_all) (simp add: quiet_poll quiet_fail)

lemma quiet_tvalue: "quiet (tvalue E v d q)"
proof (induction v arbitrary: d q)
  case (GBytes x)
  show ?case
    using quiet_branch [OF quiet_add, of "2 + (int (length x) + 2) div 3 * 4" "stream_base64 E x"]
    by (simp add: quiet_entering)
next
  case (GSlice vs)
  then show ?case by (auto intro!: quiet_entering quiet_sequence)
next
  case (GArray vs)
  then show ?case by (auto intro!: quiet_entering quiet_sequence)
next
  case (GMap sk kvs)
  then have "\<forall>(k, a)\<in>set (map (\<lambda>(k, a). (k, a (Suc d) False)) (map (map_prod id (tvalue E)) kvs)). quiet a"
    by (auto simp: snds.simps)
  then show ?case by (simp add: quiet_entering quiet_object)
next
  case (GStruct fs)
  then have "\<forall>a\<in>set (map (\<lambda>(f, a). a (Suc d)) (map (map_prod id (tvalue E)) fs)). \<forall>q. quiet (a q)"
    by (auto simp: snds.simps)
  then show ?case by (simp add: quiet_entering quiet_structure)
next
  case (GNativeImport valid fs)
  then have "\<forall>a\<in>set (map (\<lambda>(f, a). a (Suc d)) (map (map_prod id (tvalue E)) fs)). \<forall>q. quiet (a q)"
    by (auto simp: snds.simps)
  then show ?case by (simp add: quiet_entering quiet_structure quiet_native)
next
  case (GTime z rz t)
  then show ?case by (cases t) (simp_all add: quiet_entering quiet_fail quiet_literal)
next
  case (GBatch x)
  then show ?case by (cases x) (simp_all add: quiet_entering quiet_fail quiet_quoted_text)
qed (simp_all add: quiet_entering quiet_literal quiet_scalar floating_def quiet_fail quiet_quoted_text
    quiet_quoted_string quiet_number quiet_raw_message)


subsection \<open>A traversal writes the text of its value\<close>

lemma writes_items:
  "writer_ok E recv \<Longrightarrow> list_all2 (writes z recv) as ws \<Longrightarrow> writes z recv (run_all (items E first as)) (commas first ws)"
proof (induction as arbitrary: first ws)
  case Nil
  then show ?case by (simp add: writes_Nil del: run_all.simps)
next
  case (Cons a as)
  then obtain w vs where ws: "ws = w # vs" "writes z recv a w" "list_all2 (writes z recv) as vs"
    by (auto simp: list_all2_Cons1)
  have t: "writes z recv (run_all (items E False as)) (commas False vs)" using Cons ws by simp
  have c: "writes z recv (run_all (if first then [] else [punctuation E '','']))
      (if first then [] else '','')"
    using writes_Cons [OF writes_punctuation [OF Cons(2)] writes_Nil, of z "'',''"]
    by (simp add: writes_Nil del: run_all.simps)
  have "writes z recv (run_all ((if first then [] else [punctuation E '','']) @ (a # items E False as)))
      ((if first then [] else '','') @ w @ commas False vs)"
    by (rule writes_app [OF c writes_Cons [OF ws(2) t]])
  then show ?case by (simp add: ws(1) del: run_all.simps)
qed

lemma writes_entry:
  assumes "writer_ok E recv" "writes z recv a w"
  shows "writes z recv (entry E k a) (wire_entry k w)"
proof -
  have "writes z recv (run_all [quoted_text E k, punctuation E '':'', a]) (wire_str k @ '':'' @ w @ [])"
    by (intro writes_Cons writes_Nil writes_quoted_text writes_punctuation assms)
  then show ?thesis by (simp add: entry_def wire_entry_def del: run_all.simps)
qed

lemma writes_sequence:
  assumes "writer_ok E recv" "list_all2 (writes z recv) as ws"
  shows "writes z recv (sequence_of E as) (''['' @ commas True ws @ '']'')"
proof -
  have "writes z recv (run_all (punctuation E ''['' # items E True as @ [punctuation E '']'']))
      (''['' @ (commas True ws @ ('']'' @ [])))"
    by (intro writes_Cons writes_app writes_items writes_Nil writes_punctuation assms)
  then show ?thesis by (simp add: sequence_of_def del: run_all.simps)
qed

lemma writes_charge:
  assumes "writes z recv body out"
  shows "writes z recv (with_charge E n body) out"
proof -
  have ex: "\<exists>b s1 b'. body (s\<lparr>w_budget := b\<rparr>) = (None, s1) \<and> s' = s1\<lparr>w_budget := b'\<rparr>"
    if "with_charge E n body s = (None, s')" for s s'
    using that by (auto simp: with_charge_def Let_def split: option.splits bool.splits prod.splits)
  show ?thesis
  proof (rule writesI)
    fix s s' assume r: "with_charge E n body s = (None, s')" and l: "w_left s = None"
    obtain b s1 b' where 1: "body (s\<lparr>w_budget := b\<rparr>) = (None, s1)" "s' = s1\<lparr>w_budget := b'\<rparr>" using ex [OF r] by blast
    from writes_stream [OF assms 1(1)] l 1(2)
    show "w_left s' = None \<and> sent recv s' = sent recv s @ out" by (simp add: sent_def)
  next
    fix s s' l assume r: "with_charge E n body s = (None, s')" and l: "w_left s = Some l"
    obtain b s1 b' where 1: "body (s\<lparr>w_budget := b\<rparr>) = (None, s1)" "s' = s1\<lparr>w_budget := b'\<rparr>" using ex [OF r] by blast
    from writes_count [OF assms 1(1)] l 1(2)
    show "\<exists>l'. w_left s' = Some l' \<and> (z \<longrightarrow> int (length out) \<le> l - l')" by simp
  qed
qed

lemma writes_polls: "writes z recv (polls n :: ('w, 'b) wst act) []"
proof (induction n)
  case 0
  show ?case by (rule writesI) auto
next
  case (Suc n)
  have "writes z recv (run_all [poll, polls n :: ('w, 'b) wst act]) ([] @ [] @ [])" by (intro writes_Cons writes_poll Suc writes_Nil)
  moreover have "polls (Suc n) = run_all [poll, polls n :: ('w, 'b) wst act]" by (simp add: fun_eq_iff)
  ultimately show ?case by (simp only: append_Nil)
qed

lemma writes_polled_items:
  "writer_ok E recv \<Longrightarrow> list_all2 (writes z recv) as ws \<Longrightarrow>
   writes z recv (run_all (polled_items E first as)) (commas first ws)"
proof (induction as arbitrary: first ws)
  case Nil
  then show ?case by (simp add: writes_Nil del: run_all.simps)
next
  case (Cons a as)
  then obtain w vs where ws: "ws = w # vs" "writes z recv a w" "list_all2 (writes z recv) as vs"
    by (auto simp: list_all2_Cons1)
  have t: "writes z recv (run_all (polled_items E False as)) (commas False vs)" using Cons ws by simp
  have c: "writes z recv (run_all (if first then [] else [punctuation E '','']))
      (if first then [] else '','')"
    using writes_Cons [OF writes_punctuation [OF Cons(2)] writes_Nil, of z "'',''"]
    by (simp add: writes_Nil del: run_all.simps)
  have "writes z recv (run_all ([poll] @ ((if first then [] else [punctuation E '','']) @ (a # polled_items E False as))))
      (([] @ []) @ ((if first then [] else '','') @ (w @ commas False vs)))"
    by (rule writes_app [OF writes_Cons [OF writes_poll writes_Nil] writes_app [OF c writes_Cons [OF ws(2) t]]])
  then show ?case by (simp add: ws(1) del: run_all.simps)
qed

lemma insort_key_map: "insort_key f (g x) (map g xs) = map g (insort_key (\<lambda>y. f (g y)) x xs)"
  by (induction xs) auto

lemma sort_key_map: "sort_key f (map g xs) = map g (sort_key (\<lambda>y. f (g y)) xs)"
  by (induction xs) (auto simp: insort_key_map)

text \<open>Entries are joined in key order on a stream and in map order in a count: the length is the same.\<close>

lemma commas_length: "length (commas False ws) = sum_list (map (\<lambda>w. Suc (length w)) ws)"
  by (induction ws) auto

lemma commas_length_mset: "mset ws = mset vs \<Longrightarrow> length (commas True ws) = length (commas True vs)"
proof -
  assume m: "mset ws = mset vs"
  have "sum_list (map (\<lambda>w. Suc (length w)) ws) = sum_list (map (\<lambda>w. Suc (length w)) vs)"
    using m by (metis mset_map sum_mset_sum_list)
  then have "length (commas False ws) = length (commas False vs)" by (simp add: commas_length)
  moreover have "length (commas True xs) = length (commas False xs) - 1" for xs by (cases xs) auto
  ultimately show ?thesis by simp
qed

lemma writes_object:
  assumes w: "writer_ok E recv" and kvs: "\<forall>(k, v)\<in>set kvs. writes z recv (A v) (W v)"
  shows "writes z recv (object_of E sk (map (\<lambda>(k, v). (k, A v)) kvs))
    (''{'' @ commas True (map (\<lambda>(k, v). wire_entry k (W v)) (sort_key fst kvs)) @ ''}'')"
proof -
  let ?kas = "map (\<lambda>(k, v). (k, A v)) kvs"
  let ?ent = "\<lambda>(k, v). entry E k (A v)"
  let ?out = "\<lambda>(k, v). wire_entry k (W v)"
  have sorted: "map (\<lambda>(k, a). entry E k a) (sort_key fst ?kas) = map ?ent (sort_key fst kvs)"
    by (simp add: sort_key_map comp_def case_prod_unfold)
  have one: "writes z recv (?ent kv) (?out kv)" if "kv \<in> set kvs" for kv
    using that kvs writes_entry [OF w] by (cases kv) auto
  have all: "list_all2 (writes z recv) (map ?ent xs) (map ?out xs)" if "set xs \<subseteq> set kvs" for xs
    using that one by (induction xs) auto
  have st: "writes z recv (stream_object E ?kas) (commas True (map ?out (sort_key fst kvs)) @ ''}'')"
  proof (cases "int (length ?kas) > max_int64 div 64")
    case True
    then show ?thesis unfolding stream_object_def by (simp add: writes_fail)
  next
    case False
    have "writes z recv (run_all ([polls (length ?kas), polls (e_polls E (map fst ?kas))] @
        (polled_items E True (map ?ent (sort_key fst kvs)) @ [punctuation E ''}''])))
      (([] @ ([] @ [])) @ (commas True (map ?out (sort_key fst kvs)) @ (''}'' @ [])))"
      by (intro writes_app writes_Cons writes_Nil writes_polls writes_polled_items writes_punctuation w all) simp
    then have "writes z recv (run_all ([polls (length ?kas), polls (e_polls E (map fst ?kas))] @
        polled_items E True (map (\<lambda>(k, a). entry E k a) (sort_key fst ?kas)) @ [punctuation E ''}'']))
      (commas True (map ?out (sort_key fst kvs)) @ ''}'')"
      unfolding sorted by simp
    from writes_charge [OF this] show ?thesis unfolding stream_object_def if_not_P [OF False] .
  qed
  have ct: "writes z recv (run_all (items E True (map ?ent kvs) @ [punctuation E ''}'']))
      (commas True (map ?out kvs) @ (''}'' @ []))"
    by (intro writes_app writes_Cons writes_Nil writes_items writes_punctuation w all) simp
  have len: "length (commas True (map ?out kvs)) = length (commas True (map ?out (sort_key fst kvs)))"
    by (rule commas_length_mset) (simp add: mset_map)
  have ent: "map (\<lambda>(k, a). entry E k a) ?kas = map ?ent kvs" by (simp add: comp_def case_prod_unfold)
  have both: "writes z recv (\<lambda>s. if w_left s = None then stream_object E ?kas s
      else run_all (items E True (map ?ent kvs) @ [punctuation E ''}'']) s)
    (commas True (map ?out (sort_key fst kvs)) @ ''}'')"
  proof (rule writesI)
    fix s s' assume "(if w_left s = None then stream_object E ?kas s
      else run_all (items E True (map ?ent kvs) @ [punctuation E ''}'']) s) = (None, s')" "w_left s = None"
    then show "w_left s' = None \<and> sent recv s' = sent recv s @ commas True (map ?out (sort_key fst kvs)) @ ''}''"
      using writes_stream [OF st, of s s'] by simp
  next
    fix s s' l assume "(if w_left s = None then stream_object E ?kas s
      else run_all (items E True (map ?ent kvs) @ [punctuation E ''}'']) s) = (None, s')" and l: "w_left s = Some l"
    then have "run_all (items E True (map ?ent kvs) @ [punctuation E ''}'']) s = (None, s')" by simp
    from writes_count [OF ct this l]
    show "\<exists>l'. w_left s' = Some l' \<and> (z \<longrightarrow> int (length (commas True (map ?out (sort_key fst kvs)) @ ''}'')) \<le> l - l')"
      by (simp add: len)
  qed
  have "writes z recv (run_all [punctuation E ''{'', \<lambda>s. if w_left s = None then stream_object E ?kas s
      else run_all (items E True (map ?ent kvs) @ [punctuation E ''}'']) s])
    (''{'' @ ((commas True (map ?out (sort_key fst kvs)) @ ''}'') @ []))"
    by (intro writes_Cons writes_Nil writes_punctuation w both)
  then show ?thesis unfolding object_of_def ent by (simp add: writes_fail del: run_all.simps)
qed


lemma writes_field_items:
  assumes "writer_ok E recv"
  shows "list_all2 (\<lambda>a w. \<forall>q. writes z recv (a q) (w q)) as ws \<Longrightarrow> length plan = length as \<Longrightarrow>
    writes z recv (run_all (field_items E first plan as)) (wire_fields first plan ws)"
proof (induction plan arbitrary: first as ws)
  case Nil
  then show ?case by (simp add: writes_Nil del: run_all.simps)
next
  case (Cons p plan)
  then obtain a as' w ws' where aw: "as = a # as'" "ws = w # ws'" "\<forall>q. writes z recv (a q) (w q)"
    "list_all2 (\<lambda>a w. \<forall>q. writes z recv (a q) (w q)) as' ws'" "length plan = length as'"
    by (cases as) (auto simp: list_all2_Cons1)
  note ih = Cons.IH [OF aw(4,5)]
  consider e where "p = Inl e" | "p = Inr None" | n q where "p = Inr (Some (n, q))"
    by (metis old.sum.exhaust option.exhaust prod.exhaust)
  then show ?case
  proof cases
    case 1
    then show ?thesis using writes_Cons [OF writes_fail writes_Nil, of z recv _ "[]"] by (simp add: aw del: run_all.simps)
  next
    case 2
    then show ?thesis using ih by (simp add: aw)
  next
    case (3 n q)
    have c: "writes z recv (run_all (if first then [] else [punctuation E '','']))
        (if first then [] else '','')"
      using writes_Cons [OF writes_punctuation [OF assms] writes_Nil, of z "'',''"]
      by (simp add: writes_Nil del: run_all.simps)
    have "writes z recv (run_all ((if first then [] else [punctuation E '','']) @ (entry E n (a q) # field_items E False plan as')))
        ((if first then [] else '','') @ (wire_entry n (w q) @ wire_fields False plan ws'))"
      by (intro writes_app [OF c] writes_Cons writes_entry assms ih) (use aw(3) in simp)
    then show ?thesis using 3 by (simp add: aw del: run_all.simps)
  qed
qed

lemma writes_structure:
  assumes "writer_ok E recv" "list_all2 (\<lambda>a w. \<forall>q. writes z recv (a q) (w q)) as ws" "length plan = length as"
  shows "writes z recv (structure_of E plan as) (''{'' @ wire_fields True plan ws @ ''}'')"
proof -
  define body where "body = run_all (punctuation E ''{'' # field_items E True plan as @ [punctuation E ''}''])"
  have "writes z recv (run_all (punctuation E ''{'' # field_items E True plan as @ [punctuation E ''}'']))
      (''{'' @ (wire_fields True plan ws @ (''}'' @ [])))"
    by (intro writes_Cons writes_app writes_field_items writes_Nil writes_punctuation assms)
  then have b: "writes z recv body (''{'' @ wire_fields True plan ws @ ''}'')" by (simp add: body_def)
  note ch = writes_charge [OF b, of E "int (length as) * 128"]
  have "writes z recv (\<lambda>s. if w_left s = None then with_charge E (int (length as) * 128) body s else body s)
      (''{'' @ wire_fields True plan ws @ ''}'')"
  proof (rule writesI)
    fix s s' assume "(if w_left s = None then with_charge E (int (length as) * 128) body s else body s) = (None, s')"
      "w_left s = None"
    then show "w_left s' = None \<and> sent recv s' = sent recv s @ ''{'' @ wire_fields True plan ws @ ''}''"
      using writes_stream [OF ch, of s s'] by simp
  next
    fix s s' l assume "(if w_left s = None then with_charge E (int (length as) * 128) body s else body s) = (None, s')"
      and l: "w_left s = Some l"
    then have "body s = (None, s')" by simp
    from writes_count [OF b this l]
    show "\<exists>l'. w_left s' = Some l' \<and> (z \<longrightarrow> int (length (''{'' @ wire_fields True plan ws @ ''}'')) \<le> l - l')" .
  qed
  then show ?thesis unfolding structure_of_def body_def [symmetric] Let_def by (simp add: writes_fail)
qed

lemma writes_native:
  assumes "writes z recv body out" "quiet body"
  shows "writes z recv (native_import valid body) out"
proof (rule writesI)
  fix s s' assume r: "native_import valid body s = (None, s')" and l: "w_left s = None"
  obtain s1 where b: "body (s\<lparr>w_left := Some native_limit\<rparr>) = (None, s1)" and c: "body (s1\<lparr>w_left := None\<rparr>) = (None, s')"
    using r l by (auto simp: native_import_def split: prod.splits option.splits if_splits)
  have "quiet_from (s\<lparr>w_left := Some native_limit\<rparr>) s1" by (rule quietD [OF assms(2) b])
  then have "sent recv s1 = sent recv s" by (simp add: quiet_from_def sent_def)
  then show "w_left s' = None \<and> sent recv s' = sent recv s @ out"
    using writes_stream [OF assms(1) c] by (simp add: sent_def)
next
  fix s s' l assume r: "native_import valid body s = (None, s')" and l: "w_left s = Some l"
  obtain s1 where b: "body (s\<lparr>w_left := Some native_limit\<rparr>) = (None, s1)"
    and c: "count_add (native_limit - the (w_left s1)) (s1\<lparr>w_left := Some l\<rparr>) = (None, s')"
    using r l by (auto simp: native_import_def split: prod.splits option.splits if_splits)
  obtain l1 where l1: "w_left s1 = Some l1" "z \<longrightarrow> int (length out) \<le> native_limit - l1"
    using writes_count [OF assms(1) b, of native_limit] by auto
  have "w_left s' = Some (l - (native_limit - the (w_left s1)))" by (rule paysD [OF pays_add c]) simp
  then show "\<exists>l'. w_left s' = Some l' \<and> (z \<longrightarrow> int (length out) \<le> l - l')" using l1 by simp
qed

lemma writes_entering: "writes z recv a out \<Longrightarrow> writes z recv (entering d a) out"
  unfolding entering_def
  using writes_Cons [OF writes_poll writes_Cons [OF _ writes_Nil], of z recv "if d > 128 then fail ErrUnsupported else a" out]
  by (simp add: writes_fail del: run_all.simps split: if_splits)

lemma dec_nat_length: "0 < k \<Longrightarrow> n < 10 ^ k \<Longrightarrow> length (dec_nat n) \<le> k"
proof (induction k arbitrary: n)
  case (Suc k)
  show ?case
  proof (cases "n < 10")
    case False
    then have "0 < k" using Suc.prems(2) by (cases k) auto
    moreover have "n div 10 < 10 ^ k" using Suc.prems(2) by (simp add: less_mult_imp_div_less mult.commute)
    ultimately show ?thesis using Suc.IH [of "n div 10"] False by (subst dec_nat.simps) simp
  qed (subst dec_nat.simps, simp)
qed simp

lemma digit_safe: "n < 10 \<Longrightarrow> safe_ascii (char_of (48 + n :: nat))"
proof -
  have "list_all (\<lambda>n. safe_ascii (char_of (48 + n :: nat))) [0..<10]" by code_simp
  moreover assume "n < 10"
  ultimately show ?thesis by (simp add: list_all_iff)
qed

lemma dec_nat_safe: "b \<in> set (dec_nat n) \<Longrightarrow> safe_ascii b"
proof (induction n rule: dec_nat.induct)
  case (1 n)
  then show ?case
    using digit_safe [of n] digit_safe [of "n mod 10"]
    by (subst (asm) (2) dec_nat.simps) (auto split: if_splits)
qed

lemma fits_uint: "n < 2 ^ 64 \<Longrightarrow> fits 20 (dec_nat n)"
  using dec_nat_length [of 20 n] dec_nat_safe by (auto simp: fits_def)

lemma fits_int: "- (2 ^ 63) \<le> n \<Longrightarrow> n < 2 ^ 63 \<Longrightarrow> fits 20 (format_int n)"
proof -
  assume n: "- (2 ^ 63) \<le> n" "n < 2 ^ 63"
  have "nat n < 10 ^ 19" "nat (- n) < 10 ^ 19" using n by (simp_all add: nat_less_iff)
  then have "length (dec_nat (nat n)) \<le> 19" "length (dec_nat (nat (- n))) \<le> 19"
    by (simp_all add: dec_nat_length)
  then show ?thesis
    using dec_nat_safe by (auto simp: fits_def format_int_def safe_ascii_def [of "CHR ''-''"])
qed

lemma fits_bool: "fits 5 (format_bool b)"
  by (simp add: fits_def format_bool_def safe_ascii_def)


lemma list_all2_maps:
  "(\<And>x. x \<in> set xs \<Longrightarrow> P (f x) (g x)) \<Longrightarrow> list_all2 P (map f xs) (map g xs)"
  by (simp add: list_all2_map1 list_all2_map2 list_all2_same)

lemma writes_fields:
  assumes w: "writer_ok E recv" and ok: "z \<longrightarrow> list_all snd (map (map_prod id (gv_ok E)) fs)"
    and ih: "\<And>f v d q. (f, v) \<in> set fs \<Longrightarrow> z \<longrightarrow> gv_ok E v \<Longrightarrow> writes z recv (tvalue E v d q) (wire E v q)"
  shows "writes z recv
     (structure_of E (map (\<lambda>(f, v). field f v) fs) (map (\<lambda>(f, a). a (Suc d)) (map (map_prod id (tvalue E)) fs)))
     (''{'' @ wire_fields True (map (\<lambda>(f, v). field f v) fs) (map snd (map (map_prod id (wire E)) fs)) @ ''}'')"
proof (rule writes_structure [OF w])
  have "list_all2 (\<lambda>a w. \<forall>q. writes z recv (a q) (w q))
      (map (\<lambda>fv. tvalue E (snd fv) (Suc d)) fs) (map (\<lambda>fv. wire E (snd fv)) fs)"
  proof (rule list_all2_maps)
    fix fv assume "fv \<in> set fs"
    then show "\<forall>q. writes z recv (tvalue E (snd fv) (Suc d) q) (wire E (snd fv) q)"
      using ih [of "fst fv" "snd fv"] ok by (force simp: list_all_iff)
  qed
  then show "list_all2 (\<lambda>a w. \<forall>q. writes z recv (a q) (w q))
     (map (\<lambda>(f, a). a (Suc d)) (map (map_prod id (tvalue E)) fs)) (map snd (map (map_prod id (wire E)) fs))"
    by (simp add: case_prod_unfold comp_def)
qed simp

lemma writes_elements:
  assumes w: "writer_ok E recv" and ok: "z \<longrightarrow> list_all id (map (gv_ok E) vs)"
    and ih: "\<And>v d q. v \<in> set vs \<Longrightarrow> z \<longrightarrow> gv_ok E v \<Longrightarrow> writes z recv (tvalue E v d q) (wire E v q)"
  shows "writes z recv (sequence_of E (map (\<lambda>a. a (Suc d) False) (map (tvalue E) vs)))
     (''['' @ commas True (map (\<lambda>w. w False) (map (wire E) vs)) @ '']'')"
proof (rule writes_sequence [OF w])
  show "list_all2 (writes z recv) (map (\<lambda>a. a (Suc d) False) (map (tvalue E) vs))
      (map (\<lambda>w. w False) (map (wire E) vs))"
    unfolding map_map by (rule list_all2_maps) (use ih ok in \<open>auto simp: list_all_iff\<close>)
qed

lemma writes_entries:
  assumes w: "writer_ok E recv" and ok: "z \<longrightarrow> list_all snd (map (map_prod id (gv_ok E)) kvs)"
    and ih: "\<And>k v d q. (k, v) \<in> set kvs \<Longrightarrow> z \<longrightarrow> gv_ok E v \<Longrightarrow> writes z recv (tvalue E v d q) (wire E v q)"
  shows "writes z recv (object_of E sk (map (\<lambda>(k, a). (k, a (Suc d) False)) (map (map_prod id (tvalue E)) kvs)))
     (''{'' @ commas True (map (\<lambda>(k, w). wire_entry k (w False)) (sort_key fst (map (map_prod id (wire E)) kvs))) @ ''}'')"
proof -
  have "\<forall>(k, v)\<in>set kvs. writes z recv (tvalue E v (Suc d) False) (wire E v False)"
    using ih ok by (fastforce simp: list_all_iff)
  from writes_object [OF w this, of sk] show ?thesis
    by (simp add: sort_key_map comp_def case_prod_unfold)
qed

lemma writes_tvalue:
  assumes w: "writer_ok E recv"
  shows "z \<longrightarrow> gv_ok E v \<Longrightarrow> writes z recv (tvalue E v d q) (wire E v q)"
proof (induction v arbitrary: d q)
  case GInvalid
  show ?case using writes_literal [OF w, of z "''null''" 4] by (simp add: writes_entering)
next
  case GNil
  show ?case using writes_literal [OF w, of z "''null''" 4] by (simp add: writes_entering)
next
  case (GRef v)
  then show ?case by (simp add: writes_entering)
next
  case (GBool b)
  show ?case using writes_scalar [OF w, of z 5 "format_bool b" q] by (simp add: writes_entering fits_bool)
next
  case (GInt n)
  then show ?case using writes_scalar [OF w, of z 20 "format_int n" q] fits_int [of n] by (simp add: writes_entering)
next
  case (GUint n)
  then show ?case using writes_scalar [OF w, of z 20 "dec_nat n" q] fits_uint [of n] by (simp add: writes_entering)
next
  case (GFloat bits neg m)
  then show ?case using writes_scalar [OF w, of z 24 "float_text E bits neg m" q]
    by (simp add: writes_entering floating_def)
next
  case GInfNan
  show ?case by (simp add: writes_entering writes_fail)
next
  case (GString str)
  show ?case by (simp add: writes_entering writes_quoted_string [OF w] writes_quoted_text [OF w])
next
  case GNilSlice
  show ?case using writes_literal [OF w, of z "''null''" 4] by (simp add: writes_entering)
next
  case (GBytes p)
  show ?case using writes_entering [OF writes_bytes [OF w]] by simp
next
  case (GSlice vs)
  show ?case unfolding tvalue.simps wire.simps
    by (rule writes_entering, rule writes_elements [OF w]) (use GSlice in auto)
next
  case (GArray vs)
  show ?case unfolding tvalue.simps wire.simps
    by (rule writes_entering, rule writes_elements [OF w]) (use GArray in auto)
next
  case GNilMap
  show ?case using writes_literal [OF w, of z "''null''" 4] by (simp add: writes_entering)
next
  case (GMap sk kvs)
  show ?case unfolding tvalue.simps wire.simps
    by (rule writes_entering, rule writes_entries [OF w]) (use GMap in \<open>auto simp: snds.simps\<close>)
next
  case (GStruct fs)
  show ?case unfolding tvalue.simps wire.simps
    by (rule writes_entering, rule writes_fields [OF w]) (use GStruct in \<open>auto simp: snds.simps\<close>)
next
  case (GTime z' rz t)
  then show ?case using writes_literal [OF w, of z _ 37] by (cases t) (simp_all add: writes_entering writes_fail)
next
  case (GNumber x)
  show ?case by (simp add: writes_entering writes_number [OF w])
next
  case (GRaw x)
  show ?case by (simp add: writes_entering writes_raw_message [OF w])
next
  case (GBatch x)
  show ?case by (cases x) (simp_all add: writes_entering writes_fail writes_quoted_text [OF w])
next
  case (GNativeImport valid fs)
  have "writes z recv (structure_of E (map (\<lambda>(f, v). field f v) fs)
      (map (\<lambda>(f, a). a (Suc d)) (map (map_prod id (tvalue E)) fs))) (wire E (GNativeImport valid fs) q)"
    unfolding wire.simps by (rule writes_fields [OF w]) (use GNativeImport in \<open>auto simp: snds.simps\<close>)
  moreover have "quiet (structure_of E (map (\<lambda>(f, v). field f v) fs)
      (map (\<lambda>(f, a). a (Suc d)) (map (map_prod id (tvalue E)) fs)))"
    by (rule quiet_structure) (auto simp: quiet_tvalue)
  ultimately show ?case unfolding tvalue.simps by (intro writes_entering writes_native)
next
  case (GMarshaler e z')
  show ?case by (simp add: writes_entering writes_fail)
next
  case (GOther z')
  show ?case by (simp add: writes_entering writes_fail)
qed

end
