(* ===== verification/MemoryBudget.thy ===== *)
theory MemoryBudget
  imports GoBase
begin

text \<open>
  The interface \<open>jsonwire.MemoryBudget\<close> (\<open>internal/jsonwire/encode.go\<close>): a byte ledger the encoder
  borrows from its caller. A call that panics returns \<open>None\<close>. The laws are what the encoder relies
  on: a granted reservation is held until it is released, a refused one changes nothing that is
  held, what is held can always be returned, and \<open>Available\<close> says which requests are granted.
\<close>

locale memory_budget =
  fixes rsv :: "int \<Rightarrow> 's \<Rightarrow> (bool \<times> 's) option"
    and rel :: "int \<Rightarrow> 's \<Rightarrow> 's option"
    and avail :: "'s \<Rightarrow> int"
    and held :: "'s \<Rightarrow> int"
    and inv :: "'s \<Rightarrow> bool"
  assumes rsv_total: "inv s \<Longrightarrow> \<exists>b s'. rsv n s = Some (b, s') \<and> inv s'"
    and rsv_granted: "inv s \<Longrightarrow> rsv n s = Some (True, s') \<Longrightarrow> 0 \<le> n \<and> held s' = held s + n"
    and rsv_refused: "inv s \<Longrightarrow> rsv n s = Some (False, s') \<Longrightarrow> held s' = held s"
    and rel_held: "inv s \<Longrightarrow> 0 \<le> n \<Longrightarrow> n \<le> held s \<Longrightarrow>
      \<exists>s'. rel n s = Some s' \<and> inv s' \<and> held s' = held s - n"
    and held_nonneg: "inv s \<Longrightarrow> 0 \<le> held s"
    and avail_exact: "inv s \<Longrightarrow> 0 \<le> n \<Longrightarrow> (\<exists>s'. rsv n s = Some (True, s')) \<longleftrightarrow> n \<le> avail s"
begin

text \<open>\<open>rsv\<close>, any work that keeps what is held, then the deferred \<open>rel\<close>: nothing leaks.\<close>

lemma reserve_release_balanced:
  assumes "inv s" and "rsv n s = Some (True, s1)" and "inv s2" and "held s2 = held s1"
  shows "\<exists>s3. rel n s2 = Some s3 \<and> inv s3 \<and> held s3 = held s"
proof -
  have "0 \<le> n" "held s1 = held s + n" using rsv_granted [OF assms(1,2)] by auto
  moreover have "0 \<le> held s" using assms(1) by (rule held_nonneg)
  ultimately show ?thesis using rel_held [OF assms(3), of n] assms(4) by auto
qed

lemma rsv_inv:
  assumes "inv s" and "rsv n s = Some (b, s')"
  shows "inv s'"
  using rsv_total [OF assms(1), of n] assms(2) by auto

end

end
