(* ===== verification/ReadBudget.thy ===== *)
theory ReadBudget
  imports MemoryBudget
begin

text \<open>
  \<open>internal/agentapi/read_budget.go\<close> and \<open>captured_read_budget.go\<close>: the shared byte ledger of a
  collector pass. Pointers are indices into the three lists of a heap record; \<open>nil\<close> is \<open>None\<close>.
  Every method holds the ledger's mutex for its whole body, so one method is one step. The
  invariant \<open>ledger_inv\<close> ties the charged totals to the handles that hold them.
\<close>

subsection \<open>State\<close>

record read_scope =
  ceiling :: int
  sc_used :: int
  exceeded :: bool
  pressured :: bool

record read_owner =
  ow_budget :: "nat option"
  ow_scope :: "nat option"
  ow_used :: int

record read_budget =
  captured :: "nat option"
  limit :: int
  bd_used :: int
  peak :: int
  unscopedUsed :: int
  bd_scope :: "nat option"

record rheap =
  budgets :: "read_budget list"
  scopes :: "read_scope list"
  owners :: "read_owner list"

datatype rb_panic = NilDereference | UnbalancedReservationRelease | UnbalancedBudgetRelease
  | CapturedUnscopedRelease | CapturedOpensScope

text \<open>A budget pointer, and a reservation handle (the pointer inside \<open>NativeReadReservation\<close>).\<close>

type_synonym budget_ptr = "nat option"
type_synonym reservation = "nat option"

definition empty_heap :: rheap where
  "empty_heap = \<lparr>budgets = [], scopes = [], owners = []\<rparr>"

definition upd_budget :: "nat \<Rightarrow> (read_budget \<Rightarrow> read_budget) \<Rightarrow> rheap \<Rightarrow> rheap" where
  "upd_budget b f h = h\<lparr>budgets := (budgets h)[b := f (budgets h ! b)]\<rparr>"

definition upd_scope :: "nat \<Rightarrow> (read_scope \<Rightarrow> read_scope) \<Rightarrow> rheap \<Rightarrow> rheap" where
  "upd_scope s f h = h\<lparr>scopes := (scopes h)[s := f (scopes h ! s)]\<rparr>"

definition upd_owner :: "nat \<Rightarrow> (read_owner \<Rightarrow> read_owner) \<Rightarrow> rheap \<Rightarrow> rheap" where
  "upd_owner r f h = h\<lparr>owners := (owners h)[r := f (owners h ! r)]\<rparr>"

definition upd_scope_opt :: "nat option \<Rightarrow> (read_scope \<Rightarrow> read_scope) \<Rightarrow> rheap \<Rightarrow> rheap" where
  "upd_scope_opt so f h = (case so of None \<Rightarrow> h | Some s \<Rightarrow> upd_scope s f h)"

definition is_captured :: "rheap \<Rightarrow> nat \<Rightarrow> bool" where
  "is_captured h b = (captured (budgets h ! b) \<noteq> None)"

subsection \<open>Operations\<close>

definition pass_read_budget :: int where
  "pass_read_budget = 256 * 2 ^ 20"

definition pass_cache_reserve :: int where
  "pass_cache_reserve = 96 * 2 ^ 20"

definition new_native_read_budget :: "int \<Rightarrow> rheap \<Rightarrow> nat \<times> rheap" where
  "new_native_read_budget l h =
     (length (budgets h),
      h\<lparr>budgets := budgets h @ [\<lparr>captured = None, limit = max l 0, bd_used = 0, peak = 0,
        unscopedUsed = 0, bd_scope = None\<rparr>]\<rparr>)"

definition alloc_owner :: "nat option \<Rightarrow> nat option \<Rightarrow> rheap \<Rightarrow> reservation \<times> rheap" where
  "alloc_owner bo so h =
     (Some (length (owners h)),
      h\<lparr>owners := owners h @ [\<lparr>ow_budget = bo, ow_scope = so, ow_used = 0\<rparr>]\<rparr>)"

definition reservation_of :: "budget_ptr \<Rightarrow> rheap \<Rightarrow> reservation \<times> rheap" where
  "reservation_of bp h =
     (case bp of
        None \<Rightarrow> alloc_owner None None h
      | Some b \<Rightarrow>
         (case captured (budgets h ! b) of
            Some r \<Rightarrow> alloc_owner (ow_budget (owners h ! r)) (ow_scope (owners h ! r)) h
          | None \<Rightarrow> alloc_owner (Some b) (bd_scope (budgets h ! b)) h))"

definition charge_budget :: "int \<Rightarrow> read_budget \<Rightarrow> read_budget" where
  "charge_budget n bd = bd\<lparr>bd_used := bd_used bd + n, peak := max (peak bd) (bd_used bd + n)\<rparr>"

definition reserve :: "reservation \<Rightarrow> int \<Rightarrow> rheap \<Rightarrow> rb_panic + (bool \<times> rheap)" where
  "reserve res n h =
     (case res of
        None \<Rightarrow> Inl NilDereference
      | Some r \<Rightarrow>
         (case ow_budget (owners h ! r) of
            None \<Rightarrow> Inr (True, h)
          | Some b \<Rightarrow>
             (let so = ow_scope (owners h ! r); bd = budgets h ! b in
              if n < 0 then Inr (False, h)
              else if (case so of None \<Rightarrow> False
                       | Some s \<Rightarrow> n > ceiling (scopes h ! s) - sc_used (scopes h ! s))
                then Inr (False, upd_scope_opt so (\<lambda>s. s\<lparr>exceeded := True\<rparr>) h)
              else if n > limit bd - bd_used bd
                then Inr (False, upd_scope_opt so (\<lambda>s. s\<lparr>pressured := True\<rparr>) h)
              else Inr (True,
                upd_scope_opt so (\<lambda>s. s\<lparr>sc_used := sc_used s + n\<rparr>)
                  (upd_owner r (\<lambda>w. w\<lparr>ow_used := ow_used w + n\<rparr>)
                    (upd_budget b (charge_budget n) h))))))"

definition release :: "reservation \<Rightarrow> int \<Rightarrow> rheap \<Rightarrow> rb_panic + rheap" where
  "release res n h =
     (case res of
        None \<Rightarrow> Inl NilDereference
      | Some r \<Rightarrow>
         (case ow_budget (owners h ! r) of
            None \<Rightarrow> Inr h
          | Some b \<Rightarrow>
             if n < 0 \<or> n > ow_used (owners h ! r) then Inl UnbalancedReservationRelease
             else Inr
               (upd_scope_opt (ow_scope (owners h ! r)) (\<lambda>s. s\<lparr>sc_used := sc_used s - n\<rparr>)
                 (upd_budget b (\<lambda>bd. bd\<lparr>bd_used := bd_used bd - n\<rparr>)
                   (upd_owner r (\<lambda>w. w\<lparr>ow_used := ow_used w - n\<rparr>) h)))))"

definition available_in :: "rheap \<Rightarrow> nat \<Rightarrow> nat option \<Rightarrow> int" where
  "available_in h b so =
     (let a = limit (budgets h ! b) - bd_used (budgets h ! b) in
      case so of None \<Rightarrow> a | Some s \<Rightarrow> min a (ceiling (scopes h ! s) - sc_used (scopes h ! s)))"

definition available :: "reservation \<Rightarrow> rheap \<Rightarrow> rb_panic + int" where
  "available res h =
     (case res of
        None \<Rightarrow> Inl NilDereference
      | Some r \<Rightarrow>
         (case ow_budget (owners h ! r) of
            None \<Rightarrow> Inr (2 ^ 62)
          | Some b \<Rightarrow> Inr (available_in h b (ow_scope (owners h ! r)))))"

definition refuse_in :: "nat \<Rightarrow> nat option \<Rightarrow> int \<Rightarrow> rheap \<Rightarrow> rheap" where
  "refuse_in b so n h =
     (case so of
        None \<Rightarrow> h
      | Some s \<Rightarrow>
         if n > ceiling (scopes h ! s) - sc_used (scopes h ! s)
         then upd_scope s (\<lambda>s. s\<lparr>exceeded := True\<rparr>) h
         else if n > limit (budgets h ! b) - bd_used (budgets h ! b)
         then upd_scope s (\<lambda>s. s\<lparr>pressured := True\<rparr>) h
         else h)"

definition refuse :: "reservation \<Rightarrow> int \<Rightarrow> rheap \<Rightarrow> rb_panic + rheap" where
  "refuse res n h =
     (case res of
        None \<Rightarrow> Inl NilDereference
      | Some r \<Rightarrow>
         (case ow_budget (owners h ! r) of
            None \<Rightarrow> Inr h
          | Some b \<Rightarrow> Inr (refuse_in b (ow_scope (owners h ! r)) n h)))"

definition reserve_unscoped :: "budget_ptr \<Rightarrow> int \<Rightarrow> rheap \<Rightarrow> bool \<times> rheap" where
  "reserve_unscoped bp n h =
     (case bp of
        None \<Rightarrow> (True, h)
      | Some b \<Rightarrow>
         if is_captured h b then (False, h)
         else if n < 0 \<or> n > limit (budgets h ! b) - bd_used (budgets h ! b) then (False, h)
         else (True, upd_budget b
                (\<lambda>bd. charge_budget n (bd\<lparr>unscopedUsed := unscopedUsed bd + n\<rparr>)) h))"

definition reserve_unscoped_required :: "budget_ptr \<Rightarrow> int \<Rightarrow> rheap \<Rightarrow> bool \<times> rheap" where
  "reserve_unscoped_required bp n h =
     (case bp of
        None \<Rightarrow> (True, h)
      | Some b \<Rightarrow>
         if is_captured h b then (False, h)
         else (case reserve_unscoped bp n h of
                 (True, h') \<Rightarrow> (True, h')
               | (False, h') \<Rightarrow>
                   (False, upd_scope_opt (bd_scope (budgets h' ! b)) (\<lambda>s. s\<lparr>pressured := True\<rparr>) h')))"

definition release_unscoped :: "budget_ptr \<Rightarrow> int \<Rightarrow> rheap \<Rightarrow> rb_panic + rheap" where
  "release_unscoped bp n h =
     (case bp of
        None \<Rightarrow> Inr h
      | Some b \<Rightarrow>
         if is_captured h b then (if n \<noteq> 0 then Inl CapturedUnscopedRelease else Inr h)
         else if n < 0 \<or> n > unscopedUsed (budgets h ! b) then Inl UnbalancedBudgetRelease
         else Inr (upd_budget b
                (\<lambda>bd. bd\<lparr>bd_used := bd_used bd - n, unscopedUsed := unscopedUsed bd - n\<rparr>) h))"

text \<open>
  \<open>BeginScope\<close> returns a closure; the closure's captured variables are the budget, the new scope
  and the scope before it, and \<open>end_scope\<close> is the closure's body.
\<close>

datatype scope_end = NoScope | EndScope nat nat "nat option"

definition begin_scope :: "budget_ptr \<Rightarrow> int \<Rightarrow> rheap \<Rightarrow> rb_panic + (scope_end \<times> rheap)" where
  "begin_scope bp c h =
     (case bp of
        None \<Rightarrow> Inr (NoScope, h)
      | Some b \<Rightarrow>
         if is_captured h b then Inl CapturedOpensScope
         else
           (let s = length (scopes h) in
            Inr (EndScope b s (bd_scope (budgets h ! b)),
              upd_budget b (\<lambda>bd. bd\<lparr>bd_scope := Some s\<rparr>)
                (h\<lparr>scopes := scopes h @ [\<lparr>ceiling = max c 0, sc_used = 0, exceeded = False,
                    pressured = False\<rparr>]\<rparr>))))"

fun end_scope :: "scope_end \<Rightarrow> rheap \<Rightarrow> rheap" where
  "end_scope NoScope h = h"
| "end_scope (EndScope b s previous) h =
     (if bd_scope (budgets h ! b) = Some s
      then upd_budget b (\<lambda>bd. bd\<lparr>bd_scope := previous\<rparr>) h else h)"

definition refuse_budget :: "budget_ptr \<Rightarrow> int \<Rightarrow> rheap \<Rightarrow> rb_panic + rheap" where
  "refuse_budget bp n h =
     (case bp of
        None \<Rightarrow> Inr h
      | Some b \<Rightarrow>
         if is_captured h b
         then (case reservation_of bp h of (res, h') \<Rightarrow> refuse res n h')
         else Inr (refuse_in b (bd_scope (budgets h ! b)) n h))"

definition scope_flag :: "(read_scope \<Rightarrow> bool) \<Rightarrow> budget_ptr \<Rightarrow> rheap \<Rightarrow> bool" where
  "scope_flag flag bp h =
     (case bp of
        None \<Rightarrow> False
      | Some b \<Rightarrow>
         (case (case captured (budgets h ! b) of
                  Some r \<Rightarrow> ow_scope (owners h ! r)
                | None \<Rightarrow> bd_scope (budgets h ! b)) of
            None \<Rightarrow> False
          | Some s \<Rightarrow> flag (scopes h ! s)))"

definition scope_pressured :: "budget_ptr \<Rightarrow> rheap \<Rightarrow> bool" where
  "scope_pressured = scope_flag pressured"

definition scope_exceeded :: "budget_ptr \<Rightarrow> rheap \<Rightarrow> bool" where
  "scope_exceeded = scope_flag exceeded"

definition forget_scope_exceeded :: "budget_ptr \<Rightarrow> rheap \<Rightarrow> rheap" where
  "forget_scope_exceeded bp h =
     (case bp of
        None \<Rightarrow> h
      | Some b \<Rightarrow>
         if is_captured h b then h
         else upd_scope_opt (bd_scope (budgets h ! b)) (\<lambda>s. s\<lparr>exceeded := False\<rparr>) h)"

definition available_budget :: "budget_ptr \<Rightarrow> rheap \<Rightarrow> rb_panic + (int \<times> rheap)" where
  "available_budget bp h =
     (case bp of
        None \<Rightarrow> Inr (2 ^ 62, h)
      | Some b \<Rightarrow>
         if is_captured h b
         then (case reservation_of bp h of
                 (res, h') \<Rightarrow> sbind (available res h') (\<lambda>a. Inr (a, h')))
         else Inr (available_in h b (bd_scope (budgets h ! b)), h))"

text \<open>A captured facade asks the ledger it captured, which is never itself captured.\<close>

definition charged :: "budget_ptr \<Rightarrow> rheap \<Rightarrow> int \<times> int" where
  "charged bp h =
     (let actual = (case bp of
                      None \<Rightarrow> None
                    | Some b \<Rightarrow> (case captured (budgets h ! b) of
                                   Some r \<Rightarrow> ow_budget (owners h ! r)
                                 | None \<Rightarrow> Some b)) in
      case actual of
        None \<Rightarrow> (0, 0)
      | Some b \<Rightarrow> (bd_used (budgets h ! b), peak (budgets h ! b)))"

datatype rb_error = ErrReadBudget

text \<open>A \<open>*NativeReadReservation\<close> argument may itself be nil: the outer option.\<close>

definition captured_budget :: "reservation option \<Rightarrow> rheap \<Rightarrow> rb_error + (nat \<times> rheap)" where
  "captured_budget resp h =
     (case resp of
        Some (Some r) \<Rightarrow>
          if ow_budget (owners h ! r) = None \<or> ow_scope (owners h ! r) = None then Inl ErrReadBudget
          else Inr (length (budgets h),
            h\<lparr>budgets := budgets h @ [\<lparr>captured = Some r, limit = 0, bd_used = 0, peak = 0,
              unscopedUsed = 0, bd_scope = None\<rparr>]\<rparr>)
      | _ \<Rightarrow> Inl ErrReadBudget)"

definition capture_from_reservation ::
  "budget_ptr \<Rightarrow> reservation option \<Rightarrow> rheap \<Rightarrow> rb_error + (nat \<times> rheap)" where
  "capture_from_reservation bp resp h =
     (case (bp, resp) of
        (Some b, Some (Some r)) \<Rightarrow>
          if ow_budget (owners h ! r) = None \<or> ow_scope (owners h ! r) = None then Inl ErrReadBudget
          else
            (case captured (budgets h ! b) of
               Some c \<Rightarrow>
                 if ow_scope (owners h ! r) \<noteq> ow_scope (owners h ! c) then Inl ErrReadBudget
                 else if ow_budget (owners h ! r) \<noteq> ow_budget (owners h ! c) then Inl ErrReadBudget
                 else captured_budget resp h
             | None \<Rightarrow>
                 if ow_budget (owners h ! r) \<noteq> Some b then Inl ErrReadBudget
                 else captured_budget resp h)
      | _ \<Rightarrow> Inl ErrReadBudget)"

subsection \<open>The ledger invariant\<close>

definition budget_charge :: "nat \<Rightarrow> read_owner \<Rightarrow> int" where
  "budget_charge b w = (if ow_budget w = Some b then ow_used w else 0)"

definition scope_charge :: "nat \<Rightarrow> read_owner \<Rightarrow> int" where
  "scope_charge s w = (if ow_scope w = Some s then ow_used w else 0)"

definition charges :: "rheap \<Rightarrow> nat \<Rightarrow> int" where
  "charges h b = sum_list (map (budget_charge b) (owners h))"

definition scope_charges :: "rheap \<Rightarrow> nat \<Rightarrow> int" where
  "scope_charges h s = sum_list (map (scope_charge s) (owners h))"

definition valid_opt :: "nat option \<Rightarrow> 'a list \<Rightarrow> bool" where
  "valid_opt p xs = (case p of None \<Rightarrow> True | Some i \<Rightarrow> i < length xs)"

definition budget_ok :: "rheap \<Rightarrow> nat \<Rightarrow> bool" where
  "budget_ok h b =
     (let bd = budgets h ! b in
      valid_opt (bd_scope bd) (scopes h) \<and>
      (case captured bd of
         None \<Rightarrow> 0 \<le> unscopedUsed bd \<and> bd_used bd = unscopedUsed bd + charges h b \<and>
           bd_used bd \<le> peak bd \<and> peak bd \<le> limit bd
       | Some r \<Rightarrow> r < length (owners h) \<and> ow_budget (owners h ! r) \<noteq> None \<and>
           ow_scope (owners h ! r) \<noteq> None))"

definition scope_ok :: "rheap \<Rightarrow> nat \<Rightarrow> bool" where
  "scope_ok h s =
     (sc_used (scopes h ! s) = scope_charges h s \<and> sc_used (scopes h ! s) \<le> ceiling (scopes h ! s))"

definition owner_ok :: "rheap \<Rightarrow> read_owner \<Rightarrow> bool" where
  "owner_ok h w =
     (0 \<le> ow_used w \<and> valid_opt (ow_scope w) (scopes h) \<and>
      (case ow_budget w of
         None \<Rightarrow> ow_used w = 0 \<and> ow_scope w = None
       | Some b \<Rightarrow> b < length (budgets h) \<and> captured (budgets h ! b) = None))"

definition ledger_inv :: "rheap \<Rightarrow> bool" where
  "ledger_inv h =
     ((\<forall>b < length (budgets h). budget_ok h b) \<and> (\<forall>s < length (scopes h). scope_ok h s) \<and>
      (\<forall>r < length (owners h). owner_ok h (owners h ! r)))"

named_theorems ledger_defs \<open>the parts of the ledger invariant\<close>

declare ledger_inv_def [ledger_defs] budget_ok_def [ledger_defs] scope_ok_def [ledger_defs]
  owner_ok_def [ledger_defs] charges_def [ledger_defs] scope_charges_def [ledger_defs]
  valid_opt_def [ledger_defs]

lemma valid_opt_simps [simp]:
  "valid_opt None xs" "valid_opt (Some i) xs \<longleftrightarrow> i < length xs"
  by (simp_all add: valid_opt_def)

lemma valid_opt_mono: "valid_opt p xs \<Longrightarrow> length xs \<le> length ys \<Longrightarrow> valid_opt p ys"
  by (cases p) auto

lemma sc_used_flag:
  assumes "\<And>x. sc_used (f x) = sc_used x"
  shows "map sc_used (scopes (upd_scope_opt so f h)) = map sc_used (scopes h)"
  using assms by (auto simp: upd_scope_opt_def upd_scope_def nth_update split: option.splits
      intro!: nth_equalityI)

text \<open>The one move both \<open>Reserve\<close> and \<open>Release\<close> make: a signed change of one handle.\<close>

definition move :: "nat \<Rightarrow> nat \<Rightarrow> nat option \<Rightarrow> int \<Rightarrow> int \<Rightarrow> rheap \<Rightarrow> rheap" where
  "move r b so d pk h =
     upd_scope_opt so (\<lambda>s. s\<lparr>sc_used := sc_used s + d\<rparr>)
       (upd_owner r (\<lambda>w. w\<lparr>ow_used := ow_used w + d\<rparr>)
         (upd_budget b (\<lambda>bd. bd\<lparr>bd_used := bd_used bd + d, peak := pk\<rparr>) h))"

lemma scopes_upd [simp]:
  "scopes (upd_owner r g h) = scopes h" "scopes (upd_budget b k h) = scopes h"
  "owners (upd_scope s f h) = owners h" "owners (upd_budget b k h) = owners h"
  "budgets (upd_scope s f h) = budgets h" "budgets (upd_owner r g h) = budgets h"
  by (simp_all add: upd_owner_def upd_budget_def upd_scope_def)

lemma upd_scope_opt_same [simp]:
  "owners (upd_scope_opt so f h) = owners h" "budgets (upd_scope_opt so f h) = budgets h"
  "length (scopes (upd_scope_opt so f h)) = length (scopes h)"
  by (simp_all add: upd_scope_opt_def upd_scope_def split: option.splits)

lemma ledger_invD:
  assumes "ledger_inv h"
  shows "b < length (budgets h) \<Longrightarrow> budget_ok h b" "s < length (scopes h) \<Longrightarrow> scope_ok h s"
    "r < length (owners h) \<Longrightarrow> owner_ok h (owners h ! r)"
  using assms by (auto simp: ledger_inv_def)

text \<open>What one part of the invariant needs to carry over to another heap.\<close>

lemma budget_ok_frame:
  assumes "budget_ok h b" "owners h' = owners h" "budgets h' ! b = budgets h ! b"
    "length (scopes h) \<le> length (scopes h')"
  shows "budget_ok h' b"
  using assms valid_opt_mono [of "bd_scope (budgets h ! b)" "scopes h" "scopes h'"]
  by (auto simp: budget_ok_def charges_def Let_def split: option.splits)

lemma owner_ok_frame:
  assumes "owner_ok h w" "length (scopes h) \<le> length (scopes h')"
    "length (budgets h) \<le> length (budgets h')"
    "\<And>b. b < length (budgets h) \<Longrightarrow> captured (budgets h' ! b) = captured (budgets h ! b)"
  shows "owner_ok h' w"
  using assms valid_opt_mono [of "ow_scope w" "scopes h" "scopes h'"]
  by (auto simp: owner_ok_def split: option.splits)

lemma scope_ok_frame:
  assumes "scope_ok h s" "owners h' = owners h" "ceiling (scopes h' ! s) = ceiling (scopes h ! s)"
    "sc_used (scopes h' ! s) = sc_used (scopes h ! s)"
  shows "scope_ok h' s"
  using assms by (auto simp: scope_ok_def scope_charges_def)

lemma inv_flags:
  assumes inv: "ledger_inv h" and f: "\<And>x. ceiling (f x) = ceiling x \<and> sc_used (f x) = sc_used x"
  shows "ledger_inv (upd_scope_opt so f h)"
proof -
  let ?h = "upd_scope_opt so f h"
  have same: "ceiling (scopes ?h ! s) = ceiling (scopes h ! s)"
    "sc_used (scopes ?h ! s) = sc_used (scopes h ! s)" if "s < length (scopes h)" for s
    using f that by (auto simp: upd_scope_opt_def upd_scope_def nth_update split: option.splits)
  have "budget_ok ?h b" if "b < length (budgets h)" for b
    using ledger_invD(1) [OF inv that] by (rule budget_ok_frame) simp_all
  moreover have "owner_ok ?h (owners h ! r)" if "r < length (owners h)" for r
    using ledger_invD(3) [OF inv that] by (rule owner_ok_frame) simp_all
  moreover have "scope_ok ?h s" if "s < length (scopes h)" for s
    using ledger_invD(2) [OF inv that] by (rule scope_ok_frame) (simp_all add: same that)
  ultimately show ?thesis by (simp add: ledger_inv_def)
qed

lemma charges_move:
  assumes "r < length (owners h)" "ow_budget (owners h ! r) = Some b" "ow_scope (owners h ! r) = so"
  shows "charges (move r b so d pk h) c = charges h c + (if c = b then d else 0)"
    and "scope_charges (move r b so d pk h) s = scope_charges h s + (if so = Some s then d else 0)"
  using assms
  by (auto simp: charges_def scope_charges_def move_def upd_owner_def sum_list_map_update
      budget_charge_def scope_charge_def upd_budget_def)

lemma move_parts:
  "budgets (move r b so d pk h) =
     (budgets h)[b := (budgets h ! b)\<lparr>bd_used := bd_used (budgets h ! b) + d, peak := pk\<rparr>]"
  "owners (move r b so d pk h) =
     (owners h)[r := (owners h ! r)\<lparr>ow_used := ow_used (owners h ! r) + d\<rparr>]"
  "scopes (move r b so d pk h) =
     (case so of None \<Rightarrow> scopes h
      | Some s \<Rightarrow> (scopes h)[s := (scopes h ! s)\<lparr>sc_used := sc_used (scopes h ! s) + d\<rparr>])"
  by (auto simp: move_def upd_owner_def upd_budget_def upd_scope_opt_def upd_scope_def
      split: option.splits)

lemma inv_move:
  assumes inv: "ledger_inv h" and r: "r < length (owners h)"
    and b: "ow_budget (owners h ! r) = Some b" and so: "ow_scope (owners h ! r) = so"
    and own: "0 \<le> ow_used (owners h ! r) + d"
    and bud: "bd_used (budgets h ! b) + d \<le> pk" "pk \<le> limit (budgets h ! b)"
    and sco: "\<And>s. so = Some s \<Longrightarrow> sc_used (scopes h ! s) + d \<le> ceiling (scopes h ! s)"
  shows "ledger_inv (move r b so d pk h)"
proof -
  let ?h = "move r b so d pk h"
  have ow: "owner_ok h (owners h ! r)" using inv r by (rule ledger_invD)
  then have bl: "b < length (budgets h)" "captured (budgets h ! b) = None"
    using b by (auto simp: owner_ok_def)
  have lens: "length (budgets ?h) = length (budgets h)" "length (owners ?h) = length (owners h)"
    "length (scopes ?h) = length (scopes h)"
    by (auto simp: move_parts split: option.splits)
  have vo: "valid_opt p (scopes ?h) = valid_opt p (scopes h)" for p
    using lens by (cases p) simp_all
  have same_owner: "ow_budget (owners ?h ! i) = ow_budget (owners h ! i)"
    "ow_scope (owners ?h ! i) = ow_scope (owners h ! i)" if "i < length (owners h)" for i
    using that by (auto simp: move_parts nth_update)
  have same_cap: "captured (budgets ?h ! i) = captured (budgets h ! i)" if "i < length (budgets h)" for i
    using that by (auto simp: move_parts nth_update)
  have "budget_ok ?h i" if i: "i < length (budgets h)" for i
  proof -
    have ok: "budget_ok h i" using inv i by (rule ledger_invD)
    show ?thesis
    proof (cases "captured (budgets h ! i)")
      case None
      then show ?thesis using ok bud i bl charges_move(1) [OF r b so, of d pk i]
        by (auto simp: budget_ok_def Let_def vo same_cap move_parts(1) nth_update)
    next
      case (Some c)
      then show ?thesis using ok i bl same_owner [of c]
        by (auto simp: budget_ok_def Let_def vo same_cap lens move_parts(1) nth_update)
    qed
  qed
  moreover have "scope_ok ?h i" if i: "i < length (scopes h)" for i
    using ledger_invD(2) [OF inv i] sco charges_move(2) [OF r b so, of d pk i] i
    by (auto simp: scope_ok_def move_parts nth_update split: option.splits)
  moreover have "owner_ok ?h (owners ?h ! i)" if i: "i < length (owners h)" for i
  proof -
    have keep: "owner_ok ?h (owners h ! i)"
      using ledger_invD(3) [OF inv i] by (rule owner_ok_frame) (simp_all add: lens same_cap)
    show ?thesis
    proof (cases "i = r")
      case True
      then show ?thesis using keep own i b r by (auto simp: owner_ok_def move_parts(2))
    next
      case False
      then show ?thesis using keep by (simp add: move_parts(2))
    qed
  qed
  ultimately show ?thesis by (simp add: ledger_inv_def lens)
qed

subsection \<open>Every operation keeps the invariant\<close>

lemma upd_budget_owner_comm: "upd_budget b f (upd_owner r g h) = upd_owner r g (upd_budget b f h)"
  by (cases h) (simp add: upd_budget_def upd_owner_def)

lemma upd_charge_budget: "upd_budget b (charge_budget n) h =
    upd_budget b (\<lambda>bd. bd\<lparr>bd_used := bd_used bd + n,
      peak := max (peak (budgets h ! b)) (bd_used (budgets h ! b) + n)\<rparr>) h"
  by (simp add: upd_budget_def charge_budget_def)

lemma reserve_granted_move:
  assumes "reserve (Some r) n h = Inr (True, h')" and "ow_budget (owners h ! r) = Some b"
  shows "h' = move r b (ow_scope (owners h ! r)) n
      (max (peak (budgets h ! b)) (bd_used (budgets h ! b) + n)) h"
    and "0 \<le> n" and "n \<le> limit (budgets h ! b) - bd_used (budgets h ! b)"
    and "\<And>s. ow_scope (owners h ! r) = Some s \<Longrightarrow> n \<le> ceiling (scopes h ! s) - sc_used (scopes h ! s)"
  using assms
  by (auto simp: reserve_def move_def upd_charge_budget Let_def split: if_splits option.splits)

lemma reserve_inv:
  assumes inv: "ledger_inv h" and r: "r < length (owners h)"
    and res: "reserve (Some r) n h = Inr (ok, h')"
  shows "ledger_inv h'"
proof (cases "ow_budget (owners h ! r)")
  case None
  then show ?thesis using inv res by (simp add: reserve_def)
next
  case b: (Some b)
  have own: "owner_ok h (owners h ! r)" using inv r by (rule ledger_invD)
  then have "b < length (budgets h)" "captured (budgets h ! b) = None" "0 \<le> ow_used (owners h ! r)"
    using b by (auto simp: owner_ok_def)
  then have bud: "budget_ok h b" and pk: "peak (budgets h ! b) \<le> limit (budgets h ! b)"
    using ledger_invD(1) [OF inv, of b] by (auto simp: budget_ok_def Let_def)
  show ?thesis
  proof (cases ok)
    case True
    then have *: "reserve (Some r) n h = Inr (True, h')" using res by simp
    have "\<And>s. ow_scope (owners h ! r) = Some s \<Longrightarrow>
        sc_used (scopes h ! s) + n \<le> ceiling (scopes h ! s)"
      using reserve_granted_move(4) [OF * b] by fastforce
    then show ?thesis
      using reserve_granted_move(1-3) [OF * b] pk \<open>0 \<le> ow_used (owners h ! r)\<close>
      by (auto intro!: inv_move [OF inv r b refl])
  next
    case False
    then have "h' = h \<or> (\<exists>so f. h' = upd_scope_opt so f h \<and>
        (\<forall>x. ceiling (f x) = ceiling x \<and> sc_used (f x) = sc_used x))"
      using res b by (fastforce simp: reserve_def Let_def split: if_splits)
    then show ?thesis using inv by (auto intro: inv_flags)
  qed
qed

lemma release_move:
  assumes "release (Some r) n h = Inr h'" and "ow_budget (owners h ! r) = Some b"
  shows "h' = move r b (ow_scope (owners h ! r)) (- n) (peak (budgets h ! b)) h"
    and "0 \<le> n" and "n \<le> ow_used (owners h ! r)"
  using assms
  by (auto simp: release_def move_def upd_budget_owner_comm split: if_splits)
    (simp add: upd_budget_def upd_owner_def)

lemma release_inv:
  assumes inv: "ledger_inv h" and r: "r < length (owners h)" and res: "release (Some r) n h = Inr h'"
  shows "ledger_inv h'"
proof (cases "ow_budget (owners h ! r)")
  case None
  then show ?thesis using inv res by (simp add: release_def)
next
  case b: (Some b)
  have own: "owner_ok h (owners h ! r)" using inv r by (rule ledger_invD)
  then have bl: "b < length (budgets h)" "captured (budgets h ! b) = None"
    using b by (auto simp: owner_ok_def)
  then have bud: "bd_used (budgets h ! b) \<le> peak (budgets h ! b)"
    "peak (budgets h ! b) \<le> limit (budgets h ! b)"
    using ledger_invD(1) [OF inv, of b] by (auto simp: budget_ok_def Let_def)
  have "sc_used (scopes h ! s) \<le> ceiling (scopes h ! s)" if "ow_scope (owners h ! r) = Some s" for s
    using own that ledger_invD(2) [OF inv, of s] by (auto simp: owner_ok_def scope_ok_def)
  then show ?thesis using release_move [OF res b] bud
    by (fastforce intro!: inv_move [OF inv r b refl])
qed

lemma refuse_in_inv: "ledger_inv h \<Longrightarrow> ledger_inv (refuse_in b so n h)"
  using inv_flags [of h "\<lambda>s. s\<lparr>exceeded := True\<rparr>" so] inv_flags [of h "\<lambda>s. s\<lparr>pressured := True\<rparr>" so]
  by (auto simp: refuse_in_def upd_scope_opt_def split: option.splits)

lemma alloc_owner_inv:
  assumes inv: "ledger_inv h" and w: "owner_ok h \<lparr>ow_budget = bo, ow_scope = so, ow_used = 0\<rparr>"
    and res: "alloc_owner bo so h = (r, h')"
  shows "ledger_inv h'" and "r = Some (length (owners h))" and "owners h' ! length (owners h) =
      \<lparr>ow_budget = bo, ow_scope = so, ow_used = 0\<rparr>" and "length (owners h') = Suc (length (owners h))"
    and "budgets h' = budgets h" and "scopes h' = scopes h"
proof -
  let ?w = "\<lparr>ow_budget = bo, ow_scope = so, ow_used = 0\<rparr>"
  have h': "h' = h\<lparr>owners := owners h @ [?w]\<rparr>" and r: "r = Some (length (owners h))"
    using res by (auto simp: alloc_owner_def)
  have ch: "charges h' b = charges h b" "scope_charges h' s = scope_charges h s" for b s
    by (simp_all add: h' charges_def scope_charges_def budget_charge_def scope_charge_def)
  have "budget_ok h' b" if "b < length (budgets h)" for b
    using ledger_invD(1) [OF inv that] ch
    by (auto simp: budget_ok_def Let_def h' nth_append split: option.splits)
  moreover have "scope_ok h' s" if "s < length (scopes h)" for s
    using ledger_invD(2) [OF inv that] ch by (simp add: scope_ok_def h')
  moreover have "owner_ok h' (owners h' ! i)" if "i < length (owners h')" for i
  proof (cases "i < length (owners h)")
    case True
    have "owner_ok h' (owners h ! i)"
      using ledger_invD(3) [OF inv True] by (rule owner_ok_frame) (simp_all add: h')
    then show ?thesis using True by (simp add: h' nth_append)
  next
    case False
    have "owner_ok h' ?w" using w by (rule owner_ok_frame) (simp_all add: h')
    then show ?thesis using False that by (simp add: h' nth_append)
  qed
  ultimately show "ledger_inv h'" by (simp add: ledger_inv_def h')
  show "r = Some (length (owners h))" "owners h' ! length (owners h) = ?w"
    "length (owners h') = Suc (length (owners h))" "budgets h' = budgets h" "scopes h' = scopes h"
    using r by (simp_all add: h')
qed

lemma captured_owner:
  assumes "ledger_inv h" "b < length (budgets h)" "captured (budgets h ! b) = Some c"
  shows "c < length (owners h)" "ow_budget (owners h ! c) \<noteq> None" "ow_scope (owners h ! c) \<noteq> None"
    "owner_ok h (owners h ! c)"
  using ledger_invD(1) [OF assms(1,2)] ledger_invD(3) [OF assms(1), of c] assms(3)
  by (auto simp: budget_ok_def Let_def)

lemma owner_ok_fresh:
  "owner_ok h w \<Longrightarrow> owner_ok h \<lparr>ow_budget = ow_budget w, ow_scope = ow_scope w, ow_used = 0\<rparr>"
  by (auto simp: owner_ok_def split: option.splits)

lemma reservation_of_inv:
  assumes inv: "ledger_inv h" and bp: "valid_opt bp (budgets h)" and res: "reservation_of bp h = (r, h')"
  shows "ledger_inv h'" and "r = Some (length (owners h)) \<and> length (owners h') = Suc (length (owners h))"
proof -
  obtain bo so where al: "alloc_owner bo so h = (r, h')"
    and w: "owner_ok h \<lparr>ow_budget = bo, ow_scope = so, ow_used = 0\<rparr>"
  proof (cases bp)
    case None
    then show ?thesis using res that by (auto simp: reservation_of_def owner_ok_def)
  next
    case (Some b)
    then have b: "b < length (budgets h)" using bp by simp
    show ?thesis
    proof (cases "captured (budgets h ! b)")
      case None
      then have "owner_ok h \<lparr>ow_budget = Some b, ow_scope = bd_scope (budgets h ! b), ow_used = 0\<rparr>"
        using ledger_invD(1) [OF inv b] b by (auto simp: owner_ok_def budget_ok_def Let_def)
      then show ?thesis using res that Some None by (auto simp: reservation_of_def)
    next
      case (Some c)
      then show ?thesis
        using res that \<open>bp = Some b\<close> owner_ok_fresh [OF captured_owner(4) [OF inv b Some]]
        by (auto simp: reservation_of_def)
    qed
  qed
  show "ledger_inv h'" and "r = Some (length (owners h)) \<and> length (owners h') = Suc (length (owners h))"
    using alloc_owner_inv [OF inv w al] by auto
qed

lemma new_budget_inv:
  assumes inv: "ledger_inv h" and res: "new_native_read_budget l h = (b, h')"
  shows "ledger_inv h'" and "b = length (budgets h) \<and> length (budgets h') = Suc b"
proof -
  let ?bd = "\<lparr>captured = None, limit = max l 0, bd_used = 0, peak = 0, unscopedUsed = 0, bd_scope = None\<rparr>"
  have h': "h' = h\<lparr>budgets := budgets h @ [?bd]\<rparr>" and b: "b = length (budgets h)"
    using res by (auto simp: new_native_read_budget_def)
  have none: "charges h' (length (budgets h)) = 0"
  proof -
    have "budget_charge (length (budgets h)) w = 0" if "w \<in> set (owners h)" for w
      using that inv by (auto simp: ledger_inv_def in_set_conv_nth owner_ok_def budget_charge_def
          split: option.splits)
    then show ?thesis by (simp add: charges_def h' sum_list_0 cong: map_cong)
  qed
  have "budget_ok h' i" if "i < length (budgets h')" for i
  proof (cases "i < length (budgets h)")
    case True
    show ?thesis using ledger_invD(1) [OF inv True]
      by (rule budget_ok_frame) (simp_all add: h' nth_append True)
  next
    case False
    then have "i = length (budgets h)" using that by (simp add: h')
    then show ?thesis using none by (simp add: budget_ok_def h' nth_append)
  qed
  moreover have "scope_ok h' s" if "s < length (scopes h)" for s
    using ledger_invD(2) [OF inv that] by (rule scope_ok_frame) (simp_all add: h')
  moreover have "owner_ok h' (owners h ! r)" if "r < length (owners h)" for r
    using ledger_invD(3) [OF inv that] by (rule owner_ok_frame) (simp_all add: h' nth_append)
  ultimately show "ledger_inv h'" by (simp add: ledger_inv_def h')
  show "b = length (budgets h) \<and> length (budgets h') = Suc b" by (simp add: b h')
qed

lemma captured_budget_inv:
  assumes inv: "ledger_inv h" and r: "r < length (owners h)"
    and res: "captured_budget (Some (Some r)) h = Inr (b, h')"
  shows "ledger_inv h'" and "b = length (budgets h)" and "owners h' = owners h" and "scopes h' = scopes h"
    and "captured (budgets h' ! b) = Some r"
    and "\<And>i. i < length (budgets h) \<Longrightarrow> budgets h' ! i = budgets h ! i"
    and "length (budgets h') = Suc (length (budgets h))"
proof -
  let ?bd = "\<lparr>captured = Some r, limit = 0, bd_used = 0, peak = 0, unscopedUsed = 0, bd_scope = None\<rparr>"
  have h': "h' = h\<lparr>budgets := budgets h @ [?bd]\<rparr>" and b: "b = length (budgets h)"
    and ok: "ow_budget (owners h ! r) \<noteq> None" "ow_scope (owners h ! r) \<noteq> None"
    using res by (auto simp: captured_budget_def split: if_splits)
  have "budget_ok h' i" if "i < length (budgets h')" for i
  proof (cases "i < length (budgets h)")
    case True
    show ?thesis using ledger_invD(1) [OF inv True]
      by (rule budget_ok_frame) (simp_all add: h' nth_append True)
  next
    case False
    then show ?thesis using that ok r by (simp add: budget_ok_def h' nth_append)
  qed
  moreover have "scope_ok h' s" if "s < length (scopes h)" for s
    using ledger_invD(2) [OF inv that] by (rule scope_ok_frame) (simp_all add: h')
  moreover have "owner_ok h' (owners h ! r)" if "r < length (owners h)" for r
    using ledger_invD(3) [OF inv that] by (rule owner_ok_frame) (simp_all add: h' nth_append)
  ultimately show "ledger_inv h'" by (simp add: ledger_inv_def h')
qed (use res in \<open>auto simp: captured_budget_def nth_append split: if_splits\<close>)

lemma budget_update_inv:
  assumes inv: "ledger_inv h" and b: "b < length (budgets h)" "captured (budgets h ! b) = None"
    and f: "captured (f (budgets h ! b)) = None" "valid_opt (bd_scope (f (budgets h ! b))) (scopes h)"
      "0 \<le> unscopedUsed (f (budgets h ! b))"
      "bd_used (f (budgets h ! b)) = unscopedUsed (f (budgets h ! b)) + charges h b"
      "bd_used (f (budgets h ! b)) \<le> peak (f (budgets h ! b))"
      "peak (f (budgets h ! b)) \<le> limit (f (budgets h ! b))"
  shows "ledger_inv (upd_budget b f h)"
proof -
  let ?h = "upd_budget b f h"
  have bs: "budgets ?h = (budgets h)[b := f (budgets h ! b)]" by (simp add: upd_budget_def)
  have "budget_ok ?h i" if i: "i < length (budgets h)" for i
  proof (cases "i = b")
    case True
    then show ?thesis using b f by (simp add: budget_ok_def bs charges_def)
  next
    case False
    show ?thesis using ledger_invD(1) [OF inv i] by (rule budget_ok_frame) (simp_all add: bs False [symmetric])
  qed
  moreover have "scope_ok ?h s" if "s < length (scopes h)" for s
    using ledger_invD(2) [OF inv that] by (rule scope_ok_frame) simp_all
  moreover have "owner_ok ?h (owners h ! r)" if "r < length (owners h)" for r
    using ledger_invD(3) [OF inv that] by (rule owner_ok_frame) (auto simp: bs nth_update b f)
  ultimately show ?thesis by (simp add: ledger_inv_def bs)
qed

lemma reserve_unscoped_inv:
  assumes inv: "ledger_inv h" and bp: "valid_opt bp (budgets h)" and res: "reserve_unscoped bp n h = (ok, h')"
  shows "ledger_inv h'"
proof (cases bp)
  case None
  then show ?thesis using inv res by (simp add: reserve_unscoped_def)
next
  case (Some b)
  then have b: "b < length (budgets h)" using bp by simp
  show ?thesis
  proof (cases "is_captured h b \<or> n < 0 \<or> n > limit (budgets h ! b) - bd_used (budgets h ! b)")
    case True
    then show ?thesis using inv res Some by (auto simp: reserve_unscoped_def split: if_splits)
  next
    case False
    then have "budget_ok h b" "captured (budgets h ! b) = None"
      using ledger_invD(1) [OF inv b] by (auto simp: is_captured_def)
    then show ?thesis using res Some False b
      by (auto simp: reserve_unscoped_def charge_budget_def budget_ok_def Let_def
          intro!: budget_update_inv [OF inv])
  qed
qed

lemma reserve_unscoped_required_inv:
  assumes inv: "ledger_inv h" and bp: "valid_opt bp (budgets h)"
    and res: "reserve_unscoped_required bp n h = (ok, h')"
  shows "ledger_inv h'"
proof -
  obtain ok1 h1 where un: "reserve_unscoped bp n h = (ok1, h1)" by (cases "reserve_unscoped bp n h")
  have "ledger_inv h1" using inv bp un by (rule reserve_unscoped_inv)
  then have "ledger_inv (upd_scope_opt so (\<lambda>s. s\<lparr>pressured := True\<rparr>) h1)" for so
    by (rule inv_flags) simp
  then show ?thesis using inv res un \<open>ledger_inv h1\<close>
    by (auto simp: reserve_unscoped_required_def split: option.splits if_splits bool.splits)
qed

lemma release_unscoped_inv:
  assumes inv: "ledger_inv h" and bp: "valid_opt bp (budgets h)" and res: "release_unscoped bp n h = Inr h'"
  shows "ledger_inv h'"
proof (cases bp)
  case None
  then show ?thesis using inv res by (simp add: release_unscoped_def)
next
  case (Some b)
  then have b: "b < length (budgets h)" using bp by simp
  show ?thesis
  proof (cases "is_captured h b")
    case True
    then show ?thesis using inv res Some by (auto simp: release_unscoped_def split: if_splits)
  next
    case False
    then have "budget_ok h b" "captured (budgets h ! b) = None"
      using ledger_invD(1) [OF inv b] by (auto simp: is_captured_def)
    then show ?thesis using res Some False b
      by (auto simp: release_unscoped_def budget_ok_def Let_def split: if_splits
          intro!: budget_update_inv [OF inv])
  qed
qed

lemma add_scope_inv:
  assumes inv: "ledger_inv h" and h': "h' = h\<lparr>scopes := scopes h @ [\<lparr>ceiling = max c 0, sc_used = 0,
      exceeded = False, pressured = False\<rparr>]\<rparr>"
  shows "ledger_inv h'"
proof -
  have none: "scope_charges h' (length (scopes h)) = 0"
  proof -
    have "scope_charge (length (scopes h)) w = 0" if "w \<in> set (owners h)" for w
      using that inv by (auto simp: ledger_inv_def in_set_conv_nth owner_ok_def scope_charge_def)
    then show ?thesis by (simp add: scope_charges_def h' sum_list_0 cong: map_cong)
  qed
  have "budget_ok h' b" if "b < length (budgets h)" for b
    using ledger_invD(1) [OF inv that] by (rule budget_ok_frame) (simp_all add: h')
  moreover have "owner_ok h' (owners h ! r)" if "r < length (owners h)" for r
    using ledger_invD(3) [OF inv that] by (rule owner_ok_frame) (simp_all add: h')
  moreover have "scope_ok h' s" if "s < length (scopes h')" for s
  proof (cases "s < length (scopes h)")
    case True
    show ?thesis using ledger_invD(2) [OF inv True]
      by (rule scope_ok_frame) (simp_all add: h' nth_append True)
  next
    case False
    then have "s = length (scopes h)" using that by (simp add: h')
    then show ?thesis using none by (simp add: scope_ok_def h')
  qed
  ultimately show ?thesis by (simp add: ledger_inv_def h')
qed

subsection \<open>Reachable ledgers\<close>

text \<open>
  A run of the program over one heap: any interleaving of the methods, each on pointers that
  exist, with the scope-ending closures that were handed out. A call that panics ends the run.
\<close>

fun end_valid :: "rheap \<Rightarrow> scope_end \<Rightarrow> bool" where
  "end_valid h NoScope = True"
| "end_valid h (EndScope b s previous) =
     (b < length (budgets h) \<and> captured (budgets h ! b) = None \<and> valid_opt previous (scopes h))"

inductive rb_reach :: "rheap \<Rightarrow> scope_end list \<Rightarrow> bool" where
  rb_init: "rb_reach empty_heap []"
| rb_new: "rb_reach h E \<Longrightarrow> new_native_read_budget l h = (b, h') \<Longrightarrow> rb_reach h' E"
| rb_reservation: "rb_reach h E \<Longrightarrow> valid_opt bp (budgets h) \<Longrightarrow>
    reservation_of bp h = (r, h') \<Longrightarrow> rb_reach h' E"
| rb_reserve: "rb_reach h E \<Longrightarrow> r < length (owners h) \<Longrightarrow>
    reserve (Some r) n h = Inr (ok, h') \<Longrightarrow> rb_reach h' E"
| rb_release: "rb_reach h E \<Longrightarrow> r < length (owners h) \<Longrightarrow>
    release (Some r) n h = Inr h' \<Longrightarrow> rb_reach h' E"
| rb_refuse: "rb_reach h E \<Longrightarrow> r < length (owners h) \<Longrightarrow>
    refuse (Some r) n h = Inr h' \<Longrightarrow> rb_reach h' E"
| rb_unscoped: "rb_reach h E \<Longrightarrow> valid_opt bp (budgets h) \<Longrightarrow>
    reserve_unscoped bp n h = (ok, h') \<Longrightarrow> rb_reach h' E"
| rb_required: "rb_reach h E \<Longrightarrow> valid_opt bp (budgets h) \<Longrightarrow>
    reserve_unscoped_required bp n h = (ok, h') \<Longrightarrow> rb_reach h' E"
| rb_release_unscoped: "rb_reach h E \<Longrightarrow> valid_opt bp (budgets h) \<Longrightarrow>
    release_unscoped bp n h = Inr h' \<Longrightarrow> rb_reach h' E"
| rb_begin: "rb_reach h E \<Longrightarrow> valid_opt bp (budgets h) \<Longrightarrow>
    begin_scope bp c h = Inr (e, h') \<Longrightarrow> rb_reach h' (e # E)"
| rb_end: "rb_reach h E \<Longrightarrow> e \<in> set E \<Longrightarrow> rb_reach (end_scope e h) E"
| rb_refuse_budget: "rb_reach h E \<Longrightarrow> valid_opt bp (budgets h) \<Longrightarrow>
    refuse_budget bp n h = Inr h' \<Longrightarrow> rb_reach h' E"
| rb_forget: "rb_reach h E \<Longrightarrow> valid_opt bp (budgets h) \<Longrightarrow> rb_reach (forget_scope_exceeded bp h) E"
| rb_available: "rb_reach h E \<Longrightarrow> valid_opt bp (budgets h) \<Longrightarrow>
    available_budget bp h = Inr (a, h') \<Longrightarrow> rb_reach h' E"
| rb_capture: "rb_reach h E \<Longrightarrow> valid_opt bp (budgets h) \<Longrightarrow> r < length (owners h) \<Longrightarrow>
    capture_from_reservation bp (Some (Some r)) h = Inr (b, h') \<Longrightarrow> rb_reach h' E"
| rb_captured: "rb_reach h E \<Longrightarrow> r < length (owners h) \<Longrightarrow>
    captured_budget (Some (Some r)) h = Inr (b, h') \<Longrightarrow> rb_reach h' E"

definition ends_valid :: "rheap \<Rightarrow> scope_end list \<Rightarrow> bool" where
  "ends_valid h E = (\<forall>e \<in> set E. end_valid h e)"

text \<open>Pointers never dangle: no operation frees, and no budget changes whether it is captured.\<close>

definition extends :: "rheap \<Rightarrow> rheap \<Rightarrow> bool" where
  "extends h h' =
     (length (budgets h) \<le> length (budgets h') \<and> length (scopes h) \<le> length (scopes h') \<and>
      (\<forall>b < length (budgets h). captured (budgets h' ! b) = captured (budgets h ! b)))"

lemma ends_valid_extends: "ends_valid h E \<Longrightarrow> extends h h' \<Longrightarrow> ends_valid h' E"
proof -
  assume *: "ends_valid h E" "extends h h'"
  have "end_valid h' e" if "e \<in> set E" for e
  proof (cases e)
    case (EndScope b s previous)
    then show ?thesis using * that valid_opt_mono [of previous "scopes h" "scopes h'"]
      by (fastforce simp: ends_valid_def extends_def)
  qed simp
  then show ?thesis by (simp add: ends_valid_def)
qed

lemma extends_upd [simp]: "extends h h" "extends h (upd_scope_opt so f h)"
  by (simp_all add: extends_def)

lemma extends_upd_budget: "(\<And>x. captured (f x) = captured x) \<Longrightarrow> extends h (upd_budget b f h)"
  by (auto simp: extends_def upd_budget_def nth_update)

lemma extends_move: "extends h (move r b so d pk h)"
  by (auto simp: extends_def move_parts nth_update split: option.splits)

lemma reserve_extends: "reserve (Some r) n h = Inr (ok, h') \<Longrightarrow> extends h h'"
proof (cases "ow_budget (owners h ! r)")
  case (Some b)
  assume res: "reserve (Some r) n h = Inr (ok, h')"
  show ?thesis
  proof (cases ok)
    case True
    then show ?thesis using reserve_granted_move(1) [of r n h h' b] res Some by (simp add: extends_move)
  qed (use res Some in \<open>auto simp: reserve_def Let_def split: if_splits\<close>)
qed (simp add: reserve_def)

lemma release_extends: "release (Some r) n h = Inr h' \<Longrightarrow> extends h h'"
  using release_move(1) [of r n h h'] by (cases "ow_budget (owners h ! r)") (auto simp: release_def extends_move)

lemma refuse_in_extends: "extends h (refuse_in b so n h)"
  by (auto simp: refuse_in_def extends_def upd_scope_def split: option.splits)

lemma refuse_extends: "refuse res n h = Inr h' \<Longrightarrow> extends h h'"
  by (auto simp: refuse_def refuse_in_extends split: option.splits)

lemma reservation_of_extends: "reservation_of bp h = (r, h') \<Longrightarrow> extends h h'"
  by (auto simp: reservation_of_def alloc_owner_def extends_def split: option.splits)

lemma extends_trans: "extends h h1 \<Longrightarrow> extends h1 h2 \<Longrightarrow> extends h h2"
  by (auto simp: extends_def)

lemma reserve_unscoped_extends: "reserve_unscoped bp n h = (ok, h') \<Longrightarrow> extends h h'"
  by (auto simp: reserve_unscoped_def charge_budget_def split: option.splits if_splits
      intro: extends_upd_budget)

lemma reserve_unscoped_required_extends:
  "reserve_unscoped_required bp n h = (ok, h') \<Longrightarrow> extends h h'"
  using reserve_unscoped_extends [of bp n h]
  by (auto simp: reserve_unscoped_required_def split: option.splits if_splits prod.splits bool.splits
      intro: extends_trans)

lemma refuse_inv:
  assumes "ledger_inv h" and "refuse res n h = Inr h'"
  shows "ledger_inv h'"
  using assms by (auto simp: refuse_def refuse_in_inv split: option.splits)

lemma refuse_budget_step:
  assumes inv: "ledger_inv h" and bp: "valid_opt bp (budgets h)" and res: "refuse_budget bp n h = Inr h'"
  shows "ledger_inv h' \<and> extends h h'"
proof (cases bp)
  case (Some b)
  show ?thesis
  proof (cases "is_captured h b")
    case True
    obtain r h1 where r: "reservation_of bp h = (r, h1)" by (cases "reservation_of bp h")
    then have "refuse r n h1 = Inr h'" using res Some True by (simp add: refuse_budget_def)
    then show ?thesis using reservation_of_inv(1) [OF inv bp r] reservation_of_extends [OF r]
      by (auto intro: refuse_inv extends_trans refuse_extends)
  next
    case False
    then show ?thesis using inv res Some
      by (auto simp: refuse_budget_def refuse_in_inv refuse_in_extends)
  qed
qed (use inv res in \<open>simp add: refuse_budget_def\<close>)

lemma available_budget_step:
  assumes inv: "ledger_inv h" and bp: "valid_opt bp (budgets h)" and res: "available_budget bp h = Inr (a, h')"
  shows "ledger_inv h' \<and> extends h h'"
proof (cases bp)
  case (Some b)
  obtain r h1 where r: "reservation_of bp h = (r, h1)" by (cases "reservation_of bp h")
  then show ?thesis using res inv Some reservation_of_inv(1) [OF inv bp r] reservation_of_extends [OF r]
    by (auto simp: available_budget_def sbind_Inr_conv split: if_splits)
qed (use inv res in \<open>simp add: available_budget_def\<close>)

lemma begin_scope_step:
  assumes inv: "ledger_inv h" and bp: "valid_opt bp (budgets h)" and res: "begin_scope bp c h = Inr (e, h')"
  shows "ledger_inv h' \<and> extends h h' \<and> end_valid h' e"
proof (cases bp)
  case (Some b)
  then have b: "b < length (budgets h)" using bp by simp
  let ?h = "h\<lparr>scopes := scopes h @ [\<lparr>ceiling = max c 0, sc_used = 0, exceeded = False, pressured = False\<rparr>]\<rparr>"
  have cap: "captured (budgets h ! b) = None"
    and h': "h' = upd_budget b (\<lambda>bd. bd\<lparr>bd_scope := Some (length (scopes h))\<rparr>) ?h"
    and e: "e = EndScope b (length (scopes h)) (bd_scope (budgets h ! b))"
    using res Some by (auto simp: begin_scope_def is_captured_def Let_def split: if_splits)
  have inv': "ledger_inv ?h" using inv by (rule add_scope_inv) simp
  have "budget_ok ?h b" using ledger_invD(1) [OF inv'] b by simp
  then have "ledger_inv h'" unfolding h'
    by (intro budget_update_inv [OF inv']) (use b cap in \<open>auto simp: budget_ok_def Let_def\<close>)
  moreover have "extends h h'" using b by (auto simp: h' extends_def upd_budget_def nth_update)
  moreover have "valid_opt (bd_scope (budgets h ! b)) (scopes h)"
    using ledger_invD(1) [OF inv b] by (simp add: budget_ok_def Let_def)
  then have "end_valid h' e"
    using b cap valid_opt_mono [of "bd_scope (budgets h ! b)" "scopes h" "scopes h'"]
    by (auto simp: e h' upd_budget_def)
  ultimately show ?thesis by simp
qed (use inv res in \<open>auto simp: begin_scope_def\<close>)

lemma end_scope_step:
  assumes inv: "ledger_inv h" and e: "end_valid h e"
  shows "ledger_inv (end_scope e h) \<and> extends h (end_scope e h)"
proof (cases e)
  case (EndScope b s previous)
  have "budget_ok h b" using ledger_invD(1) [OF inv] e EndScope by simp
  then show ?thesis using inv e EndScope
    by (auto simp: budget_ok_def Let_def intro!: budget_update_inv extends_upd_budget)
qed (use inv in simp)

lemma capture_captured:
  "capture_from_reservation bp resp h = Inr bh \<Longrightarrow> captured_budget resp h = Inr bh"
  by (auto simp: capture_from_reservation_def split: option.splits if_splits)

lemma captured_budget_extends:
  assumes "ledger_inv h" "r < length (owners h)" "captured_budget (Some (Some r)) h = Inr (b, h')"
  shows "extends h h'"
  using captured_budget_inv [OF assms] by (auto simp: extends_def)

lemma rb_reach_inv: "rb_reach h E \<Longrightarrow> ledger_inv h \<and> ends_valid h E"
proof (induction rule: rb_reach.induct)
  case rb_init
  then show ?case by (simp add: ledger_inv_def empty_heap_def ends_valid_def)
next
  case (rb_new h E l b h')
  then have "extends h h'" by (auto simp: new_native_read_budget_def extends_def nth_append)
  then show ?case using rb_new new_budget_inv(1) by (blast intro: ends_valid_extends)
next
  case (rb_begin h E bp c e h')
  then have "ledger_inv h' \<and> extends h h' \<and> end_valid h' e"
    using begin_scope_step [of h bp c e h'] by simp
  then show ?case using rb_begin ends_valid_extends by (auto simp: ends_valid_def)
next
  case (rb_end h E e)
  then show ?case using end_scope_step [of h e] ends_valid_extends by (auto simp: ends_valid_def)
next
  case (rb_forget h E bp)
  have "ledger_inv (upd_scope_opt so (\<lambda>s. s\<lparr>exceeded := False\<rparr>) h)" for so
    using rb_forget.IH by (intro inv_flags) auto
  then show ?case using rb_forget
    by (auto simp: forget_scope_exceeded_def ends_valid_extends split: option.splits)
next
  case (rb_capture h E bp r b h')
  then have "captured_budget (Some (Some r)) h = Inr (b, h')" by (auto dest: capture_captured)
  then show ?case using rb_capture captured_budget_inv(1) captured_budget_extends
    by (blast intro: ends_valid_extends)
next
  case (rb_captured h E r b h')
  then show ?case using captured_budget_inv(1) captured_budget_extends
    by (blast intro: ends_valid_extends)
next
  case (rb_release_unscoped h E bp n h')
  have "extends h h'" using rb_release_unscoped
    by (auto simp: release_unscoped_def intro: extends_upd_budget split: option.splits if_splits)
  then show ?case using rb_release_unscoped release_unscoped_inv by (blast intro: ends_valid_extends)
next
  case (rb_reservation h E bp r h')
  then show ?case using reservation_of_inv(1) reservation_of_extends by (blast intro: ends_valid_extends)
next
  case (rb_reserve h E r n ok h')
  then show ?case using reserve_inv reserve_extends by (blast intro: ends_valid_extends)
next
  case (rb_release h E r n h')
  then show ?case using release_inv release_extends by (blast intro: ends_valid_extends)
next
  case (rb_refuse h E r n h')
  then show ?case using refuse_inv refuse_extends by (blast intro: ends_valid_extends)
next
  case (rb_unscoped h E bp n ok h')
  then show ?case using reserve_unscoped_inv reserve_unscoped_extends by (blast intro: ends_valid_extends)
next
  case (rb_required h E bp n ok h')
  then show ?case using reserve_unscoped_required_inv reserve_unscoped_required_extends
    by (blast intro: ends_valid_extends)
next
  case (rb_refuse_budget h E bp n h')
  then show ?case using refuse_budget_step [of h bp n h'] by (auto intro: ends_valid_extends)
next
  case (rb_available h E bp a h')
  then show ?case using available_budget_step [of h bp a h'] by (auto intro: ends_valid_extends)
qed

subsection \<open>The handle as the encoder's memory budget\<close>

definition handle_reserve :: "nat \<Rightarrow> int \<Rightarrow> rheap \<Rightarrow> (bool \<times> rheap) option" where
  "handle_reserve r n h = (case reserve (Some r) n h of Inl _ \<Rightarrow> None | Inr x \<Rightarrow> Some x)"

definition handle_release :: "nat \<Rightarrow> int \<Rightarrow> rheap \<Rightarrow> rheap option" where
  "handle_release r n h = (case release (Some r) n h of Inl _ \<Rightarrow> None | Inr h' \<Rightarrow> Some h')"

definition handle_available :: "nat \<Rightarrow> rheap \<Rightarrow> int" where
  "handle_available r h = (case available (Some r) h of Inl _ \<Rightarrow> 0 | Inr a \<Rightarrow> a)"

definition handle_held :: "nat \<Rightarrow> rheap \<Rightarrow> int" where
  "handle_held r h = ow_used (owners h ! r)"

definition handle_inv :: "nat \<Rightarrow> rheap \<Rightarrow> bool" where
  "handle_inv r h = (ledger_inv h \<and> r < length (owners h) \<and> ow_budget (owners h ! r) \<noteq> None)"

lemma reserve_handle:
  assumes "handle_inv r h"
  obtains ok h' where "reserve (Some r) n h = Inr (ok, h')" "handle_inv r h'"
    "handle_held r h' = handle_held r h + (if ok then n else 0)"
    "ok \<longleftrightarrow> 0 \<le> n \<and> n \<le> handle_available r h"
proof -
  obtain b where inv: "ledger_inv h" "r < length (owners h)" and b: "ow_budget (owners h ! r) = Some b"
    using assms by (auto simp: handle_inv_def)
  have "\<not> (\<exists>e. reserve (Some r) n h = Inl e)"
    using b by (simp add: reserve_def Let_def)
  then obtain ok h' where res: "reserve (Some r) n h = Inr (ok, h')"
    by (cases "reserve (Some r) n h") auto
  have "ledger_inv h'" using inv res by (rule reserve_inv)
  moreover have "ok \<longleftrightarrow> 0 \<le> n \<and> n \<le> handle_available r h"
    using res b by (auto simp: reserve_def handle_available_def available_def available_in_def Let_def
        split: if_splits option.splits)
  moreover have "r < length (owners h') \<and> ow_budget (owners h' ! r) \<noteq> None \<and>
      handle_held r h' = handle_held r h + (if ok then n else 0)"
  proof (cases ok)
    case True
    then have h': "h' = move r b (ow_scope (owners h ! r)) n
      (max (peak (budgets h ! b)) (bd_used (budgets h ! b) + n)) h"
      using reserve_granted_move(1) [of r n h h' b] res b by simp
    show ?thesis using inv(2) b True by (simp add: h' move_parts(2) handle_held_def)
  next
    case False
    then show ?thesis using res b inv(2)
      by (auto simp: reserve_def handle_held_def Let_def split: if_splits)
  qed
  ultimately show ?thesis using that res by (auto simp: handle_inv_def)
qed

lemma release_handle:
  assumes "handle_inv r h" "0 \<le> n" "n \<le> handle_held r h"
  obtains h' where "release (Some r) n h = Inr h'" "handle_inv r h'"
    "handle_held r h' = handle_held r h - n"
proof -
  obtain b where inv: "ledger_inv h" "r < length (owners h)" and b: "ow_budget (owners h ! r) = Some b"
    using assms(1) by (auto simp: handle_inv_def)
  obtain h' where res: "release (Some r) n h = Inr h'"
    using b assms(2,3) by (auto simp: release_def handle_held_def)
  have "ledger_inv h'" using inv res by (rule release_inv)
  then show ?thesis using that [OF res] release_move(1) [OF res b] inv(2) b
    by (simp add: handle_inv_def handle_held_def move_parts(2))
qed

interpretation handle: memory_budget "handle_reserve r" "handle_release r" "handle_available r"
  "handle_held r" "handle_inv r" for r
proof
  fix s n
  assume inv: "handle_inv r s"
  obtain ok h' where res: "reserve (Some r) n s = Inr (ok, h')" "handle_inv r h'"
    and held: "handle_held r h' = handle_held r s + (if ok then n else 0)"
    and ok: "ok \<longleftrightarrow> 0 \<le> n \<and> n \<le> handle_available r s"
    using inv by (rule reserve_handle)
  show "\<exists>b s'. handle_reserve r n s = Some (b, s') \<and> handle_inv r s'"
    using res by (simp add: handle_reserve_def)
  show "0 \<le> n \<and> handle_held r s' = handle_held r s + n" if "handle_reserve r n s = Some (True, s')" for s'
    using that res held ok by (simp add: handle_reserve_def)
  show "handle_held r s' = handle_held r s" if "handle_reserve r n s = Some (False, s')" for s'
    using that res held by (simp add: handle_reserve_def)
  show "(\<exists>s'. handle_reserve r n s = Some (True, s')) \<longleftrightarrow> n \<le> handle_available r s" if "0 \<le> n"
    using that res ok by (simp add: handle_reserve_def)
  show "\<exists>s'. handle_release r n s = Some s' \<and> handle_inv r s' \<and> handle_held r s' = handle_held r s - n"
    if "0 \<le> n" "n \<le> handle_held r s"
  proof -
    note ready = inv that
    obtain h2 where "release (Some r) n s = Inr h2" "handle_inv r h2"
      "handle_held r h2 = handle_held r s - n"
      using ready by (rule release_handle)
    then show ?thesis by (simp add: handle_release_def)
  qed
  show "0 \<le> handle_held r s"
    using inv ledger_invD(3) [of s r] by (auto simp: handle_inv_def handle_held_def owner_ok_def)
qed

subsection \<open>Properties\<close>

text \<open>
  Claim C13. In every reachable ledger, whatever the interleaving of reservations, scopes and
  captured facades: the bytes charged never pass the limit nor the recorded peak, they are exactly
  the unscoped charges plus what the live handles hold, and no scope passes its ceiling. So no
  subtraction or addition the code makes on these \<open>int64\<close> fields can overflow.
\<close>

theorem ledger_bounds:
  assumes "rb_reach h E"
  shows "(\<forall>b < length (budgets h). captured (budgets h ! b) = None \<longrightarrow>
            0 \<le> bd_used (budgets h ! b) \<and> bd_used (budgets h ! b) \<le> peak (budgets h ! b) \<and>
            peak (budgets h ! b) \<le> limit (budgets h ! b) \<and>
            bd_used (budgets h ! b) = unscopedUsed (budgets h ! b) + charges h b) \<and>
         (\<forall>s < length (scopes h). 0 \<le> sc_used (scopes h ! s) \<and>
            sc_used (scopes h ! s) \<le> ceiling (scopes h ! s) \<and>
            sc_used (scopes h ! s) = scope_charges h s)"
proof -
  have inv: "ledger_inv h" using rb_reach_inv [OF assms] by simp
  have nonneg: "0 \<le> ow_used w" if "w \<in> set (owners h)" for w
    using that inv by (auto simp: ledger_inv_def in_set_conv_nth owner_ok_def)
  have "0 \<le> charges h b" "0 \<le> scope_charges h s" for b s
    using nonneg by (auto simp: charges_def scope_charges_def budget_charge_def scope_charge_def
        intro!: sum_list_nonneg)
  then show ?thesis using inv by (auto simp: ledger_inv_def budget_ok_def scope_ok_def Let_def)
qed

text \<open>A ledger of 100 bytes, a handle on it, 40 bytes granted.\<close>

definition demo_heap :: rheap where
  "demo_heap = \<lparr>budgets = [\<lparr>captured = None, limit = 100, bd_used = 40, peak = 40, unscopedUsed = 0,
      bd_scope = None\<rparr>], scopes = [], owners = [\<lparr>ow_budget = Some 0, ow_scope = None, ow_used = 40\<rparr>]\<rparr>"

lemma demo_reach: "rb_reach demo_heap []"
proof -
  have "rb_reach (snd (new_native_read_budget 100 empty_heap)) []"
    by (rule rb_new [OF rb_init surjective_pairing])
  then have "rb_reach \<lparr>budgets = [\<lparr>captured = None, limit = 100, bd_used = 0, peak = 0,
      unscopedUsed = 0, bd_scope = None\<rparr>], scopes = [], owners = []\<rparr> []" (is "rb_reach ?h1 []")
    by (simp add: new_native_read_budget_def empty_heap_def)
  then have "rb_reach (?h1\<lparr>owners := [\<lparr>ow_budget = Some 0, ow_scope = None, ow_used = 0\<rparr>]\<rparr>) []"
    by (rule rb_reservation [where bp = "Some 0"]) (simp_all add: reservation_of_def alloc_owner_def)
  then show ?thesis
    by (rule rb_reserve [where r = 0 and n = 40])
      (simp_all add: reserve_def upd_scope_opt_def upd_owner_def upd_budget_def charge_budget_def
        demo_heap_def)
qed

theorem ledger_bounds_witness:
  "rb_reach demo_heap [] \<and> bd_used (budgets demo_heap ! 0) = 40 \<and> charges demo_heap 0 = 40 \<and>
   bd_used (budgets demo_heap ! 0) \<le> limit (budgets demo_heap ! 0)"
  using ledger_bounds [OF demo_reach] demo_reach
  by (simp add: demo_heap_def charges_def budget_charge_def)

text \<open>
  Claim C28. \<open>Reserve\<close> on a handle of a live ledger grants a request exactly when it is not negative
  and no larger than \<open>Available\<close>, which accounts for both the shared limit and the handle's own
  scope. A refusal changes no charge of any budget, scope or handle; it sets one diagnostic flag.
\<close>

theorem reserve_exact:
  assumes "rb_reach h E" and "r < length (owners h)" and "ow_budget (owners h ! r) = Some b"
  shows "\<exists>ok h'. reserve (Some r) n h = Inr (ok, h') \<and>
           (ok \<longleftrightarrow> 0 \<le> n \<and> n \<le> available_in h b (ow_scope (owners h ! r))) \<and>
           (ok \<longrightarrow> charges h' b = charges h b + n \<and>
              bd_used (budgets h' ! b) = bd_used (budgets h ! b) + n) \<and>
           (\<not> ok \<longrightarrow> budgets h' = budgets h \<and> owners h' = owners h \<and>
              map sc_used (scopes h') = map sc_used (scopes h))"
proof -
  have inv: "handle_inv r h" using rb_reach_inv [OF assms(1)] assms(2,3) by (simp add: handle_inv_def)
  obtain ok h' where res: "reserve (Some r) n h = Inr (ok, h')" "handle_inv r h'"
    "ok \<longleftrightarrow> 0 \<le> n \<and> n \<le> handle_available r h"
    using inv by (rule reserve_handle)
  have av: "handle_available r h = available_in h b (ow_scope (owners h ! r))"
    using assms(3) by (simp add: handle_available_def available_def)
  have bl: "b < length (budgets h)"
    using ledger_invD(3) [of h r] inv assms(3) by (auto simp: handle_inv_def owner_ok_def)
  have "charges h' b = charges h b + n \<and> bd_used (budgets h' ! b) = bd_used (budgets h ! b) + n" if ok
    using reserve_granted_move(1) [of r n h h' b] res that assms(3) charges_move(1) [OF assms(2,3) refl]
    by (simp add: bl move_parts(1))
  moreover have "budgets h' = budgets h \<and> owners h' = owners h \<and>
      map sc_used (scopes h') = map sc_used (scopes h)" if "\<not> ok"
    using res that assms(3)
    by (auto simp: reserve_def Let_def sc_used_flag split: if_splits)
  ultimately show ?thesis using res av by auto
qed

theorem reserve_exact_witness:
  "\<exists>h'. reserve (Some 0) 60 demo_heap = Inr (True, h') \<and> bd_used (budgets h' ! 0) = 100"
proof -
  have "0 < length (owners demo_heap)" "ow_budget (owners demo_heap ! 0) = Some 0"
    by (simp_all add: demo_heap_def)
  from reserve_exact [OF demo_reach this, of 60] show ?thesis
    by (auto simp: demo_heap_def available_in_def)
qed

text \<open>
  Claim C29. Returning a granted reservation restores every charge: after \<open>Reserve(n)\<close> succeeds,
  \<open>Release(n)\<close> on the same handle cannot panic, and the ledger, the handle and every scope hold
  exactly what they held before; only the recorded peak may have grown.
\<close>

theorem reserve_release_roundtrip:
  assumes "rb_reach h E" and "r < length (owners h)" and "ow_budget (owners h ! r) = Some b"
    and "reserve (Some r) n h = Inr (True, h1)"
  shows "\<exists>h2. release (Some r) n h1 = Inr h2 \<and> owners h2 = owners h \<and> scopes h2 = scopes h \<and>
           map bd_used (budgets h2) = map bd_used (budgets h) \<and>
           peak (budgets h2 ! b) = max (peak (budgets h ! b)) (bd_used (budgets h ! b) + n)"
proof -
  have inv: "ledger_inv h" using rb_reach_inv [OF assms(1)] by simp
  have own: "owner_ok h (owners h ! r)" using inv assms(2) by (rule ledger_invD)
  then have bl: "b < length (budgets h)" and nonneg: "0 \<le> ow_used (owners h ! r)"
    using assms(3) by (auto simp: owner_ok_def)
  let ?so = "ow_scope (owners h ! r)" and ?pk = "max (peak (budgets h ! b)) (bd_used (budgets h ! b) + n)"
  have h1: "h1 = move r b ?so n ?pk h" and n: "0 \<le> n"
    using reserve_granted_move(1,2) [OF assms(4,3)] by simp_all
  have own1: "owners h1 ! r = (owners h ! r)\<lparr>ow_used := ow_used (owners h ! r) + n\<rparr>"
    using assms(2) by (simp add: h1 move_parts(2))
  have "\<not> (\<exists>e. release (Some r) n h1 = Inl e)"
    using n nonneg own1 assms(3) by (simp add: release_def)
  then obtain h2 where rel: "release (Some r) n h1 = Inr h2" by (cases "release (Some r) n h1") auto
  then have h2: "h2 = move r b ?so (- n) ?pk h1"
    using release_move(1) [OF rel, of b] own1 assms(3) bl by (simp add: h1 move_parts(1))
  have "owners h2 = owners h" "map bd_used (budgets h2) = map bd_used (budgets h)" "peak (budgets h2 ! b) = ?pk"
    using assms(2) bl by (auto simp: h2 h1 move_parts(1,2) nth_update intro!: nth_equalityI)
  moreover have "scopes h2 = scopes h"
    by (auto simp: h2 h1 move_parts(3) nth_update intro!: nth_equalityI split: option.splits)
  ultimately show ?thesis using rel by blast
qed

theorem reserve_release_roundtrip_witness:
  "\<exists>h1 h2. reserve (Some 0) 60 demo_heap = Inr (True, h1) \<and> release (Some 0) 60 h1 = Inr h2 \<and>
     owners h2 = owners demo_heap"
proof -
  have "0 < length (owners demo_heap)" "ow_budget (owners demo_heap ! 0) = Some 0"
    by (simp_all add: demo_heap_def)
  moreover obtain h1 where "reserve (Some 0) 60 demo_heap = Inr (True, h1)"
    by (simp add: demo_heap_def reserve_def)
  ultimately show ?thesis using reserve_release_roundtrip [OF demo_reach] by blast
qed

text \<open>
  A captured facade adds no credit: a handle drawn from a facade that
  \<open>CaptureFromReservation\<close> granted charges the very ledger and the very scope of the reservation it
  was captured from, which is the receiver's own ledger; and the facade can open no scope and take
  no unscoped charge.
\<close>

lemma captured_facade_same_owner:
  assumes "rb_reach h E" and "valid_opt bp (budgets h)" and "r < length (owners h)"
    and "capture_from_reservation bp (Some (Some r)) h = Inr (f, h')"
  shows "(\<forall>q h''. reservation_of (Some f) h' = (q, h'') \<longrightarrow>
            (\<exists>i. q = Some i \<and> ow_budget (owners h'' ! i) = ow_budget (owners h ! r) \<and>
               ow_scope (owners h'' ! i) = ow_scope (owners h ! r) \<and> ow_used (owners h'' ! i) = 0)) \<and>
         charged (Some f) h' = charged bp h \<and>
         begin_scope (Some f) c h' = Inl CapturedOpensScope \<and>
         reserve_unscoped (Some f) n h' = (False, h')"
proof -
  have inv: "ledger_inv h" using rb_reach_inv [OF assms(1)] by simp
  have cap: "captured_budget (Some (Some r)) h = Inr (f, h')" using assms(4) by (rule capture_captured)
  note new = captured_budget_inv [OF inv assms(3) cap]
  obtain b where bp: "bp = Some b" and b: "b < length (budgets h)"
    using assms(2,4) by (cases bp) (auto simp: capture_from_reservation_def)
  have same: "(case captured (budgets h ! b) of None \<Rightarrow> Some b | Some c \<Rightarrow> ow_budget (owners h ! c)) =
      ow_budget (owners h ! r)"
    using assms(4) bp by (auto simp: capture_from_reservation_def split: option.splits if_splits)
  obtain l where l: "ow_budget (owners h ! r) = Some l"
    using cap by (auto simp: captured_budget_def split: if_splits)
  then have "l < length (budgets h)"
    using ledger_invD(3) [OF inv assms(3)] by (simp add: owner_ok_def)
  then have "charged (Some f) h' = charged bp h"
    using new same l by (auto simp: charged_def bp Let_def)
  moreover have "is_captured h' f" using new by (simp add: is_captured_def)
  ultimately show ?thesis using new
    by (auto simp: reservation_of_def alloc_owner_def begin_scope_def reserve_unscoped_def)
qed

end
