(* ===== verification/JsonEncode.thy ===== *)
theory JsonEncode
  imports JsonBound ReadBudget
begin

text \<open>
  \<open>Encode\<close> and \<open>Bound\<close>: what reaches the writer, what the bound is worth, and that the borrowed
  ledger is returned as it was. The encoder is a client of \<open>memory_budget\<close>: its steps are
  \<open>ledger_safe\<close> under the laws of that interface, which the reservations of \<open>ReadBudget\<close> provide.
\<close>

subsection \<open>Steps that do not touch the ledger\<close>

definition calm :: "('w, 'b) wst act \<Rightarrow> bool" where
  "calm a = (\<forall>s. w_budget (snd (a s)) = w_budget s \<and> fst (a s) \<noteq> Some LedgerPanic)"

lemma calmI: "(\<And>s. w_budget (snd (a s)) = w_budget s \<and> fst (a s) \<noteq> Some LedgerPanic) \<Longrightarrow> calm a"
  by (simp add: calm_def)

lemma calmD: "calm a \<Longrightarrow> a s = (e, s') \<Longrightarrow> w_budget s' = w_budget s \<and> e \<noteq> Some LedgerPanic"
  unfolding calm_def by (metis fst_conv snd_conv)

lemma calmE: "calm a \<Longrightarrow> w_budget (snd (a s)) = w_budget s" "calm a \<Longrightarrow> fst (a s) \<noteq> Some LedgerPanic"
  by (simp_all add: calm_def)

lemma calm_ok: "calm ok"
  by (simp add: calm_def ok_def)

lemma calm_fail: "e \<noteq> LedgerPanic \<Longrightarrow> calm (fail e)"
  by (simp add: calm_def fail_def)

lemma calm_poll: "calm poll"
  by (simp add: calm_def poll_def split: prod.split bool.split)

lemma calm_add: "calm (count_add n)"
  by (simp add: calm_def count_add_def split: option.split)

lemma calm_run_all: "\<forall>a\<in>set as. calm a \<Longrightarrow> calm (run_all as)"
proof (induction as)
  case Nil
  then show ?case by (simp add: calm_def)
next
  case (Cons a as)
  then have c: "calm a" "calm (run_all as)" by simp_all
  show ?case
  proof (rule calmI)
    fix s
    obtain e s1 where a: "a s = (e, s1)" by (cases "a s")
    obtain e2 s2 where b: "run_all as s1 = (e2, s2)" by (cases "run_all as s1")
    show "w_budget (snd (run_all (a # as) s)) = w_budget s \<and> fst (run_all (a # as) s) \<noteq> Some LedgerPanic"
      using calmD [OF c(1) a] calmD [OF c(2) b] a b by (auto split: option.split)
  qed
qed

lemma calm_flush: "calm (flush E)"
proof (rule calmI)
  fix s :: "('a, 'b) wst"
  obtain e s1 where p: "poll s = (e, s1)" by (cases "poll s")
  show "w_budget (snd (flush E s)) = w_budget s \<and> fst (flush E s) \<noteq> Some LedgerPanic"
    using calmD [OF calm_poll p] p by (auto simp: flush_def Let_def split: option.split prod.split)
qed

lemma calm_text_round: "calm (text_round E str)"
proof (rule calmI)
  fix s :: "('a, 'b) wst"
  obtain e s1 where p: "poll s = (e, s1)" by (cases "poll s")
  define s2 where "s2 = s1\<lparr>w_buf := w_buf s1 @ take (buffer_size - length (w_buf s1)) str\<rparr>"
  obtain e2 s3 where f: "flush E s2 = (e2, s3)" by (cases "flush E s2")
  have "w_budget s2 = w_budget s" using calmD [OF calm_poll p] by (simp add: s2_def)
  then show "w_budget (snd (text_round E str s)) = w_budget s \<and> fst (text_round E str s) \<noteq> Some LedgerPanic"
    using calmD [OF calm_poll p] calmD [OF calm_flush f] p f
    unfolding text_round_def p prod.case s2_def [symmetric] Let_def by (auto split: option.split)
qed

lemma calm_text: "calm (stream_text E str)"
proof (rule calmI)
  fix s
  show "w_budget (snd (stream_text E str s)) = w_budget s \<and> fst (stream_text E str s) \<noteq> Some LedgerPanic"
  proof (induction E str s rule: stream_text.induct)
    case (1 E str s)
    obtain e s1 where t: "text_round E str s = (e, s1)" by (cases "text_round E str s")
    show ?case
      using 1 [OF _ t [symmetric]] calmD [OF calm_text_round t] t
      by (subst (1 2) stream_text.simps) (auto split: option.split)
  qed
qed

lemma calm_escaped: "(\<And>p. calm (emit p)) \<Longrightarrow> calm (escaped emit r)"
proof (rule calmI)
  fix s assume "\<And>p. calm (emit p)"
  then show "w_budget (snd (escaped emit r s)) = w_budget s \<and> fst (escaped emit r s) \<noteq> Some LedgerPanic"
  proof (induction emit r s rule: escaped.induct)
    case (1 emit r s)
    obtain e s1 where t: "run_all [poll, emit (fst (escape_next r))] s = (e, s1)"
      by (cases "run_all [poll, emit (fst (escape_next r))] s")
    have "calm (run_all [poll, emit (fst (escape_next r))])" by (rule calm_run_all) (simp add: calm_poll 1(2))
    from calmD [OF this t] 1(1) [OF _ t [symmetric] _ 1(2)] t
    show ?case by (subst (1 2) escaped.simps) (auto simp del: run_all.simps split: option.split)
  qed
qed

lemma calm_quote: "calm (stream_quote E str double)"
  unfolding stream_quote_def Let_def
  by (rule calm_run_all) (simp add: calm_text calm_escaped calm_ok)

lemma calm_b64_write: "calm (b64_write E p)"
proof (rule calmI)
  fix s
  show "w_budget (snd (b64_write E p s)) = w_budget s \<and> fst (b64_write E p s) \<noteq> Some LedgerPanic"
  proof (induction E p s rule: b64_write.induct)
    case (1 E p s)
    define nn where "nn = min 768 (length p - length p mod 3)"
    obtain e s1 where t: "stream_text E (b64 (take nn p)) s = (e, s1)" by (cases "stream_text E (b64 (take nn p)) s")
    obtain e2 s2 where u: "stream_text E (b64 p) s = (e2, s2)" by (cases "stream_text E (b64 p) s")
    show ?case
      using 1 [OF _ nn_def t [symmetric]] calmD [OF calm_text t] calmD [OF calm_text u] t u
      by (subst (1 2) b64_write.simps) (auto simp: Let_def nn_def [symmetric] split: option.split)
  qed
qed

lemma calm_base64: "calm (stream_base64 E p)"
  unfolding stream_base64_def by (rule calm_run_all) (simp add: calm_text calm_b64_write)

lemma calm_raw_loop: "calm (stream_raw_loop E r i e)"
proof (rule calmI)
  fix s
  show "w_budget (snd (stream_raw_loop E r i e s)) = w_budget s \<and> fst (stream_raw_loop E r i e s) \<noteq> Some LedgerPanic"
  proof (induction E r i e s rule: stream_raw_loop.induct)
    case (1 E r i e s)
    obtain x s1 where p: "poll s = (x, s1)" by (cases "poll s")
    obtain y s2 where t: "stream_text E (raw_escape r) s1 = (y, s2)" by (cases "stream_text E (raw_escape r) s1")
    show ?case
      using 1(1) [OF _ p [symmetric]] 1(2) [OF _ p [symmetric] _ _ t [symmetric]]
        calmD [OF calm_poll p] calmD [OF calm_text t] p t
      by (subst (1 2) stream_raw_loop.simps) (auto split: option.split)
  qed
qed

lemma calm_text_loop: "calm (count_text_loop r i c)"
proof (rule calmI)
  fix s :: "('w, 'b) wst"
  show "w_budget (snd (count_text_loop r i c s)) = w_budget s \<and> fst (count_text_loop r i c s) \<noteq> Some LedgerPanic"
  proof (induction r i c s rule: count_text_loop.induct)
    case (1 r i c s)
    let ?as = "[if i - c \<ge> 256 then poll else ok, count_add (fst (count_next r))] :: ('w, 'b) wst act list"
    obtain e s1 where t: "run_all ?as s = (e, s1)" by (cases "run_all ?as s")
    have "calm (run_all ?as)" by (rule calm_run_all) (simp add: calm_poll calm_ok calm_add)
    from calmD [OF this t] 1 [OF _ t [symmetric]] t
    show ?case by (subst (1 2) count_text_loop.simps) (auto simp del: run_all.simps split: option.split)
  qed
qed

lemma calm_count_text: "calm (count_text str)"
  unfolding count_text_def by (rule calm_run_all) (simp add: calm_add calm_text_loop)

lemma calm_count_raw_loop: "calm (count_raw_loop r i)"
proof (rule calmI)
  fix s :: "('w, 'b) wst"
  show "w_budget (snd (count_raw_loop r i s)) = w_budget s \<and> fst (count_raw_loop r i s) \<noteq> Some LedgerPanic"
  proof (induction r i s rule: count_raw_loop.induct)
    case (1 r i s)
    let ?as = "[if i mod 256 = 0 then poll else ok, if html_byte (hd r) then count_add 5 else ok,
       if line_separator r then count_add 3 else ok] :: ('w, 'b) wst act list"
    obtain e s1 where t: "run_all ?as s = (e, s1)" by (cases "run_all ?as s")
    have "calm (run_all ?as)" by (rule calm_run_all) (simp add: calm_poll calm_ok calm_add)
    from calmD [OF this t] 1 [OF _ t [symmetric]] t
    show ?case by (subst (1 2) count_raw_loop.simps) (auto simp: Let_def simp del: run_all.simps split: option.split)
  qed
qed

lemma calm_count_raw: "calm (count_raw r)"
  unfolding count_raw_def by (rule calm_run_all) (simp add: calm_add calm_count_raw_loop)

lemma calm_if: "calm a \<Longrightarrow> calm b \<Longrightarrow> calm (\<lambda>s. if P s then a s else b s)"
  by (simp add: calm_def)

lemma calm_literal: "calm (literal E str n)"
  unfolding literal_def [abs_def] by (rule calm_if [OF calm_add calm_text])

lemma calm_quoted_text: "calm (quoted_text E str)"
  unfolding quoted_text_def [abs_def] by (rule calm_if [OF calm_count_text calm_quote])

lemma calm_punctuation: "calm (punctuation E str)"
  by (simp add: punctuation_def calm_literal)

lemma calm_scalar: "calm (scalar E str n q)"
  by (rule calmI) (simp add: scalar_def calmE [OF calm_add] calmE [OF calm_quoted_text] calmE [OF calm_literal])


lemma calm_quoted_string: "calm (quoted_string E str)"
proof (rule calmI)
  fix s :: "('a, 'b) wst"
  obtain e s1 where t: "count_text str s = (e, s1)" by (cases "count_text str s")
  show "w_budget (snd (quoted_string E str s)) = w_budget s \<and> fst (quoted_string E str s) \<noteq> Some LedgerPanic"
    using calmD [OF calm_count_text t] t
    by (auto simp: quoted_string_def calmE [OF calm_add] calmE [OF calm_quote] split: option.split)
qed

lemma calm_number: "calm (number E x q)"
proof (rule calmI)
  fix s :: "('a, 'b) wst"
  obtain v c where v: "valid_number (w_ctx s) (number_text x) = (v, c)" by (cases "valid_number (w_ctx s) (number_text x)")
  have r: "calm (run_all [poll, fail ErrUnsupported])" by (rule calm_run_all) (simp add: calm_poll calm_fail)
  show "w_budget (snd (number E x q s)) = w_budget s \<and> fst (number E x q s) \<noteq> Some LedgerPanic"
    by (simp add: number_def v Let_def calmE [OF calm_scalar] calmE [OF r] del: run_all.simps)
qed

text \<open>The scanner's errors are its own.\<close>

definition scan_error :: "jw_error + 'a \<Rightarrow> bool" where
  "scan_error r = (r \<noteq> Inl LedgerPanic)"

lemma scan_error_simps [simp]: "scan_error (Inr x)" "scan_error (Inl e) = (e \<noteq> LedgerPanic)"
  by (auto simp: scan_error_def)

lemma scan_error_sbind: "scan_error m \<Longrightarrow> (\<And>x. scan_error (f x)) \<Longrightarrow> scan_error (sbind m f)"
  by (cases m) auto

lemma scan_error_checked: "(\<And>c'. scan_error (k c')) \<Longrightarrow> scan_error (checked CtxEnded c k)"
  by (auto simp: checked_def split: prod.splits)

lemma scan_error_space: "scan_error (raw_space d s)"
  by (induction d s rule: raw_space.induct) (subst raw_space.simps, simp add: scan_error_checked)

lemma scan_error_word: "scan_error (raw_word d w s)"
  by (induction d w s rule: raw_word.induct) (auto split: prod.splits bool.splits)

lemma scan_error_hex: "scan_error (raw_hex d k s)"
  by (induction d k s rule: raw_hex.induct) (auto simp: Let_def)

lemma scan_error_text_loop: "scan_error (raw_text_loop d s)"
proof (induction d s rule: raw_text_loop.induct)
  case (1 d s)
  have h: "scan_error (sbind (raw_hex d 4 s2) (\<lambda>s3. raw_text_loop d s3))"
    if "\<And>s3. raw_hex d 4 s2 = Inr s3 \<Longrightarrow> scan_error (raw_text_loop d s3)" for s2
    using that scan_error_hex [of d 4 s2] by (cases "raw_hex d 4 s2") auto
  show ?case
    using 1 by (subst raw_text_loop.simps) (auto simp: Let_def intro!: scan_error_checked h)
qed

lemma scan_error_text: "scan_error (raw_text d s)"
  by (simp add: raw_text_def scan_error_text_loop split: prod.splits bool.splits)

lemma scan_error_digits_loop: "scan_error (raw_digits_loop d s)"
  by (induction d s rule: raw_digits_loop.induct) (subst raw_digits_loop.simps, simp add: scan_error_checked)

lemma scan_error_digits: "scan_error (raw_digits d s)"
  by (auto simp: raw_digits_def intro!: scan_error_sbind scan_error_digits_loop)

lemma scan_error_number: "scan_error (raw_number d s)"
  by (auto simp: raw_number_def raw_int_def raw_frac_def raw_exp_def Let_def scan_error_digits
      intro!: scan_error_sbind split: prod.splits bool.splits)

lemma scan_error_run: "scan_error (raw_run f m d k s)"
proof (induction f arbitrary: m k s)
  case (Suc f)
  show ?case
  proof (cases m)
    case RValue
    then show ?thesis
      unfolding raw_run.simps RValue raw_method.case raw_value_body_def Let_def
      by (auto intro!: scan_error_checked scan_error_sbind scan_error_space scan_error_text Suc scan_error_word
          scan_error_number simp del: raw_word.simps)
  next
    case RObject
    then show ?thesis
      by (auto simp: raw_object_body_def intro!: scan_error_sbind scan_error_space Suc split: prod.splits bool.splits)
  next
    case RMembers
    then show ?thesis
      by (auto simp: raw_members_body_def intro!: scan_error_sbind scan_error_text scan_error_space Suc
          split: prod.splits bool.splits)
  next
    case RArray
    then show ?thesis
      by (auto simp: raw_array_body_def intro!: scan_error_sbind scan_error_space Suc split: prod.splits bool.splits)
  next
    case RElements
    then show ?thesis
      by (auto simp: raw_elements_body_def intro!: scan_error_sbind scan_error_space Suc split: prod.splits bool.splits)
  qed
qed simp

lemma scan_error_validate: "scan_error (validate_raw c r)"
  unfolding validate_raw_def
  by (auto intro!: scan_error_sbind scan_error_run scan_error_space scan_error_checked)

lemma calm_raw_message: "calm (raw_message E x)"
proof (rule calmI)
  fix s :: "('a, 'b) wst"
  show "w_budget (snd (raw_message E x s)) = w_budget s \<and> fst (raw_message E x s) \<noteq> Some LedgerPanic"
    using scan_error_validate
    by (auto simp: raw_message_def scan_error_def calmE [OF calm_literal] calmE [OF calm_count_raw]
        calmE [OF calm_raw_loop] split: option.split sum.split)
qed

subsection \<open>Steps that return what they borrow\<close>

definition ledger_safe :: "('b \<Rightarrow> bool) \<Rightarrow> ('b \<Rightarrow> int) \<Rightarrow> ('w, 'b) wst act \<Rightarrow> bool" where
  "ledger_safe iv held a =
     (\<forall>s. iv (w_budget s) \<longrightarrow> iv (w_budget (snd (a s))) \<and> held (w_budget (snd (a s))) = held (w_budget s) \<and>
        fst (a s) \<noteq> Some LedgerPanic)"

lemma ledger_safeI:
  "(\<And>s. iv (w_budget s) \<Longrightarrow> iv (w_budget (snd (a s))) \<and> held (w_budget (snd (a s))) = held (w_budget s) \<and>
     fst (a s) \<noteq> Some LedgerPanic) \<Longrightarrow> ledger_safe iv held a"
  by (simp add: ledger_safe_def)

lemma ledger_safeD:
  "\<lbrakk>ledger_safe iv held a; a s = (e, s'); iv (w_budget s)\<rbrakk>
   \<Longrightarrow> iv (w_budget s') \<and> held (w_budget s') = held (w_budget s) \<and> e \<noteq> Some LedgerPanic"
  unfolding ledger_safe_def by (metis fst_conv snd_conv)

lemma calm_ledger_safe: "calm a \<Longrightarrow> ledger_safe iv held a"
  by (simp add: calm_def ledger_safe_def)

lemma ledger_safe_run_all: "\<forall>a\<in>set as. ledger_safe iv held a \<Longrightarrow> ledger_safe iv held (run_all as)"
proof (induction as)
  case Nil
  then show ?case by (simp add: ledger_safe_def)
next
  case (Cons a as)
  then have c: "ledger_safe iv held a" "ledger_safe iv held (run_all as)" by simp_all
  show ?case
  proof (rule ledger_safeI)
    fix s :: "('a, 'b) wst" assume i: "iv (w_budget s)"
    obtain e s1 where a: "a s = (e, s1)" by (cases "a s")
    obtain e2 s2 where b: "run_all as s1 = (e2, s2)" by (cases "run_all as s1")
    note 1 = ledger_safeD [OF c(1) a i]
    show "iv (w_budget (snd (run_all (a # as) s))) \<and>
        held (w_budget (snd (run_all (a # as) s))) = held (w_budget s) \<and>
        fst (run_all (a # as) s) \<noteq> Some LedgerPanic"
      using 1 ledger_safeD [OF c(2) b] a b by (auto split: option.split)
  qed
qed

lemma ledger_safe_if:
  "ledger_safe iv held a \<Longrightarrow> ledger_safe iv held b \<Longrightarrow> ledger_safe iv held (\<lambda>s. if P s then a s else b s)"
  by (simp add: ledger_safe_def)

context memory_budget
begin

text \<open>A reservation with its deferred release, around steps that return what they borrow.\<close>

lemma charge_safe:
  fixes E :: "('w, 's) wenv"
  assumes "e_rsv E = rsv" "e_rel E = rel" "ledger_safe inv held body"
  shows "ledger_safe inv held (with_charge E n body)"
proof (rule ledger_safeI)
  fix s :: "('w, 's) wst" assume i: "inv (w_budget s)"
  obtain g b where r: "rsv n (w_budget s) = Some (g, b)" "inv b" using rsv_total [OF i] by blast
  show "inv (w_budget (snd (with_charge E n body s))) \<and>
      held (w_budget (snd (with_charge E n body s))) = held (w_budget s) \<and>
      fst (with_charge E n body s) \<noteq> Some LedgerPanic"
  proof (cases g)
    case False
    then show ?thesis using r rsv_refused [OF i] assms(1) by (simp add: with_charge_def)
  next
    case True
    obtain e s1 where b: "body (s\<lparr>w_budget := b\<rparr>) = (e, s1)" by (cases "body (s\<lparr>w_budget := b\<rparr>)")
    have 1: "inv (w_budget s1) \<and> held (w_budget s1) = held b \<and> e \<noteq> Some LedgerPanic"
      using ledger_safeD [OF assms(3) b] r by simp
    then obtain b' where "rel n (w_budget s1) = Some b'" "inv b'" "held b' = held (w_budget s)"
      using reserve_release_balanced [OF i, of n b "w_budget s1"] r True by auto
    then show ?thesis using r True assms(1,2) b 1 by (simp add: with_charge_def)
  qed
qed

text \<open>The traversal returns what it borrows, by induction on the value.\<close>

lemma items_safe:
  "\<forall>a\<in>set as. ledger_safe inv held a \<Longrightarrow> a \<in> set (items E first as) \<Longrightarrow> ledger_safe inv held a"
  by (induction as arbitrary: first) (auto simp: calm_ledger_safe [OF calm_punctuation] split: if_splits)

lemma polled_items_safe:
  "\<forall>a\<in>set as. ledger_safe inv held a \<Longrightarrow> a \<in> set (polled_items E first as) \<Longrightarrow> ledger_safe inv held a"
  by (induction as arbitrary: first)
    (auto simp: calm_ledger_safe [OF calm_punctuation] calm_ledger_safe [OF calm_poll] split: if_splits)

lemma entry_safe: "ledger_safe inv held a \<Longrightarrow> ledger_safe inv held (entry E k a)"
  unfolding entry_def
  by (rule ledger_safe_run_all) (simp add: calm_ledger_safe [OF calm_quoted_text] calm_ledger_safe [OF calm_punctuation])

lemma polls_safe: "ledger_safe inv held (polls n :: ('w, 's) wst act)"
proof (induction n)
  case 0
  show ?case by (rule ledger_safeI) simp
next
  case (Suc n)
  have "ledger_safe inv held (run_all [poll, polls n :: ('w, 's) wst act])"
    by (rule ledger_safe_run_all) (simp add: Suc calm_ledger_safe [OF calm_poll])
  moreover have "polls (Suc n) = run_all [poll, polls n :: ('w, 's) wst act]" by (simp add: fun_eq_iff)
  ultimately show ?case by (simp only:)
qed

lemma sequence_safe: "\<forall>a\<in>set as. ledger_safe inv held a \<Longrightarrow> ledger_safe inv held (sequence_of E as)"
  unfolding sequence_of_def
  by (rule ledger_safe_run_all) (auto simp: calm_ledger_safe [OF calm_punctuation] dest: items_safe)

lemma object_safe:
  assumes "e_rsv E = rsv" "e_rel E = rel" "\<forall>(k, a)\<in>set kas. ledger_safe inv held a"
  shows "ledger_safe inv held (object_of E sk kas)"
proof -
  have e: "\<forall>a\<in>set (map (\<lambda>(k, a). entry E k a) xs). ledger_safe inv held a" if "set xs \<subseteq> set kas" for xs
    using that assms(3) by (fastforce intro: entry_safe)
  have c: "ledger_safe inv held (run_all (items E True (map (\<lambda>(k, a). entry E k a) kas) @ [punctuation E ''}'']))"
    by (rule ledger_safe_run_all) (use items_safe [OF e] calm_ledger_safe [OF calm_punctuation] in auto)
  have st: "ledger_safe inv held (run_all ([polls (length kas), polls (e_polls E (map fst kas))] @
           polled_items E True (map (\<lambda>(k, a). entry E k a) (sort_key fst kas)) @ [punctuation E ''}'']))"
    by (rule ledger_safe_run_all)
      (use polled_items_safe [OF e [of "sort_key fst kas"]] calm_ledger_safe [OF calm_punctuation] polls_safe in auto)
  have so: "ledger_safe inv held (stream_object E kas)"
    unfolding stream_object_def using charge_safe [OF assms(1,2) st]
    by (simp add: calm_ledger_safe [OF calm_fail] del: run_all.simps)
  have "ledger_safe inv held (run_all [punctuation E ''{'', \<lambda>s. if w_left s = None then stream_object E kas s
     else run_all (items E True (map (\<lambda>(k, a). entry E k a) kas) @ [punctuation E ''}'']) s])"
    by (rule ledger_safe_run_all)
      (use ledger_safe_if [OF so c] calm_ledger_safe [OF calm_punctuation] in auto)
  then show ?thesis unfolding object_of_def by (simp add: calm_ledger_safe [OF calm_fail] del: run_all.simps)
qed

lemma field_items_safe:
  "\<forall>a\<in>set as. \<forall>q. ledger_safe inv held (a q) \<Longrightarrow> x \<in> set (field_items E first plan as) \<Longrightarrow>
   \<forall>e. Inl e \<in> set plan \<longrightarrow> e \<noteq> LedgerPanic \<Longrightarrow> ledger_safe inv held x"
  by (induction E first plan as rule: field_items.induct)
    (auto simp: calm_ledger_safe [OF calm_punctuation] calm_ledger_safe [OF calm_fail] entry_safe
      split: sum.splits option.splits if_splits)

lemma structure_safe:
  assumes "e_rsv E = rsv" "e_rel E = rel" "\<forall>a\<in>set as. \<forall>q. ledger_safe inv held (a q)"
    and "\<forall>e. Inl e \<in> set plan \<longrightarrow> e \<noteq> LedgerPanic"
  shows "ledger_safe inv held (structure_of E plan as)"
proof -
  define body where "body = run_all (punctuation E ''{'' # field_items E True plan as @ [punctuation E ''}''])"
  have b: "ledger_safe inv held body"
    unfolding body_def
    by (rule ledger_safe_run_all)
      (use field_items_safe [OF assms(3) _ assms(4)] calm_ledger_safe [OF calm_punctuation] in auto)
  show ?thesis
    unfolding structure_of_def body_def [symmetric] Let_def
    using ledger_safe_if [OF charge_safe [OF assms(1,2) b] b] by (simp add: calm_ledger_safe [OF calm_fail])
qed

lemma native_safe:
  fixes body :: "('w, 's) wst act"
  shows "ledger_safe inv held body \<Longrightarrow> ledger_safe inv held (native_import valid body)"
proof (rule ledger_safeI)
  fix s :: "('w, 's) wst" assume b: "ledger_safe inv held body" and i: "inv (w_budget s)"
  obtain e s1 where b1: "body (s\<lparr>w_left := Some native_limit\<rparr>) = (e, s1)" by (cases "body (s\<lparr>w_left := Some native_limit\<rparr>)")
  obtain e2 s2 where b2: "body (s1\<lparr>w_left := None\<rparr>) = (e2, s2)" by (cases "body (s1\<lparr>w_left := None\<rparr>)")
  note 1 = ledger_safeD [OF b b1]
  note 2 = ledger_safeD [OF b b2]
  show "inv (w_budget (snd (native_import valid body s))) \<and>
      held (w_budget (snd (native_import valid body s))) = held (w_budget s) \<and>
      fst (native_import valid body s) \<noteq> Some LedgerPanic"
    using 1 2 i b1 b2
    by (auto simp: native_import_def calmE [OF calm_add] split: option.split)
qed

lemma field_no_panic: "field f v \<noteq> Inl LedgerPanic"
proof -
  have "wire_zero z v \<noteq> Inl LedgerPanic" for z by (cases v) auto
  then show ?thesis by (auto simp: field_def Let_def sbind_Inl_conv split: prod.splits if_splits)
qed

lemma fields_no_panic: "\<forall>e. Inl e \<in> set (map (\<lambda>(f, v). field f v) fs) \<longrightarrow> e \<noteq> LedgerPanic"
  using field_no_panic by (auto simp: image_iff) metis

lemma entering_safe: "ledger_safe inv held a \<Longrightarrow> ledger_safe inv held (entering d a)"
  unfolding entering_def
  by (rule ledger_safe_run_all) (simp add: calm_ledger_safe [OF calm_poll] calm_ledger_safe [OF calm_fail])

lemma tvalue_safe:
  assumes "e_rsv E = rsv" "e_rel E = rel"
  shows "ledger_safe inv held (tvalue E v d q)"
proof (induction v arbitrary: d q)
  case (GBytes x)
  show ?case
    using calm_if [OF calm_add calm_base64, of "\<lambda>s. w_left s \<noteq> None" "2 + (int (length x) + 2) div 3 * 4" E x]
    by (simp add: entering_safe calm_ledger_safe)
next
  case (GSlice vs)
  then show ?case by (auto intro!: entering_safe sequence_safe)
next
  case (GArray vs)
  then show ?case by (auto intro!: entering_safe sequence_safe)
next
  case (GMap sk kvs)
  then have "\<forall>(k, a)\<in>set (map (\<lambda>(k, a). (k, a (Suc d) False)) (map (map_prod id (tvalue E)) kvs)). ledger_safe inv held a"
    by (auto simp: snds.simps)
  then show ?case unfolding tvalue.simps by (intro entering_safe object_safe assms)
next
  case (GStruct fs)
  then have "\<forall>a\<in>set (map (\<lambda>(f, a). a (Suc d)) (map (map_prod id (tvalue E)) fs)). \<forall>q. ledger_safe inv held (a q)"
    by (auto simp: snds.simps)
  then show ?case unfolding tvalue.simps by (intro entering_safe structure_safe assms fields_no_panic)
next
  case (GNativeImport valid fs)
  then have "\<forall>a\<in>set (map (\<lambda>(f, a). a (Suc d)) (map (map_prod id (tvalue E)) fs)). \<forall>q. ledger_safe inv held (a q)"
    by (auto simp: snds.simps)
  then show ?case unfolding tvalue.simps by (intro entering_safe native_safe structure_safe assms fields_no_panic)
next
  case (GTime z rz t)
  then show ?case
    by (cases t) (simp_all add: entering_safe calm_ledger_safe [OF calm_fail] calm_ledger_safe [OF calm_literal])
next
  case (GBatch x)
  then show ?case
    by (cases x) (simp_all add: entering_safe calm_ledger_safe [OF calm_fail] calm_ledger_safe [OF calm_quoted_text])
qed (simp_all add: entering_safe calm_ledger_safe calm_literal calm_scalar floating_def calm_fail calm_quoted_text
    calm_quoted_string calm_number calm_raw_message)

lemma bound_safe:
  assumes "e_rsv E = rsv" "e_rel E = rel" "bound E v n s = (r, s')" "inv (w_budget s)"
  shows "inv (w_budget s') \<and> held (w_budget s') = held (w_budget s) \<and> snd r \<noteq> Some LedgerPanic"
proof -
  obtain e s1 where t: "tvalue E v 0 False (s\<lparr>w_left := Some n\<rparr>) = (e, s1)"
    by (cases "tvalue E v 0 False (s\<lparr>w_left := Some n\<rparr>)")
  show ?thesis using ledger_safeD [OF tvalue_safe [OF assms(1,2)] t] assms(3,4) t by (auto simp: bound_def)
qed

lemma encode_body_safe:
  fixes E :: "('w, 's) wenv"
  assumes "e_rsv E = rsv" "e_rel E = rel"
  shows "ledger_safe inv held (encode_body E v)"
proof (rule ledger_safeI)
  fix s :: "('w, 's) wst" assume i: "inv (w_budget s)"
  obtain n e s1 where b: "bound E v max_int64 s = ((n, e), s1)" by (metis prod.exhaust)
  have 1: "inv (w_budget s1) \<and> held (w_budget s1) = held (w_budget s) \<and> e \<noteq> Some LedgerPanic"
    using bound_safe [OF assms b i] by simp
  have st: "ledger_safe inv held (run_all [tvalue E v 0 False, stream_text E [CHR 0x0A], flush E])"
    by (rule ledger_safe_run_all)
      (simp add: tvalue_safe assms calm_ledger_safe [OF calm_text] calm_ledger_safe [OF calm_flush])
  obtain e2 s2 where r: "run_all [tvalue E v 0 False, stream_text E [CHR 0x0A], flush E]
      (s1\<lparr>w_buf := [], w_left := None\<rparr>) = (e2, s2)" by (metis prod.exhaust)
  show "inv (w_budget (snd (encode_body E v s))) \<and> held (w_budget (snd (encode_body E v s))) = held (w_budget s) \<and>
      fst (encode_body E v s) \<noteq> Some LedgerPanic"
    using 1 ledger_safeD [OF st r] r b unfolding encode_body_def
    by (auto simp del: run_all.simps split: option.split)
qed

lemma encode_balanced:
  assumes "e_rsv E = rsv" "e_rel E = rel" "inv b" "encode E v c w (Some b) = (e, w', b')"
  shows "e \<noteq> Some LedgerPanic \<and> (\<exists>b1. b' = Some b1 \<and> inv b1 \<and> held b1 = held b)"
proof -
  define s where "s = \<lparr>w_ctx = c, w_left = None, w_buf = [], w_writer = w, w_budget = b\<rparr>"
  obtain e1 s1 where r: "with_charge E scratch (encode_body E v) s = (e1, s1)"
    by (cases "with_charge E scratch (encode_body E v) s")
  show ?thesis
    using ledger_safeD [OF charge_safe [OF assms(1,2) encode_body_safe [OF assms(1,2)]] r] assms(3,4) r
    by (auto simp: encode_def s_def)
qed

end


subsection \<open>What reaches the writer\<close>

lemma with_charge_granted:
  assumes "e_rsv E n (w_budget s) = Some (True, b1)" "with_charge E n body s = (x, t)"
    and "body (s\<lparr>w_budget := b1\<rparr>) = (y, t1)"
  shows "w_writer t = w_writer t1" "x = None \<longrightarrow> y = None"
  using assms by (auto simp: with_charge_def split: option.splits)

lemma encode_SomeE:
  fixes E :: "('w, 'b) wenv" and b :: 'b
  assumes "encode E v c w (Some b) = (e, w', b')"
  obtains (refused) "w' = w" "e \<noteq> None"
  | (bounded) b1 n s1 x where "e_rsv E scratch b = Some (True, b1)" "w' = w" "e \<noteq> None"
      "bound E v max_int64 \<lparr>w_ctx = c, w_left = None, w_buf = [], w_writer = w, w_budget = b1\<rparr> = ((n, Some x), s1)"
  | (streamed) b1 n s1 e2 s2 where "e_rsv E scratch b = Some (True, b1)"
      "bound E v max_int64 \<lparr>w_ctx = c, w_left = None, w_buf = [], w_writer = w, w_budget = b1\<rparr> = ((n, None), s1)"
      "run_all [tvalue E v 0 False, stream_text E [CHR 0x0A], flush E] (s1\<lparr>w_buf := [], w_left := None\<rparr>) = (e2, s2)"
      "w' = w_writer s2" "w_writer s1 = w" "e = None \<longrightarrow> e2 = None"
proof -
  define s where "s = (\<lambda>b1 :: 'b. \<lparr>w_ctx = c, w_left = None, w_buf = [], w_writer = w, w_budget = b1\<rparr>)"
  have q: "w_writer s1 = w" if bd: "bound E v max_int64 (s b1) = (r, s1)" for b1 r s1
  proof -
    obtain e0 s0 where t: "tvalue E v 0 False ((s b1)\<lparr>w_left := Some max_int64\<rparr>) = (e0, s0)"
      by (cases "tvalue E v 0 False ((s b1)\<lparr>w_left := Some max_int64\<rparr>)")
    have "quiet_from ((s b1)\<lparr>w_left := Some max_int64\<rparr>) s0" by (rule quietD [OF quiet_tvalue t])
    then show ?thesis using bd t by (auto simp: bound_def quiet_from_def s_def)
  qed
  have en: "(let (e, t) = with_charge E scratch (encode_body E v) (s b) in (e, w_writer t, Some (w_budget t))) = (e, w', b')"
    using assms by (simp add: encode_def s_def)
  obtain x t where wc: "with_charge E scratch (encode_body E v) (s b) = (x, t)" "e = x" "w' = w_writer t"
    using en by (auto simp: Let_def split: prod.splits)
  show thesis
  proof (cases "e_rsv E scratch b")
    case None
    then show thesis using wc refused by (auto simp: with_charge_def s_def)
  next
    case (Some gb)
    obtain g b1 where gb: "gb = (g, b1)" by (cases gb)
    show thesis
    proof (cases g)
      case False
      then show thesis using wc Some gb refused by (auto simp: with_charge_def s_def)
    next
      case True
      have sb: "(s b)\<lparr>w_budget := b1\<rparr> = s b1" by (simp add: s_def)
      obtain y t1 where body: "encode_body E v (s b1) = (y, t1)" by (cases "encode_body E v (s b1)")
      have ex: "w' = w_writer t1" "e = None \<longrightarrow> y = None"
        using with_charge_granted [of E scratch "s b" b1 "encode_body E v" x t y t1] wc Some gb True body sb
        by (auto simp: s_def)
      obtain n z s1 where bd: "bound E v max_int64 (s b1) = ((n, z), s1)" by (metis prod.exhaust)
      show thesis
      proof (cases z)
        case (Some x2)
        then have "y = Some x2" "t1 = s1" using body bd by (simp_all add: encode_body_def)
        then show thesis using bounded [of b1 n x2 s1] \<open>e_rsv E scratch b = Some gb\<close> gb True ex q [OF bd] bd Some
          by (auto simp: s_def)
      next
        case None
        then have "run_all [tvalue E v 0 False, stream_text E [CHR 0x0A], flush E] (s1\<lparr>w_buf := [], w_left := None\<rparr>) = (y, t1)"
          using body bd by (simp add: encode_body_def del: run_all.simps)
        then show thesis using streamed [of b1 n s1 y t1] \<open>e_rsv E scratch b = Some gb\<close> gb True ex q [OF bd] bd None
          by (auto simp: s_def simp del: run_all.simps)
      qed
    qed
  qed
qed


subsection \<open>Properties\<close>


definition demo_env :: "(bytes, rheap) wenv" where
  "demo_env = \<lparr>e_write = (\<lambda>w b. ((length b, False), w @ b)), e_rsv = handle_reserve 0, e_rel = handle_release 0,
     e_polls = length, e_float = (\<lambda>neg m fmt bits. ''0.5'')\<rparr>"

definition wire_heap :: rheap where
  "wire_heap = \<lparr>budgets = [\<lparr>captured = None, limit = 1048576, bd_used = 0, peak = 0,
      unscopedUsed = 0, bd_scope = None\<rparr>], scopes = [],
      owners = [\<lparr>ow_budget = Some 0, ow_scope = None, ow_used = 0\<rparr>]\<rparr>"

definition demo_value :: gv where
  "demo_value = GSlice [GBool True, GRef (GInt (- 7)), GNil]"

lemma stream_text_short:
  assumes "w_ctx s = Background" "str \<noteq> []" "length (w_buf s) + length str < buffer_size"
  shows "stream_text E str s = (None, s\<lparr>w_buf := w_buf s @ str\<rparr>)"
proof -
  have "text_round E str s = (None, s\<lparr>w_buf := w_buf s @ str\<rparr>)"
    using assms by (simp add: text_round_def poll_def)
  then show ?thesis
    using assms by (subst stream_text.simps) (simp add: stream_text.simps)
qed

lemmas demo_simps = tvalue.simps entering_def poll_def scalar_def literal_def punctuation_def count_add_def
  sequence_of_def format_bool_def format_int_def dec_nat.simps demo_value_def stream_text_short buffer_size_def

lemma demo_bound:
  "bound E demo_value l s =
     ((33, None), s)" if "w_ctx s = Background" "33 \<le> l"
  using that by (cases s) (simp add: bound_def demo_simps)

lemma demo_stream:
  "w_ctx s = Background \<Longrightarrow> w_left s = None \<Longrightarrow> w_buf s = [] \<Longrightarrow>
   tvalue E demo_value 0 False s = (None, s\<lparr>w_buf := ''[true,-7,null]''\<rparr>)"
  by (cases s) (simp add: demo_simps char_of_def bit_0)

lemma demo_writer_ok: "writer_ok demo_env (\<lambda>w. w)"
  by (simp add: writer_ok_def demo_env_def)

lemma demo_encode: "\<exists>b'. encode demo_env demo_value Background [] (Some wire_heap) =
    (None, ''[true,-7,null]'' @ [CHR 0x0A], b')"
proof -
  obtain b1 where r: "handle_reserve 0 scratch wire_heap = Some (True, b1)"
    by (simp add: handle_reserve_def reserve_def wire_heap_def scratch_def)
  obtain b2 where l: "handle_release 0 scratch b1 = Some b2"
    using r by (auto simp: handle_reserve_def reserve_def handle_release_def release_def wire_heap_def scratch_def
        upd_scope_opt_def upd_owner_def upd_budget_def)
  show ?thesis
    using r l
    by (simp add: encode_def with_charge_def encode_body_def demo_bound demo_stream max_int64_def stream_text_short
        buffer_size_def flush_def poll_def demo_env_def)
qed


text \<open>
  Claim C27. \<open>Bound\<close> never understates: when it accepts a value, the number it returns is at least the
  length of the value's wire text, so a reservation of that size covers the encoded bytes. This needs
  the sizes the code assumes of scalars (64-bit integers, 24 bytes for a float, 37 for a time).
\<close>

theorem bound_covers_wire:
  assumes "writer_ok E recv" and "gv_ok E v" and "bound E v l s = ((n, None), s')"
  shows "int (length (wire E v False)) \<le> n"
proof -
  obtain s1 where t: "tvalue E v 0 False (s\<lparr>w_left := Some l\<rparr>) = (None, s1)" "n = l - the (w_left s1)"
    using assms(3) by (auto simp: bound_def Let_def split: prod.splits)
  then show ?thesis
    using writes_count [OF writes_tvalue [OF assms(1), of True v] t(1)] assms(2) by auto
qed

definition demo_state :: "(bytes, rheap) wst" where
  "demo_state = \<lparr>w_ctx = Background, w_left = None, w_buf = [], w_writer = [], w_budget = wire_heap\<rparr>"

theorem bound_covers_wire_witness:
  "bound demo_env demo_value 100 demo_state = ((33, None), demo_state) \<and>
   int (length (wire demo_env demo_value False)) \<le> 33"
proof -
  have b: "bound demo_env demo_value 100 demo_state = ((33, None), demo_state)"
    by (rule demo_bound) (simp_all add: demo_state_def)
  have "gv_ok demo_env demo_value" by (simp add: demo_value_def)
  from bound_covers_wire [OF demo_writer_ok this b] b show ?thesis by blast
qed

text \<open>
  Claim C32. The 24 bytes the bound allows for a float are not enough. For -1.2345678901234567e-6,
  which the code formats in the 'f' style because its magnitude is not below 1e-6, \<open>FormatFloat\<close>
  gives 25 bytes, so \<open>Bound\<close> accepts the value with a limit that its wire text exceeds.
\<close>

definition small_float :: rat where
  "small_float = 5830082025146107 / 4722366482869645213696"

theorem bound_float_understated:
  assumes "e_float E True small_float (CHR ''f'') 64 = ''-0.0000012345678901234567''"
  shows "fst (bound E (GFloat 64 True small_float) 24 (s\<lparr>w_ctx := Background\<rparr>)) = (24, None) \<and>
    length (wire E (GFloat 64 True small_float) False) = 25"
proof -
  have f: "float_format 64 small_float = CHR ''f''"
    by (simp add: float_format_def small_float_def float_small_def float_large_def)
  have t: "float_text E 64 True small_float = ''-0.0000012345678901234567''"
    by (simp add: float_text_def f assms)
  have b: "fst (bound E (GFloat 64 True small_float) 24 (s\<lparr>w_ctx := Background\<rparr>)) = (24, None)"
    by (simp add: bound_def entering_def poll_def floating_def scalar_def literal_def count_add_def)
  show ?thesis using b by (simp add: wire_scalar_def t)
qed

theorem bound_float_understated_witness:
  "fst (bound (demo_env\<lparr>e_float := \<lambda>neg m fmt bits. ''-0.0000012345678901234567''\<rparr>) (GFloat 64 True small_float) 24
     demo_state) = (24, None) \<and>
   length (wire (demo_env\<lparr>e_float := \<lambda>neg m fmt bits. ''-0.0000012345678901234567''\<rparr>) (GFloat 64 True small_float) False) = 25"
proof -
  have "demo_state\<lparr>w_ctx := Background\<rparr> = demo_state" by (simp add: demo_state_def)
  then show ?thesis
    using bound_float_understated [of "demo_env\<lparr>e_float := \<lambda>neg m fmt bits. ''-0.0000012345678901234567''\<rparr>" demo_state]
    by simp
qed

text \<open>
  Claim C26. Whatever the value, the writer and the moment the context ends, \<open>Encode\<close> on a
  reservation of the shared ledger never panics on a release and leaves the reservation holding
  exactly what it held: the scratch, and every struct's and map's charge, is returned on success, on
  refusal, on a failed write and on cancellation.
\<close>

theorem encode_returns_ledger:
  assumes "rb_reach h Es" and "r < length (owners h)" and "ow_budget (owners h ! r) \<noteq> None"
    and "e_rsv E = handle_reserve r" and "e_rel E = handle_release r"
    and "encode E v c w (Some h) = (e, w', b')"
  shows "e \<noteq> Some LedgerPanic \<and> (\<exists>h'. b' = Some h' \<and> ledger_inv h' \<and> handle_held r h' = handle_held r h)"
proof -
  have "handle_inv r h" using rb_reach_inv [OF assms(1)] assms(2,3) by (simp add: handle_inv_def)
  from handle.encode_balanced [OF assms(4,5) this assms(6)] show ?thesis by (auto simp: handle_inv_def)
qed

lemma wire_heap_reach: "rb_reach wire_heap []"
proof -
  have "rb_reach (snd (new_native_read_budget 1048576 empty_heap)) []"
    by (rule rb_new [OF rb_init surjective_pairing])
  then have "rb_reach \<lparr>budgets = [\<lparr>captured = None, limit = 1048576, bd_used = 0, peak = 0,
      unscopedUsed = 0, bd_scope = None\<rparr>], scopes = [], owners = []\<rparr> []"
    by (simp add: new_native_read_budget_def empty_heap_def)
  then show ?thesis
    by (rule rb_reservation [where bp = "Some 0"]) (simp_all add: reservation_of_def alloc_owner_def wire_heap_def)
qed

theorem encode_returns_ledger_witness:
  "\<exists>e w' h'. encode demo_env demo_value (EndsAfter 12) [] (Some wire_heap) = (e, w', Some h') \<and>
     e \<noteq> Some LedgerPanic \<and> handle_held 0 h' = 0"
proof -
  obtain e w' b' where en: "encode demo_env demo_value (EndsAfter 12) [] (Some wire_heap) = (e, w', b')"
    by (metis prod.exhaust)
  have "e \<noteq> Some LedgerPanic \<and> (\<exists>h'. b' = Some h' \<and> ledger_inv h' \<and> handle_held 0 h' = handle_held 0 wire_heap)"
    by (rule encode_returns_ledger [OF wire_heap_reach _ _ _ _ en]) (simp_all add: wire_heap_def demo_env_def)
  then show ?thesis using en by (auto simp: handle_held_def wire_heap_def)
qed

text \<open>
  \<open>Encode\<close> calls the writer only for a value its preflight has accepted: when anything
  was written at all, the scratch had been granted and \<open>Bound\<close> had succeeded on the same value.
\<close>

lemma encode_preflights:
  assumes "encode E v c w (Some b) = (e, w', b')" and "w' \<noteq> w"
  shows "\<exists>b1 n s1. e_rsv E scratch b = Some (True, b1) \<and>
    bound E v max_int64 \<lparr>w_ctx = c, w_left = None, w_buf = [], w_writer = w, w_budget = b1\<rparr> = ((n, None), s1)"
  using assms(1)
proof (cases rule: encode_SomeE)
  case (streamed b1 n s1 e2 s2)
  then show ?thesis by blast
qed (use assms(2) in simp_all)

end
