(* ===== verification/CatalogTree.thy ===== *)
theory CatalogTree
  imports GoText
begin

text \<open>
  \<open>internal/catalog/tree.go\<close>: the catalog's immutable search trees, kept as content-addressed JSON
  objects in the provider's bucket. A step takes the provider's state to a result and the next
  state, since a failed update has already written some nodes. The provider consumes one \<open>fault\<close> per
  call, so a theorem over all fault lists covers every failed or unacknowledged call; an object,
  once written, is only ever read again or found present (\<open>PutConditional\<close> with \<open>CreateOnly\<close>).
  \<open>cenv\<close> holds SHA-256 and \<open>encoding/json\<close> on nodes.
\<close>

subsection \<open>Data\<close>

record objref =
  rkey :: bytes
  rsha :: bytes

record item =
  ikey :: bytes
  ival :: bytes

record branch =
  bmax :: bytes
  bref :: objref
  bcount :: nat

record node =
  ncount :: nat
  leaves :: "item list"
  children :: "branch list"

datatype cat_error = ErrIncompleteRef | ErrBadChecksum | ErrRefRequired | ErrNotFound | ErrTooLarge
  | ErrChecksumMismatch | ErrProvider | ErrPrecondition | ErrAdmissionClosed | ErrDecode | ErrInvalidNode
  | ErrLeafOrder | ErrBranchOrder | ErrCountOverflow | ErrNodeCount | ErrDepth | ErrKeyBound | ErrEncode

record cenv =
  c_sha :: "bytes \<Rightarrow> bytes"
  c_enc :: "node \<Rightarrow> bytes"
  c_dec :: "bytes \<Rightarrow> node option"

text \<open>
  \<open>Fine\<close>: the call is carried out. \<open>Lost\<close>: an error, nothing done. \<open>LostAfter\<close>: an error although a
  write was carried out.
\<close>

datatype fault = Fine | Lost | LostAfter

record prov =
  objs :: "bytes \<rightharpoonup> bytes"
  faults :: "fault list"

type_synonym 'a op = "prov \<Rightarrow> (cat_error + 'a) \<times> prov"

subsection \<open>References and the provider\<close>

definition is_hex :: "char \<Rightarrow> bool" where
  "is_hex c = (c \<in> set ''0123456789abcdefABCDEF'')"

definition ref_validate :: "objref \<Rightarrow> cat_error + unit" where
  "ref_validate ref =
     (if rkey ref = [] \<and> rsha ref = [] then Inr ()
      else if rkey ref = [] \<or> length (rsha ref) \<noteq> 64 then Inl ErrIncompleteRef
      else if \<not> list_all is_hex (rsha ref) then Inl ErrBadChecksum
      else Inr ())"

definition next_fault :: "prov \<Rightarrow> fault \<times> prov" where
  "next_fault p = (case faults p of [] \<Rightarrow> (Fine, p) | f # fs \<Rightarrow> (f, p\<lparr>faults := fs\<rparr>))"

text \<open>\<open>checkWriteAuthority\<close> reads the coordinator; here it grants or refuses as the provider wills.\<close>

definition check_write_authority :: "unit op" where
  "check_write_authority p =
     (case next_fault p of (Fine, p') \<Rightarrow> (Inr (), p') | (_, p') \<Rightarrow> (Inl ErrAdmissionClosed, p'))"

definition get_limited :: "bytes \<Rightarrow> nat \<Rightarrow> bytes op" where
  "get_limited key limit p =
     (case next_fault p of
        (Fine, p') \<Rightarrow>
          (case objs p' key of
             None \<Rightarrow> (Inl ErrNotFound, p')
           | Some raw \<Rightarrow> (if length raw > limit then Inl ErrTooLarge else Inr raw, p'))
      | (_, p') \<Rightarrow> (Inl ErrProvider, p'))"

definition put_create :: "bytes \<Rightarrow> bytes \<Rightarrow> unit op" where
  "put_create key b p =
     (case next_fault p of
        (Lost, p') \<Rightarrow> (Inl ErrProvider, p')
      | (f, p') \<Rightarrow>
          (if objs p' key = None
           then (if f = Fine then Inr () else Inl ErrProvider, p'\<lparr>objs := (objs p')(key \<mapsto> b)\<rparr>)
           else (Inl ErrPrecondition, p')))"

definition max_node_bytes :: nat where
  "max_node_bytes = 131072"

definition read_ref :: "cenv \<Rightarrow> objref \<Rightarrow> nat \<Rightarrow> bytes op" where
  "read_ref C ref limit =
     andthen (lift_sum (ref_validate ref)) (\<lambda>_.
       if rkey ref = [] then raise ErrRefRequired
       else andthen (get_limited (rkey ref) limit) (\<lambda>raw.
         if length raw > limit then raise ErrTooLarge
         else if \<not> equal_fold (c_sha C raw) (rsha ref) then raise ErrChecksumMismatch
         else give raw))"

definition node_key :: "bytes \<Rightarrow> bytes" where
  "node_key digest = ''catalog-v4/nodes/'' @ digest @ ''.json''"

text \<open>\<open>putImmutableAdmitted\<close> for nodes: a failed create is settled by reading the object back.\<close>

definition put_immutable :: "cenv \<Rightarrow> bytes \<Rightarrow> objref op" where
  "put_immutable C b =
     andthen check_write_authority (\<lambda>_ p.
       (let digest = c_sha C b; ref = \<lparr>rkey = node_key digest, rsha = digest\<rparr> in
        case put_create (rkey ref) b p of
          (Inr _, p') \<Rightarrow> (Inr ref, p')
        | (Inl e, p') \<Rightarrow>
          andthen (read_ref C ref (length b)) (\<lambda>raw.
            if raw \<noteq> b then raise ErrChecksumMismatch else give ref) p'))"

definition put_json :: "cenv \<Rightarrow> node \<Rightarrow> objref op" where
  "put_json C n =
     (if length (c_enc C n) > max_node_bytes then raise ErrTooLarge else put_immutable C (c_enc C n))"

subsection \<open>Nodes\<close>

definition fanout :: nat where
  "fanout = 32"

definition max_depth :: nat where
  "max_depth = 64"

definition max_uint64 :: nat where
  "max_uint64 = 18446744073709551615"

definition node_count :: "node \<Rightarrow> nat" where
  "node_count n =
     (if children n = [] then length (leaves n)
      else foldl (\<lambda>t c. (t + bcount c) mod (max_uint64 + 1)) 0 (children n))"

fun check_leaves :: "item list \<Rightarrow> bool" where
  "check_leaves [] = True"
| "check_leaves [v] = (length (ikey v) \<le> 4096)"
| "check_leaves (v # w # r) = (length (ikey v) \<le> 4096 \<and> ikey v < ikey w \<and> check_leaves (w # r))"

text \<open>The loop over the children: the previous \<open>Max\<close> and the running total.\<close>

fun check_children :: "bytes option \<Rightarrow> nat \<Rightarrow> branch list \<Rightarrow> cat_error + unit" where
  "check_children prev acc [] = Inr ()"
| "check_children prev acc (v # r) =
     (if rkey (bref v) = [] \<or> (case prev of None \<Rightarrow> False | Some m \<Rightarrow> m \<ge> bmax v) then Inl ErrBranchOrder
      else if bcount v > max_uint64 - acc then Inl ErrCountOverflow
      else check_children (Some (bmax v)) (acc + bcount v) r)"

definition decode_node :: "cenv \<Rightarrow> bytes \<Rightarrow> cat_error + node" where
  "decode_node C raw =
     (case c_dec C raw of
        None \<Rightarrow> Inl ErrDecode
      | Some n \<Rightarrow>
          if length (leaves n) + length (children n) = 0 \<or> length (leaves n) > fanout \<or>
             length (children n) > fanout \<or> leaves n \<noteq> [] \<and> children n \<noteq> []
          then Inl ErrInvalidNode
          else if \<not> check_leaves (leaves n) then Inl ErrLeafOrder
          else sbind (check_children None 0 (children n)) (\<lambda>_.
            if ncount n \<noteq> node_count n then Inl ErrNodeCount else Inr n))"

definition empty_node :: node where
  "empty_node = \<lparr>ncount = 0, leaves = [], children = []\<rparr>"

definition read_node :: "cenv \<Rightarrow> objref \<Rightarrow> node op" where
  "read_node C ref =
     andthen (lift_sum (ref_validate ref)) (\<lambda>_.
       if rkey ref = [] then give empty_node
       else andthen (read_ref C ref max_node_bytes) (\<lambda>raw. lift_sum (decode_node C raw)))"

text \<open>\<open>sort.Search\<close>: the smallest index at which f holds, for an f that stays true.\<close>

function sort_search_loop :: "(nat \<Rightarrow> bool) \<Rightarrow> nat \<Rightarrow> nat \<Rightarrow> nat" where
  "sort_search_loop f i j =
     (if i < j
      then (let h = (i + j) div 2 in if \<not> f h then sort_search_loop f (Suc h) j else sort_search_loop f i h)
      else i)"
  by pat_completeness auto
termination by (relation "measure (\<lambda>(f, i, j). j - i)") auto

declare sort_search_loop.simps [simp del]

definition sort_search :: "nat \<Rightarrow> (nat \<Rightarrow> bool) \<Rightarrow> nat" where
  "sort_search n f = sort_search_loop f 0 n"

definition leaf_index :: "item list \<Rightarrow> bytes \<Rightarrow> nat" where
  "leaf_index ls key = sort_search (length ls) (\<lambda>i. ikey (ls ! i) \<ge> key)"

definition child_index :: "branch list \<Rightarrow> bytes \<Rightarrow> nat" where
  "child_index cs key = sort_search (length cs) (\<lambda>i. bmax (cs ! i) \<ge> key)"

subsection \<open>Operations\<close>

text \<open>\<open>lookup\<close>; the number counts the rounds of its \<open>for range maxDepth\<close> that are left.\<close>

fun lookup_rounds :: "cenv \<Rightarrow> nat \<Rightarrow> objref \<Rightarrow> bytes \<Rightarrow> bytes option op" where
  "lookup_rounds C 0 ref key = raise ErrDepth"
| "lookup_rounds C (Suc r) ref key =
     andthen (read_node C ref) (\<lambda>n.
       if children n = [] then
         (let i = leaf_index (leaves n) key in
          if i < length (leaves n) \<and> ikey (leaves n ! i) = key then give (Some (ival (leaves n ! i)))
          else give None)
       else
         (let i = child_index (children n) key in
          if i = length (children n) then give None
          else lookup_rounds C r (bref (children n ! i)) key))"

definition lookup :: "cenv \<Rightarrow> objref \<Rightarrow> bytes \<Rightarrow> bytes option op" where
  "lookup C = lookup_rounds C max_depth"

definition split_halves :: "node \<Rightarrow> nat \<Rightarrow> node \<times> node" where
  "split_halves n mid =
     (if children n \<noteq> []
      then (empty_node\<lparr>children := take mid (children n)\<rparr>, empty_node\<lparr>children := drop mid (children n)\<rparr>)
      else (empty_node\<lparr>leaves := take mid (leaves n)\<rparr>, empty_node\<lparr>leaves := drop mid (leaves n)\<rparr>))"

function split_node :: "cenv \<Rightarrow> node \<Rightarrow> cat_error + node list" where
  "split_node C n =
     (let count = length (leaves n) + length (children n) in
      if count \<le> fanout \<and> length (c_enc C n) \<le> max_node_bytes then Inr [n]
      else if count \<le> 1 then Inl ErrTooLarge
      else
        sbind (split_node C (fst (split_halves n (count div 2)))) (\<lambda>a.
        sbind (split_node C (snd (split_halves n (count div 2)))) (\<lambda>b. Inr (a @ b))))"
  by pat_completeness auto
termination
  by (relation "measure (\<lambda>(C, n). if children n = [] then length (leaves n)
        else length (leaves n) + length (children n))")
    (auto simp: split_halves_def empty_node_def)

declare split_node.simps [simp del]

definition last_key :: "node \<Rightarrow> bytes" where
  "last_key n = (if children n \<noteq> [] then bmax (last (children n)) else ikey (last (leaves n)))"

fun write_parts :: "cenv \<Rightarrow> node list \<Rightarrow> branch list op" where
  "write_parts C [] = give []"
| "write_parts C (q # qs) =
     (let q' = q\<lparr>ncount := node_count q\<rparr> in
      andthen (put_json C q') (\<lambda>ref.
        andthen (write_parts C qs) (\<lambda>out.
          give (\<lparr>bmax = last_key q', bref = ref, bcount = ncount q'\<rparr> # out))))"

definition change_leaves :: "item list \<Rightarrow> bytes \<Rightarrow> bytes option \<Rightarrow> item list" where
  "change_leaves ls key value =
     (let i = leaf_index ls key;
          ls' = (if i < length ls \<and> ikey (ls ! i) = key then take i ls @ drop (Suc i) ls else ls) in
      case value of
        None \<Rightarrow> ls'
      | Some v \<Rightarrow> take i ls' @ [\<lparr>ikey = key, ival = v\<rparr>] @ drop i ls')"

definition store_node :: "cenv \<Rightarrow> node \<Rightarrow> branch list op" where
  "store_node C n =
     (if length (leaves n) + length (children n) = 0 then give []
      else andthen (lift_sum (split_node C n)) (write_parts C))"

text \<open>\<open>change\<close>; the number counts the levels below \<open>maxDepth\<close> that are left.\<close>

fun change :: "cenv \<Rightarrow> nat \<Rightarrow> objref \<Rightarrow> bytes \<Rightarrow> bytes option \<Rightarrow> branch list op" where
  "change C 0 ref key value = raise ErrDepth"
| "change C (Suc r) ref key value =
     andthen (read_node C ref) (\<lambda>n.
       if children n = [] then store_node C (n\<lparr>leaves := change_leaves (leaves n) key value\<rparr>)
       else
         (let i0 = child_index (children n) key;
              i = (if i0 = length (children n) then i0 - 1 else i0) in
          andthen (change C r (bref (children n ! i)) key value) (\<lambda>changed.
            store_node C (n\<lparr>children := take i (children n) @ changed @ drop (Suc i) (children n)\<rparr>))))"

definition no_ref :: objref where
  "no_ref = \<lparr>rkey = [], rsha = []\<rparr>"

text \<open>\<open>update\<close>, with the encoding of the value by \<open>encodeTreeValue\<close> as an argument; no value deletes.\<close>

definition update_tree :: "cenv \<Rightarrow> objref \<Rightarrow> bytes \<Rightarrow> (cat_error + bytes) option \<Rightarrow> objref op" where
  "update_tree C ref key value =
     (if length key > 4096 then raise ErrKeyBound
      else
        andthen (case value of None \<Rightarrow> give None | Some r \<Rightarrow> andthen (lift_sum r) (\<lambda>b. give (Some b))) (\<lambda>raw.
        andthen (change C max_depth ref key raw) (\<lambda>parts.
          if parts = [] then give no_ref
          else if length parts = 1 then give (bref (hd parts))
          else
            (let n = empty_node\<lparr>children := parts\<rparr> in put_json C (n\<lparr>ncount := node_count n\<rparr>)))))"

end
