(* ===== verification/CatalogContents.thy ===== *)
theory CatalogContents
  imports CatalogTree
begin

text \<open>
  What a tree holds: \<open>tree C K V m h ref es\<close> says that, in the objects m, the reference ref is the
  root of a search tree of at most h levels with the entries es, in key order, and with exact
  \<open>Max\<close> and \<open>Count\<close> in every branch. Lookup reads es; an update gives a tree with the updated entries
  and leaves every other tree as it was.
\<close>

subsection \<open>Steps\<close>

text \<open>Objects are only added.\<close>

definition grows :: "prov \<Rightarrow> prov \<Rightarrow> bool" where
  "grows p p' = (objs p \<subseteq>\<^sub>m objs p')"

lemma grows_refl [simp]: "grows p p"
  by (simp add: grows_def)

lemma grows_trans: "grows p q \<Longrightarrow> grows q r \<Longrightarrow> grows p r"
  unfolding grows_def by (rule map_le_trans)

definition growing :: "'a op \<Rightarrow> bool" where
  "growing m = (\<forall>p r p'. m p = (r, p') \<longrightarrow> grows p p')"

lemma growingD: "growing m \<Longrightarrow> m p = (r, p') \<Longrightarrow> grows p p'"
  by (simp add: growing_def)

lemma growing_give [intro!]: "growing (give x)" "growing (raise e)" "growing (lift_sum r)"
  by (auto simp: growing_def give_def raise_def lift_sum_def)

lemma growing_andthen [intro]: "growing m \<Longrightarrow> (\<And>x. growing (f x)) \<Longrightarrow> growing (andthen m f)"
  unfolding growing_def andthen_def by (fastforce split: prod.splits sum.splits intro: grows_trans)

lemma next_fault_objs: "next_fault p = (f, p') \<Longrightarrow> objs p' = objs p"
  by (auto simp: next_fault_def split: list.splits)

lemma get_limited_Inr:
  "get_limited key l p = (Inr raw, p') \<Longrightarrow> objs p key = Some raw \<and> length raw \<le> l \<and> objs p' = objs p"
  using next_fault_objs [of p]
  by (auto simp: get_limited_def split: prod.splits fault.splits option.splits if_splits)

lemma growing_get: "growing (get_limited key l)"
  using next_fault_objs by (fastforce simp: growing_def get_limited_def grows_def split: prod.splits fault.splits option.splits)

lemma growing_auth: "growing check_write_authority"
  using next_fault_objs by (fastforce simp: growing_def check_write_authority_def grows_def split: prod.splits fault.splits)

lemma growing_put: "growing (put_create key b)"
  unfolding growing_def
proof (intro allI impI)
  fix p r p' assume a: "put_create key b p = (r, p')"
  obtain f p1 where f: "next_fault p = (f, p1)" by (cases "next_fault p")
  then have o: "objs p1 = objs p" by (rule next_fault_objs)
  have "objs p key = None \<Longrightarrow> objs p \<subseteq>\<^sub>m (objs p)(key \<mapsto> b)"
    by (auto simp: map_le_def dom_def)
  then show "grows p p'"
    using a f o by (cases f) (auto simp: put_create_def grows_def split: if_splits)
qed

lemma growing_read_ref: "growing (read_ref C ref l)"
  unfolding read_ref_def by (intro growing_andthen growing_give) (auto intro!: growing_andthen growing_get)

lemma growing_put_immutable: "growing (put_immutable C b)"
  unfolding put_immutable_def
proof (rule growing_andthen [OF growing_auth])
  fix u :: unit
  let ?ref = "\<lparr>rkey = node_key (c_sha C b), rsha = c_sha C b\<rparr>"
  have rd: "growing (andthen (read_ref C ?ref (length b)) (\<lambda>raw. if raw \<noteq> b then raise ErrChecksumMismatch else give ?ref))"
    by (rule growing_andthen [OF growing_read_ref]) auto
  show "growing (\<lambda>p. let digest = c_sha C b; ref = \<lparr>rkey = node_key digest, rsha = digest\<rparr> in
        case put_create (rkey ref) b p of
          (Inr _, p') \<Rightarrow> (Inr ref, p')
        | (Inl e, p') \<Rightarrow>
          andthen (read_ref C ref (length b)) (\<lambda>raw.
            if raw \<noteq> b then raise ErrChecksumMismatch else give ref) p')"
    unfolding growing_def Let_def
  proof (intro allI impI)
    fix p r p'
    assume a: "(case put_create (rkey ?ref) b p of
          (Inr _, p') \<Rightarrow> (Inr ?ref, p')
        | (Inl e, p') \<Rightarrow>
          andthen (read_ref C ?ref (length b)) (\<lambda>raw.
            if raw \<noteq> b then raise ErrChecksumMismatch else give ?ref) p') = (r, p')"
    obtain x p1 where x: "put_create (rkey ?ref) b p = (x, p1)" by (cases "put_create (rkey ?ref) b p")
    have g: "grows p p1" by (rule growingD [OF growing_put x])
    show "grows p p'"
    proof (cases x)
      case (Inl e)
      then have "andthen (read_ref C ?ref (length b)) (\<lambda>raw. if raw \<noteq> b then raise ErrChecksumMismatch else give ?ref) p1 = (r, p')"
        using a x by simp
      from growingD [OF rd this] g show ?thesis by (blast intro: grows_trans)
    next
      case (Inr y)
      then show ?thesis using a x g by simp
    qed
  qed
qed

lemma growing_put_json: "growing (put_json C n)"
  unfolding put_json_def by (auto intro: growing_put_immutable)

lemma growing_read_node: "growing (read_node C ref)"
  unfolding read_node_def by (intro growing_andthen growing_give) (auto intro!: growing_andthen growing_read_ref)

lemma growing_write_parts: "growing (write_parts C qs)"
  by (induction qs) (auto simp: Let_def intro!: growing_andthen growing_put_json)

lemma growing_store_node: "growing (store_node C n)"
  unfolding store_node_def by (auto intro!: growing_andthen growing_write_parts)

lemma growing_change: "growing (change C r ref key value)"
  by (induction r arbitrary: ref)
    (auto simp: Let_def intro!: growing_andthen growing_read_node growing_store_node)

lemma growing_update: "growing (update_tree C ref key value)"
  unfolding update_tree_def Let_def
  by (auto intro!: growing_andthen growing_change growing_put_json split: option.split)

subsection \<open>Reading a node\<close>

definition load :: "cenv \<Rightarrow> (bytes \<rightharpoonup> bytes) \<Rightarrow> objref \<Rightarrow> node option" where
  "load C m ref =
     (case ref_validate ref of
        Inl _ \<Rightarrow> None
      | Inr _ \<Rightarrow>
        if rkey ref = [] then Some empty_node
        else (case m (rkey ref) of
                None \<Rightarrow> None
              | Some raw \<Rightarrow>
                  if length raw \<le> max_node_bytes \<and> equal_fold (c_sha C raw) (rsha ref)
                  then (case decode_node C raw of Inl _ \<Rightarrow> None | Inr n \<Rightarrow> Some n) else None))"

lemma read_node_load:
  assumes "read_node C ref p = (Inr n, p')"
  shows "load C (objs p) ref = Some n \<and> objs p' = objs p"
proof (cases "rkey ref = []")
  case True
  then show ?thesis using assms by (auto simp: read_node_def andthen_Inr load_def)
next
  case False
  then obtain raw p1 where r: "ref_validate ref = Inr ()" "get_limited (rkey ref) max_node_bytes p = (Inr raw, p1)"
    "equal_fold (c_sha C raw) (rsha ref)" "decode_node C raw = Inr n" "p' = p1"
    using assms by (auto simp: read_node_def read_ref_def andthen_Inr split: if_splits)
  then show ?thesis using get_limited_Inr [OF r(2)] False by (simp add: load_def)
qed

lemma load_mono: "load C m ref = Some n \<Longrightarrow> m \<subseteq>\<^sub>m m' \<Longrightarrow> load C m' ref = Some n"
  by (auto simp: load_def map_le_def dom_def split: sum.splits if_splits option.splits)

lemma load_valid:
  assumes "load C m ref = Some n" "rkey ref \<noteq> []"
  shows "length (leaves n) + length (children n) \<noteq> 0" "length (leaves n) \<le> fanout" "length (children n) \<le> fanout"
    "leaves n = [] \<or> children n = []" "check_leaves (leaves n)" "is_ok (check_children None 0 (children n))"
    "ncount n = node_count n"
  using assms
  by (auto simp: load_def decode_node_def sbind_Inr_conv split: sum.splits if_splits option.splits)

lemma load_empty: "rkey ref = [] \<Longrightarrow> load C m ref = Some n \<Longrightarrow> n = empty_node"
  by (auto simp: load_def split: sum.splits)


subsection \<open>Sorted entries\<close>

lemma sort_search_loop_spec:
  assumes "\<And>a b. a \<le> b \<Longrightarrow> b < n \<Longrightarrow> f a \<Longrightarrow> f b"
  shows "i \<le> j \<Longrightarrow> j \<le> n \<Longrightarrow> \<forall>k<i. \<not> f k \<Longrightarrow> (j < n \<longrightarrow> f j) \<Longrightarrow>
    sort_search_loop f i j \<le> n \<and> (\<forall>k < sort_search_loop f i j. \<not> f k) \<and>
    (sort_search_loop f i j < n \<longrightarrow> f (sort_search_loop f i j))"
  using assms
proof (induction f i j rule: sort_search_loop.induct)
  case (1 f i j)
  show ?case
  proof (cases "i < j")
    case False
    then have "sort_search_loop f i j = i" by (subst sort_search_loop.simps) simp
    moreover have "i = j" using False 1(3) by simp
    ultimately show ?thesis using 1(4-6) by simp
  next
    case True
    define h where "h = (i + j) div 2"
    have h: "i \<le> h" "h < j" using True by (auto simp: h_def)
    have s: "sort_search_loop f i j = (if \<not> f h then sort_search_loop f (Suc h) j else sort_search_loop f i h)"
      using True unfolding h_def by (subst sort_search_loop.simps) (simp add: Let_def)
    show ?thesis
    proof (cases "f h")
      case t: True
      have "sort_search_loop f i h \<le> n \<and> (\<forall>k < sort_search_loop f i h. \<not> f k) \<and>
        (sort_search_loop f i h < n \<longrightarrow> f (sort_search_loop f i h))"
        by (rule 1(2) [OF True h_def]) (use 1(3-7) h t in auto)
      then show ?thesis using s t by simp
    next
      case False
      have nf: "\<forall>k<Suc h. \<not> f k"
      proof (intro allI impI notI)
        fix k assume "k < Suc h" "f k"
        then have "f h" using 1(7) [of k h] h 1(4) by simp
        then show False using False by simp
      qed
      have "sort_search_loop f (Suc h) j \<le> n \<and> (\<forall>k < sort_search_loop f (Suc h) j. \<not> f k) \<and>
        (sort_search_loop f (Suc h) j < n \<longrightarrow> f (sort_search_loop f (Suc h) j))"
        by (rule 1(1) [OF True h_def False]) (use 1(3-7) h nf in auto)
      then show ?thesis using s False by simp
    qed
  qed
qed

lemma sort_search_eq:
  assumes "\<And>i. i < n \<Longrightarrow> f i \<longleftrightarrow> m \<le> i" "m \<le> n"
  shows "sort_search n f = m"
proof -
  let ?r = "sort_search_loop f 0 n"
  have r: "?r \<le> n \<and> (\<forall>k < ?r. \<not> f k) \<and> (?r < n \<longrightarrow> f ?r)"
    by (rule sort_search_loop_spec) (use assms in auto)
  have "\<not> ?r < m" using r assms(1) [of ?r] assms(2) by auto
  moreover have "\<not> m < ?r"
  proof
    assume "m < ?r"
    then have "\<not> f m" "m < n" using r by auto
    then show False using assms(1) [of m] by simp
  qed
  ultimately show ?thesis unfolding sort_search_def by simp
qed

lemma sort_search_split:
  assumes "\<forall>x\<in>set A. \<not> P x" "\<forall>x\<in>set B. P x"
  shows "sort_search (length (A @ B)) (\<lambda>i. P ((A @ B) ! i)) = length A"
  by (rule sort_search_eq) (use assms in \<open>auto simp: nth_append\<close>)

definition entries_below :: "bytes \<Rightarrow> (bytes \<times> bytes) list \<Rightarrow> (bytes \<times> bytes) list" where
  "entries_below key es = filter (\<lambda>e. fst e < key) es"

definition entries_above :: "bytes \<Rightarrow> (bytes \<times> bytes) list \<Rightarrow> (bytes \<times> bytes) list" where
  "entries_above key es = filter (\<lambda>e. key < fst e) es"

text \<open>The entries after setting or deleting a key.\<close>

definition upd :: "bytes \<Rightarrow> bytes option \<Rightarrow> (bytes \<times> bytes) list \<Rightarrow> (bytes \<times> bytes) list" where
  "upd key value es = entries_below key es @ (case value of None \<Rightarrow> [] | Some v \<Rightarrow> [(key, v)]) @ entries_above key es"

definition key_sorted :: "(bytes \<times> bytes) list \<Rightarrow> bool" where
  "key_sorted es = sorted_wrt (<) (map fst es)"

lemma key_sorted_append:
  "key_sorted (a @ b) \<longleftrightarrow> key_sorted a \<and> key_sorted b \<and> (\<forall>x\<in>set a. \<forall>y\<in>set b. fst x < fst y)"
  by (auto simp: key_sorted_def sorted_wrt_append)

lemma key_sorted_Nil [simp]: "key_sorted []"
  by (simp add: key_sorted_def)

lemma key_sorted_Cons: "key_sorted (e # es) \<longleftrightarrow> key_sorted es \<and> (\<forall>y\<in>set es. fst e < fst y)"
  by (auto simp: key_sorted_def)

lemma key_sorted_filter: "key_sorted es \<Longrightarrow> key_sorted (filter P es)"
  by (induction es) (auto simp: key_sorted_Cons)

lemma key_sorted_upd: "key_sorted es \<Longrightarrow> key_sorted (upd key value es)"
  by (auto simp: upd_def key_sorted_append key_sorted_filter entries_below_def entries_above_def key_sorted_Cons split: option.split)

lemma map_of_filter_key: "map_of (filter (\<lambda>e. P (fst e)) es) k = (if P k then map_of es k else None)"
  by (induction es) auto

lemma map_of_upd: "map_of (upd key val es) = (map_of es)(key := val)"
proof
  fix k
  have b: "map_of (entries_below key es) k = (if k < key then map_of es k else None)" for k
    unfolding entries_below_def by (rule map_of_filter_key)
  have a: "map_of (entries_above key es) k = (if key < k then map_of es k else None)" for k
    unfolding entries_above_def by (rule map_of_filter_key)
  show "map_of (upd key val es) k = ((map_of es)(key := val)) k"
    by (cases val) (auto simp: upd_def map_add_def a b split: option.splits)
qed

lemma upd_set: "e \<in> set (upd key val es) \<Longrightarrow> e \<in> set es \<or> val = Some (snd e) \<and> fst e = key"
  by (auto simp: upd_def entries_below_def entries_above_def split: option.splits)

lemma length_upd: "length (upd key val es) \<le> Suc (length es)"
proof -
  have "length (entries_below key es) + length (entries_above key es) \<le> length es"
    unfolding entries_below_def entries_above_def by (induction es) auto
  then show ?thesis by (auto simp: upd_def split: option.split)
qed

lemma upd_around:
  assumes "\<forall>e\<in>set a. fst e < key" "\<forall>e\<in>set c. key < fst e"
  shows "upd key val (a @ b @ c) = a @ upd key val b @ c"
proof -
  have "filter (\<lambda>e. fst e < key) a = a" "filter (\<lambda>e. key < fst e) a = []"
    "filter (\<lambda>e. fst e < key) c = []" "filter (\<lambda>e. key < fst e) c = c"
    using assms by (auto simp: filter_id_conv filter_empty_conv)
  then show ?thesis by (simp add: upd_def entries_below_def entries_above_def)
qed

lemma map_of_outside:
  fixes key :: bytes
  shows "\<forall>e\<in>set a. fst e < key \<Longrightarrow> map_of a key = None" "\<forall>e\<in>set a. key < fst e \<Longrightarrow> map_of a key = None"
  by (induction a) auto

lemma map_of_around:
  fixes key :: bytes
  assumes "\<forall>e\<in>set a. fst e < key" "\<forall>e\<in>set c. key < fst e"
  shows "map_of (a @ b @ c) key = map_of b key"
proof -
  have "map_of a key = None" by (rule map_of_outside(1) [OF assms(1)])
  moreover have "map_of c key = None" by (rule map_of_outside(2) [OF assms(2)])
  ultimately show ?thesis by (simp add: map_add_def split: option.split)
qed

lemma sorted_at:
  assumes "key_sorted (a @ b)" "\<forall>e\<in>set a. fst e < key" "\<forall>e\<in>set b. key \<le> fst e"
  shows "entries_below key (a @ b) = a"
    "entries_above key (a @ b) = (if b \<noteq> [] \<and> fst (hd b) = key then tl b else b)"
    "map_of (a @ b) key = (if b \<noteq> [] \<and> fst (hd b) = key then Some (snd (hd b)) else None)"
proof -
  have a: "filter (\<lambda>e. fst e < key) a = a" "filter (\<lambda>e. key < fst e) a = []" "map_of a key = None"
    using assms(2) by (auto simp: filter_id_conv filter_empty_conv map_of_eq_None_iff)
  have b: "filter (\<lambda>e. fst e < key) b = []" using assms(3) by (auto simp: filter_empty_conv not_less)
  show "entries_below key (a @ b) = a" using a b by (simp add: entries_below_def)
  have tl: "\<forall>e\<in>set (tl b). key < fst e"
    using assms(1,3) by (cases b) (auto simp: key_sorted_append key_sorted_Cons intro: le_less_trans)
  then have t: "filter (\<lambda>e. key < fst e) (tl b) = tl b" "map_of (tl b) key = None"
    by (auto simp: filter_id_conv map_of_eq_None_iff)
  show "entries_above key (a @ b) = (if b \<noteq> [] \<and> fst (hd b) = key then tl b else b)"
    using a t assms(3) by (cases b) (auto simp: entries_above_def)
  show "map_of (a @ b) key = (if b \<noteq> [] \<and> fst (hd b) = key then Some (snd (hd b)) else None)"
    using a t by (cases b) (auto simp: map_add_def)
qed

subsection \<open>Trees\<close>

text \<open>
  K and V describe the keys and the values that survive an encoding (valid UTF-8 and compact JSON);
  \<open>codec_ok\<close> says that such nodes do, and that digests are 64 hexadecimal digits.
\<close>

definition node_over :: "(bytes \<Rightarrow> bool) \<Rightarrow> (bytes \<Rightarrow> bool) \<Rightarrow> node \<Rightarrow> bool" where
  "node_over K V n \<longleftrightarrow> (\<forall>v\<in>set (leaves n). K (ikey v) \<and> V (ival v)) \<and>
     (\<forall>c\<in>set (children n). K (bmax c) \<and> K (rkey (bref c)) \<and> K (rsha (bref c)) \<and> bcount c \<le> max_uint64) \<and>
     ncount n \<le> max_uint64"

definition codec_ok :: "cenv \<Rightarrow> (bytes \<Rightarrow> bool) \<Rightarrow> (bytes \<Rightarrow> bool) \<Rightarrow> bool" where
  "codec_ok C K V \<longleftrightarrow> (\<forall>n. node_over K V n \<longrightarrow> c_dec C (c_enc C n) = Some n) \<and>
     (\<forall>b. length (c_sha C b) = 64 \<and> list_all is_hex (c_sha C b) \<and> K (c_sha C b) \<and> K (node_key (c_sha C b)))"

definition entries_of :: "item list \<Rightarrow> (bytes \<times> bytes) list" where
  "entries_of ls = map (\<lambda>v. (ikey v, ival v)) ls"

definition branch_ok :: "(bytes \<Rightarrow> bool) \<Rightarrow> branch \<Rightarrow> (bytes \<times> bytes) list \<Rightarrow> bool" where
  "branch_ok K c es \<longleftrightarrow> es \<noteq> [] \<and> bmax c = fst (last es) \<and> bcount c = length es \<and>
     rkey (bref c) \<noteq> [] \<and> K (rkey (bref c)) \<and> K (rsha (bref c))"

definition holds_with :: "(objref \<Rightarrow> (bytes \<times> bytes) list \<Rightarrow> bool) \<Rightarrow> (bytes \<Rightarrow> bool) \<Rightarrow> node \<Rightarrow> (bytes \<times> bytes) list \<Rightarrow> bool" where
  "holds_with T K n es \<longleftrightarrow>
     (if children n = [] then es = entries_of (leaves n)
      else leaves n = [] \<and> (\<exists>ess. es = concat ess \<and> list_all2 (\<lambda>c e. branch_ok K c e \<and> T (bref c) e) (children n) ess))"

definition entries_ok :: "(bytes \<Rightarrow> bool) \<Rightarrow> (bytes \<Rightarrow> bool) \<Rightarrow> (bytes \<times> bytes) list \<Rightarrow> bool" where
  "entries_ok K V es \<longleftrightarrow> key_sorted es \<and> (\<forall>e\<in>set es. K (fst e) \<and> length (fst e) \<le> 4096 \<and> V (snd e))"

fun tree :: "cenv \<Rightarrow> (bytes \<Rightarrow> bool) \<Rightarrow> (bytes \<Rightarrow> bool) \<Rightarrow> (bytes \<rightharpoonup> bytes) \<Rightarrow> nat \<Rightarrow> objref \<Rightarrow> (bytes \<times> bytes) list \<Rightarrow> bool" where
  "tree C K V m 0 ref es = False"
| "tree C K V m (Suc h) ref es =
     (entries_ok K V es \<and> (\<exists>n. load C m ref = Some n \<and> holds_with (tree C K V m h) K n es))"

lemma holds_with_mono:
  assumes "holds_with T K n es" "\<And>r e. T r e \<Longrightarrow> U r e"
  shows "holds_with U K n es"
proof (cases "children n = []")
  case True
  then show ?thesis using assms(1) by (simp add: holds_with_def)
next
  case False
  then obtain ess where e: "leaves n = []" "es = concat ess"
    "list_all2 (\<lambda>c e. branch_ok K c e \<and> T (bref c) e) (children n) ess"
    using assms(1) by (auto simp: holds_with_def)
  have "list_all2 (\<lambda>c e. branch_ok K c e \<and> U (bref c) e) (children n) ess"
    by (rule list_all2_mono [OF e(3)]) (use assms(2) in blast)
  then show ?thesis using e False by (auto simp: holds_with_def)
qed

lemma tree_entries_ok: "tree C K V m h ref es \<Longrightarrow> entries_ok K V es"
  by (cases h) auto

lemma tree_objs: "tree C K V m h ref es \<Longrightarrow> m \<subseteq>\<^sub>m m' \<Longrightarrow> tree C K V m' h ref es"
proof (induction h arbitrary: ref es)
  case (Suc h)
  then obtain n where n: "load C m ref = Some n" "holds_with (tree C K V m h) K n es" "entries_ok K V es" by auto
  have "holds_with (tree C K V m' h) K n es"
    by (rule holds_with_mono [OF n(2)]) (rule Suc.IH [OF _ Suc.prems(2)])
  then show ?case using load_mono [OF n(1) Suc.prems(2)] n(3) by auto
qed simp

lemma tree_higher: "tree C K V m h ref es \<Longrightarrow> h \<le> h' \<Longrightarrow> tree C K V m h' ref es"
proof (induction h arbitrary: ref es h')
  case (Suc h)
  then obtain n where n: "load C m ref = Some n" "holds_with (tree C K V m h) K n es" "entries_ok K V es" by auto
  from Suc.prems obtain h2 where h2: "h' = Suc h2" "h \<le> h2" by (cases h') auto
  have "holds_with (tree C K V m h2) K n es"
    by (rule holds_with_mono [OF n(2)]) (rule Suc.IH [OF _ h2(2)])
  then show ?case using n(1,3) h2(1) by auto
qed simp

lemma tree_no_ref: "tree C K V m (Suc h) no_ref []"
  by (simp add: entries_ok_def load_def ref_validate_def no_ref_def holds_with_def empty_node_def entries_of_def)

lemma check_leaves_sorted: "check_leaves ls \<longleftrightarrow> sorted_wrt (<) (map ikey ls) \<and> (\<forall>v\<in>set ls. length (ikey v) \<le> 4096)"
  by (induction ls rule: check_leaves.induct) (auto intro: less_trans)

lemma key_sorted_entries: "key_sorted (entries_of ls) = sorted_wrt (<) (map ikey ls)"
  by (simp add: key_sorted_def entries_of_def o_def)

lemma entries_of_append [simp]: "entries_of (a @ b) = entries_of a @ entries_of b"
  by (simp add: entries_of_def)

lemma entries_of_Cons [simp]: "entries_of (v # b) = (ikey v, ival v) # entries_of b"
  by (simp add: entries_of_def)

lemma entries_of_Nil [simp]: "entries_of [] = []"
  by (simp add: entries_of_def)

lemma entries_ok_append: "entries_ok K V (a @ b) \<Longrightarrow> entries_ok K V a \<and> entries_ok K V b"
  by (auto simp: entries_ok_def key_sorted_append)

lemma entries_ok_upd:
  "entries_ok K V es \<Longrightarrow> K key \<Longrightarrow> length key \<le> 4096 \<Longrightarrow> (\<And>v. val = Some v \<Longrightarrow> V v) \<Longrightarrow> entries_ok K V (upd key val es)"
  unfolding entries_ok_def by (auto simp: key_sorted_upd dest!: upd_set)

subsection \<open>Lookup\<close>

lemma leaf_choice:
  assumes "sorted_wrt (<) (map ikey ls)"
  obtains A B where "ls = A @ B" "leaf_index ls key = length A" "\<forall>e\<in>set (entries_of A). fst e < key"
    "\<forall>e\<in>set (entries_of B). key \<le> fst e"
proof -
  define A where "A = takeWhile (\<lambda>v. \<not> ikey v \<ge> key) ls"
  define B where "B = dropWhile (\<lambda>v. \<not> ikey v \<ge> key) ls"
  have ls: "ls = A @ B" by (simp add: A_def B_def)
  have a: "\<forall>v\<in>set A. \<not> ikey v \<ge> key" unfolding A_def by (auto dest: set_takeWhileD)
  have b: "\<forall>v\<in>set B. ikey v \<ge> key"
  proof (cases B)
    case (Cons v r)
    then have "ikey v \<ge> key" using hd_dropWhile [of "\<lambda>v. \<not> ikey v \<ge> key" ls] by (simp add: B_def)
    moreover have "\<forall>w\<in>set r. ikey v < ikey w" using assms ls Cons by (auto simp: sorted_wrt_append)
    ultimately show ?thesis using Cons by (auto intro: order.trans less_imp_le)
  qed simp
  have "leaf_index ls key = length A"
    unfolding leaf_index_def ls by (rule sort_search_split) (use a b in auto)
  then show thesis using that ls a b by (simp add: entries_of_def not_le)
qed

lemma branch_last: "branch_ok K c e \<Longrightarrow> key_sorted e \<Longrightarrow> x \<in> set e \<Longrightarrow> fst x \<le> bmax c"
proof -
  assume a: "branch_ok K c e" "key_sorted e" "x \<in> set e"
  then have e: "e = butlast e @ [last e]" by (simp add: branch_ok_def)
  then have "key_sorted (butlast e @ [last e])" using a by simp
  then have "\<forall>y\<in>set (butlast e). fst y < fst (last e)" by (simp add: key_sorted_append)
  moreover have "x \<in> set (butlast e) \<or> x = last e" using a(3) e by (metis Un_iff empty_iff list.set(1,2) insert_iff set_append)
  ultimately show ?thesis using a(1) by (auto simp: branch_ok_def)
qed

lemma branch_max_in: "branch_ok K c e \<Longrightarrow> \<exists>x\<in>set e. fst x = bmax c"
  by (auto simp: branch_ok_def intro!: bexI [of _ "last e"])

lemma list_all2_in1: "list_all2 P xs ys \<Longrightarrow> x \<in> set xs \<Longrightarrow> \<exists>y\<in>set ys. P x y"
  by (induction rule: list_all2_induct) auto

lemma list_all2_in2: "list_all2 P xs ys \<Longrightarrow> y \<in> set ys \<Longrightarrow> \<exists>x\<in>set xs. P x y"
  by (induction rule: list_all2_induct) auto

lemma maxes_sorted:
  assumes "list_all2 (branch_ok K) cs ess" "key_sorted (concat ess)"
  shows "sorted_wrt (<) (map bmax cs)"
  using assms
proof (induction rule: list_all2_induct)
  case (Cons c cs e ess)
  have "bmax c < bmax d" if "d \<in> set cs" for d
  proof -
    obtain f where f: "f \<in> set ess" "branch_ok K d f"
      using list_all2_in1 [OF Cons.hyps(2) \<open>d \<in> set cs\<close>] by blast
    obtain x y where "x \<in> set e" "fst x = bmax c" "y \<in> set f" "fst y = bmax d"
      using branch_max_in Cons.hyps(1) f(2) by metis
    then show ?thesis using Cons.prems f(1) by (force simp: key_sorted_append)
  qed
  then show ?case using Cons by (auto simp: key_sorted_append)
qed simp

text \<open>The child a key is sought in, and what the other children hold.\<close>

lemma child_choice:
  assumes l: "list_all2 (\<lambda>c e. branch_ok K c e \<and> T (bref c) e) cs ess" and s: "key_sorted (concat ess)" and "cs \<noteq> []"
    and i: "i = (if child_index cs key = length cs then child_index cs key - 1 else child_index cs key)"
  obtains A c B X e Y where "cs = A @ c # B" "ess = X @ e # Y" "length A = i"
    "list_all2 (\<lambda>c e. branch_ok K c e \<and> T (bref c) e) A X" "list_all2 (\<lambda>c e. branch_ok K c e \<and> T (bref c) e) B Y"
    "branch_ok K c e" "T (bref c) e"
    "\<forall>x\<in>set (concat X). fst x < key" "\<forall>x\<in>set (concat Y). key < fst x"
    "child_index cs key = length cs \<longrightarrow> map_of (concat ess) key = None"
proof -
  have lb: "list_all2 (branch_ok K) cs ess" by (rule list_all2_mono [OF l]) simp
  have sm: "sorted_wrt (<) (map bmax cs)" by (rule maxes_sorted [OF lb s])
  have se: "key_sorted e" if "e \<in> set ess" for e
    using s that by (induction ess) (auto simp: key_sorted_append)
  define A0 where "A0 = takeWhile (\<lambda>c. \<not> bmax c \<ge> key) cs"
  define B0 where "B0 = dropWhile (\<lambda>c. \<not> bmax c \<ge> key) cs"
  have cs: "cs = A0 @ B0" by (simp add: A0_def B0_def)
  have a: "\<forall>c\<in>set A0. \<not> bmax c \<ge> key" unfolding A0_def by (auto dest: set_takeWhileD)
  have b: "\<forall>c\<in>set B0. bmax c \<ge> key"
  proof (cases B0)
    case (Cons v r)
    then have "bmax v \<ge> key" using hd_dropWhile [of "\<lambda>c. \<not> bmax c \<ge> key" cs] by (simp add: B0_def)
    moreover have "\<forall>w\<in>set r. bmax v < bmax w" using sm cs Cons by (auto simp: sorted_wrt_append)
    ultimately show ?thesis using Cons by (auto intro: order.trans less_imp_le)
  qed simp
  have ci: "child_index cs key = length A0"
    unfolding child_index_def cs by (rule sort_search_split) (use a b in auto)
  have less: "fst x < key" if h: "list_all2 (\<lambda>c e. branch_ok K c e \<and> T (bref c) e) A X" "set A \<subseteq> set A0" "set X \<subseteq> set ess"
    "x \<in> set (concat X)" for A X x
  proof -
    obtain e where e: "e \<in> set X" "x \<in> set e" using h(4) by auto
    then obtain c where c: "c \<in> set A" "branch_ok K c e"
      using list_all2_in2 [OF h(1)] by blast
    have "fst x \<le> bmax c" by (rule branch_last [OF c(2) se e(2)]) (use h(3) e in auto)
    then show ?thesis using a c(1) h(2) by (auto simp: not_le intro: le_less_trans)
  qed
  show thesis
  proof (cases "B0 = []")
    case False
    then obtain c B where B0: "B0 = c # B" by (cases B0) auto
    obtain X R where XR: "ess = X @ R" "list_all2 (\<lambda>c e. branch_ok K c e \<and> T (bref c) e) A0 X"
      "list_all2 (\<lambda>c e. branch_ok K c e \<and> T (bref c) e) (c # B) R"
      using l unfolding cs B0 list_all2_append1 by auto
    then obtain e Y where R: "R = e # Y" "branch_ok K c e" "T (bref c) e"
      "list_all2 (\<lambda>c e. branch_ok K c e \<and> T (bref c) e) B Y"
      by (auto simp: list_all2_Cons1)
    have y: "\<forall>x\<in>set (concat Y). key < fst x"
    proof
      fix x assume x: "x \<in> set (concat Y)"
      obtain z where z: "z \<in> set e" "fst z = bmax c" using branch_max_in [OF R(2)] by auto
      have "fst z < fst x" using s x z XR(1) R(1) by (auto simp: key_sorted_append)
      then show "key < fst x" using z b B0 by (auto intro: le_less_trans)
    qed
    have x: "\<forall>x\<in>set (concat X). fst x < key"
    proof
      fix x assume "x \<in> set (concat X)"
      then show "fst x < key" by (intro less [OF XR(2)]) (use XR(1) in auto)
    qed
    have "cs = A0 @ c # B" "ess = X @ e # Y" "length A0 = i" "child_index cs key = length cs \<longrightarrow> map_of (concat ess) key = None"
      using cs B0 XR(1) R(1) ci i by auto
    then show thesis using XR(2) R(2-4) x y that by blast
  next
    case True
    then have A0: "A0 = cs" using cs by simp
    then obtain A c where A: "cs = A @ [c]" using \<open>cs \<noteq> []\<close> by (metis append_butlast_last_id)
    obtain X R where XR: "ess = X @ R" "list_all2 (\<lambda>c e. branch_ok K c e \<and> T (bref c) e) A X"
      "list_all2 (\<lambda>c e. branch_ok K c e \<and> T (bref c) e) [c] R"
      using l unfolding A list_all2_append1 by auto
    then obtain e where R: "R = [e]" "branch_ok K c e" "T (bref c) e" by (auto simp: list_all2_Cons1)
    have all: "fst x < key" if "x \<in> set (concat ess)" for x
      by (rule less [OF l _ _ that]) (use A0 in auto)
    have "map_of (concat ess) key = None"
      by (rule map_of_outside(1)) (use all in blast)
    moreover have "\<forall>x\<in>set (concat X). fst x < key" using all XR(1) by auto
    moreover have "length A = i" using A i ci A0 by simp
    ultimately show thesis using that [of A c "[]" X e "[]"] A XR(1,2) R by simp
  qed
qed

theorem lookup_rounds_correct:
  assumes "lookup_rounds C r ref key p = (Inr v, p')" "tree C K V (objs p) h ref es"
  shows "v = map_of es key"
  using assms
proof (induction r arbitrary: p ref h es)
  case (Suc r)
  obtain n p1 where rd: "read_node C ref p = (Inr n, p1)" using Suc.prems(1) by (auto simp: andthen_Inr)
  have ld: "load C (objs p) ref = Some n" "objs p1 = objs p" using read_node_load [OF rd] by auto
  obtain h2 where h: "h = Suc h2" using Suc.prems(2) by (cases h) auto
  have hw: "holds_with (tree C K V (objs p) h2) K n es" "entries_ok K V es" using Suc.prems(2) ld h by auto
  then have ks: "key_sorted es" by (simp add: entries_ok_def)
  show ?case
  proof (cases "children n = []")
    case True
    then have es: "es = entries_of (leaves n)" using hw by (simp add: holds_with_def)
    then have "sorted_wrt (<) (map ikey (leaves n))" using ks by (simp add: key_sorted_entries)
    from leaf_choice [OF this, of key] obtain A B where AB: "leaves n = A @ B" "leaf_index (leaves n) key = length A"
      "\<forall>e\<in>set (entries_of A). fst e < key" "\<forall>e\<in>set (entries_of B). key \<le> fst e" .
    have m: "map_of es key = (if entries_of B \<noteq> [] \<and> fst (hd (entries_of B)) = key then Some (snd (hd (entries_of B))) else None)"
      using sorted_at(3) [of "entries_of A" "entries_of B" key] AB es ks by simp
    show ?thesis using Suc.prems(1) rd True AB(1,2) m
      by (cases B) (auto simp: andthen_def Let_def give_def split: if_splits)
  next
    case False
    then obtain ess where e: "es = concat ess"
      "list_all2 (\<lambda>c e. branch_ok K c e \<and> tree C K V (objs p) h2 (bref c) e) (children n) ess"
      using hw by (auto simp: holds_with_def)
    let ?i = "child_index (children n) key"
    have kc: "key_sorted (concat ess)" using ks e(1) by simp
    from child_choice [OF e(2) kc False refl, of key] obtain A c B X f Y where ch:
      "children n = A @ c # B" "ess = X @ f # Y" "length A = (if ?i = length (children n) then ?i - 1 else ?i)"
      "list_all2 (\<lambda>c e. branch_ok K c e \<and> tree C K V (objs p) h2 (bref c) e) A X"
      "list_all2 (\<lambda>c e. branch_ok K c e \<and> tree C K V (objs p) h2 (bref c) e) B Y"
      "branch_ok K c f" "tree C K V (objs p) h2 (bref c) f"
      "\<forall>x\<in>set (concat X). fst x < key" "\<forall>x\<in>set (concat Y). key < fst x"
      "?i = length (children n) \<longrightarrow> map_of (concat ess) key = None" .
    show ?thesis
    proof (cases "?i = length (children n)")
      case True
      then have "v = None" using Suc.prems(1) rd False by (auto simp: andthen_def Let_def give_def)
      then show ?thesis using ch(10) True e(1) by simp
    next
      case ne: False
      then have "children n ! ?i = c" using ch(1,3) by (metis nth_append_length)
      then have "lookup_rounds C r (bref c) key p1 = (Inr v, p')"
        using Suc.prems(1) rd False ne by (auto simp: andthen_def Let_def)
      then have "v = map_of f key" using Suc.IH [of "bref c" p1 h2 f] ch(7) ld(2) by simp
      then show ?thesis using map_of_around [OF ch(8,9), of f] e(1) ch(2) by simp
    qed
  qed
qed (simp)

end
