(* ===== verification/CatalogUpdate.thy ===== *)
theory CatalogUpdate
  imports CatalogContents
begin

text \<open>
  Updates of a catalog tree: what \<open>change\<close> and \<open>update_tree\<close> write is a tree over the updated entries.
\<close>

subsection \<open>Writing a node\<close>

lemma put_create_Inr: "put_create key b p = (Inr u, p') \<Longrightarrow> objs p' key = Some b"
  by (auto simp: put_create_def split: prod.splits fault.splits if_splits)

lemma read_ref_Inr:
  "read_ref C ref l p = (Inr raw, p') \<Longrightarrow> objs p (rkey ref) = Some raw \<and> objs p' = objs p \<and> length raw \<le> l \<and>
     equal_fold (c_sha C raw) (rsha ref)"
  by (auto simp: read_ref_def andthen_Inr split: if_splits dest!: get_limited_Inr)

lemma put_json_Inr:
  assumes "put_json C n p = (Inr ref, p')"
  shows "ref = \<lparr>rkey = node_key (c_sha C (c_enc C n)), rsha = c_sha C (c_enc C n)\<rparr>"
    "objs p' (rkey ref) = Some (c_enc C n)" "length (c_enc C n) \<le> max_node_bytes"
proof -
  let ?b = "c_enc C n"
  let ?ref = "\<lparr>rkey = node_key (c_sha C ?b), rsha = c_sha C ?b\<rparr>"
  have len: "length ?b \<le> max_node_bytes" and pi: "put_immutable C ?b p = (Inr ref, p')"
    using assms by (auto simp: put_json_def split: if_splits)
  obtain p1 where p1: "(case put_create (rkey ?ref) ?b p1 of
          (Inr _, p') \<Rightarrow> (Inr ?ref, p')
        | (Inl e, p') \<Rightarrow>
          andthen (read_ref C ?ref (length ?b)) (\<lambda>raw.
            if raw \<noteq> ?b then raise ErrChecksumMismatch else give ?ref) p') = (Inr ref, p')"
    using pi unfolding put_immutable_def andthen_Inr Let_def by blast
  obtain x p2 where x: "put_create (rkey ?ref) ?b p1 = (x, p2)" by (cases "put_create (rkey ?ref) ?b p1")
  have "ref = ?ref \<and> objs p' (rkey ref) = Some ?b"
  proof (cases x)
    case (Inl e)
    then obtain raw p3 where r: "read_ref C ?ref (length ?b) p2 = (Inr raw, p3)"
      "(if raw \<noteq> ?b then raise ErrChecksumMismatch else give ?ref) p3 = (Inr ref, p')"
      using p1 x by (auto simp: andthen_Inr)
    then show ?thesis using read_ref_Inr [OF r(1)] by (auto split: if_splits)
  next
    case (Inr u)
    then have "?ref = ref" "p2 = p'" using p1 x by auto
    then show ?thesis using Inr put_create_Inr [of "rkey ?ref" ?b p1 u p2] x by auto
  qed
  then show "ref = ?ref" "objs p' (rkey ref) = Some ?b" "length ?b \<le> max_node_bytes" using len by auto
qed

lemma count_children:
  "list_all2 (branch_ok K) cs ess \<Longrightarrow> acc + length (concat ess) \<le> max_uint64 \<Longrightarrow>
   foldl (\<lambda>t c. (t + bcount c) mod (max_uint64 + 1)) acc cs = acc + length (concat ess)"
  by (induction arbitrary: acc rule: list_all2_induct) (auto simp: branch_ok_def)

lemma check_children_ok:
  "list_all2 (branch_ok K) cs ess \<Longrightarrow> sorted_wrt (<) (map bmax cs) \<Longrightarrow> acc + length (concat ess) \<le> max_uint64 \<Longrightarrow>
   (\<forall>m c. prev = Some m \<longrightarrow> c \<in> set cs \<longrightarrow> m < bmax c) \<Longrightarrow> check_children prev acc cs = Inr ()"
proof (induction arbitrary: acc prev rule: list_all2_induct)
  case (Cons c cs e ess)
  have "check_children (Some (bmax c)) (acc + bcount c) cs = Inr ()"
    by (rule Cons.IH) (use Cons.prems Cons.hyps in \<open>auto simp: branch_ok_def\<close>)
  then show ?case using Cons.prems Cons.hyps by (auto simp: branch_ok_def not_le split: option.splits)
qed simp

lemma holds_count:
  assumes "holds_with T K n es" "length es \<le> max_uint64"
  shows "node_count n = length es"
proof (cases "children n = []")
  case True
  then show ?thesis using assms by (simp add: node_count_def holds_with_def entries_of_def)
next
  case False
  then obtain ess where e: "es = concat ess" "list_all2 (\<lambda>c e. branch_ok K c e \<and> T (bref c) e) (children n) ess"
    using assms by (auto simp: holds_with_def)
  have "list_all2 (branch_ok K) (children n) ess" by (rule list_all2_mono [OF e(2)]) simp
  from count_children [OF this, of 0] show ?thesis using False assms e by (simp add: node_count_def)
qed

lemma concat_nonempty:
  "list_all2 (branch_ok K) cs ess \<Longrightarrow> cs \<noteq> [] \<Longrightarrow> concat ess \<noteq> []"
  by (cases cs; cases ess) (auto simp: branch_ok_def)

lemma last_concat:
  "list_all2 (branch_ok K) cs ess \<Longrightarrow> cs \<noteq> [] \<Longrightarrow> fst (last (concat ess)) = bmax (last cs)"
proof (induction rule: list_all2_induct)
  case (Cons c cs e ess)
  show ?case
  proof (cases "cs = []")
    case False
    then have "concat ess \<noteq> []" using concat_nonempty [of K cs ess] Cons.hyps(2) by blast
    then show ?thesis using Cons.IH False by (simp add: last_append del: concat_eq_Nil_conv)
  qed (use Cons in \<open>simp add: branch_ok_def\<close>)
qed simp

lemma holds_last:
  assumes "holds_with T K n es" "es \<noteq> []"
  shows "last_key n = fst (last es)"
proof (cases "children n = []")
  case True
  then show ?thesis using assms by (auto simp: last_key_def holds_with_def entries_of_def last_map)
next
  case False
  then obtain ess where e: "es = concat ess" "list_all2 (\<lambda>c e. branch_ok K c e \<and> T (bref c) e) (children n) ess"
    using assms by (auto simp: holds_with_def)
  have "list_all2 (branch_ok K) (children n) ess" by (rule list_all2_mono [OF e(2)]) simp
  from last_concat [OF this] show ?thesis using False e by (simp add: last_key_def)
qed

lemma holds_empty:
  assumes "holds_with T K n es"
  shows "length (leaves n) + length (children n) = 0 \<longleftrightarrow> es = []"
proof (cases "children n = []")
  case True
  then show ?thesis using assms by (simp add: holds_with_def entries_of_def)
next
  case False
  then obtain ess where e: "es = concat ess" "list_all2 (\<lambda>c e. branch_ok K c e \<and> T (bref c) e) (children n) ess"
    using assms by (auto simp: holds_with_def)
  have "list_all2 (branch_ok K) (children n) ess" by (rule list_all2_mono [OF e(2)]) simp
  from concat_nonempty [OF this] show ?thesis using False e by simp
qed

lemma holds_ncount [simp]: "holds_with T K (n\<lparr>ncount := x\<rparr>) es = holds_with T K n es"
  by (simp add: holds_with_def)

lemma node_count_ncount [simp]: "node_count (n\<lparr>ncount := x\<rparr>) = node_count n" "last_key (n\<lparr>ncount := x\<rparr>) = last_key n"
  by (simp_all add: node_count_def last_key_def)

lemma part_over:
  assumes n: "holds_with T K n es" "entries_ok K V es" and size: "length es \<le> max_uint64" and cnt: "ncount n = node_count n"
  shows "node_over K V n" "check_leaves (leaves n)" "check_children None 0 (children n) = Inr ()" "leaves n = [] \<or> children n = []"
proof -
  have nc: "ncount n = length es" using holds_count [OF n(1) size] cnt by simp
  have "node_over K V n \<and> check_leaves (leaves n) \<and> check_children None 0 (children n) = Inr () \<and> (leaves n = [] \<or> children n = [])"
  proof (cases "children n = []")
    case True
    then have es: "es = entries_of (leaves n)" using n(1) by (simp add: holds_with_def)
    have "check_leaves (leaves n)"
      using n(2) unfolding es check_leaves_sorted entries_ok_def key_sorted_entries by (auto simp: entries_of_def)
    moreover have "node_over K V n"
      using n(2) size nc True unfolding es node_over_def entries_ok_def by (auto simp: entries_of_def)
    ultimately show ?thesis using True by simp
  next
    case False
    then obtain ess where e: "es = concat ess" "leaves n = []"
      "list_all2 (\<lambda>c e. branch_ok K c e \<and> T (bref c) e) (children n) ess"
      using n(1) by (auto simp: holds_with_def)
    have b: "list_all2 (branch_ok K) (children n) ess" by (rule list_all2_mono [OF e(3)]) simp
    have ks: "key_sorted (concat ess)" using n(2) e(1) by (simp add: entries_ok_def)
    have "check_children None 0 (children n) = Inr ()"
      by (rule check_children_ok [OF b maxes_sorted [OF b ks]]) (use size e(1) in auto)
    moreover have "K (bmax c) \<and> K (rkey (bref c)) \<and> K (rsha (bref c)) \<and> bcount c \<le> max_uint64" if "c \<in> set (children n)" for c
    proof -
      obtain f where f: "f \<in> set ess" "branch_ok K c f" using list_all2_in1 [OF b \<open>c \<in> set (children n)\<close>] by blast
      obtain x where x: "x \<in> set f" "fst x = bmax c" using branch_max_in [OF f(2)] by blast
      have "x \<in> set es" using x f e(1) by auto
      then have "K (bmax c)" using n(2) x unfolding entries_ok_def by metis
      moreover have "length f \<le> length es" using split_list [OF f(1)] e(1) by auto
      ultimately show ?thesis using f(2) size by (simp add: branch_ok_def)
    qed
    ultimately show ?thesis using e(2) nc size by (simp add: node_over_def)
  qed
  then show "node_over K V n" "check_leaves (leaves n)" "check_children None 0 (children n) = Inr ()" "leaves n = [] \<or> children n = []"
    by auto
qed

lemma decode_part:
  assumes codec: "codec_ok C K V" and n: "holds_with T K n es" "entries_ok K V es" "es \<noteq> []"
    and size: "length (leaves n) + length (children n) \<le> fanout" "length es \<le> max_uint64" and cnt: "ncount n = node_count n"
  shows "decode_node C (c_enc C n) = Inr n"
proof -
  have "length (leaves n) + length (children n) \<noteq> 0" using holds_empty [OF n(1)] n(3) by simp
  then show ?thesis
    using codec part_over [OF n(1,2) size(2) cnt] size(1) cnt by (auto simp: decode_node_def codec_ok_def)
qed

lemma put_part:
  assumes codec: "codec_ok C K V" and n: "holds_with (tree C K V m h) K n es" "entries_ok K V es" "es \<noteq> []"
    and size: "length (leaves n) + length (children n) \<le> fanout" "length es \<le> max_uint64"
    and put: "put_json C (n\<lparr>ncount := node_count n\<rparr>) p = (Inr ref, p')" and m: "m \<subseteq>\<^sub>m objs p'"
  shows "tree C K V (objs p') (Suc h) ref es"
    "branch_ok K \<lparr>bmax = last_key n, bref = ref, bcount = node_count n\<rparr> es"
proof -
  let ?n = "n\<lparr>ncount := node_count n\<rparr>"
  note w = put_json_Inr [OF put]
  have d: "decode_node C (c_enc C ?n) = Inr ?n"
    by (rule decode_part [OF codec, where es = es and T = "tree C K V m h"]) (use n size in auto)
  have sha: "length (rsha ref) = 64" "list_all is_hex (rsha ref)" "K (rsha ref)" "K (rkey ref)" "rkey ref \<noteq> []"
    using codec w(1) by (auto simp: codec_ok_def node_key_def)
  have "load C (objs p') ref = Some ?n"
    using w sha d by (auto simp: load_def ref_validate_def equal_fold_def)
  moreover have "holds_with (tree C K V (objs p') h) K ?n es"
    using holds_with_mono [OF n(1), of "tree C K V (objs p') h"] tree_objs [OF _ m] by simp
  ultimately show "tree C K V (objs p') (Suc h) ref es" using n(2) by auto
  show "branch_ok K \<lparr>bmax = last_key n, bref = ref, bcount = node_count n\<rparr> es"
    using sha holds_count [OF n(1) size(2)] holds_last [OF n(1,3)] n(3) by (simp add: branch_ok_def)
qed

subsection \<open>Splitting\<close>

lemma halves:
  assumes "holds_with T K n es" "0 < mid" "mid < length (leaves n) + length (children n)"
  obtains a b where "es = a @ b" "a \<noteq> []" "b \<noteq> []"
    "holds_with T K (fst (split_halves n mid)) a" "holds_with T K (snd (split_halves n mid)) b"
proof (cases "children n = []")
  case True
  then have es: "es = entries_of (take mid (leaves n)) @ entries_of (drop mid (leaves n))"
    using assms(1) by (simp add: holds_with_def flip: entries_of_append)
  show thesis
    by (rule that [OF es]) (use assms True in \<open>auto simp: split_halves_def empty_node_def holds_with_def entries_of_def\<close>)
next
  case False
  then obtain ess where e: "es = concat ess" "leaves n = []" "list_all2 (\<lambda>c e. branch_ok K c e \<and> T (bref c) e) (children n) ess"
    using assms(1) by (auto simp: holds_with_def)
  have es: "es = concat (take mid ess) @ concat (drop mid ess)" using e(1) by (simp flip: concat_append)
  have t: "list_all2 (\<lambda>c e. branch_ok K c e \<and> T (bref c) e) (take mid (children n)) (take mid ess)"
    "list_all2 (\<lambda>c e. branch_ok K c e \<and> T (bref c) e) (drop mid (children n)) (drop mid ess)"
    using e(3) by (auto intro: list_all2_takeI list_all2_dropI)
  have h: "holds_with T K (fst (split_halves n mid)) (concat (take mid ess))"
    "holds_with T K (snd (split_halves n mid)) (concat (drop mid ess))"
    using t False assms(2,3) e(2) by (auto simp: split_halves_def empty_node_def holds_with_def)
  show thesis
    by (rule that [OF es _ _ h])
      (use holds_empty [OF h(1)] holds_empty [OF h(2)] False assms(2,3) e(2) in \<open>auto simp: split_halves_def empty_node_def\<close>)
qed

lemma split_node_parts:
  assumes "split_node C n = Inr parts" "holds_with T K n es" "es \<noteq> []"
  shows "\<exists>ess. concat ess = es \<and>
    list_all2 (\<lambda>q e. holds_with T K q e \<and> e \<noteq> [] \<and> length (leaves q) + length (children q) \<le> fanout) parts ess"
  using assms
proof (induction C n arbitrary: parts es rule: split_node.induct)
  case (1 C n)
  let ?count = "length (leaves n) + length (children n)"
  show ?case
  proof (cases "?count \<le> fanout \<and> length (c_enc C n) \<le> max_node_bytes")
    case True
    then have "parts = [n]" using "1.prems"(1) unfolding split_node.simps [of C n] Let_def by simp
    then show ?thesis using True "1.prems" by (intro exI [of _ "[es]"]) simp
  next
    case False
    then have c1: "\<not> ?count \<le> 1" using "1.prems"(1) unfolding split_node.simps [of C n] Let_def by auto
    let ?mid = "?count div 2"
    obtain pa pb where sp: "split_node C (fst (split_halves n ?mid)) = Inr pa"
      "split_node C (snd (split_halves n ?mid)) = Inr pb" "parts = pa @ pb"
      using "1.prems"(1) False c1 unfolding split_node.simps [of C n] Let_def by (auto simp: sbind_Inr_conv)
    have mid: "0 < ?mid" "?mid < ?count" using c1 by auto
    obtain a b where ab: "es = a @ b" "a \<noteq> []" "b \<noteq> []"
      "holds_with T K (fst (split_halves n ?mid)) a" "holds_with T K (snd (split_halves n ?mid)) b"
      by (rule halves [OF "1.prems"(2) mid])
    from "1.IH"(1) [OF refl False c1 sp(1) ab(4,2)] "1.IH"(2) [OF refl False c1 sp(1) sp(2) ab(5,3)]
    obtain ea eb where
      "concat ea = a" "list_all2 (\<lambda>q e. holds_with T K q e \<and> e \<noteq> [] \<and> length (leaves q) + length (children q) \<le> fanout) pa ea"
      "concat eb = b" "list_all2 (\<lambda>q e. holds_with T K q e \<and> e \<noteq> [] \<and> length (leaves q) + length (children q) \<le> fanout) pb eb"
      by blast
    then show ?thesis using ab(1) sp(3) by (intro exI [of _ "ea @ eb"]) (simp add: list_all2_appendI)
  qed
qed

lemma list_all2_extend:
  assumes "list_all2 (\<lambda>c e. branch_ok K c e \<and> tree C K V m h (bref c) e) cs ess" "m \<subseteq>\<^sub>m m'"
  shows "list_all2 (\<lambda>c e. branch_ok K c e \<and> tree C K V m' h (bref c) e) cs ess"
  by (rule list_all2_mono [OF assms(1)]) (use tree_objs assms(2) in blast)

lemma write_parts_trees:
  assumes "write_parts C qs p = (Inr bs, p')" "codec_ok C K V"
    "list_all2 (\<lambda>q e. holds_with (tree C K V m h) K q e \<and> e \<noteq> [] \<and> length (leaves q) + length (children q) \<le> fanout) qs ess"
    "entries_ok K V (concat ess)" "length (concat ess) \<le> max_uint64" "m \<subseteq>\<^sub>m objs p"
  shows "list_all2 (\<lambda>c e. branch_ok K c e \<and> tree C K V (objs p') (Suc h) (bref c) e) bs ess"
  using assms
proof (induction qs arbitrary: p bs ess)
  case (Cons q qs)
  let ?q = "q\<lparr>ncount := node_count q\<rparr>"
  obtain e es where ess: "ess = e # es" "holds_with (tree C K V m h) K q e" "e \<noteq> []"
    "length (leaves q) + length (children q) \<le> fanout"
    "list_all2 (\<lambda>q e. holds_with (tree C K V m h) K q e \<and> e \<noteq> [] \<and> length (leaves q) + length (children q) \<le> fanout) qs es"
    using Cons.prems(3) by (auto simp: list_all2_Cons1)
  obtain ref p1 cs where w: "put_json C ?q p = (Inr ref, p1)" "write_parts C qs p1 = (Inr cs, p')"
    "bs = \<lparr>bmax = last_key q, bref = ref, bcount = node_count q\<rparr> # cs"
    using Cons.prems(1) by (auto simp: Let_def andthen_Inr)
  have g: "objs p \<subseteq>\<^sub>m objs p1" "objs p1 \<subseteq>\<^sub>m objs p'"
    using growingD [OF growing_put_json w(1)] growingD [OF growing_write_parts w(2)] by (auto simp: grows_def)
  have m: "m \<subseteq>\<^sub>m objs p1" using Cons.prems(6) g(1) by (rule map_le_trans)
  have eo: "entries_ok K V e" "entries_ok K V (concat es)" "length e \<le> max_uint64"
    using entries_ok_append [of K V e "concat es"] Cons.prems(4,5) ess(1) by auto
  note t = put_part [OF Cons.prems(2) ess(2) eo(1) ess(3,4) eo(3) w(1) m]
  have "list_all2 (\<lambda>c e. branch_ok K c e \<and> tree C K V (objs p') (Suc h) (bref c) e) cs es"
    by (rule Cons.IH [OF w(2) Cons.prems(2) ess(5) eo(2) _ m]) (use Cons.prems(5) ess(1) in auto)
  then show ?case using t(2) tree_objs [OF t(1) g(2)] w(3) ess(1) by simp
qed simp

lemma store_node_trees:
  assumes "store_node C n p = (Inr bs, p')" "codec_ok C K V" "holds_with (tree C K V m h) K n es"
    "entries_ok K V es" "length es \<le> max_uint64" "m \<subseteq>\<^sub>m objs p"
  shows "\<exists>ess. concat ess = es \<and> list_all2 (\<lambda>c e. branch_ok K c e \<and> tree C K V (objs p') (Suc h) (bref c) e) bs ess"
proof (cases "es = []")
  case True
  then show ?thesis using assms(1) holds_empty [OF assms(3)] by (auto simp: store_node_def intro: exI [of _ "[]"])
next
  case False
  then obtain parts where s: "split_node C n = Inr parts" "write_parts C parts p = (Inr bs, p')"
    using assms(1) holds_empty [OF assms(3)] by (auto simp: store_node_def andthen_Inr)
  from split_node_parts [OF s(1) assms(3) False] obtain ess where e: "concat ess = es"
    "list_all2 (\<lambda>q e. holds_with (tree C K V m h) K q e \<and> e \<noteq> [] \<and> length (leaves q) + length (children q) \<le> fanout) parts ess"
    by blast
  have "list_all2 (\<lambda>c e. branch_ok K c e \<and> tree C K V (objs p') (Suc h) (bref c) e) bs ess"
    by (rule write_parts_trees [OF s(2) assms(2) e(2)]) (use e(1) assms(4-6) in auto)
  then show ?thesis using e(1) by blast
qed

subsection \<open>Changing one entry\<close>

lemma change_leaves_entries:
  assumes "sorted_wrt (<) (map ikey ls)"
  shows "entries_of (change_leaves ls key val) = upd key val (entries_of ls)"
proof -
  from leaf_choice [OF assms, of key] obtain A B where AB: "ls = A @ B" "leaf_index ls key = length A"
    "\<forall>e\<in>set (entries_of A). fst e < key" "\<forall>e\<in>set (entries_of B). key \<le> fst e" .
  have ks: "key_sorted (entries_of A @ entries_of B)" using assms AB(1) key_sorted_entries [of ls] by simp
  note at = sorted_at(1,2) [OF ks AB(3,4)]
  define B' where "B' = (if B \<noteq> [] \<and> ikey (hd B) = key then tl B else B)"
  have "(if length A < length ls \<and> ikey (ls ! length A) = key then take (length A) ls @ drop (Suc (length A)) ls else ls)
      = A @ B'"
    unfolding AB(1) B'_def by (cases B) auto
  then have "change_leaves ls key val = A @ (case val of None \<Rightarrow> [] | Some v \<Rightarrow> [\<lparr>ikey = key, ival = v\<rparr>]) @ B'"
    unfolding change_leaves_def AB(2) Let_def by (auto split: option.split)
  moreover have "entries_of B' = entries_above key (entries_of A @ entries_of B)"
    unfolding at B'_def by (cases B) auto
  ultimately show ?thesis using at(1) unfolding upd_def AB(1) by (auto split: option.split)
qed

lemma change_trees:
  assumes "change C r ref key val p = (Inr bs, p')" "codec_ok C K V" "tree C K V (objs p) h ref es"
    "K key" "length key \<le> 4096" "\<And>v. val = Some v \<Longrightarrow> V v" "length es < max_uint64"
  shows "\<exists>ess. concat ess = upd key val es \<and>
    list_all2 (\<lambda>c e. branch_ok K c e \<and> tree C K V (objs p') h (bref c) e) bs ess"
  using assms(1,3,7)
proof (induction r arbitrary: p ref h es bs p')
  case (Suc r)
  obtain n p1 where rd: "read_node C ref p = (Inr n, p1)" using Suc.prems(1) by (auto simp: andthen_Inr)
  have ld: "load C (objs p) ref = Some n" "objs p1 = objs p" using read_node_load [OF rd] by auto
  obtain h2 where h: "h = Suc h2" using Suc.prems(2) by (cases h) auto
  have hw: "holds_with (tree C K V (objs p) h2) K n es" "entries_ok K V es" using Suc.prems(2) ld h by auto
  then have ks: "key_sorted es" by (simp add: entries_ok_def)
  have eu: "entries_ok K V (upd key val es)" by (rule entries_ok_upd [OF hw(2) assms(4-6)])
  have lu: "length (upd key val es) \<le> max_uint64" using length_upd [of key val es] Suc.prems(3) by simp
  show ?case
  proof (cases "children n = []")
    case True
    then have es: "es = entries_of (leaves n)" using hw by (simp add: holds_with_def)
    have so: "sorted_wrt (<) (map ikey (leaves n))" using ks es by (simp add: key_sorted_entries)
    let ?n = "n\<lparr>leaves := change_leaves (leaves n) key val\<rparr>"
    have hn: "holds_with (tree C K V (objs p) h2) K ?n (upd key val es)"
      using True change_leaves_entries [OF so] es by (simp add: holds_with_def)
    have st: "store_node C ?n p1 = (Inr bs, p')"
      using Suc.prems(1) rd True by (simp add: andthen_def)
    show ?thesis unfolding h
      by (rule store_node_trees [OF st assms(2) hn eu lu]) (simp add: ld(2))
  next
    case False
    then obtain ess where e: "es = concat ess" "leaves n = []"
      "list_all2 (\<lambda>c e. branch_ok K c e \<and> tree C K V (objs p) h2 (bref c) e) (children n) ess"
      using hw by (auto simp: holds_with_def)
    have kc: "key_sorted (concat ess)" using ks e(1) by simp
    define i where "i = (if child_index (children n) key = length (children n) then child_index (children n) key - 1
      else child_index (children n) key)"
    from child_choice [OF e(3) kc False i_def] obtain A c B X f Y where ch:
      "children n = A @ c # B" "ess = X @ f # Y" "length A = i"
      "list_all2 (\<lambda>c e. branch_ok K c e \<and> tree C K V (objs p) h2 (bref c) e) A X"
      "list_all2 (\<lambda>c e. branch_ok K c e \<and> tree C K V (objs p) h2 (bref c) e) B Y"
      "branch_ok K c f" "tree C K V (objs p) h2 (bref c) f"
      "\<forall>x\<in>set (concat X). fst x < key" "\<forall>x\<in>set (concat Y). key < fst x"
      "child_index (children n) key = length (children n) \<longrightarrow> map_of (concat ess) key = None" .
    have nth: "children n ! i = c" "take i (children n) = A" "drop (Suc i) (children n) = B"
      using ch(1,3) by auto
    obtain changed p2 where c2: "change C r (bref c) key val p1 = (Inr changed, p2)"
      "store_node C (n\<lparr>children := A @ changed @ B\<rparr>) p2 = (Inr bs, p')"
      using Suc.prems(1) rd False nth by (auto simp: andthen_Inr Let_def i_def [symmetric])
    have "length f < max_uint64" using Suc.prems(3) e(1) ch(2) by simp
    from Suc.IH [OF c2(1), unfolded ld(2), OF ch(7) this] obtain es2 where e2: "concat es2 = upd key val f"
      "list_all2 (\<lambda>c e. branch_ok K c e \<and> tree C K V (objs p2) h2 (bref c) e) changed es2" by blast
    have g: "objs p \<subseteq>\<^sub>m objs p2" using growingD [OF growing_change c2(1)] ld(2) by (simp add: grows_def)
    have all: "list_all2 (\<lambda>c e. branch_ok K c e \<and> tree C K V (objs p2) h2 (bref c) e) (A @ changed @ B) (X @ es2 @ Y)"
      by (intro list_all2_appendI e2(2) list_all2_extend [OF ch(4) g] list_all2_extend [OF ch(5) g])
    have cc: "concat (X @ es2 @ Y) = upd key val es"
      using upd_around [OF ch(8,9), of val f] e(1) e2(1) ch(2) by simp
    have hn: "holds_with (tree C K V (objs p2) h2) K (n\<lparr>children := A @ changed @ B\<rparr>) (upd key val es)"
    proof (cases "A @ changed @ B = []")
      case True
      then have "X @ es2 @ Y = []" using all by simp
      then show ?thesis using True cc e(2) by (simp add: holds_with_def)
    next
      case False
      then show ?thesis using all cc e(2) by (auto simp: holds_with_def simp del: append_is_Nil_conv concat_append)
    qed
    show ?thesis unfolding h by (rule store_node_trees [OF c2(2) assms(2) hn eu lu]) simp
  qed
qed simp

lemma update_step:
  "length key \<le> 4096 \<Longrightarrow> update_tree C ref key value p = r \<Longrightarrow>
   andthen (case value of None \<Rightarrow> give None | Some r \<Rightarrow> andthen (lift_sum r) (\<lambda>b. give (Some b))) (\<lambda>raw.
     andthen (change C max_depth ref key raw) (\<lambda>parts.
          if parts = [] then give no_ref
          else if length parts = 1 then give (bref (hd parts))
          else (let n = empty_node\<lparr>children := parts\<rparr> in put_json C (n\<lparr>ncount := node_count n\<rparr>)))) p = r"
  by (simp add: update_tree_def)

theorem update_trees:
  assumes "update_tree C ref key value p = (Inr ref', p')" "codec_ok C K V" "tree C K V (objs p) h ref es"
    "K key" "\<And>v. value = Some (Inr v) \<Longrightarrow> V v" "length es < max_uint64" "load C (objs p') ref' \<noteq> None"
  shows "tree C K V (objs p') (Suc h) ref' (upd key (map_option projr value) es)"
proof -
  obtain val parts p1 where u: "length key \<le> 4096" "value = map_option Inr val"
    "change C max_depth ref key val p = (Inr parts, p1)"
    "(if parts = [] then give no_ref else if length parts = 1 then give (bref (hd parts))
      else (let n = empty_node\<lparr>children := parts\<rparr> in put_json C (n\<lparr>ncount := node_count n\<rparr>))) p1 = (Inr ref', p')"
  proof -
    have k: "length key \<le> 4096" using assms(1) by (auto simp: update_tree_def split: if_splits)
    obtain raw p0 where r: "(case value of None \<Rightarrow> give None | Some r \<Rightarrow> andthen (lift_sum r) (\<lambda>b. give (Some b))) p = (Inr raw, p0)"
      "andthen (change C max_depth ref key raw) (\<lambda>parts.
          if parts = [] then give no_ref
          else if length parts = 1 then give (bref (hd parts))
          else (let n = empty_node\<lparr>children := parts\<rparr> in put_json C (n\<lparr>ncount := node_count n\<rparr>))) p0 = (Inr ref', p')"
      by (rule andthen_InrE [OF update_step [OF k assms(1)]])
    have "value = map_option Inr raw" "p0 = p" using r(1) by (auto simp: andthen_Inr split: option.splits)
    then show thesis using r(2) k that by (auto simp only: andthen_Inr)
  qed
  have v: "map_option projr value = val" using u(2) by (cases val) auto
  have vv: "\<And>x. val = Some x \<Longrightarrow> V x" using assms(5) u(2) by auto
  obtain h2 where h: "h = Suc h2" using assms(3) by (cases h) auto
  from change_trees [OF u(3) assms(2,3,4) u(1) vv assms(6)] obtain ess where e: "concat ess = upd key val es"
    "list_all2 (\<lambda>c e. branch_ok K c e \<and> tree C K V (objs p1) h (bref c) e) parts ess" by blast
  have eu: "entries_ok K V (upd key val es)"
    by (rule entries_ok_upd [OF tree_entries_ok [OF assms(3)] assms(4) u(1) vv])
  have lu: "length (upd key val es) \<le> max_uint64" using length_upd [of key val es] assms(6) by simp
  consider (none) "parts = []" | (one) b where "parts = [b]" | (more) "1 < length parts"
    by (cases parts; cases "tl parts") auto
  then show ?thesis
  proof cases
    case none
    then show ?thesis using e u(4) v tree_no_ref by simp
  next
    case one
    then obtain f where "ess = [f]" "tree C K V (objs p1) h (bref b) f" using e(2) by (auto simp: list_all2_Cons1)
    then show ?thesis using one e(1) u(4) v tree_higher [of C K V "objs p1" h _ _ "Suc h"] by simp
  next
    case more
    let ?n = "empty_node\<lparr>children := parts\<rparr>"
    have put: "put_json C (?n\<lparr>ncount := node_count ?n\<rparr>) p1 = (Inr ref', p')"
    proof -
      have "parts \<noteq> []" "length parts \<noteq> 1" using more by auto
      then show ?thesis using u(4) by (simp add: Let_def)
    qed
    have hn: "holds_with (tree C K V (objs p1) h) K ?n (upd key val es)"
      using e(1) [symmetric] e(2) more by (auto simp: holds_with_def empty_node_def intro!: exI [of _ ess])
    have ne: "upd key val es \<noteq> []" using holds_empty [OF hn] more by auto
    have fan: "length parts \<le> fanout"
    proof -
      let ?n' = "?n\<lparr>ncount := node_count ?n\<rparr>"
      note w = put_json_Inr [OF put]
      have "node_over K V ?n'" by (rule part_over(1) [OF _ eu lu]) (use hn in auto)
      then have dec: "c_dec C (c_enc C ?n') = Some ?n'" using assms(2) by (simp add: codec_ok_def)
      obtain n' where n': "load C (objs p') ref' = Some n'" using assms(7) by auto
      have "rkey ref' \<noteq> []" using w(1) by (simp add: node_key_def)
      then have "n' = ?n'" "length (children n') \<le> fanout"
        using n' w(2) dec load_valid(3) [OF n']
        by (auto simp: load_def decode_node_def sbind_Inr_conv split: sum.splits if_splits)
      then show ?thesis by simp
    qed
    have g: "objs p1 \<subseteq>\<^sub>m objs p'" using growingD [OF growing_put_json put] by (simp add: grows_def)
    have "tree C K V (objs p') (Suc h) ref' (upd key val es)"
      by (rule put_part(1) [OF assms(2) hn eu ne _ lu put g]) (use fan in \<open>simp add: empty_node_def\<close>)
    then show ?thesis using v by simp
  qed
qed

subsection \<open>Sequences of updates\<close>

text \<open>
  A sequence of updates from the empty root. Every update reads the root it starts from, and the last
  root is read by the lookup, so no root on the way has to be assumed readable.
\<close>

fun updates :: "cenv \<Rightarrow> objref \<Rightarrow> (bytes \<times> bytes option) list \<Rightarrow> objref op" where
  "updates C ref [] = give ref"
| "updates C ref ((k, v) # cs) = andthen (update_tree C ref k (map_option Inr v)) (\<lambda>r. updates C r cs)"

definition latest :: "(bytes \<times> bytes option) list \<Rightarrow> bytes \<Rightarrow> bytes option" where
  "latest cs = foldl (\<lambda>m (k, v). m(k := v)) Map.empty cs"

lemma change_reads: "change C r ref key v p = (Inr bs, p') \<Longrightarrow> load C (objs p) ref \<noteq> None"
proof (cases r)
  case (Suc r')
  assume "change C r ref key v p = (Inr bs, p')"
  then obtain n p1 where "read_node C ref p = (Inr n, p1)" using Suc by (auto simp: andthen_Inr)
  then show ?thesis by (auto dest: read_node_load)
qed simp

lemma update_reads: "update_tree C ref key v p = (Inr ref', p') \<Longrightarrow> load C (objs p) ref \<noteq> None"
  by (auto simp: update_tree_def andthen_Inr split: if_splits option.splits dest: change_reads)

lemma lookup_reads: "lookup_rounds C r ref key p = (Inr v, p') \<Longrightarrow> load C (objs p) ref \<noteq> None"
  by (cases r) (auto simp: andthen_Inr dest: read_node_load)

lemma updates_tree:
  assumes "updates C ref cs p = (Inr r, p')" "codec_ok C K V" "\<forall>(k, v)\<in>set cs. K k \<and> (\<forall>x. v = Some x \<longrightarrow> V x)"
    "length es + length cs \<le> max_uint64" "load C (objs p') r \<noteq> None"
    "load C (objs p) ref \<noteq> None \<Longrightarrow> \<exists>h. tree C K V (objs p) h ref es"
  shows "\<exists>h es'. tree C K V (objs p') h r es' \<and> map_of es' = foldl (\<lambda>m (k, v). m(k := v)) (map_of es) cs"
  using assms(1,3-6)
proof (induction cs arbitrary: ref p es)
  case (Cons c cs)
  obtain k v where c: "c = (k, v)" by (cases c)
  obtain ref1 p1 where u: "update_tree C ref k (map_option Inr v) p = (Inr ref1, p1)" "updates C ref1 cs p1 = (Inr r, p')"
    using Cons.prems(1) c by (auto simp: andthen_Inr)
  obtain h where h: "tree C K V (objs p) h ref es" using Cons.prems(5) update_reads [OF u(1)] by blast
  have kv: "K k" "\<And>x. map_option Inr v = Some (Inr x) \<Longrightarrow> V x" using Cons.prems(2) c by auto
  have v: "map_option projr (map_option Inr v) = v" by (cases v) auto
  have len: "length es < max_uint64" using Cons.prems(3) by simp
  have nx: "load C (objs p1) ref1 \<noteq> None \<Longrightarrow> \<exists>h. tree C K V (objs p1) h ref1 (upd k v es)"
    using update_trees [OF u(1) assms(2) h kv len] unfolding v by blast
  have l2: "length (upd k v es) + length cs \<le> max_uint64" using Cons.prems(3) length_upd [of k v es] by simp
  have "\<forall>(k, v)\<in>set cs. K k \<and> (\<forall>x. v = Some x \<longrightarrow> V x)" using Cons.prems(2) by simp
  from Cons.IH [OF u(2) this l2 Cons.prems(4) nx] show ?case using c by (simp add: map_of_upd)
qed auto

text \<open>Lookups see only what their root reaches, so objects added later do not change them.\<close>

lemma next_fault_cong:
  "next_fault (p\<lparr>objs := m\<rparr>) = (fst (next_fault p), (snd (next_fault p))\<lparr>objs := m\<rparr>)"
  by (auto simp: next_fault_def split: list.split)

lemma get_limited_grown:
  assumes "get_limited key l p = (Inr raw, p')" "objs p \<subseteq>\<^sub>m m"
  shows "get_limited key l (p\<lparr>objs := m\<rparr>) = (Inr raw, p'\<lparr>objs := m\<rparr>)"
proof -
  obtain f p1 where f: "next_fault p = (f, p1)" by (cases "next_fault p")
  have o: "objs p1 = objs p" by (rule next_fault_objs [OF f])
  have "objs p key = Some raw" "f = Fine" "p' = p1" "length raw \<le> l"
    using assms(1) f o by (auto simp: get_limited_def split: fault.splits option.splits if_splits)
  moreover from this have "m key = Some raw" using assms(2) by (metis domI map_le_def)
  ultimately show ?thesis using f by (simp add: get_limited_def next_fault_cong)
qed

lemma read_node_grown:
  assumes "read_node C ref p = (Inr n, p')" "objs p \<subseteq>\<^sub>m m"
  shows "read_node C ref (p\<lparr>objs := m\<rparr>) = (Inr n, p'\<lparr>objs := m\<rparr>)"
proof (cases "rkey ref = []")
  case True
  then show ?thesis using assms(1) by (auto simp: read_node_def andthen_def lift_sum_def give_def split: prod.splits sum.splits)
next
  case False
  then obtain raw where r: "ref_validate ref = Inr ()" "get_limited (rkey ref) max_node_bytes p = (Inr raw, p')"
    "length raw \<le> max_node_bytes" "equal_fold (c_sha C raw) (rsha ref)" "decode_node C raw = Inr n"
    using assms(1) by (auto simp: read_node_def read_ref_def andthen_Inr split: if_splits)
  show ?thesis
    using r False get_limited_grown [OF r(2) assms(2)] by (simp add: read_node_def read_ref_def andthen_def lift_sum_def give_def)
qed

lemma lookup_rounds_grown:
  "lookup_rounds C r ref key p = (Inr v, p') \<Longrightarrow> objs p \<subseteq>\<^sub>m m \<Longrightarrow>
   lookup_rounds C r ref key (p\<lparr>objs := m\<rparr>) = (Inr v, p'\<lparr>objs := m\<rparr>)"
proof (induction r arbitrary: ref p)
  case (Suc r)
  obtain n p1 where rd: "read_node C ref p = (Inr n, p1)" using Suc.prems(1) by (auto simp: andthen_Inr)
  have o: "objs p1 = objs p" using read_node_load [OF rd] by simp
  note g = read_node_grown [OF rd Suc.prems(2)]
  show ?case using Suc.prems rd g o Suc.IH by (auto simp: andthen_def Let_def give_def split: if_splits)
qed simp

subsection \<open>Lookups return\<close>

lemma read_node_fine:
  assumes "load C (objs p) ref = Some n" "faults p = []"
  shows "read_node C ref p = (Inr n, p)"
  using assms
  by (auto simp: load_def read_node_def read_ref_def andthen_def lift_sum_def give_def get_limited_def next_fault_def
      split: sum.splits option.splits if_splits)

lemma lookup_rounds_total:
  "tree C K V (objs p) h ref es \<Longrightarrow> faults p = [] \<Longrightarrow> h \<le> r \<Longrightarrow> \<exists>v. lookup_rounds C r ref key p = (Inr v, p)"
proof (induction r arbitrary: h ref es)
  case (Suc r)
  obtain h2 where h: "h = Suc h2" using Suc.prems(1) by (cases h) auto
  obtain n where n: "load C (objs p) ref = Some n" "holds_with (tree C K V (objs p) h2) K n es" using Suc.prems(1) h by auto
  note rd = read_node_fine [OF n(1) Suc.prems(2)]
  show ?case
  proof (cases "children n = [] \<or> child_index (children n) key = length (children n)")
    case True
    then show ?thesis using rd by (auto simp: andthen_def give_def Let_def)
  next
    case False
    let ?i = "child_index (children n) key"
    obtain ess where e: "es = concat ess" "list_all2 (\<lambda>c e. branch_ok K c e \<and> tree C K V (objs p) h2 (bref c) e) (children n) ess"
      using n(2) False by (auto simp: holds_with_def)
    have kc: "key_sorted (concat ess)" using tree_entries_ok [OF Suc.prems(1)] e(1) by (simp add: entries_ok_def)
    have "children n \<noteq> []" using False by simp
    from child_choice [OF e(2) kc this refl, of key] obtain A c B X f Y where ch:
      "children n = A @ c # B" "ess = X @ f # Y" "length A = (if ?i = length (children n) then ?i - 1 else ?i)"
      "list_all2 (\<lambda>c e. branch_ok K c e \<and> tree C K V (objs p) h2 (bref c) e) A X"
      "list_all2 (\<lambda>c e. branch_ok K c e \<and> tree C K V (objs p) h2 (bref c) e) B Y"
      "branch_ok K c f" "tree C K V (objs p) h2 (bref c) f"
      "\<forall>x\<in>set (concat X). fst x < key" "\<forall>x\<in>set (concat Y). key < fst x"
      "?i = length (children n) \<longrightarrow> map_of (concat ess) key = None" .
    then have "children n ! ?i = c" using False by (metis nth_append_length)
    moreover obtain v where "lookup_rounds C r (bref c) key p = (Inr v, p)"
      using Suc.IH [OF ch(7) Suc.prems(2)] Suc.prems(3) h by auto
    ultimately show ?thesis using rd False by (simp add: andthen_def Let_def)
  qed
qed simp

text \<open>An update of a root that is a leaf and stays one node.\<close>

lemma update_leaf:
  assumes "load C (objs p) ref = Some n" "faults p = []" "children n = []" "length key \<le> 4096"
    "ls = change_leaves (leaves n) key (Some v)" "ls \<noteq> []" "length ls \<le> fanout" "n' = n\<lparr>leaves := ls, ncount := length ls\<rparr>"
    "length (c_enc C (n\<lparr>leaves := ls\<rparr>)) \<le> max_node_bytes" "length (c_enc C n') \<le> max_node_bytes"
    "d = c_sha C (c_enc C n')" "objs p (node_key d) = None"
  shows "update_tree C ref key (Some (Inr v)) p =
     (Inr \<lparr>rkey = node_key d, rsha = d\<rparr>, p\<lparr>objs := (objs p)(node_key d \<mapsto> c_enc C n')\<rparr>)"
proof -
  let ?n = "n\<lparr>leaves := ls\<rparr>"
  have n': "n' = ?n\<lparr>ncount := node_count ?n\<rparr>" using assms(3,8) by (cases n) (simp add: node_count_def)
  have sp: "split_node C ?n = Inr [?n]" using assms(3,7,9) by (subst split_node.simps) (simp add: Let_def)
  have put: "put_json C n' p = (Inr \<lparr>rkey = node_key d, rsha = d\<rparr>, p\<lparr>objs := (objs p)(node_key d \<mapsto> c_enc C n')\<rparr>)"
    using assms(2,10-12)
    by (simp add: put_json_def put_immutable_def andthen_def check_write_authority_def next_fault_def Let_def put_create_def)
  have "change C max_depth ref key (Some v) p =
     (Inr [\<lparr>bmax = last_key n', bref = \<lparr>rkey = node_key d, rsha = d\<rparr>, bcount = ncount n'\<rparr>],
      p\<lparr>objs := (objs p)(node_key d \<mapsto> c_enc C n')\<rparr>)"
    using read_node_fine [OF assms(1,2)] assms(3,5,6) sp put n'
    by (simp add: max_depth_def numeral_eq_Suc andthen_def store_node_def lift_sum_def give_def Let_def)
  then show ?thesis using assms(4) by (simp add: update_tree_def andthen_def lift_sum_def give_def)
qed

end
