(* ===== verification/CatalogMap.thy ===== *)
theory CatalogMap
  imports CatalogUpdate
begin

text \<open>
  The catalog tree as a persistent map: the properties of lookups and updates, over any sequence of
  updates and any faults of the provider. The witnesses run the tree on a small codec.
\<close>

subsection \<open>A codec\<close>

definition toy_str :: "bytes \<Rightarrow> bytes" where
  "toy_str s = concat (map (\<lambda>c. [CHR ''1'', c]) s) @ ''0''"

fun toy_get :: "bytes \<Rightarrow> (bytes \<times> bytes) option" where
  "toy_get (c # r) =
     (if c = CHR ''0'' then Some ([], r)
      else (case r of [] \<Rightarrow> None | d # r' \<Rightarrow> map_option (\<lambda>(s, t). (d # s, t)) (toy_get r')))"
| "toy_get [] = None"

definition toy_list :: "('a \<Rightarrow> bytes) \<Rightarrow> 'a list \<Rightarrow> bytes" where
  "toy_list f xs = concat (map (\<lambda>x. CHR ''1'' # f x) xs) @ ''0''"

fun toy_gets :: "(bytes \<Rightarrow> ('a \<times> bytes) option) \<Rightarrow> nat \<Rightarrow> bytes \<Rightarrow> ('a list \<times> bytes) option" where
  "toy_gets d 0 s = None"
| "toy_gets d (Suc k) s =
     (case s of [] \<Rightarrow> None
      | c # r \<Rightarrow>
        (if c = CHR ''0'' then Some ([], r)
         else Option.bind (d r) (\<lambda>(x, t). map_option (\<lambda>(xs, u). (x # xs, u)) (toy_gets d k t))))"

definition toy_item :: "item \<Rightarrow> bytes" where
  "toy_item v = toy_str (ikey v) @ toy_str (ival v)"

definition toy_get_item :: "bytes \<Rightarrow> (item \<times> bytes) option" where
  "toy_get_item s = Option.bind (toy_get s) (\<lambda>(k, t). Option.bind (toy_get t) (\<lambda>(v, u). Some (\<lparr>ikey = k, ival = v\<rparr>, u)))"

definition toy_branch :: "branch \<Rightarrow> bytes" where
  "toy_branch c = toy_str (bmax c) @ toy_str (rkey (bref c)) @ toy_str (rsha (bref c)) @ toy_str (replicate (bcount c) CHR ''x'')"

definition toy_get_branch :: "bytes \<Rightarrow> (branch \<times> bytes) option" where
  "toy_get_branch s = Option.bind (toy_get s) (\<lambda>(m, t). Option.bind (toy_get t) (\<lambda>(k, u).
     Option.bind (toy_get u) (\<lambda>(h, w). Option.bind (toy_get w) (\<lambda>(n, x).
     Some (\<lparr>bmax = m, bref = \<lparr>rkey = k, rsha = h\<rparr>, bcount = length n\<rparr>, x)))))"

definition toy_enc :: "node \<Rightarrow> bytes" where
  "toy_enc n = toy_str (replicate (ncount n) CHR ''x'') @ toy_list toy_item (leaves n) @ toy_list toy_branch (children n)"

definition toy_dec :: "bytes \<Rightarrow> node option" where
  "toy_dec s = Option.bind (toy_get s) (\<lambda>(c, t). Option.bind (toy_gets toy_get_item (length t) t) (\<lambda>(ls, u).
     Option.bind (toy_gets toy_get_branch (length u) u) (\<lambda>(cs, x).
     Some \<lparr>ncount = length c, leaves = ls, children = cs\<rparr>)))"

definition toy_sha :: "bytes \<Rightarrow> bytes" where
  "toy_sha b = replicate 64 (''0123456789'' ! (length b mod 10))"

definition toy :: cenv where
  "toy = \<lparr>c_sha = toy_sha, c_enc = toy_enc, c_dec = toy_dec\<rparr>"

lemma toy_get_str: "toy_get (toy_str s @ r) = Some (s, r)"
  by (induction s) (auto simp: toy_str_def)

lemma toy_gets_list:
  "(\<And>x r. d (f x @ r) = Some (x, r)) \<Longrightarrow> length xs < k \<Longrightarrow> toy_gets d k (toy_list f xs @ r) = Some (xs, r)"
proof (induction xs arbitrary: k)
  case Nil
  then show ?case by (cases k) (auto simp: toy_list_def)
next
  case (Cons x xs)
  then obtain k' where k: "k = Suc k'" "length xs < k'" by (cases k) auto
  have "toy_list f (x # xs) @ r = CHR ''1'' # (f x @ (toy_list f xs @ r))" by (simp add: toy_list_def)
  then show ?case using Cons.IH [OF Cons.prems(1) k(2)] Cons.prems(1) k(1) by simp
qed

lemma toy_list_length: "length xs < length (toy_list f xs)"
  by (induction xs) (auto simp: toy_list_def)

lemma toy_items: "toy_get_item (toy_item v @ r) = Some (v, r)"
  by (simp add: toy_item_def toy_get_item_def toy_get_str)

lemma toy_branches: "toy_get_branch (toy_branch c @ r) = Some (c, r)"
  by (simp add: toy_branch_def toy_get_branch_def toy_get_str)

lemma toy_round: "toy_dec (toy_enc n) = Some n"
proof -
  have a: "toy_gets toy_get_item k (toy_list toy_item ls @ r) = Some (ls, r)" if "length (toy_list toy_item ls @ r) = k" for k ls r
    by (rule toy_gets_list [OF toy_items]) (use that toy_list_length [of ls toy_item] in simp)
  have b: "toy_gets toy_get_branch k (toy_list toy_branch cs) = Some (cs, [])" if "length (toy_list toy_branch cs) = k" for k cs
    using toy_gets_list [of toy_get_branch toy_branch cs k "[]", OF toy_branches] that toy_list_length [of cs toy_branch] by simp
  show ?thesis unfolding toy_dec_def toy_enc_def by (simp add: toy_get_str a b)
qed

lemma toy_codec: "codec_ok toy (\<lambda>_. True) (\<lambda>_. True)"
proof -
  have "is_hex (''0123456789'' ! k)" if "k < 10" for k
  proof -
    have "''0123456789'' ! k \<in> set ''0123456789''" using that by (intro nth_mem) simp
    then show ?thesis by (auto simp: is_hex_def)
  qed
  then show ?thesis by (simp add: codec_ok_def toy_def toy_sha_def toy_round list_all_iff)
qed

definition toy_prov :: prov where
  "toy_prov = \<lparr>objs = Map.empty, faults = []\<rparr>"

subsection \<open>A run\<close>

definition toy_n1 :: node where
  "toy_n1 = \<lparr>ncount = 1, leaves = [\<lparr>ikey = ''a'', ival = ''1''\<rparr>], children = []\<rparr>"

definition toy_n2 :: node where
  "toy_n2 = \<lparr>ncount = 2, leaves = [\<lparr>ikey = ''a'', ival = ''1''\<rparr>, \<lparr>ikey = ''b'', ival = ''22''\<rparr>], children = []\<rparr>"

definition toy_ref :: "node \<Rightarrow> objref" where
  "toy_ref n = \<lparr>rkey = node_key (toy_sha (toy_enc n)), rsha = toy_sha (toy_enc n)\<rparr>"

definition toy_p1 :: prov where
  "toy_p1 = toy_prov\<lparr>objs := [rkey (toy_ref toy_n1) \<mapsto> toy_enc toy_n1]\<rparr>"

definition toy_p2 :: prov where
  "toy_p2 = toy_p1\<lparr>objs := (objs toy_p1)(rkey (toy_ref toy_n2) \<mapsto> toy_enc toy_n2)\<rparr>"

lemma toy_lengths: "length (toy_enc toy_n1) = 12" "length (toy_enc toy_n2) = 23"
  "length (toy_enc (toy_n1\<lparr>ncount := 0\<rparr>)) = 10" "length (toy_enc (toy_n2\<lparr>ncount := 1\<rparr>)) = 21"
  by (simp_all add: toy_enc_def toy_str_def toy_list_def toy_item_def toy_n1_def toy_n2_def numeral_eq_Suc)

lemma toy_keys: "rkey (toy_ref toy_n1) \<noteq> rkey (toy_ref toy_n2)"
  by (simp add: toy_ref_def node_key_def toy_sha_def toy_lengths)

lemma toy_load:
  assumes "objs p (rkey (toy_ref n)) = Some (toy_enc n)" "n \<in> {toy_n1, toy_n2}"
  shows "load toy (objs p) (toy_ref n) = Some n"
proof -
  have "length (rsha (toy_ref n)) = 64" "list_all is_hex (rsha (toy_ref n))" "rkey (toy_ref n) \<noteq> []"
    using toy_codec by (auto simp: codec_ok_def toy_def toy_ref_def node_key_def)
  moreover have "decode_node toy (toy_enc n) = Inr n"
    using assms(2) by (auto simp: decode_node_def toy_def toy_round)
      (auto simp: toy_n1_def toy_n2_def node_count_def fanout_def)
  moreover have "length (toy_enc n) \<le> max_node_bytes" using assms(2) toy_lengths by (auto simp: max_node_bytes_def)
  ultimately show ?thesis using assms(1) by (simp add: load_def ref_validate_def equal_fold_def toy_ref_def toy_def)
qed

lemma leaf_index_small:
  "leaf_index [] k = 0" "leaf_index [v] k = (if ikey v < k then 1 else 0)"
  by (simp_all add: leaf_index_def sort_search_def sort_search_loop.simps [of _ 0 "Suc 0"]
     sort_search_loop.simps [of _ "Suc 0" "Suc 0"] sort_search_loop.simps [of _ 0 0] Let_def not_less)

lemma toy_update1: "update_tree toy no_ref ''a'' (Some (Inr ''1'')) toy_prov = (Inr (toy_ref toy_n1), toy_p1)"
proof -
  have n: "empty_node\<lparr>leaves := change_leaves [] ''a'' (Some ''1'')\<rparr> = toy_n1\<lparr>ncount := 0\<rparr>"
    "change_leaves [] ''a'' (Some ''1'') = [\<lparr>ikey = ''a'', ival = ''1''\<rparr>]"
    by (simp_all add: empty_node_def change_leaves_def leaf_index_small toy_n1_def)
  show ?thesis
    unfolding toy_p1_def toy_ref_def
    by (subst update_leaf [of toy toy_prov no_ref empty_node "''a''" _ "''1''" toy_n1 "toy_sha (toy_enc toy_n1)"])
      (use n toy_lengths in \<open>auto simp: load_def ref_validate_def no_ref_def toy_prov_def empty_node_def fanout_def toy_def
        max_node_bytes_def toy_n1_def\<close>)
qed

lemma toy_update2: "update_tree toy (toy_ref toy_n1) ''b'' (Some (Inr ''22'')) toy_p1 = (Inr (toy_ref toy_n2), toy_p2)"
proof -
  have n: "toy_n1\<lparr>leaves := change_leaves (leaves toy_n1) ''b'' (Some ''22'')\<rparr> = toy_n2\<lparr>ncount := 1\<rparr>"
    "change_leaves (leaves toy_n1) ''b'' (Some ''22'') = leaves toy_n2"
    by (simp_all add: change_leaves_def leaf_index_small toy_n1_def toy_n2_def)
  have l: "load toy (objs toy_p1) (toy_ref toy_n1) = Some toy_n1" by (rule toy_load) (simp_all add: toy_p1_def)
  have k: "objs toy_p1 (rkey (toy_ref toy_n2)) = None" using toy_keys by (simp add: toy_p1_def toy_prov_def)
  show ?thesis
    unfolding toy_p2_def toy_ref_def [of toy_n2]
    by (subst update_leaf [of toy toy_p1 "toy_ref toy_n1" toy_n1 "''b''" _ "''22''" toy_n2 "toy_sha (toy_enc toy_n2)"])
      (use n toy_lengths l k in \<open>auto simp: toy_p1_def toy_prov_def fanout_def toy_def max_node_bytes_def toy_ref_def [of toy_n2]\<close>,
       simp_all add: toy_n1_def toy_n2_def)
qed

lemma toy_load2: "load toy (objs toy_p2) (toy_ref toy_n2) = Some toy_n2" "load toy (objs toy_p2) (toy_ref toy_n1) = Some toy_n1"
  by (rule toy_load; use toy_keys in \<open>simp add: toy_p2_def toy_p1_def\<close>)+

lemma toy_tree2: "tree toy (\<lambda>_. True) (\<lambda>_. True) (objs toy_p2) 1 (toy_ref toy_n2) [(''a'', ''1''), (''b'', ''22'')]"
  using toy_load2 by (simp add: holds_with_def toy_n2_def entries_ok_def key_sorted_def)

subsection \<open>Properties\<close>

text \<open>
  Claim C10. However the provider failed or lost acknowledgements on the way, once a sequence of
  updates from the empty root has been accepted, an answer of a lookup at the last root is the last
  value set for the key, and nothing for a key never set or deleted last.
\<close>

theorem catalog_tree_is_a_map:
  assumes "codec_ok C K V" "\<forall>(k, v)\<in>set cs. K k \<and> (\<forall>x. v = Some x \<longrightarrow> V x)" "length cs \<le> max_uint64"
    and "updates C no_ref cs p = (Inr root, p')" "lookup C root key (p'\<lparr>faults := fs\<rparr>) = (Inr v, q)"
  shows "v = latest cs key"
proof -
  have "load C (objs p') root \<noteq> None" using lookup_reads assms(5) unfolding lookup_def by fastforce
  moreover have "\<exists>h. tree C K V (objs p) h no_ref []" using tree_no_ref by blast
  ultimately obtain h es where t: "tree C K V (objs p') h root es" "map_of es = foldl (\<lambda>m (k, v). m(k := v)) (map_of []) cs"
    using updates_tree [OF assms(4,1,2), of "[]"] assms(3) by auto
  show ?thesis using lookup_rounds_correct [OF assms(5) [unfolded lookup_def], of K V h es] t by (simp add: latest_def)
qed

lemma toy_updates: "updates toy no_ref [(''a'', Some ''1''), (''b'', Some ''22'')] toy_prov = (Inr (toy_ref toy_n2), toy_p2)"
  by (simp add: andthen_def toy_update1 toy_update2 give_def)

lemma toy_lookup: "lookup toy (toy_ref toy_n2) k toy_p2 = (Inr (map_of [(''a'', ''1''), (''b'', ''22'')] k), toy_p2)"
proof -
  have f: "faults toy_p2 = []" by (simp add: toy_p2_def toy_p1_def toy_prov_def)
  obtain v where v: "lookup_rounds toy max_depth (toy_ref toy_n2) k toy_p2 = (Inr v, toy_p2)"
    using lookup_rounds_total [OF toy_tree2 f, of max_depth k] by (auto simp: max_depth_def)
  with lookup_rounds_correct [OF v toy_tree2] show ?thesis by (simp add: lookup_def)
qed

theorem catalog_tree_is_a_map_witness:
  "\<exists>p'. updates toy no_ref [(''a'', Some ''1''), (''b'', Some ''22'')] toy_prov = (Inr (toy_ref toy_n2), p') \<and>
     map_of [(''a'', ''1''), (''b'', ''22'')] ''b'' = latest [(''a'', Some ''1''), (''b'', Some ''22'')] ''b''"
proof -
  have f: "toy_p2\<lparr>faults := []\<rparr> = toy_p2" by (simp add: toy_p2_def toy_p1_def toy_prov_def)
  have lk: "lookup toy (toy_ref toy_n2) ''b'' (toy_p2\<lparr>faults := []\<rparr>) = (Inr (map_of [(''a'', ''1''), (''b'', ''22'')] ''b''), toy_p2)"
    unfolding f by (rule toy_lookup)
  have "map_of [(''a'', ''1''), (''b'', ''22'')] ''b'' = latest [(''a'', Some ''1''), (''b'', Some ''22'')] ''b''"
    by (rule catalog_tree_is_a_map [OF toy_codec _ _ toy_updates lk]) (simp_all add: max_uint64_def)
  then show ?thesis using toy_updates by blast
qed

text \<open>
  Claim C22. An update, also one that fails half way, takes no root away: what a lookup at any root
  answered before, it answers after.
\<close>

theorem update_keeps_roots:
  assumes "update_tree C ref key value p = (r, p')" "lookup C old k (p\<lparr>faults := fs\<rparr>) = (Inr v, q)"
  shows "fst (lookup C old k (p'\<lparr>faults := fs\<rparr>)) = Inr v"
proof -
  have "objs p \<subseteq>\<^sub>m objs p'" using growingD [OF growing_update assms(1)] by (simp add: grows_def)
  from lookup_rounds_grown [OF assms(2) [unfolded lookup_def], of "objs p'"] this
  have "lookup C old k (p\<lparr>faults := fs, objs := objs p'\<rparr>) = (Inr v, q\<lparr>objs := objs p'\<rparr>)" by (simp add: lookup_def)
  moreover have "p\<lparr>faults := fs, objs := objs p'\<rparr> = p'\<lparr>faults := fs\<rparr>" by (cases p; cases p') simp
  ultimately show ?thesis by simp
qed

theorem update_keeps_roots_witness:
  "fst (lookup toy no_ref ''a'' (toy_p1\<lparr>faults := []\<rparr>)) = Inr None"
proof (rule update_keeps_roots [OF toy_update1])
  show "lookup toy no_ref ''a'' (toy_prov\<lparr>faults := []\<rparr>) = (Inr None, toy_prov)"
    by (simp add: lookup_def max_depth_def numeral_eq_Suc andthen_def read_node_def lift_sum_def ref_validate_def no_ref_def
        give_def empty_node_def leaf_index_small toy_prov_def)
qed



text \<open>
  Claim C33. When the provider answers every call, a lookup in a tree of at most 64 levels returns, and
  with the entry of the key.
\<close>

theorem lookup_returns:
  assumes "tree C K V (objs p) h ref es" "faults p = []" "h \<le> max_depth"
  shows "lookup C ref key p = (Inr (map_of es key), p)"
proof -
  obtain v where v: "lookup_rounds C max_depth ref key p = (Inr v, p)" using lookup_rounds_total [OF assms] by blast
  with lookup_rounds_correct [OF v assms(1)] show ?thesis by (simp add: lookup_def)
qed

theorem lookup_returns_witness:
  "lookup toy (toy_ref toy_n2) ''b'' toy_p2 = (Inr (Some ''22''), toy_p2)"
  using lookup_returns [OF toy_tree2, of "''b''"] by (simp add: toy_p2_def toy_p1_def toy_prov_def max_depth_def)

end
