(* ===== verification/ArchiveMetadata.thy ===== *)
theory ArchiveMetadata
  imports GoText
begin

text \<open>
  \<open>internal/archive\<close>: the published metadata of a session, its revision history and the source
  objects it refers to (\<open>bundle.go\<close>, \<open>history.go\<close>). Times are nanoseconds since Go's zero time, which
  is 0 (\<open>IsZero\<close>); \<open>rerr\<close> holds the errors the callers of this package distinguish.
\<close>

type_synonym time = int
type_synonym dur = int

subsection \<open>Times, errors and records\<close>

definition max_dur :: dur where
  "max_dur = 9223372036854775807"

definition min_dur :: dur where
  "min_dur = - 9223372036854775808"

text \<open>\<open>Time.Sub\<close> saturates.\<close>

definition tsub :: "time \<Rightarrow> time \<Rightarrow> dur" where
  "tsub a b = (if a - b > max_dur then max_dur else if a - b < min_dur then min_dur else a - b)"

definition minute :: dur where
  "minute = 60000000000"

definition hour :: dur where
  "hour = 60 * minute"

datatype rerr = NotFound | Quarantined | WorkChanged | RemovalPending | Conflict | Recovery | BadChecksum
  | TooLarge | NoVersionedRead | BudgetLimit | Panic | Failed

record source_ref =
  sr_key :: bytes
  sr_sha :: bytes
  sr_bytes :: int

record revision =
  rv_id :: bytes
  rv_at :: time
  rv_source :: source_ref
  rv_schema :: int

record history =
  hi_current :: bytes
  hi_preserved :: "revision list"

record metadata =
  md_schema :: int
  md_session :: bytes
  md_harness :: bytes
  md_native :: bytes
  md_project :: bytes
  md_captured :: time
  md_bundle :: source_ref
  md_history :: "history option"

subsection \<open>Metadata\<close>

definition in_range :: "char \<Rightarrow> char \<Rightarrow> char \<Rightarrow> bool" where
  "in_range a b c = ((of_char a :: nat) \<le> of_char c \<and> (of_char c :: nat) \<le> of_char b)"

definition safe_object_component :: "bytes \<Rightarrow> bool" where
  "safe_object_component v =
     (v \<noteq> [] \<and> v \<noteq> ''.'' \<and> v \<noteq> ''..'' \<and>
      list_all (\<lambda>c. in_range CHR ''a'' CHR ''z'' c \<or> in_range CHR ''A'' CHR ''Z'' c \<or> in_range CHR ''0'' CHR ''9'' c \<or>
        c = CHR ''.'' \<or> c = CHR ''_'' \<or> c = CHR ''-'') v)"

definition session_prefix :: "bytes \<Rightarrow> bytes \<Rightarrow> bytes" where
  "session_prefix harness sid = ''sessions/'' @ harness @ ''/'' @ sid @ ''/''"

definition metadata_object_key :: "bytes \<Rightarrow> bytes \<Rightarrow> rerr + bytes" where
  "metadata_object_key harness sid =
     (if \<not> safe_object_component harness \<or> \<not> safe_object_component sid then Inl Failed
      else Inr (session_prefix harness sid @ ''metadata.json''))"

definition is_lower_hex_sha256 :: "bytes \<Rightarrow> bool" where
  "is_lower_hex_sha256 v =
     (length v = 64 \<and> list_all (\<lambda>c. in_range CHR ''0'' CHR ''9'' c \<or> in_range CHR ''a'' CHR ''f'' c) v)"

definition id_hex :: "char \<Rightarrow> bool" where
  "id_hex c = (in_range CHR ''0'' CHR ''9'' c \<or> in_range CHR ''a'' CHR ''f'' c \<or> in_range CHR ''A'' CHR ''F'' c)"

text \<open>The pattern \<open>historyID\<close>: hexadecimal groups of 8, 4, 4, 4 and 12 digits.\<close>

definition history_id :: "bytes \<Rightarrow> bool" where
  "history_id s =
     (length s = 36 \<and> list_all (\<lambda>i. if i \<in> {8, 13, 18, 23} then s ! i = CHR ''-'' else id_hex (s ! i)) [0..<36])"

definition max_preserved_revisions :: nat where
  "max_preserved_revisions = 64"

text \<open>\<open>strings.TrimSpace\<close> leaves nothing: the text is a sequence of Unicode spaces in UTF-8.\<close>

definition space_codes :: "nat list list" where
  "space_codes = [[9], [10], [11], [12], [13], [32], [194, 133], [194, 160], [225, 154, 128]] @
     map (\<lambda>n. [226, 128, n]) ([128..<139] @ [168, 169, 175]) @ [[226, 129, 159], [227, 128, 128]]"

definition leading_space :: "bytes \<Rightarrow> nat" where
  "leading_space s =
     (case filter (\<lambda>c. has_prefix s (map char_of c)) space_codes of [] \<Rightarrow> 0 | c # _ \<Rightarrow> length c)"

lemma leading_space_shorter: "leading_space s \<noteq> 0 \<Longrightarrow> s \<noteq> []"
  by (auto simp: leading_space_def has_prefix_def space_codes_def split: list.splits)

function blank :: "bytes \<Rightarrow> bool" where
  "blank s = (if s = [] then True else if leading_space s = 0 then False else blank (drop (leading_space s) s))"
  by pat_completeness auto
termination by (relation "measure length") (auto dest: leading_space_shorter)

declare blank.simps [simp del]

text \<open>
  \<open>SourceObjectKey\<close> of the bundle that \<open>validateRevisionHistory\<close> builds: no labels, no history, source
  schema 2, the identity and the capture time of the metadata, and the adapter codex.
\<close>

definition source_object_key :: "metadata \<Rightarrow> bytes \<Rightarrow> rerr + bytes" where
  "source_object_key m sha =
     (if blank (md_session m) \<or> blank (md_native m) \<or> blank (md_project m) \<or> md_captured m = 0 then Inl Failed
      else if \<not> safe_object_component (md_harness m) \<or> \<not> safe_object_component (md_session m) then Inl Failed
      else if \<not> is_lower_hex_sha256 sha then Inl Failed
      else Inr (session_prefix (md_harness m) (md_session m) @ ''source.'' @ sha @ ''.jsonl.gz''))"

fun valid_revisions :: "bytes list \<Rightarrow> revision list \<Rightarrow> bool" where
  "valid_revisions seen [] = True"
| "valid_revisions seen (r # rs) =
     (history_id (rv_id r) \<and> rv_id r \<notin> set seen \<and> rv_at r \<noteq> 0 \<and> rv_schema r \<in> {0, 2, 3} \<and>
      valid_revisions (rv_id r # seen) rs)"

fun valid_refs :: "metadata \<Rightarrow> bytes list \<Rightarrow> source_ref list \<Rightarrow> bool" where
  "valid_refs m keys [] = True"
| "valid_refs m keys (r # rs) =
     (source_object_key m (sr_sha r) = Inr (sr_key r) \<and> sr_key r \<notin> set keys \<and> sr_bytes r > 0 \<and>
      valid_refs m (sr_key r # keys) rs)"

definition validate_revision_history :: "metadata \<Rightarrow> rerr + unit" where
  "validate_revision_history m =
     (if md_schema m \<noteq> 2 then guard (md_history m = None) Failed
      else
        (case md_history m of
           None \<Rightarrow> Inl Failed
         | Some h \<Rightarrow>
             guard (md_harness m = ''codex'' \<and> history_id (hi_current h) \<and>
                length (hi_preserved h) \<le> max_preserved_revisions \<and>
                valid_revisions [hi_current h] (hi_preserved h) \<and>
                valid_refs m [] (md_bundle m # map rv_source (hi_preserved h))) Failed))"

definition validate_source_reference :: "metadata \<Rightarrow> rerr + unit" where
  "validate_source_reference m =
     sbind (validate_revision_history m) (\<lambda>_.
       if md_schema m \<noteq> 1 \<and> md_schema m \<noteq> 2 then Inl Failed
       else if sr_key (md_bundle m) = [] \<or> length (sr_sha (md_bundle m)) \<noteq> 64 then Inl Failed
       else Inr ())"

definition source_references :: "metadata \<Rightarrow> rerr + source_ref list" where
  "source_references m =
     sbind (validate_source_reference m) (\<lambda>_.
       Inr (md_bundle m # (case md_history m of None \<Rightarrow> [] | Some h \<Rightarrow> map rv_source (hi_preserved h))))"

definition meaningful_captured_at :: "metadata \<Rightarrow> rerr + time" where
  "meaningful_captured_at m =
     sbind (source_references m) (\<lambda>_.
       Inr (case md_history m of
              None \<Rightarrow> md_captured m
            | Some h \<Rightarrow> foldl (\<lambda>at r. if rv_at r > at then rv_at r else at) (md_captured m) (hi_preserved h)))"

end
