(* ===== verification/RetentionBase.thy ===== *)
theory RetentionBase
  imports ArchiveMetadata
begin

text \<open>
  \<open>internal/retention\<close>: the data of a sweep and the calls it makes. The sweep decides from what the
  local store (\<open>internal/state\<close>) and the bucket answer, so each such call is an \<open>event\<close> of a log, and
  \<open>renv\<close> answers it from the log so far: quantifying over \<open>renv\<close> covers every behaviour of the store,
  the provider and the other machines between two calls.
\<close>

subsection \<open>Data\<close>

datatype hold = ClockAhead | ClockUnverified | ClockJumped

datatype reason = Retention | Undo

datatype phase = Preparing | Prepared | Deleting | Absent | Cleaned | Finalizing | Restoring | Restored | Cancelled

record registration =
  rg_id :: bytes
  rg_harness :: bytes
  rg_native :: bytes
  rg_project :: bytes
  rg_admitted :: time
  rg_started :: time
  rg_path :: bytes
  rg_kind :: bytes

record summary =
  sm_published :: bool
  sm_captured :: time
  sm_meaningful :: time
  sm_age_from :: time

record outstanding =
  ow_requested :: bool
  ow_upload :: bool

record superseded =
  su_key :: bytes
  su_at :: time
  su_privacy :: bool

record reading =
  rd_checked :: time
  rd_server :: time
  rd_error :: bytes

record deletion =
  dl_reg :: registration
  dl_reason :: reason
  dl_phase :: phase
  dl_metadata :: bytes
  dl_refs :: "source_ref list"
  dl_token :: bytes
  dl_removed :: bool

record object =
  ob_key :: bytes
  ob_size :: int
  ob_modified :: time

subsection \<open>Calls and their answers\<close>

datatype event =
  EvCtx | EvNewID | EvServerClock
  | EvPut bytes | EvGet bytes | EvGetLimited bytes int | EvList bytes | EvDelete bytes | EvTxDelete bytes | EvIndexDelete bytes bytes
  | EvScanRegistrations | EvScanRequests | EvOrphans | EvRecoverLocal bytes | EvCheckRead bytes | EvChangedAt bytes
  | EvSummary bytes | EvHarnesses bytes | EvForgetOrphan bytes | EvLoadDeletion bytes | EvLost bytes | EvOutstanding bytes bool
  | EvStat bytes | EvLedger bytes | EvClampLedger bytes time | EvRemoveLedger bytes bytes
  | EvLoadPublished bytes | EvClampAge bytes time | EvForget bytes bool | EvFinish bytes
  | EvLoadReading | EvSaveReading reading | EvPrivacy bytes
  | EvCheckUndo bytes | EvLoadRequest bytes | EvPrepare bytes reason bytes | EvAdvance bytes phase | EvStage bytes source_ref
  | EvReadStaged bytes source_ref | EvDecode nat bytes | EvReserve int bool | EvRelease int

type_synonym log = "event list"

text \<open>The context, the clock, encodings and hashes.\<close>

record base_calls =
  e_ended :: "log \<Rightarrow> bool"
  e_new_id :: "log \<Rightarrow> rerr + bytes"
  e_server_clock :: "(log \<Rightarrow> rerr + time) option"
  e_text :: "rerr \<Rightarrow> bytes"
  e_json :: "bytes \<Rightarrow> metadata option"
  e_digest :: "metadata \<Rightarrow> bytes"
  e_sha :: "bytes \<Rightarrow> bytes"
  e_intent :: "deletion \<Rightarrow> bytes"

text \<open>The bucket: \<open>storage.ObjectStore\<close>, its optional interfaces, and the listing index.\<close>

record bucket_calls = base_calls +
  e_bounded :: bool
  e_catalog :: bool
  e_put :: "log \<Rightarrow> bytes \<Rightarrow> rerr + unit"
  e_get :: "log \<Rightarrow> bytes \<Rightarrow> rerr + bytes"
  e_get_limited :: "log \<Rightarrow> bytes \<Rightarrow> int \<Rightarrow> rerr + bytes"
  e_list :: "log \<Rightarrow> bytes \<Rightarrow> rerr + object list"
  e_delete :: "log \<Rightarrow> bytes \<Rightarrow> rerr + unit"
  e_tx_delete :: "log \<Rightarrow> bytes \<Rightarrow> rerr + unit"
  e_index_delete :: "log \<Rightarrow> bytes \<Rightarrow> bytes \<Rightarrow> rerr + unit"

text \<open>The local store, \<open>state.Store\<close>.\<close>

record local_calls = bucket_calls +
  e_registrations :: "log \<Rightarrow> rerr + registration list \<times> (bytes \<times> rerr) list"
  e_requests :: "log \<Rightarrow> rerr + bytes list \<times> (bytes \<times> rerr) list"
  e_orphans :: "log \<Rightarrow> (bytes \<Rightarrow> bool) \<Rightarrow> rerr + bytes list"
  e_recover_local :: "log \<Rightarrow> bytes \<Rightarrow> bool \<times> rerr option"
  e_check_read :: "log \<Rightarrow> bytes \<Rightarrow> rerr + unit"
  e_changed_at :: "log \<Rightarrow> bytes \<Rightarrow> time"
  e_summary :: "log \<Rightarrow> bytes \<Rightarrow> rerr + summary \<times> bool"
  e_harnesses :: "log \<Rightarrow> bytes \<Rightarrow> bytes list"
  e_forget_orphan :: "log \<Rightarrow> bytes \<Rightarrow> bool \<times> rerr option"
  e_load_deletion :: "log \<Rightarrow> registration \<Rightarrow> rerr + deletion \<times> bool"
  e_lost :: "log \<Rightarrow> bytes \<Rightarrow> bool"
  e_outstanding :: "log \<Rightarrow> registration \<Rightarrow> bool \<Rightarrow> rerr + outstanding"
  e_stat :: "log \<Rightarrow> bytes \<Rightarrow> (bool \<times> int) option"
  e_ledger :: "log \<Rightarrow> bytes \<Rightarrow> rerr + superseded list"
  e_clamp_ledger :: "log \<Rightarrow> bytes \<Rightarrow> time \<Rightarrow> rerr + unit"
  e_remove_ledger :: "log \<Rightarrow> bytes \<Rightarrow> bytes \<Rightarrow> rerr + unit"
  e_load_published :: "log \<Rightarrow> bytes \<Rightarrow> rerr + unit"
  e_clamp_age :: "log \<Rightarrow> bytes \<Rightarrow> time \<Rightarrow> rerr + unit"
  e_forget :: "log \<Rightarrow> registration \<Rightarrow> bool \<Rightarrow> bool \<times> rerr option"
  e_finish :: "log \<Rightarrow> bytes \<Rightarrow> rerr + unit"
  e_load_reading :: "log \<Rightarrow> reading option"

text \<open>The journals of session deletions, and the shared read budget.\<close>

record renv = local_calls +
  e_check_undo :: "log \<Rightarrow> registration \<Rightarrow> rerr + unit"
  e_load_request :: "log \<Rightarrow> bytes \<Rightarrow> rerr + bytes option"
  e_prepare :: "log \<Rightarrow> registration \<Rightarrow> reason \<Rightarrow> bytes \<Rightarrow> time \<Rightarrow> bytes \<Rightarrow> rerr + deletion"
  e_advance :: "log \<Rightarrow> deletion \<Rightarrow> phase \<Rightarrow> rerr + deletion"
  e_stage :: "log \<Rightarrow> deletion \<Rightarrow> source_ref \<Rightarrow> bytes \<Rightarrow> rerr + unit"
  e_read_staged :: "log \<Rightarrow> bytes \<Rightarrow> source_ref \<Rightarrow> rerr + bytes"
  e_decode :: "log \<Rightarrow> nat \<Rightarrow> metadata \<Rightarrow> bytes \<Rightarrow> rerr option"
  e_reserve :: "log \<Rightarrow> int \<Rightarrow> bool"

text \<open>\<open>Options\<close>; a missing callback has the default its comment names.\<close>

record options =
  o_now :: time
  o_grace :: dur
  o_max_age :: dur
  o_previous :: time
  o_privacy :: "(log \<Rightarrow> registration \<Rightarrow> metadata \<Rightarrow> bool) option"
  o_current :: "(registration \<Rightarrow> bool) option"
  o_publishable :: "(registration \<Rightarrow> bool) option"

record verdict =
  vd_checked :: bool
  vd_held :: "hold option"
  vd_agrees :: bool

record rresult =
  rs_snapshots :: nat
  rs_deleted :: "bytes list"
  rs_pruned :: "bytes list"
  rs_errors :: "bytes \<rightharpoonup> rerr"
  rs_held :: "hold option"
  rs_unfinished :: nat

record sweeper =
  sw_log :: log
  sw_clock :: verdict
  sw_result :: rresult

type_synonym 'a sweep = "sweeper \<Rightarrow> (rerr + 'a) \<times> sweeper"

text \<open>\<open>ask\<close> makes a call that may fail, \<open>query\<close> one that answers, \<open>attempt\<close> keeps an error as a value.\<close>

definition ask :: "event \<Rightarrow> (log \<Rightarrow> rerr + 'a) \<Rightarrow> 'a sweep" where
  "ask ev f s = (f (sw_log s), s\<lparr>sw_log := sw_log s @ [ev]\<rparr>)"

definition query :: "event \<Rightarrow> (log \<Rightarrow> 'a) \<Rightarrow> 'a sweep" where
  "query ev f s = (Inr (f (sw_log s)), s\<lparr>sw_log := sw_log s @ [ev]\<rparr>)"

definition attempt :: "'a sweep \<Rightarrow> (rerr + 'a) sweep" where
  "attempt m s = (case m s of (r, s') \<Rightarrow> (Inr r, s'))"

definition ensure :: "'a sweep \<Rightarrow> unit sweep \<Rightarrow> 'a sweep" where
  "ensure m k s = (case m s of (r, s') \<Rightarrow> (r, snd (k s')))"

definition get_sweeper :: "sweeper sweep" where
  "get_sweeper s = (Inr s, s)"

definition modify :: "(sweeper \<Rightarrow> sweeper) \<Rightarrow> unit sweep" where
  "modify f s = (Inr (), f s)"

subsection \<open>The digest of a reference set\<close>

definition source_set_digest :: "renv \<Rightarrow> metadata \<Rightarrow> rerr + bytes" where
  "source_set_digest E m = sbind (source_references m) (\<lambda>_. Inr (e_digest E m))"

subsection \<open>Local facts\<close>

definition admitted :: "registration \<Rightarrow> time" where
  "admitted r = (if rg_admitted r \<noteq> 0 then rg_admitted r else rg_started r)"

definition reads_transcript_file :: "registration \<Rightarrow> bool" where
  "reads_transcript_file r = (rg_kind r = [])"

definition retention_age :: "summary \<Rightarrow> time" where
  "retention_age s =
     (if sm_age_from s \<noteq> 0 then sm_age_from s else if sm_meaningful s \<noteq> 0 then sm_meaningful s else sm_captured s)"

definition defers_expiry :: "outstanding \<Rightarrow> bool" where
  "defers_expiry o' = (ow_requested o' \<or> ow_upload o')"

end
