(* ===== verification/OwnedDelete.thy ===== *)
theory OwnedDelete
  imports RetentionBase
begin

text \<open>
  \<open>delete.go\<close> and \<open>owned_delete.go\<close>: removing a whole session from the bucket, with the exact metadata
  and sources retained locally before the metadata goes.
\<close>

subsection \<open>Deleting by namespace\<close>

text \<open>\<open>errors.Join\<close>: \<open>errors.Is\<close> finds \<open>ErrDeletionWorkChanged\<close> in either.\<close>

definition join_errors :: "rerr option \<Rightarrow> rerr \<Rightarrow> rerr" where
  "join_errors a b = (if a = Some WorkChanged then WorkChanged else b)"

definition history_limit :: int where
  "history_limit = 33554432"

definition bounded_history_metadata :: "renv \<Rightarrow> bytes \<Rightarrow> bytes sweep" where
  "bounded_history_metadata E key =
     (if \<not> e_bounded E then raise Failed
      else andthen (ask (EvGetLimited key history_limit) (\<lambda>l. e_get_limited E l key history_limit)) (\<lambda>raw.
        if int (length raw) > history_limit then raise TooLarge else give raw))"

fun delete_objects :: "renv \<Rightarrow> rerr option \<Rightarrow> object list \<Rightarrow> unit sweep" where
  "delete_objects E index_err [] = give ()"
| "delete_objects E index_err (x # xs) =
     andthen (attempt (ask (EvDelete (ob_key x)) (\<lambda>l. e_delete E l (ob_key x)))) (\<lambda>r.
       case r of Inl e \<Rightarrow> raise (join_errors index_err e) | Inr _ \<Rightarrow> delete_objects E index_err xs)"

definition check_history_authority :: "renv \<Rightarrow> bytes \<Rightarrow> bytes \<Rightarrow> bytes \<Rightarrow> unit sweep" where
  "check_history_authority E harness sid key =
     andthen (attempt (bounded_history_metadata E key)) (\<lambda>r.
       case r of
         Inl e \<Rightarrow> if e \<noteq> NotFound then raise e else give ()
       | Inr raw \<Rightarrow>
           (case e_json E raw of
              None \<Rightarrow> raise Failed
            | Some m \<Rightarrow> andthen (lift_sum (source_references m)) (\<lambda>_.
                if md_session m \<noteq> sid \<or> md_harness m \<noteq> harness then raise Failed else give ())))"

definition delete_whole_session :: "renv \<Rightarrow> bytes \<Rightarrow> bytes \<Rightarrow> unit sweep" where
  "delete_whole_session E harness sid =
     andthen (lift_sum (metadata_object_key harness sid)) (\<lambda>key.
     andthen (if harness = ''codex'' then check_history_authority E harness sid key else give ()) (\<lambda>_.
     if e_catalog E then ask (EvTxDelete key) (\<lambda>l. e_tx_delete E l key)
     else
       andthen (ask (EvDelete key) (\<lambda>l. e_delete E l key)) (\<lambda>_.
       andthen (attempt (ask (EvIndexDelete harness sid) (\<lambda>l. e_index_delete E l harness sid))) (\<lambda>ir.
       let index_err = (case ir of Inl e \<Rightarrow> Some e | Inr _ \<Rightarrow> None) in
       andthen (attempt (ask (EvList (session_prefix harness sid)) (\<lambda>l. e_list E l (session_prefix harness sid)))) (\<lambda>lr.
       case lr of
         Inl e \<Rightarrow> raise (join_errors index_err e)
       | Inr objects \<Rightarrow>
           andthen (delete_objects E index_err objects) (\<lambda>_.
             case index_err of Some e \<Rightarrow> raise e | None \<Rightarrow> give ()))))))"

subsection \<open>Reads charged to the deletion's budget\<close>

definition reserve :: "renv \<Rightarrow> int \<Rightarrow> bool sweep" where
  "reserve E n s = (let ok = e_reserve E (sw_log s) n in (Inr ok, s\<lparr>sw_log := sw_log s @ [EvReserve n ok]\<rparr>))"

definition release :: "int \<Rightarrow> unit sweep" where
  "release n = query (EvRelease n) (\<lambda>_. ())"

definition read_publication_metadata :: "renv \<Rightarrow> bytes \<Rightarrow> bytes sweep" where
  "read_publication_metadata E key =
     andthen (query EvCtx (e_ended E)) (\<lambda>ended.
       if ended then raise Failed
       else if \<not> e_bounded E then raise NoVersionedRead
       else andthen (ask (EvGetLimited key history_limit) (\<lambda>l. e_get_limited E l key history_limit)) (\<lambda>raw.
         if int (length raw) > history_limit then raise TooLarge else give raw))"

text \<open>
  \<open>readDeletionMetadata\<close> with its deferred release: the limit is charged, all but the length read is
  returned at once, and the rest when the caller is done.
\<close>

definition with_deletion_metadata :: "renv \<Rightarrow> bytes \<Rightarrow> (rerr + bytes \<Rightarrow> 'a sweep) \<Rightarrow> 'a sweep" where
  "with_deletion_metadata E key k =
     andthen (reserve E history_limit) (\<lambda>granted.
       if \<not> granted then k (Inl BudgetLimit)
       else
         andthen (attempt (read_publication_metadata E key)) (\<lambda>r.
         let n = (case r of Inl _ \<Rightarrow> 0 | Inr raw \<Rightarrow> int (length raw)) in
         andthen (release (history_limit - n)) (\<lambda>_. ensure (k r) (release n))))"

subsection \<open>Owned deletion\<close>

fun verify_retained :: "renv \<Rightarrow> bytes \<Rightarrow> source_ref list \<Rightarrow> unit sweep" where
  "verify_retained E sid [] = give ()"
| "verify_retained E sid (r # rs) =
     andthen (ask (EvReadStaged sid r) (\<lambda>l. e_read_staged E l sid r)) (\<lambda>_. verify_retained E sid rs)"

definition verify_deletion_position :: "renv \<Rightarrow> deletion \<Rightarrow> bytes \<Rightarrow> bool \<Rightarrow> unit sweep" where
  "verify_deletion_position E j key present =
     andthen (query EvCtx (e_ended E)) (\<lambda>ended.
     if ended then raise Failed
     else
       andthen (ask (EvLoadDeletion (rg_id (dl_reg j))) (\<lambda>l. e_load_deletion E l (dl_reg j))) (\<lambda>(cur, found).
       if \<not> found \<or> e_intent E cur \<noteq> e_intent E j \<or> dl_phase cur \<noteq> dl_phase j then raise Recovery
       else
         andthen (verify_retained E (rg_id (dl_reg j)) (dl_refs j)) (\<lambda>_.
         with_deletion_metadata E key (\<lambda>r.
           case r of
             Inl e \<Rightarrow>
               if e = NotFound then (if present \<and> dl_metadata j \<noteq> [] then raise Conflict else give ())
               else raise e
           | Inr raw \<Rightarrow>
               if dl_metadata j = [] \<or> raw \<noteq> dl_metadata j \<or> dl_phase j = Absent \<or> dl_phase j = Cleaned
               then raise Conflict else give ()))))"

definition retain_deleting_source :: "renv \<Rightarrow> deletion \<Rightarrow> nat \<Rightarrow> source_ref \<Rightarrow> unit sweep" where
  "retain_deleting_source E j i ref =
     andthen (reserve E (sr_bytes ref)) (\<lambda>granted.
     if \<not> granted then raise BudgetLimit
     else ensure
       (if \<not> e_bounded E then raise NoVersionedRead
        else
          andthen (ask (EvGetLimited (sr_key ref) (sr_bytes ref)) (\<lambda>l. e_get_limited E l (sr_key ref) (sr_bytes ref))) (\<lambda>data.
          if int (length data) \<noteq> sr_bytes ref \<or> \<not> equal_fold (e_sha E data) (sr_sha ref) then raise BadChecksum
          else
            (case e_json E (dl_metadata j) of
               None \<Rightarrow> raise Failed
             | Some m \<Rightarrow>
                 if i \<noteq> 0 \<and> (case md_history m of None \<Rightarrow> True | Some h \<Rightarrow> length (hi_preserved h) \<le> i - 1) then raise Panic
                 else
                   andthen (query (EvDecode i data) (\<lambda>l. e_decode E l i m data)) (\<lambda>e.
                   case e of
                     Some x \<Rightarrow> raise x
                   | None \<Rightarrow> ask (EvStage (rg_id (dl_reg j)) ref) (\<lambda>l. e_stage E l j ref data)))))
       (release (sr_bytes ref)))"

fun retain_sources :: "renv \<Rightarrow> deletion \<Rightarrow> nat \<Rightarrow> source_ref list \<Rightarrow> unit sweep" where
  "retain_sources E j i [] = give ()"
| "retain_sources E j i (r # rs) =
     andthen (retain_deleting_source E j i r) (\<lambda>_. retain_sources E j (Suc i) rs)"

text \<open>
  \<open>DeletionRequestChanged\<close> and the check its callers make of it: an unreadable request, or one newer
  than the intent of an expiry, stops the deletion.
\<close>

definition request_moved :: "renv \<Rightarrow> deletion \<Rightarrow> bool sweep" where
  "request_moved E j =
     andthen (attempt (ask (EvLoadRequest (rg_id (dl_reg j))) (\<lambda>l. e_load_request E l (rg_id (dl_reg j))))) (\<lambda>r.
       give (case r of
               Inl _ \<Rightarrow> True
             | Inr None \<Rightarrow> False
             | Inr (Some token) \<Rightarrow> token \<noteq> dl_token j \<and> dl_reason j = Retention))"

definition advance :: "renv \<Rightarrow> deletion \<Rightarrow> phase \<Rightarrow> deletion sweep" where
  "advance E j ph = ask (EvAdvance (rg_id (dl_reg j)) ph) (\<lambda>l. e_advance E l j ph)"

definition prepare_owned_sources :: "renv \<Rightarrow> deletion \<Rightarrow> bytes \<Rightarrow> deletion sweep" where
  "prepare_owned_sources E j key =
     andthen (retain_sources E j 0 (dl_refs j)) (\<lambda>_.
     andthen (verify_deletion_position E j key True) (\<lambda>_.
     andthen (request_moved E j) (\<lambda>moved.
       if moved then raise WorkChanged else advance E j Deleting)))"

definition delete_owned_metadata :: "renv \<Rightarrow> deletion \<Rightarrow> bytes \<Rightarrow> deletion sweep" where
  "delete_owned_metadata E j key =
     andthen (verify_deletion_position E j key False) (\<lambda>_.
     andthen (ask (EvDelete key) (\<lambda>l. e_delete E l key)) (\<lambda>_.
     with_deletion_metadata E key (\<lambda>r.
       case r of
         Inl e \<Rightarrow> if e = NotFound then advance E j Absent else raise e
       | Inr fresh \<Rightarrow> if fresh \<noteq> [] then raise Conflict else give j)))"

definition after_last_slash :: "bytes \<Rightarrow> bytes" where
  "after_last_slash s = rev (takeWhile (\<lambda>c. c \<noteq> CHR ''/'') (rev s))"

definition verify_owned_object :: "renv \<Rightarrow> object \<Rightarrow> unit sweep" where
  "verify_owned_object E x =
     (let name = after_last_slash (ob_key x); rest = drop 7 name in
      if \<not> has_prefix name ''source.'' then raise Recovery
      else
        (let sha = take (length rest - 9) rest in
         if \<not> has_suffix rest ''.jsonl.gz'' \<or> length sha \<noteq> 64 \<or> ob_size x \<le> 0 \<or> ob_size x > history_limit then raise Recovery
         else
           andthen (reserve E (ob_size x)) (\<lambda>granted.
           if \<not> granted then raise BudgetLimit
           else ensure
             (if \<not> e_bounded E then raise NoVersionedRead
              else
                andthen (ask (EvGetLimited (ob_key x) (ob_size x)) (\<lambda>l. e_get_limited E l (ob_key x) (ob_size x))) (\<lambda>data.
                if int (length data) \<noteq> ob_size x \<or> \<not> equal_fold (e_sha E data) sha then raise BadChecksum else give ()))
             (release (ob_size x)))))"

fun delete_namespace_objects :: "renv \<Rightarrow> deletion \<Rightarrow> bytes \<Rightarrow> object list \<Rightarrow> unit sweep" where
  "delete_namespace_objects E j key [] = give ()"
| "delete_namespace_objects E j key (x # xs) =
     (if ob_key x = key then raise Conflict
      else
        andthen (verify_deletion_position E j key False) (\<lambda>_.
        andthen (request_moved E j) (\<lambda>moved.
        if moved then raise WorkChanged
        else if \<not> has_prefix (ob_key x) (session_prefix (rg_harness (dl_reg j)) (rg_id (dl_reg j))) then raise Conflict
        else
          andthen (verify_owned_object E x) (\<lambda>_.
          andthen (verify_deletion_position E j key False) (\<lambda>_.
          andthen (ask (EvDelete (ob_key x)) (\<lambda>l. e_delete E l (ob_key x))) (\<lambda>_.
            delete_namespace_objects E j key xs))))))"

definition delete_owned_namespace :: "renv \<Rightarrow> deletion \<Rightarrow> bytes \<Rightarrow> unit sweep" where
  "delete_owned_namespace E j key =
     (if dl_phase j = Cleaned then give ()
      else if dl_phase j \<noteq> Absent then raise RemovalPending
      else
        andthen (request_moved E j) (\<lambda>moved.
        if moved then raise WorkChanged
        else
          (let prefix = session_prefix (rg_harness (dl_reg j)) (rg_id (dl_reg j)) in
           andthen (ask (EvList prefix) (\<lambda>l. e_list E l prefix)) (\<lambda>objects.
           andthen (delete_namespace_objects E j key objects) (\<lambda>_.
           andthen (verify_deletion_position E j key False) (\<lambda>_.
           andthen (ask (EvIndexDelete (rg_harness (dl_reg j)) (rg_id (dl_reg j)))
                     (\<lambda>l. e_index_delete E l (rg_harness (dl_reg j)) (rg_id (dl_reg j)))) (\<lambda>_.
           andthen (advance E j Cleaned) (\<lambda>_. give ()))))))))"

definition needs_preparation :: "reason \<Rightarrow> deletion \<Rightarrow> bool \<Rightarrow> bool" where
  "needs_preparation why j found =
     (\<not> found \<or> dl_phase j = Preparing \<or> dl_phase j = Restored \<or> dl_phase j = Cancelled \<or>
      why = Undo \<and> dl_reason j = Retention)"

text \<open>\<open>DeleteOwnedSession\<close> after its first read; no bytes stand for an absent metadata object.\<close>

definition delete_prepared :: "renv \<Rightarrow> registration \<Rightarrow> reason \<Rightarrow> time \<Rightarrow> bytes \<Rightarrow> bytes \<Rightarrow> unit sweep" where
  "delete_prepared E reg why now key raw =
     andthen (ask (EvLoadRequest (rg_id reg)) (\<lambda>l. e_load_request E l (rg_id reg))) (\<lambda>request.
     let token = (case request of None \<Rightarrow> [] | Some t \<Rightarrow> t) in
     andthen (ask (EvLoadDeletion (rg_id reg)) (\<lambda>l. e_load_deletion E l reg)) (\<lambda>(j0, found).
     andthen (if needs_preparation why j0 found
              then ask (EvPrepare (rg_id reg) why raw) (\<lambda>l. e_prepare E l reg why raw now token)
              else give j0) (\<lambda>j1.
     if dl_reason j1 \<noteq> why \<or> dl_phase j1 = Restoring then raise RemovalPending
     else if raw \<noteq> [] \<and> raw \<noteq> dl_metadata j1 then raise Conflict
     else
       andthen (if dl_phase j1 = Prepared then prepare_owned_sources E j1 key else give j1) (\<lambda>j2.
       andthen (if dl_phase j2 = Deleting then delete_owned_metadata E j2 key else give j2) (\<lambda>j3.
         delete_owned_namespace E j3 key)))))"

definition delete_owned_session :: "renv \<Rightarrow> registration \<Rightarrow> reason \<Rightarrow> time \<Rightarrow> unit sweep" where
  "delete_owned_session E reg why now =
     andthen (if why = Undo then ask (EvCheckUndo (rg_id reg)) (\<lambda>l. e_check_undo E l reg) else give ()) (\<lambda>_.
     if e_catalog E then delete_whole_session E (rg_harness reg) (rg_id reg)
     else
       andthen (lift_sum (metadata_object_key (rg_harness reg) (rg_id reg))) (\<lambda>key.
       with_deletion_metadata E key (\<lambda>r.
       case r of
         Inl e \<Rightarrow> if e \<noteq> NotFound then raise e else delete_prepared E reg why now key []
       | Inr raw \<Rightarrow> delete_prepared E reg why now key raw)))"

end
