(* ===== verification/Retention.thy ===== *)
theory Retention
  imports OwnedDelete
begin

text \<open>
  \<open>clock.go\<close>, \<open>retention.go\<close> and \<open>preview.go\<close>: the sweep over the registered and the orphaned sessions of
  this machine. \<open>opts\<close> are the options, \<open>rq\<close> the sessions with a queued request.
\<close>

subsection \<open>The clock\<close>

definition max_clock_skew :: dur where
  "max_clock_skew = hour"

definition max_pass_gap :: dur where
  "max_pass_gap = 24 * hour"

definition agreeing_reading_reuse :: dur where
  "agreeing_reading_reuse = 10 * minute"

definition holding_reading_reuse :: dur where
  "holding_reading_reuse = hour"

text \<open>\<open>None\<close>: the clock must be read again.\<close>

definition reuse_reading :: "reading \<Rightarrow> time \<Rightarrow> (rerr + time) option" where
  "reuse_reading rd now =
     (let elapsed = tsub now (rd_checked rd) in
      if elapsed < 0 then None
      else if rd_error rd \<noteq> [] then (if elapsed \<ge> holding_reading_reuse then None else Some (Inl Failed))
      else if rd_server rd = 0 then None
      else
        (let window = (if tsub (rd_checked rd) (rd_server rd) > max_clock_skew then holding_reading_reuse
                       else agreeing_reading_reuse) in
         if elapsed \<ge> window then None else Some (Inr (rd_server rd + elapsed))))"

definition clock_probe_body :: bytes where
  "clock_probe_body = ''{'' @ [CHR 0x22] @ ''agent_archive_clock_check'' @ [CHR 0x22] @ '':true}''"

definition probe_key :: "bytes \<Rightarrow> bytes" where
  "probe_key n = ''.setup-test/clock-'' @ n @ ''.json''"

definition probe_server_clock :: "renv \<Rightarrow> time sweep" where
  "probe_server_clock E =
     andthen (ask EvNewID (e_new_id E)) (\<lambda>n.
     let key = probe_key n in
     andthen (ask (EvPut key) (\<lambda>l. e_put E l key)) (\<lambda>_.
     andthen (attempt (ask (EvList key) (\<lambda>l. e_list E l key))) (\<lambda>lr.
     andthen (attempt (ask (EvDelete key) (\<lambda>l. e_delete E l key))) (\<lambda>dr.
       case (lr, dr) of
         (Inr objects, Inr _) \<Rightarrow>
           (case filter (\<lambda>x. ob_key x = key \<and> ob_modified x \<noteq> 0) objects of
              [] \<Rightarrow> raise Failed
            | x # _ \<Rightarrow> give (ob_modified x))
       | _ \<Rightarrow> raise Failed))))"

definition cached_probe :: "renv \<Rightarrow> options \<Rightarrow> time sweep" where
  "cached_probe E opts =
     andthen (query EvLoadReading (e_load_reading E)) (\<lambda>rd.
     case Option.bind rd (\<lambda>x. reuse_reading x (o_now opts)) of
       Some r \<Rightarrow> lift_sum r
     | None \<Rightarrow>
         andthen (attempt (probe_server_clock E)) (\<lambda>r.
         andthen (query EvCtx (e_ended E)) (\<lambda>ended.
         if ended then lift_sum r
         else
           (let rd = (case r of
                        Inr t \<Rightarrow> \<lparr>rd_checked = o_now opts, rd_server = t, rd_error = []\<rparr>
                      | Inl e \<Rightarrow> \<lparr>rd_checked = o_now opts, rd_server = 0, rd_error = e_text E e\<rparr>) in
            andthen (query (EvSaveReading rd) (\<lambda>_. ())) (\<lambda>_. lift_sum r)))))"

definition server_clock :: "renv \<Rightarrow> options \<Rightarrow> time sweep" where
  "server_clock E opts =
     (case e_server_clock E of Some f \<Rightarrow> ask EvServerClock f | None \<Rightarrow> cached_probe E opts)"

definition judge_clock :: "options \<Rightarrow> rerr + time \<Rightarrow> verdict" where
  "judge_clock opts r =
     (let v = (case r of
                 Inl _ \<Rightarrow> \<lparr>vd_checked = True, vd_held = Some ClockUnverified, vd_agrees = False\<rparr>
               | Inr t \<Rightarrow>
                   if tsub (o_now opts) t > max_clock_skew
                   then \<lparr>vd_checked = True, vd_held = Some ClockAhead, vd_agrees = False\<rparr>
                   else \<lparr>vd_checked = True, vd_held = None, vd_agrees = tsub t (o_now opts) \<le> max_clock_skew\<rparr>) in
      if vd_held v = None \<and> o_previous opts \<noteq> 0 \<and> tsub (o_now opts) (o_previous opts) > max_pass_gap
      then v\<lparr>vd_held := Some ClockJumped, vd_agrees := False\<rparr> else v)"

definition read_clock :: "renv \<Rightarrow> options \<Rightarrow> verdict sweep" where
  "read_clock E opts =
     andthen get_sweeper (\<lambda>s.
     if vd_checked (sw_clock s) then give (sw_clock s)
     else
       andthen (attempt (server_clock E opts)) (\<lambda>r.
       andthen (modify (\<lambda>s. s\<lparr>sw_clock := judge_clock opts r\<rparr>)) (\<lambda>_. give (judge_clock opts r))))"

definition clock_allows_deletion :: "renv \<Rightarrow> options \<Rightarrow> bool sweep" where
  "clock_allows_deletion E opts =
     andthen (read_clock E opts) (\<lambda>v.
     case vd_held v of
       None \<Rightarrow> give True
     | Some h \<Rightarrow> andthen (modify (\<lambda>s. s\<lparr>sw_result := (sw_result s)\<lparr>rs_held := Some h\<rparr>\<rparr>)) (\<lambda>_. give False))"

definition clock_agrees :: "renv \<Rightarrow> options \<Rightarrow> bool sweep" where
  "clock_agrees E opts = andthen (read_clock E opts) (\<lambda>v. give (vd_held v = None \<and> vd_agrees v))"

definition capture_age :: "renv \<Rightarrow> options \<Rightarrow> bytes \<Rightarrow> summary \<Rightarrow> time sweep" where
  "capture_age E opts sid sm =
     (let age = retention_age sm in
      if \<not> age > o_now opts + max_clock_skew then give age
      else
        andthen (clock_agrees E opts) (\<lambda>agrees.
        if \<not> agrees then give age
        else
          andthen (ask (EvLoadPublished sid) (\<lambda>l. e_load_published E l sid)) (\<lambda>_.
          andthen (ask (EvClampAge sid (o_now opts)) (\<lambda>l. e_clamp_age E l sid (o_now opts))) (\<lambda>_.
            give (o_now opts)))))"

definition superseded_ledger :: "renv \<Rightarrow> options \<Rightarrow> bytes \<Rightarrow> superseded list sweep" where
  "superseded_ledger E opts sid =
     andthen (ask (EvLedger sid) (\<lambda>l. e_ledger E l sid)) (\<lambda>es.
     if \<not> list_ex (\<lambda>x. su_at x > o_now opts + max_clock_skew) es then give es
     else
       andthen (clock_agrees E opts) (\<lambda>agrees.
       if \<not> agrees then give es
       else
         andthen (ask (EvClampLedger sid (o_now opts)) (\<lambda>l. e_clamp_ledger E l sid (o_now opts))) (\<lambda>_.
           ask (EvLedger sid) (\<lambda>l. e_ledger E l sid))))"

subsection \<open>Ages\<close>

definition grace_period :: "options \<Rightarrow> dur" where
  "grace_period opts = (if o_grace opts > 0 then o_grace opts else 24 * hour)"

definition expired :: "options \<Rightarrow> time \<Rightarrow> bool" where
  "expired opts at = (o_max_age opts > 0 \<and> at \<noteq> 0 \<and> tsub (o_now opts) at \<ge> o_max_age opts)"

fun any_superseded_expirable :: "superseded list \<Rightarrow> time \<Rightarrow> dur \<Rightarrow> bool" where
  "any_superseded_expirable [] now grace = False"
| "any_superseded_expirable [x] now grace = (su_privacy x \<and> tsub now (su_at x) \<ge> grace)"
| "any_superseded_expirable (x # y # r) now grace =
     (tsub now (su_at x) \<ge> grace \<or> any_superseded_expirable (y # r) now grace)"

definition session_age :: "renv \<Rightarrow> options \<Rightarrow> registration \<Rightarrow> summary \<Rightarrow> bool \<Rightarrow> time sweep" where
  "session_age E opts reg sm found =
     (if found \<and> retention_age sm \<noteq> 0 then capture_age E opts (rg_id reg) sm else give (admitted reg))"

definition transcript_empty :: "renv \<Rightarrow> bytes \<Rightarrow> bool sweep" where
  "transcript_empty E path =
     andthen (query (EvStat path) (\<lambda>l. e_stat E l path)) (\<lambda>st.
       give (case st of None \<Rightarrow> False | Some (regular, len) \<Rightarrow> regular \<and> len = 0))"

definition outstanding_of :: "renv \<Rightarrow> (bytes \<Rightarrow> bool) \<Rightarrow> registration \<Rightarrow> outstanding sweep" where
  "outstanding_of E rq reg =
     ask (EvOutstanding (rg_id reg) (rq (rg_id reg))) (\<lambda>l. e_outstanding E l reg (rq (rg_id reg)))"

text \<open>The registration's work that can never be captured does not defer expiry.\<close>

definition never_capturable :: "renv \<Rightarrow> options \<Rightarrow> (bytes \<Rightarrow> bool) \<Rightarrow> registration \<Rightarrow> bool \<Rightarrow> bool sweep" where
  "never_capturable E opts rq reg found =
     (if rg_path reg = [] then give True
      else if found then give False
      else
        andthen (transcript_empty E (rg_path reg)) (\<lambda>empty.
        if \<not> empty then give False
        else andthen (outstanding_of E rq reg) (\<lambda>owed. give (\<not> ow_upload owed))))"

definition session_expiry ::
  "renv \<Rightarrow> options \<Rightarrow> (bytes \<Rightarrow> bool) \<Rightarrow> registration \<Rightarrow> bool \<Rightarrow> time \<Rightarrow> (bool \<times> bool \<times> outstanding) sweep" where
  "session_expiry E opts rq reg found age =
     (let locally = expired opts age;
          defer0 = (case o_publishable opts of None \<Rightarrow> True | Some f \<Rightarrow> f reg) in
      andthen (if reads_transcript_file reg \<and> expired opts (admitted reg)
               then andthen (never_capturable E opts rq reg found) (\<lambda>nc. give (defer0 \<and> \<not> nc))
               else give defer0) (\<lambda>defer.
      andthen (if locally then outstanding_of E rq reg else give \<lparr>ow_requested = False, ow_upload = False\<rparr>) (\<lambda>owed.
        give (if locally \<and> defer then \<not> defers_expiry owed else locally, defer, owed))))"

datatype session_action = SweepRemote | LeaveSession | ForgetPreviousDestination | ForgetNeverPublished

definition choose_session_action :: "bool \<Rightarrow> bool \<Rightarrow> bool \<Rightarrow> session_action" where
  "choose_session_action is_expired current evidence =
     (if \<not> current then (if is_expired then ForgetPreviousDestination else LeaveSession)
      else if is_expired \<and> \<not> evidence then ForgetNeverPublished
      else SweepRemote)"

subsection \<open>Forgetting\<close>

datatype outcome_list = DeletedSessions | PrunedSessions

definition append_outcome :: "outcome_list \<Rightarrow> bytes \<Rightarrow> sweeper \<Rightarrow> sweeper" where
  "append_outcome into sid s =
     s\<lparr>sw_result :=
        (case into of
           DeletedSessions \<Rightarrow> (sw_result s)\<lparr>rs_deleted := rs_deleted (sw_result s) @ [sid]\<rparr>
         | PrunedSessions \<Rightarrow> (sw_result s)\<lparr>rs_pruned := rs_pruned (sw_result s) @ [sid]\<rparr>)\<rparr>"

definition forget :: "renv \<Rightarrow> options \<Rightarrow> registration \<Rightarrow> bool \<Rightarrow> outcome_list \<Rightarrow> unit sweep" where
  "forget E opts reg defer into =
     andthen (clock_allows_deletion E opts) (\<lambda>ok.
     if \<not> ok then give ()
     else
       andthen (query (EvForget (rg_id reg) defer) (\<lambda>l. e_forget E l reg defer)) (\<lambda>(forgotten, err).
       andthen (if forgotten
                then andthen (ask (EvFinish (rg_id reg)) (\<lambda>l. e_finish E l (rg_id reg))) (\<lambda>_.
                  modify (append_outcome into (rg_id reg)))
                else give ()) (\<lambda>_.
         case err of Some e \<Rightarrow> raise e | None \<Rightarrow> give ())))"

subsection \<open>The bucket\<close>

definition current_metadata :: "renv \<Rightarrow> registration \<Rightarrow> metadata sweep" where
  "current_metadata E reg =
     andthen (lift_sum (metadata_object_key (rg_harness reg) (rg_id reg))) (\<lambda>key.
     andthen (if rg_harness reg = ''codex'' then bounded_history_metadata E key
              else ask (EvGet key) (\<lambda>l. e_get E l key)) (\<lambda>data.
     case e_json E data of
       None \<Rightarrow> raise Failed
     | Some m \<Rightarrow>
         andthen (lift_sum (validate_source_reference m)) (\<lambda>_.
         if md_session m \<noteq> rg_id reg \<or> md_harness m \<noteq> rg_harness reg \<or>
            \<not> has_prefix (sr_key (md_bundle m)) (session_prefix (rg_harness reg) (rg_id reg)) then raise Failed
         else
           andthen (lift_sum (source_references m)) (\<lambda>_.
           if md_history m \<noteq> None \<and>
              (md_native m \<noteq> rg_native reg \<or> md_project m \<noteq> rg_project reg \<or> md_captured m = 0) then raise Failed
           else give m))))"

definition source_file_prefix :: "registration \<Rightarrow> bytes" where
  "source_file_prefix reg = session_prefix (rg_harness reg) (rg_id reg) @ ''source.''"

text \<open>The key of the last entry that the current metadata does not reference, and the ownership check.\<close>

definition predecessor_key :: "bytes list \<Rightarrow> superseded list \<Rightarrow> bytes" where
  "predecessor_key protected es =
     foldl (\<lambda>k x. if su_key x \<in> set protected then k else su_key x) [] es"

definition fresh_digest :: "renv \<Rightarrow> registration \<Rightarrow> bytes \<Rightarrow> metadata sweep" where
  "fresh_digest E reg digest =
     andthen (current_metadata E reg) (\<lambda>fresh.
     andthen (lift_sum (source_set_digest E fresh)) (\<lambda>d.
       if d \<noteq> digest then raise Failed else give fresh))"

fun delete_entries ::
  "renv \<Rightarrow> options \<Rightarrow> registration \<Rightarrow> bytes list \<Rightarrow> bytes \<Rightarrow> bytes \<Rightarrow> superseded list \<Rightarrow> unit sweep" where
  "delete_entries E opts reg protected digest pred [] = give ()"
| "delete_entries E opts reg protected digest pred (x # xs) =
     (let sid = rg_id reg; rest = delete_entries E opts reg protected digest pred xs in
      if su_key x \<in> set protected then
        andthen (ask (EvRemoveLedger sid (su_key x)) (\<lambda>l. e_remove_ledger E l sid (su_key x))) (\<lambda>_. rest)
      else if su_key x = pred \<and> \<not> su_privacy x \<or> tsub (o_now opts) (su_at x) < grace_period opts then rest
      else
        andthen (if \<not> su_privacy x then give True
                 else
                   (case o_privacy opts of
                      None \<Rightarrow> give False
                    | Some f \<Rightarrow>
                        andthen (fresh_digest E reg digest) (\<lambda>fresh. query (EvPrivacy sid) (\<lambda>l. f l reg fresh)))) (\<lambda>go.
        if \<not> go then rest
        else
          andthen (fresh_digest E reg digest) (\<lambda>_.
          andthen (clock_allows_deletion E opts) (\<lambda>ok.
          if \<not> ok then give ()
          else
            andthen (ask (EvCheckRead sid) (\<lambda>l. e_check_read E l sid)) (\<lambda>_.
            andthen (ask (EvDelete (su_key x)) (\<lambda>l. e_delete E l (su_key x))) (\<lambda>_.
            andthen (ask (EvRemoveLedger sid (su_key x)) (\<lambda>l. e_remove_ledger E l sid (su_key x))) (\<lambda>_.
            andthen (modify (\<lambda>s. s\<lparr>sw_result := (sw_result s)\<lparr>rs_snapshots := Suc (rs_snapshots (sw_result s))\<rparr>\<rparr>)) (\<lambda>_.
              rest))))))))"

definition delete_superseded :: "renv \<Rightarrow> options \<Rightarrow> registration \<Rightarrow> superseded list \<Rightarrow> metadata \<Rightarrow> unit sweep" where
  "delete_superseded E opts reg es cur =
     andthen (ask (EvCheckRead (rg_id reg)) (\<lambda>l. e_check_read E l (rg_id reg))) (\<lambda>_.
     andthen (lift_sum (source_references cur)) (\<lambda>refs.
     andthen (lift_sum (source_set_digest E cur)) (\<lambda>digest.
     if \<not> list_all (\<lambda>x. has_prefix (su_key x) (source_file_prefix reg)) es then raise Failed
     else delete_entries E opts reg (map sr_key refs) digest (predecessor_key (map sr_key refs) es) es)))"

text \<open>The capture time that expiry is decided from, once the remote metadata has been read.\<close>

definition captured_at :: "summary \<Rightarrow> time \<Rightarrow> rerr + metadata \<Rightarrow> rerr + time" where
  "captured_at sm age r =
     (case r of
        Inl _ \<Rightarrow> Inr age
      | Inr m \<Rightarrow>
          sbind (meaningful_captured_at m) (\<lambda>remote_age.
            let cached = (if sm_meaningful sm = 0 then sm_captured sm else sm_meaningful sm) in
            Inr (if remote_age > age \<and> remote_age \<noteq> cached then remote_age else age)))"

definition remote :: "renv \<Rightarrow> options \<Rightarrow> registration \<Rightarrow> summary \<Rightarrow> time \<Rightarrow> bool \<Rightarrow> bool \<Rightarrow> unit sweep" where
  "remote E opts reg sm age locally defer =
     (let sid = rg_id reg in
      andthen (superseded_ledger E opts sid) (\<lambda>es.
      if \<not> locally \<and> \<not> any_superseded_expirable es (o_now opts) (grace_period opts) then give ()
      else
        andthen (attempt (current_metadata E reg)) (\<lambda>r.
        if (case r of Inl e \<Rightarrow> e \<noteq> NotFound | Inr _ \<Rightarrow> False) then raise (projl r)
        else
          andthen (lift_sum (captured_at sm age r)) (\<lambda>at.
          if locally \<and> expired opts at then
            andthen (clock_allows_deletion E opts) (\<lambda>ok.
            if \<not> ok then give ()
            else
              andthen (ask (EvCheckRead sid) (\<lambda>l. e_check_read E l sid)) (\<lambda>_.
              andthen (attempt (delete_owned_session E reg Retention (o_now opts))) (\<lambda>d.
              case d of
                Inl e \<Rightarrow> if e = WorkChanged then give () else raise e
              | Inr _ \<Rightarrow> forget E opts reg defer DeletedSessions)))
          else if es = [] then give ()
          else
            (case r of
               Inl _ \<Rightarrow> raise Failed
             | Inr m \<Rightarrow> delete_superseded E opts reg es m)))))"

subsection \<open>Sessions\<close>

definition finish_deletion :: "renv \<Rightarrow> options \<Rightarrow> registration \<Rightarrow> deletion \<Rightarrow> unit sweep" where
  "finish_deletion E opts reg j =
     (if (case o_current opts of None \<Rightarrow> False | Some f \<Rightarrow> \<not> f reg) then raise RemovalPending
      else
        andthen (clock_allows_deletion E opts) (\<lambda>ok.
        if \<not> ok then give ()
        else
          andthen (attempt (delete_owned_session E reg (dl_reason j) (o_now opts))) (\<lambda>d.
          case d of
            Inl e \<Rightarrow> if e = WorkChanged then give () else raise e
          | Inr _ \<Rightarrow> forget E opts reg True DeletedSessions)))"

definition sweep_session :: "renv \<Rightarrow> options \<Rightarrow> (bytes \<Rightarrow> bool) \<Rightarrow> registration \<Rightarrow> unit sweep" where
  "sweep_session E opts rq reg =
     (let sid = rg_id reg in
      andthen (ask (EvLoadDeletion sid) (\<lambda>l. e_load_deletion E l reg)) (\<lambda>(j, found_j).
      if found_j \<and> dl_phase j \<noteq> Restored \<and> dl_phase j \<noteq> Cancelled \<and> \<not> dl_removed j then finish_deletion E opts reg j
      else
        andthen (ask (EvCheckRead sid) (\<lambda>l. e_check_read E l sid)) (\<lambda>_.
        andthen (ask (EvSummary sid) (\<lambda>l. e_summary E l sid)) (\<lambda>(sm, found).
        andthen (session_age E opts reg sm found) (\<lambda>age.
        andthen (session_expiry E opts rq reg found age) (\<lambda>(locally, defer, owed).
        let current = (case o_current opts of None \<Rightarrow> True | Some f \<Rightarrow> f reg) in
        andthen (if locally \<and> current
                 then (if sm_published sm \<or> ow_upload owed then give True else query (EvLost sid) (\<lambda>l. e_lost E l sid))
                 else give False) (\<lambda>evidence.
        case choose_session_action locally current evidence of
          ForgetPreviousDestination \<Rightarrow> forget E opts reg defer PrunedSessions
        | ForgetNeverPublished \<Rightarrow> forget E opts reg defer PrunedSessions
        | LeaveSession \<Rightarrow> give ()
        | SweepRemote \<Rightarrow> remote E opts reg sm age locally defer)))))))"

definition known_harnesses :: "bytes list" where
  "known_harnesses = [''claude'', ''codex'', ''cursor'', ''muse'']"

fun delete_harnesses :: "renv \<Rightarrow> bytes \<Rightarrow> bytes list \<Rightarrow> unit sweep" where
  "delete_harnesses E sid [] = give ()"
| "delete_harnesses E sid (h # hs) =
     andthen (ask (EvCheckRead sid) (\<lambda>l. e_check_read E l sid)) (\<lambda>_.
     andthen (delete_whole_session E h sid) (\<lambda>_. delete_harnesses E sid hs))"

definition orphan :: "renv \<Rightarrow> options \<Rightarrow> bytes \<Rightarrow> unit sweep" where
  "orphan E opts sid =
     andthen (query (EvRecoverLocal sid) (\<lambda>l. e_recover_local E l sid)) (\<lambda>(handled, err).
     if handled \<or> err \<noteq> None then (case err of None \<Rightarrow> give () | Some e \<Rightarrow> raise e)
     else
       andthen (ask (EvCheckRead sid) (\<lambda>l. e_check_read E l sid)) (\<lambda>_.
       andthen (query (EvChangedAt sid) (\<lambda>l. e_changed_at E l sid)) (\<lambda>changed.
       andthen (ask (EvSummary sid) (\<lambda>l. e_summary E l sid)) (\<lambda>(sm, found).
       let age = (if found \<and> retention_age sm \<noteq> 0 then retention_age sm else changed) in
       andthen (if \<not> expired opts age then give False else clock_allows_deletion E opts) (\<lambda>ok.
       if \<not> ok then give ()
       else
         andthen (query (EvHarnesses sid) (\<lambda>l. e_harnesses E l sid)) (\<lambda>hs.
         andthen (delete_harnesses E sid (if hs = [] then known_harnesses else hs)) (\<lambda>_.
         andthen (query (EvForgetOrphan sid) (\<lambda>l. e_forget_orphan E l sid)) (\<lambda>(forgotten, e).
         andthen (if forgotten then modify (append_outcome DeletedSessions sid) else give ()) (\<lambda>_.
           case e of Some x \<Rightarrow> raise x | None \<Rightarrow> give ())))))))))"

subsection \<open>The sweep\<close>

definition add_error :: "bytes \<Rightarrow> rerr \<Rightarrow> sweeper \<Rightarrow> sweeper" where
  "add_error sid e s = s\<lparr>sw_result := (sw_result s)\<lparr>rs_errors := (rs_errors (sw_result s))(sid \<mapsto> e)\<rparr>\<rparr>"

definition add_unfinished :: "nat \<Rightarrow> sweeper \<Rightarrow> sweeper" where
  "add_unfinished n s = s\<lparr>sw_result := (sw_result s)\<lparr>rs_unfinished := rs_unfinished (sw_result s) + n\<rparr>\<rparr>"

definition record_outcome :: "renv \<Rightarrow> bytes \<Rightarrow> rerr + unit \<Rightarrow> unit sweep" where
  "record_outcome E sid r =
     (case r of
        Inr _ \<Rightarrow> give ()
      | Inl e \<Rightarrow>
          andthen (query EvCtx (e_ended E)) (\<lambda>ended.
            if ended then modify (add_unfinished 1) else modify (add_error sid e)))"

fun sweep_list :: "renv \<Rightarrow> (('a \<Rightarrow> bytes) \<times> ('a \<Rightarrow> unit sweep)) \<Rightarrow> 'a list \<Rightarrow> unit sweep" where
  "sweep_list E (key, f) [] = give ()"
| "sweep_list E (key, f) (x # xs) =
     andthen (query EvCtx (e_ended E)) (\<lambda>ended.
     if ended then modify (add_unfinished (length (x # xs)))
     else
       andthen (attempt (f x)) (\<lambda>r.
       andthen (record_outcome E (key x) r) (\<lambda>_. sweep_list E (key, f) xs)))"

definition orphans :: "renv \<Rightarrow> options \<Rightarrow> (bytes \<Rightarrow> bool) \<Rightarrow> unit sweep" where
  "orphans E opts keep =
     andthen (attempt (ask EvOrphans (\<lambda>l. e_orphans E l keep))) (\<lambda>r.
     case r of
       Inl e \<Rightarrow> modify (add_error ''orphaned-state'' e)
     | Inr ids \<Rightarrow> sweep_list E (\<lambda>x. x, orphan E opts) ids)"

definition add_errors :: "(bytes \<times> rerr) list \<Rightarrow> sweeper \<Rightarrow> sweeper" where
  "add_errors issues s = foldl (\<lambda>s (sid, e). add_error sid e s) s issues"

definition sweep_registered :: "renv \<Rightarrow> options \<Rightarrow> unit sweep" where
  "sweep_registered E opts =
     andthen (ask EvScanRegistrations (e_registrations E)) (\<lambda>(regs, reg_issues).
     andthen (modify (add_errors reg_issues)) (\<lambda>_.
     andthen (ask EvScanRequests (e_requests E)) (\<lambda>(requests, req_issues).
     andthen (modify (add_errors req_issues)) (\<lambda>_.
     let rq = (\<lambda>sid. sid \<in> set requests \<or> (\<exists>x\<in>set req_issues. fst x = sid \<and> snd x \<noteq> Quarantined));
         keep = (\<lambda>sid. sid \<in> set (map rg_id regs) \<or> (\<exists>x\<in>set reg_issues. fst x = sid \<and> snd x \<noteq> Quarantined)) in
     andthen (sweep_list E (rg_id, sweep_session E opts rq) regs) (\<lambda>_. orphans E opts keep)))))"

definition new_sweeper :: sweeper where
  "new_sweeper = \<lparr>sw_log = [], sw_clock = \<lparr>vd_checked = False, vd_held = None, vd_agrees = False\<rparr>,
     sw_result = \<lparr>rs_snapshots = 0, rs_deleted = [], rs_pruned = [], rs_errors = Map.empty, rs_held = None, rs_unfinished = 0\<rparr>\<rparr>"

text \<open>\<open>Sweep\<close>: the result, or the error of a scan, and the final sweeper with the log of its calls.\<close>

definition sweep_run :: "renv \<Rightarrow> options \<Rightarrow> (rerr + rresult) \<times> sweeper" where
  "sweep_run E opts =
     (case sweep_registered E opts new_sweeper of
        (Inl e, s) \<Rightarrow> (Inl e, s)
      | (Inr _, s) \<Rightarrow> (Inr (sw_result s), s))"

subsection \<open>The preview\<close>

definition preview_sweeper :: sweeper where
  "preview_sweeper = new_sweeper\<lparr>sw_clock := \<lparr>vd_checked = True, vd_held = Some ClockUnverified, vd_agrees = False\<rparr>\<rparr>"

definition session_expired :: "renv \<Rightarrow> options \<Rightarrow> (bytes \<Rightarrow> bool) \<Rightarrow> registration \<Rightarrow> dur \<Rightarrow> bool sweep" where
  "session_expired E opts rq reg max_age =
     (let opts' = opts\<lparr>o_max_age := max_age\<rparr>; sid = rg_id reg in
      andthen (ask (EvSummary sid) (\<lambda>l. e_summary E l sid)) (\<lambda>(sm, found).
      andthen (session_age E opts' reg sm found) (\<lambda>age.
      andthen (session_expiry E opts' rq reg found age) (\<lambda>(is_expired, _, _). give is_expired))))"

end
