(* ===== verification/RetentionSafety.thy ===== *)
theory RetentionSafety
  imports Retention "HOL-Library.Sublist"
begin

text \<open>
  What a sweep may destroy, and when. \<open>guarded\<close> is the invariant of a sweep: whatever was destroyed was
  destroyed after a clock reading that agreed. It holds whatever the store, the provider and the other
  machines answer.
\<close>

subsection \<open>Preservation by the calls\<close>

lemma keeps_attempt [keeps_rules]: "keeps P m \<Longrightarrow> keeps P (attempt m)"
  by (auto simp: keeps_def attempt_def split: prod.split)

lemma keeps_ensure [keeps_rules]: "keeps P m \<Longrightarrow> keeps P k \<Longrightarrow> keeps P (ensure m k)"
  by (auto simp: keeps_def ensure_def split: prod.split)

lemma keeps_get_sweeper [keeps_rules]: "keeps P get_sweeper"
  by (simp add: keeps_def get_sweeper_def)

lemma keeps_ask: "(\<And>s. P s \<Longrightarrow> P (s\<lparr>sw_log := sw_log s @ [ev]\<rparr>)) \<Longrightarrow> keeps P (ask ev f)"
  by (simp add: keeps_def ask_def)

lemma keeps_query: "(\<And>s. P s \<Longrightarrow> P (s\<lparr>sw_log := sw_log s @ [ev]\<rparr>)) \<Longrightarrow> keeps P (query ev f)"
  by (simp add: keeps_def query_def)

lemma keeps_reserve: "(\<And>s ok. P s \<Longrightarrow> P (s\<lparr>sw_log := sw_log s @ [EvReserve n ok]\<rparr>)) \<Longrightarrow> keeps P (reserve E n)"
  by (simp add: keeps_def reserve_def Let_def)

lemma keeps_modify: "(\<And>s. P s \<Longrightarrow> P (f s)) \<Longrightarrow> keeps P (modify f)"
  by (simp add: keeps_def modify_def)

subsection \<open>The invariant\<close>

text \<open>
  What deletes in the bucket or forgets on this machine. The object a clock probe writes and removes is
  the sweep's own.
\<close>

fun destroys :: "event \<Rightarrow> bool" where
  "destroys (EvDelete k) = (\<not> has_prefix k ''.setup-test/clock-'')"
| "destroys (EvTxDelete k) = True"
| "destroys (EvIndexDelete h s) = True"
| "destroys (EvForget s d) = True"
| "destroys (EvForgetOrphan s) = True"
| "destroys (EvFinish s) = True"
| "destroys (EvAdvance s ph) = True"
| "destroys _ = False"

text \<open>A clock reading that lets age decide: the service is at most an hour behind, the last pass at most a day.\<close>

definition clock_fits :: "options \<Rightarrow> time \<Rightarrow> bool" where
  "clock_fits opts t \<longleftrightarrow> o_now opts - t \<le> hour \<and> (o_previous opts = 0 \<or> o_now opts - o_previous opts \<le> 24 * hour)"

definition cleared :: "sweeper \<Rightarrow> bool" where
  "cleared s \<longleftrightarrow> vd_checked (sw_clock s) \<and> vd_held (sw_clock s) = None"

text \<open>The service's clock was read, with answer t, after a part of the log.\<close>

definition clock_answer :: "renv \<Rightarrow> options \<Rightarrow> log \<Rightarrow> rerr + time \<Rightarrow> bool" where
  "clock_answer E opts l r \<longleftrightarrow> (\<exists>s0. prefix (sw_log s0) l \<and> fst (server_clock E opts s0) = r)"

definition guarded_log :: "renv \<Rightarrow> options \<Rightarrow> log \<Rightarrow> bool" where
  "guarded_log E opts l \<longleftrightarrow>
     (\<forall>pre e post. l = pre @ e # post \<longrightarrow> destroys e \<longrightarrow> (\<exists>t. clock_answer E opts pre (Inr t) \<and> clock_fits opts t))"

definition guarded :: "renv \<Rightarrow> options \<Rightarrow> sweeper \<Rightarrow> bool" where
  "guarded E opts s \<longleftrightarrow> guarded_log E opts (sw_log s) \<and>
     ((\<exists>e\<in>set (sw_log s). destroys e) \<longrightarrow> cleared s) \<and>
     (vd_checked (sw_clock s) \<longrightarrow> (\<exists>r. clock_answer E opts (sw_log s) r \<and> sw_clock s = judge_clock opts r)) \<and>
     (rs_held (sw_result s) \<noteq> None \<longrightarrow> vd_checked (sw_clock s) \<and> vd_held (sw_clock s) \<noteq> None)"

text \<open>\<open>under c\<close>: the invariant, and when c a clock verdict that allows deletions.\<close>

definition under :: "renv \<Rightarrow> options \<Rightarrow> bool \<Rightarrow> sweeper \<Rightarrow> bool" where
  "under E opts c s \<longleftrightarrow> guarded E opts s \<and> (c \<longrightarrow> cleared s)"

lemma tsub_le: "0 \<le> d \<Longrightarrow> d < max_dur \<Longrightarrow> tsub a b \<le> d \<longleftrightarrow> a - b \<le> d"
  by (auto simp: tsub_def max_dur_def min_dur_def)

lemma judge_clears:
  assumes "vd_held (judge_clock opts r) = None"
  shows "\<exists>t. r = Inr t \<and> clock_fits opts t"
proof (cases r)
  case (Inr t)
  have "tsub (o_now opts) t \<le> max_clock_skew" "o_previous opts = 0 \<or> tsub (o_now opts) (o_previous opts) \<le> max_pass_gap"
    using assms Inr by (auto simp: judge_clock_def Let_def not_less split: if_splits)
  then have "clock_fits opts t"
    using tsub_le [of hour] tsub_le [of "24 * hour"]
    by (auto simp: clock_fits_def max_clock_skew_def max_pass_gap_def hour_def minute_def max_dur_def)
  then show ?thesis using Inr by simp
qed (use assms in \<open>auto simp: judge_clock_def Let_def split: if_splits\<close>)

lemma guarded_log_append:
  "guarded_log E opts (l @ [e]) \<longleftrightarrow>
     guarded_log E opts l \<and> (destroys e \<longrightarrow> (\<exists>t. clock_answer E opts l (Inr t) \<and> clock_fits opts t))"
proof -
  have "(\<forall>pre f post. l @ [e] = pre @ f # post \<longrightarrow> Q pre f) \<longleftrightarrow> (\<forall>pre f post. l = pre @ f # post \<longrightarrow> Q pre f) \<and> Q l e" for Q
  proof (intro iffI conjI allI impI)
    fix pre f post assume a: "\<forall>pre f post. l @ [e] = pre @ f # post \<longrightarrow> Q pre f" and "l = pre @ f # post"
    then have "l @ [e] = pre @ f # (post @ [e])" by simp
    then show "Q pre f" using a by blast
  next
    assume "\<forall>pre f post. l @ [e] = pre @ f # post \<longrightarrow> Q pre f"
    then show "Q l e" by blast
  next
    fix pre f post assume a: "(\<forall>pre f post. l = pre @ f # post \<longrightarrow> Q pre f) \<and> Q l e" and s: "l @ [e] = pre @ f # post"
    show "Q pre f"
    proof (cases post rule: rev_cases)
      case Nil
      then show ?thesis using a s by simp
    next
      case (snoc p x)
      then have "l = pre @ f # p" using s by simp
      then show ?thesis using a by blast
    qed
  qed
  from this [of "\<lambda>pre f. destroys f \<longrightarrow> (\<exists>t. clock_answer E opts pre (Inr t) \<and> clock_fits opts t)"]
  show ?thesis unfolding guarded_log_def by simp
qed

lemma clock_answer_mono: "clock_answer E opts l r \<Longrightarrow> clock_answer E opts (l @ l') r"
  unfolding clock_answer_def by (blast intro: prefix_prefix)

lemma under_append:
  assumes "under E opts c s" "destroys e \<longrightarrow> c"
  shows "under E opts c (s\<lparr>sw_log := sw_log s @ [e]\<rparr>)"
proof -
  have c: "destroys e \<longrightarrow> cleared s" using assms by (auto simp: under_def)
  have "\<exists>t. clock_answer E opts (sw_log s) (Inr t) \<and> clock_fits opts t" if d: "destroys e"
  proof -
    obtain r where "clock_answer E opts (sw_log s) r" "sw_clock s = judge_clock opts r"
      using assms(1) c d by (auto simp: under_def guarded_def cleared_def)
    then show ?thesis using judge_clears [of opts r] c d by (auto simp: cleared_def)
  qed
  moreover have "vd_checked (sw_clock s) \<longrightarrow> (\<exists>r. clock_answer E opts (sw_log s @ [e]) r \<and> sw_clock s = judge_clock opts r)"
    using assms(1) clock_answer_mono by (simp add: under_def guarded_def) blast
  ultimately show ?thesis
    using assms(1) c by (simp add: under_def guarded_def guarded_log_append cleared_def)
qed

lemma under_ask [keeps_rules]: "destroys ev \<longrightarrow> c \<Longrightarrow> keeps (under E opts c) (ask ev f)"
  by (rule keeps_ask) (rule under_append)

lemma under_query [keeps_rules]: "destroys ev \<longrightarrow> c \<Longrightarrow> keeps (under E opts c) (query ev f)"
  by (rule keeps_query) (rule under_append)

lemma under_reserve [keeps_rules]: "keeps (under E opts c) (reserve E' n)"
  by (rule keeps_reserve) (rule under_append, simp_all)

subsection \<open>The clock\<close>

definition framed :: "log \<Rightarrow> verdict \<Rightarrow> rresult \<Rightarrow> sweeper \<Rightarrow> bool" where
  "framed l v r s \<longleftrightarrow> prefix l (sw_log s) \<and> sw_clock s = v \<and> sw_result s = r"

lemma framed_append: "framed l v r s \<Longrightarrow> framed l v r (s\<lparr>sw_log := sw_log s @ [e]\<rparr>)"
  by (auto simp: framed_def intro: prefix_prefix)

lemma framed_calls [keeps_rules]:
  "keeps (framed l v r) (ask ev f)" "keeps (framed l v r) (query ev g)" "keeps (framed l v r) (reserve E n)"
  by (rule keeps_ask keeps_query keeps_reserve, rule framed_append, assumption)+

lemma keeps_server_clock:
  assumes "\<And>ev f. \<not> destroys ev \<Longrightarrow> keeps P (ask ev (f :: log \<Rightarrow> rerr + time))"
    "\<And>ev f. \<not> destroys ev \<Longrightarrow> keeps P (ask ev (f :: log \<Rightarrow> rerr + bytes))"
    "\<And>ev f. \<not> destroys ev \<Longrightarrow> keeps P (ask ev (f :: log \<Rightarrow> rerr + unit))"
    "\<And>ev f. \<not> destroys ev \<Longrightarrow> keeps P (ask ev (f :: log \<Rightarrow> rerr + object list))"
    "\<And>ev f. \<not> destroys ev \<Longrightarrow> keeps P (query ev (f :: log \<Rightarrow> reading option))"
    "\<And>ev f. \<not> destroys ev \<Longrightarrow> keeps P (query ev (f :: log \<Rightarrow> bool))"
    "\<And>ev f. \<not> destroys ev \<Longrightarrow> keeps P (query ev (f :: log \<Rightarrow> unit))"
  shows "keeps P (server_clock E opts)"
  unfolding server_clock_def cached_probe_def probe_server_clock_def Let_def
  by (intro keeps_rules assms) (simp_all add: probe_key_def has_prefix_def)

lemma under_server_clock: "keeps (under E opts c) (server_clock E opts)"
  by (rule keeps_server_clock) (auto intro: keeps_rules)

lemma framed_server_clock: "keeps (framed l v r) (server_clock E opts)"
  by (rule keeps_server_clock) (auto intro: keeps_rules)

lemma hoare_read_clock:
  "hoare (under E opts c) (read_clock E opts) (\<lambda>v s. under E opts c s \<and> vd_checked (sw_clock s) \<and> sw_clock s = v) (under E opts c)"
  unfolding hoare_def
proof (intro allI impI)
  fix s assume u: "under E opts c s"
  show "case read_clock E opts s of (Inl x, s') \<Rightarrow> under E opts c s'
      | (Inr v, s') \<Rightarrow> under E opts c s' \<and> vd_checked (sw_clock s') \<and> sw_clock s' = v"
  proof (cases "vd_checked (sw_clock s)")
    case True
    then show ?thesis using u by (simp add: read_clock_def andthen_def get_sweeper_def give_def)
  next
    case False
    obtain r s1 where r: "server_clock E opts s = (r, s1)" by (cases "server_clock E opts s")
    have f: "framed (sw_log s) (sw_clock s) (sw_result s) s1"
      by (rule keepsD [OF framed_server_clock _ r]) (simp add: framed_def)
    have u1: "under E opts c s1" by (rule keepsD [OF under_server_clock u r])
    let ?s2 = "s1\<lparr>sw_clock := judge_clock opts r\<rparr>"
    have chk: "vd_checked (judge_clock opts r)" by (auto simp: judge_clock_def Let_def split: sum.split)
    have un: "\<not> vd_checked (sw_clock s1)" using f False by (simp add: framed_def)
    have ans: "clock_answer E opts (sw_log s1) r"
      unfolding clock_answer_def using f r by (intro exI [of _ s]) (simp add: framed_def)
    have "\<not> (\<exists>e\<in>set (sw_log s1). destroys e)" "rs_held (sw_result s1) = None" "\<not> c"
      using u1 un by (auto simp: under_def guarded_def cleared_def)
    then have "under E opts c ?s2"
      using u1 ans by (auto simp: under_def guarded_def)
    then show ?thesis using False r chk
      by (simp add: read_clock_def andthen_def get_sweeper_def give_def attempt_def modify_def)
  qed
qed

lemma under_read_clock [keeps_rules]: "keeps (under E opts c) (read_clock E opts)"
  unfolding keeps_hoare by (rule hoare_weaken [OF hoare_read_clock]) auto

lemma under_clock_agrees [keeps_rules]: "keeps (under E opts c) (clock_agrees E opts)"
  unfolding clock_agrees_def by (intro keeps_rules)

text \<open>A clock check that lets a deletion through establishes \<open>under True\<close>.\<close>

lemma hoare_clock_allows:
  "hoare (under E opts c) (clock_allows_deletion E opts) (\<lambda>ok. under E opts (c \<or> ok)) (under E opts c)"
  unfolding clock_allows_deletion_def
proof (rule hoare_andthen [OF hoare_read_clock], rule hoare_option)
  fix v
  show "hoare (\<lambda>s. under E opts c s \<and> vd_checked (sw_clock s) \<and> sw_clock s = v) (give True)
     (\<lambda>ok. under E opts (c \<or> ok)) (under E opts c)" if "vd_held v = None"
    using that by (intro hoare_give) (auto simp: under_def cleared_def)
  show "hoare (\<lambda>s. under E opts c s \<and> vd_checked (sw_clock s) \<and> sw_clock s = v)
      (andthen (modify (\<lambda>s. s\<lparr>sw_result := (sw_result s)\<lparr>rs_held := Some h\<rparr>\<rparr>)) (\<lambda>_. give False))
     (\<lambda>ok. under E opts (c \<or> ok)) (under E opts c)" if "vd_held v = Some h" for h
    using that by (auto simp: hoare_def andthen_def modify_def give_def under_def guarded_def cleared_def)
qed

lemma under_True: "under E opts True s \<Longrightarrow> under E opts c s"
  by (simp add: under_def)

text \<open>A part that is only reached past the check may destroy.\<close>

lemma keeps_past:
  assumes "\<And>c. hoare (under E opts c) k (\<lambda>ok. under E opts (c \<or> ok)) (under E opts c)"
    "\<And>c. keeps (under E opts c) m" "keeps (under E opts True) n"
  shows "keeps (under E opts c) (andthen k (\<lambda>ok. if \<not> ok then m else n))"
  unfolding keeps_hoare
proof (rule hoare_andthen [OF assms(1)])
  fix ok
  show "hoare (under E opts (c \<or> ok)) (if \<not> ok then m else n) (\<lambda>_. under E opts c) (under E opts c)"
  proof (cases ok)
    case True
    have "hoare (under E opts True) n (\<lambda>_. under E opts True) (under E opts True)"
      using assms(3) unfolding keeps_hoare .
    from hoare_weaken [OF this] under_True [of E opts] True show ?thesis by simp
  qed (use assms(2) [of c] in \<open>simp add: keeps_hoare\<close>)
qed

lemmas keeps_past_clock = keeps_past [OF hoare_clock_allows]

lemma keeps_past_expiry:
  assumes "\<And>c. keeps (under E opts c) m" "keeps (under E opts True) n"
  shows "keeps (under E opts c) (andthen (if b then give False else clock_allows_deletion E opts) (\<lambda>ok. if \<not> ok then m else n))"
proof (rule keeps_past [OF _ assms])
  fix c show "hoare (under E opts c) (if b then give False else clock_allows_deletion E opts) (\<lambda>ok. under E opts (c \<or> ok)) (under E opts c)"
    by (rule hoare_if) (auto intro: hoare_give hoare_clock_allows)
qed

lemma under_result:
  assumes "rs_held r = rs_held (sw_result s)" "under E opts c s"
  shows "under E opts c (s\<lparr>sw_result := r\<rparr>)"
  using assms by (simp add: under_def guarded_def cleared_def)

subsection \<open>Every operation\<close>

lemma under_append_outcome [keeps_rules]: "keeps (under E opts c) (modify (append_outcome into sid))"
  by (rule keeps_modify) (auto simp: append_outcome_def intro!: under_result split: outcome_list.split)

lemma under_snapshots [keeps_rules]:
  "keeps (under E opts c) (modify (\<lambda>s. s\<lparr>sw_result := (sw_result s)\<lparr>rs_snapshots := Suc (rs_snapshots (sw_result s))\<rparr>\<rparr>))"
  by (rule keeps_modify) (auto intro!: under_result)

lemma under_add_error [keeps_rules]: "keeps (under E opts c) (modify (add_error sid e))"
  by (rule keeps_modify) (auto simp: add_error_def intro!: under_result)

lemma add_errors_result: "add_errors xs s = s\<lparr>sw_result := (sw_result s)\<lparr>rs_errors := rs_errors (sw_result (add_errors xs s))\<rparr>\<rparr>"
proof (induction xs arbitrary: s)
  case (Cons x xs)
  obtain sid e where "x = (sid, e)" by (cases x)
  then show ?case using Cons [of "add_error sid e s"] by (simp add: add_errors_def add_error_def)
qed (simp add: add_errors_def)

lemma under_add_errors [keeps_rules]: "keeps (under E opts c) (modify (add_errors xs))"
  by (rule keeps_modify, subst add_errors_result) (auto intro!: under_result)

lemma under_add_unfinished [keeps_rules]: "keeps (under E opts c) (modify (add_unfinished n))"
  by (rule keeps_modify) (auto simp: add_unfinished_def intro!: under_result)

lemma under_release [keeps_rules]: "keeps (under E opts c) (release n)"
  unfolding release_def by (intro keeps_rules) simp

lemma under_metadata [keeps_rules]: "(\<And>r. keeps (under E opts c) (k r)) \<Longrightarrow> keeps (under E opts c) (with_deletion_metadata E' key k)"
  unfolding with_deletion_metadata_def read_publication_metadata_def Let_def by (intro keeps_rules) simp_all

lemma under_history [keeps_rules]: "keeps (under E opts c) (bounded_history_metadata E' key)"
  unfolding bounded_history_metadata_def by (intro keeps_rules) simp_all

lemma under_verify_retained [keeps_rules]: "keeps (under E opts c) (verify_retained E' sid rs)"
  by (induction rs) (auto intro!: keeps_rules)

lemma under_verify_position [keeps_rules]: "keeps (under E opts c) (verify_deletion_position E' j key present)"
  unfolding verify_deletion_position_def by (intro keeps_rules) simp_all

lemma under_retain [keeps_rules]: "keeps (under E opts c) (retain_sources E' j i rs)"
  by (induction rs arbitrary: i) (auto simp: retain_deleting_source_def intro!: keeps_rules)

lemma under_request_moved [keeps_rules]: "keeps (under E opts c) (request_moved E' j)"
  unfolding request_moved_def by (intro keeps_rules) simp_all

lemma under_current_metadata [keeps_rules]: "keeps (under E opts c) (current_metadata E' reg)"
  unfolding current_metadata_def by (intro keeps_rules) simp_all

lemma under_fresh_digest [keeps_rules]: "keeps (under E opts c) (fresh_digest E' reg d)"
  unfolding fresh_digest_def by (intro keeps_rules)

lemma under_verify_object [keeps_rules]: "keeps (under E opts c) (verify_owned_object E' x)"
  unfolding verify_owned_object_def Let_def by (intro keeps_rules) simp_all

lemma under_delete_namespace_objects: "keeps (under E opts True) (delete_namespace_objects E' j key xs)"
  by (induction xs) (auto intro!: keeps_rules)

lemma under_delete_objects: "keeps (under E opts True) (delete_objects E' ie xs)"
  by (induction xs) (auto intro!: keeps_rules)

lemma under_delete_whole: "keeps (under E opts True) (delete_whole_session E' h sid)"
  unfolding delete_whole_session_def check_history_authority_def Let_def
  by (intro keeps_rules under_delete_objects) simp_all

lemma under_delete_owned: "keeps (under E opts True) (delete_owned_session E' reg why now)"
  unfolding delete_owned_session_def delete_prepared_def delete_owned_namespace_def delete_owned_metadata_def
    prepare_owned_sources_def advance_def Let_def
  by (intro keeps_rules under_delete_namespace_objects under_delete_whole) simp_all

lemma under_forget [keeps_rules]: "keeps (under E opts c) (forget E opts reg defer into)"
  unfolding forget_def by (rule keeps_past_clock; intro keeps_rules; simp)

lemma under_capture_age [keeps_rules]: "keeps (under E opts c) (capture_age E opts sid sm)"
  unfolding capture_age_def Let_def by (intro keeps_rules) simp_all

lemma under_ledger [keeps_rules]: "keeps (under E opts c) (superseded_ledger E opts sid)"
  unfolding superseded_ledger_def by (intro keeps_rules) simp_all

lemma under_session_age [keeps_rules]: "keeps (under E opts c) (session_age E opts reg sm found)"
  unfolding session_age_def by (intro keeps_rules)

lemma under_outstanding [keeps_rules]: "keeps (under E opts c) (outstanding_of E' rq reg)"
  unfolding outstanding_of_def by (intro keeps_rules) simp

lemma under_session_expiry [keeps_rules]: "keeps (under E opts c) (session_expiry E' opts' rq reg found age)"
  unfolding session_expiry_def never_capturable_def transcript_empty_def Let_def by (intro keeps_rules) simp_all

lemma under_delete_entries: "keeps (under E opts c) (delete_entries E opts reg protected digest pred es)"
proof (induction es arbitrary: c)
  case (Cons x xs)
  have del: "keeps (under E opts c) (andthen (clock_allows_deletion E opts) (\<lambda>ok.
          if \<not> ok then give ()
          else
            andthen (ask (EvCheckRead sid) (\<lambda>l. e_check_read E l sid)) (\<lambda>_.
            andthen (ask (EvDelete (su_key x)) (\<lambda>l. e_delete E l (su_key x))) (\<lambda>_.
            andthen (ask (EvRemoveLedger sid (su_key x)) (\<lambda>l. e_remove_ledger E l sid (su_key x))) (\<lambda>_.
            andthen (modify (\<lambda>s. s\<lparr>sw_result := (sw_result s)\<lparr>rs_snapshots := Suc (rs_snapshots (sw_result s))\<rparr>\<rparr>)) (\<lambda>_.
              delete_entries E opts reg protected digest pred xs))))))" for sid c
    by (rule keeps_past_clock) (intro keeps_rules Cons; simp)+
  show ?case unfolding delete_entries.simps Let_def
    by (intro keeps_andthen [OF _ keeps_andthen] keeps_rules Cons del; simp)
qed (simp add: keeps_const)

lemma under_delete_superseded [keeps_rules]: "keeps (under E opts c) (delete_superseded E opts reg es cur)"
  unfolding delete_superseded_def by (intro keeps_rules under_delete_entries) simp_all

lemma under_remote [keeps_rules]: "keeps (under E opts c) (remote E opts reg sm age locally defer)"
proof -
  have del: "keeps (under E opts c) (andthen (clock_allows_deletion E opts) (\<lambda>ok.
            if \<not> ok then give ()
            else
              andthen (ask (EvCheckRead sid) (\<lambda>l. e_check_read E l sid)) (\<lambda>_.
              andthen (attempt (delete_owned_session E reg Retention (o_now opts))) (\<lambda>d.
              case d of
                Inl e \<Rightarrow> if e = WorkChanged then give () else raise e
              | Inr _ \<Rightarrow> forget E opts reg defer DeletedSessions))))" for sid c
    by (rule keeps_past_clock) (intro keeps_rules under_delete_owned; simp)+
  show ?thesis unfolding remote_def Let_def by (intro keeps_rules del; simp)
qed

lemma under_finish_deletion [keeps_rules]: "keeps (under E opts c) (finish_deletion E opts reg j)"
proof -
  have del: "keeps (under E opts c) (andthen (clock_allows_deletion E opts) (\<lambda>ok.
        if \<not> ok then give ()
        else
          andthen (attempt (delete_owned_session E reg (dl_reason j) (o_now opts))) (\<lambda>d.
          case d of
            Inl e \<Rightarrow> if e = WorkChanged then give () else raise e
          | Inr _ \<Rightarrow> forget E opts reg True DeletedSessions)))" for c
    by (rule keeps_past_clock) (intro keeps_rules under_delete_owned; simp)+
  show ?thesis unfolding finish_deletion_def by (intro keeps_rules del; simp)
qed

lemma keeps_session_action:
  "keeps P a \<Longrightarrow> keeps P b \<Longrightarrow> keeps P d \<Longrightarrow> keeps P e \<Longrightarrow>
   keeps P (case x of SweepRemote \<Rightarrow> a | LeaveSession \<Rightarrow> b | ForgetPreviousDestination \<Rightarrow> d | ForgetNeverPublished \<Rightarrow> e)"
  by (cases x) auto

lemma under_sweep_session: "keeps (under E opts c) (sweep_session E opts rq reg)"
  unfolding sweep_session_def Let_def by (intro keeps_rules keeps_session_action; simp)

lemma under_delete_harnesses: "keeps (under E opts True) (delete_harnesses E' sid hs)"
  by (induction hs) (auto intro!: keeps_rules under_delete_whole)

lemma under_orphan: "keeps (under E opts c) (orphan E opts sid)"
proof -
  have del: "keeps (under E opts c) (andthen (if b then give False else clock_allows_deletion E opts) (\<lambda>ok.
       if \<not> ok then give ()
       else
         andthen (query (EvHarnesses sid) (\<lambda>l. e_harnesses E l sid)) (\<lambda>hs.
         andthen (delete_harnesses E sid (if hs = [] then known_harnesses else hs)) (\<lambda>_.
         andthen (query (EvForgetOrphan sid) (\<lambda>l. e_forget_orphan E l sid)) (\<lambda>(forgotten, e).
         andthen (if forgotten then modify (append_outcome DeletedSessions sid) else give ()) (\<lambda>_.
           case e of Some x \<Rightarrow> raise x | None \<Rightarrow> give ()))))))" for b c
    by (rule keeps_past_expiry) (intro keeps_rules under_delete_harnesses; simp)+
  show ?thesis unfolding orphan_def Let_def by (intro keeps_rules del; simp)
qed

lemma keeps_sweep_list:
  assumes "\<And>x. keeps (under E opts c) (f x)"
  shows "keeps (under E opts c) (sweep_list E' (key, f) xs)"
  by (induction xs) (auto simp: record_outcome_def intro!: keeps_rules assms)

lemma under_orphans: "keeps (under E opts c) (orphans E opts keep)"
  unfolding orphans_def by (intro keeps_rules keeps_sweep_list under_orphan; simp)

lemma under_sweep: "keeps (under E opts c) (sweep_registered E opts)"
  unfolding sweep_registered_def Let_def by (intro keeps_rules keeps_sweep_list under_sweep_session under_orphans; simp)

lemma sweep_guarded:
  assumes "sweep_run E opts = (r, s)"
  shows "guarded E opts s"
proof -
  have "under E opts False new_sweeper"
    by (simp add: under_def guarded_def guarded_log_def new_sweeper_def)
  moreover obtain x where "sweep_registered E opts new_sweeper = (x, s)"
    using assms by (auto simp: sweep_run_def split: prod.splits sum.splits)
  ultimately have "under E opts False s" by (rule keepsD [OF under_sweep])
  then show ?thesis by (simp add: under_def)
qed

end
