(* ===== verification/RetentionRules.thy ===== *)
theory RetentionRules
  imports RetentionSafety
begin

text \<open>The retention rules: what is deleted of a session, in which order, and what is kept.\<close>

subsection \<open>Events of an operation\<close>

text \<open>\<open>only P l\<close>: since the log l, only events with P have been added.\<close>

definition only :: "(event \<Rightarrow> bool) \<Rightarrow> log \<Rightarrow> sweeper \<Rightarrow> bool" where
  "only P l s \<longleftrightarrow> (\<exists>new. sw_log s = l @ new \<and> (\<forall>e\<in>set new. P e))"

lemma only_refl: "only P (sw_log s) s"
  by (simp add: only_def)

lemma only_append: "P e \<Longrightarrow> only P l s \<Longrightarrow> only P l (s\<lparr>sw_log := sw_log s @ [e]\<rparr>)"
  by (auto simp: only_def)

lemma only_ask [keeps_rules]: "P ev \<Longrightarrow> keeps (only P l) (ask ev f)"
  by (rule keeps_ask) (rule only_append)

lemma only_query [keeps_rules]: "P ev \<Longrightarrow> keeps (only P l) (query ev f)"
  by (rule keeps_query) (rule only_append)

lemma only_reserve [keeps_rules]: "(\<And>ok. P (EvReserve n ok)) \<Longrightarrow> keeps (only P l) (reserve E n)"
  by (rule keeps_reserve) (rule only_append)

lemma only_modify: "(\<And>s. sw_log (f s) = sw_log s) \<Longrightarrow> keeps (only P l) (modify f)"
  by (rule keeps_modify) (simp add: only_def)

lemma add_errors_log: "sw_log (add_errors xs s) = sw_log s"
  by (subst add_errors_result) simp

lemma only_results [keeps_rules]:
  "keeps (only P l) (modify (append_outcome into sid))"
  "keeps (only P l) (modify (\<lambda>s. s\<lparr>sw_result := f s\<rparr>))"
  "keeps (only P l) (modify (\<lambda>s. s\<lparr>sw_clock := v\<rparr>))"
  "keeps (only P l) (modify (add_error sid e))"
  "keeps (only P l) (modify (add_unfinished n))"
  "keeps (only P l) (modify (add_errors xs))"
  by (rule only_modify; simp add: append_outcome_def add_error_def add_unfinished_def add_errors_log split: outcome_list.split)+

lemma only_subset: "only P l s \<Longrightarrow> (\<And>e. P e \<Longrightarrow> Q e) \<Longrightarrow> only Q l s"
  by (auto simp: only_def)

lemma onlyD: "keeps (only P (sw_log s)) m \<Longrightarrow> m s = (r, s') \<Longrightarrow> only P (sw_log s) s'"
  using keepsD [of "only P (sw_log s)" m s r s'] only_refl by blast

text \<open>The events of the clock check.\<close>

fun clock_event :: "event \<Rightarrow> bool" where
  "clock_event (EvPut k) = has_prefix k ''.setup-test/clock-''"
| "clock_event (EvList k) = has_prefix k ''.setup-test/clock-''"
| "clock_event (EvDelete k) = has_prefix k ''.setup-test/clock-''"
| "clock_event e = (case e of EvNewID \<Rightarrow> True | EvServerClock \<Rightarrow> True | EvLoadReading \<Rightarrow> True | EvSaveReading _ \<Rightarrow> True
     | EvCtx \<Rightarrow> True | _ \<Rightarrow> False)"

lemma only_clock:
  assumes "\<And>e. clock_event e \<Longrightarrow> P e"
  shows "keeps (only P l) (read_clock E opts)" "keeps (only P l) (clock_allows_deletion E opts)"
    "keeps (only P l) (clock_agrees E opts)"
proof -
  have k: "has_prefix (probe_key n) ''.setup-test/clock-''" for n by (simp add: probe_key_def has_prefix_def)
  have s: "keeps (only P l) (server_clock E opts)"
    unfolding server_clock_def cached_probe_def probe_server_clock_def Let_def
    by (intro keeps_rules assms) (simp_all add: k)
  show r: "keeps (only P l) (read_clock E opts)"
    unfolding read_clock_def by (intro keeps_rules s)
  show "keeps (only P l) (clock_allows_deletion E opts)" "keeps (only P l) (clock_agrees E opts)"
    unfolding clock_allows_deletion_def clock_agrees_def by (intro keeps_rules r)+
qed

subsection \<open>Superseded snapshots\<close>

text \<open>What the ledger entry of a snapshot must be for its object to be deleted.\<close>

definition deletable :: "options \<Rightarrow> bytes list \<Rightarrow> bytes \<Rightarrow> superseded \<Rightarrow> bool" where
  "deletable opts protected pred x \<longleftrightarrow>
     su_key x \<notin> set protected \<and> (su_key x = pred \<longrightarrow> su_privacy x) \<and> grace_period opts \<le> tsub (o_now opts) (su_at x)"

text \<open>The other events of the snapshot cleanup: reads, checks and the ledger.\<close>

fun ledger_event :: "event \<Rightarrow> bool" where
  "ledger_event (EvGet k) = True"
| "ledger_event (EvGetLimited k n) = True"
| "ledger_event (EvPrivacy s) = True"
| "ledger_event (EvCheckRead s) = True"
| "ledger_event (EvRemoveLedger s k) = True"
| "ledger_event e = clock_event e"

definition snapshot_event :: "options \<Rightarrow> bytes list \<Rightarrow> bytes \<Rightarrow> superseded list \<Rightarrow> event \<Rightarrow> bool" where
  "snapshot_event opts protected pred es e \<longleftrightarrow>
     ledger_event e \<or> (\<exists>x\<in>set es. e = EvDelete (su_key x) \<and> deletable opts protected pred x)"

lemma clock_ledger: "clock_event e \<Longrightarrow> ledger_event e"
  by (cases e) auto

lemma only_current_metadata:
  assumes "\<And>e. ledger_event e \<Longrightarrow> P e"
  shows "keeps (only P l) (current_metadata E reg)" "keeps (only P l) (fresh_digest E reg d)"
  unfolding fresh_digest_def current_metadata_def bounded_history_metadata_def
  by (intro keeps_rules assms; simp)+

text \<open>An entry that may not be deleted is at most dropped from the ledger.\<close>

lemma delete_entries_skip:
  assumes "\<not> deletable opts protected pred x"
  shows "delete_entries E opts reg protected digest pred (x # xs) =
     (if su_key x \<in> set protected then
        andthen (ask (EvRemoveLedger (rg_id reg) (su_key x)) (\<lambda>l. e_remove_ledger E l (rg_id reg) (su_key x)))
          (\<lambda>_. delete_entries E opts reg protected digest pred xs)
      else delete_entries E opts reg protected digest pred xs)"
  using assms by (auto simp: deletable_def Let_def)

lemma only_delete_entries:
  assumes "\<And>e. snapshot_event opts protected pred es e \<Longrightarrow> P e"
  shows "keeps (only P l) (delete_entries E opts reg protected digest pred es)"
  using assms
proof (induction es)
  case (Cons x xs)
  have nd: "P e" if "ledger_event e" for e using Cons.prems that by (simp add: snapshot_event_def)
  have sub: "snapshot_event opts protected pred xs e \<Longrightarrow> P e" for e
    using Cons.prems by (auto simp: snapshot_event_def)
  note rest = Cons.IH [OF sub]
  show ?case
  proof (cases "deletable opts protected pred x")
    case True
    then have d: "P (EvDelete (su_key x))" using Cons.prems by (auto simp: snapshot_event_def)
    show ?thesis unfolding delete_entries.simps Let_def
      by (intro keeps_rules rest only_clock only_current_metadata) (auto intro: nd d clock_ledger)
  next
    case False
    show ?thesis unfolding delete_entries_skip [OF False] by (intro keeps_rules rest) (auto intro: nd)
  qed
qed (simp add: keeps_const)

text \<open>The last entry the metadata does not reference is the predecessor.\<close>

lemma predecessor_append:
  "predecessor_key protected (es @ [x]) = (if su_key x \<in> set protected then predecessor_key protected es else su_key x)"
  by (simp add: predecessor_key_def)

lemma deletable_expirable:
  assumes "x \<in> set es" "deletable opts protected (predecessor_key protected es) x"
  shows "any_superseded_expirable es (o_now opts) (grace_period opts)"
proof -
  have early: "any_superseded_expirable es now g" if "es = as @ y # b # bs" "g \<le> tsub now (su_at y)" for as y b bs now g es
    using that
  proof (induction as arbitrary: es)
    case (Cons a as)
    then show ?case by (cases as) auto
  qed simp
  obtain as bs where e: "es = as @ x # bs" using assms(1) by (meson split_list)
  have g: "grace_period opts \<le> tsub (o_now opts) (su_at x)" using assms(2) by (simp add: deletable_def)
  show ?thesis
  proof (cases bs)
    case (Cons b bs')
    then show ?thesis using early [of es as x b bs'] e g by simp
  next
    case Nil
    then have "su_privacy x" using assms(2) e by (auto simp: deletable_def predecessor_append)
    then have "any_superseded_expirable (as @ [x]) (o_now opts) (grace_period opts)"
    proof (induction as)
      case (Cons a as)
      then show ?case by (cases as) auto
    qed (use g in simp)
    then show ?thesis using e Nil by simp
  qed
qed

lemma only_idle_entries:
  assumes "\<forall>x\<in>set es. \<not> deletable opts protected pred x" "\<And>k. P (EvRemoveLedger (rg_id reg) k)"
  shows "keeps (only P l) (delete_entries E opts reg protected digest pred es)"
  using assms(1)
proof (induction es)
  case (Cons x xs)
  then have rest: "keeps (only P l) (delete_entries E opts reg protected digest pred xs)" by simp
  have "\<not> deletable opts protected pred x" using Cons.prems by simp
  then show ?case unfolding delete_entries_skip [OF \<open>\<not> deletable opts protected pred x\<close>] by (intro keeps_rules rest assms(2))
qed (simp add: keeps_const)

lemma only_idle_cleanup:
  assumes "\<not> any_superseded_expirable es (o_now opts) (grace_period opts)"
  shows "keeps (only (\<lambda>e. e = EvCheckRead (rg_id reg) \<or> (\<exists>k. e = EvRemoveLedger (rg_id reg) k)) l)
     (delete_superseded E opts reg es cur)"
  unfolding delete_superseded_def
  by (intro keeps_rules only_idle_entries) (use assms deletable_expirable in auto)

lemma only_delete_superseded:
  assumes "source_references cur = Inr refs"
  shows "keeps (only (snapshot_event opts (map sr_key refs) (predecessor_key (map sr_key refs) es) es) l)
     (delete_superseded E opts reg es cur)"
  unfolding delete_superseded_def
proof (rule keeps_andthen)
  fix u
  show "keeps (only (snapshot_event opts (map sr_key refs) (predecessor_key (map sr_key refs) es) es) l)
      (andthen (lift_sum (source_references cur)) (\<lambda>refs.
     andthen (lift_sum (source_set_digest E cur)) (\<lambda>digest.
     if \<not> list_all (\<lambda>x. has_prefix (su_key x) (source_file_prefix reg)) es then raise Failed
     else delete_entries E opts reg (map sr_key refs) digest (predecessor_key (map sr_key refs) es) es)))"
    by (rule keeps_lift) (use assms in \<open>auto intro!: keeps_rules only_delete_entries\<close>)
qed (auto intro!: keeps_rules simp: snapshot_event_def)

subsection \<open>Another destination\<close>

text \<open>Events that read or change an object of the bucket, the clock probe apart.\<close>

fun touches_bucket :: "event \<Rightarrow> bool" where
  "touches_bucket (EvPut k) = (\<not> has_prefix k ''.setup-test/clock-'')"
| "touches_bucket (EvList k) = (\<not> has_prefix k ''.setup-test/clock-'')"
| "touches_bucket (EvDelete k) = (\<not> has_prefix k ''.setup-test/clock-'')"
| "touches_bucket (EvGet k) = True"
| "touches_bucket (EvGetLimited k n) = True"
| "touches_bucket (EvTxDelete k) = True"
| "touches_bucket (EvIndexDelete h s) = True"
| "touches_bucket _ = False"

lemma clock_not_touching: "clock_event e \<Longrightarrow> \<not> touches_bucket e"
  by (cases e) auto

lemma only_forget:
  assumes "\<And>e. clock_event e \<Longrightarrow> P e" "\<And>s d. P (EvForget s d)" "\<And>s. P (EvFinish s)"
  shows "keeps (only P l) (forget E opts reg defer into)"
  unfolding forget_def by (intro keeps_rules only_clock assms)

lemma only_session_age:
  assumes "\<And>e. clock_event e \<Longrightarrow> P e" "\<And>s. P (EvLoadPublished s)" "\<And>s t. P (EvClampAge s t)"
  shows "keeps (only P l) (session_age E opts reg sm found)"
  unfolding session_age_def capture_age_def Let_def by (intro keeps_rules only_clock assms)

lemma only_session_expiry:
  assumes "\<And>s b. P (EvOutstanding s b)" "\<And>p. P (EvStat p)"
  shows "keeps (only P l) (session_expiry E opts rq reg found age)"
  unfolding session_expiry_def never_capturable_def transcript_empty_def outstanding_of_def Let_def
  by (intro keeps_rules assms)

lemma keeps_previous:
  "keeps P b \<Longrightarrow> keeps P d \<Longrightarrow>
   keeps P (case choose_session_action x False y of SweepRemote \<Rightarrow> a | LeaveSession \<Rightarrow> b | ForgetPreviousDestination \<Rightarrow> d
     | ForgetNeverPublished \<Rightarrow> e)"
  by (cases x) (auto simp: choose_session_action_def)

lemma only_previous_destination:
  assumes "o_current opts = Some f" "\<not> f reg"
  shows "keeps (only (\<lambda>e. \<not> touches_bucket e) l) (sweep_session E opts rq reg)"
  unfolding sweep_session_def Let_def finish_deletion_def
  using assms
  by (auto intro!: keeps_previous keeps_rules only_session_age only_session_expiry only_forget simp: clock_not_touching)

subsection \<open>Metadata before sources\<close>

text \<open>Of the deletions added since l, the one of key comes first.\<close>

definition deleted_first :: "bytes \<Rightarrow> log \<Rightarrow> log \<Rightarrow> bool" where
  "deleted_first key l now \<longleftrightarrow>
     (\<exists>new. now = l @ new \<and>
       (\<forall>pre k post. new = pre @ EvDelete k # post \<longrightarrow> k = key \<or> EvDelete key \<in> set pre))"

definition key_gone :: "bytes \<Rightarrow> log \<Rightarrow> sweeper \<Rightarrow> bool" where
  "key_gone key l s \<longleftrightarrow> deleted_first key l (sw_log s) \<and> EvDelete key \<in> set (drop (length l) (sw_log s))"

lemma deleted_first_append:
  assumes "deleted_first key l now" "\<And>k. e = EvDelete k \<Longrightarrow> k = key \<or> EvDelete key \<in> set (drop (length l) now)"
  shows "deleted_first key l (now @ [e])"
proof -
  obtain new where n: "now = l @ new" "\<forall>pre k post. new = pre @ EvDelete k # post \<longrightarrow> k = key \<or> EvDelete key \<in> set pre"
    using assms(1) by (auto simp: deleted_first_def)
  have "k = key \<or> EvDelete key \<in> set pre" if p: "new @ [e] = pre @ EvDelete k # post" for pre k post
  proof (cases post rule: rev_cases)
    case Nil
    then show ?thesis using p assms(2) n(1) by auto
  next
    case (snoc q x)
    then show ?thesis using p n(2) by auto
  qed
  then show ?thesis using n(1) by (auto simp: deleted_first_def)
qed

lemma key_gone_calls [keeps_rules]:
  "keeps (key_gone key l) (ask ev f)" "keeps (key_gone key l) (query ev g)"
  by (rule keeps_ask keeps_query, auto simp: key_gone_def intro: deleted_first_append)+

lemma key_gone_delete_objects [keeps_rules]: "keeps (key_gone key l) (delete_objects E ie xs)"
  by (induction xs) (auto intro!: keeps_rules)

definition first_calls :: "bytes \<Rightarrow> log \<Rightarrow> sweeper \<Rightarrow> bool" where
  "first_calls key l s \<longleftrightarrow> deleted_first key l (sw_log s)"

lemma first_calls_ask [keeps_rules]: "(\<And>k. ev \<noteq> EvDelete k) \<Longrightarrow> keeps (first_calls key l) (ask ev f)"
  by (rule keeps_ask) (auto simp: first_calls_def intro: deleted_first_append)

lemma whole_session_order:
  assumes "metadata_object_key h sid = Inr key"
  shows "keeps (first_calls key l) (delete_whole_session E h sid)"
  unfolding delete_whole_session_def
proof (rule keeps_lift)
  fix k assume "metadata_object_key h sid = Inr k"
  then have k: "k = key" using assms by simp
  have gone: "hoare (first_calls key l) (ask (EvDelete key) (\<lambda>l. e_delete E l key)) (\<lambda>_. key_gone key l) (first_calls key l)"
  proof -
    have "first_calls key l s \<Longrightarrow> deleted_first key l (sw_log s @ [EvDelete key])" for s
      unfolding first_calls_def by (rule deleted_first_append) auto
    moreover have "first_calls key l s \<Longrightarrow> EvDelete key \<in> set (drop (length l) (sw_log s @ [EvDelete key]))" for s
      by (auto simp: first_calls_def deleted_first_def)
    ultimately show ?thesis by (auto simp: hoare_def ask_def key_gone_def first_calls_def split: sum.split)
  qed
  have rest: "hoare (key_gone key l) m (\<lambda>_. first_calls key l) (first_calls key l)" if "keeps (key_gone key l) m" for m :: "unit sweep"
    by (rule hoare_weaken [OF that [unfolded keeps_hoare]]) (auto simp: key_gone_def first_calls_def)
  show "keeps (first_calls key l)
     (andthen (if h = ''codex'' then check_history_authority E h sid k else give ()) (\<lambda>_.
     if e_catalog E then ask (EvTxDelete k) (\<lambda>l. e_tx_delete E l k)
     else
       andthen (ask (EvDelete k) (\<lambda>l. e_delete E l k)) (\<lambda>_.
       andthen (attempt (ask (EvIndexDelete h sid) (\<lambda>l. e_index_delete E l h sid))) (\<lambda>ir.
       let index_err = (case ir of Inl e \<Rightarrow> Some e | Inr _ \<Rightarrow> None) in
       andthen (attempt (ask (EvList (session_prefix h sid)) (\<lambda>l. e_list E l (session_prefix h sid)))) (\<lambda>lr.
       case lr of
         Inl e \<Rightarrow> raise (join_errors index_err e)
       | Inr objects \<Rightarrow>
           andthen (delete_objects E index_err objects) (\<lambda>_.
             case index_err of Some e \<Rightarrow> raise e | None \<Rightarrow> give ()))))))"
    unfolding k
  proof (rule keeps_andthen, goal_cases)
    case 1
    then show ?case unfolding check_history_authority_def bounded_history_metadata_def by (intro keeps_rules; simp)
  next
    case (2 u)
    show ?case
    proof (rule keeps_if, goal_cases)
      case 1
      then show ?case by (intro keeps_rules; simp)
    next
      case 2
      show ?case unfolding keeps_hoare
        by (rule hoare_andthen [OF gone], rule rest) (unfold Let_def, intro keeps_rules)
    qed
  qed
qed

subsection \<open>The deletion's budget\<close>

text \<open>What the log still holds of the granted reservations.\<close>

fun charge_of :: "event \<Rightarrow> int" where
  "charge_of (EvReserve n ok) = (if ok then n else 0)"
| "charge_of (EvRelease n) = - n"
| "charge_of _ = 0"

definition charged :: "sweeper \<Rightarrow> int" where
  "charged s = sum_list (map charge_of (sw_log s))"

definition holding :: "int \<Rightarrow> sweeper \<Rightarrow> bool" where
  "holding n s \<longleftrightarrow> charged s = n"

lemma holding_calls [keeps_rules]:
  "charge_of ev = 0 \<Longrightarrow> keeps (holding n) (ask ev f)" "charge_of ev = 0 \<Longrightarrow> keeps (holding n) (query ev g)"
  by (rule keeps_ask keeps_query, simp add: holding_def charged_def)+

lemma hoare_release: "hoare (holding n) (release k) (\<lambda>_. holding (n - k)) (holding (n - k))"
  by (simp add: hoare_def release_def query_def holding_def charged_def)

lemma hoare_reserve: "hoare (holding n) (reserve E k) (\<lambda>ok. holding (if ok then n + k else n)) (holding n)"
  by (simp add: hoare_def reserve_def holding_def charged_def Let_def)

lemma hoare_ensure:
  assumes "hoare P m (\<lambda>_. R) R" "hoare R k (\<lambda>_. Q) Q"
  shows "hoare P (ensure m k) (\<lambda>_. Q) Q"
  using assms unfolding hoare_def ensure_def by (fastforce split: prod.splits sum.splits)

lemma holding_past_reserve:
  assumes "keeps (holding n) a" "keeps (holding (n + k)) b"
  shows "keeps (holding n) (andthen (reserve E k) (\<lambda>granted. if \<not> granted then a else ensure b (release k)))"
  unfolding keeps_hoare
proof (rule hoare_andthen [OF hoare_reserve])
  fix ok
  show "hoare (holding (if ok then n + k else n)) (if \<not> ok then a else ensure b (release k)) (\<lambda>_. holding n) (holding n)"
  proof (cases ok)
    case True
    then show ?thesis using hoare_ensure [OF _ hoare_release [of "n + k" k]] assms(2) by (simp add: keeps_hoare)
  qed (use assms(1) in \<open>simp add: keeps_hoare\<close>)
qed

lemma holding_read: "keeps (holding n) (read_publication_metadata E key)"
  unfolding read_publication_metadata_def by (intro keeps_rules; simp)

lemma holding_metadata [keeps_rules]:
  assumes "\<And>n r. keeps (holding n) (k r)"
  shows "keeps (holding n) (with_deletion_metadata E key k)"
  unfolding with_deletion_metadata_def keeps_hoare
proof (rule hoare_andthen [OF hoare_reserve])
  fix ok
  let ?read = "attempt (read_publication_metadata E key)"
  let ?body = "\<lambda>r. let n = (case r of Inl _ \<Rightarrow> 0 | Inr raw \<Rightarrow> int (length raw)) in
     andthen (release (history_limit - n)) (\<lambda>_. ensure (k r) (release n))"
  have r: "hoare (holding (n + history_limit)) ?read (\<lambda>_. holding (n + history_limit)) (holding n)"
    using holding_read [of "n + history_limit" E key] unfolding keeps_def hoare_def attempt_def by (auto split: prod.split)
  have b: "hoare (holding (n + history_limit)) (?body x) (\<lambda>_. holding n) (holding n)" for x
  proof -
    define m where "m = (case x of Inl _ \<Rightarrow> 0 | Inr raw \<Rightarrow> int (length raw))"
    have "hoare (holding (n + history_limit)) (release (history_limit - m)) (\<lambda>_. holding (n + m)) (holding n)"
      by (auto simp: hoare_def release_def query_def holding_def charged_def)
    moreover have "hoare (holding (n + m)) (ensure (k x) (release m)) (\<lambda>_. holding n) (holding n)"
      using hoare_ensure [OF assms [of "n + m" x, unfolded keeps_hoare] hoare_release [of "n + m" m]] by simp
    ultimately show ?thesis unfolding Let_def m_def [symmetric] by (rule hoare_andthen)
  qed
  show "hoare (holding (if ok then n + history_limit else n)) (if \<not> ok then k (Inl BudgetLimit) else andthen ?read ?body)
     (\<lambda>_. holding n) (holding n)"
  proof (cases ok)
    case True
    then show ?thesis using hoare_andthen [OF r b] by simp
  qed (use assms in \<open>simp add: keeps_hoare\<close>)
qed

lemma holding_verify_retained [keeps_rules]: "keeps (holding n) (verify_retained E sid rs)"
  by (induction rs) (auto intro!: keeps_rules)

lemma holding_verify_position [keeps_rules]: "keeps (holding n) (verify_deletion_position E j key present)"
  unfolding verify_deletion_position_def by (intro keeps_rules; simp)

lemma holding_retain_source [keeps_rules]: "keeps (holding n) (retain_deleting_source E j i ref)"
  unfolding retain_deleting_source_def by (rule holding_past_reserve; intro keeps_rules; simp)

lemma holding_retain_sources [keeps_rules]: "keeps (holding n) (retain_sources E j i rs)"
  by (induction rs arbitrary: i) (auto intro!: keeps_rules)

lemma holding_request_moved [keeps_rules]: "keeps (holding n) (request_moved E j)"
  unfolding request_moved_def by (intro keeps_rules; simp)

lemma holding_verify_object [keeps_rules]: "keeps (holding n) (verify_owned_object E x)"
proof -
  have r: "keeps (holding n) (andthen (reserve E (ob_size x)) (\<lambda>granted.
       if \<not> granted then raise BudgetLimit
       else ensure
         (if \<not> e_bounded E then raise NoVersionedRead
          else
            andthen (ask (EvGetLimited (ob_key x) (ob_size x)) (\<lambda>l. e_get_limited E l (ob_key x) (ob_size x))) (\<lambda>data.
            if int (length data) \<noteq> ob_size x \<or> \<not> equal_fold (e_sha E data) sha then raise BadChecksum else give ()))
         (release (ob_size x))))" for sha
    by (rule holding_past_reserve; intro keeps_rules; simp)
  show ?thesis unfolding verify_owned_object_def Let_def by (intro keeps_if r keeps_const)
qed

lemma holding_namespace [keeps_rules]: "keeps (holding n) (delete_namespace_objects E j key xs)"
  by (induction xs) (auto intro!: keeps_rules)

lemma holding_whole [keeps_rules]: "keeps (holding n) (delete_whole_session E h sid)"
proof -
  have d: "keeps (holding n) (delete_objects E ie xs)" for ie xs by (induction xs) (auto intro!: keeps_rules)
  show ?thesis
    unfolding delete_whole_session_def check_history_authority_def bounded_history_metadata_def Let_def
    by (intro keeps_rules d; simp)
qed

lemma holding_owned: "keeps (holding n) (delete_owned_session E reg why now)"
  unfolding delete_owned_session_def delete_prepared_def delete_owned_namespace_def delete_owned_metadata_def
    prepare_owned_sources_def advance_def Let_def
  by (intro keeps_rules; simp)

subsection \<open>Sessions that are kept\<close>

text \<open>What a sweep may do to a session it keeps: at most delete superseded sources of its own.\<close>

fun whole_session :: "event \<Rightarrow> bool" where
  "whole_session (EvTxDelete k) = True"
| "whole_session (EvIndexDelete h s) = True"
| "whole_session (EvForget s d) = True"
| "whole_session (EvFinish s) = True"
| "whole_session (EvPrepare s r raw) = True"
| "whole_session (EvAdvance s ph) = True"
| "whole_session _ = False"

definition kept :: "registration \<Rightarrow> event \<Rightarrow> bool" where
  "kept reg e \<longleftrightarrow> \<not> whole_session e \<and>
     (\<forall>k. e = EvDelete k \<longrightarrow> has_prefix k ''.setup-test/clock-'' \<or> has_prefix k (source_file_prefix reg))"

lemma clock_kept: "clock_event e \<Longrightarrow> kept reg e"
  by (cases e) (auto simp: kept_def)

lemma ledger_kept: "ledger_event e \<Longrightarrow> kept reg e"
  by (cases e) (auto simp: kept_def)

lemma only_kept_superseded [keeps_rules]: "keeps (only (kept reg) l) (delete_superseded E opts reg es cur)"
proof -
  have k: "kept reg e"
    if "list_all (\<lambda>x. has_prefix (su_key x) (source_file_prefix reg)) es" "snapshot_event opts pr pk es e" for pr pk e
    using that ledger_kept [of e reg] by (auto simp: snapshot_event_def list_all_iff kept_def)
  show ?thesis unfolding delete_superseded_def
    by (intro keeps_rules only_delete_entries) (auto intro: k ledger_kept)
qed

lemma only_kept_ledger [keeps_rules]: "keeps (only (kept reg) l) (superseded_ledger E opts sid)"
  unfolding superseded_ledger_def by (intro keeps_rules only_clock) (auto simp: clock_kept, simp_all add: kept_def)

lemma only_kept_remote: "keeps (only (kept reg) l) (remote E opts reg sm age False defer)"
proof -
  have c: "keeps (only (kept reg) l) (current_metadata E reg)" by (rule only_current_metadata) (rule ledger_kept)
  show ?thesis unfolding remote_def Let_def by (auto intro!: keeps_rules c)
qed

lemma only_kept_session:
  assumes j: "\<And>l j. e_load_deletion E l reg = Inr (j, True) \<Longrightarrow> dl_phase j = Restored \<or> dl_phase j = Cancelled \<or> dl_removed j"
    and age: "\<And>l sm found. e_summary E l (rg_id reg) = Inr (sm, found) \<Longrightarrow> gives (A found) (session_age E opts reg sm found)"
    and ex: "\<And>found age. A found age \<Longrightarrow> gives (\<lambda>(locally, defer, owed). \<not> locally) (session_expiry E opts rq reg found age)"
  shows "keeps (only (kept reg) l) (sweep_session E opts rq reg)"
proof -
  have act: "keeps (only (kept reg) l) (case choose_session_action False current evidence of
          SweepRemote \<Rightarrow> remote E opts reg sm age False dfr | LeaveSession \<Rightarrow> give ()
        | ForgetPreviousDestination \<Rightarrow> forget E opts reg dfr PrunedSessions
        | ForgetNeverPublished \<Rightarrow> forget E opts reg dfr PrunedSessions)" for current evidence sm age dfr
    by (auto simp: choose_session_action_def only_kept_remote keeps_const)
  show ?thesis unfolding sweep_session_def Let_def
  proof (rule keeps_gives [where V = "\<lambda>(j, f). f \<longrightarrow> dl_phase j = Restored \<or> dl_phase j = Cancelled \<or> dl_removed j"], goal_cases)
    case 1
    show ?case by (intro keeps_rules) (simp add: kept_def)
  next
    case 2
    show ?case by (auto simp: gives_def ask_def dest: j)
  next
    case (3 x)
    obtain j f where x: "x = (j, f)" by (cases x)
    have "\<not> (f \<and> dl_phase j \<noteq> Restored \<and> dl_phase j \<noteq> Cancelled \<and> \<not> dl_removed j)" using 3 x by auto
    then have nf: "(f \<and> dl_phase j \<noteq> Restored \<and> dl_phase j \<noteq> Cancelled \<and> \<not> dl_removed j) = False" by simp
    show ?case unfolding x prod.case nf if_False
    proof (rule keeps_andthen, goal_cases)
      case 1
      show ?case by (intro keeps_rules) (simp add: kept_def)
    next
      case (2 u)
      show ?case
      proof (rule keeps_gives [where V = "\<lambda>(sm, found). \<exists>l. e_summary E l (rg_id reg) = Inr (sm, found)"], goal_cases)
        case 1
        show ?case by (intro keeps_rules) (simp add: kept_def)
      next
        case 2
        show ?case by (auto simp: gives_def ask_def)
      next
        case (3 y)
        then obtain sm found l' where y: "y = (sm, found)" "e_summary E l' (rg_id reg) = Inr (sm, found)" by (cases y) auto
        show ?case unfolding y(1) prod.case
        proof (rule keeps_gives [OF only_session_age age [OF y(2)]], goal_cases)
          case (4 at)
          show ?case
          proof (rule keeps_gives [OF only_session_expiry ex [OF 4]], goal_cases)
            case (3 z)
            then obtain dfr owed where z: "z = (False, dfr, owed)" by (cases z) auto
            show ?case unfolding z prod.case simp_thms if_False by (rule keeps_andthen [OF _ act]) (intro keeps_rules)
          qed (simp_all add: kept_def)
        qed (erule clock_kept, simp_all add: kept_def)
      qed
    qed
  qed
qed

text \<open>Ages: a session that is not expired by its own age, and one whose outstanding work defers expiry.\<close>

lemma expired_now: "\<not> expired opts (o_now opts)"
  by (simp add: expired_def tsub_def max_dur_def min_dur_def)

lemma session_age_gives:
  assumes "\<not> expired opts (if found \<and> retention_age sm \<noteq> 0 then retention_age sm else admitted reg)"
  shows "gives (\<lambda>age. \<not> expired opts age) (session_age E opts reg sm found)"
  using assms expired_now unfolding session_age_def capture_age_def Let_def
  by (auto intro!: gives_if gives_give gives_andthen [OF gives_any] split: if_splits)

lemma session_expiry_unexpired:
  assumes "\<not> expired opts age"
  shows "gives (\<lambda>(locally, defer, owed). \<not> locally) (session_expiry E opts rq reg found age)"
  unfolding session_expiry_def Let_def using assms
  by (auto intro!: gives_andthen [OF gives_any] gives_give)

lemma session_expiry_deferred:
  assumes "case o_publishable opts of None \<Rightarrow> True | Some f \<Rightarrow> f reg" "rg_path reg \<noteq> []"
    "\<And>l. e_stat E l (rg_path reg) \<noteq> Some (True, 0)"
    "\<And>l owed. e_outstanding E l reg (rq (rg_id reg)) = Inr owed \<Longrightarrow> defers_expiry owed"
  shows "gives (\<lambda>(locally, defer, owed). \<not> locally) (session_expiry E opts rq reg found age)"
proof -
  have o: "gives defers_expiry (outstanding_of E rq reg)"
    using assms(4) by (auto simp: gives_def outstanding_of_def ask_def)
  have e: "gives (\<lambda>x. \<not> x) (transcript_empty E (rg_path reg))"
    using assms(3) by (auto simp: gives_def transcript_empty_def andthen_Inr query_def split: option.splits)
  have n: "gives (\<lambda>x. \<not> x) (never_capturable E opts rq reg found)"
    unfolding never_capturable_def using assms(2)
    by (auto intro!: gives_if gives_give gives_andthen [OF e])
  have d: "gives (\<lambda>x. x) (if reads_transcript_file reg \<and> expired opts (admitted reg)
               then andthen (never_capturable E opts rq reg found)
                 (\<lambda>nc. give ((case o_publishable opts of None \<Rightarrow> True | Some f \<Rightarrow> f reg) \<and> \<not> nc))
               else give (case o_publishable opts of None \<Rightarrow> True | Some f \<Rightarrow> f reg))"
    using assms(1) by (auto intro!: gives_if gives_give gives_andthen [OF n])
  show ?thesis unfolding session_expiry_def Let_def
  proof (rule gives_andthen [OF d])
    fix dfr :: bool assume "dfr"
    show "gives (\<lambda>(locally, defer, owed). \<not> locally)
       (andthen (if expired opts age then outstanding_of E rq reg else give \<lparr>ow_requested = False, ow_upload = False\<rparr>)
         (\<lambda>owed. give (if expired opts age \<and> dfr then \<not> defers_expiry owed else expired opts age, dfr, owed)))"
    proof (cases "expired opts age")
      case True
      then show ?thesis using \<open>dfr\<close> by (auto intro!: gives_andthen [OF o] gives_give)
    qed (auto intro!: gives_andthen [OF gives_any] gives_give)
  qed
qed

end
