(* ===== verification/RetentionClaims.thy ===== *)
theory RetentionClaims
  imports RetentionRules
begin

text \<open>The properties of the retention sweep, each with a run that shows it can apply.\<close>

subsection \<open>Removing the namespace\<close>

lemma verify_absent:
  assumes "verify_deletion_position E j key present s = (Inr u, s')" "dl_phase j = Absent"
  shows "\<exists>pre. sw_log s' = pre @ [EvGetLimited key history_limit, EvRelease history_limit, EvRelease 0] \<and>
     e_get_limited E pre key history_limit = Inl NotFound"
  using assms
  by (auto simp: verify_deletion_position_def with_deletion_metadata_def read_publication_metadata_def andthen_Inr
      ensure_def attempt_def reserve_def release_def ask_def query_def Let_def andthen_def give_def raise_def
      split: prod.splits sum.splits if_splits)

definition absence_read :: "renv \<Rightarrow> bytes \<Rightarrow> log \<Rightarrow> bool" where
  "absence_read E key l \<longleftrightarrow>
     (\<exists>pre. l = pre @ [EvGetLimited key history_limit, EvRelease history_limit, EvRelease 0] \<and>
        e_get_limited E pre key history_limit = Inl NotFound)"

definition absence_first :: "renv \<Rightarrow> bytes \<Rightarrow> log \<Rightarrow> sweeper \<Rightarrow> bool" where
  "absence_first E key l s \<longleftrightarrow>
     (\<exists>new. sw_log s = l @ new \<and> (\<forall>pre k post. new = pre @ EvDelete k # post \<longrightarrow> absence_read E key (l @ pre)))"

lemma absence_append:
  assumes "absence_first E key l s" "\<And>k. e = EvDelete k \<Longrightarrow> absence_read E key (sw_log s)"
  shows "absence_first E key l (s\<lparr>sw_log := sw_log s @ [e]\<rparr>)"
proof -
  obtain new where n: "sw_log s = l @ new" "\<forall>pre k post. new = pre @ EvDelete k # post \<longrightarrow> absence_read E key (l @ pre)"
    using assms(1) by (auto simp: absence_first_def)
  have "absence_read E key (l @ pre)" if p: "new @ [e] = pre @ EvDelete k # post" for pre k post
  proof (cases post rule: rev_cases)
    case Nil
    then show ?thesis using p assms(2) n(1) by auto
  next
    case (snoc q x)
    then show ?thesis using p n(2) by auto
  qed
  then show ?thesis using n(1) by (auto simp: absence_first_def)
qed

lemma absence_calls [keeps_rules]:
  "(\<And>k. ev \<noteq> EvDelete k) \<Longrightarrow> keeps (absence_first E key l) (ask ev f)"
  "(\<And>k. ev \<noteq> EvDelete k) \<Longrightarrow> keeps (absence_first E key l) (query ev g)"
  "keeps (absence_first E key l) (reserve E' n)"
  by (rule keeps_ask keeps_query keeps_reserve, rule absence_append, assumption, blast)+

lemma absence_metadata [keeps_rules]:
  "(\<And>r. keeps (absence_first E key l) (k r)) \<Longrightarrow> keeps (absence_first E key l) (with_deletion_metadata E' key' k)"
  unfolding with_deletion_metadata_def read_publication_metadata_def release_def Let_def by (intro keeps_rules; simp)

lemma absence_verify [keeps_rules]: "keeps (absence_first E key l) (verify_deletion_position E' j key' present)"
proof -
  have v: "keeps (absence_first E key l) (verify_retained E' sid rs)" for sid rs by (induction rs) (auto intro!: keeps_rules)
  show ?thesis unfolding verify_deletion_position_def by (intro keeps_rules v; simp)
qed

lemma absence_request_moved [keeps_rules]: "keeps (absence_first E key l) (request_moved E' j)"
  unfolding request_moved_def by (intro keeps_rules; simp)

lemma absence_verify_object [keeps_rules]: "keeps (absence_first E key l) (verify_owned_object E' x)"
  unfolding verify_owned_object_def release_def Let_def by (intro keeps_rules; simp)

lemma absence_delete:
  assumes "dl_phase j = Absent" and m: "keeps (absence_first E key l) m"
  shows "keeps (absence_first E key l) (andthen (verify_deletion_position E j key False) (\<lambda>_.
     andthen (ask (EvDelete k) (\<lambda>l. e_delete E l k)) (\<lambda>_. m)))"
proof -
  have v: "hoare (absence_first E key l) (verify_deletion_position E j key False)
      (\<lambda>_ s. absence_first E key l s \<and> absence_read E key (sw_log s)) (absence_first E key l)"
    using absence_verify [of E key l E j key False] verify_absent [OF _ assms(1)]
    unfolding hoare_def keeps_def absence_read_def by (fastforce split: prod.splits sum.splits)
  have d: "hoare (\<lambda>s. absence_first E key l s \<and> absence_read E key (sw_log s)) (ask (EvDelete k) (\<lambda>l. e_delete E l k))
      (\<lambda>_. absence_first E key l) (absence_first E key l)"
    unfolding hoare_def ask_def by (auto intro: absence_append split: sum.split)
  show ?thesis unfolding keeps_hoare
    by (rule hoare_andthen [OF v]) (rule hoare_andthen [OF d], use m in \<open>simp add: keeps_hoare\<close>)
qed

lemma absence_namespace_objects:
  assumes "dl_phase j = Absent"
  shows "keeps (absence_first E key l) (delete_namespace_objects E j key xs)"
proof (induction xs)
  case (Cons x xs)
  show ?case unfolding delete_namespace_objects.simps
    by (intro absence_delete [OF assms Cons] keeps_if keeps_const keeps_andthen absence_verify absence_request_moved absence_verify_object)
qed (simp add: keeps_const)

subsection \<open>An environment\<close>

text \<open>A store with one orphaned session whose files are old, and a service clock that agrees.\<close>

definition base_env :: renv where
  "base_env = \<lparr>e_ended = (\<lambda>_. False), e_new_id = (\<lambda>_. Inr ''n''), e_server_clock = Some (\<lambda>_. Inr 1000000000000000000),
     e_text = (\<lambda>_. ''error''), e_json = (\<lambda>_. None), e_digest = (\<lambda>_. []), e_sha = (\<lambda>b. b), e_intent = (\<lambda>_. []),
     e_bounded = True, e_catalog = False, e_put = (\<lambda>_ _. Inr ()), e_get = (\<lambda>_ _. Inl NotFound),
     e_get_limited = (\<lambda>_ _ _. Inl NotFound), e_list = (\<lambda>_ _. Inr []), e_delete = (\<lambda>_ _. Inr ()), e_tx_delete = (\<lambda>_ _. Inr ()),
     e_index_delete = (\<lambda>_ _ _. Inr ()), e_registrations = (\<lambda>_. Inr ([], [])), e_requests = (\<lambda>_. Inr ([], [])),
     e_orphans = (\<lambda>_ _. Inr [''x'']), e_recover_local = (\<lambda>_ _. (False, None)), e_check_read = (\<lambda>_ _. Inr ()),
     e_changed_at = (\<lambda>_ _. 1), e_summary = (\<lambda>_ _. Inr (\<lparr>sm_published = True, sm_captured = 1, sm_meaningful = 0, sm_age_from = 0\<rparr>, True)),
     e_harnesses = (\<lambda>_ _. [''claude'']), e_forget_orphan = (\<lambda>_ _. (True, None)),
     e_load_deletion = (\<lambda>_ r. Inr (\<lparr>dl_reg = r, dl_reason = Retention, dl_phase = Preparing, dl_metadata = [], dl_refs = [], dl_token = [], dl_removed = False\<rparr>, False)),
     e_lost = (\<lambda>_ _. False), e_outstanding = (\<lambda>_ _ _. Inr \<lparr>ow_requested = False, ow_upload = False\<rparr>),
     e_stat = (\<lambda>_ _. None), e_ledger = (\<lambda>_ _. Inr []), e_clamp_ledger = (\<lambda>_ _ _. Inr ()), e_remove_ledger = (\<lambda>_ _ _. Inr ()),
     e_load_published = (\<lambda>_ _. Inr ()), e_clamp_age = (\<lambda>_ _ _. Inr ()), e_forget = (\<lambda>_ _ _. (True, None)),
     e_finish = (\<lambda>_ _. Inr ()), e_load_reading = (\<lambda>_. None), e_check_undo = (\<lambda>_ _. Inr ()), e_load_request = (\<lambda>_ _. Inr None),
     e_prepare = (\<lambda>_ r why raw _ tok. Inr \<lparr>dl_reg = r, dl_reason = why, dl_phase = Absent, dl_metadata = raw, dl_refs = [], dl_token = tok, dl_removed = False\<rparr>),
     e_advance = (\<lambda>_ j ph. Inr (j\<lparr>dl_phase := ph\<rparr>)), e_stage = (\<lambda>_ _ _ _. Inr ()), e_read_staged = (\<lambda>_ _ _. Inr []),
     e_decode = (\<lambda>_ _ _ _. None), e_reserve = (\<lambda>_ _. True)\<rparr>"

definition base_opts :: options where
  "base_opts = \<lparr>o_now = 1000000000000000000, o_grace = 0, o_max_age = 1000, o_previous = 0, o_privacy = None, o_current = None, o_publishable = None\<rparr>"

definition base_reg :: registration where
  "base_reg = \<lparr>rg_id = ''x'', rg_harness = ''claude'', rg_native = ''n'', rg_project = ''p'', rg_admitted = 1, rg_started = 1,
     rg_path = ''/t'', rg_kind = []\<rparr>"

definition base_source :: "char \<Rightarrow> bytes" where
  "base_source c = ''sessions/claude/x/source.'' @ replicate 64 c @ ''.jsonl.gz''"

definition base_metadata :: metadata where
  "base_metadata = \<lparr>md_schema = 1, md_session = ''x'', md_harness = ''claude'', md_native = ''n'', md_project = ''p'', md_captured = 1,
     md_bundle = \<lparr>sr_key = base_source CHR ''c'', sr_sha = replicate 64 CHR ''c'', sr_bytes = 1\<rparr>, md_history = None\<rparr>"

definition base_ledger :: "superseded list" where
  "base_ledger = [\<lparr>su_key = base_source CHR ''a'', su_at = 1, su_privacy = False\<rparr>,
     \<lparr>su_key = base_source CHR ''b'', su_at = 1, su_privacy = False\<rparr>]"

definition base_current :: renv where
  "base_current = base_env\<lparr>e_get := (\<lambda>_ _. Inr ''m''), e_json := (\<lambda>_. Some base_metadata)\<rparr>"

definition base_intent :: deletion where
  "base_intent = \<lparr>dl_reg = base_reg, dl_reason = Retention, dl_phase = Absent, dl_metadata = [], dl_refs = [], dl_token = [], dl_removed = False\<rparr>"

definition base_namespace :: renv where
  "base_namespace = base_env\<lparr>e_load_deletion := (\<lambda>_ _. Inr (base_intent, True)), e_sha := (\<lambda>_. replicate 64 CHR ''a''),
     e_get_limited := (\<lambda>_ k _. if k = ''sessions/claude/x/metadata.json'' then Inl NotFound else Inr ''d''),
     e_list := (\<lambda>_ _. Inr [\<lparr>ob_key = base_source CHR ''a'', ob_size = 1, ob_modified = 1\<rparr>])\<rparr>"

subsection \<open>Properties\<close>

text \<open>
  Claim C9. Whatever the store, the bucket and the other machines answer, a sweep removes nothing from
  the bucket or from this machine on account of age, unless before that removal the service's clock
  was read, is at most an hour behind this machine's, and the last pass is at most a day back.
\<close>

theorem sweep_destroys_on_agreeing_clock:
  assumes "sweep_run E opts = (r, s)" "sw_log s = pre @ e # post" "destroys e"
  shows "\<exists>t. clock_answer E opts pre (Inr t) \<and> o_now opts - t \<le> hour \<and>
     (o_previous opts = 0 \<or> o_now opts - o_previous opts \<le> 24 * hour)"
  using sweep_guarded [OF assms(1)] assms(2,3) by (auto simp: guarded_def guarded_log_def clock_fits_def)

lemma base_run: "sw_log (snd (sweep_run base_env base_opts)) =
    [EvScanRegistrations, EvScanRequests, EvOrphans, EvCtx, EvRecoverLocal ''x'', EvCheckRead ''x'', EvChangedAt ''x'',
     EvSummary ''x'', EvServerClock, EvHarnesses ''x'', EvCheckRead ''x''] @ EvDelete ''sessions/claude/x/metadata.json'' #
    [EvIndexDelete ''claude'' ''x'', EvList ''sessions/claude/x/'', EvForgetOrphan ''x'']"
  by code_simp

theorem sweep_destroys_on_agreeing_clock_witness:
  "\<exists>t. clock_answer base_env base_opts [EvScanRegistrations, EvScanRequests, EvOrphans, EvCtx, EvRecoverLocal ''x'',
     EvCheckRead ''x'', EvChangedAt ''x'', EvSummary ''x'', EvServerClock, EvHarnesses ''x'', EvCheckRead ''x''] (Inr t) \<and>
     o_now base_opts - t \<le> hour"
  using sweep_destroys_on_agreeing_clock [OF surjective_pairing base_run] by (auto simp: has_prefix_def)




lemma base_cleanup:
  "EvDelete (base_source CHR ''a'') \<in> set (drop (length (sw_log new_sweeper))
     (sw_log (snd (delete_superseded base_current base_opts base_reg base_ledger base_metadata new_sweeper))))"
  by code_simp


text \<open>
  When \<open>anySupersededExpirable\<close> says no, a cleanup with any metadata would touch only the
  local ledger, so the sweep may skip it without a remote call.
\<close>

lemma skipped_cleanup_is_idle:
  assumes "\<not> any_superseded_expirable es (o_now opts) (grace_period opts)"
    "delete_superseded E opts reg es cur s = (r, s')" "e \<in> set (drop (length (sw_log s)) (sw_log s'))"
  shows "e = EvCheckRead (rg_id reg) \<or> (\<exists>k. e = EvRemoveLedger (rg_id reg) k)"
proof -
  have "only (\<lambda>e. e = EvCheckRead (rg_id reg) \<or> (\<exists>k. e = EvRemoveLedger (rg_id reg) k)) (sw_log s) s'"
    by (rule onlyD [OF only_idle_cleanup [OF assms(1)] assms(2)])
  then show ?thesis using assms(3) by (auto simp: only_def)
qed

text \<open>
  The sweep of a session that was published to another destination makes no call on the
  current bucket, except for the clock probe.
\<close>

lemma previous_destination_untouched:
  assumes "o_current opts = Some f" "\<not> f reg" "sweep_session E opts rq reg s = (r, s')"
    "e \<in> set (drop (length (sw_log s)) (sw_log s'))"
  shows "\<not> touches_bucket e"
proof -
  have "only (\<lambda>e. \<not> touches_bucket e) (sw_log s) s'"
    by (rule onlyD [OF only_previous_destination [where f = f, OF assms(1,2)] assms(3)])
  then show ?thesis using assms(4) by (auto simp: only_def)
qed




definition busy_env :: renv where
  "busy_env = base_env\<lparr>e_outstanding := (\<lambda>_ _ _. Inr \<lparr>ow_requested = True, ow_upload = False\<rparr>)\<rparr>"





text \<open>
  Claim C37. Owned deletion removes an object of the session's namespace only when its last call to the
  bucket found the selecting metadata absent.
\<close>

theorem namespace_removed_after_absence:
  assumes "delete_owned_namespace E j key s = (r, s')"
    "drop (length (sw_log s)) (sw_log s') = pre @ EvDelete k # post"
  shows "\<exists>before. sw_log s @ pre = before @ [EvGetLimited key history_limit, EvRelease history_limit, EvRelease 0] \<and>
     e_get_limited E before key history_limit = Inl NotFound"
proof -
  have "keeps (absence_first E key (sw_log s)) (delete_owned_namespace E j key)"
    unfolding delete_owned_namespace_def advance_def Let_def
    by (intro keeps_rules absence_namespace_objects) auto
  moreover have "absence_first E key (sw_log s) s" by (simp add: absence_first_def)
  ultimately have "absence_first E key (sw_log s) s'" using assms(1) by (rule keepsD)
  then show ?thesis using assms(2) by (auto simp: absence_first_def absence_read_def)
qed

lemma base_namespace_answers:
  "e_load_deletion base_namespace l r = Inr (base_intent, True)" "e_sha base_namespace d = replicate 64 CHR ''a''"
  "e_get_limited base_namespace l k n = (if k = ''sessions/claude/x/metadata.json'' then Inl NotFound else Inr ''d'')"
  "e_list base_namespace l k = Inr [\<lparr>ob_key = base_source CHR ''a'', ob_size = 1, ob_modified = 1\<rparr>]"
  "e_ended base_namespace l = False" "e_bounded base_namespace" "e_reserve base_namespace l n = True"
  "e_load_request base_namespace l k = Inr None" "e_delete base_namespace l k = Inr ()"
  "e_index_delete base_namespace l k k' = Inr ()" "e_advance base_namespace l j ph = Inr (j\<lparr>dl_phase := ph\<rparr>)"
  by (simp_all add: base_namespace_def base_env_def)

lemma base_source_facts:
  "has_prefix (base_source CHR ''a'') (session_prefix ''claude'' ''x'')"
  "base_source CHR ''a'' \<noteq> ''sessions/claude/x/metadata.json''"
  "after_last_slash (base_source CHR ''a'') = ''source.'' @ replicate 64 CHR ''a'' @ ''.jsonl.gz''"
  by code_simp+

lemma base_verified: "\<exists>s'. verify_deletion_position base_namespace base_intent ''sessions/claude/x/metadata.json'' False s = (Inr (), s')"
  by (simp add: verify_deletion_position_def with_deletion_metadata_def read_publication_metadata_def andthen_def ensure_def
      attempt_def reserve_def release_def ask_def query_def Let_def give_def raise_def base_namespace_answers base_intent_def)

lemma base_object: "\<exists>s'. verify_owned_object base_namespace \<lparr>ob_key = base_source CHR ''a'', ob_size = 1, ob_modified = 1\<rparr> s = (Inr (), s')"
  by (simp add: verify_owned_object_def base_source_facts has_prefix_def has_suffix_def history_limit_def andthen_def reserve_def
      release_def ensure_def ask_def query_def Let_def give_def base_namespace_answers)

lemma base_unmoved: "\<exists>s'. request_moved base_namespace base_intent s = (Inr False, s')"
  by (simp add: request_moved_def andthen_def attempt_def ask_def give_def base_namespace_answers)

lemma base_intent_fields: "dl_phase base_intent = Absent" "rg_harness (dl_reg base_intent) = ''claude''"
  "rg_id (dl_reg base_intent) = ''x''"
  by (simp_all add: base_intent_def base_reg_def)

lemma extends_log: "m t = (r, t') \<Longrightarrow> (\<And>l. keeps (absence_first E key l) m) \<Longrightarrow> \<exists>n. sw_log t' = sw_log t @ n"
  using keepsD [of "absence_first E key (sw_log t)" m t r t'] by (auto simp: absence_first_def)

lemmas extends_moved = extends_log [OF _ absence_request_moved]
lemmas extends_verify = extends_log [OF _ absence_verify]
lemmas extends_object = extends_log [OF _ absence_verify_object]

lemma base_removal:
  "\<exists>pre post. drop (length (sw_log s)) (sw_log (snd (delete_owned_namespace base_namespace base_intent
     ''sessions/claude/x/metadata.json'' s))) = pre @ EvDelete (base_source CHR ''a'') # post"
proof -
  let ?key = "''sessions/claude/x/metadata.json''" and ?x = "\<lparr>ob_key = base_source CHR ''a'', ob_size = 1, ob_modified = 1\<rparr>"
  obtain s1 where s1: "request_moved base_namespace base_intent s = (Inr False, s1)" using base_unmoved by blast
  define s2 where "s2 = s1\<lparr>sw_log := sw_log s1 @ [EvList (session_prefix ''claude'' ''x'')]\<rparr>"
  obtain s3 where s3: "verify_deletion_position base_namespace base_intent ?key False s2 = (Inr (), s3)" using base_verified by blast
  obtain s4 where s4: "request_moved base_namespace base_intent s3 = (Inr False, s4)" using base_unmoved by blast
  obtain s5 where s5: "verify_owned_object base_namespace ?x s4 = (Inr (), s5)" using base_object by blast
  obtain s6 where s6: "verify_deletion_position base_namespace base_intent ?key False s5 = (Inr (), s6)" using base_verified by blast
  define s7 where "s7 = s6\<lparr>sw_log := sw_log s6 @ [EvDelete (base_source CHR ''a'')]\<rparr>"
  obtain s8 where s8: "verify_deletion_position base_namespace base_intent ?key False s7 = (Inr (), s8)" using base_verified by blast
  let ?run = "delete_owned_namespace base_namespace base_intent ?key s"
  have fin: "sw_log (snd ?run) = sw_log s8 @ [EvIndexDelete ''claude'' ''x'', EvAdvance ''x'' Cleaned]"
    using s1 s3 s4 s5 s6 s8 base_source_facts
    by (simp add: delete_owned_namespace_def andthen_def Let_def ask_def s2_def [symmetric] s7_def [symmetric] base_namespace_answers
        base_intent_fields advance_def give_def)
  obtain n1 n3 n4 n5 n6 n8 where "sw_log s1 = sw_log s @ n1" "sw_log s3 = sw_log s2 @ n3" "sw_log s4 = sw_log s3 @ n4"
    "sw_log s5 = sw_log s4 @ n5" "sw_log s6 = sw_log s5 @ n6" "sw_log s8 = sw_log s7 @ n8"
    using extends_moved [OF s1] extends_verify [OF s3] extends_moved [OF s4] extends_object [OF s5] extends_verify [OF s6]
      extends_verify [OF s8] by blast
  then have "sw_log (snd ?run) = sw_log s @ (n1 @ [EvList (session_prefix ''claude'' ''x'')] @ n3 @ n4 @ n5 @ n6) @
     EvDelete (base_source CHR ''a'') # n8 @ [EvIndexDelete ''claude'' ''x'', EvAdvance ''x'' Cleaned]"
    using fin by (simp add: s2_def s7_def)
  then have "drop (length (sw_log s)) (sw_log (snd ?run)) = (n1 @ [EvList (session_prefix ''claude'' ''x'')] @ n3 @ n4 @ n5 @ n6) @
     EvDelete (base_source CHR ''a'') # n8 @ [EvIndexDelete ''claude'' ''x'', EvAdvance ''x'' Cleaned]" by simp
  then show ?thesis by blast
qed

theorem namespace_removed_after_absence_witness:
  "\<exists>before. e_get_limited base_namespace before ''sessions/claude/x/metadata.json'' history_limit = Inl NotFound"
proof -
  obtain pre post where "drop (length (sw_log new_sweeper)) (sw_log (snd (delete_owned_namespace base_namespace base_intent
     ''sessions/claude/x/metadata.json'' new_sweeper))) = pre @ EvDelete (base_source CHR ''a'') # post" using base_removal by blast
  from namespace_removed_after_absence [OF surjective_pairing this] show ?thesis by blast
qed



end
