(* ===== verification/Destination.thy ===== *)
theory Destination
  imports ArchiveMetadata
begin

text \<open>
  Storage destinations: \<open>destination.Config\<close> (\<open>internal/destination/types.go\<close>), its identity
  (\<open>config.DestinationID\<close>), the provider namespace and the isolation check of a migration
  (\<open>internal/catalog/migration.go\<close>), and the object keys of a configured prefix
  (\<open>internal/storage/storage.go\<close>, \<open>s3.go\<close>). \<open>text_calls\<close> holds what these functions call of the standard
  library on text of any alphabet: \<open>strings.ToLower\<close>, SHA-256, and \<open>url.Parse\<close> with the tests made on
  its result.
\<close>

record dest_config =
  cf_format :: bytes
  cf_provider :: bytes
  cf_bucket :: bytes
  cf_region :: bytes
  cf_prefix :: bytes
  cf_profile :: bytes
  cf_credential :: bytes
  cf_account :: bytes
  cf_endpoint :: bytes

record text_calls =
  t_lower :: "bytes \<Rightarrow> bytes"
  t_sha :: "bytes \<Rightarrow> bytes"
  t_plain_https :: "bytes \<Rightarrow> bool"

subsection \<open>Trimming\<close>

definition trim_char :: "char \<Rightarrow> bytes \<Rightarrow> bytes" where
  "trim_char c s = rev (dropWhile ((=) c) (rev (dropWhile ((=) c) s)))"

definition trim_right_char :: "char \<Rightarrow> bytes \<Rightarrow> bytes" where
  "trim_right_char c s = rev (dropWhile ((=) c) (rev s))"

definition trailing_space :: "bytes \<Rightarrow> nat" where
  "trailing_space s =
     (case filter (\<lambda>c. has_suffix s (map char_of c)) space_codes of [] \<Rightarrow> 0 | c # _ \<Rightarrow> length c)"

lemma trailing_space_shorter: "trailing_space s \<noteq> 0 \<Longrightarrow> s \<noteq> []"
  by (auto simp: trailing_space_def has_suffix_def space_codes_def split: list.splits)

function trim_left_space :: "bytes \<Rightarrow> bytes" where
  "trim_left_space s =
     (if s = [] \<or> leading_space s = 0 then s else trim_left_space (drop (leading_space s) s))"
  by pat_completeness auto
termination by (relation "measure length") auto

function trim_right_space :: "bytes \<Rightarrow> bytes" where
  "trim_right_space s =
     (if s = [] \<or> trailing_space s = 0 then s else trim_right_space (take (length s - trailing_space s) s))"
  by pat_completeness auto
termination by (relation "measure length") auto

declare trim_left_space.simps [simp del] trim_right_space.simps [simp del]

definition trim_space :: "bytes \<Rightarrow> bytes" where
  "trim_space s = trim_right_space (trim_left_space s)"

subsection \<open>Identity and namespace\<close>

definition format_legacy :: bytes where
  "format_legacy = ''legacy''"

definition format_catalog :: bytes where
  "format_catalog = ''catalog-v4''"

definition effective_format :: "dest_config \<Rightarrow> bytes" where
  "effective_format c = (if cf_format c = [] then format_legacy else cf_format c)"

definition account_separators :: bytes where
  "account_separators = [CHR ''/'', char_of (92::nat), CHR '' '', char_of (9::nat), char_of (13::nat), char_of (10::nat)]"

definition r2_endpoint :: "text_calls \<Rightarrow> bytes \<Rightarrow> bytes \<Rightarrow> rerr + bytes" where
  "r2_endpoint T endpoint account =
     (let endpoint = trim_space endpoint; account = trim_space account in
      if endpoint = [] \<and> (account = [] \<or> list_ex (\<lambda>c. c \<in> set account_separators) account) then Inl Failed
      else
        (let endpoint = (if endpoint = [] then ''https://'' @ account @ ''.r2.cloudflarestorage.com'' else endpoint) in
         if t_plain_https T endpoint then Inr (trim_right_char (CHR ''/'') endpoint) else Inl Failed))"

definition config_provider :: "text_calls \<Rightarrow> dest_config \<Rightarrow> bytes" where
  "config_provider T c = t_lower T (trim_space (cf_provider c))"

definition config_endpoint :: "text_calls \<Rightarrow> dest_config \<Rightarrow> rerr + bytes" where
  "config_endpoint T c =
     (if config_provider T c = ''r2'' then r2_endpoint T (cf_endpoint c) (cf_account c) else Inr [])"

definition nul :: bytes where
  "nul = [char_of (0::nat)]"

definition trim_slashes :: "bytes \<Rightarrow> bytes" where
  "trim_slashes s = trim_char (CHR ''/'') s"

definition destination_id :: "text_calls \<Rightarrow> dest_config \<Rightarrow> bytes" where
  "destination_id T c =
     t_sha T (config_provider T c @ nul @ (case config_endpoint T c of Inl _ \<Rightarrow> [] | Inr e \<Rightarrow> e) @ nul @
       cf_bucket c @ nul @ trim_slashes (cf_prefix c))"

definition provider_namespace :: "text_calls \<Rightarrow> dest_config \<Rightarrow> rerr + bytes" where
  "provider_namespace T c =
     sbind (config_endpoint T c) (\<lambda>endpoint.
       Inr (config_provider T c @ nul @ t_lower T endpoint @ nul @ cf_bucket c))"

definition isolated :: "text_calls \<Rightarrow> dest_config \<Rightarrow> dest_config \<Rightarrow> bool" where
  "isolated T source target =
     (case (provider_namespace T source, provider_namespace T target) of
        (Inr m, Inr n) \<Rightarrow>
          (if m \<noteq> n then True
           else
             (let a = trim_slashes (cf_prefix source); b = trim_slashes (cf_prefix target) in
              a \<noteq> [] \<and> b \<noteq> [] \<and> a \<noteq> b \<and> \<not> has_prefix a (b @ ''/'') \<and> \<not> has_prefix b (a @ ''/'')))
      | _ \<Rightarrow> False)"

subsection \<open>Object keys\<close>

fun split_slash :: "bytes \<Rightarrow> bytes \<Rightarrow> bytes list" where
  "split_slash part [] = [rev part]"
| "split_slash part (c # s) = (if c = CHR ''/'' then rev part # split_slash [] s else split_slash (c # part) s)"

definition has_dot_component :: "bytes \<Rightarrow> bool" where
  "has_dot_component s = list_ex (\<lambda>p. p = ''.'' \<or> p = ''..'') (split_slash [] s)"

definition backslash :: char where
  "backslash = char_of (92::nat)"

definition prefix_key :: "bytes \<Rightarrow> bytes \<Rightarrow> rerr + bytes" where
  "prefix_key prefix key =
     (if has_prefix prefix ''/'' \<or> backslash \<in> set prefix \<or> has_dot_component prefix then Inl Failed
      else if has_prefix key ''/'' \<or> backslash \<in> set key \<or> key = [] \<or> has_dot_component key then Inl Failed
      else
        (let prefix = trim_slashes prefix in if prefix = [] then Inr key else Inr (prefix @ ''/'' @ key)))"

text \<open>\<open>NewS3Store\<close> keeps the trimmed prefix; \<open>key\<close> and \<open>keyForList\<close> are its object keys and list prefixes.\<close>

definition store_prefix :: "dest_config \<Rightarrow> bytes" where
  "store_prefix c = trim_slashes (cf_prefix c)"

definition store_key :: "dest_config \<Rightarrow> bytes \<Rightarrow> rerr + bytes" where
  "store_key c relative = prefix_key (store_prefix c) relative"

definition key_for_list :: "dest_config \<Rightarrow> bytes \<Rightarrow> rerr + bytes" where
  "key_for_list c relative =
     (if blank relative then (if store_prefix c = [] then Inr [] else Inr (store_prefix c @ ''/''))
      else store_key c relative)"

subsection \<open>Isolated destinations\<close>

lemma trim_char_idem [simp]: "trim_char c (trim_char c s) = trim_char c s"
proof -
  have drop: "dropWhile P (rev (dropWhile P (rev t))) = rev (dropWhile P (rev t))" if "t = dropWhile P t" for P and t :: bytes
  proof (cases "rev (dropWhile P (rev t))")
    case (Cons x xs)
    then obtain ys where "t = (x # xs) @ ys"
      by (metis append_take_drop_id dropWhile_eq_drop rev_append rev_rev_ident)
    then have "\<not> P x" using that by (metis append_Cons dropWhile_eq_Cons_conv list.inject)
    then show ?thesis using Cons by simp
  next
    case Nil
    show ?thesis unfolding Nil by simp
  qed
  show ?thesis
    unfolding trim_char_def by (subst drop) auto
qed

lemma trim_slashes_idem [simp]: "trim_slashes (trim_slashes s) = trim_slashes s"
  by (simp add: trim_slashes_def)

lemma store_key_prefix:
  assumes "store_key c k = Inr key" "store_prefix c \<noteq> []"
  shows "has_prefix key (store_prefix c @ ''/'')"
  using assms by (auto simp: store_key_def prefix_key_def store_prefix_def has_prefix_conv Let_def split: if_splits)

lemma key_for_list_prefix:
  assumes "key_for_list c k = Inr key" "store_prefix c \<noteq> []"
  shows "has_prefix key (store_prefix c @ ''/'')"
  using assms by (auto simp: key_for_list_def has_prefix_def split: if_splits dest: store_key_prefix)

lemma prefixes_comparable:
  assumes "has_prefix s p" "has_prefix s q"
  shows "has_prefix p q \<or> has_prefix q p"
  using assms by (auto simp: has_prefix_conv append_eq_append_conv2)

lemma slash_prefix:
  assumes "has_prefix (p @ ''/'') (q @ ''/'')"
  shows "p = q \<or> has_prefix p (q @ ''/'')"
  using assms by (auto simp: has_prefix_conv append_eq_append_conv2 append_eq_Cons_conv Cons_eq_append_conv)

lemma isolatedD:
  assumes "isolated T a b" "provider_namespace T a = Inr n" "provider_namespace T b = Inr n"
  shows "store_prefix a \<noteq> []" "store_prefix b \<noteq> []" "store_prefix a \<noteq> store_prefix b"
    "\<not> has_prefix (store_prefix a) (store_prefix b @ ''/'')" "\<not> has_prefix (store_prefix b) (store_prefix a @ ''/'')"
  using assms by (auto simp: isolated_def store_prefix_def Let_def)

end
