(* ===== verification/CatalogState.thy ===== *)
theory CatalogState
  imports Destination CatalogTree "HOL-Library.Word" "HOL-Library.AList"
begin

text \<open>
  The durable records of the catalog's coordination (\<open>internal/catalog\<close>): the head, the coordinator
  with its owners, seal, hold, collection link, migration intent and format upgrade, and the
  validation that every read and every write of the coordinator passes (\<open>coordinator_validate.go\<close>,
  \<open>migration_intent.go\<close>, \<open>picker_upgrade.go\<close>, \<open>head_protocol.go\<close>). A \<open>uint64\<close> is a 64-bit word. A string
  type with named constants is a datatype with one more constructor for every other text the decoder
  may deliver. A map is an association list, its keys distinct, in an order nothing depends on; a nil
  map is None where the code tests for it. \<open>runtime\<close> holds \<open>encoding/json\<close> on these records.
\<close>

type_synonym u64 = "64 word"

definition longer :: "bytes \<Rightarrow> int \<Rightarrow> bool" where
  "longer s n = (int (length s) > n)"

subsection \<open>Errors\<close>

datatype cerr = NotFound | TooLarge | AdmissionClosed | MutationReuse | Conflict | CommitUnknown | Precondition
  | ReadOnly | ContextEnded | Descriptor | ScopedUnavailable | ChecksumMismatch | ProviderFailed | Refused
  | StaleCursor | PickerBudget | PickerUnsupported | PickerAmbiguous | Join cerr cerr

fun is_err :: "cerr \<Rightarrow> cerr \<Rightarrow> bool" where
  "is_err target (Join a b) = (target = Join a b \<or> is_err target a \<or> is_err target b)"
| "is_err target e = (target = e)"

subsection \<open>Records\<close>

record picker_format =
  pf_version :: u64
  pf_row_schema :: u64
  pf_capabilities :: "bytes list"

record gc_witness =
  gw_generation :: u64
  gw_seal :: bytes
  gw_hold :: bytes
  gw_inventory :: bytes

record head_witness =
  hw_etag :: bytes
  hw_modified :: time
  hw_precision :: dur
  hw_epoch :: bytes
  hw_roots :: bytes

record head =
  hd_picker :: "picker_format option"
  hd_protocol :: u64
  hd_schema :: u64
  hd_generation :: u64
  hd_epoch :: bytes
  hd_identity :: objref
  hd_capture :: objref
  hd_activity :: objref
  hd_project :: objref
  hd_receipts :: objref
  hd_previous :: objref
  hd_committed :: time
  hd_gc :: gc_witness
  hd_lease :: bytes
  hd_pub_epoch :: bytes
  hd_pub_witness :: head_witness
  hd_pred_witness :: head_witness

record journal =
  jn_protocol :: u64
  jn_owner :: bytes
  jn_origin :: bytes
  jn_destination :: bytes
  jn_session :: bytes
  jn_mutation :: bytes
  jn_revision :: bytes
  jn_sha :: bytes

record admission =
  ad_digest :: bytes
  ad_refs :: "objref list"
  ad_journal :: "journal option"

datatype mode = Candidate | Active | Rollback | OtherMode bytes

datatype gc_phase = GcPrepared | GcReleasing | OtherGcPhase bytes

datatype upgrade_phase = UpDraining | UpBuilding | UpVerified | UpActivating | UpActive | UpRollback | OtherUpgrade bytes

datatype migration_phase = MgInitializing | MgRollbackPreparing | MgCopying | MgVerifying | MgVerified | MgActive
  | MgRollback | OtherMigration bytes

datatype intent_kind = InitializeIntent | RollbackIntent | OtherIntent bytes

record gc_completion =
  gc_owner :: bytes
  gc_released :: bytes

record gc_link =
  gl_owner :: bytes
  gl_witness :: gc_witness
  gl_generation :: u64
  gl_inventory :: "objref list"
  gl_prior_etag :: bytes
  gl_prior_sha :: bytes
  gl_leased_sha :: bytes
  gl_released_sha :: bytes
  gl_released_head :: bytes
  gl_phase :: gc_phase

record upgrade =
  up_owner :: bytes
  up_destination :: dest_config
  up_proof :: bytes
  up_source :: head
  up_source_etag :: bytes
  up_candidate :: head
  up_cursor :: bytes
  up_phase :: upgrade_phase
  up_copied :: u64
  up_memberships :: u64
  up_activated :: bytes

record migration =
  mg_protocol :: u64
  mg_source :: dest_config
  mg_destination :: dest_config
  mg_phase :: migration_phase
  mg_cursor :: bytes
  mg_expected :: bytes
  mg_owner :: bytes
  mg_id :: bytes
  mg_proof :: bytes
  mg_root :: objref
  mg_copied :: u64

record intent =
  in_kind :: intent_kind
  in_state :: migration
  in_predecessor :: "migration option"

record admissions =
  as_upgrade_receipt :: "upgrade option"
  as_picker :: "picker_format option"
  as_upgrade :: "upgrade option"
  as_intent :: "intent option"
  as_protocol :: u64
  as_mode :: mode
  as_proof :: bytes
  as_generation :: u64
  as_seal :: bytes
  as_hold :: bytes
  as_gc_receipt :: "gc_completion option"
  as_gc_link :: "gc_link option"
  as_owner_map :: "(bytes \<times> admission) list option"
  as_completed :: "(bytes \<times> admission) list"

definition owners :: "admissions \<Rightarrow> (bytes \<times> admission) list" where
  "owners s = (case as_owner_map s of None \<Rightarrow> [] | Some m \<Rightarrow> m)"

definition set_owners :: "(bytes \<times> admission) list \<Rightarrow> admissions \<Rightarrow> admissions" where
  "set_owners m s = s\<lparr>as_owner_map := Some m\<rparr>"

definition no_gc_witness :: gc_witness where
  "no_gc_witness = \<lparr>gw_generation = 0, gw_seal = [], gw_hold = [], gw_inventory = []\<rparr>"

definition no_head_witness :: head_witness where
  "no_head_witness = \<lparr>hw_etag = [], hw_modified = 0, hw_precision = 0, hw_epoch = [], hw_roots = []\<rparr>"

text \<open>The zero head with a schema, protocol and picker format.\<close>

definition fresh_head :: "u64 \<Rightarrow> u64 \<Rightarrow> picker_format option \<Rightarrow> head" where
  "fresh_head schema protocol picker =
     \<lparr>hd_picker = picker, hd_protocol = protocol, hd_schema = schema, hd_generation = 0, hd_epoch = [],
      hd_identity = no_ref, hd_capture = no_ref, hd_activity = no_ref, hd_project = no_ref, hd_receipts = no_ref,
      hd_previous = no_ref, hd_committed = 0, hd_gc = no_gc_witness, hd_lease = [], hd_pub_epoch = [],
      hd_pub_witness = no_head_witness, hd_pred_witness = no_head_witness\<rparr>"

text \<open>What \<open>read\<close> answers when no coordinator exists yet.\<close>

definition initial_admissions :: admissions where
  "initial_admissions =
     \<lparr>as_upgrade_receipt = None, as_picker = None, as_upgrade = None, as_intent = None, as_protocol = 10,
      as_mode = Candidate, as_proof = [], as_generation = 0, as_seal = [], as_hold = [], as_gc_receipt = None,
      as_gc_link = None, as_owner_map = Some [], as_completed = []\<rparr>"

subsection \<open>The standard library\<close>

text \<open>
  \<open>r_*\<close> encode (\<open>json.Marshal\<close>, None on an error); \<open>r_*_in\<close> decode exactly one value and refuse unknown
  fields. A head is decoded as its plain fields and the raw text of its Picker field, empty when the
  field is absent. \<open>r_roots\<close> is the encoding of the structure \<open>rootsSHA256\<close> hashes.
\<close>

record runtime = text_calls +
  r_state :: "admissions \<Rightarrow> bytes option"
  r_state_in :: "bytes \<Rightarrow> admissions option"
  r_head :: "head \<Rightarrow> bytes option"
  r_head_in :: "bytes \<Rightarrow> (head \<times> bytes) option"
  r_picker_in :: "bytes \<Rightarrow> picker_format option"
  r_roots :: "head \<Rightarrow> bytes"
  r_refs :: "objref list \<Rightarrow> bytes"
  r_intent :: "intent \<Rightarrow> bytes"
  r_migration :: "migration \<Rightarrow> bytes option"

subsection \<open>Formats and references\<close>

definition exact_hex :: "bytes \<Rightarrow> nat \<Rightarrow> bool" where
  "exact_hex v n =
     (length v = n * 2 \<and> (case hex_decode v of None \<Rightarrow> False | Some raw \<Rightarrow> hex_encode raw = v))"

definition journal_hex :: "bytes \<Rightarrow> nat \<Rightarrow> bool" where
  "journal_hex v n =
     (case hex_decode v of None \<Rightarrow> False | Some raw \<Rightarrow> length raw = n \<and> hex_encode raw = v)"

lemma journal_hex_exact: "journal_hex v n \<longleftrightarrow> exact_hex v n"
  by (auto simp: journal_hex_def exact_hex_def split: option.splits dest: length_hex_decode)

lemma exact_hex_encode [simp]: "exact_hex (hex_encode raw) n \<longleftrightarrow> length raw = n"
  by (auto simp: exact_hex_def)

lemma exact_hex_nonempty: "exact_hex v n \<Longrightarrow> 0 < n \<Longrightarrow> v \<noteq> []"
  by (auto simp: exact_hex_def)

definition scoped_capability :: bytes where
  "scoped_capability = ''scoped-picker-v1''"

definition picker_format :: picker_format where
  "picker_format = \<lparr>pf_version = 1, pf_row_schema = 1, pf_capabilities = [scoped_capability]\<rparr>"

definition picker_valid :: "picker_format option \<Rightarrow> bool" where
  "picker_valid f =
     (case f of None \<Rightarrow> False
      | Some f \<Rightarrow> pf_version f = 1 \<and> pf_row_schema f = 1 \<and> pf_capabilities f = [scoped_capability])"

definition head_valid_format :: "head \<Rightarrow> bool" where
  "head_valid_format h =
     (hd_protocol h = 10 \<and> hd_schema h = 4 \<and> hd_picker h = None \<or>
      hd_protocol h = 11 \<and> hd_schema h = 5 \<and> picker_valid (hd_picker h))"

definition head_references_valid :: "head \<Rightarrow> bool" where
  "head_references_valid h =
     list_all (\<lambda>r. is_ok (ref_validate r))
       [hd_identity h, hd_capture h, hd_activity h, hd_project h, hd_receipts h, hd_previous h]"

definition state_valid_format :: "admissions \<Rightarrow> bool" where
  "state_valid_format s =
     (as_protocol s = 10 \<and> as_picker s = None \<or> as_protocol s = 11 \<and> picker_valid (as_picker s))"

definition head_coordinator_match :: "head \<Rightarrow> admissions \<Rightarrow> bool" where
  "head_coordinator_match h s = (hd_protocol h = as_protocol s \<and> (hd_picker h \<noteq> None) = (as_picker s \<noteq> None))"

text \<open>\<open>CatalogHead.UnmarshalJSON\<close>: one protocol boundary for live, retained and recovery heads.\<close>

definition head_unmarshal :: "runtime \<Rightarrow> bytes \<Rightarrow> head option" where
  "head_unmarshal R raw =
     (case r_head_in R raw of
        None \<Rightarrow> None
      | Some (next, picker) \<Rightarrow>
          (let scoped = hd_protocol next = 11 \<or> hd_schema next = 5 \<or> picker \<noteq> [];
               plain = next\<lparr>hd_picker := None\<rparr> in
           if scoped then
             (case r_picker_in R picker of
                None \<Rightarrow> None
              | Some f \<Rightarrow>
                  if hd_protocol next \<noteq> 11 \<or> hd_schema next \<noteq> 5 \<or> picker = [] \<or> \<not> picker_valid (Some f) then None
                  else Some (next\<lparr>hd_picker := Some f\<rparr>))
           else if hd_protocol next \<noteq> 10 \<or> hd_schema next \<noteq> 4 then None
           else Some plain))"

definition head_hash :: "runtime \<Rightarrow> head \<Rightarrow> bytes" where
  "head_hash R h = t_sha R (case r_head R h of None \<Rightarrow> [] | Some raw \<Rightarrow> raw)"

definition inventory_hash :: "runtime \<Rightarrow> objref list \<Rightarrow> bytes" where
  "inventory_hash R refs = t_sha R (r_refs R refs)"

definition intent_digest :: "runtime \<Rightarrow> intent \<Rightarrow> bytes" where
  "intent_digest R i = t_sha R (r_intent R i)"

subsection \<open>Validation\<close>

definition contains_any :: "bytes \<Rightarrow> bytes \<Rightarrow> bool" where
  "contains_any s chars = list_ex (\<lambda>c. c \<in> set chars) s"

definition journal_valid :: "journal \<Rightarrow> bool" where
  "journal_valid j =
     (\<not> ((jn_protocol j \<noteq> 0 \<and> jn_protocol j \<noteq> 11) \<or> \<not> journal_hex (jn_owner j) 16 \<or> \<not> journal_hex (jn_origin j) 32 \<or>
         \<not> journal_hex (jn_sha j) 32 \<or> jn_destination j = [] \<or> longer (jn_destination j) 128 \<or> jn_session j = [] \<or>
         longer (jn_session j) 512 \<or> contains_any (jn_session j) [CHR ''/'', backslash] \<or> jn_session j = ''.'' \<or>
         jn_session j = ''..'' \<or> jn_mutation j = [] \<or> longer (jn_mutation j) 128 \<or> longer (jn_revision j) 128))"

definition writer_protocol :: "journal \<Rightarrow> u64" where
  "writer_protocol j = (if jn_protocol j = 0 then 10 else jn_protocol j)"

definition admission_valid :: "bytes \<times> admission \<Rightarrow> bool" where
  "admission_valid = (\<lambda>(owner, claim).
     \<not> (owner = [] \<or> longer owner 512 \<or> ad_digest claim = [] \<or> length (ad_refs claim) > 256) \<and>
     (case ad_journal claim of None \<Rightarrow> True | Some j \<Rightarrow> journal_valid j) \<and>
     list_all (\<lambda>r. \<not> (rkey r = [] \<or> rsha r = [] \<or> longer (rkey r) 4096)) (ad_refs claim))"

definition receipt_valid :: "bytes \<times> admission \<Rightarrow> bool" where
  "receipt_valid = (\<lambda>(key, receipt).
     (case ad_journal receipt of None \<Rightarrow> False | Some j \<Rightarrow> key = jn_owner j \<and> exact_hex (ad_digest receipt) 32))"

definition migration_valid :: "runtime \<Rightarrow> migration \<Rightarrow> bool" where
  "migration_valid R m =
     (\<not> ((mg_protocol m \<noteq> 10 \<and> mg_protocol m \<noteq> 11) \<or> \<not> exact_hex (mg_id m) 24 \<or> \<not> exact_hex (mg_owner m) 24 \<or>
         mg_proof m = [] \<or> longer (mg_proof m) 4096 \<or> longer (mg_cursor m) 4096 \<or> longer (mg_expected m) 4096 \<or>
         \<not> isolated (text_calls.truncate R) (mg_source m) (mg_destination m) \<or>
         effective_format (mg_source m) \<noteq> format_legacy \<or> effective_format (mg_destination m) \<noteq> format_catalog) \<and>
      (case mg_phase m of
         MgInitializing \<Rightarrow> True
       | MgCopying \<Rightarrow> True
       | OtherMigration _ \<Rightarrow> False
       | _ \<Rightarrow> mg_cursor m = [] \<and> mg_expected m \<noteq> []) \<and>
      (mg_root m = no_ref \<or> is_ok (ref_validate (mg_root m))) \<and>
      \<not> (mg_phase m \<in> {MgVerified, MgActive, MgRollback} \<and> mg_copied m > 0 \<and> mg_root m = no_ref))"

definition same_migration :: "runtime \<Rightarrow> migration \<Rightarrow> migration \<Rightarrow> bool" where
  "same_migration R a b = (r_migration R a \<noteq> None \<and> r_migration R a = r_migration R b)"

definition intent_valid :: "runtime \<Rightarrow> intent \<Rightarrow> admissions \<Rightarrow> bool" where
  "intent_valid R i s =
     (let m = in_state i in
      \<not> (\<not> migration_valid R m \<or> owners s \<noteq> [] \<or> as_hold s \<noteq> [] \<or> as_gc_link s \<noteq> None \<or>
         (as_seal s \<noteq> [] \<and> as_seal s \<noteq> mg_owner m)) \<and>
      (case in_kind i of
         InitializeIntent \<Rightarrow>
           \<not> (in_predecessor i \<noteq> None \<or> mg_phase m \<noteq> MgInitializing \<or> mg_copied m \<noteq> 0 \<or> mg_cursor m \<noteq> [] \<or>
              mg_expected m \<noteq> [] \<or> mg_root m \<noteq> no_ref \<or> as_mode s \<noteq> Candidate \<or> as_proof s \<noteq> [] \<or> as_completed s \<noteq> [])
       | RollbackIntent \<Rightarrow>
           (case in_predecessor i of
              None \<Rightarrow> False
            | Some p \<Rightarrow>
                mg_phase p = MgActive \<and> migration_valid R p \<and>
                same_migration R (p\<lparr>mg_owner := mg_owner m, mg_phase := MgRollbackPreparing\<rparr>) m \<and>
                \<not> (mg_phase m \<noteq> MgRollbackPreparing \<or> (as_mode s \<noteq> Active \<and> as_mode s \<noteq> Rollback) \<or>
                   as_proof s \<noteq> mg_proof m))
       | OtherIntent _ \<Rightarrow> False))"

definition released_head_valid :: "runtime \<Rightarrow> gc_link \<Rightarrow> bool" where
  "released_head_valid R l =
     (\<not> (\<not> exact_hex (gl_released_sha l) 32 \<or> gl_released_head l = [] \<or> longer (gl_released_head l) 16384 \<or>
         \<not> exact_hex (gw_inventory (gl_witness l)) 32) \<and>
      t_sha R (gl_released_head l) = gl_released_sha l \<and>
      (case head_unmarshal R (gl_released_head l) of
         None \<Rightarrow> False
       | Some h \<Rightarrow>
           \<not> (hd_lease h \<noteq> [] \<or> hd_gc h \<noteq> no_gc_witness \<or> \<not> head_valid_format h \<or> hd_generation h = 0 \<or>
              \<not> exact_hex (hd_epoch h) 24 \<or> \<not> head_references_valid h)))"

definition link_valid :: "runtime \<Rightarrow> gc_link \<Rightarrow> admissions \<Rightarrow> bool" where
  "link_valid R l s =
     (\<not> (\<not> exact_hex (gl_owner l) 24 \<or> gl_generation l \<noteq> as_generation s \<or> gw_generation (gl_witness l) = 0 \<or>
         gw_generation (gl_witness l) \<ge> as_generation s) \<and>
      \<not> (gw_seal (gl_witness l) \<noteq> as_seal s \<or> gw_hold (gl_witness l) \<noteq> as_hold s \<or> as_hold s = [] \<or> owners s \<noteq> []) \<and>
      \<not> (gl_prior_etag l = [] \<or> longer (gl_prior_etag l) 4096 \<or> \<not> exact_hex (gl_prior_sha l) 32 \<or>
         \<not> exact_hex (gl_leased_sha l) 32 \<or> inventory_hash R (gl_inventory l) \<noteq> gw_inventory (gl_witness l)) \<and>
      (case gl_phase l of
         GcPrepared \<Rightarrow> gl_released_sha l = [] \<and> gl_released_head l = []
       | GcReleasing \<Rightarrow> released_head_valid R l
       | OtherGcPhase _ \<Rightarrow> False))"

definition upgrade_binding_valid :: "upgrade \<Rightarrow> admissions \<Rightarrow> bool" where
  "upgrade_binding_valid u s =
     (\<not> (\<not> exact_hex (up_owner u) 24 \<or> as_seal s \<noteq> up_owner u \<or> as_hold s \<noteq> [] \<or> as_gc_link s \<noteq> None \<or> as_intent s \<noteq> None \<or>
         up_proof u = [] \<or> longer (up_proof u) 4096 \<or> longer (up_source_etag u) 4096 \<or> longer (up_activated u) 4096 \<or>
         hd_receipts (up_candidate u) \<noteq> hd_receipts (up_source u) \<or> effective_format (up_destination u) \<noteq> format_catalog \<or>
         longer (up_cursor u) 4096 \<or> hd_protocol (up_source u) \<noteq> 10 \<or> \<not> head_valid_format (up_source u) \<or>
         \<not> head_valid_format (up_candidate u) \<or> hd_protocol (up_candidate u) \<noteq> 11 \<or>
         \<not> head_references_valid (up_source u) \<or> \<not> head_references_valid (up_candidate u)))"

definition upgrade_valid :: "upgrade \<Rightarrow> admissions \<Rightarrow> bool" where
  "upgrade_valid u s =
     (upgrade_binding_valid u s \<and>
      (case up_phase u of
         UpDraining \<Rightarrow> \<not> (up_copied u \<noteq> 0 \<or> up_cursor u \<noteq> [] \<or> as_protocol s \<noteq> 10)
       | UpBuilding \<Rightarrow> owners s = [] \<and> as_protocol s = 10
       | UpVerified \<Rightarrow> owners s = [] \<and> as_protocol s = 10
       | UpActive \<Rightarrow> up_activated u \<noteq> [] \<and> owners s = [] \<and> as_protocol s = 11
       | UpRollback \<Rightarrow> up_activated u \<noteq> [] \<and> owners s = [] \<and> as_protocol s = 11
       | UpActivating \<Rightarrow> owners s = [] \<and> as_protocol s = 11
       | OtherUpgrade _ \<Rightarrow> False))"

definition picker_upgrade_valid :: "admissions \<Rightarrow> bool" where
  "picker_upgrade_valid s =
     ((case as_upgrade_receipt s of
         None \<Rightarrow> True
       | Some r \<Rightarrow>
           \<not> (as_protocol s \<noteq> 11 \<or> up_phase r \<noteq> UpActive \<or> \<not> exact_hex (up_owner r) 24 \<or> up_activated r = [] \<or>
              \<not> head_valid_format (up_candidate r) \<or> hd_protocol (up_candidate r) \<noteq> 11 \<or>
              \<not> head_references_valid (up_candidate r))) \<and>
      (case as_upgrade s of None \<Rightarrow> True | Some u \<Rightarrow> upgrade_valid u s))"

definition state_valid :: "runtime \<Rightarrow> admissions \<Rightarrow> bool" where
  "state_valid R s =
     (\<not> (\<not> state_valid_format s \<or> as_generation s = 0 \<or> as_owner_map s = None \<or> length (owners s) > 256) \<and>
      picker_upgrade_valid s \<and>
      as_mode s \<in> {Candidate, Active, Rollback} \<and>
      \<not> (as_mode s = Active \<and> as_proof s = []) \<and>
      \<not> (as_seal s \<noteq> [] \<and> \<not> exact_hex (as_seal s) 24) \<and>
      \<not> (as_hold s \<noteq> [] \<and> (as_seal s = [] \<or> \<not> exact_hex (as_hold s) 24 \<or> owners s \<noteq> [])) \<and>
      list_all admission_valid (owners s) \<and>
      \<not> (length (as_completed s) > 256 \<or> \<not> list_all admission_valid (as_completed s)) \<and>
      list_all receipt_valid (as_completed s) \<and>
      (case as_gc_receipt s of None \<Rightarrow> True | Some r \<Rightarrow> exact_hex (gc_owner r) 24 \<and> exact_hex (gc_released r) 32) \<and>
      (case as_intent s of None \<Rightarrow> True | Some i \<Rightarrow> intent_valid R i s) \<and>
      (case as_gc_link s of None \<Rightarrow> True | Some l \<Rightarrow> link_valid R l s))"

subsection \<open>Facts of owner maps\<close>

text \<open>Deletion and assignment on a map with distinct keys.\<close>

abbreviation keys_distinct :: "('k \<times> 'v) list \<Rightarrow> bool" where
  "keys_distinct m \<equiv> distinct (map fst m)"

lemma owners_set [simp]: "owners (set_owners m s) = m"
  by (simp add: owners_def set_owners_def)

lemma set_owners_fields [simp]:
  "as_upgrade_receipt (set_owners m s) = as_upgrade_receipt s" "as_picker (set_owners m s) = as_picker s"
  "as_upgrade (set_owners m s) = as_upgrade s" "as_intent (set_owners m s) = as_intent s"
  "as_protocol (set_owners m s) = as_protocol s" "as_mode (set_owners m s) = as_mode s"
  "as_proof (set_owners m s) = as_proof s" "as_generation (set_owners m s) = as_generation s"
  "as_seal (set_owners m s) = as_seal s" "as_hold (set_owners m s) = as_hold s"
  "as_gc_receipt (set_owners m s) = as_gc_receipt s" "as_gc_link (set_owners m s) = as_gc_link s"
  "as_completed (set_owners m s) = as_completed s" "as_owner_map (set_owners m s) = Some m"
  by (simp_all add: set_owners_def)

lemma owners_update [simp]:
  "owners (s\<lparr>as_seal := a\<rparr>) = owners s" "owners (s\<lparr>as_hold := a\<rparr>) = owners s"
  "owners (s\<lparr>as_generation := g\<rparr>) = owners s" "owners (s\<lparr>as_mode := m\<rparr>) = owners s"
  "owners (s\<lparr>as_proof := a\<rparr>) = owners s" "owners (s\<lparr>as_intent := i\<rparr>) = owners s"
  "owners (s\<lparr>as_gc_link := l\<rparr>) = owners s" "owners (s\<lparr>as_gc_receipt := r\<rparr>) = owners s"
  "owners (s\<lparr>as_completed := c\<rparr>) = owners s" "owners (s\<lparr>as_upgrade := u\<rparr>) = owners s"
  "owners (s\<lparr>as_protocol := p\<rparr>) = owners s" "owners (s\<lparr>as_picker := f\<rparr>) = owners s"
  by (simp_all add: owners_def)

lemma valid_hold:
  assumes "state_valid R s" "as_hold s \<noteq> []"
  shows "as_seal s \<noteq> []" "owners s = []" "exact_hex (as_hold s) 24" "exact_hex (as_seal s) 24"
  using assms by (auto simp: state_valid_def)

lemma valid_owner_count: "state_valid R s \<Longrightarrow> length (owners s) \<le> 256"
  by (auto simp: state_valid_def)

lemma valid_generation: "state_valid R s \<Longrightarrow> as_generation s \<noteq> 0"
  by (auto simp: state_valid_def)

lemma valid_seal_hex: "state_valid R s \<Longrightarrow> as_seal s \<noteq> [] \<Longrightarrow> exact_hex (as_seal s) 24"
  by (auto simp: state_valid_def)

end
