(* ===== verification/Coordinator.thy ===== *)
theory Coordinator
  imports CatalogState
begin

text \<open>
  \<open>internal/catalog/coordinator.go\<close>: the destination-wide admission authority. Its record is one object
  of the bucket, changed only by compare-and-swap on the ETag. The world is the bucket, the number of
  calls made so far and the log of the writes and deletions this process had applied, latest first. Before every
  call the other machines may change the bucket (\<open>x_others\<close>), and a call may fail, with its write
  applied or not (\<open>x_fault\<close>): quantifying over the environment covers every interleaving and every lost
  answer. A context carries the authorities the code looks up in it; \<open>x_done\<close> says whether it has ended
  by the n-th call. A writer's address is a number.
\<close>

subsection \<open>The world\<close>

record version =
  ve_etag :: bytes
  ve_modified :: time
  ve_precision :: dur

type_synonym objects = "bytes \<rightharpoonup> bytes \<times> version"

record written =
  wr_key :: bytes
  wr_before :: "(bytes \<times> version) option"
  wr_after :: "bytes option"

record world =
  w_objects :: objects
  w_calls :: nat
  w_log :: "written list"

datatype call_fault = Answered | Unanswered cerr | AppliedUnanswered cerr

record environment =
  x_others :: "nat \<Rightarrow> objects \<Rightarrow> objects"
  x_fault :: "nat \<Rightarrow> call_fault"
  x_version :: "nat \<Rightarrow> bytes \<Rightarrow> version"
  x_random :: "nat \<Rightarrow> bytes option"
  x_done :: "nat \<Rightarrow> bool"
  x_list :: "nat \<Rightarrow> objects \<Rightarrow> bytes \<Rightarrow> cerr + bytes list"
  x_clock :: "nat \<Rightarrow> cerr + time \<times> time"
  x_run :: runtime

record writer =
  wt_id :: nat
  wt_readonly :: bool

record write_authority =
  wa_writer :: nat
  wa_owner :: bytes
  wa_digest :: bytes
  wa_seal :: bytes

record call_context =
  cx_intent :: "(nat \<times> bytes) option"
  cx_upgrade :: "(nat \<times> bytes) option"
  cx_write :: "write_authority option"

definition background :: call_context where
  "background = \<lparr>cx_intent = None, cx_upgrade = None, cx_write = None\<rparr>"

type_synonym 'a act = "(world, cerr, 'a) step"

definition head_key :: bytes where
  "head_key = ''catalog-v4/head.json''"

definition coordinator_key :: bytes where
  "coordinator_key = ''catalog-v4/coordinator.json''"

definition migration_key :: bytes where
  "migration_key = ''catalog-v4/migrations/current.json''"

definition coordinator_limit :: int where
  "coordinator_limit = 4194304"

definition head_limit :: int where
  "head_limit = 16384"

subsection \<open>Calls\<close>

definition arrive :: "environment \<Rightarrow> world \<Rightarrow> world" where
  "arrive X w = w\<lparr>w_objects := x_others X (w_calls w) (w_objects w), w_calls := Suc (w_calls w)\<rparr>"

text \<open>\<open>GetCatalogVersion\<close>: the object and its version, refused beyond the limit.\<close>

definition get_version :: "environment \<Rightarrow> bytes \<Rightarrow> int \<Rightarrow> (bytes \<times> version) act" where
  "get_version X key limit w =
     (let w' = arrive X w in
      (case x_fault X (w_calls w) of
         Answered \<Rightarrow>
           (case w_objects w' key of
              None \<Rightarrow> Inl NotFound
            | Some (raw, v) \<Rightarrow> if longer raw limit then Inl TooLarge else Inr (raw, v))
       | Unanswered e \<Rightarrow> Inl e
       | AppliedUnanswered e \<Rightarrow> Inl e,
       w'))"

record put_condition =
  pc_match :: bytes
  pc_create :: bool

definition holds_condition :: "put_condition \<Rightarrow> (bytes \<times> version) option \<Rightarrow> bool" where
  "holds_condition c cell =
     (if pc_create c then cell = None
      else (case cell of None \<Rightarrow> False | Some (_, v) \<Rightarrow> ve_etag v = pc_match c))"

definition store :: "environment \<Rightarrow> bytes \<Rightarrow> bytes \<Rightarrow> nat \<Rightarrow> world \<Rightarrow> world" where
  "store X key raw n w =
     w\<lparr>w_objects := (w_objects w)(key \<mapsto> (raw, x_version X n raw)),
       w_log := \<lparr>wr_key = key, wr_before = w_objects w key, wr_after = Some raw\<rparr> # w_log w\<rparr>"

text \<open>\<open>PutConditional\<close> wants exactly one condition and answers the ETag of the new object.\<close>

definition put_conditional :: "environment \<Rightarrow> bytes \<Rightarrow> bytes \<Rightarrow> put_condition \<Rightarrow> bytes act" where
  "put_conditional X key raw cond w =
     (if pc_create cond = (pc_match cond \<noteq> []) then (Inl Refused, w)
      else
        (let n = w_calls w; w' = arrive X w; ok = holds_condition cond (w_objects w' key) in
         case x_fault X n of
           Answered \<Rightarrow> if ok then (Inr (ve_etag (x_version X n raw)), store X key raw n w') else (Inl Precondition, w')
         | Unanswered e \<Rightarrow> (Inl e, w')
         | AppliedUnanswered e \<Rightarrow> (Inl e, if ok then store X key raw n w' else w')))"

definition delete_object :: "environment \<Rightarrow> bytes \<Rightarrow> unit act" where
  "delete_object X key w =
     (let w' = arrive X w;
          deleted = w'\<lparr>w_objects := (w_objects w')(key := None),
            w_log := \<lparr>wr_key = key, wr_before = w_objects w' key, wr_after = None\<rparr> # w_log w'\<rparr> in
      case x_fault X (w_calls w) of
        Answered \<Rightarrow> (Inr (), deleted)
      | Unanswered e \<Rightarrow> (Inl e, w')
      | AppliedUnanswered e \<Rightarrow> (Inl e, deleted))"

definition list_objects :: "environment \<Rightarrow> bytes \<Rightarrow> bytes list act" where
  "list_objects X prefix w =
     (let w' = arrive X w in
      (case x_fault X (w_calls w) of
         Answered \<Rightarrow> x_list X (w_calls w) (w_objects w') prefix
       | Unanswered e \<Rightarrow> Inl e
       | AppliedUnanswered e \<Rightarrow> Inl e, w'))"

definition server_clock :: "environment \<Rightarrow> (time \<times> time) act" where
  "server_clock X w = (x_clock X (w_calls w), arrive X w)"

definition new_mutation_id :: "environment \<Rightarrow> bytes act" where
  "new_mutation_id X w =
     (case x_random X (w_calls w) of None \<Rightarrow> Inl Refused | Some raw \<Rightarrow> Inr (hex_encode raw), arrive X w)"

definition context_err :: "environment \<Rightarrow> unit act" where
  "context_err X w = (if x_done X (w_calls w) then Inl ContextEnded else Inr (), w)"

subsection \<open>Reading the coordinator\<close>

definition coord_read :: "environment \<Rightarrow> (admissions \<times> bytes) act" where
  "coord_read X w =
     (case get_version X coordinator_key coordinator_limit w of
        (Inl e, w') \<Rightarrow> (if is_err NotFound e then Inr (initial_admissions, []) else Inl e, w')
      | (Inr (raw, v), w') \<Rightarrow>
          (case r_state_in (x_run X) raw of
             None \<Rightarrow> Inl Refused
           | Some s \<Rightarrow>
               if longer raw coordinator_limit \<or> \<not> state_valid (x_run X) s \<or> ve_etag v = [] then Inl Refused
               else Inr (s, ve_etag v),
           w'))"

subsection \<open>Reading the head\<close>

definition roots_sha :: "runtime \<Rightarrow> head \<Rightarrow> bytes" where
  "roots_sha R h = t_sha R (r_roots R h)"

definition observe_version :: "runtime \<Rightarrow> head \<Rightarrow> version \<Rightarrow> cerr + head" where
  "observe_version R h v =
     (if ve_modified v = 0 \<or> ve_precision v \<le> 0 \<or> ve_precision v > minute then Inl Refused
      else
        (let first = hw_etag (hd_pub_witness h) = [] in
         if first \<and> (hd_epoch h \<noteq> hd_pub_epoch h \<or> hd_lease h \<noteq> []) then Inl Refused
         else
           (let witness =
              (if first then \<lparr>hw_etag = ve_etag v, hw_modified = ve_modified v, hw_precision = ve_precision v,
                 hw_epoch = hd_pub_epoch h, hw_roots = roots_sha R h\<rparr> else hd_pub_witness h) in
            if hw_etag witness = [] \<or> hw_modified witness = 0 \<or> hw_precision witness \<le> 0 \<or>
               hw_precision witness > minute \<or> hw_precision witness \<noteq> ve_precision v \<or>
               hw_epoch witness \<noteq> hd_pub_epoch h \<or> hw_roots witness \<noteq> roots_sha R h \<or>
               ve_modified v + ve_precision v < hw_modified witness
            then Inl Refused
            else
              (let prior = hd_pred_witness h in
               if rkey (hd_previous h) \<noteq> [] \<and>
                  (hw_etag prior = [] \<or> hw_modified prior = 0 \<or> hw_precision prior \<le> 0 \<or> hw_precision prior > minute \<or>
                   hw_modified prior > hw_modified witness + hw_precision witness)
               then Inl Refused
               else Inr (h\<lparr>hd_pub_witness := witness, hd_committed := hw_modified witness\<rparr>)))))"

definition no_version :: version where
  "no_version = \<lparr>ve_etag = [], ve_modified = 0, ve_precision = 0\<rparr>"

definition decode_live_head :: "runtime \<Rightarrow> bytes \<Rightarrow> version \<Rightarrow> cerr + head" where
  "decode_live_head R raw v =
     (if longer raw head_limit then Inl TooLarge
      else
        (case head_unmarshal R raw of
           None \<Rightarrow> Inl Refused
         | Some h \<Rightarrow>
             if \<not> head_valid_format h \<or> hd_generation h = 0 \<or> hd_epoch h = [] \<or> hd_pub_epoch h = [] \<or> ve_etag v = []
             then Inl (if hd_protocol h = 11 then ScopedUnavailable else Refused)
             else if \<not> head_references_valid h then Inl Refused
             else observe_version R h v))"

definition read_head :: "environment \<Rightarrow> (head \<times> version) act" where
  "read_head X w =
     (case get_version X head_key head_limit w of
        (Inl e, w') \<Rightarrow>
          if is_err NotFound e then
            andthen (coord_read X) (\<lambda>(s, _).
              if as_protocol s = 11 \<and> as_upgrade s = None then
                (if as_mode s \<noteq> Candidate \<or> as_seal s = [] then raise ScopedUnavailable
                 else give (fresh_head 5 11 (Some picker_format), no_version))
              else give (fresh_head 4 10 None, no_version)) w'
          else (Inl e, w')
      | (Inr (raw, v), w') \<Rightarrow> (sbind (decode_live_head (x_run X) raw v) (\<lambda>h. Inr (h, v)), w'))"

definition live_head :: "environment \<Rightarrow> (head \<times> bytes) act" where
  "live_head X = andthen (read_head X) (\<lambda>(h, v). give (h, ve_etag v))"

definition write_format :: "environment \<Rightarrow> admissions \<Rightarrow> unit act" where
  "write_format X s =
     andthen (live_head X) (\<lambda>(h, _).
       lift_sum (guard (as_upgrade s = None \<and> head_coordinator_match h s) AdmissionClosed))"

subsection \<open>Changing the coordinator\<close>

text \<open>
  \<open>change\<close> runs the caller's function on the state it reads and writes the result with the next
  generation, for 64 attempts. The function may set variables of its caller: their values are
  part of its result, kept in \<open>captured\<close> from the latest attempt in which it succeeded, and handed to the
  next attempt. The result of \<open>change_rounds\<close> is that of \<open>change\<close>, then what was captured.
\<close>

definition intent_blocks :: "environment \<Rightarrow> writer \<Rightarrow> call_context \<Rightarrow> admissions \<Rightarrow> bool" where
  "intent_blocks X W C s =
     (case as_intent s of
        None \<Rightarrow> False
      | Some i \<Rightarrow> cx_intent C \<noteq> Some (wt_id W, intent_digest (x_run X) i))"

definition next_generation :: "admissions \<Rightarrow> admissions" where
  "next_generation s = s\<lparr>as_generation := as_generation s + 1\<rparr>"

text \<open>The state to write: validated, encoded and within the limit.\<close>

definition prepare_state :: "runtime \<Rightarrow> admissions \<Rightarrow> cerr + bytes" where
  "prepare_state R s =
     (let s' = next_generation s in
      if \<not> state_valid R s' then Inl Descriptor
      else
        (case r_state R s' of
           None \<Rightarrow> Inl Refused
         | Some raw \<Rightarrow> if longer raw coordinator_limit then Inl TooLarge else Inr raw))"

type_synonym 'a transition = "'a option \<Rightarrow> admissions \<Rightarrow> (admissions \<times> 'a) act"

fun change_rounds ::
  "environment \<Rightarrow> writer \<Rightarrow> call_context \<Rightarrow> 'a transition \<Rightarrow> nat \<Rightarrow> 'a option \<Rightarrow> world \<Rightarrow> ((cerr + 'a) \<times> 'a option) \<times> world" where
  "change_rounds X W C f 0 captured w = ((Inl Precondition, captured), w)"
| "change_rounds X W C f (Suc n) captured w =
     (case coord_read X w of
        (Inl e, w1) \<Rightarrow> ((Inl e, captured), w1)
      | (Inr (s, etag), w1) \<Rightarrow>
          if intent_blocks X W C s then ((Inl AdmissionClosed, captured), w1)
          else
            (case f captured s w1 of
               (Inl e, w2) \<Rightarrow> ((Inl e, captured), w2)
             | (Inr (s', a), w2) \<Rightarrow>
                 (case prepare_state (x_run X) s' of
                    Inl e \<Rightarrow> ((Inl e, Some a), w2)
                  | Inr raw \<Rightarrow>
                      (case put_conditional X coordinator_key raw \<lparr>pc_match = etag, pc_create = (etag = [])\<rparr> w2 of
                         (Inr _, w3) \<Rightarrow> ((Inr a, Some a), w3)
                       | (Inl e, w3) \<Rightarrow>
                           if is_err Precondition e then change_rounds X W C f n (Some a) w3
                           else ((Inl (Join CommitUnknown e), Some a), w3)))))"

definition change_attempts :: nat where
  "change_attempts = 64"

definition change_captured :: "environment \<Rightarrow> writer \<Rightarrow> call_context \<Rightarrow> 'a transition \<Rightarrow> world \<Rightarrow> ((cerr + 'a) \<times> 'a option) \<times> world" where
  "change_captured X W C f w =
     (if wt_readonly W then ((Inl ReadOnly, None), w) else change_rounds X W C f change_attempts None w)"

definition coord_change :: "environment \<Rightarrow> writer \<Rightarrow> call_context \<Rightarrow> 'a transition \<Rightarrow> 'a act" where
  "coord_change X W C f w = (case change_captured X W C f w of ((r, _), w') \<Rightarrow> (r, w'))"

text \<open>A function that only decides from the state.\<close>

definition pure :: "(admissions \<Rightarrow> cerr + admissions) \<Rightarrow> unit transition" where
  "pure f captured s = lift_sum (sbind (f s) (\<lambda>s'. Inr (s', ())))"

end
