(* ===== verification/CoordinatorOps.thy ===== *)
theory CoordinatorOps
  imports Coordinator
begin

text \<open>
  The operations of the coordinator (\<open>coordinator.go\<close>) and the permission to write
  (\<open>write_authority.go\<close>). The function an operation hands to \<open>change\<close> is a definition of its own, named
  \<open>*_state\<close>: what it refuses and what it writes.
\<close>

subsection \<open>Admission\<close>

definition admit_state :: "head \<Rightarrow> bytes \<Rightarrow> bytes \<Rightarrow> objref list \<Rightarrow> admissions \<Rightarrow> cerr + admissions" where
  "admit_state h owner digest refs s =
     (if map_of (owners s) owner \<noteq> None then Inl AdmissionClosed
      else if as_upgrade s \<noteq> None \<or> \<not> head_coordinator_match h s then Inl AdmissionClosed
      else if as_seal s \<noteq> [] then Inl AdmissionClosed
      else if length (owners s) \<ge> 256 then Inl Refused
      else Inr (set_owners (AList.update owner \<lparr>ad_digest = digest, ad_refs = refs, ad_journal = None\<rparr> (owners s)) s))"

definition admit :: "environment \<Rightarrow> writer \<Rightarrow> call_context \<Rightarrow> bytes \<Rightarrow> bytes \<Rightarrow> objref list \<Rightarrow> unit act" where
  "admit X W C owner digest refs =
     (if wt_readonly W then raise ReadOnly
      else andthen (live_head X) (\<lambda>(h, _).
        if owner = [] \<or> longer owner 512 \<or> digest = [] \<or> length refs > 256 then raise Refused
        else if list_ex (\<lambda>r. rkey r = [] \<or> rsha r = []) refs then raise Refused
        else coord_change X W C (pure (admit_state h owner digest refs))))"

definition complete_state :: "bytes \<Rightarrow> bytes \<Rightarrow> admissions \<Rightarrow> cerr + admissions" where
  "complete_state owner digest s =
     (if as_hold s \<noteq> [] then Inl AdmissionClosed
      else
        (case map_of (owners s) owner of
           None \<Rightarrow> Inr s
         | Some prior \<Rightarrow>
             if ad_digest prior \<noteq> digest then Inl MutationReuse
             else if ad_journal prior \<noteq> None then Inl AdmissionClosed
             else Inr (set_owners (AList.delete owner (owners s)) s)))"

definition complete :: "environment \<Rightarrow> writer \<Rightarrow> call_context \<Rightarrow> bytes \<Rightarrow> bytes \<Rightarrow> unit act" where
  "complete X W C owner digest = coord_change X W C (pure (complete_state owner digest))"

subsection \<open>Seal, hold and release\<close>

definition seal_state :: "bytes \<Rightarrow> admissions \<Rightarrow> cerr + admissions" where
  "seal_state owner s = (if as_seal s \<noteq> [] then Inl AdmissionClosed else Inr (s\<lparr>as_seal := owner\<rparr>))"

definition seal :: "environment \<Rightarrow> writer \<Rightarrow> call_context \<Rightarrow> bytes act" where
  "seal X W C =
     andthen (new_mutation_id X) (\<lambda>owner.
       andthen (coord_change X W C (pure (seal_state owner))) (\<lambda>_. give owner))"

text \<open>The union of the references of the completed receipts and of their metadata objects, sorted.\<close>

definition ref_le :: "objref \<Rightarrow> objref \<Rightarrow> bool" where
  "ref_le a b = (if rkey a = rkey b then rsha a \<le> rsha b else rkey a \<le> rkey b)"

fun insert_ref :: "objref \<Rightarrow> objref list \<Rightarrow> objref list" where
  "insert_ref r [] = [r]"
| "insert_ref r (x # xs) = (if ref_le r x then r # x # xs else x # insert_ref r xs)"

fun compact :: "objref list \<Rightarrow> objref list" where
  "compact (a # b # xs) = (if a = b then compact (b # xs) else a # compact (b # xs))"
| "compact xs = xs"

definition receipt_refs :: "admission \<Rightarrow> objref list" where
  "receipt_refs a =
     ad_refs a @ [\<lparr>rkey = ''catalog-v4/metadata/'' @ ad_digest a @ ''.json'', rsha = ad_digest a\<rparr>]"

definition completed_references :: "admissions \<Rightarrow> objref list" where
  "completed_references s =
     compact (foldr insert_ref (concat (map (\<lambda>(_, a). receipt_refs a) (as_completed s))) [])"

definition hold_state :: "bytes \<Rightarrow> bytes \<Rightarrow> admissions \<Rightarrow> cerr + admissions" where
  "hold_state owner hold s =
     (if as_upgrade s \<noteq> None \<or> owner = [] \<or> as_seal s \<noteq> owner \<or> owners s \<noteq> [] \<or> as_hold s \<noteq> []
      then Inl AdmissionClosed else Inr (s\<lparr>as_hold := hold\<rparr>))"

text \<open>\<open>HeldBarrier(owner).Hold\<close>: the protected references and the new hold, which its release needs.\<close>

definition hold_barrier :: "environment \<Rightarrow> writer \<Rightarrow> call_context \<Rightarrow> bytes \<Rightarrow> (objref list \<times> bytes) act" where
  "hold_barrier X W C owner =
     andthen (new_mutation_id X) (\<lambda>hold.
       andthen (coord_change X W C (\<lambda>_ s. lift_sum (sbind (hold_state owner hold s) (\<lambda>s'. Inr (s', completed_references s')))))
         (\<lambda>protected. give (protected, hold)))"

definition release_held_state :: "bytes \<Rightarrow> bytes \<Rightarrow> admissions \<Rightarrow> cerr + admissions" where
  "release_held_state owner hold s =
     (if as_seal s \<noteq> owner \<or> as_hold s \<noteq> hold \<or> hold = [] \<or> owners s \<noteq> [] \<or> as_gc_link s \<noteq> None
      then Inl AdmissionClosed else Inr (s\<lparr>as_hold := [], as_seal := []\<rparr>))"

text \<open>The function \<open>Hold\<close> returns: it drops the error.\<close>

definition release_held :: "environment \<Rightarrow> writer \<Rightarrow> call_context \<Rightarrow> bytes \<Rightarrow> bytes \<Rightarrow> unit act" where
  "release_held X W C owner hold = coord_change X W C (pure (release_held_state owner hold))"

definition release_state :: "bytes \<Rightarrow> admissions \<Rightarrow> cerr + admissions" where
  "release_state owner s =
     (if as_seal s \<noteq> owner \<or> owners s \<noteq> [] \<or> as_hold s \<noteq> [] \<or> as_gc_link s \<noteq> None
      then Inl AdmissionClosed else Inr (s\<lparr>as_seal := []\<rparr>))"

definition release :: "environment \<Rightarrow> writer \<Rightarrow> call_context \<Rightarrow> bytes \<Rightarrow> unit act" where
  "release X W C owner =
     (if owner = [] then raise AdmissionClosed else coord_change X W C (pure (release_state owner)))"

definition recover_unleased_state :: "bytes \<Rightarrow> u64 \<Rightarrow> admissions \<Rightarrow> cerr + admissions" where
  "recover_unleased_state owner generation s =
     (if owner = [] \<or> as_seal s \<noteq> owner \<or> as_generation s \<noteq> generation \<or> as_hold s \<noteq> [] \<or> as_gc_link s \<noteq> None \<or>
         owners s \<noteq> []
      then Inl Conflict else Inr (s\<lparr>as_seal := []\<rparr>))"

definition recover_unleased_seal :: "environment \<Rightarrow> writer \<Rightarrow> call_context \<Rightarrow> bytes \<Rightarrow> u64 \<Rightarrow> unit act" where
  "recover_unleased_seal X W C owner generation =
     coord_change X W C (pure (recover_unleased_state owner generation))"

subsection \<open>Activation\<close>

definition activate_state :: "bytes \<Rightarrow> bytes \<Rightarrow> admissions \<Rightarrow> cerr + admissions" where
  "activate_state owner proof s =
     (if as_upgrade s \<noteq> None \<or> as_seal s \<noteq> owner \<or> owners s \<noteq> [] \<or> as_hold s \<noteq> []
      then Inl AdmissionClosed else Inr (s\<lparr>as_mode := Active, as_proof := proof\<rparr>))"

definition activate :: "environment \<Rightarrow> writer \<Rightarrow> call_context \<Rightarrow> bytes \<Rightarrow> bytes \<Rightarrow> unit act" where
  "activate X W C owner proof =
     (if proof = [] then raise Refused else coord_change X W C (pure (activate_state owner proof)))"

definition coord_active :: "environment \<Rightarrow> unit act" where
  "coord_active X =
     andthen (coord_read X) (\<lambda>(s, _). lift_sum (guard (as_mode s = Active \<and> as_proof s \<noteq> []) Refused))"

definition deactivate_state :: "bytes \<Rightarrow> admissions \<Rightarrow> cerr + admissions" where
  "deactivate_state owner s =
     (if as_seal s \<noteq> owner \<or> owners s \<noteq> [] \<or> as_hold s \<noteq> []
      then Inl AdmissionClosed else Inr (s\<lparr>as_mode := Rollback\<rparr>))"

text \<open>
  \<open>changeIntent\<close> runs \<open>change\<close> with the authority of an intent. After an error it reads the object again:
  exactly the bytes it meant to write count as success.
\<close>

definition expecting :: "runtime \<Rightarrow> unit transition \<Rightarrow> bytes transition" where
  "expecting R f captured s =
     andthen (f None s) (\<lambda>(s', _).
       lift_sum (case r_state R (next_generation s') of None \<Rightarrow> Inl Refused | Some raw \<Rightarrow> Inr (s', raw)))"

definition change_intent :: "environment \<Rightarrow> writer \<Rightarrow> call_context \<Rightarrow> intent \<Rightarrow> unit transition \<Rightarrow> unit act" where
  "change_intent X W C i f w =
     (let C' = C\<lparr>cx_intent := Some (wt_id W, intent_digest (x_run X) i)\<rparr> in
      case change_captured X W C' (expecting (x_run X) f) w of
        ((Inr _, _), w') \<Rightarrow> (Inr (), w')
      | ((Inl e, None), w') \<Rightarrow> (Inl e, w')
      | ((Inl e, Some expected), w') \<Rightarrow>
          if expected = [] then (Inl e, w')
          else
            (case get_version X coordinator_key coordinator_limit w' of
               (Inr (actual, _), w2) \<Rightarrow> (if actual = expected then Inr () else Inl e, w2)
             | (Inl e2, w2) \<Rightarrow> (Inl (Join e e2), w2)))"

definition deactivate :: "environment \<Rightarrow> writer \<Rightarrow> call_context \<Rightarrow> bytes \<Rightarrow> unit act" where
  "deactivate X W C owner =
     (case cx_intent C of
        None \<Rightarrow> coord_change X W C (pure (deactivate_state owner))
      | Some (writer, digest) \<Rightarrow>
          andthen (coord_read X) (\<lambda>(s, _).
            case as_intent s of
              None \<Rightarrow> raise AdmissionClosed
            | Some i \<Rightarrow>
                if writer \<noteq> wt_id W \<or> digest \<noteq> intent_digest (x_run X) i then raise AdmissionClosed
                else change_intent X W C i (pure (deactivate_state owner))))"

subsection \<open>Permission to write\<close>

definition upgrade_permits :: "writer \<Rightarrow> call_context \<Rightarrow> write_authority \<Rightarrow> upgrade \<Rightarrow> admissions \<Rightarrow> bool" where
  "upgrade_permits W C a u s =
     ((up_phase u = UpDraining \<and> wa_owner a \<noteq> [] \<and>
       (case map_of (owners s) (wa_owner a) of
          None \<Rightarrow> False
        | Some o' \<Rightarrow> ad_digest o' = wa_digest a \<and> as_protocol s = 10 \<and> as_hold s = [])) \<or>
      \<not> (cx_upgrade C \<noteq> Some (wt_id W, up_owner u) \<or> as_seal s \<noteq> up_owner u \<or> owners s \<noteq> [] \<or> as_hold s \<noteq> []))"

definition ordinary_permits :: "write_authority \<Rightarrow> admissions \<Rightarrow> bool" where
  "ordinary_permits a s =
     (as_intent s = None \<and>
      (if wa_seal a \<noteq> [] then \<not> (as_seal s \<noteq> wa_seal a \<or> as_hold s \<noteq> [] \<or> owners s \<noteq> [])
       else
         (case map_of (owners s) (wa_owner a) of
            None \<Rightarrow> False
          | Some o' \<Rightarrow> \<not> (ad_digest o' \<noteq> wa_digest a \<or> as_hold s \<noteq> []))))"

definition check_authority :: "environment \<Rightarrow> writer \<Rightarrow> call_context \<Rightarrow> unit act" where
  "check_authority X W C =
     (if wt_readonly W then raise ReadOnly
      else andthen (context_err X) (\<lambda>_.
        case cx_write C of
          None \<Rightarrow> raise AdmissionClosed
        | Some a \<Rightarrow>
            if wa_writer a \<noteq> wt_id W then raise AdmissionClosed
            else andthen (coord_read X) (\<lambda>(s, _).
              case as_upgrade s of
                Some u \<Rightarrow> lift_sum (guard (upgrade_permits W C a u s) AdmissionClosed)
              | None \<Rightarrow>
                  andthen (if as_protocol s = 11 then write_format X s else give ()) (\<lambda>_.
                    lift_sum (guard (ordinary_permits a s) AdmissionClosed)))))"

end
