(* ===== verification/Publication.thy ===== *)
theory Publication
  imports CoordinatorOps
begin

text \<open>
  Publication under the coordinator: \<open>Store.BeginPublication\<close>, \<open>CompletePublication\<close> and
  \<open>EndPublicationAttempt\<close> (\<open>coordinator.go\<close>), the claim every subordinate write checks
  (\<open>publication_claim.go\<close>), the transfer of a journal's owner (\<open>journal_publication.go\<close>) and the collector
  guard that a journal claim holds (\<open>internal/local/collector_guard.go\<close>). The state of a process is its
  world, the four maps of \<open>Store\<close>, the claims it has made (the address of a claim is its position) and
  the guard. \<open>local_env\<close> answers what the guard and the journal's owner read from local files, and
  decodes metadata and receipts.
\<close>

subsection \<open>Data\<close>

record claim =
  cl_id :: bytes
  cl_owner :: bytes
  cl_digest :: bytes
  cl_refs :: "objref list"
  cl_journal :: "journal option"
  cl_release :: bool
  cl_replay :: bool

record guard_state =
  g_held :: bool
  g_origin :: bytes
  g_active :: nat
  g_claims :: "bytes \<Rightarrow> bool"

record process =
  ps_world :: world
  ps_destination :: bytes
  ps_pending :: "bytes \<rightharpoonup> bytes"
  ps_running :: "bytes \<Rightarrow> bool"
  ps_claims :: "bytes \<rightharpoonup> nat"
  ps_owners :: "bytes \<rightharpoonup> bytes"
  ps_heap :: "claim list"
  ps_guard :: guard_state

record receipt =
  rc_digest :: bytes
  rc_revision :: bytes
  rc_session :: bytes
  rc_metadata :: bytes

record local_env = environment +
  y_guard_files :: "nat \<Rightarrow> cerr + unit"
  y_persisted :: "nat \<Rightarrow> journal \<Rightarrow> bytes \<Rightarrow> cerr + unit"
  y_removal :: "nat \<Rightarrow> cerr + journal"
  y_tree :: "nat \<Rightarrow> fault list"
  y_nodes :: cenv
  y_metadata_in :: "bytes \<Rightarrow> metadata option"
  y_receipt_in :: "bytes \<Rightarrow> receipt option"

type_synonym 'a pact = "(process, cerr, 'a) step"

definition env_of :: "local_env \<Rightarrow> environment" where
  "env_of Y = environment.truncate Y"

definition on_world :: "'a act \<Rightarrow> 'a pact" where
  "on_world m p = (case m (ps_world p) of (r, w) \<Rightarrow> (r, p\<lparr>ps_world := w\<rparr>))"

definition get_process :: "process pact" where
  "get_process p = (Inr p, p)"

definition update_process :: "(process \<Rightarrow> process) \<Rightarrow> unit pact" where
  "update_process f p = (Inr (), f p)"

definition now :: "process \<Rightarrow> nat" where
  "now p = w_calls (ps_world p)"

subsection \<open>The collector guard\<close>

definition guard_validate :: "local_env \<Rightarrow> unit pact" where
  "guard_validate Y p = (if \<not> g_held (ps_guard p) then Inl Refused else y_guard_files Y (now p), p)"

definition guard_origin :: "local_env \<Rightarrow> bytes pact" where
  "guard_origin Y = andthen (guard_validate Y) (\<lambda>_. andthen get_process (\<lambda>p. give (g_origin (ps_guard p))))"

definition begin_operation :: "local_env \<Rightarrow> bytes \<Rightarrow> unit pact" where
  "begin_operation Y origin =
     andthen (guard_validate Y) (\<lambda>_. andthen get_process (\<lambda>p.
       if origin \<noteq> g_origin (ps_guard p) then raise Refused
       else update_process (\<lambda>p. p\<lparr>ps_guard := (ps_guard p)\<lparr>g_active := Suc (g_active (ps_guard p))\<rparr>\<rparr>)))"

definition end_operation :: "process \<Rightarrow> process" where
  "end_operation p = p\<lparr>ps_guard := (ps_guard p)\<lparr>g_active := g_active (ps_guard p) - 1\<rparr>\<rparr>"

definition claim_journal :: "local_env \<Rightarrow> bytes \<Rightarrow> bytes \<Rightarrow> unit pact" where
  "claim_journal Y origin owner =
     andthen (begin_operation Y origin) (\<lambda>_. andthen get_process (\<lambda>p.
       if g_claims (ps_guard p) owner then andthen (update_process end_operation) (\<lambda>_. raise Refused)
       else update_process (\<lambda>p. p\<lparr>ps_guard := (ps_guard p)\<lparr>g_claims := (g_claims (ps_guard p))(owner := True)\<rparr>\<rparr>)))"

definition release_claim :: "bytes \<Rightarrow> process \<Rightarrow> process" where
  "release_claim owner p =
     end_operation (p\<lparr>ps_guard := (ps_guard p)\<lparr>g_claims := (g_claims (ps_guard p))(owner := False)\<rparr>\<rparr>)"

subsection \<open>The frozen input of a publication\<close>

definition canonical_source :: "bytes \<Rightarrow> source_ref \<Rightarrow> bool" where
  "canonical_source canonical r =
     (case hex_decode (sr_sha r) of
        None \<Rightarrow> False
      | Some digest \<Rightarrow>
          length digest = 32 \<and> sr_sha r = hex_encode digest \<and>
          sr_key r = take (length canonical - length ''metadata.json'') canonical @ ''source.'' @ sr_sha r @ ''.jsonl.gz'')"

definition canonical_source_references :: "metadata \<Rightarrow> cerr + source_ref list" where
  "canonical_source_references m =
     (case metadata_object_key (md_harness m) (md_session m) of
        Inl _ \<Rightarrow> Inl Refused
      | Inr canonical \<Rightarrow>
          (case source_references m of
             Inl _ \<Rightarrow> Inl Refused
           | Inr refs \<Rightarrow> if list_all (canonical_source canonical) refs then Inr refs else Inl Refused))"

definition publication_admission :: "local_env \<Rightarrow> bytes \<Rightarrow> cerr + (objref list \<times> bytes)" where
  "publication_admission Y raw =
     (if raw = [] \<or> longer raw 33554432 then Inl TooLarge
      else
        (case y_metadata_in Y raw of
           None \<Rightarrow> Inl Refused
         | Some m \<Rightarrow>
             sbind (canonical_source_references m) (\<lambda>sources.
               if length sources > 256 then Inl Refused
               else if list_ex (\<lambda>r. longer (sr_key r) 4096) sources then Inl Refused
               else Inr (map (\<lambda>r. \<lparr>rkey = sr_key r, rsha = sr_sha r\<rparr>) sources, t_sha (x_run Y) raw))))"

subsection \<open>Ordinary publication\<close>

definition pending_prefix :: "bytes \<Rightarrow> bytes" where
  "pending_prefix sid = ''pending/'' @ sid @ ''/''"

definition transfer_state :: "bytes \<Rightarrow> bytes \<Rightarrow> bytes \<Rightarrow> objref list \<Rightarrow> admissions \<Rightarrow> cerr + admissions" where
  "transfer_state old_owner owner digest refs s =
     (case map_of (owners s) old_owner of
        None \<Rightarrow> Inl AdmissionClosed
      | Some previous \<Rightarrow>
          if ad_digest previous \<noteq> digest \<or> ad_journal previous \<noteq> None \<or> as_seal s \<noteq> [] \<or> as_hold s \<noteq> [] then Inl AdmissionClosed
          else Inr (set_owners (AList.update owner \<lparr>ad_digest = digest, ad_refs = refs, ad_journal = None\<rparr>
                 (AList.delete old_owner (owners s))) s))"

definition open_state :: "bytes \<Rightarrow> bytes \<Rightarrow> bytes \<Rightarrow> objref list \<Rightarrow> admissions \<Rightarrow> cerr + admissions" where
  "open_state sid owner digest refs s =
     (if as_seal s \<noteq> [] \<or> as_hold s \<noteq> [] \<or> length (owners s) \<ge> 256 then Inl AdmissionClosed
      else if list_ex (\<lambda>(active, _). has_prefix active (pending_prefix sid)) (owners s) then Inl AdmissionClosed
      else Inr (set_owners (AList.update owner \<lparr>ad_digest = digest, ad_refs = refs, ad_journal = None\<rparr> (owners s)) s))"

text \<open>The claim is made and entered in the four maps.\<close>

definition enter_claim :: "claim \<Rightarrow> process \<Rightarrow> process" where
  "enter_claim c p =
     p\<lparr>ps_heap := ps_heap p @ [c],
       ps_pending := (ps_pending p)(cl_id c \<mapsto> cl_digest c),
       ps_running := (ps_running p)(cl_id c := True),
       ps_claims := (ps_claims p)(cl_id c \<mapsto> length (ps_heap p)),
       ps_owners := (ps_owners p)(cl_id c \<mapsto> cl_owner c)\<rparr>"

text \<open>The result is the context that carries the new claim: its address.\<close>

definition begin_publication :: "local_env \<Rightarrow> writer \<Rightarrow> call_context \<Rightarrow> bytes \<Rightarrow> bytes \<Rightarrow> nat pact" where
  "begin_publication Y W C sid metadata =
     (let X = env_of Y in
      andthen (on_world (live_head X)) (\<lambda>_.
      if sid = [] \<or> longer sid 455 then raise Refused
      else andthen (on_world (coord_read X)) (\<lambda>(s, _).
      andthen (on_world (write_format X s)) (\<lambda>_.
      andthen (lift_sum (publication_admission Y metadata)) (\<lambda>(refs, digest).
      andthen (on_world (new_mutation_id X)) (\<lambda>invocation.
      andthen get_process (\<lambda>p.
      if ps_running p sid then raise AdmissionClosed
      else
        (let owner = pending_prefix sid @ invocation;
             entered = (case ps_pending p sid of
                 Some prior \<Rightarrow>
                   if prior \<noteq> digest then raise MutationReuse
                   else on_world (coord_change X W C (pure (transfer_state
                     (case ps_owners p sid of None \<Rightarrow> [] | Some o' \<Rightarrow> o') owner digest refs)))
               | None \<Rightarrow> on_world (coord_change X W C (pure (open_state sid owner digest refs)))) in
         andthen entered (\<lambda>_.
         andthen (update_process (enter_claim \<lparr>cl_id = sid, cl_owner = owner, cl_digest = digest, cl_refs = refs,
             cl_journal = None, cl_release = False, cl_replay = False\<rparr>)) (\<lambda>_.
         give (length (ps_heap p))))))))))))"

subsection \<open>The claim a subordinate operation checks\<close>

definition claim_at :: "process \<Rightarrow> nat option \<Rightarrow> claim option" where
  "claim_at p a = (case a of None \<Rightarrow> None | Some i \<Rightarrow> if i < length (ps_heap p) then Some (ps_heap p ! i) else None)"

definition claim_running :: "process \<Rightarrow> nat option \<Rightarrow> bool" where
  "claim_running p a =
     (case claim_at p a of
        None \<Rightarrow> False
      | Some c \<Rightarrow> \<not> cl_replay c \<and> ps_running p (cl_id c) \<and> ps_claims p (cl_id c) = a)"

definition claim_admitted :: "claim \<Rightarrow> head \<Rightarrow> admissions \<Rightarrow> bool" where
  "claim_admitted c h s =
     (\<not> (\<not> head_coordinator_match h s \<or> (case as_upgrade s of None \<Rightarrow> False | Some u \<Rightarrow> up_phase u \<noteq> UpDraining)) \<and>
      (case map_of (owners s) (cl_owner c) of
         None \<Rightarrow> False
       | Some owner \<Rightarrow>
           \<not> (ad_digest owner \<noteq> cl_digest c \<or> as_hold s \<noteq> [] \<or> length (ad_refs owner) \<noteq> length (cl_refs c)) \<and>
           \<not> (cl_journal c \<noteq> None \<and> ad_journal owner \<noteq> cl_journal c) \<and>
           list_all (\<lambda>(r, r'). r = r') (zip (ad_refs owner) (cl_refs c))))"

definition check_claim_origin :: "local_env \<Rightarrow> claim \<Rightarrow> unit pact" where
  "check_claim_origin Y c =
     (case cl_journal c of
        None \<Rightarrow> give ()
      | Some j \<Rightarrow> (\<lambda>p. case guard_origin Y p of
            (Inr origin, p') \<Rightarrow> (if origin = jn_origin j then Inr () else Inl AdmissionClosed, p')
          | (Inl _, p') \<Rightarrow> (Inl AdmissionClosed, p')))"

definition publication_claim :: "local_env \<Rightarrow> nat option \<Rightarrow> claim pact" where
  "publication_claim Y a =
     (let X = env_of Y in
      andthen (on_world (context_err X)) (\<lambda>_. andthen get_process (\<lambda>p.
      case claim_at p a of
        None \<Rightarrow> raise AdmissionClosed
      | Some c \<Rightarrow>
          if \<not> claim_running p a then raise AdmissionClosed
          else andthen (check_claim_origin Y c) (\<lambda>_.
            andthen (on_world (coord_read X)) (\<lambda>(s, _). andthen (on_world (live_head X)) (\<lambda>(h, _).
              if claim_admitted c h s then give c else raise AdmissionClosed))))))"

text \<open>A source object of the claim: created, or found with exactly these bytes.\<close>

definition get_limited_object :: "environment \<Rightarrow> bytes \<Rightarrow> int \<Rightarrow> bytes act" where
  "get_limited_object X key limit = andthen (get_version X key limit) (\<lambda>(raw, _). give raw)"

definition put_claimed_source :: "local_env \<Rightarrow> nat option \<Rightarrow> bytes \<Rightarrow> bytes \<Rightarrow> unit pact" where
  "put_claimed_source Y a key raw =
     (let X = env_of Y in
      andthen (publication_claim Y a) (\<lambda>c.
      if \<lparr>rkey = key, rsha = t_sha (x_run X) raw\<rparr> \<notin> set (cl_refs c) then raise Refused
      else on_world (\<lambda>w. case put_conditional X key raw \<lparr>pc_match = [], pc_create = True\<rparr> w of
          (Inr _, w1) \<Rightarrow> (Inr (), w1)
        | (Inl e, w1) \<Rightarrow>
            (case get_limited_object X key (int (length raw)) w1 of
               (Inl e2, w2) \<Rightarrow> (Inl (Join e e2), w2)
             | (Inr existing, w2) \<Rightarrow> if existing \<noteq> raw then (Inl ChecksumMismatch, w2) else context_err X w2))))"

subsection \<open>Journals\<close>

definition same_journal_admission :: "admission \<Rightarrow> journal \<Rightarrow> bytes \<Rightarrow> objref list \<Rightarrow> bool" where
  "same_journal_admission a j digest refs = (ad_journal a = Some j \<and> ad_digest a = digest \<and> ad_refs a = refs)"

text \<open>The result says whether the journal is already completed: then nothing may be written.\<close>

definition journal_state ::
  "head \<Rightarrow> journal \<Rightarrow> bytes \<Rightarrow> bytes \<Rightarrow> bytes \<Rightarrow> objref list \<Rightarrow> admissions \<Rightarrow> cerr + (admissions \<times> bool)" where
  "journal_state h j sid owner digest refs s =
     (if as_hold s \<noteq> [] \<or> as_gc_link s \<noteq> None then Inl AdmissionClosed
      else
        (case map_of (as_completed s) (jn_owner j) of
           Some r \<Rightarrow> if same_journal_admission r j digest refs then Inr (s, True) else Inl MutationReuse
         | None \<Rightarrow>
             (let prior = filter (\<lambda>(active, _). has_prefix active (pending_prefix sid)) (owners s) in
              if length prior > 1 \<or> list_ex (\<lambda>(_, a). \<not> same_journal_admission a j digest refs) prior then Inl AdmissionClosed
              else if writer_protocol j \<noteq> hd_protocol h \<or> \<not> head_coordinator_match h s then Inl AdmissionClosed
              else if prior = [] \<and> (as_seal s \<noteq> [] \<or> length (owners s) \<ge> 256) then Inl AdmissionClosed
              else
                (let rest = (case prior of [] \<Rightarrow> owners s | (active, _) # _ \<Rightarrow> AList.delete active (owners s)) in
                 Inr (set_owners (AList.update owner \<lparr>ad_digest = digest, ad_refs = refs, ad_journal = Some j\<rparr> rest) s,
                   False)))))"

definition begin_journal_claimed ::
  "local_env \<Rightarrow> writer \<Rightarrow> call_context \<Rightarrow> head \<Rightarrow> bytes \<Rightarrow> bytes \<Rightarrow> journal \<Rightarrow> (nat \<times> bool) pact" where
  "begin_journal_claimed Y W C h sid raw j =
     (let X = env_of Y in
      andthen get_process (\<lambda>p.
      if ps_destination p = [] \<or> ps_destination p \<noteq> jn_destination j \<or> ps_running p sid then raise AdmissionClosed
      else andthen (on_world (context_err X)) (\<lambda>_.
      andthen (guard_origin Y) (\<lambda>_.
      andthen (\<lambda>p. (y_persisted Y (now p) j raw, p)) (\<lambda>_.
      andthen (on_world (context_err X)) (\<lambda>_.
      andthen (lift_sum (publication_admission Y raw)) (\<lambda>(refs, digest).
      andthen (on_world (new_mutation_id X)) (\<lambda>invocation.
      (let owner = pending_prefix sid @ invocation in
       andthen (on_world (coord_change X W C (\<lambda>_ s. lift_sum (journal_state h j sid owner digest refs s)))) (\<lambda>completed.
       andthen (update_process (enter_claim \<lparr>cl_id = sid, cl_owner = owner, cl_digest = digest, cl_refs = refs,
           cl_journal = Some j, cl_release = True, cl_replay = completed\<rparr>)) (\<lambda>_.
       give (length (ps_heap p), completed))))))))))))"

text \<open>An error after the journal is claimed gives the claim back.\<close>

definition begin_journal_publication ::
  "local_env \<Rightarrow> writer \<Rightarrow> call_context \<Rightarrow> bytes \<Rightarrow> bytes \<Rightarrow> journal \<Rightarrow> (nat \<times> bool) pact" where
  "begin_journal_publication Y W C sid raw j =
     andthen (on_world (live_head (env_of Y))) (\<lambda>(h, _).
     if \<not> journal_valid j \<or> jn_mutation j \<noteq> sid then raise AdmissionClosed
     else andthen (claim_journal Y (jn_origin j) (jn_owner j)) (\<lambda>_. \<lambda>p.
       case begin_journal_claimed Y W C h sid raw j p of
         (Inr r, p') \<Rightarrow> (Inr r, p')
       | (Inl e, p') \<Rightarrow> (Inl e, release_claim (jn_owner j) p')))"

definition complete_journal_state :: "claim \<Rightarrow> journal \<Rightarrow> admissions \<Rightarrow> cerr + admissions" where
  "complete_journal_state c j s =
     (if as_hold s \<noteq> [] \<or> as_gc_link s \<noteq> None then Inl AdmissionClosed
      else
        (case map_of (owners s) (cl_owner c) of
           None \<Rightarrow> Inl AdmissionClosed
         | Some a \<Rightarrow>
             if \<not> same_journal_admission a j (cl_digest c) (cl_refs c) then Inl AdmissionClosed
             else if length (as_completed s) \<ge> 256 then Inl Refused
             else Inr (set_owners (AList.delete (cl_owner c) (owners s))
                    (s\<lparr>as_completed := AList.update (jn_owner j) a (as_completed s)\<rparr>))))"

text \<open>The receipt tree of the head, read at one moment: its nodes never change.\<close>

definition tree_lookup :: "local_env \<Rightarrow> objref \<Rightarrow> bytes \<Rightarrow> bytes option act" where
  "tree_lookup Y root key w =
     (let w' = arrive (env_of Y) w in
      (case fst (lookup (y_nodes Y) root key \<lparr>objs = (\<lambda>k. map_option fst (w_objects w' k)), faults = y_tree Y (w_calls w)\<rparr>) of
         Inl _ \<Rightarrow> Inl Refused
       | Inr r \<Rightarrow> Inr r, w'))"

definition verify_journal_commit :: "local_env \<Rightarrow> claim \<Rightarrow> journal \<Rightarrow> unit act" where
  "verify_journal_commit Y c j =
     andthen (live_head (env_of Y)) (\<lambda>(h, _).
     andthen (tree_lookup Y (hd_receipts h) (cl_id c)) (\<lambda>raw.
       case raw of
         None \<Rightarrow> raise Refused
       | Some raw \<Rightarrow>
           (case (if raw = [] then None else y_receipt_in Y raw) of
              None \<Rightarrow> raise Refused
            | Some r \<Rightarrow>
                if rc_metadata r \<noteq> cl_digest c \<or> rc_revision r = [] \<or>
                   \<not> has_suffix (rc_session r) (''/'' @ jn_session j @ ''/metadata.json'')
                then raise Refused else give ())))"

definition complete_journal :: "local_env \<Rightarrow> writer \<Rightarrow> call_context \<Rightarrow> claim \<Rightarrow> journal \<Rightarrow> unit act" where
  "complete_journal Y W C c j =
     andthen (verify_journal_commit Y c j) (\<lambda>_. coord_change (env_of Y) W C (pure (complete_journal_state c j)))"

definition set_claim :: "nat \<Rightarrow> (claim \<Rightarrow> claim) \<Rightarrow> process \<Rightarrow> process" where
  "set_claim i f p = p\<lparr>ps_heap := (ps_heap p)[i := f (ps_heap p ! i)]\<rparr>"

definition drop_maps :: "bytes \<Rightarrow> process \<Rightarrow> process" where
  "drop_maps sid p = p\<lparr>ps_pending := (ps_pending p)(sid := None), ps_owners := (ps_owners p)(sid := None)\<rparr>"

definition drop_running :: "bytes \<Rightarrow> process \<Rightarrow> process" where
  "drop_running sid p = p\<lparr>ps_running := (ps_running p)(sid := False), ps_claims := (ps_claims p)(sid := None)\<rparr>"

text \<open>The release function of a claim runs at most once.\<close>

definition run_release :: "nat \<Rightarrow> process \<Rightarrow> process" where
  "run_release i p =
     (let c = ps_heap p ! i in
      case cl_journal c of
        Some j \<Rightarrow> if cl_release c then set_claim i (\<lambda>c. c\<lparr>cl_release := False\<rparr>) (release_claim (jn_owner j) p) else p
      | None \<Rightarrow> p)"

definition complete_publication :: "local_env \<Rightarrow> writer \<Rightarrow> call_context \<Rightarrow> nat option \<Rightarrow> bytes \<Rightarrow> bytes \<Rightarrow> unit pact" where
  "complete_publication Y W C a sid metadata =
     andthen (lift_sum (publication_admission Y metadata)) (\<lambda>(_, digest). \<lambda>p.
       case publication_claim Y a p of
         (Inl _, p1) \<Rightarrow> (Inl AdmissionClosed, p1)
       | (Inr c, p1) \<Rightarrow>
           if cl_id c \<noteq> sid \<or> cl_digest c \<noteq> digest then (Inl AdmissionClosed, p1)
           else
             (case cl_journal c of
                Some j \<Rightarrow>
                  andthen (on_world (complete_journal Y W C c j)) (\<lambda>_.
                    update_process (\<lambda>p. drop_maps sid (set_claim (the a) (\<lambda>c. c\<lparr>cl_replay := True\<rparr>) p))) p1
              | None \<Rightarrow>
                  andthen (on_world (complete (env_of Y) W C (cl_owner c) digest)) (\<lambda>_.
                    update_process (\<lambda>p. drop_running sid (drop_maps sid (run_release (the a) p)))) p1))"

definition end_publication_attempt :: "bytes \<Rightarrow> process \<Rightarrow> process" where
  "end_publication_attempt sid p =
     drop_running sid (case ps_claims p sid of None \<Rightarrow> p | Some i \<Rightarrow> run_release i p)"

definition acknowledge_state :: "journal \<Rightarrow> admissions \<Rightarrow> cerr + admissions" where
  "acknowledge_state j s =
     (if as_hold s \<noteq> [] \<or> as_gc_link s \<noteq> None then Inl AdmissionClosed
      else
        (case map_of (as_completed s) (jn_owner j) of
           None \<Rightarrow> Inr s
         | Some r \<Rightarrow>
             if ad_journal r \<noteq> Some j then Inl MutationReuse
             else Inr (s\<lparr>as_completed := AList.delete (jn_owner j) (as_completed s)\<rparr>)))"

definition acknowledge_journal_removal :: "local_env \<Rightarrow> writer \<Rightarrow> call_context \<Rightarrow> unit pact" where
  "acknowledge_journal_removal Y W C =
     andthen (\<lambda>p. (y_removal Y (now p), p)) (\<lambda>j.
     andthen (begin_operation Y (jn_origin j)) (\<lambda>_. \<lambda>p.
       case (if ps_destination p = [] \<or> jn_destination j \<noteq> ps_destination p then (Inl AdmissionClosed, p)
             else on_world (coord_change (env_of Y) W C (pure (acknowledge_state j))) p) of
         (r, p') \<Rightarrow> (r, end_operation p')))"

end
