(* ===== verification/CatalogRecovery.thy ===== *)
theory CatalogRecovery
  imports CoordinatorOps
begin

text \<open>
  Garbage collection's ownership (\<open>internal/catalog/gc.go\<close>, \<open>gc_recovery.go\<close>): the lease in the head that is
  bound to the held coordinator, the check before every deletion, the release, and the recovery of a
  crashed collection. The sweep takes the set of live keys, which the marking in \<open>GcMark\<close> computes.
\<close>

subsection \<open>Reads\<close>

definition read_object :: "environment \<Rightarrow> objref \<Rightarrow> int \<Rightarrow> bytes act" where
  "read_object X ref limit =
     (case ref_validate ref of
        Inl _ \<Rightarrow> raise Refused
      | Inr _ \<Rightarrow>
          if rkey ref = [] then raise Refused
          else andthen (get_version X (rkey ref) limit) (\<lambda>(raw, _).
            if longer raw limit then raise TooLarge
            else if \<not> equal_fold (t_sha (x_run X) raw) (rsha ref) then raise ChecksumMismatch
            else give raw))"

text \<open>\<open>observeGCHead\<close>: the validated head and the hash of the same version's bytes.\<close>

definition observe_gc_head :: "environment \<Rightarrow> (head \<times> bytes \<times> bytes) act" where
  "observe_gc_head X =
     andthen (live_head X) (\<lambda>(h, etag).
     andthen (get_version X head_key head_limit) (\<lambda>(raw, v).
       if ve_etag v \<noteq> etag then raise Conflict else give (h, etag, t_sha (x_run X) raw)))"

fun mark_protected :: "environment \<Rightarrow> objref list \<Rightarrow> bytes list \<Rightarrow> bytes list act" where
  "mark_protected X [] live = give live"
| "mark_protected X (ref # refs) live =
     (if rkey ref = [] \<or> rsha ref = [] then raise Refused
      else andthen (read_object X ref 67108864) (\<lambda>_. mark_protected X refs (rkey ref # live)))"

subsection \<open>The lease\<close>

text \<open>The leased head, completed with the witness of the coordinator, is what the caller then writes.\<close>

definition bind_lease_state ::
  "runtime \<Rightarrow> bytes \<Rightarrow> bytes \<Rightarrow> head \<Rightarrow> objref list \<Rightarrow> admissions \<Rightarrow> cerr + (admissions \<times> head)" where
  "bind_lease_state R etag prior_hash leased inventory s =
     (if as_seal s = [] \<or> as_hold s = [] \<or> owners s \<noteq> [] \<or> as_gc_link s \<noteq> None then Inl AdmissionClosed
      else
        (let witness = \<lparr>gw_generation = as_generation s, gw_seal = as_seal s, gw_hold = as_hold s,
               gw_inventory = inventory_hash R inventory\<rparr>;
             leased' = leased\<lparr>hd_gc := witness\<rparr> in
         Inr (s\<lparr>as_gc_link := Some \<lparr>gl_owner = hd_lease leased, gl_witness = witness,
                gl_generation = as_generation s + 1, gl_inventory = inventory, gl_prior_etag = etag,
                gl_prior_sha = prior_hash, gl_leased_sha = head_hash R leased', gl_released_sha = [],
                gl_released_head = [], gl_phase = GcPrepared\<rparr>\<rparr>, leased')))"

definition bind_gc_lease :: "environment \<Rightarrow> writer \<Rightarrow> call_context \<Rightarrow> bytes \<Rightarrow> head \<Rightarrow> objref list \<Rightarrow> head act" where
  "bind_gc_lease X W C etag leased inventory =
     andthen (observe_gc_head X) (\<lambda>(_, actual, prior_hash).
       if actual \<noteq> etag then raise Conflict
       else coord_change X W C (\<lambda>_ s. lift_sum (bind_lease_state (x_run X) etag prior_hash leased inventory s)))"

definition link_current :: "runtime \<Rightarrow> bytes \<Rightarrow> admissions \<Rightarrow> gc_link \<Rightarrow> bool" where
  "link_current R owner s l =
     (\<not> (gl_owner l \<noteq> owner \<or> as_generation s \<noteq> gl_generation l \<or> as_seal s \<noteq> gw_seal (gl_witness l) \<or>
         as_hold s \<noteq> gw_hold (gl_witness l) \<or> owners s \<noteq> []))"

text \<open>\<open>gcState\<close>: the coordinator and its link, while exactly this collection holds them.\<close>

definition gc_state :: "environment \<Rightarrow> bytes \<Rightarrow> (admissions \<times> gc_link) act" where
  "gc_state X owner =
     andthen (coord_read X) (\<lambda>(s, _).
       case as_gc_link s of
         None \<Rightarrow> raise Conflict
       | Some l \<Rightarrow>
           if \<not> link_current (x_run X) owner s l \<or>
              inventory_hash (x_run X) (gl_inventory l) \<noteq> gw_inventory (gl_witness l)
           then raise Conflict else give (s, l))"

definition verify_gc_sweep :: "environment \<Rightarrow> head \<Rightarrow> bytes \<Rightarrow> unit act" where
  "verify_gc_sweep X h etag =
     andthen (gc_state X (hd_lease h)) (\<lambda>(_, l).
       if gl_witness l \<noteq> hd_gc h \<or> gl_leased_sha l \<noteq> head_hash (x_run X) h then raise Conflict
       else andthen (live_head X) (\<lambda>(fresh, version).
         if version \<noteq> etag \<or> head_hash (x_run X) fresh \<noteq> gl_leased_sha l then raise Conflict else give ()))"

subsection \<open>The release\<close>

text \<open>\<open>validateReleasedHead\<close>: the recorded bytes are this head, released, at most one generation later.\<close>

definition validate_released_head :: "runtime \<Rightarrow> head \<Rightarrow> bytes \<Rightarrow> cerr + unit" where
  "validate_released_head R base raw =
     (case head_unmarshal R raw of
        None \<Rightarrow> Inl Conflict
      | Some released \<Rightarrow>
          if hd_generation released < hd_generation base \<or> hd_generation released > hd_generation base + 1 \<or>
             hd_epoch released = hd_epoch base
          then Inl Conflict
          else guard (head_hash R (base\<lparr>hd_lease := [], hd_gc := no_gc_witness, hd_epoch := hd_epoch released,
                 hd_generation := hd_generation released\<rparr>) = t_sha R raw) Conflict)"

text \<open>
  The function \<open>bindGCRelease\<close> hands to \<open>change\<close> assigns to the caller's head: a later attempt starts
  from the head the earlier one left. Hence the captured pair of the released bytes and the head.
\<close>

definition bind_release_step :: "environment \<Rightarrow> head \<Rightarrow> bytes \<Rightarrow> (bytes \<times> head) transition" where
  "bind_release_step X h0 owner captured s =
     (let R = x_run X; h = (case captured of None \<Rightarrow> h0 | Some (_, h) \<Rightarrow> h) in
      case as_gc_link s of
        None \<Rightarrow> raise Conflict
      | Some l \<Rightarrow>
          if \<not> link_current R owner s l then raise Conflict
          else if gl_released_sha l \<noteq> [] then
            andthen (lift_sum (validate_released_head R h (gl_released_head l))) (\<lambda>_.
              give (s\<lparr>as_gc_link := Some (l\<lparr>gl_generation := as_generation s + 1\<rparr>)\<rparr>, gl_released_head l, h))
          else
            andthen (new_mutation_id X) (\<lambda>epoch.
              let h' = h\<lparr>hd_lease := [], hd_gc := no_gc_witness, hd_epoch := epoch,
                    hd_generation := hd_generation h + 1\<rparr> in
              case r_head R h' of
                None \<Rightarrow> raise Refused
              | Some raw \<Rightarrow>
                  give (s\<lparr>as_gc_link := Some (l\<lparr>gl_released_head := raw, gl_released_sha := t_sha R raw,
                    gl_phase := GcReleasing, gl_generation := as_generation s + 1\<rparr>)\<rparr>, raw, h')))"

definition bind_gc_release :: "environment \<Rightarrow> writer \<Rightarrow> call_context \<Rightarrow> head \<Rightarrow> bytes \<Rightarrow> bytes act" where
  "bind_gc_release X W C h owner =
     andthen (coord_change X W C (bind_release_step X h owner)) (\<lambda>(raw, _). give raw)"

definition finish_state :: "bytes \<Rightarrow> admissions \<Rightarrow> gc_link \<Rightarrow> admissions \<Rightarrow> cerr + admissions" where
  "finish_state owner seen l s =
     (if as_generation s \<noteq> as_generation seen \<or> (case as_gc_link s of None \<Rightarrow> True | Some l' \<Rightarrow> gl_owner l' \<noteq> owner) \<or>
         as_hold s \<noteq> as_hold seen \<or> as_seal s \<noteq> as_seal seen \<or> owners s \<noteq> []
      then Inl Conflict
      else Inr (s\<lparr>as_gc_receipt := Some \<lparr>gc_owner = owner, gc_released = gl_released_sha l\<rparr>, as_gc_link := None,
             as_hold := [], as_seal := []\<rparr>))"

definition finish_gc_release :: "environment \<Rightarrow> writer \<Rightarrow> call_context \<Rightarrow> bytes \<Rightarrow> unit act" where
  "finish_gc_release X W C owner =
     andthen (gc_state X owner) (\<lambda>(seen, l).
     andthen (observe_gc_head X) (\<lambda>(_, _, hash).
       if gl_released_sha l = [] \<or> hash \<noteq> gl_released_sha l then raise Conflict
       else coord_change X W C (pure (finish_state owner seen l))))"

text \<open>The head is replaced by the released one, and the coordinator lets go.\<close>

definition publish_release :: "environment \<Rightarrow> writer \<Rightarrow> call_context \<Rightarrow> head \<Rightarrow> bytes \<Rightarrow> bytes \<Rightarrow> unit act" where
  "publish_release X W C h etag owner =
     andthen (bind_gc_release X W C h owner) (\<lambda>raw. \<lambda>w.
       case put_conditional X head_key raw \<lparr>pc_match = etag, pc_create = False\<rparr> w of
         (Inl e, w') \<Rightarrow> (Inl (Join CommitUnknown e), w')
       | (Inr _, w') \<Rightarrow> finish_gc_release X W C owner w')"

definition release_gc :: "environment \<Rightarrow> writer \<Rightarrow> call_context \<Rightarrow> head \<Rightarrow> bytes \<Rightarrow> unit act" where
  "release_gc X W C h etag =
     (if wt_readonly W then raise ReadOnly else publish_release X W C h etag (hd_lease h))"

subsection \<open>Collection\<close>

definition validate_clock :: "time \<times> time \<Rightarrow> cerr + unit" where
  "validate_clock = (\<lambda>(earliest, latest).
     guard (\<not> (earliest = 0 \<or> latest < earliest \<or> tsub latest earliest > minute)) Refused)"

definition preflight_clock :: "environment \<Rightarrow> (time \<times> time) act" where
  "preflight_clock X =
     andthen (server_clock X) (\<lambda>clock.
     andthen (lift_sum (validate_clock clock)) (\<lambda>_.
     andthen (live_head X) (\<lambda>(h, etag).
       if etag \<noteq> [] \<and> hw_modified (hd_pub_witness h) > snd clock + hw_precision (hd_pub_witness h) then raise Refused
       else give clock)))"

definition acquire_gc ::
  "environment \<Rightarrow> writer \<Rightarrow> call_context \<Rightarrow> head \<Rightarrow> bytes \<Rightarrow> time \<times> time \<Rightarrow> objref list \<Rightarrow> (head \<times> bytes) act" where
  "acquire_gc X W C h etag clock inventory =
     (if wt_readonly W then raise ReadOnly
      else if hd_lease h \<noteq> [] then raise Refused
      else andthen (new_mutation_id X) (\<lambda>owner.
      andthen (bind_gc_lease X W C etag
          (h\<lparr>hd_lease := owner, hd_epoch := owner, hd_generation := hd_generation h + 1\<rparr>) inventory) (\<lambda>leased.
      case r_head (x_run X) leased of
        None \<Rightarrow> raise Refused
      | Some raw \<Rightarrow>
          andthen (put_conditional X head_key raw \<lparr>pc_match = etag, pc_create = False\<rparr>) (\<lambda>lease_etag.
          if lease_etag = [] then raise Refused
          else andthen (read_head X) (\<lambda>(fresh, version).
          if hd_lease fresh \<noteq> owner \<or> ve_etag version \<noteq> lease_etag then raise Refused
          else andthen (server_clock X) (\<lambda>after_clock.
          andthen (lift_sum (validate_clock after_clock)) (\<lambda>_.
          if ve_modified version + ve_precision version < fst clock \<or> ve_modified version > snd after_clock then raise Refused
          else give (fresh, lease_etag))))))))"

definition coordinator_object :: "bytes \<Rightarrow> bool" where
  "coordinator_object key = (key = coordinator_key \<or> has_prefix key ''catalog-v4/migrations/'')"

definition metadata_key :: "bytes \<Rightarrow> bool" where
  "metadata_key key = (has_prefix key ''sessions/'' \<and> has_suffix key ''/metadata.json'')"

fun list_candidates :: "environment \<Rightarrow> bytes list \<Rightarrow> bytes list act" where
  "list_candidates X [] = give []"
| "list_candidates X (prefix # prefixes) =
     andthen (list_objects X prefix) (\<lambda>found.
       if list_ex metadata_key found then raise Refused
       else andthen (list_candidates X prefixes) (\<lambda>rest. give (found @ rest)))"

fun remove_candidates :: "environment \<Rightarrow> bytes list \<Rightarrow> head \<Rightarrow> bytes \<Rightarrow> bytes list \<Rightarrow> unit act" where
  "remove_candidates X live h etag [] = give ()"
| "remove_candidates X live h etag (key # keys) =
     (if key \<notin> set live \<and> \<not> coordinator_object key then
        andthen (verify_gc_sweep X h etag) (\<lambda>_. andthen (delete_object X key) (\<lambda>_. remove_candidates X live h etag keys))
      else remove_candidates X live h etag keys)"

definition remove_unreachable :: "environment \<Rightarrow> writer \<Rightarrow> bytes list \<Rightarrow> head \<Rightarrow> bytes \<Rightarrow> unit act" where
  "remove_unreachable X W live h etag =
     (if wt_readonly W then raise ReadOnly
      else andthen (list_candidates X [''catalog-v4/'', ''sessions/'']) (remove_candidates X live h etag))"

text \<open>\<open>bootstrapAuthority\<close>: the held coordinator seen first, which the later check wants unchanged.\<close>

definition bootstrap_authority :: "environment \<Rightarrow> (admissions \<times> bytes) act" where
  "bootstrap_authority X =
     andthen (coord_read X) (\<lambda>(s, etag).
       if as_seal s = [] \<or> as_hold s = [] \<or> owners s \<noteq> [] \<or> as_gc_link s \<noteq> None then raise AdmissionClosed
       else give (s, etag))"

definition authorize_bootstrap :: "environment \<Rightarrow> writer \<Rightarrow> writer \<Rightarrow> admissions \<times> bytes \<Rightarrow> unit act" where
  "authorize_bootstrap X W W' = (\<lambda>(seen, seen_etag).
     if wt_id W' \<noteq> wt_id W then raise AdmissionClosed
     else andthen (coord_read X) (\<lambda>(s, etag).
       if etag \<noteq> seen_etag \<or> as_generation s \<noteq> as_generation seen \<or> as_seal s \<noteq> as_seal seen \<or>
          as_hold s \<noteq> as_hold seen \<or> owners s \<noteq> [] \<or> as_gc_link s \<noteq> None
       then raise AdmissionClosed else give ()))"

definition gc_head :: "environment \<Rightarrow> writer \<Rightarrow> (unit act) option \<Rightarrow> (head \<times> bytes) act" where
  "gc_head X W authorize =
     (if wt_readonly W then raise ReadOnly
      else andthen (live_head X) (\<lambda>(h, etag).
        if etag \<noteq> [] then give (h, etag)
        else andthen (new_mutation_id X) (\<lambda>epoch.
          case r_head (x_run X) (h\<lparr>hd_generation := 1, hd_epoch := epoch, hd_pub_epoch := epoch\<rparr>) of
            None \<Rightarrow> raise Refused
          | Some raw \<Rightarrow>
              (case authorize of
                 None \<Rightarrow> raise AdmissionClosed
               | Some check \<Rightarrow>
                   andthen check (\<lambda>_.
                   andthen (put_conditional X head_key raw \<lparr>pc_match = [], pc_create = True\<rparr>) (\<lambda>_. live_head X))))))"

subsection \<open>Recovery\<close>

definition completed_gc :: "environment \<Rightarrow> bytes \<Rightarrow> unit act" where
  "completed_gc X owner =
     andthen (coord_read X) (\<lambda>(s, _).
       case as_gc_receipt s of
         None \<Rightarrow> raise Conflict
       | Some r \<Rightarrow>
           if as_gc_link s \<noteq> None \<or> owner = [] \<or> gc_owner r \<noteq> owner \<or> as_seal s \<noteq> [] \<or> as_hold s \<noteq> [] \<or> owners s \<noteq> []
           then raise Conflict
           else andthen (observe_gc_head X) (\<lambda>(_, _, hash).
             if hash \<noteq> gc_released r then raise Conflict else give ()))"

text \<open>
  \<open>recoveryCoordinator.Hold\<close>: an external barrier, when the store has one, must hold the same
  inventory; its answer here is None when it gives no release function.
\<close>

definition recovery_hold ::
  "environment \<Rightarrow> bytes \<Rightarrow> u64 \<Rightarrow> (objref list option act) option \<Rightarrow> objref list act" where
  "recovery_hold X owner generation external =
     andthen (gc_state X owner) (\<lambda>(s, l).
       if as_generation s \<noteq> generation then raise Conflict
       else
         (case external of
            None \<Rightarrow> give (gl_inventory l)
          | Some ext \<Rightarrow>
              andthen ext (\<lambda>answer.
                case answer of
                  None \<Rightarrow> raise AdmissionClosed
                | Some refs \<Rightarrow>
                    if inventory_hash (x_run X) refs \<noteq> inventory_hash (x_run X) (gl_inventory l) then raise Conflict
                    else give refs)))"

text \<open>What recovery does with the head it observes: finish, refuse, or publish the release.\<close>

definition recover_observed ::
  "environment \<Rightarrow> writer \<Rightarrow> call_context \<Rightarrow> bytes \<Rightarrow> gc_link \<Rightarrow> head \<Rightarrow> bytes \<Rightarrow> bytes \<Rightarrow> unit act" where
  "recover_observed X W C owner l h etag hash =
     (if gl_released_sha l \<noteq> [] \<and> hash = gl_released_sha l then finish_gc_release X W C owner
      else if hash = gl_leased_sha l \<and> (hd_lease h \<noteq> owner \<or> hd_gc h \<noteq> gl_witness l) then raise Conflict
      else if hash \<noteq> gl_leased_sha l \<and> (hash \<noteq> gl_prior_sha l \<or> etag \<noteq> gl_prior_etag l) then raise Conflict
      else publish_release X W C h etag owner)"

definition recover_linked_gc :: "environment \<Rightarrow> writer \<Rightarrow> call_context \<Rightarrow> bytes \<Rightarrow> unit act" where
  "recover_linked_gc X W C owner =
     (if wt_readonly W then raise ReadOnly
      else (\<lambda>w. case gc_state X owner w of
          (Inl e, w1) \<Rightarrow> (case completed_gc X owner w1 of (Inr _, w2) \<Rightarrow> (Inr (), w2) | (Inl _, w2) \<Rightarrow> (Inl e, w2))
        | (Inr (_, l), w1) \<Rightarrow>
            andthen (mark_protected X (gl_inventory l) []) (\<lambda>_.
            andthen (observe_gc_head X) (\<lambda>(h, etag, hash). recover_observed X W C owner l h etag hash)) w1))"

text \<open>\<open>RecoverGC\<close>: under a freshly held barrier, whose hold answers None when it gives no release function.\<close>

definition recover_gc ::
  "environment \<Rightarrow> writer \<Rightarrow> call_context \<Rightarrow> (objref list option act) option \<Rightarrow> bytes \<Rightarrow> unit act" where
  "recover_gc X W C barrier owner =
     (if wt_readonly W then raise ReadOnly
      else
        (case barrier of
           None \<Rightarrow> raise Refused
         | Some hold \<Rightarrow>
             if owner = [] then raise Refused
             else andthen hold (\<lambda>held.
               if held = None then raise Refused else recover_linked_gc X W C owner)))"

end
