(* ===== verification/MigrationIntent.thy ===== *)
theory MigrationIntent
  imports CatalogRecovery
begin

text \<open>
  The durable intent of a catalog migration (\<open>internal/catalog/migration_intent.go\<close>): it closes the
  coordinator to everybody but its own migration before the migration's checkpoint exists, and is
  cleared once that checkpoint is exactly what it announced. A \<open>migration_run\<close> is the part of
  \<open>Migration\<close> these functions use; its writer is an argument.
\<close>

record migration_run =
  mr_state :: migration
  mr_intent :: "intent option"
  mr_etag :: bytes

definition unchanged_head :: "environment \<Rightarrow> migration \<Rightarrow> unit act" where
  "unchanged_head X m =
     andthen (live_head X) (\<lambda>(h, etag).
       if hd_identity h \<noteq> mg_root m \<or> etag \<noteq> mg_expected m then raise Refused else give ())"

definition begin_intent_step :: "environment \<Rightarrow> migration \<Rightarrow> intent \<Rightarrow> unit transition" where
  "begin_intent_step X m i captured s =
     (case as_intent s of
        Some present \<Rightarrow>
          if intent_digest (x_run X) present = intent_digest (x_run X) i then give (s, ()) else raise AdmissionClosed
      | None \<Rightarrow>
          if as_seal s \<noteq> [] \<or> as_hold s \<noteq> [] \<or> as_gc_link s \<noteq> None \<or> owners s \<noteq> [] then raise AdmissionClosed
          else if in_kind i = InitializeIntent then
            (if as_generation s \<noteq> 0 \<or> as_mode s \<noteq> Candidate \<or> as_completed s \<noteq> [] then raise AdmissionClosed
             else give (s\<lparr>as_intent := Some i\<rparr>, ()))
          else if as_mode s \<noteq> Active \<or> as_proof s \<noteq> mg_proof m then raise AdmissionClosed
          else andthen (unchanged_head X m) (\<lambda>_. give (s\<lparr>as_intent := Some i\<rparr>, ())))"

text \<open>The migration keeps the intent also when the change fails.\<close>

definition begin_intent ::
  "environment \<Rightarrow> writer \<Rightarrow> call_context \<Rightarrow> migration_run \<Rightarrow> intent_kind \<Rightarrow> migration option \<Rightarrow> world \<Rightarrow>
     (cerr + unit) \<times> migration_run \<times> world" where
  "begin_intent X W C M kind predecessor w =
     (case preflight_clock X w of
        (Inl e, w1) \<Rightarrow> (Inl e, M, w1)
      | (Inr _, w1) \<Rightarrow>
          (let i = \<lparr>in_kind = kind, in_state = mr_state M, in_predecessor = predecessor\<rparr> in
           case change_intent X W C i (begin_intent_step X (mr_state M) i) w1 of
             (r, w2) \<Rightarrow> (r, M\<lparr>mr_intent := Some i\<rparr>, w2)))"

definition same_intent :: "runtime \<Rightarrow> intent option \<Rightarrow> intent \<Rightarrow> bool" where
  "same_intent R present i = (case present of None \<Rightarrow> False | Some j \<Rightarrow> intent_digest R j = intent_digest R i)"

definition seal_intent_state :: "runtime \<Rightarrow> migration \<Rightarrow> intent \<Rightarrow> admissions \<Rightarrow> cerr + admissions" where
  "seal_intent_state R m i s =
     (if \<not> same_intent R (as_intent s) i \<or> (as_seal s \<noteq> [] \<and> as_seal s \<noteq> mg_owner m) then Inl AdmissionClosed
      else
        (let s' = s\<lparr>as_seal := mg_owner m\<rparr> in
         Inr (if mg_protocol m = 11 then s'\<lparr>as_protocol := 11, as_picker := Some picker_format\<rparr> else s')))"

definition seal_intent :: "environment \<Rightarrow> writer \<Rightarrow> call_context \<Rightarrow> migration \<Rightarrow> intent \<Rightarrow> unit act" where
  "seal_intent X W C m i =
     andthen (preflight_clock X) (\<lambda>_. change_intent X W C i (pure (seal_intent_state (x_run X) m i)))"

definition checkpoint_phase_allowed :: "intent_kind \<Rightarrow> migration_phase \<Rightarrow> bool" where
  "checkpoint_phase_allowed kind phase =
     (\<not> (kind = InitializeIntent \<and> phase \<noteq> MgCopying \<or>
         kind = RollbackIntent \<and> phase \<noteq> MgRollbackPreparing \<and> phase \<noteq> MgRollback))"

definition check_intent_checkpoint :: "environment \<Rightarrow> migration \<Rightarrow> intent \<Rightarrow> unit act" where
  "check_intent_checkpoint X m i =
     andthen (coord_read X) (\<lambda>(s, _).
       if \<not> same_intent (x_run X) (as_intent s) i \<or> as_seal s \<noteq> mg_owner m \<or>
          (case as_intent s of None \<Rightarrow> False | Some j \<Rightarrow> \<not> intent_valid (x_run X) j s)
       then raise AdmissionClosed
       else if \<not> checkpoint_phase_allowed (in_kind i) (mg_phase m) then raise AdmissionClosed
       else if \<not> same_migration (x_run X) (m\<lparr>mg_phase := mg_phase (in_state i)\<rparr>) (in_state i) then raise AdmissionClosed
       else context_err X)"

definition clear_intent_state :: "runtime \<Rightarrow> migration \<Rightarrow> intent \<Rightarrow> admissions \<Rightarrow> cerr + admissions" where
  "clear_intent_state R m i s =
     (if \<not> same_intent R (as_intent s) i \<or> as_seal s \<noteq> mg_owner m then Inl AdmissionClosed
      else Inr (s\<lparr>as_intent := None\<rparr>))"

definition migration_limit :: int where
  "migration_limit = 65536"

definition clear_intent :: "environment \<Rightarrow> writer \<Rightarrow> call_context \<Rightarrow> migration \<Rightarrow> intent \<Rightarrow> unit act" where
  "clear_intent X W C m i =
     andthen (get_version X migration_key migration_limit) (\<lambda>(raw, _).
       if r_migration (x_run X) m \<noteq> Some raw then raise AdmissionClosed
       else change_intent X W C i (pure (clear_intent_state (x_run X) m i)))"

subsection \<open>Resuming\<close>

definition checkpoint_matches :: "runtime \<Rightarrow> migration \<Rightarrow> intent \<Rightarrow> bool" where
  "checkpoint_matches R m i =
     (case in_kind i of
        InitializeIntent \<Rightarrow> mg_phase m = MgCopying \<and> same_migration R (m\<lparr>mg_phase := MgInitializing\<rparr>) (in_state i)
      | RollbackIntent \<Rightarrow>
          (if mg_phase m = MgActive then
             (case in_predecessor i of None \<Rightarrow> False | Some p \<Rightarrow> same_migration R m p)
           else mg_phase m \<in> {MgRollbackPreparing, MgRollback} \<and>
             same_migration R (m\<lparr>mg_phase := MgRollbackPreparing\<rparr>) (in_state i))
      | OtherIntent _ \<Rightarrow> False)"

definition resume_binding :: "runtime \<Rightarrow> migration_run \<Rightarrow> bytes \<Rightarrow> intent \<Rightarrow> bool" where
  "resume_binding R M proof i =
     (let T = text_calls.truncate R; bound = in_state i; m = mr_state M in
      \<not> (destination_id T (mg_source bound) \<noteq> destination_id T (mg_source m) \<or>
         destination_id T (mg_destination bound) \<noteq> destination_id T (mg_destination m) \<or>
         mg_proof bound \<noteq> proof \<or> (mg_id m \<noteq> [] \<and> mg_id bound \<noteq> mg_id m)) \<and>
      (if mr_etag M \<noteq> [] then checkpoint_matches R m i else in_kind i = InitializeIntent))"

definition resume_intent :: "environment \<Rightarrow> migration_run \<Rightarrow> bytes \<Rightarrow> world \<Rightarrow> (cerr + migration_run) \<times> world" where
  "resume_intent X M proof =
     andthen (coord_read X) (\<lambda>(s, _).
       case as_intent s of
         None \<Rightarrow> give M
       | Some i \<Rightarrow>
           if resume_binding (x_run X) M proof i then give (M\<lparr>mr_intent := Some i, mr_state := in_state i\<rparr>)
           else raise AdmissionClosed)"

end
