(* ===== verification/CoordinatorSteps.thy ===== *)
theory CoordinatorSteps
  imports Publication MigrationIntent
begin

text \<open>
  The coordinator as a state machine: one rule of \<open>coord_step\<close> for every function the code hands to
  \<open>change\<close>, with the generation counted up and the result validated. The lock it implements is stated
  apart, and every transition is a step of that lock.
\<close>

subsection \<open>Transitions\<close>

inductive coord_step :: "runtime \<Rightarrow> admissions \<Rightarrow> admissions \<Rightarrow> bool" for R where
  admit: "admit_state h owner digest refs s = Inr s' \<Longrightarrow> state_valid R (next_generation s') \<Longrightarrow>
    coord_step R s (next_generation s')"
| complete: "complete_state owner digest s = Inr s' \<Longrightarrow> state_valid R (next_generation s') \<Longrightarrow>
    coord_step R s (next_generation s')"
| seal: "seal_state owner s = Inr s' \<Longrightarrow> state_valid R (next_generation s') \<Longrightarrow>
    coord_step R s (next_generation s')"
| hold: "hold_state owner hold s = Inr s' \<Longrightarrow> state_valid R (next_generation s') \<Longrightarrow>
    coord_step R s (next_generation s')"
| release_held: "release_held_state owner hold s = Inr s' \<Longrightarrow> state_valid R (next_generation s') \<Longrightarrow>
    coord_step R s (next_generation s')"
| release: "owner \<noteq> [] \<Longrightarrow> release_state owner s = Inr s' \<Longrightarrow> state_valid R (next_generation s') \<Longrightarrow>
    coord_step R s (next_generation s')"
| recover_seal: "recover_unleased_state owner generation s = Inr s' \<Longrightarrow> state_valid R (next_generation s') \<Longrightarrow>
    coord_step R s (next_generation s')"
| activate: "proof \<noteq> [] \<Longrightarrow> activate_state owner proof s = Inr s' \<Longrightarrow> state_valid R (next_generation s') \<Longrightarrow>
    coord_step R s (next_generation s')"
| deactivate: "deactivate_state owner s = Inr s' \<Longrightarrow> state_valid R (next_generation s') \<Longrightarrow>
    coord_step R s (next_generation s')"
| transfer: "transfer_state old owner digest refs s = Inr s' \<Longrightarrow> state_valid R (next_generation s') \<Longrightarrow>
    coord_step R s (next_generation s')"
| open_publication: "open_state sid owner digest refs s = Inr s' \<Longrightarrow> state_valid R (next_generation s') \<Longrightarrow>
    coord_step R s (next_generation s')"
| journal: "journal_state h j sid owner digest refs s = Inr (s', done') \<Longrightarrow> state_valid R (next_generation s') \<Longrightarrow>
    coord_step R s (next_generation s')"
| complete_journal: "complete_journal_state c j s = Inr s' \<Longrightarrow> state_valid R (next_generation s') \<Longrightarrow>
    coord_step R s (next_generation s')"
| acknowledge: "acknowledge_state j s = Inr s' \<Longrightarrow> state_valid R (next_generation s') \<Longrightarrow>
    coord_step R s (next_generation s')"
| bind_lease: "bind_lease_state R etag prior_hash leased inventory s = Inr (s', leased') \<Longrightarrow>
    state_valid R (next_generation s') \<Longrightarrow> coord_step R s (next_generation s')"
| bind_release: "bind_release_step X h owner captured s w = (Inr (s', a), w') \<Longrightarrow> x_run X = R \<Longrightarrow>
    state_valid R (next_generation s') \<Longrightarrow> coord_step R s (next_generation s')"
| finish_release: "finish_state owner seen l s = Inr s' \<Longrightarrow> state_valid R (next_generation s') \<Longrightarrow>
    coord_step R s (next_generation s')"
| begin_intent: "begin_intent_step X m i captured s w = (Inr (s', ()), w') \<Longrightarrow> x_run X = R \<Longrightarrow>
    state_valid R (next_generation s') \<Longrightarrow> coord_step R s (next_generation s')"
| seal_intent: "seal_intent_state R m i s = Inr s' \<Longrightarrow> state_valid R (next_generation s') \<Longrightarrow>
    coord_step R s (next_generation s')"
| clear_intent: "clear_intent_state R m i s = Inr s' \<Longrightarrow> state_valid R (next_generation s') \<Longrightarrow>
    coord_step R s (next_generation s')"

inductive_cases coord_stepE: "coord_step R s t"

lemmas state_functions =
  admit_state_def complete_state_def seal_state_def hold_state_def release_held_state_def release_state_def
  recover_unleased_state_def activate_state_def deactivate_state_def transfer_state_def open_state_def
  journal_state_def complete_journal_state_def acknowledge_state_def bind_lease_state_def finish_state_def
  seal_intent_state_def clear_intent_state_def

text \<open>What a transition may do to the lock: the owners, the seal and the hold.\<close>

definition enters :: "admissions \<Rightarrow> admissions \<Rightarrow> bool" where
  "enters s t \<longleftrightarrow> as_seal s = [] \<and> length (owners s) < 256 \<and> as_seal t = as_seal s \<and> as_hold t = as_hold s \<and>
     (\<exists>k a. owners t = AList.update k a (owners s))"

definition departs :: "admissions \<Rightarrow> admissions \<Rightarrow> bool" where
  "departs s t \<longleftrightarrow> as_hold s = [] \<and> as_seal t = as_seal s \<and> as_hold t = as_hold s \<and>
     (\<exists>k. owners t = AList.delete k (owners s))"

definition hands_over :: "admissions \<Rightarrow> admissions \<Rightarrow> bool" where
  "hands_over s t \<longleftrightarrow> as_hold s = [] \<and> as_seal t = as_seal s \<and> as_hold t = as_hold s \<and>
     (\<exists>k k' a a'. (k, a) \<in> set (owners s) \<and> ad_digest a' = ad_digest a \<and> (as_seal s \<noteq> [] \<longrightarrow> a' = a) \<and>
       owners t = AList.update k' a' (AList.delete k (owners s)))"

definition seals :: "admissions \<Rightarrow> admissions \<Rightarrow> bool" where
  "seals s t \<longleftrightarrow> as_seal s = [] \<and> as_hold t = as_hold s \<and> owners t = owners s"

definition takes_hold :: "admissions \<Rightarrow> admissions \<Rightarrow> bool" where
  "takes_hold s t \<longleftrightarrow> as_seal s \<noteq> [] \<and> owners s = [] \<and> as_hold s = [] \<and> as_seal t = as_seal s \<and> owners t = []"

definition lets_go :: "admissions \<Rightarrow> admissions \<Rightarrow> bool" where
  "lets_go s t \<longleftrightarrow> owners s = [] \<and> owners t = [] \<and> as_seal t = [] \<and> as_hold t = []"

definition keeps_lock :: "admissions \<Rightarrow> admissions \<Rightarrow> bool" where
  "keeps_lock s t \<longleftrightarrow> as_seal t = as_seal s \<and> as_hold t = as_hold s \<and> owners t = owners s"

definition lock_step :: "admissions \<Rightarrow> admissions \<Rightarrow> bool" where
  "lock_step s t \<longleftrightarrow>
     enters s t \<or> departs s t \<or> hands_over s t \<or> seals s t \<or> takes_hold s t \<or> lets_go s t \<or> keeps_lock s t"

lemmas lock_defs = enters_def departs_def hands_over_def seals_def takes_hold_def lets_go_def keeps_lock_def

lemma next_generation_fields [simp]:
  "owners (next_generation s) = owners s" "as_seal (next_generation s) = as_seal s"
  "as_hold (next_generation s) = as_hold s" "as_generation (next_generation s) = as_generation s + 1"
  "as_completed (next_generation s) = as_completed s" "as_mode (next_generation s) = as_mode s"
  "as_gc_link (next_generation s) = as_gc_link s" "as_intent (next_generation s) = as_intent s"
  "as_proof (next_generation s) = as_proof s" "as_upgrade (next_generation s) = as_upgrade s"
  by (simp_all add: next_generation_def)


subsection \<open>Every transition is a step of the lock\<close>

lemma same_journal_admissionD:
  "same_journal_admission a j digest refs \<Longrightarrow> a = \<lparr>ad_digest = digest, ad_refs = refs, ad_journal = Some j\<rparr>"
  by (cases a) (simp add: same_journal_admission_def)

lemma enters_update:
  "as_seal s = [] \<Longrightarrow> \<not> 256 \<le> length (owners s) \<Longrightarrow> lock_step s (set_owners (AList.update k a (owners s)) s)"
  by (auto simp: lock_step_def enters_def)

lemma departs_delete:
  "as_hold s = [] \<Longrightarrow> lock_step s (set_owners (AList.delete k (owners s)) (s\<lparr>as_completed := c\<rparr>))"
  "as_hold s = [] \<Longrightarrow> lock_step s (set_owners (AList.delete k (owners s)) s)"
  by (auto simp: lock_step_def departs_def)

lemma keeps_lock_step: "keeps_lock s t \<Longrightarrow> lock_step s t"
  by (simp add: lock_step_def)

lemma hands_over_step:
  "as_hold s = [] \<Longrightarrow> (k, a) \<in> set (owners s) \<Longrightarrow> ad_digest a' = ad_digest a \<Longrightarrow> (as_seal s \<noteq> [] \<Longrightarrow> a' = a) \<Longrightarrow>
   lock_step s (set_owners (AList.update k' a' (AList.delete k (owners s))) s)"
  unfolding lock_step_def hands_over_def by auto

lemma journal_step:
  assumes "journal_state h j sid owner digest refs s = Inr (s', fin)"
  shows "lock_step s s'"
proof (cases "map_of (as_completed s) (jn_owner j)")
  case (Some r)
  then show ?thesis
    using assms by (auto simp: journal_state_def lock_step_def keeps_lock_def split: if_splits)
next
  case None
  define prior where "prior = filter (\<lambda>(active, _). has_prefix active (pending_prefix sid)) (owners s)"
  show ?thesis
  proof (cases prior)
    case Nil
    then show ?thesis
      using assms None unfolding prior_def
      by (auto simp: journal_state_def Let_def intro: enters_update split: if_splits)
  next
    case (Cons ka rest)
    obtain k a where ka: "ka = (k, a)" by (cases ka)
    have "(k, a) \<in> set prior" using Cons ka by simp
    then have member: "(k, a) \<in> set (owners s)" by (simp add: prior_def)
    have "same_journal_admission a j digest refs"
      and "as_hold s = []"
      and s': "s' = set_owners (AList.update owner \<lparr>ad_digest = digest, ad_refs = refs, ad_journal = Some j\<rparr>
        (AList.delete k (owners s))) s"
      using assms None Cons ka unfolding journal_state_def prior_def [symmetric] Let_def
      by (auto split: if_splits)
    then show ?thesis
      using member by (auto dest!: same_journal_admissionD intro: hands_over_step)
  qed
qed

lemma bind_release_keeps:
  assumes "bind_release_step X h owner captured s w = (Inr (s', a), w')"
  shows "keeps_lock s s'"
  using assms unfolding bind_release_step_def Let_def
  by (auto simp: keeps_lock_def raise_def andthen_Inr split: option.splits if_splits)

lemma begin_intent_keeps:
  assumes "begin_intent_step X m i captured s w = (Inr (s', u), w')"
  shows "keeps_lock s s'"
  using assms unfolding begin_intent_step_def
  by (auto simp: keeps_lock_def raise_def andthen_Inr split: option.splits if_splits)

lemma lock_step_next [simp]: "lock_step s (next_generation t) = lock_step s t"
  by (simp add: lock_step_def lock_defs)

lemmas lock_step_intros = enters_update departs_delete keeps_lock_step hands_over_step

lemma coord_step_lock: "coord_step R s t \<Longrightarrow> lock_step s t"
proof (induction rule: coord_step.induct)
  case (journal h j sid owner digest refs s s' done')
  then show ?case by (simp add: journal_step)
next
  case (bind_release X h owner captured s w s' a w')
  then show ?case by (simp add: bind_release_keeps keeps_lock_step)
next
  case (begin_intent X m i captured s w s' w')
  then show ?case by (simp add: begin_intent_keeps keeps_lock_step)
next
  case (transfer old owner digest refs s s')
  then show ?case
    by (auto simp: transfer_state_def intro!: hands_over_step dest: map_of_SomeD split: option.splits if_splits)
next
  case (admit h owner digest refs s s')
  then show ?case by (auto simp: admit_state_def intro: enters_update split: if_splits)
next
  case (open_publication sid owner digest refs s s')
  then show ?case by (auto simp: open_state_def intro: enters_update split: if_splits)
next
  case (complete owner digest s s')
  then show ?case
    by (auto simp: complete_state_def keeps_lock_def intro: departs_delete keeps_lock_step split: option.splits if_splits)
next
  case (complete_journal c j s s')
  then show ?case
    by (auto simp: complete_journal_state_def intro: departs_delete split: option.splits if_splits)
next
  case (acknowledge j s s')
  then show ?case
    by (auto simp: acknowledge_state_def keeps_lock_def intro!: keeps_lock_step split: option.splits if_splits)
next
  case (bind_lease etag prior_hash leased inventory s s' leased')
  then show ?case
    by (auto simp: bind_lease_state_def keeps_lock_def Let_def intro!: keeps_lock_step split: if_splits)
next
  case (seal_intent m i s s')
  then show ?case
    by (auto simp: seal_intent_state_def lock_step_def keeps_lock_def seals_def Let_def split: if_splits)
qed (auto simp: seal_state_def hold_state_def release_held_state_def release_state_def
  recover_unleased_state_def activate_state_def deactivate_state_def finish_state_def clear_intent_state_def
  lock_step_def seals_def takes_hold_def lets_go_def keeps_lock_def split: if_splits option.splits)

lemma coord_step_valid: "coord_step R s t \<Longrightarrow> state_valid R t"
  by (induction rule: coord_step.induct) auto

end
