(* ===== verification/CoordinatorLock.thy ===== *)
theory CoordinatorLock
  imports CoordinatorSteps
begin

text \<open>
  The contract of an admission lock, as the callers of the coordinator rely on it: a seal admits nobody
  new, it goes only when everybody has left, and a hold keeps the destination empty until it is let
  go. The facts about whole runs are proved from the contract; the coordinator provides it.
\<close>

locale admission_lock =
  fixes step :: "'s \<Rightarrow> 's \<Rightarrow> bool"
    and valid :: "'s \<Rightarrow> bool"
    and present :: "'s \<Rightarrow> 'p set"
    and seal_of :: "'s \<Rightarrow> 'q list"
    and hold_of :: "'s \<Rightarrow> 'q list"
  assumes valid_step: "step s t \<Longrightarrow> valid t"
    and hold_empty: "valid s \<Longrightarrow> hold_of s \<noteq> [] \<Longrightarrow> seal_of s \<noteq> [] \<and> present s = {}"
    and sealed_step: "step s t \<Longrightarrow> valid s \<Longrightarrow> seal_of s \<noteq> [] \<Longrightarrow>
      seal_of t = seal_of s \<and> present t \<subseteq> present s \<or> seal_of t = [] \<and> hold_of t = [] \<and> present s = {}"
    and held_step: "step s t \<Longrightarrow> valid s \<Longrightarrow> hold_of s \<noteq> [] \<Longrightarrow>
      hold_of t = hold_of s \<and> seal_of t = seal_of s \<or> seal_of t = [] \<and> hold_of t = []"
begin

lemma valid_run: "step\<^sup>*\<^sup>* s t \<Longrightarrow> valid s \<Longrightarrow> valid t"
  by (induction rule: rtranclp_induct) (auto intro: valid_step)

text \<open>A run from a sealed state only drains it, until it is drained and opened.\<close>

lemma sealed_run:
  assumes "step\<^sup>*\<^sup>* s t" "valid s" "seal_of s \<noteq> []"
  shows "seal_of t = seal_of s \<and> present t \<subseteq> present s \<or>
    (\<exists>u v. step\<^sup>*\<^sup>* s u \<and> seal_of u = seal_of s \<and> present u = {} \<and> step u v \<and> seal_of v = [] \<and> step\<^sup>*\<^sup>* v t)"
  using assms(1)
proof (induction rule: rtranclp_induct)
  case (step t t')
  show ?case
  proof (cases "seal_of t = seal_of s \<and> present t \<subseteq> present s")
    case True
    have "valid t" using step.hyps(1) assms(2) by (rule valid_run)
    moreover have "seal_of t \<noteq> []" using True assms(3) by simp
    ultimately have "seal_of t' = seal_of t \<and> present t' \<subseteq> present t \<or> seal_of t' = [] \<and> hold_of t' = [] \<and> present t = {}"
      using step.hyps(2) by (intro sealed_step)
    then show ?thesis
    proof
      assume "seal_of t' = seal_of t \<and> present t' \<subseteq> present t"
      then show ?thesis using True by auto
    next
      assume "seal_of t' = [] \<and> hold_of t' = [] \<and> present t = {}"
      then show ?thesis using True step.hyps by blast
    qed
  next
    case False
    then show ?thesis using step by (blast intro: rtranclp.rtrancl_into_rtrancl)
  qed
qed simp

text \<open>While a hold is in place nobody is present.\<close>

lemma held_run:
  assumes "step\<^sup>*\<^sup>* s t" "valid s" "hold_of s \<noteq> []"
  shows "hold_of t = hold_of s \<and> seal_of t = seal_of s \<and> present t = {} \<or>
    (\<exists>u v. step\<^sup>*\<^sup>* s u \<and> hold_of u = hold_of s \<and> step u v \<and> seal_of v = [] \<and> hold_of v = [] \<and> step\<^sup>*\<^sup>* v t)"
  using assms(1)
proof (induction rule: rtranclp_induct)
  case base
  then show ?case using hold_empty [OF assms(2,3)] by simp
next
  case (step t t')
  show ?case
  proof (cases "hold_of t = hold_of s \<and> seal_of t = seal_of s \<and> present t = {}")
    case True
    have valid: "valid t" using step.hyps(1) assms(2) by (rule valid_run)
    have "hold_of t \<noteq> []" using True assms(3) by simp
    with held_step [OF step.hyps(2) valid]
    have "hold_of t' = hold_of t \<and> seal_of t' = seal_of t \<or> seal_of t' = [] \<and> hold_of t' = []" .
    then show ?thesis
    proof
      assume kept: "hold_of t' = hold_of t \<and> seal_of t' = seal_of t"
      have "valid t'" using step.hyps(2) by (rule valid_step)
      then have "present t' = {}" using hold_empty kept True assms(3) by auto
      then show ?thesis using kept True by simp
    next
      assume "seal_of t' = [] \<and> hold_of t' = []"
      then show ?thesis using True step.hyps by blast
    qed
  next
    case False
    then show ?thesis using step by (blast intro: rtranclp.rtrancl_into_rtrancl)
  qed
qed

end

subsection \<open>The coordinator is such a lock\<close>

definition present :: "admissions \<Rightarrow> (bytes \<times> objref list \<times> journal option) set" where
  "present s = (\<lambda>(_, a). (ad_digest a, ad_refs a, ad_journal a)) ` set (owners s)"

lemma present_empty [simp]: "present s = {} \<longleftrightarrow> owners s = []"
  by (simp add: present_def)

lemma set_delete_subset: "set (AList.delete k m) \<subseteq> set m"
  by (auto simp: AList.delete_eq)

lemma set_update_subset: "set (AList.update k a m) \<subseteq> insert (k, a) (set m)"
  by (induction m) (auto split: if_splits)

lemma present_hands_over:
  assumes "hands_over s t" "as_seal s \<noteq> []"
  shows "present t \<subseteq> present s"
proof -
  obtain k k' a where ka: "(k, a) \<in> set (owners s)" "owners t = AList.update k' a (AList.delete k (owners s))"
    using assms by (auto simp: hands_over_def)
  have "set (owners t) \<subseteq> insert (k', a) (set (owners s))"
    using ka(2) set_update_subset [of k' a "AList.delete k (owners s)"] set_delete_subset [of k "owners s"] by auto
  then show ?thesis using ka(1) by (fastforce simp: present_def)
qed

lemma present_departs: "departs s t \<Longrightarrow> present t \<subseteq> present s"
  using set_delete_subset by (fastforce simp: departs_def present_def)

lemma lock_step_sealed:
  assumes "lock_step s t" "as_seal s \<noteq> []"
  shows "as_seal t = as_seal s \<and> present t \<subseteq> present s \<or> as_seal t = [] \<and> as_hold t = [] \<and> present s = {}"
  using assms(1) unfolding lock_step_def
proof (elim disjE)
  assume "departs s t"
  then show ?thesis using present_departs by (simp add: departs_def)
next
  assume h: "hands_over s t"
  then show ?thesis using present_hands_over [OF h assms(2)] by (simp add: hands_over_def)
qed (use assms(2) in \<open>simp_all add: enters_def seals_def takes_hold_def lets_go_def keeps_lock_def present_def\<close>)

lemma lock_step_held:
  assumes "lock_step s t" "as_seal s \<noteq> []" "as_hold s \<noteq> []"
  shows "as_hold t = as_hold s \<and> as_seal t = as_seal s \<or> as_seal t = [] \<and> as_hold t = []"
  using assms by (auto simp: lock_step_def lock_defs)

interpretation coordinator_lock: admission_lock "coord_step R" "state_valid R" present as_seal as_hold for R
proof
  show "coord_step R s t \<Longrightarrow> state_valid R t" for s t by (rule coord_step_valid)
  show "state_valid R s \<Longrightarrow> as_hold s \<noteq> [] \<Longrightarrow> as_seal s \<noteq> [] \<and> present s = {}" for s
    by (simp add: valid_hold)
  show "coord_step R s t \<Longrightarrow> state_valid R s \<Longrightarrow> as_seal s \<noteq> [] \<Longrightarrow>
      as_seal t = as_seal s \<and> present t \<subseteq> present s \<or> as_seal t = [] \<and> as_hold t = [] \<and> present s = {}" for s t
    by (intro lock_step_sealed coord_step_lock)
  show "coord_step R s t \<Longrightarrow> state_valid R s \<Longrightarrow> as_hold s \<noteq> [] \<Longrightarrow>
      as_hold t = as_hold s \<and> as_seal t = as_seal s \<or> as_seal t = [] \<and> as_hold t = []" for s t
    by (intro lock_step_held coord_step_lock) (simp_all add: valid_hold)
qed

end
