(* ===== verification/CoordinatorRun.thy ===== *)
theory CoordinatorRun
  imports CoordinatorLock
begin

text \<open>
  Every call of the catalog's coordination, made by one process among others, moves the durable
  coordinator by transitions only. The laws used of the environment: an ETag names the bytes it was
  given to, a valid state is decoded from its own encoding, and the other machines run the same
  protocol.
\<close>

subsection \<open>Laws\<close>

definition coord_at :: "runtime \<Rightarrow> objects \<Rightarrow> admissions option" where
  "coord_at R bucket =
     (case bucket coordinator_key of None \<Rightarrow> Some initial_admissions | Some (raw, _) \<Rightarrow> r_state_in R raw)"

definition named :: "(bytes \<Rightarrow> bytes) \<Rightarrow> objects \<Rightarrow> bool" where
  "named contents bucket \<longleftrightarrow> (\<forall>key raw v. bucket key = Some (raw, v) \<longrightarrow> contents (ve_etag v) = raw)"

definition etags_name :: "(bytes \<Rightarrow> bytes) \<Rightarrow> environment \<Rightarrow> bool" where
  "etags_name contents X \<longleftrightarrow>
     (\<forall>n raw. contents (ve_etag (x_version X n raw)) = raw) \<and>
     (\<forall>n bucket. named contents bucket \<longrightarrow> named contents (x_others X n bucket))"

definition state_codec :: "runtime \<Rightarrow> bool" where
  "state_codec R \<longleftrightarrow> (\<forall>s raw. state_valid R s \<longrightarrow> r_state R s = Some raw \<longrightarrow> r_state_in R raw = Some s)"

definition others_follow :: "environment \<Rightarrow> bool" where
  "others_follow X \<longleftrightarrow>
     (\<forall>n bucket s. coord_at (x_run X) bucket = Some s \<longrightarrow>
        (\<exists>t. coord_at (x_run X) (x_others X n bucket) = Some t \<and> (coord_step (x_run X))\<^sup>*\<^sup>* s t))"

definition lawful :: "(bytes \<Rightarrow> bytes) \<Rightarrow> environment \<Rightarrow> bool" where
  "lawful contents X \<longleftrightarrow> etags_name contents X \<and> state_codec (x_run X) \<and> others_follow X"

subsection \<open>The invariant of the world\<close>

text \<open>
  Under these laws, the bucket's ETags name its bytes and the coordinator has come from s0 by
  transitions. The laws are part of the predicate, so that the rules below need no premise.
\<close>

definition tracked :: "(bytes \<Rightarrow> bytes) \<Rightarrow> runtime \<Rightarrow> admissions \<Rightarrow> objects \<Rightarrow> bool" where
  "tracked contents R s0 bucket \<longleftrightarrow>
     named contents bucket \<and> (\<exists>s. coord_at R bucket = Some s \<and> (coord_step R)\<^sup>*\<^sup>* s0 s)"

definition on_track :: "(bytes \<Rightarrow> bytes) \<Rightarrow> environment \<Rightarrow> admissions \<Rightarrow> world \<Rightarrow> bool" where
  "on_track contents X s0 w \<longleftrightarrow> lawful contents X \<and> tracked contents (x_run X) s0 (w_objects w)"

lemma on_track_arrive: "on_track contents X s0 w \<Longrightarrow> on_track contents X s0 (arrive X w)"
proof -
  assume w: "on_track contents X s0 w"
  then obtain s where s: "coord_at (x_run X) (w_objects w) = Some s" "(coord_step (x_run X))\<^sup>*\<^sup>* s0 s"
    by (auto simp: on_track_def tracked_def)
  obtain t where t: "coord_at (x_run X) (x_others X (w_calls w) (w_objects w)) = Some t" "(coord_step (x_run X))\<^sup>*\<^sup>* s t"
    using w s(1) unfolding on_track_def lawful_def others_follow_def by blast
  have "(coord_step (x_run X))\<^sup>*\<^sup>* s0 t" using s(2) t(2) by (rule rtranclp_trans)
  moreover have "named contents (x_others X (w_calls w) (w_objects w))"
    using w by (simp add: on_track_def tracked_def lawful_def etags_name_def)
  ultimately show ?thesis using w t(1) by (simp add: on_track_def tracked_def arrive_def)
qed

lemma named_upd: "named contents bucket \<Longrightarrow> contents (ve_etag v) = raw \<Longrightarrow> named contents (bucket(key \<mapsto> (raw, v)))"
  by (auto simp: named_def)

lemma named_del: "named contents bucket \<Longrightarrow> named contents (bucket(key := None))"
  by (auto simp: named_def)

lemma coord_at_other: "key \<noteq> coordinator_key \<Longrightarrow> coord_at R (bucket(key := x)) = coord_at R bucket"
  by (simp add: coord_at_def)

lemma on_track_store:
  assumes "on_track contents X s0 w" "key \<noteq> coordinator_key"
  shows "on_track contents X s0 (store X key raw n w)"
  using assms by (auto simp: on_track_def tracked_def store_def coord_at_other lawful_def etags_name_def intro: named_upd)

lemma on_track_delete:
  assumes "on_track contents X s0 w" "key \<noteq> coordinator_key"
  shows "on_track contents X s0 (w\<lparr>w_objects := (w_objects w)(key := None), w_log := l\<rparr>)"
  using assms by (auto simp: on_track_def tracked_def coord_at_other intro: named_del)

subsection \<open>Calls\<close>

named_theorems track_rules \<open>operations that keep the coordinator on track\<close>

lemma track_get [track_rules]: "keeps (on_track contents X s0) (get_version X key limit)"
  by (simp add: keeps_def get_version_def Let_def on_track_arrive)

lemma track_put:
  assumes "key \<noteq> coordinator_key"
  shows "keeps (on_track contents X s0) (put_conditional X key raw cond)"
  using assms by (auto simp: keeps_def put_conditional_def Let_def on_track_arrive on_track_store split: call_fault.splits)

lemma track_put_head [track_rules]: "keeps (on_track contents X s0) (put_conditional X head_key raw cond)"
  by (rule track_put) (simp add: head_key_def coordinator_key_def)

lemma track_delete:
  assumes "key \<noteq> coordinator_key"
  shows "keeps (on_track contents X s0) (delete_object X key)"
  using assms by (auto simp: keeps_def delete_object_def Let_def on_track_arrive on_track_delete split: call_fault.splits)

lemma track_list [track_rules]: "keeps (on_track contents X s0) (list_objects X prefix)"
  by (simp add: keeps_def list_objects_def Let_def on_track_arrive)

lemma track_clock [track_rules]: "keeps (on_track contents X s0) (server_clock X)"
  by (simp add: keeps_def server_clock_def on_track_arrive)

lemma track_new_id [track_rules]: "keeps (on_track contents X s0) (new_mutation_id X)"
  by (simp add: keeps_def new_mutation_id_def on_track_arrive)

lemma track_context [track_rules]: "keeps (on_track contents X s0) (context_err X)"
  by (simp add: keeps_def context_err_def)

lemma track_coord_read [track_rules]: "keeps (on_track contents X s0) (coord_read X)"
proof -
  have "snd (coord_read X w) = snd (get_version X coordinator_key coordinator_limit w)" for w
    by (simp add: coord_read_def split: prod.split sum.split)
  then show ?thesis using track_get by (simp add: keeps_def)
qed

lemma track_read_head [track_rules]: "keeps (on_track contents X s0) (read_head X)"
proof -
  have "keeps (on_track contents X s0) (andthen (coord_read X) (\<lambda>(s, _).
      if as_protocol s = 11 \<and> as_upgrade s = None then
        (if as_mode s \<noteq> Candidate \<or> as_seal s = [] then raise ScopedUnavailable
         else give (fresh_head 5 11 (Some picker_format), no_version))
      else give (fresh_head 4 10 None, no_version)))"
    by (intro keeps_rules track_rules)
  note keep_absent = keepsD [OF this]
  show ?thesis
    unfolding keeps_def
  proof (intro allI impI)
    fix w assume "on_track contents X s0 w"
    moreover obtain r w1 where get: "get_version X head_key head_limit w = (r, w1)" by fastforce
    ultimately have "on_track contents X s0 w1" by (rule keepsD [OF track_get])
    then show "on_track contents X s0 (snd (read_head X w))"
      using get keep_absent [OF _ surjective_pairing] by (cases r) (simp_all add: read_head_def split: prod.split)
  qed
qed

lemma track_live_head [track_rules]: "keeps (on_track contents X s0) (live_head X)"
  unfolding live_head_def by (intro keeps_rules track_rules)

lemma track_write_format [track_rules]: "keeps (on_track contents X s0) (write_format X s)"
  unfolding write_format_def by (intro keeps_rules track_rules)

subsection \<open>Changes\<close>

text \<open>What a read of the coordinator says about the bytes its ETag names.\<close>

definition read_as :: "(bytes \<Rightarrow> bytes) \<Rightarrow> runtime \<Rightarrow> admissions \<Rightarrow> bytes \<Rightarrow> bool" where
  "read_as contents R s etag \<longleftrightarrow>
     (if etag = [] then s = initial_admissions else state_valid R s \<and> r_state_in R (contents etag) = Some s)"

lemma coord_read_as:
  assumes "coord_read X w = (Inr (s, etag), w')" "on_track contents X s0 w"
  shows "read_as contents (x_run X) s etag"
proof -
  have "on_track contents X s0 (arrive X w)" using assms(2) by (rule on_track_arrive)
  then have n: "named contents (w_objects (arrive X w))" by (simp add: on_track_def tracked_def)
  show ?thesis
    using assms(1) n
    by (auto simp: coord_read_def get_version_def read_as_def named_def Let_def
        split: call_fault.splits option.splits if_splits)
qed

text \<open>A function whose results are transitions, and which keeps the coordinator on track itself.\<close>

definition moves :: "environment \<Rightarrow> 'a transition \<Rightarrow> bool" where
  "moves X f \<longleftrightarrow>
     (\<forall>captured s w s' a w'. f captured s w = (Inr (s', a), w') \<longrightarrow> state_valid (x_run X) (next_generation s') \<longrightarrow>
        coord_step (x_run X) s (next_generation s'))"

lemma movesD:
  "moves X f \<Longrightarrow> f captured s w = (Inr (s', a), w') \<Longrightarrow> state_valid (x_run X) (next_generation s') \<Longrightarrow>
   coord_step (x_run X) s (next_generation s')"
  unfolding moves_def by blast

lemma prepare_stateD:
  assumes "prepare_state R s' = Inr raw" "state_codec R"
  shows "state_valid R (next_generation s')" "r_state R (next_generation s') = Some raw"
    "r_state_in R raw = Some (next_generation s')"
  using assms by (auto simp: prepare_state_def state_codec_def Let_def split: if_splits option.splits)

lemma track_commit:
  assumes "on_track contents X s0 w" "read_as contents (x_run X) s etag"
    and "coord_step (x_run X) s t" "r_state_in (x_run X) raw = Some t"
  shows "keeps (on_track contents X s0) (put_conditional X coordinator_key raw \<lparr>pc_match = etag, pc_create = (etag = [])\<rparr>)"
    (is "keeps ?J ?put")
  unfolding keeps_def
proof (intro allI impI)
  fix w assume "?J w"
  then have j: "?J (arrive X w)" by (rule on_track_arrive)
  then have laws: "lawful contents X" and nm: "named contents (w_objects (arrive X w))" by (simp_all add: on_track_def tracked_def)
  have store: "?J (store X coordinator_key raw n (arrive X w))"
    if holds: "holds_condition \<lparr>pc_match = etag, pc_create = (etag = [])\<rparr> (w_objects (arrive X w) coordinator_key)" for n
  proof -
    have "coord_at (x_run X) (w_objects (arrive X w)) = Some s"
    proof (cases "etag = []")
      case True
      then show ?thesis using holds assms(2) by (simp add: holds_condition_def coord_at_def read_as_def)
    next
      case False
      then obtain raw0 v where cell: "w_objects (arrive X w) coordinator_key = Some (raw0, v)" "ve_etag v = etag"
        using holds by (auto simp: holds_condition_def split: option.splits)
      then have "raw0 = contents etag" using nm by (auto simp: named_def)
      then show ?thesis using cell False assms(2) by (simp add: coord_at_def read_as_def)
    qed
    then have "(coord_step (x_run X))\<^sup>*\<^sup>* s0 s" using j by (auto simp: on_track_def tracked_def)
    then have "(coord_step (x_run X))\<^sup>*\<^sup>* s0 t" using assms(3) by (rule rtranclp.rtrancl_into_rtrancl)
    then show ?thesis
      using laws nm assms(4)
      by (auto simp: on_track_def tracked_def store_def coord_at_def lawful_def etags_name_def intro!: named_upd)
  qed
  show "?J (snd (?put w))"
    using j store by (auto simp: put_conditional_def Let_def \<open>?J w\<close> split: call_fault.splits)
qed

lemma track_rounds:
  fixes f :: "'a transition"
  assumes "moves X f" "\<And>captured s. keeps (on_track contents X s0) (f captured s)"
  shows "on_track contents X s0 w \<Longrightarrow> on_track contents X s0 (snd (change_rounds X W C f n captured w))"
proof (induction n arbitrary: captured w)
  case (Suc n)
  note keep_read = keepsD [OF track_coord_read Suc.prems]
  have laws: "state_codec (x_run X)" using Suc.prems by (simp add: on_track_def lawful_def)
  obtain r w1 where read: "coord_read X w = (r, w1)" by (cases "coord_read X w")
  have j1: "on_track contents X s0 w1" using read by (rule keep_read)
  show ?case
  proof (cases r)
    case (Inl e)
    then show ?thesis using read j1 by simp
  next
    case (Inr se)
    obtain s etag where se: "se = (s, etag)" by (cases se)
    have as: "read_as contents (x_run X) s etag" using read Inr se Suc.prems by (simp add: coord_read_as)
    obtain q w2 where fq: "f captured s w1 = (q, w2)" by (cases "f captured s w1")
    have j2: "on_track contents X s0 w2" using keepsD [OF assms(2) j1 fq] .
    show ?thesis
    proof (cases "intent_blocks X W C s \<or> (\<exists>e. q = Inl e)")
      case True
      then show ?thesis using read Inr se fq j1 j2 by auto
    next
      case False
      then obtain s' a where q: "q = Inr (s', a)" by (cases q) auto
      show ?thesis
      proof (cases "prepare_state (x_run X) s'")
        case (Inl e)
        then show ?thesis using read Inr se fq q False j2 by simp
      next
        case prepared: (Inr raw)
        note enc = prepare_stateD [OF prepared laws]
        have step: "coord_step (x_run X) s (next_generation s')"
          using movesD [OF assms(1)] fq q enc(1) by blast
        obtain p w3 where put: "put_conditional X coordinator_key raw \<lparr>pc_match = etag, pc_create = (etag = [])\<rparr> w2 = (p, w3)"
          by fastforce
        have j3: "on_track contents X s0 w3"
          using keepsD [OF track_commit [OF j2 as step enc(3)] j2 put] .
        show ?thesis
          using read Inr \<open>se = _\<close> fq q False prepared put j3 Suc.IH [OF j3] by (auto split: sum.splits)
      qed
    qed
  qed
qed simp

lemma track_captured:
  assumes "moves X f" "\<And>captured s. keeps (on_track contents X s0) (f captured s)" "on_track contents X s0 w"
  shows "on_track contents X s0 (snd (change_captured X W C f w))"
  using assms track_rounds [OF assms(1,2)] by (simp add: change_captured_def)

lemma track_change:
  assumes "moves X f" "\<And>captured s. keeps (on_track contents X s0) (f captured s)"
  shows "keeps (on_track contents X s0) (coord_change X W C f)"
  unfolding keeps_def coord_change_def
  using track_captured [OF assms] by (auto split: prod.splits) (metis snd_conv)

lemma keeps_pure: "keeps P (pure f captured s)"
  by (simp add: pure_def keeps_const)

lemma moves_pure:
  assumes "\<And>s s'. f s = Inr s' \<Longrightarrow> state_valid (x_run X) (next_generation s') \<Longrightarrow> coord_step (x_run X) s (next_generation s')"
  shows "moves X (pure f)"
  using assms by (auto simp: moves_def pure_def sbind_Inr_conv)

lemma track_change_pure:
  assumes "\<And>s s'. f s = Inr s' \<Longrightarrow> state_valid (x_run X) (next_generation s') \<Longrightarrow> coord_step (x_run X) s (next_generation s')"
  shows "keeps (on_track contents X s0) (coord_change X W C (pure f))"
  by (intro track_change moves_pure assms keeps_pure)

end
