(* ===== verification/CoordinatorCalls.thy ===== *)
theory CoordinatorCalls
  imports CoordinatorRun
begin

text \<open>Each operation of the coordinator, of collection and of a migration's intent keeps the coordinator on track.\<close>

subsection \<open>Functions handed to change\<close>

lemma moves_lift:
  assumes "\<And>s s' a. f s = Inr (s', a) \<Longrightarrow> state_valid (x_run X) (next_generation s') \<Longrightarrow> coord_step (x_run X) s (next_generation s')"
  shows "moves X (\<lambda>_ s. lift_sum (f s))"
  using assms by (auto simp: moves_def)

lemma moves_bind_release: "moves X (bind_release_step X h owner)"
  by (auto simp: moves_def intro: coord_step.bind_release)

lemma moves_begin_intent: "moves X (begin_intent_step X m i)"
  by (auto simp: moves_def intro: coord_step.begin_intent)

lemma moves_expecting: "moves X f \<Longrightarrow> moves X (expecting (x_run X) f)"
  unfolding moves_def expecting_def by (fastforce simp: andthen_Inr split: option.splits)

lemma keeps_expecting: "(\<And>captured s. keeps P (f captured s)) \<Longrightarrow> keeps P (expecting R f captured s)"
  unfolding expecting_def by (intro keeps_rules) auto

lemma track_bind_release_step: "keeps (on_track contents X s0) (bind_release_step X h owner captured s)"
  unfolding bind_release_step_def Let_def
  by (intro keeps_rules track_rules; simp only:; (intro keeps_rules track_rules)?)

lemma track_unchanged_head [track_rules]: "keeps (on_track contents X s0) (unchanged_head X m)"
  unfolding unchanged_head_def by (intro keeps_rules track_rules)

lemma track_begin_intent_step: "keeps (on_track contents X s0) (begin_intent_step X m i captured s)"
  unfolding begin_intent_step_def by (intro keeps_rules track_rules)

lemma track_change_intent:
  assumes "moves X f" "\<And>captured s. keeps (on_track contents X s0) (f captured s)"
  shows "keeps (on_track contents X s0) (change_intent X W C i f)"
  unfolding keeps_def
proof (intro allI impI)
  fix w assume "on_track contents X s0 w"
  define C' where "C' = C\<lparr>cx_intent := Some (wt_id W, intent_digest (x_run X) i)\<rparr>"
  obtain r captured w1 where change: "change_captured X W C' (expecting (x_run X) f) w = ((r, captured), w1)"
    by (metis surj_pair)
  have "on_track contents X s0 (snd (change_captured X W C' (expecting (x_run X) f) w))"
    by (intro track_captured moves_expecting keeps_expecting assms) fact
  then have j1: "on_track contents X s0 w1" by (simp add: change)
  obtain q w2 where get: "get_version X coordinator_key coordinator_limit w1 = (q, w2)" by fastforce
  have "on_track contents X s0 w2" by (rule keepsD [OF track_get j1 get])
  then show "on_track contents X s0 (snd (change_intent X W C i f w))"
    using j1 by (auto simp: change_intent_def Let_def C'_def [symmetric] change get split: sum.splits option.splits)
qed

lemma track_change_intent_pure:
  assumes "\<And>s s'. f s = Inr s' \<Longrightarrow> state_valid (x_run X) (next_generation s') \<Longrightarrow> coord_step (x_run X) s (next_generation s')"
  shows "keeps (on_track contents X s0) (change_intent X W C i (pure f))"
  by (intro track_change_intent moves_pure assms keeps_pure)

subsection \<open>Operations of the coordinator\<close>

lemma track_admit [track_rules]: "keeps (on_track contents X s0) (admit X W C owner digest refs)"
  unfolding admit_def by (intro keeps_rules track_rules track_change_pure coord_step.admit)

lemma track_complete [track_rules]: "keeps (on_track contents X s0) (complete X W C owner digest)"
  unfolding complete_def by (intro track_change_pure coord_step.complete)

lemma track_seal [track_rules]: "keeps (on_track contents X s0) (seal X W C)"
  unfolding seal_def by (intro keeps_rules track_rules track_change_pure coord_step.seal)

lemma track_hold [track_rules]: "keeps (on_track contents X s0) (hold_barrier X W C owner)"
proof -
  have "moves X (\<lambda>_ s. lift_sum (sbind (hold_state owner hold s) (\<lambda>s'. Inr (s', completed_references s'))))" for hold
    by (rule moves_lift) (auto simp: sbind_Inr_conv intro: coord_step.hold)
  then show ?thesis
    unfolding hold_barrier_def by (intro keeps_rules track_rules track_change)
qed

lemma track_release_held [track_rules]: "keeps (on_track contents X s0) (release_held X W C owner hold)"
  unfolding release_held_def by (intro track_change_pure coord_step.release_held)

lemma track_release [track_rules]: "keeps (on_track contents X s0) (release X W C owner)"
  unfolding release_def by (intro keeps_rules track_change_pure coord_step.release)

lemma track_recover_unleased [track_rules]: "keeps (on_track contents X s0) (recover_unleased_seal X W C owner generation)"
  unfolding recover_unleased_seal_def by (intro track_change_pure coord_step.recover_seal)

lemma track_activate [track_rules]: "keeps (on_track contents X s0) (activate X W C owner proof)"
  unfolding activate_def by (intro keeps_rules track_change_pure coord_step.activate)

lemma track_deactivate [track_rules]: "keeps (on_track contents X s0) (deactivate X W C owner)"
  unfolding deactivate_def
  by (intro keeps_rules track_rules track_change_pure track_change_intent_pure coord_step.deactivate)

subsection \<open>Collection and recovery\<close>

lemma track_read_object [track_rules]: "keeps (on_track contents X s0) (read_object X ref limit)"
  unfolding read_object_def by (intro keeps_rules track_rules)

lemma track_observe [track_rules]: "keeps (on_track contents X s0) (observe_gc_head X)"
  unfolding observe_gc_head_def by (intro keeps_rules track_rules)

lemma track_mark_protected [track_rules]: "keeps (on_track contents X s0) (mark_protected X refs live)"
  by (induction refs arbitrary: live) (auto intro!: keeps_rules track_rules)

lemma track_bind_lease [track_rules]: "keeps (on_track contents X s0) (bind_gc_lease X W C etag leased inventory)"
proof -
  have "moves X (\<lambda>_ s. lift_sum (bind_lease_state (x_run X) etag prior leased inventory s))" for prior
    by (rule moves_lift) (auto intro: coord_step.bind_lease)
  then show ?thesis
    unfolding bind_gc_lease_def by (intro keeps_rules track_rules track_change)
qed

lemma track_gc_state [track_rules]: "keeps (on_track contents X s0) (gc_state X owner)"
  unfolding gc_state_def by (intro keeps_rules track_rules)

lemma track_verify [track_rules]: "keeps (on_track contents X s0) (verify_gc_sweep X h etag)"
  unfolding verify_gc_sweep_def by (intro keeps_rules track_rules)

lemma track_bind_release [track_rules]: "keeps (on_track contents X s0) (bind_gc_release X W C h owner)"
  unfolding bind_gc_release_def
  by (intro keeps_rules track_change moves_bind_release track_bind_release_step)

lemma track_finish [track_rules]: "keeps (on_track contents X s0) (finish_gc_release X W C owner)"
  unfolding finish_gc_release_def
  by (intro keeps_rules track_rules track_change_pure coord_step.finish_release)

lemma track_publish_release [track_rules]: "keeps (on_track contents X s0) (publish_release X W C h etag owner)"
proof -
  have "keeps (on_track contents X s0) (\<lambda>w.
      case put_conditional X head_key raw \<lparr>pc_match = etag, pc_create = False\<rparr> w of
        (Inl e, w') \<Rightarrow> (Inl (Join CommitUnknown e), w')
      | (Inr _, w') \<Rightarrow> finish_gc_release X W C owner w')" for raw
    unfolding keeps_def
  proof (intro allI impI)
    fix w assume j: "on_track contents X s0 w"
    obtain r w1 where put: "put_conditional X head_key raw \<lparr>pc_match = etag, pc_create = False\<rparr> w = (r, w1)" by fastforce
    have j1: "on_track contents X s0 w1" by (rule keepsD [OF track_put_head j put])
    show "on_track contents X s0 (snd (case put_conditional X head_key raw \<lparr>pc_match = etag, pc_create = False\<rparr> w of
        (Inl e, w') \<Rightarrow> (Inl (Join CommitUnknown e), w')
      | (Inr _, w') \<Rightarrow> finish_gc_release X W C owner w'))"
      using keepsD [OF track_finish j1 surjective_pairing] j1 put by (cases r) auto
  qed
  then show ?thesis unfolding publish_release_def by (intro keeps_rules track_rules)
qed

lemma track_release_gc [track_rules]: "keeps (on_track contents X s0) (release_gc X W C h etag)"
  unfolding release_gc_def by (intro keeps_rules track_rules)

lemma track_preflight [track_rules]: "keeps (on_track contents X s0) (preflight_clock X)"
  unfolding preflight_clock_def by (intro keeps_rules track_rules)

lemma track_acquire [track_rules]: "keeps (on_track contents X s0) (acquire_gc X W C h etag clock inventory)"
  unfolding acquire_gc_def by (intro keeps_rules track_rules)

lemma track_candidates [track_rules]: "keeps (on_track contents X s0) (list_candidates X prefixes)"
  by (induction prefixes) (auto intro!: keeps_rules track_rules)

lemma track_remove_candidates [track_rules]: "keeps (on_track contents X s0) (remove_candidates X live h etag keys)"
proof (induction keys)
  case (Cons key keys)
  show ?case
  proof (cases "key \<notin> set live \<and> \<not> coordinator_object key")
    case True
    then have "key \<noteq> coordinator_key" by (auto simp: coordinator_object_def)
    from track_delete [OF this] show ?thesis
      using True Cons by (auto intro!: keeps_rules track_rules)
  next
    case False
    then have "remove_candidates X live h etag (key # keys) = remove_candidates X live h etag keys" by auto
    then show ?thesis using Cons by simp
  qed
qed (simp add: keeps_const)

lemma track_remove_unreachable [track_rules]: "keeps (on_track contents X s0) (remove_unreachable X W live h etag)"
  unfolding remove_unreachable_def by (intro keeps_rules track_rules)

lemma track_bootstrap [track_rules]: "keeps (on_track contents X s0) (bootstrap_authority X)"
  unfolding bootstrap_authority_def by (intro keeps_rules track_rules)

lemma track_authorize [track_rules]: "keeps (on_track contents X s0) (authorize_bootstrap X W W' seen)"
  unfolding authorize_bootstrap_def by (intro keeps_rules track_rules)

lemma track_gc_head [track_rules]:
  assumes "\<And>check. authorize = Some check \<Longrightarrow> keeps (on_track contents X s0) check"
  shows "keeps (on_track contents X s0) (gc_head X W authorize)"
  unfolding gc_head_def by (intro keeps_rules track_rules assms)

lemma track_completed [track_rules]: "keeps (on_track contents X s0) (completed_gc X owner)"
  unfolding completed_gc_def by (intro keeps_rules track_rules)

lemma track_recovery_hold [track_rules]:
  assumes "\<And>ext. external = Some ext \<Longrightarrow> keeps (on_track contents X s0) ext"
  shows "keeps (on_track contents X s0) (recovery_hold X owner generation external)"
  unfolding recovery_hold_def by (intro keeps_rules track_rules assms)

lemma track_recover_observed [track_rules]: "keeps (on_track contents X s0) (recover_observed X W C owner l h etag hash)"
  unfolding recover_observed_def by (intro keeps_rules track_rules)

lemma track_recover_linked [track_rules]: "keeps (on_track contents X s0) (recover_linked_gc X W C owner)"
proof -
  have rest: "keeps (on_track contents X s0) (andthen (mark_protected X (gl_inventory l) []) (\<lambda>_.
      andthen (observe_gc_head X) (\<lambda>(h, etag, hash). recover_observed X W C owner l h etag hash)))" for l
    by (intro keeps_rules track_rules)
  show ?thesis
    unfolding keeps_def
  proof (intro allI impI)
    fix w assume j: "on_track contents X s0 w"
    obtain r w1 where g: "gc_state X owner w = (r, w1)" by fastforce
    have j1: "on_track contents X s0 w1" by (rule keepsD [OF track_gc_state j g])
    obtain q w2 where q: "completed_gc X owner w1 = (q, w2)" by fastforce
    have j2: "on_track contents X s0 w2" by (rule keepsD [OF track_completed j1 q])
    show "on_track contents X s0 (snd (recover_linked_gc X W C owner w))"
      using j j2 g q keepsD [OF rest j1 surjective_pairing]
      by (cases r) (auto simp: recover_linked_gc_def raise_def split: sum.splits)
  qed
qed

lemma track_recover_gc [track_rules]:
  assumes "\<And>hold. barrier = Some hold \<Longrightarrow> keeps (on_track contents X s0) hold"
  shows "keeps (on_track contents X s0) (recover_gc X W C barrier owner)"
  unfolding recover_gc_def by (intro keeps_rules track_rules assms)

subsection \<open>Intents\<close>

lemma track_begin_intent:
  assumes "on_track contents X s0 w"
  shows "on_track contents X s0 (snd (snd (begin_intent X W C M kind predecessor w)))"
proof -
  obtain r w1 where p: "preflight_clock X w = (r, w1)" by fastforce
  have j1: "on_track contents X s0 w1" by (rule keepsD [OF track_preflight assms p])
  have changes: "keeps (on_track contents X s0) (change_intent X W C i (begin_intent_step X m i))" for m i
    by (intro track_change_intent moves_begin_intent track_begin_intent_step)
  show ?thesis
    using p j1 keepsD [OF changes j1] by (cases r) (auto simp: begin_intent_def Let_def split: prod.split)
qed

lemma track_seal_intent [track_rules]: "keeps (on_track contents X s0) (seal_intent X W C m i)"
  unfolding seal_intent_def
  by (intro keeps_rules track_rules track_change_intent_pure coord_step.seal_intent)

lemma track_clear_intent [track_rules]: "keeps (on_track contents X s0) (clear_intent X W C m i)"
  unfolding clear_intent_def
  by (intro keeps_rules track_rules track_change_intent_pure coord_step.clear_intent)

end
