(* ===== verification/ProcessCalls.thy ===== *)
theory ProcessCalls
  imports CoordinatorCalls
begin

text \<open>
  Sequences of calls of one process, among other processes: publications, journals, the coordinator's
  operations, collection, recovery and migration intents. Two invariants hold throughout: the
  coordinator stays on track, and the guard's count of active operations is the number of journal
  claims that can still be given back.
\<close>

subsection \<open>Calls\<close>

datatype api =
  Admit bytes bytes "objref list" | Complete bytes bytes | Seal | Hold bytes | ReleaseHeld bytes bytes
| ReleaseSeal bytes | RecoverSeal bytes u64 | Activate bytes bytes | Deactivate bytes | CheckWrite
| BeginPublication bytes bytes | PutSource "nat option" bytes bytes | CompletePublication "nat option" bytes bytes
| EndAttempt bytes | BeginJournal bytes bytes journal | AcknowledgeRemoval
| AcquireLease head bytes "time \<times> time" "objref list" | Sweep "bytes list" head bytes | ReleaseLease head bytes
| RecoverCollection bytes u64 | Bootstrap
| BeginIntent migration_run intent_kind "migration option" | SealIntent migration intent | ClearIntent migration intent

definition void :: "('s, 'e, 'a) step \<Rightarrow> ('s, 'e, unit) step" where
  "void m = andthen m (\<lambda>_. give ())"

definition begin_intent_act :: "environment \<Rightarrow> writer \<Rightarrow> call_context \<Rightarrow> migration_run \<Rightarrow> intent_kind \<Rightarrow> migration option \<Rightarrow> unit act" where
  "begin_intent_act X W C M kind predecessor w =
     (case begin_intent X W C M kind predecessor w of (r, _, w') \<Rightarrow> (r, w'))"

definition bootstrap :: "environment \<Rightarrow> writer \<Rightarrow> (head \<times> bytes) act" where
  "bootstrap X W = andthen (bootstrap_authority X) (\<lambda>seen. gc_head X W (Some (authorize_bootstrap X W W seen)))"

definition recovery_barrier :: "environment \<Rightarrow> bytes \<Rightarrow> u64 \<Rightarrow> objref list option act" where
  "recovery_barrier X owner generation = andthen (recovery_hold X owner generation None) (\<lambda>refs. give (Some refs))"

fun perform :: "local_env \<Rightarrow> writer \<Rightarrow> call_context \<Rightarrow> api \<Rightarrow> unit pact" where
  "perform Y W C (Admit owner digest refs) = on_world (admit (env_of Y) W C owner digest refs)"
| "perform Y W C (Complete owner digest) = on_world (complete (env_of Y) W C owner digest)"
| "perform Y W C Seal = on_world (void (seal (env_of Y) W C))"
| "perform Y W C (Hold owner) = on_world (void (hold_barrier (env_of Y) W C owner))"
| "perform Y W C (ReleaseHeld owner hold) = on_world (release_held (env_of Y) W C owner hold)"
| "perform Y W C (ReleaseSeal owner) = on_world (release (env_of Y) W C owner)"
| "perform Y W C (RecoverSeal owner generation) = on_world (recover_unleased_seal (env_of Y) W C owner generation)"
| "perform Y W C (Activate owner proof) = on_world (activate (env_of Y) W C owner proof)"
| "perform Y W C (Deactivate owner) = on_world (deactivate (env_of Y) W C owner)"
| "perform Y W C CheckWrite = on_world (check_authority (env_of Y) W C)"
| "perform Y W C (BeginPublication sid metadata) = void (begin_publication Y W C sid metadata)"
| "perform Y W C (PutSource a key raw) = put_claimed_source Y a key raw"
| "perform Y W C (CompletePublication a sid metadata) = complete_publication Y W C a sid metadata"
| "perform Y W C (EndAttempt sid) = update_process (end_publication_attempt sid)"
| "perform Y W C (BeginJournal sid raw j) = void (begin_journal_publication Y W C sid raw j)"
| "perform Y W C AcknowledgeRemoval = acknowledge_journal_removal Y W C"
| "perform Y W C (AcquireLease h etag clock refs) = on_world (void (acquire_gc (env_of Y) W C h etag clock refs))"
| "perform Y W C (Sweep live h etag) = on_world (remove_unreachable (env_of Y) W live h etag)"
| "perform Y W C (ReleaseLease h etag) = on_world (release_gc (env_of Y) W C h etag)"
| "perform Y W C (RecoverCollection owner generation) =
     on_world (recover_gc (env_of Y) W C (Some (recovery_barrier (env_of Y) owner generation)) owner)"
| "perform Y W C Bootstrap = on_world (void (bootstrap (env_of Y) W))"
| "perform Y W C (BeginIntent M kind predecessor) = on_world (begin_intent_act (env_of Y) W C M kind predecessor)"
| "perform Y W C (SealIntent m i) = on_world (seal_intent (env_of Y) W C m i)"
| "perform Y W C (ClearIntent m i) = on_world (clear_intent (env_of Y) W C m i)"

fun run_calls :: "local_env \<Rightarrow> (writer \<times> call_context \<times> api) list \<Rightarrow> process \<Rightarrow> process" where
  "run_calls Y [] p = p"
| "run_calls Y ((W, C, call) # calls) p = run_calls Y calls (snd (perform Y W C call p))"

lemma run_calls_keeps:
  assumes "\<And>W C call. keeps P (perform Y W C call)" "P p"
  shows "P (run_calls Y calls p)"
  using assms(2)
proof (induction calls arbitrary: p)
  case (Cons call calls)
  obtain W C c where "call = (W, C, c)" by (cases call)
  moreover have "P (snd (perform Y W C c p))" using assms(1) Cons.prems by (simp add: keeps_def)
  ultimately show ?case using Cons.IH by simp
qed simp

lemma void_Inl: "snd (void m p) = snd (m p)"
  by (auto simp: void_def andthen_def give_def split: prod.split sum.split)

lemma keeps_void [keeps_rules]: "keeps P m \<Longrightarrow> keeps P (void m)"
  by (simp add: keeps_def void_Inl)

subsection \<open>The claims refer to source objects\<close>

definition source_refs :: "objref list \<Rightarrow> bool" where
  "source_refs refs = list_all (\<lambda>r. has_prefix (rkey r) ''sessions/'') refs"

lemma metadata_object_key_split:
  "metadata_object_key harness sid = Inr k \<Longrightarrow> k = session_prefix harness sid @ ''metadata.json''"
  by (auto simp: metadata_object_key_def split: if_splits)

lemma canonical_source_key:
  assumes "canonical_source canonical r" "metadata_object_key harness sid = Inr canonical"
  shows "has_prefix (sr_key r) ''sessions/''"
proof -
  have c: "canonical = session_prefix harness sid @ ''metadata.json''" using assms(2) by (rule metadata_object_key_split)
  have "take (length canonical - length ''metadata.json'') canonical = session_prefix harness sid"
    unfolding c by simp
  then have "sr_key r = session_prefix harness sid @ ''source.'' @ sr_sha r @ ''.jsonl.gz''"
    using assms(1) by (auto simp: canonical_source_def split: option.splits)
  then show ?thesis by (simp add: has_prefix_conv session_prefix_def)
qed

lemma publication_admission_refs:
  assumes "publication_admission Y raw = Inr (refs, digest)"
  shows "source_refs refs"
proof -
  obtain m sources where m: "canonical_source_references m = Inr sources"
      "refs = map (\<lambda>r. \<lparr>rkey = sr_key r, rsha = sr_sha r\<rparr>) sources"
    using assms by (auto simp: publication_admission_def sbind_Inr_conv split: if_splits option.splits)
  then obtain canonical where "metadata_object_key (md_harness m) (md_session m) = Inr canonical"
      "list_all (canonical_source canonical) sources"
    by (auto simp: canonical_source_references_def split: sum.splits if_splits)
  then show ?thesis
    unfolding source_refs_def m(2) by (auto simp: list_all_iff intro: canonical_source_key)
qed

lemma source_key_not_coordinator: "has_prefix key ''sessions/'' \<Longrightarrow> key \<noteq> coordinator_key"
  by (auto simp: has_prefix_def coordinator_key_def)

subsection \<open>The process stays on track\<close>

definition proc_ok :: "(bytes \<Rightarrow> bytes) \<Rightarrow> local_env \<Rightarrow> admissions \<Rightarrow> process \<Rightarrow> bool" where
  "proc_ok contents Y s0 p \<longleftrightarrow>
     on_track contents (env_of Y) s0 (ps_world p) \<and> list_all (\<lambda>c. source_refs (cl_refs c)) (ps_heap p)"

named_theorems proc_rules \<open>operations of a process that keep it on track\<close>

lemma proc_on_world: "keeps (on_track contents (env_of Y) s0) m \<Longrightarrow> keeps (proc_ok contents Y s0) (on_world m)"
  unfolding keeps_def
proof (intro allI impI)
  fix p assume m: "\<forall>w. on_track contents (env_of Y) s0 w \<longrightarrow> on_track contents (env_of Y) s0 (snd (m w))"
    and p: "proc_ok contents Y s0 p"
  obtain r w where w: "m (ps_world p) = (r, w)" by fastforce
  then have "on_track contents (env_of Y) s0 w" using m p by (auto simp: proc_ok_def dest: spec [of _ "ps_world p"])
  then show "proc_ok contents Y s0 (snd (on_world m p))" using p w by (simp add: proc_ok_def on_world_def)
qed

lemma proc_get [proc_rules]: "keeps P get_process"
  by (simp add: keeps_def get_process_def)

lemma proc_answer [proc_rules]: "keeps P (\<lambda>p. (f p, p))"
  by (simp add: keeps_def)

lemma proc_update:
  assumes "\<And>p. P p \<Longrightarrow> P (f p)"
  shows "keeps P (update_process f)"
  using assms by (simp add: keeps_def update_process_def)

lemma proc_ok_guard [simp]: "proc_ok contents Y s0 (p\<lparr>ps_guard := g\<rparr>) = proc_ok contents Y s0 p"
  by (simp add: proc_ok_def)

lemma proc_ok_end [simp]: "proc_ok contents Y s0 (end_operation p) = proc_ok contents Y s0 p"
  by (simp add: end_operation_def)

lemma proc_ok_release [simp]: "proc_ok contents Y s0 (release_claim owner p) = proc_ok contents Y s0 p"
  by (simp add: release_claim_def)

lemma proc_ok_maps [simp]:
  "proc_ok contents Y s0 (drop_maps sid p) = proc_ok contents Y s0 p"
  "proc_ok contents Y s0 (drop_running sid p) = proc_ok contents Y s0 p"
  by (simp_all add: proc_ok_def drop_maps_def drop_running_def)

lemma proc_ok_enter:
  "proc_ok contents Y s0 p \<Longrightarrow> source_refs (cl_refs c) \<Longrightarrow> proc_ok contents Y s0 (enter_claim c p)"
  by (simp add: proc_ok_def enter_claim_def)

lemma proc_ok_set_claim:
  assumes "proc_ok contents Y s0 p" "\<And>c. cl_refs (f c) = cl_refs c"
  shows "proc_ok contents Y s0 (set_claim i f p)"
proof (cases "i < length (ps_heap p)")
  case True
  then have "source_refs (cl_refs (ps_heap p ! i))" using assms(1) by (simp add: proc_ok_def list_all_length)
  then show ?thesis
    using assms True by (auto simp: proc_ok_def set_claim_def list_all_length nth_list_update)
next
  case False
  then show ?thesis using assms by (simp add: proc_ok_def set_claim_def list_update_beyond)
qed

lemma proc_ok_run_release: "proc_ok contents Y s0 p \<Longrightarrow> proc_ok contents Y s0 (run_release i p)"
  by (auto simp: run_release_def Let_def intro!: proc_ok_set_claim split: option.split)

lemma proc_guard_validate [proc_rules]: "keeps P (guard_validate Y)"
  by (simp add: keeps_def guard_validate_def)

lemma proc_guard_origin [proc_rules]: "keeps P (guard_origin Y)"
  unfolding guard_origin_def by (intro keeps_rules proc_rules)

lemma proc_begin_operation [proc_rules]: "keeps (proc_ok contents Y s0) (begin_operation Y origin)"
  unfolding begin_operation_def by (intro keeps_rules proc_rules proc_update) simp

lemma proc_claim_journal [proc_rules]: "keeps (proc_ok contents Y s0) (claim_journal Y origin owner)"
  unfolding claim_journal_def by (intro keeps_rules proc_rules proc_update) simp_all


lemma proc_admission:
  assumes "\<And>refs digest. source_refs refs \<Longrightarrow> keeps P (f (refs, digest))"
  shows "keeps P (andthen (lift_sum (publication_admission Y raw)) f)"
  using assms by (intro keeps_lift) (auto dest: publication_admission_refs)

lemma track_begin_changes:
  "keeps (on_track contents X s0) (coord_change X W C (pure (transfer_state old owner digest refs)))"
  "keeps (on_track contents X s0) (coord_change X W C (pure (open_state sid owner digest refs)))"
proof -
  show "keeps (on_track contents X s0) (coord_change X W C (pure (transfer_state old owner digest refs)))"
    by (intro track_change_pure coord_step.transfer)
  show "keeps (on_track contents X s0) (coord_change X W C (pure (open_state sid owner digest refs)))"
    by (intro track_change_pure coord_step.open_publication)
qed

lemma proc_begin_publication: "keeps (proc_ok contents Y s0) (begin_publication Y W C sid metadata)"
  unfolding begin_publication_def Let_def
  by (intro proc_admission keeps_rules proc_rules proc_on_world track_rules track_begin_changes proc_update proc_ok_enter)
    simp_all

lemma guard_origin_state: "snd (guard_origin Y p) = p"
  by (simp add: guard_origin_def guard_validate_def andthen_def get_process_def give_def split: prod.split sum.split)

lemma check_claim_origin_state: "snd (check_claim_origin Y c p) = p"
  using guard_origin_state [of Y p]
  by (auto simp: check_claim_origin_def give_def split: prod.split sum.split option.split)

lemma proc_check_origin [proc_rules]: "keeps P (check_claim_origin Y c)"
  by (simp add: keeps_def check_claim_origin_state)

lemma proc_publication_claim: "keeps (proc_ok contents Y s0) (publication_claim Y a)"
  unfolding publication_claim_def Let_def by (intro keeps_rules proc_rules proc_on_world track_rules)

lemma on_world_Inr: "on_world m p = (Inr x, p') \<longleftrightarrow> (\<exists>w. m (ps_world p) = (Inr x, w) \<and> p' = p\<lparr>ps_world := w\<rparr>)"
  by (auto simp: on_world_def split: prod.splits)

lemma claim_at_world [simp]: "claim_at (p\<lparr>ps_world := w\<rparr>) a = claim_at p a"
  by (simp add: claim_at_def split: option.split)

lemma claim_running_world [simp]: "claim_running (p\<lparr>ps_world := w\<rparr>) a = claim_running p a"
  by (simp add: claim_running_def split: option.split)

lemma publication_claimD:
  assumes "publication_claim Y a p = (Inr c, p')"
  shows "claim_at p a = Some c" "claim_running p a" "c \<in> set (ps_heap p)" "\<exists>w. p' = p\<lparr>ps_world := w\<rparr>"
proof -
  let ?X = "env_of Y"
  from assms obtain u p0 where p0: "on_world (context_err ?X) p = (Inr u, p0)"
      and 1: "andthen get_process (\<lambda>p. case claim_at p a of None \<Rightarrow> raise AdmissionClosed
        | Some c \<Rightarrow> if \<not> claim_running p a then raise AdmissionClosed
          else andthen (check_claim_origin Y c) (\<lambda>_.
            andthen (on_world (coord_read ?X)) (\<lambda>(s, _). andthen (on_world (live_head ?X)) (\<lambda>(h, _).
              if claim_admitted c h s then give c else raise AdmissionClosed)))) p0 = (Inr c, p')"
    unfolding publication_claim_def Let_def by (rule andthen_InrE)
  from p0 obtain w1 where w1: "p0 = p\<lparr>ps_world := w1\<rparr>" by (auto simp: on_world_Inr)
  from 1 obtain c' where c': "claim_at p a = Some c'" "claim_running p a"
      and 2: "andthen (check_claim_origin Y c') (\<lambda>_.
        andthen (on_world (coord_read ?X)) (\<lambda>(s, _). andthen (on_world (live_head ?X)) (\<lambda>(h, _).
          if claim_admitted c' h s then give c' else raise AdmissionClosed))) (p\<lparr>ps_world := w1\<rparr>) = (Inr c, p')"
    by (auto simp: andthen_Inr [of get_process] get_process_def w1 split: option.splits if_splits)
  from 2 obtain v p1 where p1: "check_claim_origin Y c' (p\<lparr>ps_world := w1\<rparr>) = (Inr v, p1)"
      and rest: "andthen (on_world (coord_read ?X)) (\<lambda>(s, _). andthen (on_world (live_head ?X)) (\<lambda>(h, _).
          if claim_admitted c' h s then give c' else raise AdmissionClosed)) p1 = (Inr c, p')"
    by (rule andthen_InrE)
  have "p1 = p\<lparr>ps_world := w1\<rparr>" using check_claim_origin_state [of Y c' "p\<lparr>ps_world := w1\<rparr>"] p1 by simp
  then have "c = c' \<and> (\<exists>w. p' = p\<lparr>ps_world := w\<rparr>)"
    using rest by (auto simp: andthen_Inr on_world_Inr split: if_splits)
  then show "claim_at p a = Some c" "claim_running p a" "\<exists>w. p' = p\<lparr>ps_world := w\<rparr>" using c' by simp_all
  then show "c \<in> set (ps_heap p)" by (auto simp: claim_at_def split: option.splits if_splits)
qed


lemma proc_ok_world: "proc_ok contents Y s0 (p\<lparr>ps_world := w\<rparr>) \<Longrightarrow> list_all (\<lambda>c. source_refs (cl_refs c)) (ps_heap p)"
  by (simp add: proc_ok_def)

lemma track_put_source:
  assumes "key \<noteq> coordinator_key"
  shows "keeps (on_track contents X s0) (\<lambda>w. case put_conditional X key raw cond w of
      (Inr _, w1) \<Rightarrow> (Inr (), w1)
    | (Inl e, w1) \<Rightarrow>
        (case get_limited_object X key limit w1 of
           (Inl e2, w2) \<Rightarrow> (Inl (Join e e2), w2)
         | (Inr existing, w2) \<Rightarrow> if existing \<noteq> raw then (Inl ChecksumMismatch, w2) else context_err X w2))"
  unfolding keeps_def
proof (intro allI impI)
  fix w assume j: "on_track contents X s0 w"
  obtain r w1 where put: "put_conditional X key raw cond w = (r, w1)" by fastforce
  have j1: "on_track contents X s0 w1" by (rule keepsD [OF track_put [OF assms] j put])
  obtain q w2 where get: "get_limited_object X key limit w1 = (q, w2)" by fastforce
  have "keeps (on_track contents X s0) (get_limited_object X key limit)"
    unfolding get_limited_object_def by (intro keeps_rules track_rules)
  from keepsD [OF this j1 get] have j2: "on_track contents X s0 w2" .
  show "on_track contents X s0 (snd (case put_conditional X key raw cond w of
      (Inr _, w1) \<Rightarrow> (Inr (), w1)
    | (Inl e, w1) \<Rightarrow>
        (case get_limited_object X key limit w1 of
           (Inl e2, w2) \<Rightarrow> (Inl (Join e e2), w2)
         | (Inr existing, w2) \<Rightarrow> if existing \<noteq> raw then (Inl ChecksumMismatch, w2) else context_err X w2)))"
    using j1 j2 put get by (auto simp: context_err_def split: sum.splits)
qed

lemma proc_put_claimed_source: "keeps (proc_ok contents Y s0) (put_claimed_source Y a key raw)"
  unfolding keeps_def
proof (intro allI impI)
  fix p assume ok: "proc_ok contents Y s0 p"
  obtain r p1 where claim: "publication_claim Y a p = (r, p1)" by fastforce
  have ok1: "proc_ok contents Y s0 p1" by (rule keepsD [OF proc_publication_claim ok claim])
  show "proc_ok contents Y s0 (snd (put_claimed_source Y a key raw p))"
  proof (cases "\<exists>c. r = Inr c \<and> \<lparr>rkey = key, rsha = t_sha (x_run (env_of Y)) raw\<rparr> \<in> set (cl_refs c)")
    case True
    then obtain c where c: "r = Inr c" "\<lparr>rkey = key, rsha = t_sha (x_run (env_of Y)) raw\<rparr> \<in> set (cl_refs c)" by blast
    then have "c \<in> set (ps_heap p)" using claim by (auto dest: publication_claimD)
    then have "source_refs (cl_refs c)" using ok by (simp add: proc_ok_def list_all_iff)
    then have "has_prefix key ''sessions/''" using c(2) by (force simp: source_refs_def list_all_iff)
    then have "key \<noteq> coordinator_key" by (rule source_key_not_coordinator)
    note step = proc_on_world [OF track_put_source [OF this, where raw = raw and limit = "int (length raw)"
        and cond = "\<lparr>pc_match = [], pc_create = True\<rparr>"]]
    show ?thesis
      using keepsD [OF step ok1 surjective_pairing] claim c
      by (simp add: put_claimed_source_def Let_def andthen_def)
  next
    case False
    then show ?thesis
      using claim ok1 by (cases r) (auto simp: put_claimed_source_def Let_def andthen_def raise_def)
  qed
qed

lemma track_complete_journal: "keeps (on_track contents (env_of Y) s0) (complete_journal Y W C c j)"
proof -
  have "keeps (on_track contents (env_of Y) s0) (tree_lookup Y root key)" for root key
    by (simp add: keeps_def tree_lookup_def Let_def on_track_arrive)
  then show ?thesis
    unfolding complete_journal_def verify_journal_commit_def
    by (intro keeps_rules track_rules track_change_pure coord_step.complete_journal)
qed

lemma proc_complete_claimed:
  "keeps (proc_ok contents Y s0) (andthen (on_world (complete_journal Y W C c j)) (\<lambda>_.
     update_process (\<lambda>p. drop_maps sid (set_claim i (\<lambda>c. c\<lparr>cl_replay := True\<rparr>) p))))"
  "keeps (proc_ok contents Y s0) (andthen (on_world (complete (env_of Y) W C owner digest)) (\<lambda>_.
     update_process (\<lambda>p. drop_running sid (drop_maps sid (run_release i p)))))"
  by (intro keeps_rules proc_on_world track_complete_journal proc_update; simp add: proc_ok_set_claim)
    (intro keeps_rules proc_on_world track_rules proc_update; simp add: proc_ok_run_release)

lemma proc_complete_publication: "keeps (proc_ok contents Y s0) (complete_publication Y W C a sid metadata)"
proof -
  have "keeps (proc_ok contents Y s0) (\<lambda>p. case publication_claim Y a p of
      (Inl _, p1) \<Rightarrow> (Inl AdmissionClosed, p1)
    | (Inr c, p1) \<Rightarrow>
        if cl_id c \<noteq> sid \<or> cl_digest c \<noteq> digest then (Inl AdmissionClosed, p1)
        else
          (case cl_journal c of
             Some j \<Rightarrow>
               andthen (on_world (complete_journal Y W C c j)) (\<lambda>_.
                 update_process (\<lambda>p. drop_maps sid (set_claim (the a) (\<lambda>c. c\<lparr>cl_replay := True\<rparr>) p))) p1
           | None \<Rightarrow>
               andthen (on_world (complete (env_of Y) W C (cl_owner c) digest)) (\<lambda>_.
                 update_process (\<lambda>p. drop_running sid (drop_maps sid (run_release (the a) p)))) p1))" for digest
    unfolding keeps_def
  proof (intro allI impI)
    fix p assume ok: "proc_ok contents Y s0 p"
    obtain r p1 where claim: "publication_claim Y a p = (r, p1)" by fastforce
    have ok1: "proc_ok contents Y s0 p1" by (rule keepsD [OF proc_publication_claim ok claim])
    show "proc_ok contents Y s0 (snd (case publication_claim Y a p of
      (Inl _, p1) \<Rightarrow> (Inl AdmissionClosed, p1)
    | (Inr c, p1) \<Rightarrow>
        if cl_id c \<noteq> sid \<or> cl_digest c \<noteq> digest then (Inl AdmissionClosed, p1)
        else
          (case cl_journal c of
             Some j \<Rightarrow>
               andthen (on_world (complete_journal Y W C c j)) (\<lambda>_.
                 update_process (\<lambda>p. drop_maps sid (set_claim (the a) (\<lambda>c. c\<lparr>cl_replay := True\<rparr>) p))) p1
           | None \<Rightarrow>
               andthen (on_world (complete (env_of Y) W C (cl_owner c) digest)) (\<lambda>_.
                 update_process (\<lambda>p. drop_running sid (drop_maps sid (run_release (the a) p)))) p1)))"
      using claim ok1 proc_complete_claimed [unfolded keeps_def]
      by (cases r) (simp_all split: option.split)
  qed
  then show ?thesis unfolding complete_publication_def by (intro keeps_rules)
qed

lemma proc_end_attempt: "proc_ok contents Y s0 p \<Longrightarrow> proc_ok contents Y s0 (end_publication_attempt sid p)"
  by (simp add: end_publication_attempt_def proc_ok_run_release split: option.split)

lemma proc_begin_journal_claimed: "keeps (proc_ok contents Y s0) (begin_journal_claimed Y W C h sid raw j)"
proof -
  have change: "keeps (on_track contents (env_of Y) s0)
      (coord_change (env_of Y) W C (\<lambda>_ s. lift_sum (journal_state h j sid owner digest refs s)))" for owner digest refs
  proof (rule track_change)
    show "moves (env_of Y) (\<lambda>_ s. lift_sum (journal_state h j sid owner digest refs s))"
      by (rule moves_lift) (auto intro: coord_step.journal)
  qed (intro keeps_rules)
  show ?thesis
    unfolding begin_journal_claimed_def Let_def
    by (intro proc_admission keeps_rules proc_rules proc_on_world track_rules change proc_update proc_ok_enter) simp_all
qed

lemma proc_begin_journal: "keeps (proc_ok contents Y s0) (begin_journal_publication Y W C sid raw j)"
proof -
  have "keeps (proc_ok contents Y s0) (\<lambda>p. case begin_journal_claimed Y W C h sid raw j p of
      (Inr r, p') \<Rightarrow> (Inr r, p') | (Inl e, p') \<Rightarrow> (Inl e, release_claim (jn_owner j) p'))" for h
    using keepsD [OF proc_begin_journal_claimed [of contents Y s0 W C h sid raw j]]
    by (fastforce simp: keeps_def split: prod.split sum.split)
  then show ?thesis
    unfolding begin_journal_publication_def by (intro keeps_rules proc_rules proc_on_world track_rules)
qed

lemma proc_acknowledge: "keeps (proc_ok contents Y s0) (acknowledge_journal_removal Y W C)"
proof -
  have change: "keeps (proc_ok contents Y s0) (on_world (coord_change (env_of Y) W C (pure (acknowledge_state j))))" for j
    by (intro proc_on_world track_change_pure coord_step.acknowledge)
  have "keeps (proc_ok contents Y s0) (\<lambda>p.
      case (if ps_destination p = [] \<or> jn_destination j \<noteq> ps_destination p then (Inl AdmissionClosed, p)
            else on_world (coord_change (env_of Y) W C (pure (acknowledge_state j))) p) of
        (r, p') \<Rightarrow> (r, end_operation p'))" for j
    using keepsD [OF change [of j]] by (auto simp: keeps_def split: prod.split)
  then show ?thesis
    unfolding acknowledge_journal_removal_def by (intro keeps_rules proc_rules)
qed

lemma track_check_authority: "keeps (on_track contents X s0) (check_authority X W C)"
  unfolding check_authority_def by (intro keeps_rules track_rules)

lemma track_begin_intent_act: "keeps (on_track contents X s0) (begin_intent_act X W C M kind predecessor)"
  using track_begin_intent
  by (auto simp: keeps_def begin_intent_act_def split: prod.split) (metis snd_conv)

lemma track_bootstrap_head: "keeps (on_track contents X s0) (bootstrap X W)"
  unfolding bootstrap_def by (intro keeps_rules track_rules) (auto intro: track_authorize)

lemma track_recovery_barrier: "keeps (on_track contents X s0) (recovery_barrier X owner generation)"
  unfolding recovery_barrier_def by (intro keeps_rules track_rules) simp

lemma perform_proc_ok: "keeps (proc_ok contents Y s0) (perform Y W C call)"
proof (cases call)
  case (RecoverCollection owner generation)
  then show ?thesis
    by (auto intro!: proc_on_world track_recover_gc track_recovery_barrier)
qed (auto intro!: keeps_rules proc_on_world track_rules track_check_authority track_begin_intent_act track_bootstrap_head
  proc_begin_publication proc_put_claimed_source proc_complete_publication proc_update proc_end_attempt
  proc_begin_journal proc_acknowledge)

end
