(* ===== verification/GuardCount.thy ===== *)
theory GuardCount
  imports ProcessCalls
begin

text \<open>
  The collector guard's count of active operations. \<open>accounted k p\<close>: the count is the number of claims
  whose release has not run, and k more; each of those claims is the one its publication's entry in
  the map of claims names, so that ending the attempt runs it.
\<close>

definition open_claims :: "process \<Rightarrow> nat" where
  "open_claims p = length (filter cl_release (ps_heap p))"

definition accounted :: "nat \<Rightarrow> process \<Rightarrow> bool" where
  "accounted k p \<longleftrightarrow>
     g_active (ps_guard p) = open_claims p + k \<and>
     (\<forall>i < length (ps_heap p). cl_release (ps_heap p ! i) \<longrightarrow>
        cl_journal (ps_heap p ! i) \<noteq> None \<and> ps_claims p (cl_id (ps_heap p ! i)) = Some i) \<and>
     (\<forall>sid i. ps_claims p sid = Some i \<longrightarrow> ps_running p sid \<and> i < length (ps_heap p) \<and> cl_id (ps_heap p ! i) = sid)"

lemma accountedI:
  assumes "g_active (ps_guard p) = open_claims p + k"
    and "\<And>i. i < length (ps_heap p) \<Longrightarrow> cl_release (ps_heap p ! i) \<Longrightarrow>
      cl_journal (ps_heap p ! i) \<noteq> None \<and> ps_claims p (cl_id (ps_heap p ! i)) = Some i"
    and "\<And>sid i. ps_claims p sid = Some i \<Longrightarrow> ps_running p sid \<and> i < length (ps_heap p) \<and> cl_id (ps_heap p ! i) = sid"
  shows "accounted k p"
  using assms by (simp add: accounted_def)

lemma accounted_active: "accounted k p \<Longrightarrow> g_active (ps_guard p) = open_claims p + k"
  by (simp add: accounted_def)

lemma accounted_open:
  "accounted k p \<Longrightarrow> i < length (ps_heap p) \<Longrightarrow> cl_release (ps_heap p ! i) \<Longrightarrow>
   cl_journal (ps_heap p ! i) \<noteq> None \<and> ps_claims p (cl_id (ps_heap p ! i)) = Some i"
  by (simp add: accounted_def)

lemma accounted_claim:
  "accounted k p \<Longrightarrow> ps_claims p sid = Some i \<Longrightarrow>
   ps_running p sid \<and> i < length (ps_heap p) \<and> cl_id (ps_heap p ! i) = sid"
  by (simp add: accounted_def)

lemma accounted_world [simp]: "accounted k (p\<lparr>ps_world := w\<rparr>) = accounted k p"
  by (simp add: accounted_def open_claims_def)

lemma accounted_guard_claims [simp]:
  "accounted k (p\<lparr>ps_guard := (ps_guard p)\<lparr>g_claims := c\<rparr>\<rparr>) = accounted k p"
  by (simp add: accounted_def open_claims_def)

lemma accounted_maps [simp]: "accounted k (drop_maps sid p) = accounted k p"
  by (simp add: accounted_def open_claims_def drop_maps_def)

lemma accounted_end: "accounted (Suc k) p \<Longrightarrow> accounted k (end_operation p)"
  by (simp add: accounted_def open_claims_def end_operation_def)

lemma accounted_release_claim: "accounted (Suc k) p \<Longrightarrow> accounted k (release_claim owner p)"
  unfolding release_claim_def by (intro accounted_end) simp

lemma length_filter_update:
  assumes "i < length xs" "P (xs ! i)" "\<not> P y"
  shows "length (filter P xs) = Suc (length (filter P (xs[i := y])))"
  using assms
proof (induction xs arbitrary: i)
  case (Cons x xs)
  then show ?case by (cases i) auto
qed simp

lemma length_filter_same:
  assumes "P (xs ! i) = P y"
  shows "length (filter P (xs[i := y])) = length (filter P xs)"
  using assms
proof (induction xs arbitrary: i)
  case (Cons x xs)
  then show ?case by (cases i) auto
qed simp

lemma accounted_set_claim:
  assumes "accounted k p" "\<And>c. cl_release (f c) = cl_release c" "\<And>c. cl_journal (f c) = cl_journal c" "\<And>c. cl_id (f c) = cl_id c"
  shows "accounted k (set_claim i f p)"
proof -
  have "open_claims (set_claim i f p) = open_claims p"
    unfolding open_claims_def set_claim_def by (simp add: assms length_filter_same)
  moreover have at: "cl_release (ps_heap (set_claim i f p) ! n) = cl_release (ps_heap p ! n)"
      "cl_journal (ps_heap (set_claim i f p) ! n) = cl_journal (ps_heap p ! n)"
      "cl_id (ps_heap (set_claim i f p) ! n) = cl_id (ps_heap p ! n)" for n
    by (simp_all add: set_claim_def nth_update assms)
  moreover have "length (ps_heap (set_claim i f p)) = length (ps_heap p)" "ps_claims (set_claim i f p) = ps_claims p"
      "ps_running (set_claim i f p) = ps_running p" "ps_guard (set_claim i f p) = ps_guard p"
    by (simp_all add: set_claim_def)
  ultimately show ?thesis
    using accounted_active [OF assms(1)] accounted_open [OF assms(1)] accounted_claim [OF assms(1)]
    by (intro accountedI) simp_all
qed

text \<open>Running the release of the claim that the map names.\<close>

lemma accounted_run_release:
  assumes "accounted k p" "ps_claims p sid = Some i"
  shows "accounted k (drop_running sid (run_release i p))"
proof -
  have i: "i < length (ps_heap p)" "cl_id (ps_heap p ! i) = sid"
    using accounted_claim [OF assms] by simp_all
  show ?thesis
  proof (cases "cl_release (ps_heap p ! i)")
    case True
    then obtain j where j: "cl_journal (ps_heap p ! i) = Some j"
      using accounted_open [OF assms(1) i(1)] by auto
    have count: "open_claims p = Suc (open_claims (set_claim i (\<lambda>c. c\<lparr>cl_release := False\<rparr>) p))"
      unfolding open_claims_def set_claim_def using length_filter_update [of i "ps_heap p" cl_release] i True by simp
    have run: "run_release i p = set_claim i (\<lambda>c. c\<lparr>cl_release := False\<rparr>) (release_claim (jn_owner j) p)"
      using True j by (simp add: run_release_def)
    define q where "q = drop_running sid (run_release i p)"
    have q: "ps_heap q = (ps_heap p)[i := (ps_heap p ! i)\<lparr>cl_release := False\<rparr>]" "ps_claims q = (ps_claims p)(sid := None)"
        "ps_running q = (ps_running p)(sid := False)" "g_active (ps_guard q) = g_active (ps_guard p) - 1"
        "open_claims q = open_claims (set_claim i (\<lambda>c. c\<lparr>cl_release := False\<rparr>) p)"
      by (simp_all add: q_def run set_claim_def drop_running_def release_claim_def end_operation_def open_claims_def)
    have "accounted k q"
    proof (rule accountedI, goal_cases)
      case 1
      then show ?case using count accounted_active [OF assms(1)] q(4,5) by simp
    next
      case (2 n)
      then have n: "n < length (ps_heap p)" "n \<noteq> i" "cl_release (ps_heap p ! n)"
        by (auto simp: q(1) nth_update split: if_splits)
      from accounted_open [OF assms(1) n(1,3)] have o: "cl_journal (ps_heap p ! n) \<noteq> None" "ps_claims p (cl_id (ps_heap p ! n)) = Some n"
        by simp_all
      then have "cl_id (ps_heap p ! n) \<noteq> sid" using n(2) assms(2) by auto
      then show ?case using n o by (simp add: q(1,2) nth_update)
    next
      case (3 s n)
      then have "s \<noteq> sid" "ps_claims p s = Some n" by (auto simp: q(2) split: if_splits)
      with accounted_claim [OF assms(1) this(2)] show ?case by (auto simp: q(1,3) nth_update)
    qed
    then show ?thesis by (simp add: q_def)
  next
    case False
    then have "run_release i p = p" by (simp add: run_release_def Let_def split: option.split)
    moreover have "ps_heap (drop_running sid p) = ps_heap p" "ps_claims (drop_running sid p) = (ps_claims p)(sid := None)"
        "ps_running (drop_running sid p) = (ps_running p)(sid := False)" "ps_guard (drop_running sid p) = ps_guard p"
      by (simp_all add: drop_running_def)
    moreover have "cl_id (ps_heap p ! n) \<noteq> sid" if n: "n < length (ps_heap p)" "cl_release (ps_heap p ! n)" for n
      using accounted_open [OF assms(1) n] False n(2) assms(2) by auto
    ultimately show ?thesis
      using accounted_active [OF assms(1)] accounted_open [OF assms(1)] accounted_claim [OF assms(1)]
      by (intro accountedI) (auto simp: open_claims_def split: if_splits)
  qed
qed

lemma accounted_drop_running:
  assumes "accounted k p" "ps_claims p sid = None"
  shows "accounted k (drop_running sid p)"
proof -
  have "cl_id (ps_heap p ! i) \<noteq> sid" if i: "i < length (ps_heap p)" "cl_release (ps_heap p ! i)" for i
    using accounted_open [OF assms(1) i] assms(2) by auto
  then show ?thesis
    using accounted_active [OF assms(1)] accounted_open [OF assms(1)] accounted_claim [OF assms(1)]
    by (intro accountedI) (auto simp: open_claims_def drop_running_def split: if_splits)
qed

lemma accounted_end_attempt: "accounted k p \<Longrightarrow> accounted k (end_publication_attempt sid p)"
  by (auto simp: end_publication_attempt_def accounted_run_release accounted_drop_running split: option.split)

lemma accounted_enter:
  assumes "accounted (k + (if cl_release c then 1 else 0)) p" "\<not> ps_running p (cl_id c)" "cl_release c \<Longrightarrow> cl_journal c \<noteq> None"
  shows "accounted k (enter_claim c p)"
proof -
  have none: "ps_claims p (cl_id c) = None"
    using accounted_claim [OF assms(1)] assms(2) by (cases "ps_claims p (cl_id c)") auto
  have other: "cl_id (ps_heap p ! i) \<noteq> cl_id c" if i: "i < length (ps_heap p)" "cl_release (ps_heap p ! i)" for i
    using accounted_open [OF assms(1) i] none by auto
  show ?thesis
  proof (rule accountedI, goal_cases)
    case 1
    then show ?case using accounted_active [OF assms(1)] by (simp add: open_claims_def enter_claim_def)
  next
    case (2 i)
    show ?case
    proof (cases "i = length (ps_heap p)")
      case True
      then show ?thesis using 2 assms(3) by (simp add: enter_claim_def)
    next
      case False
      then have i: "i < length (ps_heap p)" "cl_release (ps_heap p ! i)" using 2 by (auto simp: enter_claim_def nth_append)
      from accounted_open [OF assms(1) i] other [OF i] show ?thesis using i by (simp add: enter_claim_def nth_append)
    qed
  next
    case (3 s i)
    then show ?case
      using accounted_claim [OF assms(1), of s i] by (auto simp: enter_claim_def nth_append split: if_splits)
  qed
qed


subsection \<open>Operations\<close>

definition same_but_world :: "process \<Rightarrow> process \<Rightarrow> bool" where
  "same_but_world q p \<longleftrightarrow> (\<exists>w. p = q\<lparr>ps_world := w\<rparr>)"

lemma same_on_world: "keeps (same_but_world q) (on_world m)"
  by (auto simp: keeps_def same_but_world_def on_world_def split: prod.split)

lemma same_refl [simp]: "same_but_world p p"
  unfolding same_but_world_def by (rule exI [of _ "ps_world p"]) simp

lemma same_accounted: "same_but_world q p \<Longrightarrow> accounted k p = accounted k q"
  by (auto simp: same_but_world_def)

lemma hoare_same:
  assumes "\<And>q. keeps (same_but_world q) m" "\<And>p w. P p \<Longrightarrow> P (p\<lparr>ps_world := w\<rparr>)" "\<And>p. P p \<Longrightarrow> E p"
  shows "hoare P m (\<lambda>_. P) E"
  unfolding hoare_def
proof (intro allI impI)
  fix p assume p: "P p"
  have "same_but_world p (snd (m p))" using assms(1) [of p] by (simp add: keeps_def)
  then have "P (snd (m p))" using assms(2) [OF p] by (auto simp: same_but_world_def)
  then show "case m p of (Inl _, p') \<Rightarrow> E p' | (Inr _, p') \<Rightarrow> P p'"
    using assms(3) by (cases "m p") (auto split: sum.split)
qed

lemma hoare_get: "(\<And>q. hoare (\<lambda>p. p = q \<and> P q) (f q) Q E) \<Longrightarrow> hoare P (andthen get_process f) Q E"
  by (simp add: hoare_def andthen_def get_process_def)

lemma hoare_update: "(\<And>p. P p \<Longrightarrow> Q (f p)) \<Longrightarrow> hoare P (update_process f) (\<lambda>_. Q) E"
  by (simp add: hoare_def update_process_def)

lemma same_publication_claim: "keeps (same_but_world q) (publication_claim Y a)"
  unfolding publication_claim_def Let_def by (intro keeps_rules proc_rules same_on_world)

lemma accounted_enter_step:
  assumes "\<And>p. P p \<Longrightarrow> accounted (k + (if cl_release c then 1 else 0)) p \<and> \<not> ps_running p (cl_id c)" "cl_release c \<Longrightarrow> cl_journal c \<noteq> None"
  shows "hoare P (andthen (update_process (enter_claim c)) (\<lambda>_. give x)) (\<lambda>_. accounted k) E"
proof (rule hoare_andthen)
  show "hoare P (update_process (enter_claim c)) (\<lambda>_. accounted k) E"
    by (rule hoare_update) (use assms in \<open>blast intro: accounted_enter\<close>)
qed (simp add: hoare_give)

definition idle :: "nat \<Rightarrow> bytes \<Rightarrow> process \<Rightarrow> bool" where
  "idle k sid p \<longleftrightarrow> accounted k p \<and> \<not> ps_running p sid"

lemma idle_world [simp]: "idle k sid (p\<lparr>ps_world := w\<rparr>) = idle k sid p"
  by (simp add: idle_def)

lemma hoare_idle_world: "hoare (idle k sid) (on_world m) (\<lambda>_. idle k sid) (accounted k)"
  by (rule hoare_same) (auto intro: same_on_world simp: idle_def)

lemma hoare_const: "(\<And>p. P p \<Longrightarrow> Q p) \<Longrightarrow> (\<And>p. P p \<Longrightarrow> E p) \<Longrightarrow> hoare P (lift_sum r) (\<lambda>_. Q) E"
  by (rule hoare_lift) auto

lemma same_raise: "keeps (same_but_world q) (raise e)"
  by (rule keeps_const)

text \<open>The last part of a begin: a check that the publication is idle, calls, the claim.\<close>

lemma accounted_enter_idle:
  assumes "\<And>q'. keeps (same_but_world q') m" "cl_id c = sid" "cl_release c \<Longrightarrow> cl_journal c \<noteq> None"
  shows "hoare (idle (k + (if cl_release c then 1 else 0)) sid)
      (andthen m (\<lambda>_. andthen (update_process (enter_claim c)) (\<lambda>_. give x)))
      (\<lambda>_. accounted k) (accounted (k + (if cl_release c then 1 else 0)))"
proof (rule hoare_andthen)
  let ?k = "k + (if cl_release c then 1 else 0)"
  show "hoare (idle ?k sid) m (\<lambda>_. idle ?k sid) (accounted ?k)"
    by (rule hoare_same [OF assms(1)]) (auto simp: idle_def)
  show "hoare (idle ?k sid) (andthen (update_process (enter_claim c)) (\<lambda>_. give x)) (\<lambda>_. accounted k) (accounted ?k)"
    by (rule accounted_enter_step) (use assms in \<open>auto simp: idle_def\<close>)
qed

lemma hoare_accounted_world: "hoare (accounted k) (on_world m) (\<lambda>_. accounted k) (accounted k)"
  by (rule hoare_same) (auto intro: same_on_world)

lemma hoare_accounted_const: "hoare (accounted k) (lift_sum r) (\<lambda>_. accounted k) (accounted k)"
  by (rule hoare_const)

lemma hoare_accounted_raise: "hoare (accounted k) (raise e) Q (accounted k)"
  by (rule hoare_raise)

lemma accounted_begin_publication:
  "hoare (accounted k) (begin_publication Y W C sid metadata) (\<lambda>_. accounted k) (accounted k)"
proof -
  have rest: "hoare (\<lambda>p. p = q \<and> accounted k q)
      (if ps_running q sid then raise AdmissionClosed
       else andthen m (\<lambda>_. andthen (update_process (enter_claim \<lparr>cl_id = sid, cl_owner = owner, cl_digest = digest,
         cl_refs = refs, cl_journal = None, cl_release = False, cl_replay = False\<rparr>)) (\<lambda>_. give n)))
      (\<lambda>_. accounted k) (accounted k)"
    if m: "\<And>q'. keeps (same_but_world q') m" for q owner digest refs n m
  proof (rule hoare_if)
    assume free: "\<not> ps_running q sid"
    show "hoare (\<lambda>p. p = q \<and> accounted k q)
      (andthen m (\<lambda>_. andthen (update_process (enter_claim \<lparr>cl_id = sid, cl_owner = owner, cl_digest = digest,
         cl_refs = refs, cl_journal = None, cl_release = False, cl_replay = False\<rparr>)) (\<lambda>_. give n)))
      (\<lambda>_. accounted k) (accounted k)"
      by (rule hoare_weaken, rule accounted_enter_idle [OF m]) (use free in \<open>simp_all add: idle_def\<close>)
  qed (rule hoare_raise, simp)
  have entered: "keeps (same_but_world q') (case prior of
      Some d \<Rightarrow> if d \<noteq> digest then raise MutationReuse else on_world m1
    | None \<Rightarrow> on_world m2)" for q' prior digest and m1 m2 :: "unit act"
    by (intro keeps_rules same_on_world)
  show ?thesis
    unfolding begin_publication_def Let_def
    apply (rule hoare_andthen [OF hoare_accounted_world], rule hoare_if, rule hoare_accounted_raise)
    apply (rule hoare_andthen [OF hoare_accounted_world], rule hoare_prod)
    apply (rule hoare_andthen [OF hoare_accounted_world])
    apply (rule hoare_andthen [OF hoare_accounted_const], rule hoare_prod)
    apply (rule hoare_andthen [OF hoare_accounted_world])
    apply (rule hoare_get, rule rest, rule entered)
    done
qed


lemma hoare_guard_validate: "hoare (accounted k) (guard_validate Y) (\<lambda>_. accounted k) (accounted k)"
  by (rule hoare_same) (simp_all add: keeps_def guard_validate_def)

lemma hoare_guard_origin: "hoare (accounted k) (guard_origin Y) (\<lambda>_. accounted k) (accounted k)"
  by (rule hoare_same) (simp_all add: proc_guard_origin)

lemma accounted_count_up:
  "accounted k p \<Longrightarrow> accounted (Suc k) (p\<lparr>ps_guard := (ps_guard p)\<lparr>g_active := Suc (g_active (ps_guard p))\<rparr>\<rparr>)"
  by (simp add: accounted_def open_claims_def)

lemma hoare_begin_operation: "hoare (accounted k) (begin_operation Y origin) (\<lambda>_. accounted (Suc k)) (accounted k)"
  unfolding begin_operation_def
proof (rule hoare_andthen [OF hoare_guard_validate], rule hoare_get, rule hoare_if)
  show "hoare (\<lambda>p. p = q \<and> accounted k q) (raise Refused) (\<lambda>_. accounted (Suc k)) (accounted k)" for q :: process
    by (rule hoare_raise) simp
  show "hoare (\<lambda>p. p = q \<and> accounted k q)
      (update_process (\<lambda>p. p\<lparr>ps_guard := (ps_guard p)\<lparr>g_active := Suc (g_active (ps_guard p))\<rparr>\<rparr>))
      (\<lambda>_. accounted (Suc k)) (accounted k)" for q
    by (rule hoare_update) (simp add: accounted_count_up)
qed

lemma hoare_claim_journal: "hoare (accounted k) (claim_journal Y origin owner) (\<lambda>_. accounted (Suc k)) (accounted k)"
  unfolding claim_journal_def
proof (rule hoare_andthen [OF hoare_begin_operation], rule hoare_get, rule hoare_if)
  show "hoare (\<lambda>p. p = q \<and> accounted (Suc k) q) (andthen (update_process end_operation) (\<lambda>_. raise Refused))
      (\<lambda>_. accounted (Suc k)) (accounted k)" for q :: process
    by (rule hoare_andthen [where Q = "\<lambda>_. accounted k"], rule hoare_update) (auto simp: accounted_end intro: hoare_raise)
  show "hoare (\<lambda>p. p = q \<and> accounted (Suc k) q)
      (update_process (\<lambda>p. p\<lparr>ps_guard := (ps_guard p)\<lparr>g_claims := (g_claims (ps_guard p))(owner := True)\<rparr>\<rparr>))
      (\<lambda>_. accounted (Suc k)) (accounted k)" for q
    by (rule hoare_update) simp
qed

lemma hoare_journal_claimed:
  "hoare (accounted (Suc k)) (begin_journal_claimed Y W C h sid raw j) (\<lambda>_. accounted k) (accounted (Suc k))"
proof -
  let ?c = "\<lambda>owner digest refs fin. \<lparr>cl_id = sid, cl_owner = owner, cl_digest = digest, cl_refs = refs,
      cl_journal = Some j, cl_release = True, cl_replay = fin\<rparr>"
  note world = hoare_same [OF same_on_world, where P = "idle (Suc k) sid" and E = "accounted (Suc k)"]
  have weak: "idle (Suc k) sid p \<Longrightarrow> accounted (Suc k) p" for p by (simp add: idle_def)
  have state: "hoare (idle (Suc k) sid) m (\<lambda>_. idle (Suc k) sid) (accounted (Suc k))"
    if "\<And>p. snd (m p) = p" for m :: "'b pact"
    by (rule hoare_same) (auto simp: keeps_def that weak)
  have "hoare (\<lambda>p. p = q \<and> accounted (Suc k) q)
      (if ps_destination q = [] \<or> ps_destination q \<noteq> jn_destination j \<or> ps_running q sid then raise AdmissionClosed
       else andthen (on_world (context_err (env_of Y))) (\<lambda>_.
         andthen (guard_origin Y) (\<lambda>_.
         andthen (\<lambda>p. (y_persisted Y (now p) j raw, p)) (\<lambda>_.
         andthen (on_world (context_err (env_of Y))) (\<lambda>_.
         andthen (lift_sum (publication_admission Y raw)) (\<lambda>(refs, digest).
         andthen (on_world (new_mutation_id (env_of Y))) (\<lambda>invocation.
          andthen (on_world (coord_change (env_of Y) W C
              (\<lambda>_ s. lift_sum (journal_state h j sid (pending_prefix sid @ invocation) digest refs s)))) (\<lambda>completed.
          andthen (update_process (enter_claim (?c (pending_prefix sid @ invocation) digest refs completed))) (\<lambda>_.
          give (length (ps_heap q), completed))))))))))
      (\<lambda>_. accounted k) (accounted (Suc k))" for q
  proof (rule hoare_if)
    assume "\<not> (ps_destination q = [] \<or> ps_destination q \<noteq> jn_destination j \<or> ps_running q sid)"
    then have pre: "p = q \<and> accounted (Suc k) q \<Longrightarrow> idle (Suc k) sid p" for p by (simp add: idle_def)
    show "hoare (\<lambda>p. p = q \<and> accounted (Suc k) q)
      (andthen (on_world (context_err (env_of Y))) (\<lambda>_.
         andthen (guard_origin Y) (\<lambda>_.
         andthen (\<lambda>p. (y_persisted Y (now p) j raw, p)) (\<lambda>_.
         andthen (on_world (context_err (env_of Y))) (\<lambda>_.
         andthen (lift_sum (publication_admission Y raw)) (\<lambda>(refs, digest).
         andthen (on_world (new_mutation_id (env_of Y))) (\<lambda>invocation.
          andthen (on_world (coord_change (env_of Y) W C
              (\<lambda>_ s. lift_sum (journal_state h j sid (pending_prefix sid @ invocation) digest refs s)))) (\<lambda>completed.
          andthen (update_process (enter_claim (?c (pending_prefix sid @ invocation) digest refs completed))) (\<lambda>_.
          give (length (ps_heap q), completed))))))))))
      (\<lambda>_. accounted k) (accounted (Suc k))"
      apply (rule hoare_weaken [where P = "idle (Suc k) sid" and Q = "\<lambda>_. accounted k" and E = "accounted (Suc k)"])
         apply (rule hoare_andthen [OF world]; (simp add: weak)?)
         apply (rule hoare_andthen [OF state [OF guard_origin_state]])
         apply (rule hoare_andthen [OF state], simp)
         apply (rule hoare_andthen [OF world]; (simp add: weak)?)
         apply (rule hoare_andthen [OF state], simp add: lift_sum_def, rule hoare_prod)
         apply (rule hoare_andthen [OF world]; (simp add: weak)?)
         apply (rule hoare_andthen [OF world]; (simp add: weak)?)
         apply (rule accounted_enter_step; simp add: idle_def)
        apply (rule pre, assumption)
       apply assumption+
      done
  qed (rule hoare_raise, simp)
  then show ?thesis
    unfolding begin_journal_claimed_def Let_def by (rule hoare_get)
qed


lemma accounted_begin_journal:
  "hoare (accounted k) (begin_journal_publication Y W C sid raw j) (\<lambda>_. accounted k) (accounted k)"
proof -
  have "hoare (accounted (Suc k)) (\<lambda>p. case begin_journal_claimed Y W C h sid raw j p of
      (Inr r, p') \<Rightarrow> (Inr r, p') | (Inl e, p') \<Rightarrow> (Inl e, release_claim (jn_owner j) p'))
      (\<lambda>_. accounted k) (accounted k)" for h
    using hoare_journal_claimed [of k Y W C h sid raw j]
    by (fastforce simp: hoare_def accounted_release_claim split: prod.splits sum.splits)
  then show ?thesis
    unfolding begin_journal_publication_def
    by (intro hoare_andthen [OF hoare_accounted_world] hoare_prod hoare_if hoare_accounted_raise
        hoare_andthen [OF hoare_claim_journal])
qed

lemma same_but_worldD: "keeps (same_but_world p) m \<Longrightarrow> m p = (r, p') \<Longrightarrow> \<exists>w. p' = p\<lparr>ps_world := w\<rparr>"
  by (metis keepsD same_refl same_but_world_def)

lemma accounted_put_source: "keeps (accounted k) (put_claimed_source Y a key raw)"
proof -
  have "keeps (same_but_world q) (put_claimed_source Y a key raw)" for q
    unfolding put_claimed_source_def Let_def by (intro keeps_rules same_publication_claim same_on_world)
  then show ?thesis
    unfolding keeps_def by (metis same_accounted same_but_world_def same_refl)
qed

lemma accounted_complete_claimed:
  assumes "accounted k p" "ps_claims p sid = Some i"
  shows "accounted k (snd (andthen (on_world m) (\<lambda>_.
    update_process (\<lambda>p. drop_running sid (drop_maps sid (run_release i p)))) p))"
proof -
  obtain r w where m: "m (ps_world p) = (r, w)" by fastforce
  have swap: "drop_running sid (drop_maps sid q) = drop_maps sid (drop_running sid q)" for q
    by (simp add: drop_running_def drop_maps_def)
  have "accounted k (drop_running sid (run_release i (p\<lparr>ps_world := w\<rparr>)))"
    by (rule accounted_run_release) (use assms in simp_all)
  then show ?thesis
    using m assms(1) by (cases r) (simp_all add: andthen_def on_world_def update_process_def swap)
qed

lemma accounted_complete_journal:
  assumes "accounted k p"
  shows "accounted k (snd (andthen (on_world m) (\<lambda>_.
    update_process (\<lambda>p. drop_maps sid (set_claim i (\<lambda>c. c\<lparr>cl_replay := True\<rparr>) p))) p))"
proof -
  obtain r w where m: "m (ps_world p) = (r, w)" by fastforce
  have "accounted k (set_claim i (\<lambda>c. c\<lparr>cl_replay := True\<rparr>) (p\<lparr>ps_world := w\<rparr>))"
    by (rule accounted_set_claim) (use assms in simp_all)
  then show ?thesis
    using m assms by (cases r) (simp_all add: andthen_def on_world_def update_process_def)
qed

lemma accounted_complete_publication: "keeps (accounted k) (complete_publication Y W C a sid metadata)"
proof -
  let ?m = "\<lambda>digest p. case publication_claim Y a p of
      (Inl _, p1) \<Rightarrow> (Inl AdmissionClosed, p1)
    | (Inr c, p1) \<Rightarrow>
        if cl_id c \<noteq> sid \<or> cl_digest c \<noteq> digest then (Inl AdmissionClosed, p1)
        else
          (case cl_journal c of
             Some j \<Rightarrow>
               andthen (on_world (complete_journal Y W C c j)) (\<lambda>_.
                 update_process (\<lambda>p. drop_maps sid (set_claim (the a) (\<lambda>c. c\<lparr>cl_replay := True\<rparr>) p))) p1
           | None \<Rightarrow>
               andthen (on_world (complete (env_of Y) W C (cl_owner c) digest)) (\<lambda>_.
                 update_process (\<lambda>p. drop_running sid (drop_maps sid (run_release (the a) p)))) p1)"
  have "keeps (accounted k) (?m digest)" for digest
    unfolding keeps_def
  proof (intro allI impI)
    fix p assume acc: "accounted k p"
    obtain r p1 where claim: "publication_claim Y a p = (r, p1)" by fastforce
    from same_but_worldD [OF same_publication_claim claim] obtain w where p1: "p1 = p\<lparr>ps_world := w\<rparr>" by blast
    have acc1: "accounted k p1" using acc p1 by simp
    show "accounted k (snd (?m digest p))"
    proof (cases "\<exists>c. r = Inr c \<and> cl_id c = sid \<and> cl_digest c = digest")
      case True
      then obtain c where c: "r = Inr c" "cl_id c = sid" "cl_digest c = digest" by blast
      have "claim_running p a" "claim_at p a = Some c" using claim c by (auto dest: publication_claimD)
      then obtain i where "a = Some i" "ps_claims p1 sid = Some i"
        using c p1 by (auto simp: claim_running_def claim_at_def split: option.splits)
      then show ?thesis
        using claim c
        by (simp add: accounted_complete_claimed [OF acc1] accounted_complete_journal [OF acc1] split: option.split)
    next
      case False
      then show ?thesis using claim acc1 by (cases r) auto
    qed
  qed
  then show ?thesis unfolding complete_publication_def by (intro keeps_rules)
qed

lemma accounted_acknowledge: "hoare (accounted k) (acknowledge_journal_removal Y W C) (\<lambda>_. accounted k) (accounted k)"
proof -
  have answer: "hoare (accounted k) (\<lambda>p. (y_removal Y (now p), p)) (\<lambda>_. accounted k) (accounted k)"
    by (rule hoare_same) (simp_all add: keeps_def)
  have change: "keeps (accounted (Suc k)) (\<lambda>p. if ps_destination p = [] \<or> jn_destination j \<noteq> ps_destination p
      then (Inl AdmissionClosed, p) else on_world m p)" for j and m :: "unit act"
    using hoare_accounted_world [of "Suc k" m, folded keeps_hoare] by (simp add: keeps_def)
  have "hoare (accounted (Suc k)) (\<lambda>p.
      case (if ps_destination p = [] \<or> jn_destination j \<noteq> ps_destination p then (Inl AdmissionClosed, p)
            else on_world (coord_change (env_of Y) W C (pure (acknowledge_state j))) p) of
        (r, p') \<Rightarrow> (r, end_operation p')) (\<lambda>_. accounted k) (accounted k)" for j
    using change [of j "coord_change (env_of Y) W C (pure (acknowledge_state j))"]
    by (fastforce simp: hoare_def keeps_def accounted_end split: prod.splits sum.splits)
  then show ?thesis
    unfolding acknowledge_journal_removal_def
    by (intro hoare_andthen [OF answer] hoare_andthen [OF hoare_begin_operation])
qed

lemma keeps_accounted_world: "keeps (accounted k) (on_world m)"
  unfolding keeps_hoare by (rule hoare_accounted_world)

lemma perform_accounted: "keeps (accounted k) (perform Y W C call)"
proof (cases call)
  case (BeginPublication sid metadata)
  have "keeps (accounted k) (begin_publication Y W C sid metadata)" by (simp add: keeps_hoare accounted_begin_publication)
  then show ?thesis using BeginPublication by (simp add: keeps_void)
next
  case (BeginJournal sid raw j)
  have "keeps (accounted k) (begin_journal_publication Y W C sid raw j)" by (simp add: keeps_hoare accounted_begin_journal)
  then show ?thesis using BeginJournal by (simp add: keeps_void)
next
  case AcknowledgeRemoval
  then show ?thesis by (simp add: keeps_hoare accounted_acknowledge)
qed (auto intro!: keeps_accounted_world accounted_put_source accounted_complete_publication proc_update accounted_end_attempt)

lemma run_calls_accounted: "accounted k p \<Longrightarrow> accounted k (run_calls Y calls p)"
  by (rule run_calls_keeps) (rule perform_accounted)

subsection \<open>Ending every attempt\<close>

fun end_attempts :: "bytes list \<Rightarrow> process \<Rightarrow> process" where
  "end_attempts [] p = p"
| "end_attempts (sid # sids) p = end_attempts sids (end_publication_attempt sid p)"

lemma accounted_end_attempts: "accounted k p \<Longrightarrow> accounted k (end_attempts sids p)"
  by (induction sids arbitrary: p) (simp_all add: accounted_end_attempt)

lemma ps_claims_run_release: "ps_claims (run_release i p) = ps_claims p"
  by (simp add: run_release_def Let_def set_claim_def release_claim_def end_operation_def split: option.split)

lemma end_attempts_claims: "ps_claims (end_attempts sids p) sid = (if sid \<in> set sids then None else ps_claims p sid)"
  by (induction sids arbitrary: p)
    (auto simp: end_publication_attempt_def drop_running_def ps_claims_run_release split: option.splits)

lemma no_claims_drained:
  assumes "accounted k p" "\<And>sid. ps_claims p sid = None"
  shows "g_active (ps_guard p) = k"
proof -
  have "\<not> cl_release c" if "c \<in> set (ps_heap p)" for c
    using that assms(2) accounted_open [OF assms(1)] by (auto simp: in_set_conv_nth)
  then have "open_claims p = 0" by (simp add: open_claims_def filter_empty_conv)
  then show ?thesis using accounted_active [OF assms(1)] by simp
qed

end
