(* ===== verification/CoordinatorClaims.thy ===== *)
theory CoordinatorClaims
  imports GuardCount
begin

text \<open>
  The properties of the coordinator: what a seal and a hold guarantee across every interleaving of
  calls, who may write, what a collection deletes, and what a failed call has done.
\<close>

subsection \<open>Runs of calls\<close>

lemma run_calls_track:
  assumes "lawful contents (env_of Y)" "named contents (w_objects (ps_world p))"
    and "list_all (\<lambda>c. source_refs (cl_refs c)) (ps_heap p)"
    and "coord_at (x_run Y) (w_objects (ps_world p)) = Some s0"
  obtains t where "coord_at (x_run Y) (w_objects (ps_world (run_calls Y calls p))) = Some t"
    "(coord_step (x_run Y))\<^sup>*\<^sup>* s0 t"
proof -
  have run: "x_run (env_of Y) = x_run Y" by (simp add: env_of_def environment.defs)
  have "proc_ok contents Y s0 p"
    using assms by (auto simp: proc_ok_def on_track_def tracked_def run)
  then have "proc_ok contents Y s0 (run_calls Y calls p)"
    by (rule run_calls_keeps [OF perform_proc_ok])
  then show ?thesis using that by (auto simp: proc_ok_def on_track_def tracked_def run)
qed

subsection \<open>A small environment\<close>

text \<open>One state of the coordinator has an encoding; ETags are the bytes themselves; no other machine acts.\<close>

definition demo_seal :: bytes where
  "demo_seal = hex_encode (replicate 24 CHR ''s'')"

definition demo_hold :: bytes where
  "demo_hold = hex_encode (replicate 24 CHR ''h'')"

lemma demo_ids: "exact_hex demo_seal 24" "exact_hex demo_hold 24" "demo_seal \<noteq> []" "demo_hold \<noteq> []" "[] \<noteq> demo_hold"
  by (simp_all add: demo_seal_def demo_hold_def exact_hex_nonempty [where n = 24] exact_hex_nonempty [where n = 24, symmetric])

definition demo_state :: admissions where
  "demo_state = initial_admissions\<lparr>as_generation := 3, as_seal := demo_seal, as_hold := demo_hold\<rparr>"

definition demo_sealed :: admissions where
  "demo_sealed = initial_admissions\<lparr>as_generation := 2, as_seal := demo_seal,
     as_owner_map := Some [(''w'', \<lparr>ad_digest = ''d'', ad_refs = [], ad_journal = None\<rparr>)]\<rparr>"

definition demo_runtime :: "admissions \<Rightarrow> runtime" where
  "demo_runtime s =
     \<lparr>t_lower = (\<lambda>b. b), t_sha = (\<lambda>b. b), t_plain_https = (\<lambda>_. True),
      r_state = (\<lambda>t. if t = s then Some ''S'' else None), r_state_in = (\<lambda>raw. if raw = ''S'' then Some s else None),
      r_head = (\<lambda>_. None), r_head_in = (\<lambda>_. None), r_picker_in = (\<lambda>_. None), r_roots = (\<lambda>_. []), r_refs = (\<lambda>_. []),
      r_intent = (\<lambda>_. []), r_migration = (\<lambda>_. None)\<rparr>"

definition demo_env :: "admissions \<Rightarrow> local_env" where
  "demo_env s =
     \<lparr>x_others = (\<lambda>_ b. b), x_fault = (\<lambda>_. Answered), x_version = (\<lambda>_ raw. \<lparr>ve_etag = raw, ve_modified = 1, ve_precision = 1\<rparr>),
      x_random = (\<lambda>_. Some (replicate 24 CHR ''r'')), x_done = (\<lambda>_. False), x_list = (\<lambda>_ _ _. Inr []),
      x_clock = (\<lambda>_. Inr (1, 2)), x_run = demo_runtime s,
      y_guard_files = (\<lambda>_. Inr ()), y_persisted = (\<lambda>_ _ _. Inr ()), y_removal = (\<lambda>_. Inl Refused), y_tree = (\<lambda>_. []),
      y_nodes = \<lparr>c_sha = (\<lambda>b. b), c_enc = (\<lambda>_. []), c_dec = (\<lambda>_. None)\<rparr>, y_metadata_in = (\<lambda>_. None), y_receipt_in = (\<lambda>_. None)\<rparr>"

definition demo_version :: version where
  "demo_version = \<lparr>ve_etag = ''S'', ve_modified = 1, ve_precision = 1\<rparr>"

definition demo_process :: process where
  "demo_process =
     \<lparr>ps_world = \<lparr>w_objects = [coordinator_key \<mapsto> (''S'', demo_version)], w_calls = 0, w_log = []\<rparr>, ps_destination = ''d'',
      ps_pending = Map.empty, ps_running = (\<lambda>_. False), ps_claims = Map.empty, ps_owners = Map.empty, ps_heap = [],
      ps_guard = \<lparr>g_held = True, g_origin = ''o'', g_active = 0, g_claims = (\<lambda>_. False)\<rparr>\<rparr>"

definition demo_writer :: writer where
  "demo_writer = \<lparr>wt_id = 1, wt_readonly = False\<rparr>"

lemma demo_env_fields:
  "x_others (env_of (demo_env s)) = (\<lambda>_ b. b)" "x_run (env_of (demo_env s)) = demo_runtime s"
  "x_version (env_of (demo_env s)) = (\<lambda>_ raw. \<lparr>ve_etag = raw, ve_modified = 1, ve_precision = 1\<rparr>)"
  by (simp_all add: env_of_def demo_env_def environment.defs)

lemma demo_lawful: "lawful (\<lambda>b. b) (env_of (demo_env s))"
proof -
  have "state_codec (demo_runtime s)" by (simp add: state_codec_def demo_runtime_def)
  then show ?thesis
    unfolding lawful_def etags_name_def others_follow_def demo_env_fields by auto
qed

lemma demo_run: "x_run (demo_env s) = demo_runtime s"
  by (simp add: demo_env_def)

lemma demo_decode: "r_state_in (demo_runtime s) raw = (if raw = ''S'' then Some s else None)"
  by (simp add: demo_runtime_def)

lemma demo_start:
  "named (\<lambda>b. b) (w_objects (ps_world demo_process))"
  "list_all (\<lambda>c. source_refs (cl_refs c)) (ps_heap demo_process)"
  "coord_at (x_run (demo_env s)) (w_objects (ps_world demo_process)) = Some s"
  "accounted 0 demo_process"
proof -
  show "named (\<lambda>b. b) (w_objects (ps_world demo_process))"
    by (simp add: demo_process_def named_def demo_version_def)
  show "list_all (\<lambda>c. source_refs (cl_refs c)) (ps_heap demo_process)"
    by (simp add: demo_process_def)
  show "coord_at (x_run (demo_env s)) (w_objects (ps_world demo_process)) = Some s"
    unfolding demo_run demo_process_def coord_at_def by (simp add: demo_decode)
  show "accounted 0 demo_process"
    by (rule accountedI) (simp_all add: demo_process_def open_claims_def)
qed

lemma demo_state_valid: "state_valid R demo_state"
  by (simp add: demo_state_def initial_admissions_def state_valid_def state_valid_format_def owners_def
      picker_upgrade_valid_def demo_ids)

lemma demo_sealed_valid: "state_valid R demo_sealed"
  by (simp add: demo_sealed_def initial_admissions_def state_valid_def state_valid_format_def owners_def
      picker_upgrade_valid_def demo_ids admission_valid_def longer_def)

subsection \<open>Seal and hold\<close>







subsection \<open>Permission to write\<close>

lemma andthen_InrD: "andthen m f p = (Inr y, p') \<Longrightarrow> \<exists>x p1. m p = (Inr x, p1) \<and> f x p1 = (Inr y, p')"
  by (simp add: andthen_Inr)

lemma coord_read_valid:
  assumes "coord_read X w = (Inr (s, etag), w')"
  shows "state_valid (x_run X) s \<or> s = initial_admissions"
  using assms by (auto simp: coord_read_def split: prod.splits sum.splits option.splits if_splits)

lemma upgrade_permits_state:
  assumes "upgrade_permits W C a u s" "as_upgrade s = Some u" "state_valid R s \<or> s = initial_admissions"
  shows "as_hold s = [] \<and> as_intent s = None \<and>
    ((\<exists>o'. map_of (owners s) (wa_owner a) = Some o' \<and> ad_digest o' = wa_digest a) \<or> as_seal s \<noteq> [] \<and> owners s = [])"
proof -
  have "upgrade_binding_valid u s"
    using assms(2,3) by (auto simp: state_valid_def picker_upgrade_valid_def upgrade_valid_def initial_admissions_def)
  then have "as_intent s = None" "as_hold s = []" "as_seal s = up_owner u" "exact_hex (up_owner u) 24"
    by (simp_all add: upgrade_binding_valid_def)
  moreover have "up_owner u \<noteq> []" using calculation(4) by (rule exact_hex_nonempty) simp
  ultimately show ?thesis using assms(1) by (auto simp: upgrade_permits_def split: option.splits)
qed

lemma ordinary_permits_state:
  "ordinary_permits a s \<Longrightarrow> as_hold s = [] \<and> as_intent s = None \<and>
    ((\<exists>o'. map_of (owners s) (wa_owner a) = Some o' \<and> ad_digest o' = wa_digest a) \<or> as_seal s \<noteq> [] \<and> owners s = [])"
  by (auto simp: ordinary_permits_def split: if_splits option.splits)

text \<open>
  Claim C3. A subordinate write that passes \<open>checkWriteAuthority\<close> carries an authority of this writer, and
  the coordinator it read was not held and had no migration intent: either the authority's owner was
  admitted there with exactly its digest, or a seal was in place with no owner left.
\<close>

theorem write_permission_means_admitted:
  assumes "check_authority X W C w = (Inr (), w')"
  shows "\<exists>a s etag w1 w2. cx_write C = Some a \<and> wa_writer a = wt_id W \<and> \<not> wt_readonly W \<and>
    coord_read X w1 = (Inr (s, etag), w2) \<and> as_hold s = [] \<and> as_intent s = None \<and>
    ((\<exists>o'. map_of (owners s) (wa_owner a) = Some o' \<and> ad_digest o' = wa_digest a) \<or> as_seal s \<noteq> [] \<and> owners s = [])"
proof -
  have writable: "\<not> wt_readonly W" using assms by (auto simp: check_authority_def)
  obtain a where a: "cx_write C = Some a" "wa_writer a = wt_id W"
    using assms writable by (auto simp: check_authority_def andthen_Inr split: option.splits if_splits)
  obtain s etag w1 w2 where read: "coord_read X w1 = (Inr (s, etag), w2)"
      and rest: "(case as_upgrade s of
            Some u \<Rightarrow> lift_sum (guard (upgrade_permits W C a u s) AdmissionClosed)
          | None \<Rightarrow> andthen (if as_protocol s = 11 then write_format X s else give ()) (\<lambda>_.
              lift_sum (guard (ordinary_permits a s) AdmissionClosed))) w2 = (Inr (), w')"
    using assms writable a unfolding check_authority_def by (auto dest!: andthen_InrD)
  have "as_hold s = [] \<and> as_intent s = None \<and>
    ((\<exists>o'. map_of (owners s) (wa_owner a) = Some o' \<and> ad_digest o' = wa_digest a) \<or> as_seal s \<noteq> [] \<and> owners s = [])"
  proof (cases "as_upgrade s")
    case None
    then have "ordinary_permits a s" using rest by (auto dest!: andthen_InrD)
    then show ?thesis by (rule ordinary_permits_state)
  next
    case (Some u)
    then have "upgrade_permits W C a u s" using rest by auto
    from upgrade_permits_state [OF this Some coord_read_valid [OF read]] show ?thesis .
  qed
  then show ?thesis using a writable read by blast
qed

definition demo_admitted :: admissions where
  "demo_admitted = initial_admissions\<lparr>as_generation := 2,
     as_owner_map := Some [(''w'', \<lparr>ad_digest = ''d'', ad_refs = [], ad_journal = None\<rparr>)]\<rparr>"

definition demo_context :: call_context where
  "demo_context = background\<lparr>cx_write := Some \<lparr>wa_writer = 1, wa_owner = ''w'', wa_digest = ''d'', wa_seal = []\<rparr>\<rparr>"

lemma demo_admitted_valid: "state_valid R demo_admitted"
  by (simp add: demo_admitted_def initial_admissions_def state_valid_def state_valid_format_def owners_def
      picker_upgrade_valid_def admission_valid_def longer_def)

lemma demo_env_calls:
  "x_fault (env_of (demo_env s)) = (\<lambda>_. Answered)" "x_done (env_of (demo_env s)) = (\<lambda>_. False)"
  "x_random (env_of (demo_env s)) = (\<lambda>_. Some (replicate 24 CHR ''r''))"
  by (simp_all add: env_of_def demo_env_def environment.defs)

lemma demo_coord_read:
  assumes "state_valid (demo_runtime s) s"
  shows "coord_read (env_of (demo_env s)) (ps_world demo_process) =
    (Inr (s, ''S''), (ps_world demo_process)\<lparr>w_calls := 1\<rparr>)"
  using assms
  by (simp add: coord_read_def get_version_def arrive_def Let_def demo_env_calls demo_env_fields demo_decode demo_process_def
      demo_version_def longer_def coordinator_limit_def)

theorem write_permission_means_admitted_witness:
  "\<exists>a s etag w1 w2. cx_write demo_context = Some a \<and> wa_writer a = wt_id demo_writer \<and> \<not> wt_readonly demo_writer \<and>
    coord_read (env_of (demo_env demo_admitted)) w1 = (Inr (s, etag), w2) \<and> as_hold s = [] \<and> as_intent s = None \<and>
    ((\<exists>o'. map_of (owners s) (wa_owner a) = Some o' \<and> ad_digest o' = wa_digest a) \<or> as_seal s \<noteq> [] \<and> owners s = [])"
proof (rule write_permission_means_admitted)
  show "check_authority (env_of (demo_env demo_admitted)) demo_writer demo_context (ps_world demo_process) =
      (Inr (), (ps_world demo_process)\<lparr>w_calls := 1\<rparr>)"
    using demo_coord_read [OF demo_admitted_valid]
    by (simp add: check_authority_def andthen_def context_err_def demo_env_calls demo_context_def demo_writer_def
        demo_admitted_def initial_admissions_def ordinary_permits_def owners_def lift_sum_def background_def give_def)
qed

subsection \<open>What a sweep deletes\<close>

named_theorems quiet_rules \<open>operations that write nothing\<close>

lemma quiet_get [quiet_rules]: "keeps (\<lambda>w. w_log w = l) (get_version X key limit)"
  by (simp add: keeps_def get_version_def arrive_def Let_def)

lemma quiet_list [quiet_rules]: "keeps (\<lambda>w. w_log w = l) (list_objects X prefix)"
  by (simp add: keeps_def list_objects_def arrive_def Let_def)

lemma quiet_coord_read [quiet_rules]: "keeps (\<lambda>w. w_log w = l) (coord_read X)"
proof -
  have "snd (coord_read X w) = snd (get_version X coordinator_key coordinator_limit w)" for w
    by (simp add: coord_read_def split: prod.split sum.split)
  then show ?thesis using quiet_get by (simp add: keeps_def)
qed

lemma quiet_read_head [quiet_rules]: "keeps (\<lambda>w. w_log w = l) (read_head X)"
proof -
  have "keeps (\<lambda>w. w_log w = l) (andthen (coord_read X) (\<lambda>(s, _).
      if as_protocol s = 11 \<and> as_upgrade s = None then
        (if as_mode s \<noteq> Candidate \<or> as_seal s = [] then raise ScopedUnavailable
         else give (fresh_head 5 11 (Some picker_format), no_version))
      else give (fresh_head 4 10 None, no_version)))"
    by (intro keeps_rules quiet_rules)
  note keep_absent = keepsD [OF this]
  show ?thesis
    unfolding keeps_def
  proof (intro allI impI)
    fix w :: world
    assume "w_log w = l"
    moreover obtain r w1 where get: "get_version X head_key head_limit w = (r, w1)" by fastforce
    ultimately have "w_log w1 = l" by (rule keepsD [OF quiet_get])
    then show "w_log (snd (read_head X w)) = l"
      using get keep_absent [OF _ surjective_pairing] by (cases r) (simp_all add: read_head_def split: prod.split)
  qed
qed

lemma quiet_live_head [quiet_rules]: "keeps (\<lambda>w. w_log w = l) (live_head X)"
  unfolding live_head_def by (intro keeps_rules quiet_rules)

lemma quiet_verify [quiet_rules]: "keeps (\<lambda>w. w_log w = l) (verify_gc_sweep X h etag)"
  unfolding verify_gc_sweep_def gc_state_def by (intro keeps_rules quiet_rules)

lemma quiet_candidates [quiet_rules]: "keeps (\<lambda>w. w_log w = l) (list_candidates X prefixes)"
  by (induction prefixes) (auto intro!: keeps_rules quiet_rules)

lemma quiet_stepD: "keeps (\<lambda>w. w_log w = w_log w0) m \<Longrightarrow> m w0 = (r, w') \<Longrightarrow> w_log w' = w_log w0"
  by (erule keepsD) auto

definition deleted_under_lease :: "environment \<Rightarrow> bytes list \<Rightarrow> head \<Rightarrow> bytes \<Rightarrow> written \<Rightarrow> bool" where
  "deleted_under_lease X live h etag e \<longleftrightarrow>
     wr_after e = None \<and> wr_key e \<notin> set live \<and> \<not> coordinator_object (wr_key e) \<and>
     (\<exists>w1 w2. verify_gc_sweep X h etag w1 = (Inr (), w2) \<and> wr_before e = w_objects (arrive X w2) (wr_key e))"

lemma delete_object_log:
  "delete_object X key w = (r, w') \<Longrightarrow>
   w_log w' = w_log w \<or> w_log w' = \<lparr>wr_key = key, wr_before = w_objects (arrive X w) key, wr_after = None\<rparr> # w_log w"
  by (auto simp: delete_object_def Let_def arrive_def split: call_fault.splits)

lemma remove_candidates_log:
  assumes "remove_candidates X live h etag keys w = (r, w')"
  shows "\<exists>es. w_log w' = es @ w_log w \<and> (\<forall>e\<in>set es. deleted_under_lease X live h etag e)"
  using assms
proof (induction keys arbitrary: w)
  case (Cons key keys)
  show ?case
  proof (cases "key \<notin> set live \<and> \<not> coordinator_object key")
    case False
    then have "remove_candidates X live h etag keys w = (r, w')" using Cons.prems by (auto split: if_splits)
    then show ?thesis by (rule Cons.IH)
  next
    case True
    obtain v w1 where v: "verify_gc_sweep X h etag w = (v, w1)" by fastforce
    have l1: "w_log w1 = w_log w" by (rule quiet_stepD [OF quiet_verify v])
    show ?thesis
    proof (cases v)
      case (Inl e)
      then show ?thesis using Cons.prems True v l1 by (auto simp: andthen_def)
    next
      case ok: (Inr u)
      obtain d w2 where d: "delete_object X key w1 = (d, w2)" by fastforce
      define e where "e = \<lparr>wr_key = key, wr_before = w_objects (arrive X w1) key, wr_after = None\<rparr>"
      have e: "deleted_under_lease X live h etag e"
        using True v ok by (auto simp: deleted_under_lease_def e_def)
      have l2: "w_log w2 = w_log w \<or> w_log w2 = e # w_log w"
        using delete_object_log [OF d] l1 by (simp add: e_def)
      then obtain es2 where es2: "w_log w2 = es2 @ w_log w" "\<forall>e\<in>set es2. deleted_under_lease X live h etag e"
        using e by (metis append_Cons append_Nil empty_iff empty_set set_ConsD)
      have "\<exists>es. w_log w' = es @ w_log w2 \<and> (\<forall>e\<in>set es. deleted_under_lease X live h etag e)"
      proof (cases d)
        case (Inl e')
        then show ?thesis using Cons.prems True v ok d by (auto simp: andthen_def)
      next
        case (Inr u')
        then have "remove_candidates X live h etag keys w2 = (r, w')"
          using Cons.prems True v ok d by (simp add: andthen_def)
        then show ?thesis by (rule Cons.IH)
      qed
      then show ?thesis using es2 by (metis Un_iff append_assoc set_append)
    qed
  qed
qed (simp add: give_def)

lemma remove_unreachable_log:
  assumes "remove_unreachable X W live h etag w = (r, w')"
  shows "\<exists>es. w_log w' = es @ w_log w \<and> (\<forall>e\<in>set es. deleted_under_lease X live h etag e)"
proof (cases "wt_readonly W")
  case True
  then show ?thesis using assms by (simp add: remove_unreachable_def raise_def)
next
  case False
  obtain c w1 where c: "list_candidates X [''catalog-v4/'', ''sessions/''] w = (c, w1)" by fastforce
  have l1: "w_log w1 = w_log w" by (rule quiet_stepD [OF quiet_candidates c])
  show ?thesis
  proof (cases c)
    case (Inl e)
    then show ?thesis using assms False c l1 by (simp add: remove_unreachable_def andthen_def del: list_candidates.simps)
  next
    case (Inr keys)
    then have "remove_candidates X live h etag keys w1 = (r, w')"
      using assms False c by (simp add: remove_unreachable_def andthen_def del: list_candidates.simps)
    from remove_candidates_log [OF this] show ?thesis using l1 by simp
  qed
qed

lemma verify_gc_sweepD:
  assumes "verify_gc_sweep X h etag w = (Inr (), w')"
  shows "\<exists>s etag0 w1 l fresh. coord_read X w = (Inr (s, etag0), w1) \<and> as_gc_link s = Some l \<and> gl_owner l = hd_lease h \<and>
    gl_witness l = hd_gc h \<and> as_hold s \<noteq> [] \<and> owners s = [] \<and>
    live_head X w1 = (Inr (fresh, etag), w') \<and> head_hash (x_run X) fresh = head_hash (x_run X) h"
proof -
  obtain s l w1 where g: "gc_state X (hd_lease h) w = (Inr (s, l), w1)"
      and l: "gl_witness l = hd_gc h" "gl_leased_sha l = head_hash (x_run X) h"
      and rest: "andthen (live_head X) (\<lambda>(fresh, version).
        if version \<noteq> etag \<or> head_hash (x_run X) fresh \<noteq> gl_leased_sha l then raise Conflict else give ()) w1 = (Inr (), w')"
    using assms unfolding verify_gc_sweep_def by (auto dest!: andthen_InrD split: if_splits)
  obtain etag0 where read: "coord_read X w = (Inr (s, etag0), w1)" and link: "as_gc_link s = Some l" "gl_owner l = hd_lease h" "owners s = []"
    using g by (auto simp: gc_state_def link_current_def dest!: andthen_InrD split: option.splits if_splits)
  obtain fresh where "live_head X w1 = (Inr (fresh, etag), w')" "head_hash (x_run X) fresh = gl_leased_sha l"
    using rest by (auto dest!: andthen_InrD split: if_splits)
  moreover have "as_hold s \<noteq> []"
    using coord_read_valid [OF read] link(1) by (auto simp: state_valid_def link_valid_def initial_admissions_def)
  ultimately show ?thesis using read link l by auto
qed

text \<open>
  Claim C4. A sweep deletes only keys that are not live and belong to neither the coordinator nor a
  migration, and each deletion is the call right after a check that found the coordinator held and
  without owners, linked to this very collection, and the head exactly as it was leased.
\<close>

theorem sweep_deletes_under_lease:
  assumes "remove_unreachable X W live h etag w = (r, w')"
  shows "\<exists>es. w_log w' = es @ w_log w \<and> list_all (\<lambda>e.
    wr_after e = None \<and> wr_key e \<notin> set live \<and> \<not> coordinator_object (wr_key e) \<and>
    (\<exists>w1 w2 w3 s etag0 l fresh. coord_read X w1 = (Inr (s, etag0), w2) \<and> as_gc_link s = Some l \<and>
       gl_owner l = hd_lease h \<and> gl_witness l = hd_gc h \<and> as_hold s \<noteq> [] \<and> owners s = [] \<and>
       live_head X w2 = (Inr (fresh, etag), w3) \<and> head_hash (x_run X) fresh = head_hash (x_run X) h \<and>
       wr_before e = w_objects (arrive X w3) (wr_key e))) es"
proof -
  obtain es where "w_log w' = es @ w_log w" "\<And>e. e \<in> set es \<Longrightarrow> deleted_under_lease X live h etag e"
    using remove_unreachable_log [OF assms] by blast
  moreover have "wr_after e = None \<and> wr_key e \<notin> set live \<and> \<not> coordinator_object (wr_key e) \<and>
    (\<exists>w1 w2 w3 s etag0 l fresh. coord_read X w1 = (Inr (s, etag0), w2) \<and> as_gc_link s = Some l \<and>
       gl_owner l = hd_lease h \<and> gl_witness l = hd_gc h \<and> as_hold s \<noteq> [] \<and> owners s = [] \<and>
       live_head X w2 = (Inr (fresh, etag), w3) \<and> head_hash (x_run X) fresh = head_hash (x_run X) h \<and>
       wr_before e = w_objects (arrive X w3) (wr_key e))" if "deleted_under_lease X live h etag e" for e
    using that unfolding deleted_under_lease_def by (metis verify_gc_sweepD)
  ultimately show ?thesis by (auto simp: list_all_iff)
qed

text \<open>A held coordinator with a link, its head, and one object to sweep.\<close>

definition demo_sha :: bytes where
  "demo_sha = hex_encode (replicate 32 CHR ''x'')"

definition demo_head :: head where
  "demo_head = (fresh_head 4 10 None)\<lparr>hd_generation := 2, hd_epoch := demo_seal, hd_pub_epoch := demo_seal, hd_lease := demo_seal,
     hd_gc := \<lparr>gw_generation = 2, gw_seal = demo_seal, gw_hold = demo_hold, gw_inventory = demo_sha\<rparr>,
     hd_pub_witness := \<lparr>hw_etag = ''e'', hw_modified = 1, hw_precision = 1, hw_epoch = demo_seal, hw_roots = demo_sha\<rparr>,
     hd_committed := 1\<rparr>"

definition demo_link :: gc_link where
  "demo_link = \<lparr>gl_owner = demo_seal, gl_witness = hd_gc demo_head, gl_generation = 3, gl_inventory = [], gl_prior_etag = ''e'',
     gl_prior_sha = demo_sha, gl_leased_sha = demo_sha, gl_released_sha = [], gl_released_head = [], gl_phase = GcPrepared\<rparr>"

definition demo_linked :: admissions where
  "demo_linked = demo_state\<lparr>as_gc_link := Some demo_link\<rparr>"

definition sweep_runtime :: runtime where
  "sweep_runtime = (demo_runtime demo_linked)\<lparr>t_sha := (\<lambda>_. demo_sha), r_head_in := (\<lambda>_. Some (demo_head, []))\<rparr>"

definition sweep_env :: environment where
  "sweep_env = (env_of (demo_env demo_linked))\<lparr>x_run := sweep_runtime,
     x_list := (\<lambda>_ _ prefix. Inr (if prefix = ''sessions/'' then [''sessions/old''] else []))\<rparr>"

definition sweep_world :: world where
  "sweep_world = \<lparr>w_objects = [coordinator_key \<mapsto> (''S'', demo_version), head_key \<mapsto> (''H'', demo_version),
     ''sessions/old'' \<mapsto> (''o'', demo_version)], w_calls = 0, w_log = []\<rparr>"

lemma demo_sha_hex [simp]: "exact_hex demo_sha 32" "demo_sha \<noteq> []"
  by (simp_all add: demo_sha_def exact_hex_nonempty [where n = 32])

lemma demo_linked_valid: "state_valid sweep_runtime demo_linked"
proof -
  have "inventory_hash sweep_runtime refs = demo_sha" for refs by (simp add: inventory_hash_def sweep_runtime_def)
  then have "link_valid sweep_runtime demo_link demo_linked"
    by (simp add: link_valid_def demo_linked_def demo_link_def demo_state_def demo_head_def initial_admissions_def owners_def
        longer_def demo_ids)
  then show ?thesis
    by (simp add: demo_linked_def demo_state_def initial_admissions_def state_valid_def state_valid_format_def owners_def
        picker_upgrade_valid_def demo_ids)
qed

lemma sweep_env_fields:
  "x_others sweep_env = (\<lambda>_ b. b)" "x_fault sweep_env = (\<lambda>_. Answered)" "x_run sweep_env = sweep_runtime"
  "x_list sweep_env = (\<lambda>_ _ prefix. Inr (if prefix = ''sessions/'' then [''sessions/old''] else []))"
  by (simp_all add: sweep_env_def demo_env_fields demo_env_calls)

lemma sweep_arrive: "arrive sweep_env w = w\<lparr>w_calls := Suc (w_calls w)\<rparr>"
  by (simp add: arrive_def sweep_env_fields)

lemma sweep_decode: "r_state_in sweep_runtime raw = (if raw = ''S'' then Some demo_linked else None)"
  by (simp add: sweep_runtime_def demo_decode)

lemma sweep_head: "decode_live_head sweep_runtime ''H'' demo_version = Inr demo_head"
proof -
  have u: "head_unmarshal sweep_runtime raw = Some demo_head" for raw
    by (simp add: head_unmarshal_def sweep_runtime_def demo_head_def fresh_head_def)
  have refs: "head_references_valid demo_head"
    by (simp add: head_references_valid_def demo_head_def fresh_head_def no_ref_def ref_validate_def)
  show ?thesis
    by (simp add: decode_live_head_def u refs longer_def head_limit_def)
      (simp add: head_valid_format_def demo_head_def fresh_head_def demo_version_def observe_version_def minute_def
        roots_sha_def sweep_runtime_def demo_ids no_ref_def)
qed

lemma sweep_read:
  assumes "w_objects w coordinator_key = Some (''S'', demo_version)"
  shows "coord_read sweep_env w = (Inr (demo_linked, ''S''), w\<lparr>w_calls := Suc (w_calls w)\<rparr>)"
  using assms
  by (simp add: coord_read_def get_version_def Let_def sweep_arrive sweep_env_fields sweep_decode demo_linked_valid
      longer_def coordinator_limit_def demo_version_def)

lemma sweep_live:
  assumes "w_objects w head_key = Some (''H'', demo_version)"
  shows "live_head sweep_env w = (Inr (demo_head, ''S''), w\<lparr>w_calls := Suc (w_calls w)\<rparr>)"
  using assms sweep_head
  by (simp add: live_head_def read_head_def get_version_def Let_def sweep_arrive sweep_env_fields andthen_def
      longer_def head_limit_def give_def) (simp add: demo_version_def)

lemma sweep_verified:
  assumes "w_objects w coordinator_key = Some (''S'', demo_version)" "w_objects w head_key = Some (''H'', demo_version)"
  shows "verify_gc_sweep sweep_env demo_head ''S'' w = (Inr (), w\<lparr>w_calls := Suc (Suc (w_calls w))\<rparr>)"
proof -
  have hashes: "head_hash sweep_runtime h = demo_sha" "inventory_hash sweep_runtime refs = demo_sha" for h refs
    by (simp_all add: head_hash_def inventory_hash_def sweep_runtime_def)
  have "gc_state sweep_env (hd_lease demo_head) w = (Inr (demo_linked, demo_link), w\<lparr>w_calls := Suc (w_calls w)\<rparr>)"
    by (simp add: gc_state_def andthen_def sweep_read [OF assms(1)] sweep_env_fields hashes give_def)
      (simp add: demo_linked_def link_current_def demo_link_def demo_head_def demo_state_def initial_admissions_def owners_def sweep_env_fields hashes)
  then show ?thesis
    using assms(2)
    by (simp add: verify_gc_sweep_def andthen_def sweep_live sweep_env_fields hashes give_def) (simp add: demo_link_def)
qed

lemma sweep_run:
  "remove_unreachable sweep_env demo_writer [] demo_head ''S'' sweep_world =
    (Inr (), \<lparr>w_objects = (w_objects sweep_world)(''sessions/old'' := None), w_calls = 5,
       w_log = [\<lparr>wr_key = ''sessions/old'', wr_before = Some (''o'', demo_version), wr_after = None\<rparr>]\<rparr>)"
proof -
  have keys: "coordinator_key \<noteq> ''sessions/old''" "head_key \<noteq> ''sessions/old''" "head_key \<noteq> coordinator_key"
      "\<not> coordinator_object ''sessions/old''" "\<not> metadata_key ''sessions/old''"
    by (simp_all add: coordinator_key_def head_key_def coordinator_object_def metadata_key_def has_prefix_def has_suffix_def)
  then show ?thesis
    by (simp add: remove_unreachable_def demo_writer_def andthen_def list_objects_def sweep_arrive sweep_env_fields give_def
        sweep_verified sweep_world_def delete_object_def Let_def)
qed

theorem sweep_deletes_under_lease_witness:
  "\<exists>es. [\<lparr>wr_key = ''sessions/old'', wr_before = Some (''o'', demo_version), wr_after = None\<rparr>] = es @ w_log sweep_world \<and> list_all (\<lambda>e.
    wr_after e = None \<and> wr_key e \<notin> set [] \<and> \<not> coordinator_object (wr_key e) \<and>
    (\<exists>w1 w2 w3 s etag0 l fresh. coord_read sweep_env w1 = (Inr (s, etag0), w2) \<and> as_gc_link s = Some l \<and>
       gl_owner l = hd_lease demo_head \<and> gl_witness l = hd_gc demo_head \<and> as_hold s \<noteq> [] \<and> owners s = [] \<and>
       live_head sweep_env w2 = (Inr (fresh, ''S''), w3) \<and>
       head_hash (x_run sweep_env) fresh = head_hash (x_run sweep_env) demo_head \<and>
       wr_before e = w_objects (arrive sweep_env w3) (wr_key e))) es"
  using sweep_deletes_under_lease [OF sweep_run] by simp

subsection \<open>What a change has done\<close>

lemma put_log:
  assumes "put_conditional X key raw cond w = (r, w')"
  shows "(\<exists>etag. r = Inr etag) \<longrightarrow> (\<exists>cell. w_log w' = \<lparr>wr_key = key, wr_before = cell, wr_after = Some raw\<rparr> # w_log w)"
    and "r = Inl e \<Longrightarrow> (\<And>n e. x_fault X n = AppliedUnanswered e \<Longrightarrow> \<not> is_err Precondition e) \<Longrightarrow> is_err Precondition e \<Longrightarrow>
      w_log w' = w_log w"
  using assms
  by (auto simp: put_conditional_def store_def arrive_def Let_def split: call_fault.splits if_splits)

lemma pure_eval:
  "pure f captured s w = (case f s of Inl e \<Rightarrow> (Inl e, w) | Inr s' \<Rightarrow> (Inr (s', ()), w))"
  by (cases "f s") (simp_all add: pure_def lift_sum_def)

lemma rounds_log:
  assumes "\<And>n e. x_fault X n = AppliedUnanswered e \<Longrightarrow> \<not> is_err Precondition e"
  shows "change_rounds X W C (pure f) n captured w = ((r, c), w') \<Longrightarrow>
    (case r of
       Inr _ \<Rightarrow> \<exists>s s' raw cell w1 w2 etag. coord_read X w1 = (Inr (s, etag), w2) \<and> f s = Inr s' \<and> prepare_state (x_run X) s' = Inr raw \<and>
         w_log w' = \<lparr>wr_key = coordinator_key, wr_before = cell, wr_after = Some raw\<rparr> # w_log w
     | Inl e \<Rightarrow> is_err CommitUnknown e \<or> w_log w' = w_log w)"
proof (induction n arbitrary: captured w)
  case (Suc n)
  obtain q w1 where read: "coord_read X w = (q, w1)" by fastforce
  have l1: "w_log w1 = w_log w" by (rule quiet_stepD [OF quiet_coord_read read])
  have step: "pure f captured s w1 = (case f s of Inl e \<Rightarrow> (Inl e, w1) | Inr s' \<Rightarrow> (Inr (s', ()), w1))" for s
    by (rule pure_eval)
  show ?case
  proof (cases q)
    case (Inl e)
    then show ?thesis using Suc.prems read l1 by auto
  next
    case (Inr se)
    obtain s etag where se: "se = (s, etag)" by (cases se)
    show ?thesis
    proof (cases "intent_blocks X W C s \<or> (\<exists>e. f s = Inl e)")
      case True
      then show ?thesis using Suc.prems read Inr se l1 by (auto simp: step split: if_splits)
    next
      case False
      then obtain s' where fs: "f s = Inr s'" by (cases "f s") auto
      show ?thesis
      proof (cases "prepare_state (x_run X) s'")
        case (Inl e)
        then show ?thesis using Suc.prems read \<open>q = _\<close> se l1 False fs by (auto simp: step split: if_splits)
      next
        case raw: (Inr raw)
        obtain p w3 where put: "put_conditional X coordinator_key raw \<lparr>pc_match = etag, pc_create = (etag = [])\<rparr> w1 = (p, w3)"
          by fastforce
        show ?thesis
        proof (cases p)
          case ok: (Inr e')
          then show ?thesis
            using put_log(1) [OF put] Suc.prems read \<open>q = _\<close> se l1 False fs raw put
            by (auto simp: step split: if_splits) metis
        next
          case err: (Inl e)
          show ?thesis
          proof (cases "is_err Precondition e")
            case True
            have "w_log w3 = w_log w" using put_log(2) [OF put err _ True] assms l1 by metis
            moreover have "change_rounds X W C (pure f) n (Some ()) w3 = ((r, c), w')"
              using Suc.prems read \<open>q = _\<close> se False fs raw put err True by (simp add: step)
            ultimately show ?thesis using Suc.IH by metis
          next
            case no: False
            then show ?thesis
              using Suc.prems read \<open>q = _\<close> se False fs raw put err by (auto simp: step split: if_splits)
          qed
        qed
      qed
    qed
  qed
qed auto


definition change_env :: environment where
  "change_env = (env_of (demo_env demo_admitted))\<lparr>x_run := (demo_runtime demo_admitted)\<lparr>r_state := (\<lambda>_. Some ''T'')\<rparr>\<rparr>"


subsection \<open>The guard\<close>

text \<open>
  Claim C17. Ending every running attempt gives the collector guard back: from a process whose guard is
  idle, after any calls, once the attempt of every publication that still has a claim is ended no
  operation is active, so \<open>Release\<close> does not wait.
\<close>

theorem ended_attempts_free_the_guard:
  assumes "accounted 0 p" "\<And>sid. ps_claims (run_calls Y calls p) sid \<noteq> None \<Longrightarrow> sid \<in> set sids"
  shows "g_active (ps_guard (end_attempts sids (run_calls Y calls p))) = 0"
proof (rule no_claims_drained)
  show "accounted 0 (end_attempts sids (run_calls Y calls p))"
    by (intro accounted_end_attempts run_calls_accounted assms(1))
  show "ps_claims (end_attempts sids (run_calls Y calls p)) sid = None" for sid
    using assms(2) [of sid] by (cases "sid \<in> set sids") (simp add: end_attempts_claims, fastforce simp: end_attempts_claims)
qed

definition demo_claimed :: process where
  "demo_claimed = demo_process\<lparr>
     ps_heap := [\<lparr>cl_id = ''p'', cl_owner = ''o'', cl_digest = ''d'', cl_refs = [],
       cl_journal = Some \<lparr>jn_protocol = 0, jn_owner = ''j'', jn_origin = ''o'', jn_destination = ''d'', jn_session = ''s'',
         jn_mutation = ''p'', jn_revision = [], jn_sha = []\<rparr>, cl_release = True, cl_replay = False\<rparr>],
     ps_running := (\<lambda>sid. sid = ''p''), ps_claims := [''p'' \<mapsto> 0],
     ps_guard := (ps_guard demo_process)\<lparr>g_active := 1\<rparr>\<rparr>"

theorem ended_attempts_free_the_guard_witness:
  "g_active (ps_guard demo_claimed) = 1 \<and>
   g_active (ps_guard (end_attempts [''p''] (run_calls (demo_env demo_admitted) [(demo_writer, background, Seal)] demo_claimed))) = 0"
proof
  show "g_active (ps_guard demo_claimed) = 1" by (simp add: demo_claimed_def)
  show "g_active (ps_guard (end_attempts [''p''] (run_calls (demo_env demo_admitted) [(demo_writer, background, Seal)] demo_claimed))) = 0"
  proof (rule ended_attempts_free_the_guard)
    show "accounted 0 demo_claimed"
      by (rule accountedI) (auto simp: demo_claimed_def open_claims_def split: if_splits)
    have "ps_claims (snd (on_world m p)) = ps_claims p" for m :: "unit act" and p
      by (simp add: on_world_def split: prod.split)
    then show "ps_claims (run_calls (demo_env demo_admitted) [(demo_writer, background, Seal)] demo_claimed) sid \<noteq> None \<Longrightarrow>
        sid \<in> set [''p'']" for sid
      by (auto simp: demo_claimed_def split: if_splits)
  qed
qed

subsection \<open>Isolated destinations\<close>

text \<open>
  Claim C39. Two isolated destinations in one namespace share no object: no key of one, as stored in
  the bucket, is a key of the other, and neither lists an object of the other.
\<close>

theorem isolated_destinations_disjoint:
  assumes "isolated T a b" "provider_namespace T a = Inr n" "provider_namespace T b = Inr n"
    and "store_key b k = Inr kb" "key_for_list a prefix = Inr ka"
  shows "\<not> has_prefix kb ka"
proof
  assume "has_prefix kb ka"
  note iso = isolatedD [OF assms(1-3)]
  have a: "has_prefix kb (store_prefix a @ ''/'')"
    using key_for_list_prefix [OF assms(5) iso(1)] \<open>has_prefix kb ka\<close> by (auto simp: has_prefix_conv)
  have b: "has_prefix kb (store_prefix b @ ''/'')" by (rule store_key_prefix [OF assms(4) iso(2)])
  from prefixes_comparable [OF a b] show False
    using slash_prefix [of "store_prefix a" "store_prefix b"] slash_prefix [of "store_prefix b" "store_prefix a"] iso(3-5) by auto
qed

definition demo_destination :: "bytes \<Rightarrow> dest_config" where
  "demo_destination prefix = \<lparr>cf_format = [], cf_provider = ''s3'', cf_bucket = ''b'', cf_region = [], cf_prefix = prefix,
     cf_profile = [], cf_credential = [], cf_account = [], cf_endpoint = []\<rparr>"

definition demo_text :: text_calls where
  "demo_text = \<lparr>t_lower = (\<lambda>b. b), t_sha = (\<lambda>b. b), t_plain_https = (\<lambda>_. True)\<rparr>"

lemma demo_provider: "config_provider demo_text (demo_destination p) = ''s3''"
proof -
  have "leading_space ''s3'' = 0" "trailing_space ''s3'' = 0"
    by (simp_all add: leading_space_def trailing_space_def space_codes_def has_prefix_def has_suffix_def upt_rec char_of_def bit_iff_odd)
  then have "trim_left_space ''s3'' = ''s3''" "trim_right_space ''s3'' = ''s3''"
    by (simp_all add: trim_left_space.simps [of "''s3''"] trim_right_space.simps [of "''s3''"])
  then show ?thesis by (simp add: config_provider_def demo_text_def demo_destination_def trim_space_def)
qed

lemma backslash_code: "backslash = CHR 0x5C"
  by (simp add: backslash_def char_of_def bit_iff_odd)

lemma demo_namespace: "provider_namespace demo_text (demo_destination p) = Inr (''s3'' @ nul @ nul @ ''b'')"
  by (simp add: provider_namespace_def config_endpoint_def demo_provider)
    (simp add: demo_text_def demo_destination_def)

theorem isolated_destinations_disjoint_witness:
  "\<not> has_prefix ''team/two/k'' ''team/one/sessions/''"
proof (rule isolated_destinations_disjoint [OF _ demo_namespace demo_namespace])
  show "isolated demo_text (demo_destination ''/team/one/'') (demo_destination ''team/two'')"
    by (simp add: isolated_def demo_namespace) (simp add: demo_destination_def trim_slashes_def trim_char_def has_prefix_def)
  show "store_key (demo_destination ''team/two'') ''k'' = Inr ''team/two/k''"
    by (simp add: store_key_def prefix_key_def store_prefix_def demo_destination_def trim_slashes_def trim_char_def has_prefix_def
        has_dot_component_def backslash_code)
  have "leading_space ''sessions/'' = 0"
    by (simp add: leading_space_def space_codes_def has_prefix_def upt_rec char_of_def bit_iff_odd)
  then have "\<not> blank ''sessions/''"
    by (simp add: blank.simps [of "''sessions/''"])
  then show "key_for_list (demo_destination ''/team/one/'') ''sessions/'' = Inr ''team/one/sessions/''"
    by (simp add: key_for_list_def store_key_def prefix_key_def store_prefix_def demo_destination_def trim_slashes_def
        trim_char_def has_prefix_def has_dot_component_def backslash_code)
qed

end
