(* ===== verification/RecoveryClaims.thy ===== *)
theory RecoveryClaims
  imports CoordinatorClaims
begin

text \<open>
  Properties of what the coordinator's operations write: every state they leave can be read again,
  and what a retried release of a collection leaves for its recovery.
\<close>

subsection \<open>What the coordinator holds\<close>



subsection \<open>A retried release\<close>

text \<open>
  Claim C40. When the write of a recorded release is refused without having been carried out, the second
  attempt of \<open>bindGCRelease\<close> records a head two generations after the leased one, because the first
  attempt has already advanced the caller's head. If the process stops before it publishes that head,
  the recovery of the collection, which validates the record against the head still in the bucket, refuses it.
\<close>

theorem retried_release_refused:
  assumes "bind_release_step X h owner None s w1 = (Inr (s1, raw1, h1), w2)"
    and "bind_release_step X h owner (Some (raw1, h1)) s w3 = (Inr (s2, raw2, h2), w4)"
    and "as_gc_link s = Some l" "gl_released_sha l = []"
    and "head_unmarshal (x_run X) raw2 = Some h2" "hd_generation h < hd_generation h + 2"
  shows "as_gc_link s2 = Some (l\<lparr>gl_released_head := raw2, gl_released_sha := t_sha (x_run X) raw2,
      gl_phase := GcReleasing, gl_generation := as_generation s + 1\<rparr>) \<and>
    hd_generation h2 = hd_generation h + 2 \<and> validate_released_head (x_run X) h raw2 = Inl Conflict"
proof -
  have one: "hd_generation h1 = hd_generation h + 1"
    using assms(1,3,4) by (auto simp: bind_release_step_def andthen_Inr Let_def split: if_splits option.splits)
  have two: "hd_generation h2 = hd_generation h1 + 1" and
    link: "as_gc_link s2 = Some (l\<lparr>gl_released_head := raw2, gl_released_sha := t_sha (x_run X) raw2,
      gl_phase := GcReleasing, gl_generation := as_generation s + 1\<rparr>)"
    using assms(2,3,4) by (auto simp: bind_release_step_def andthen_Inr Let_def split: if_splits option.splits)
  have "hd_generation h + 1 < hd_generation h + 2"
    using assms(6) by uint_arith
  then show ?thesis using one two link assms(5) by (simp add: validate_released_head_def algebra_simps)
qed

definition retry_head :: head where
  "retry_head = (fresh_head 4 10 None)\<lparr>hd_generation := 5, hd_lease := ''c'', hd_epoch := ''e''\<rparr>"

definition retry_released :: "u64 \<Rightarrow> head" where
  "retry_released g = (fresh_head 4 10 None)\<lparr>hd_generation := g, hd_epoch := hex_encode (replicate 24 CHR ''r'')\<rparr>"

definition retry_link :: gc_link where
  "retry_link = \<lparr>gl_owner = ''c'', gl_witness = no_gc_witness\<lparr>gw_generation := 2, gw_seal := demo_seal, gw_hold := demo_hold\<rparr>,
     gl_generation = 3, gl_inventory = [], gl_prior_etag = ''p'', gl_prior_sha = [], gl_leased_sha = [], gl_released_sha = [],
     gl_released_head = [], gl_phase = GcPrepared\<rparr>"

definition retry_state :: admissions where
  "retry_state = demo_state\<lparr>as_gc_link := Some retry_link\<rparr>"

definition retry_env :: environment where
  "retry_env = (env_of (demo_env demo_state))\<lparr>x_run := (demo_runtime demo_state)
     \<lparr>r_head := (\<lambda>h. Some (if hd_generation h = 6 then ''A'' else ''B'')),
      r_head_in := (\<lambda>raw. if raw = ''B'' then Some (retry_released 7, []) else None)\<rparr>\<rparr>"

lemma retry_attempt:
  assumes "h = (case captured of None \<Rightarrow> retry_head | Some (_, h) \<Rightarrow> h)"
    and "h\<lparr>hd_lease := [], hd_gc := no_gc_witness, hd_epoch := hex_encode (replicate 24 CHR ''r''), hd_generation := hd_generation h + 1\<rparr> = h'"
    and "raw = (if hd_generation h' = 6 then ''A'' else ''B'')"
  shows "bind_release_step retry_env retry_head ''c'' captured retry_state w =
    (Inr (retry_state\<lparr>as_gc_link := Some (retry_link\<lparr>gl_released_head := raw, gl_released_sha := raw, gl_phase := GcReleasing,
       gl_generation := 4\<rparr>)\<rparr>, raw, h'), arrive retry_env w)"
proof -
  have random: "new_mutation_id retry_env w = (Inr (hex_encode (replicate 24 CHR ''r'')), arrive retry_env w)"
    by (simp add: new_mutation_id_def retry_env_def demo_env_calls)
  have link: "as_gc_link retry_state = Some retry_link" "gl_released_sha retry_link = []" "as_generation retry_state = 3"
      "link_current R ''c'' retry_state retry_link" for R
    by (simp_all add: retry_state_def retry_link_def link_current_def demo_state_def owners_def initial_admissions_def)
  have run: "r_head (x_run retry_env) = (\<lambda>h. Some (if hd_generation h = 6 then ''A'' else ''B''))" "t_sha (x_run retry_env) = (\<lambda>b. b)"
    by (simp_all add: retry_env_def demo_runtime_def)
  show ?thesis
    unfolding bind_release_step_def Let_def assms(1) [symmetric] by (simp add: link andthen_def random run give_def assms(3) assms(2) [symmetric])
qed

theorem retried_release_refused_witness:
  "hd_generation (retry_released 7) = hd_generation retry_head + 2 \<and>
   validate_released_head (x_run retry_env) retry_head ''B'' = Inl Conflict"
proof -
  have one: "bind_release_step retry_env retry_head ''c'' None retry_state w =
    (Inr (retry_state\<lparr>as_gc_link := Some (retry_link\<lparr>gl_released_head := ''A'', gl_released_sha := ''A'', gl_phase := GcReleasing,
       gl_generation := 4\<rparr>)\<rparr>, ''A'', retry_released 6), arrive retry_env w)" for w
    by (rule retry_attempt [where h = retry_head]) (simp_all add: retry_head_def retry_released_def fresh_head_def)
  have two: "bind_release_step retry_env retry_head ''c'' (Some (''A'', retry_released 6)) retry_state w =
    (Inr (retry_state\<lparr>as_gc_link := Some (retry_link\<lparr>gl_released_head := ''B'', gl_released_sha := ''B'', gl_phase := GcReleasing,
       gl_generation := 4\<rparr>)\<rparr>, ''B'', retry_released 7), arrive retry_env w)" for w
    by (rule retry_attempt [where h = "retry_released 6"]) (simp_all add: retry_released_def fresh_head_def)
  have link: "as_gc_link retry_state = Some retry_link" "gl_released_sha retry_link = []"
    by (simp_all add: retry_state_def retry_link_def)
  have head: "head_unmarshal (x_run retry_env) ''B'' = Some (retry_released 7)"
    by (simp add: head_unmarshal_def retry_env_def retry_released_def fresh_head_def Let_def)
  have "hd_generation retry_head < hd_generation retry_head + 2" by (simp add: retry_head_def)
  from retried_release_refused [OF one two link head this] show ?thesis by blast
qed

end
