(* ===== verification/CatalogEntry.thy ===== *)
theory CatalogEntry
  imports CatalogState GoUtf8
begin

text \<open>
  What the catalog's trees hold: entries with the facts of the session picker, their keys in the order
  indexes, and their encoding in a leaf (\<open>internal/catalog/catalog.go\<close>, \<open>picker_row.go\<close>,
  \<open>entry_codec.go\<close>, \<open>listingindex.ActivityTime\<close>, \<open>agentmeta.Canonical\<close>). Times are instants: the zone a time was
  written in is not kept.
\<close>

subsection \<open>Data\<close>

text \<open>
  The metadata fields these operations read; \<open>sy_other\<close> is the encoding of the fields they do not read, empty
  when all of them have their zero values. \<open>sy_replay\<close> is the content of a replay mark, empty for \<open>Replay{}\<close>.
\<close>

record summary = metadata +
  sy_origin :: bytes
  sy_started :: time
  sy_ended :: "time option"
  sy_parent :: bytes
  sy_child :: bool
  sy_replay :: "bytes option"
  sy_repo :: bytes
  sy_name :: bytes
  sy_title :: bytes
  sy_project_name :: bytes
  sy_turns :: "int option"
  sy_other :: bytes

datatype prompt_state = PromptsUnknown | PromptsZero | PromptsPositive | OtherPrompts bytes

record row =
  rw_schema :: u64
  rw_key :: bytes
  rw_session :: bytes
  rw_harness :: bytes
  rw_canonical :: bytes
  rw_metadata :: objref
  rw_revision :: bytes
  rw_project :: bytes
  rw_repo :: bytes
  rw_activity :: time
  rw_captured :: time
  rw_name :: bytes
  rw_title :: bytes
  rw_project_name :: bytes
  rw_root :: bool
  rw_replay :: bool
  rw_ordinary :: int
  rw_replays :: int
  rw_state :: prompt_state
  rw_prompts :: "int option"

record entry =
  en_picker :: "row option"
  en_overflow :: bytes
  en_ordinary :: u64
  en_replays :: u64
  en_revision :: bytes
  en_metadata :: objref
  en_summary :: summary

text \<open>\<open>record\<close>: the leaf of the identity tree; no entry marks a removed session.\<close>

record identity =
  id_revision :: bytes
  id_entry :: "entry option"

record mutation_receipt =
  mr_digest :: bytes
  mr_revision :: bytes
  mr_session :: bytes
  mr_metadata :: bytes

text \<open>
  \<open>encoding/json\<close> on these records: \<open>k_*\<close> encode, \<open>k_*_in\<close> decode the plain structure, with the raw text of
  the fields that have a decoder of their own (empty when absent or null) and, for a row, the raw text of every field.
\<close>

record entry_codec = text_calls +
  k_entry :: "entry \<Rightarrow> bytes option"
  k_entry_in :: "bytes \<Rightarrow> (entry \<times> bytes) option"
  k_identity :: "identity \<Rightarrow> bytes option"
  k_identity_in :: "bytes \<Rightarrow> (bytes \<times> bytes) option"
  k_row :: "row \<Rightarrow> bytes option"
  k_row_in :: "bytes \<Rightarrow> (row \<times> (bytes \<times> bytes) list) option"
  k_summary :: "summary \<Rightarrow> bytes option"
  k_summary_in :: "bytes \<Rightarrow> summary option"
  k_receipt :: "mutation_receipt \<Rightarrow> bytes option"
  k_item :: "bytes \<Rightarrow> bytes \<Rightarrow> bytes option"

subsection \<open>Times\<close>

definition digits :: "nat \<Rightarrow> nat \<Rightarrow> bytes" where
  "digits k n = map (\<lambda>i. char_of (48 + n div 10 ^ i mod 10)) (rev [0..<k])"

text \<open>The year, month and day of a day counted from the first of January of the year 1.\<close>

definition civil :: "int \<Rightarrow> int \<times> nat \<times> nat" where
  "civil days =
     (let z = days + 306; era = z div 146097; doe = z mod 146097;
          yoe = (doe - doe div 1460 + doe div 36524 - doe div 146096) div 365;
          doy = doe - (365 * yoe + yoe div 4 - yoe div 100);
          mp = (5 * doy + 2) div 153; month = (if mp < 10 then mp + 3 else mp - 9) in
      (yoe + era * 400 + (if month \<le> 2 then 1 else 0), nat month, nat (doy - (153 * mp + 2) div 5 + 1)))"

fun year_width :: "nat \<Rightarrow> nat" where
  "year_width y = (if y < 10000 then 4 else Suc (year_width (y div 10)))"

declare year_width.simps [simp del]

text \<open>\<open>UTC().Format("2006-01-02T15:04:05.000000000Z")\<close>.\<close>

definition format_time :: "time \<Rightarrow> bytes" where
  "format_time t =
     (let day = 86400000000000; (y, mo, d) = civil (t div day); n = nat (t mod day);
          year = nat (abs y); secs = n div 1000000000 in
      (if y < 0 then ''-'' else []) @ digits (year_width year) year @ ''-'' @ digits 2 mo @ ''-'' @ digits 2 d @ ''T'' @
      digits 2 (secs div 3600) @ '':'' @ digits 2 (secs div 60 mod 60) @ '':'' @ digits 2 (secs mod 60) @ ''.'' @
      digits 9 (n mod 1000000000) @ ''Z'')"

definition is_child :: "summary \<Rightarrow> bool" where
  "is_child m = (sy_child m \<or> sy_parent m \<noteq> [])"

definition origin_import :: bytes where
  "origin_import = ''import''"

definition activity_time :: "summary \<Rightarrow> time" where
  "activity_time m =
     (case sy_ended m of
        Some t \<Rightarrow> t
      | None \<Rightarrow> if sy_origin m = origin_import \<and> sy_started m \<noteq> 0 then sy_started m else md_captured m)"

subsection \<open>Names of agents\<close>

text \<open>\<open>Builtins\<close>: each identity with its aliases.\<close>

definition builtin_names :: "(bytes \<times> bytes) list" where
  "builtin_names = [(''claude'', ''claude''), (''claude-code'', ''claude''), (''codex'', ''codex''), (''cursor'', ''cursor''),
     (''muse'', ''muse''), (''muse-code'', ''muse'')]"

definition normalize_name :: "'t text_calls_scheme \<Rightarrow> bytes \<Rightarrow> bytes" where
  "normalize_name T name = t_lower T (trim_space name)"

definition canonical_harness :: "'t text_calls_scheme \<Rightarrow> bytes \<Rightarrow> bytes" where
  "canonical_harness T name =
     (let n = normalize_name T name in case map_of builtin_names n of None \<Rightarrow> n | Some agent \<Rightarrow> agent)"

text \<open>The pattern \<open>repoKeyShape\<close>; in Go a dollar matches only at the end of the text.\<close>

definition is_repo_key :: "bytes \<Rightarrow> bool" where
  "is_repo_key s =
     (has_prefix s ''repo-'' \<and> length s = 21 \<and>
      list_all (\<lambda>c. in_range CHR ''0'' CHR ''9'' c \<or> in_range CHR ''a'' CHR ''f'' c) (drop 5 s))"

subsection \<open>Keys of the order indexes\<close>

definition complement_byte :: "char \<Rightarrow> char" where
  "complement_byte c = char_of (255 - (of_char c :: nat))"

definition descending_identity :: "bytes \<Rightarrow> bytes" where
  "descending_identity key = hex_encode (map complement_byte key)"

definition order_prefix :: "bool \<Rightarrow> bytes" where
  "order_prefix replay = (if replay then ''!root/replay/'' else ''!root/ordinary/'')"

definition kind_prefix :: "bool \<Rightarrow> bytes" where
  "kind_prefix replay = (if replay then ''replay/'' else ''ordinary/'')"

definition child_prefix :: "bytes \<Rightarrow> bytes \<Rightarrow> bool \<Rightarrow> bytes" where
  "child_prefix harness parent replay =
     ''!child/'' @ hex_encode (harness @ ''/'' @ parent) @ ''/'' @ kind_prefix replay"

definition leaf_session_key :: "entry \<Rightarrow> bytes" where
  "leaf_session_key e =
     (case metadata_object_key (md_harness (en_summary e)) (md_session (en_summary e)) of Inl _ \<Rightarrow> [] | Inr k \<Rightarrow> k)"

text \<open>The keys in the capture, activity and project indexes.\<close>

definition order_keys :: "bytes \<Rightarrow> entry \<Rightarrow> bytes \<times> bytes \<times> bytes" where
  "order_keys key e =
     (let capture = format_time (md_captured (en_summary e)); activity = format_time (activity_time (en_summary e));
          identity = descending_identity key in
      (capture @ ''/'' @ identity, activity @ ''/'' @ capture @ ''/'' @ identity,
       ''project/'' @ hex_encode (md_project (en_summary e)) @ ''/'' @ key))"

subsection \<open>Picker rows\<close>

definition overflow_metadata :: bytes where
  "overflow_metadata = ''metadata-v10''"

definition picker_row_bytes :: int where
  "picker_row_bytes = 8192"

definition picker_envelope_bytes :: int where
  "picker_envelope_bytes = 16384"

definition picker_label_bytes :: nat where
  "picker_label_bytes = 256"

definition max_int64 :: int where
  "max_int64 = 9223372036854775807"

text \<open>\<open>validateEntryReference\<close> of an entry without picker facts and overflow mark.\<close>

definition metadata_ref_ok :: "objref \<Rightarrow> bool" where
  "metadata_ref_ok ref =
     (exact_hex (rsha ref) 32 \<and> rkey ref = ''catalog-v4/metadata/'' @ rsha ref @ ''.json'')"

definition prompts_ok :: "row \<Rightarrow> bool" where
  "prompts_ok r =
     (case rw_state r of
        PromptsUnknown \<Rightarrow> rw_prompts r = None
      | PromptsZero \<Rightarrow> rw_prompts r = Some 0
      | PromptsPositive \<Rightarrow> (case rw_prompts r of None \<Rightarrow> False | Some n \<Rightarrow> n > 0)
      | OtherPrompts _ \<Rightarrow> False)"

definition bounded_text :: "int \<Rightarrow> bytes \<Rightarrow> bool" where
  "bounded_text n s = (valid_utf8 s \<and> \<not> longer s n)"

definition validate_row :: "entry_codec \<Rightarrow> row \<Rightarrow> cerr + unit" where
  "validate_row K r =
     (case metadata_object_key (rw_harness r) (rw_session r) of
        Inl _ \<Rightarrow> Inl Refused
      | Inr key \<Rightarrow>
          if key \<noteq> rw_key r \<or> rw_schema r \<noteq> 1 \<or> rw_revision r = [] \<or> rw_canonical r = [] \<or>
             rw_canonical r \<noteq> canonical_harness K (rw_harness r) \<or> longer key 1024 \<or>
             rw_ordinary r < 0 \<or> rw_replays r < 0 then Inl Refused
          else if \<not> list_all (bounded_text 512) [rw_project r, rw_repo r] then Inl Refused
          else if \<not> list_all (bounded_text 1024) [rw_harness r, rw_canonical r, rw_session r, rw_revision r] then Inl Refused
          else if rw_repo r \<noteq> [] \<and> \<not> is_repo_key (rw_repo r) then Inl Refused
          else if \<not> list_all (bounded_text (int picker_label_bytes)) [rw_name r, rw_title r, rw_project_name r] then Inl Refused
          else if \<not> prompts_ok r \<or> \<not> metadata_ref_ok (rw_metadata r) then Inl Refused
          else
            (case k_row K r of
               None \<Rightarrow> Inl Refused
             | Some raw \<Rightarrow> guard (\<not> longer raw picker_row_bytes) Refused))"

definition picker_scopes :: "row \<Rightarrow> bytes list" where
  "picker_scopes r =
     ''global/-'' #
     (if rw_project r \<noteq> [] then [''project-any/'' @ hex_encode (rw_project r)] else []) @
     (if rw_repo r \<noteq> [] then [''repo/'' @ hex_encode (rw_repo r)]
      else if rw_project r \<noteq> [] then [''project-missing/'' @ hex_encode (rw_project r)] else [])"

definition picker_memberships :: "row \<Rightarrow> bytes list" where
  "picker_memberships r = ''browse'' # (if rw_state r \<noteq> PromptsZero then [''handoff''] else [])"

definition picker_order :: "row \<Rightarrow> bytes" where
  "picker_order r =
     format_time (rw_activity r) @ ''/'' @ format_time (rw_captured r) @ ''/'' @
     descending_identity (rw_harness r @ nul @ rw_session r @ nul)"

definition membership_keys :: "entry_codec \<Rightarrow> bytes \<Rightarrow> row \<Rightarrow> cerr + bytes list" where
  "membership_keys K key r =
     sbind (validate_row K r) (\<lambda>_.
       if key \<noteq> rw_key r then Inl Refused
       else if \<not> rw_root r \<or> rw_replay r then Inr []
       else
         (let keys = concat (map (\<lambda>m. concat (map (\<lambda>s. map (\<lambda>h. ''!picker/v1/'' @ m @ ''/'' @ s @ ''/'' @ h @ ''/'' @ picker_order r)
                [''all'', hex_encode (rw_canonical r)]) (picker_scopes r))) (picker_memberships r)) in
          if list_ex (\<lambda>k. length k > 4096) keys then Inl Refused else Inr keys))"

text \<open>The range of all physical identities of a canonical association.\<close>

definition identity_range :: "'t text_calls_scheme \<Rightarrow> bytes \<Rightarrow> bytes \<Rightarrow> cerr + bytes \<times> bytes" where
  "identity_range T harness sid =
     (if \<not> valid_utf8 harness \<or> \<not> valid_utf8 sid then Inl Refused
      else
        (let canonical = canonical_harness T harness in
         case metadata_object_key canonical sid of
           Inl _ \<Rightarrow> Inl Refused
         | Inr identity \<Rightarrow>
             if canonical = [] \<or> longer identity 1024 then Inl Refused
             else
               (let lower = ''!picker-identity/v1/'' @ hex_encode canonical @ ''/'' @ hex_encode sid in
                Inr (lower @ ''/'', lower @ ''0''))))"

definition picker_identity_key :: "entry_codec \<Rightarrow> row \<Rightarrow> cerr + bytes" where
  "picker_identity_key K r =
     sbind (validate_row K r) (\<lambda>_.
     sbind (identity_range K (rw_canonical r) (rw_session r)) (\<lambda>(lower, _).
       (let key = lower @ hex_encode (rw_key r) in if length key > 4096 then Inl Refused else Inr key)))"

definition picker_tree_key :: "bytes \<Rightarrow> bool" where
  "picker_tree_key key = (has_prefix key ''!picker/'' \<or> has_prefix key ''!picker-identity/'')"

definition same_row :: "row \<Rightarrow> row \<Rightarrow> bool" where
  "same_row a b =
     (rw_activity a = rw_activity b \<and> rw_captured a = rw_captured b \<and> rw_prompts a = rw_prompts b \<and>
      a\<lparr>rw_activity := rw_activity b, rw_captured := rw_captured b, rw_prompts := None\<rparr> = b\<lparr>rw_prompts := None\<rparr>)"

text \<open>\<open>pickerLabel\<close>: a valid prefix of at most 256 bytes.\<close>

function label_cut :: "bytes \<Rightarrow> bytes" where
  "label_cut s = (if valid_utf8 s then s else label_cut (butlast s))"
  by pat_completeness auto
termination
proof (relation "measure length")
  fix s :: bytes
  assume "\<not> valid_utf8 s"
  then show "(butlast s, s) \<in> measure length" by (cases s) (simp_all add: valid_utf8.simps [of "[]"])
qed simp

declare label_cut.simps [simp del]

definition picker_label :: "bytes \<Rightarrow> cerr + bytes" where
  "picker_label s =
     (if \<not> valid_utf8 s then Inl Refused
      else Inr (if length s > picker_label_bytes then label_cut (take picker_label_bytes s) else s))"

definition build_row :: "entry_codec \<Rightarrow> bytes \<Rightarrow> entry \<Rightarrow> cerr + row" where
  "build_row K key e =
     (let m = en_summary e in
      if en_overflow e \<noteq> [] then Inl Refused
      else if metadata_object_key (md_harness m) (md_session m) \<noteq> Inr key then Inl Refused
      else if uint (en_ordinary e) > max_int64 \<or> uint (en_replays e) > max_int64 then Inl Refused
      else
        sbind (picker_label (sy_name m)) (\<lambda>name.
        sbind (picker_label (sy_title m)) (\<lambda>title.
        sbind (picker_label (sy_project_name m)) (\<lambda>project.
          (let r = \<lparr>rw_schema = 1, rw_key = key, rw_session = md_session m, rw_harness = md_harness m,
                 rw_canonical = canonical_harness K (md_harness m), rw_metadata = en_metadata e,
                 rw_revision = en_revision e, rw_project = md_project m, rw_repo = sy_repo m,
                 rw_activity = activity_time m, rw_captured = md_captured m, rw_name = name, rw_title = title,
                 rw_project_name = project, rw_root = (\<not> is_child m), rw_replay = (sy_replay m \<noteq> None),
                 rw_ordinary = uint (en_ordinary e), rw_replays = uint (en_replays e),
                 rw_state = (case sy_turns m of None \<Rightarrow> PromptsUnknown | Some n \<Rightarrow> if n = 0 then PromptsZero else PromptsPositive),
                 rw_prompts = sy_turns m\<rparr> in
           sbind (validate_row K r) (\<lambda>_.
           sbind (membership_keys K key r) (\<lambda>_.
           sbind (picker_identity_key K r) (\<lambda>_. Inr r))))))))"

subsection \<open>Entries\<close>

text \<open>The fields an overflow entry keeps of its summary.\<close>

definition index_projection :: "summary \<Rightarrow> summary" where
  "index_projection m =
     (let imported = sy_origin m = origin_import in
      \<lparr>md_schema = md_schema m, md_session = md_session m, md_harness = md_harness m, md_native = [],
       md_project = md_project m, md_captured = md_captured m, md_bundle = \<lparr>sr_key = [], sr_sha = [], sr_bytes = 0\<rparr>,
       md_history = None, sy_origin = (if imported then sy_origin m else []), sy_started = (if imported then sy_started m else 0),
       sy_ended = sy_ended m, sy_parent = sy_parent m, sy_child = sy_child m,
       sy_replay = (case sy_replay m of None \<Rightarrow> None | Some _ \<Rightarrow> Some []),
       sy_repo = [], sy_name = [], sy_title = [], sy_project_name = [], sy_turns = None, sy_other = []\<rparr>)"

definition same_metadata :: "entry_codec \<Rightarrow> summary \<Rightarrow> summary \<Rightarrow> bool" where
  "same_metadata K a b = (k_summary K a \<noteq> None \<and> k_summary K b \<noteq> None \<and> k_summary K a = k_summary K b)"

text \<open>\<open>validateEntryReference\<close>.\<close>

definition validate_entry :: "entry_codec \<Rightarrow> entry \<Rightarrow> cerr + unit" where
  "validate_entry K e =
     (if \<not> metadata_ref_ok (en_metadata e) then Inl Refused
      else if en_overflow e \<noteq> [] \<and> en_overflow e \<noteq> overflow_metadata then Inl Refused
      else
        (case en_picker e of
           None \<Rightarrow> Inr ()
         | Some r \<Rightarrow>
             sbind (validate_row K r) (\<lambda>_.
             sbind (membership_keys K (rw_key r) r) (\<lambda>_.
             sbind (picker_identity_key K r) (\<lambda>_.
             let m = en_summary e in
             if uint (en_ordinary e) > max_int64 \<or> uint (en_replays e) > max_int64 then Inl Refused
             else if rw_metadata r \<noteq> en_metadata e \<or> rw_revision r \<noteq> en_revision e \<or> rw_key r \<noteq> leaf_session_key e \<or>
               rw_project r \<noteq> md_project m \<or> rw_activity r \<noteq> activity_time m \<or> rw_captured r \<noteq> md_captured m \<or>
               rw_root r = is_child m \<or> rw_replay r \<noteq> (sy_replay m \<noteq> None) \<or> rw_ordinary r \<noteq> uint (en_ordinary e) \<or>
               rw_replays r \<noteq> uint (en_replays e) then Inl Refused
             else if en_overflow e = [] then
               sbind (build_row K (rw_key r) (e\<lparr>en_picker := None\<rparr>)) (\<lambda>expected. guard (same_row expected r) Refused)
             else Inr ())))))"

definition row_facts :: "bytes list" where
  "row_facts = [''Schema'', ''SessionKey'', ''SessionID'', ''Harness'', ''CanonicalHarness'', ''Metadata'', ''Revision'',
     ''ProjectID'', ''RepoKey'', ''Activity'', ''CapturedAt'', ''Name'', ''Title'', ''ProjectName'', ''Root'', ''Replay'',
     ''OrdinaryChildren'', ''ReplayChildren'', ''PromptState'']"

definition explicit_fact :: "(bytes \<times> bytes) list \<Rightarrow> bytes \<Rightarrow> bool" where
  "explicit_fact facts name = (case map_of facts name of None \<Rightarrow> False | Some v \<Rightarrow> trim_space v \<noteq> ''null'')"

text \<open>\<open>PickerRow.UnmarshalJSON\<close> and \<open>CatalogEntry.UnmarshalJSON\<close>.\<close>

definition decode_row_value :: "entry_codec \<Rightarrow> bytes \<Rightarrow> cerr + row" where
  "decode_row_value K raw =
     (if longer raw picker_row_bytes \<or> \<not> valid_utf8 raw then Inl Refused
      else
        (case k_row_in K raw of
           None \<Rightarrow> Inl Refused
         | Some (r, facts) \<Rightarrow>
             if \<not> list_all (explicit_fact facts) row_facts then Inl Refused
             else if map_of facts ''PromptCount'' \<noteq> None \<and>
               (rw_state r = PromptsUnknown \<or> \<not> explicit_fact facts ''PromptCount'') then Inl Refused
             else sbind (validate_row K r) (\<lambda>_. Inr r)))"

definition decode_entry :: "entry_codec \<Rightarrow> bytes \<Rightarrow> cerr + entry" where
  "decode_entry K raw =
     (case k_entry_in K raw of
        None \<Rightarrow> Inl Refused
      | Some (plain, picker) \<Rightarrow>
          sbind (if picker = [] then Inr None else sbind (decode_row_value K picker) (\<lambda>r. Inr (Some r))) (\<lambda>p.
          (let e = plain\<lparr>en_picker := p\<rparr> in
           sbind (validate_entry K e) (\<lambda>_.
           if en_overflow e \<noteq> [] \<and> \<not> same_metadata K (en_summary e) (index_projection (en_summary e)) then Inl Refused
           else Inr e))))"

definition decode_identity :: "entry_codec \<Rightarrow> bytes \<Rightarrow> cerr + identity" where
  "decode_identity K raw =
     (case k_identity_in K raw of
        None \<Rightarrow> Inl Refused
      | Some (revision, e) \<Rightarrow>
          if e = [] then Inr \<lparr>id_revision = revision, id_entry = None\<rparr>
          else sbind (decode_entry K e) (\<lambda>e. Inr \<lparr>id_revision = revision, id_entry = Some e\<rparr>))"

text \<open>\<open>DecodePickerRow\<close>: a leaf of the picker's ranges names its own key.\<close>

definition decode_picker_row :: "entry_codec \<Rightarrow> bytes \<Rightarrow> bytes \<Rightarrow> cerr + row" where
  "decode_picker_row K key raw =
     (if longer raw picker_envelope_bytes \<or> \<not> picker_tree_key key then Inl Refused
      else
        sbind (decode_entry K raw) (\<lambda>e.
        case en_picker e of
          None \<Rightarrow> Inl Refused
        | Some r \<Rightarrow>
            if en_overflow e \<noteq> overflow_metadata then Inl Refused
            else if has_prefix key ''!picker-identity/'' then
              sbind (picker_identity_key K r) (\<lambda>identity. if identity \<noteq> key then Inl Refused else Inr r)
            else sbind (membership_keys K (rw_key r) r) (\<lambda>keys. if key \<in> set keys then Inr r else Inl Refused)))"

text \<open>All keys of an entry in the capture, activity and project indexes.\<close>

definition all_order_keys :: "entry_codec \<Rightarrow> bytes \<Rightarrow> entry \<Rightarrow> bytes list \<times> bytes list \<times> bytes list" where
  "all_order_keys K key e =
     (let (c, a, p) = order_keys key e; m = en_summary e; replay = (sy_replay m \<noteq> None);
          prefix = (if is_child m then ''!children/'' @ kind_prefix replay else order_prefix replay);
          parent = (if is_child m \<and> sy_parent m \<noteq> [] then [child_prefix (md_harness m) (sy_parent m) replay @ c] else []);
          picker = (case en_picker e of
            None \<Rightarrow> []
          | Some r \<Rightarrow> (case membership_keys K key r of Inl _ \<Rightarrow> [] | Inr ks \<Rightarrow> ks) @
              [case picker_identity_key K r of Inl _ \<Rightarrow> [] | Inr k \<Rightarrow> k]) in
      ([c, prefix @ c], [a, prefix @ a], [p, prefix @ p] @ parent @ picker))"

subsection \<open>Leaves\<close>

datatype tree_value = IdentityValue identity | EntryValue entry | ReceiptValue mutation_receipt

definition compact_entry :: "entry \<Rightarrow> entry" where
  "compact_entry e = e\<lparr>en_overflow := overflow_metadata, en_summary := index_projection (en_summary e)\<rparr>"

fun compact_tree_value :: "tree_value \<Rightarrow> tree_value" where
  "compact_tree_value (IdentityValue i) = IdentityValue (i\<lparr>id_entry := map_option compact_entry (id_entry i)\<rparr>)"
| "compact_tree_value (EntryValue e) = EntryValue (compact_entry e)"
| "compact_tree_value (ReceiptValue r) = ReceiptValue r"

fun entry_tree_value :: "tree_value \<Rightarrow> bool" where
  "entry_tree_value (IdentityValue i) = (id_entry i \<noteq> None)"
| "entry_tree_value (EntryValue e) = True"
| "entry_tree_value (ReceiptValue r) = False"

fun marshal_value :: "entry_codec \<Rightarrow> tree_value \<Rightarrow> bytes option" where
  "marshal_value K (IdentityValue i) = k_identity K i"
| "marshal_value K (EntryValue e) = k_entry K e"
| "marshal_value K (ReceiptValue r) = k_receipt K r"

definition inline_leaf_bytes :: int where
  "inline_leaf_bytes = 65536"

text \<open>A failed \<open>json.Marshal\<close> is an error.\<close>

definition marshalled :: "bytes option \<Rightarrow> cerr + bytes" where
  "marshalled r = (case r of None \<Rightarrow> Inl Refused | Some raw \<Rightarrow> Inr raw)"

definition encode_tree_value :: "entry_codec \<Rightarrow> bytes \<Rightarrow> tree_value \<Rightarrow> cerr + bytes" where
  "encode_tree_value K key v0 =
     (let v = (if picker_tree_key key then compact_tree_value v0 else v0) in
      sbind (marshalled (marshal_value K v)) (\<lambda>raw.
      sbind (if picker_tree_key key then sbind (decode_picker_row K key raw) (\<lambda>_. Inr ()) else Inr ()) (\<lambda>_.
      sbind (marshalled (k_item K key raw)) (\<lambda>leaf.
      if \<not> entry_tree_value v \<or> \<not> longer leaf inline_leaf_bytes then Inr raw
      else
        sbind (marshalled (marshal_value K (compact_tree_value v))) (\<lambda>raw.
        sbind (marshalled (k_item K key raw)) (\<lambda>leaf.
          if longer leaf inline_leaf_bytes then Inl Refused else Inr raw))))))"

subsection \<open>Bodies\<close>

definition match_metadata :: "entry_codec \<Rightarrow> entry \<Rightarrow> summary \<Rightarrow> cerr + unit" where
  "match_metadata K e m =
     sbind (validate_entry K e) (\<lambda>_.
     (let expected = (if en_overflow e \<noteq> [] then index_projection (en_summary e) else en_summary e);
          actual = (if en_overflow e \<noteq> [] then index_projection m else m) in
      if \<not> same_metadata K expected actual then Inl Refused
      else
        (case en_picker e of
           None \<Rightarrow> Inr ()
         | Some r \<Rightarrow>
             sbind (build_row K (rw_key r) (e\<lparr>en_summary := m, en_overflow := [], en_picker := None\<rparr>)) (\<lambda>row.
               guard (same_row row r) Refused))))"

text \<open>\<open>VerifySHA256\<close> compares the digests of a well-formed expectation.\<close>

definition decode_entry_body :: "entry_codec \<Rightarrow> entry \<Rightarrow> bytes \<Rightarrow> cerr + summary" where
  "decode_entry_body K e raw =
     sbind (validate_entry K e) (\<lambda>_.
     if \<not> equal_fold (t_sha K raw) (rsha (en_metadata e)) then Inl ChecksumMismatch
     else
       (case k_summary_in K raw of
          None \<Rightarrow> Inl Refused
        | Some m \<Rightarrow>
            if metadata_object_key (md_harness m) (md_session m) \<noteq> Inr (leaf_session_key e) then Inl Refused
            else sbind (match_metadata K e m) (\<lambda>_. Inr m)))"

text \<open>\<open>decodeIdentityRecord\<close> checks a leaf of the identity tree against its key.\<close>

definition decode_identity_record :: "entry_codec \<Rightarrow> bytes \<Rightarrow> bytes \<Rightarrow> cerr + identity" where
  "decode_identity_record K raw key =
     sbind (decode_identity K raw) (\<lambda>r.
     if id_revision r = [] then Inl Refused
     else
       (case id_entry r of
          None \<Rightarrow> Inr r
        | Some e \<Rightarrow>
            if en_revision e \<noteq> id_revision r \<or> leaf_session_key e \<noteq> key \<or> rkey (en_metadata e) = [] then Inl Refused
            else (case ref_validate (en_metadata e) of Inl _ \<Rightarrow> Inl Refused | Inr _ \<Rightarrow> Inr r)))"

definition validate_live_entry :: "head \<Rightarrow> entry option \<Rightarrow> cerr + unit" where
  "validate_live_entry h e =
     guard (\<not> (hd_protocol h = 11 \<and> (case e of None \<Rightarrow> False | Some e \<Rightarrow> en_picker e = None))) Refused"

end
