(* ===== verification/Snapshot.thy ===== *)
theory Snapshot
  imports CatalogEntry CatalogRecovery
begin

text \<open>
  \<open>internal/catalog/snapshot.go\<close>, \<open>discovery.go\<close>, \<open>resolved_row.go\<close>, \<open>read_view.go\<close>: a reader pins the roots of
  one head for at most ten minutes and reads trees through a cache of verified nodes. The reader's state
  is the world, the number of clock readings, the cache, the requests made, the work budget its
  context carries and the records of resolved rows; a snapshot's address is a number.
\<close>

subsection \<open>State\<close>

record work =
  wk_max_nodes :: int
  wk_max_bytes :: int
  wk_nodes :: int
  wk_bytes :: int
  wk_heads :: int
  wk_coords :: int

record snapshot =
  sn_id :: nat
  sn_head :: head
  sn_etag :: bytes
  sn_started :: time
  sn_nonce :: bytes
  sn_secret :: bytes

datatype tree_index = IdentityIndex | CaptureIndex | ActivityIndex | ProjectIndex | OtherIndex bytes

record query =
  q_index :: tree_index
  q_lower :: bytes
  q_upper :: bytes
  q_reverse :: bool

record cursor =
  cu_nonce :: bytes
  cu_root :: objref
  cu_query :: query
  cu_after :: bytes
  cu_limit :: int
  cu_seal :: bytes

record selected =
  se_key :: bytes
  se_entry :: entry
  se_resolved :: "nat option"

record page =
  pg_rows :: "selected list"
  pg_next :: bytes

record resolved =
  rs_snapshot :: nat
  rs_key :: bytes
  rs_hash :: bytes
  rs_used :: bool

record reader =
  rd_world :: world
  rd_looks :: nat
  rd_cache :: "(objref \<times> bytes) list"
  rd_requests :: u64
  rd_work :: "work option"
  rd_discovery :: bool
  rd_resolved :: "resolved list"

text \<open>
  \<open>z_now\<close> is the monotonic clock at its n-th reading. \<open>z_cursor\<close>, \<open>z_cursor_in\<close> are \<open>encoding/json\<close> on cursors,
  \<open>z_b64\<close>, \<open>z_b64_in\<close> unpadded URL base64, \<open>z_mac\<close> HMAC-SHA256, \<open>z_row\<close> the encoding \<open>rowDigest\<close> hashes.
\<close>

record reader_env =
  z_env :: environment
  z_entries :: entry_codec
  z_nodes :: cenv
  z_now :: "nat \<Rightarrow> time"
  z_cursor :: "cursor \<Rightarrow> bytes option"
  z_cursor_in :: "bytes \<Rightarrow> cursor option"
  z_b64 :: "bytes \<Rightarrow> bytes"
  z_b64_in :: "bytes \<Rightarrow> bytes option"
  z_mac :: "bytes \<Rightarrow> bytes \<Rightarrow> bytes"
  z_row :: "bytes \<Rightarrow> entry \<Rightarrow> bytes option"

type_synonym 'a ract = "(reader, cerr, 'a) step"

definition in_world :: "'a act \<Rightarrow> 'a ract" where
  "in_world m p = (let (r, w) = m (rd_world p) in (r, p\<lparr>rd_world := w\<rparr>))"

definition get_reader :: "reader ract" where
  "get_reader p = (Inr p, p)"

definition update_reader :: "(reader \<Rightarrow> reader) \<Rightarrow> unit ract" where
  "update_reader f p = (Inr (), f p)"

subsection \<open>Lifetime\<close>

definition snapshot_lifetime :: dur where
  "snapshot_lifetime = 10 * minute"

text \<open>\<open>time.Since(started) >= SnapshotLifetime\<close>.\<close>

definition expired_since :: "reader_env \<Rightarrow> time \<Rightarrow> bool ract" where
  "expired_since Z started p =
     (Inr (z_now Z (rd_looks p) - started \<ge> snapshot_lifetime), p\<lparr>rd_looks := Suc (rd_looks p)\<rparr>)"

definition fresh_since :: "reader_env \<Rightarrow> time \<Rightarrow> unit ract" where
  "fresh_since Z started = andthen (expired_since Z started) (\<lambda>old. if old then raise StaleCursor else give ())"

definition check_snapshot :: "reader_env \<Rightarrow> snapshot \<Rightarrow> unit ract" where
  "check_snapshot Z s = andthen (in_world (context_err (z_env Z))) (\<lambda>_. fresh_since Z (sn_started s))"

subsection \<open>Work budgets\<close>

definition work_node :: "unit ract" where
  "work_node p =
     (case rd_work p of
        None \<Rightarrow> (Inr (), p)
      | Some k \<Rightarrow> if wk_nodes k \<ge> wk_max_nodes k then (Inl PickerBudget, p)
          else (Inr (), p\<lparr>rd_work := Some (k\<lparr>wk_nodes := wk_nodes k + 1\<rparr>)\<rparr>))"

definition work_bytes :: "nat \<Rightarrow> unit ract" where
  "work_bytes n p =
     (case rd_work p of
        None \<Rightarrow> (Inr (), p)
      | Some k \<Rightarrow> if int n > wk_max_bytes k - wk_bytes k then (Inl PickerBudget, p)
          else (Inr (), p\<lparr>rd_work := Some (k\<lparr>wk_bytes := wk_bytes k + int n\<rparr>)\<rparr>))"

text \<open>The limit of a read under the budget of the context.\<close>

definition work_limit :: "int \<Rightarrow> int ract" where
  "work_limit limit p =
     (case rd_work p of
        None \<Rightarrow> (Inr limit, p)
      | Some k \<Rightarrow>
          (let l = min limit (wk_max_bytes k - wk_bytes k - 1) in if l \<le> 0 then (Inl PickerBudget, p) else (Inr l, p)))"

definition new_work :: "int \<Rightarrow> int \<Rightarrow> cerr + work" where
  "new_work nodes bytes =
     (if nodes < 0 \<or> bytes < 0 then Inl PickerUnsupported
      else Inr \<lparr>wk_max_nodes = (if nodes = 0 then 8192 else nodes), wk_max_bytes = (if bytes = 0 then 33554432 else bytes),
             wk_nodes = 0, wk_bytes = 0, wk_heads = 0, wk_coords = 0\<rparr>)"

definition count_observation :: "bytes \<Rightarrow> work \<Rightarrow> work" where
  "count_observation key k =
     (if key = head_key then k\<lparr>wk_heads := wk_heads k + 1\<rparr>
      else if key = coordinator_key then k\<lparr>wk_coords := wk_coords k + 1\<rparr> else k)"

text \<open>\<open>readDiscoveryVersion\<close>: a discovery pass also charges what it reads of the head and of the coordinator.\<close>

definition read_discovery_version :: "reader_env \<Rightarrow> bytes \<Rightarrow> int \<Rightarrow> (bytes \<times> version) ract" where
  "read_discovery_version Z key limit p =
     (case rd_work p of
        None \<Rightarrow> in_world (get_version (z_env Z) key limit) p
      | Some _ \<Rightarrow>
          if \<not> rd_discovery p then in_world (get_version (z_env Z) key limit) p
          else
            andthen (work_limit limit) (\<lambda>l.
            andthen (update_reader (\<lambda>p. p\<lparr>rd_work := map_option (count_observation key) (rd_work p)\<rparr>)) (\<lambda>_ p.
            case in_world (get_version (z_env Z) key l) p of
              (r, p') \<Rightarrow>
                andthen (work_bytes (case r of Inl _ \<Rightarrow> 0 | Inr (raw, _) \<Rightarrow> length raw)) (\<lambda>_.
                  case r of
                    Inl e \<Rightarrow> raise (if is_err TooLarge e \<and> l < limit then PickerBudget else e)
                  | Inr x \<Rightarrow> give x) p')) p)"

subsection \<open>Head and activation\<close>

definition observe_coordinator :: "reader_env \<Rightarrow> (admissions \<times> bytes) ract" where
  "observe_coordinator Z p =
     (let R = x_run (z_env Z) in
      case read_discovery_version Z coordinator_key coordinator_limit p of
        (Inl e, p') \<Rightarrow> (if is_err NotFound e then Inr (initial_admissions, []) else Inl e, p')
      | (Inr (raw, v), p') \<Rightarrow>
          (case r_state_in R raw of
             None \<Rightarrow> Inl Refused
           | Some s \<Rightarrow>
               if longer raw coordinator_limit \<or> \<not> state_valid R s \<or> ve_etag v = [] then Inl Refused else Inr (s, ve_etag v),
           p'))"

definition observe_head :: "reader_env \<Rightarrow> (head \<times> bytes) ract" where
  "observe_head Z p =
     (case read_discovery_version Z head_key head_limit p of
        (Inl e, p') \<Rightarrow>
          if is_err NotFound e then
            andthen (observe_coordinator Z) (\<lambda>(s, _).
              if as_protocol s = 11 \<and> as_upgrade s = None then
                (if as_mode s \<noteq> Candidate \<or> as_seal s = [] then raise ScopedUnavailable
                 else give (fresh_head 5 11 (Some picker_format), []))
              else give (fresh_head 4 10 None, [])) p'
          else (Inl e, p')
      | (Inr (raw, v), p') \<Rightarrow> (sbind (decode_live_head (x_run (z_env Z)) raw v) (\<lambda>h. Inr (h, ve_etag v)), p'))"

definition observe_active :: "reader_env \<Rightarrow> unit ract" where
  "observe_active Z =
     andthen (observe_coordinator Z) (\<lambda>(s, _).
       if as_mode s \<noteq> Active \<or> as_proof s = [] then raise Refused else give ())"

text \<open>\<open>openSnapshotStarted\<close>, for the address given to the new snapshot.\<close>

definition open_snapshot :: "reader_env \<Rightarrow> nat \<Rightarrow> bool \<Rightarrow> time \<Rightarrow> snapshot ract" where
  "open_snapshot Z sid active started =
     andthen (if active then observe_active Z else give ()) (\<lambda>_.
     andthen (observe_head Z) (\<lambda>(h, etag).
     if etag = [] then raise NotFound
     else
       andthen (in_world (context_err (z_env Z))) (\<lambda>_.
       andthen (fresh_since Z started) (\<lambda>_.
       andthen (in_world (new_mutation_id (z_env Z))) (\<lambda>nonce.
       andthen (in_world (new_mutation_id (z_env Z))) (\<lambda>secret.
         give \<lparr>sn_id = sid, sn_head = h, sn_etag = etag, sn_started = started, sn_nonce = nonce, sn_secret = secret\<rparr>))))))"

definition validate_continuation :: "reader_env \<Rightarrow> snapshot \<Rightarrow> unit ract" where
  "validate_continuation Z s =
     andthen (check_snapshot Z s) (\<lambda>_.
     andthen (observe_head Z) (\<lambda>(_, etag).
       if etag \<noteq> sn_etag s then raise StaleCursor else check_snapshot Z s))"

text \<open>The first request has the head the snapshot was opened with.\<close>

definition fresh_request :: "reader_env \<Rightarrow> snapshot \<Rightarrow> unit ract" where
  "fresh_request Z s =
     andthen (check_snapshot Z s) (\<lambda>_.
     andthen get_reader (\<lambda>p.
     andthen (update_reader (\<lambda>p. p\<lparr>rd_requests := rd_requests p + 1\<rparr>)) (\<lambda>_.
       if rd_requests p = 0 then give () else validate_continuation Z s)))"

subsection \<open>Nodes\<close>

text \<open>\<open>readRef\<close> with what it hands back beside an error.\<close>

definition fetch_ref :: "environment \<Rightarrow> objref \<Rightarrow> int \<Rightarrow> world \<Rightarrow> (bytes \<times> cerr option) \<times> world" where
  "fetch_ref X ref limit w =
     (case ref_validate ref of
        Inl _ \<Rightarrow> (([], Some Refused), w)
      | Inr _ \<Rightarrow>
          if rkey ref = [] then (([], Some Refused), w)
          else
            (case get_version X (rkey ref) limit w of
               (Inl e, w') \<Rightarrow> (([], Some e), w')
             | (Inr (raw, _), w') \<Rightarrow>
                 (if longer raw limit then ([], Some TooLarge)
                  else if \<not> equal_fold (t_sha (x_run X) raw) (rsha ref) then (raw, Some ChecksumMismatch)
                  else (raw, None), w')))"

definition fetch :: "reader_env \<Rightarrow> objref \<Rightarrow> int \<Rightarrow> (bytes \<times> cerr option) ract" where
  "fetch Z ref limit p = (let (r, w) = fetch_ref (z_env Z) ref limit (rd_world p) in (Inr r, p\<lparr>rd_world := w\<rparr>))"

definition cache_node :: "objref \<Rightarrow> bytes \<Rightarrow> reader \<Rightarrow> reader" where
  "cache_node ref raw p =
     p\<lparr>rd_cache := AList.update ref raw (if length (rd_cache p) \<ge> 256 then [] else rd_cache p)\<rparr>"

definition read_cached :: "reader_env \<Rightarrow> objref \<Rightarrow> (bytes \<times> cerr option \<times> bool) ract" where
  "read_cached Z ref =
     andthen get_reader (\<lambda>p.
       case map_of (rd_cache p) ref of
         Some (c # raw) \<Rightarrow>
           give (c # raw, if equal_fold (t_sha (x_run (z_env Z)) (c # raw)) (rsha ref) then None else Some ChecksumMismatch, False)
       | _ \<Rightarrow>
           andthen (work_limit (int max_node_bytes)) (\<lambda>l.
           andthen (fetch Z ref l) (\<lambda>(raw, e). give (raw, e, l < int max_node_bytes))))"

definition snapshot_node :: "reader_env \<Rightarrow> snapshot \<Rightarrow> objref \<Rightarrow> node ract" where
  "snapshot_node Z s ref =
     (case ref_validate ref of
        Inl _ \<Rightarrow> raise Refused
      | Inr _ \<Rightarrow>
          andthen (in_world (context_err (z_env Z))) (\<lambda>_.
          andthen (fresh_since Z (sn_started s)) (\<lambda>_.
          if rkey ref = [] then give empty_node
          else
            andthen work_node (\<lambda>_.
            andthen (read_cached Z ref) (\<lambda>(raw, e, reduced).
            andthen (work_bytes (length raw)) (\<lambda>_.
            case e of
              Some e \<Rightarrow> raise (if is_err TooLarge e \<and> reduced then PickerBudget else e)
            | None \<Rightarrow>
                andthen (check_snapshot Z s) (\<lambda>_.
                case decode_node (z_nodes Z) raw of
                  Inl _ \<Rightarrow> raise Refused
                | Inr n \<Rightarrow> andthen (update_reader (cache_node ref raw)) (\<lambda>_. give n))))))))"

end
