(* ===== verification/SnapshotQuery.thy ===== *)
theory SnapshotQuery
  imports Snapshot
begin

text \<open>
  The reads of a snapshot: counts, ranges with cursors, single identities, bounded scans, the delta between
  two identity roots, and the bodies of selected rows (\<open>internal/catalog/snapshot.go\<close>, \<open>delta.go\<close>,
  \<open>discovery.go\<close>, \<open>resolved_row.go\<close>). The recursions count the levels below \<open>maxDepth\<close> that are left.
\<close>

subsection \<open>Ranges\<close>

definition index_root :: "snapshot \<Rightarrow> tree_index \<Rightarrow> cerr + objref" where
  "index_root s i =
     (case i of
        IdentityIndex \<Rightarrow> Inr (hd_identity (sn_head s))
      | CaptureIndex \<Rightarrow> Inr (hd_capture (sn_head s))
      | ActivityIndex \<Rightarrow> Inr (hd_activity (sn_head s))
      | ProjectIndex \<Rightarrow> Inr (hd_project (sn_head s))
      | OtherIndex _ \<Rightarrow> Inl Refused)"

definition default_range :: "query \<Rightarrow> query" where
  "default_range q =
     (if q_lower q = [] \<and> q_upper q = [] then
        (case q_index q of
           CaptureIndex \<Rightarrow> q\<lparr>q_lower := ''0'', q_upper := '':''\<rparr>
         | ActivityIndex \<Rightarrow> q\<lparr>q_lower := ''0'', q_upper := '':''\<rparr>
         | ProjectIndex \<Rightarrow> q\<lparr>q_lower := ''project/'', q_upper := ''project0''\<rparr>
         | _ \<Rightarrow> q)
      else q)"

definition range_contains :: "query \<Rightarrow> bytes \<Rightarrow> bytes \<Rightarrow> bool" where
  "range_contains q after key =
     (if key < q_lower q \<or> q_upper q \<noteq> [] \<and> key \<ge> q_upper q then False
      else if after = [] then True
      else if q_reverse q then key < after
      else key > after)"

definition range_intersects :: "query \<Rightarrow> bytes \<Rightarrow> bytes \<Rightarrow> bytes \<Rightarrow> bool" where
  "range_intersects q after lo hi =
     (if hi < q_lower q \<or> q_upper q \<noteq> [] \<and> lo \<ge> q_upper q then False
      else if after = [] then True
      else if q_reverse q then lo < after
      else hi > after)"

subsection \<open>Counting\<close>

text \<open>The loop over the children: V visits a child under the bounds of its keys.\<close>

fun count_children ::
  "(objref \<Rightarrow> bytes \<Rightarrow> bytes \<Rightarrow> nat ract) \<Rightarrow> query \<Rightarrow> bytes \<Rightarrow> nat \<Rightarrow> branch list \<Rightarrow> nat ract" where
  "count_children V q lo acc [] = give acc"
| "count_children V q lo acc (c # cs) =
     andthen (if lo < q_lower q \<or> q_upper q \<noteq> [] \<and> bmax c \<ge> q_upper q then V (bref c) lo (bmax c) else give (bcount c)) (\<lambda>n.
       if n > max_uint64 - acc then raise Refused else count_children V q (bmax c) (acc + n) cs)"

definition leaf_in_range :: "query \<Rightarrow> bytes \<Rightarrow> bool" where
  "leaf_in_range q key = (key \<ge> q_lower q \<and> (q_upper q = [] \<or> key < q_upper q))"

fun count_visit :: "reader_env \<Rightarrow> snapshot \<Rightarrow> query \<Rightarrow> nat \<Rightarrow> objref \<Rightarrow> bytes \<Rightarrow> bytes \<Rightarrow> nat ract" where
  "count_visit Z s q 0 ref lo hi = raise Refused"
| "count_visit Z s q (Suc r) ref lo hi =
     (if hi \<noteq> [] \<and> hi < q_lower q \<or> q_upper q \<noteq> [] \<and> lo \<ge> q_upper q then give 0
      else
        andthen (snapshot_node Z s ref) (\<lambda>n.
        if lo \<ge> q_lower q \<and> hi \<noteq> [] \<and> (q_upper q = [] \<or> hi < q_upper q) then give (ncount n)
        else
          andthen (count_children (count_visit Z s q r) q lo 0 (children n)) (\<lambda>acc.
            give ((acc + length (filter (leaf_in_range q) (map ikey (leaves n)))) mod (max_uint64 + 1)))))"

definition snapshot_count :: "reader_env \<Rightarrow> snapshot \<Rightarrow> query \<Rightarrow> nat ract" where
  "snapshot_count Z s q0 =
     (let q = default_range q0 in
      if q_index q = IdentityIndex then raise Refused
      else
        andthen (lift_sum (index_root s (q_index q))) (\<lambda>root.
        andthen (check_snapshot Z s) (\<lambda>_.
        andthen (count_visit Z s q max_depth root [] []) (\<lambda>n.
        andthen (check_snapshot Z s) (\<lambda>_. give n)))))"

subsection \<open>Rows\<close>

definition index_keys :: "tree_index \<Rightarrow> bytes list \<times> bytes list \<times> bytes list \<Rightarrow> bytes list" where
  "index_keys i keys =
     (case (i, keys) of (ActivityIndex, (_, a, _)) \<Rightarrow> a | (ProjectIndex, (_, _, p)) \<Rightarrow> p | (_, (c, _, _)) \<Rightarrow> c)"

text \<open>\<open>decodeRow\<close>: None for a removed session.\<close>

definition decode_row :: "entry_codec \<Rightarrow> tree_index \<Rightarrow> bytes \<Rightarrow> bytes \<Rightarrow> cerr + selected option" where
  "decode_row K i leaf raw =
     (let picker = (i = ProjectIndex \<and> picker_tree_key leaf) in
      sbind (if picker then sbind (decode_picker_row K leaf raw) (\<lambda>_. Inr ()) else Inr ()) (\<lambda>_.
      sbind (if i = IdentityIndex then sbind (decode_identity_record K raw leaf) (\<lambda>r. Inr (id_entry r))
             else sbind (decode_entry K raw) (\<lambda>e. Inr (Some e))) (\<lambda>found.
      case found of
        None \<Rightarrow> Inr None
      | Some e \<Rightarrow>
          (let key = leaf_session_key e in
           if picker \<and> (case en_picker e of None \<Rightarrow> True
             | Some r \<Rightarrow> rw_key r \<noteq> key \<or> rw_metadata r \<noteq> en_metadata e \<or> rw_revision r \<noteq> en_revision e) then Inl Refused
           else if key = [] \<or> en_revision e = [] \<or> rkey (en_metadata e) = [] then Inl Refused
           else
             (case ref_validate (en_metadata e) of
                Inl _ \<Rightarrow> Inl Refused
              | Inr _ \<Rightarrow>
                  if (if i = IdentityIndex then key \<noteq> leaf else leaf \<notin> set (index_keys i (all_order_keys K key e)))
                  then Inl Refused
                  else Inr (Some \<lparr>se_key = key, se_entry = e, se_resolved = None\<rparr>))))))"

text \<open>A leaf of the range as \<open>visitRange\<close> takes it: its row, checked against the format of the head.\<close>

definition live_row :: "reader_env \<Rightarrow> snapshot \<Rightarrow> tree_index \<Rightarrow> bytes \<Rightarrow> bytes \<Rightarrow> cerr + selected option" where
  "live_row Z s i leaf raw =
     sbind (decode_row (z_entries Z) i leaf raw) (\<lambda>found.
     case found of
       None \<Rightarrow> Inr None
     | Some row \<Rightarrow> sbind (validate_live_entry (sn_head s) (Some (se_entry row))) (\<lambda>_. Inr (Some row)))"

text \<open>The rows found so far, at most one more than the limit, and the key of the last leaf within it.\<close>

fun visit_leaves ::
  "reader_env \<Rightarrow> snapshot \<Rightarrow> query \<Rightarrow> bytes \<Rightarrow> nat \<Rightarrow> selected list \<times> bytes \<Rightarrow> item list \<Rightarrow> (selected list \<times> bytes) ract" where
  "visit_leaves Z s q after limit acc [] = give acc"
| "visit_leaves Z s q after limit acc (v # vs) =
     (if \<not> range_contains q after (ikey v) then visit_leaves Z s q after limit acc vs
      else
        andthen (lift_sum (live_row Z s (q_index q) (ikey v) (ival v))) (\<lambda>found.
        case found of
          None \<Rightarrow> visit_leaves Z s q after limit acc vs
        | Some row \<Rightarrow>
            (let rows = fst acc @ [row] in
             if length rows > limit then give (rows, snd acc) else visit_leaves Z s q after limit (rows, ikey v) vs)))"

fun visit_children ::
  "(objref \<Rightarrow> selected list \<times> bytes \<Rightarrow> (selected list \<times> bytes) ract) \<Rightarrow> query \<Rightarrow> bytes \<Rightarrow> nat \<Rightarrow>
   selected list \<times> bytes \<Rightarrow> (bytes \<times> branch) list \<Rightarrow> (selected list \<times> bytes) ract" where
  "visit_children V q after limit acc [] = give acc"
| "visit_children V q after limit acc ((lo, c) # cs) =
     (if \<not> range_intersects q after lo (bmax c) then visit_children V q after limit acc cs
      else
        andthen (V (bref c) acc) (\<lambda>acc'.
          if length (fst acc') > limit then give acc' else visit_children V q after limit acc' cs))"

text \<open>Each child with the largest key before it.\<close>

definition bounded_children :: "branch list \<Rightarrow> (bytes \<times> branch) list" where
  "bounded_children cs = zip ([] # map bmax cs) cs"

definition in_order :: "query \<Rightarrow> 'a list \<Rightarrow> 'a list" where
  "in_order q xs = (if q_reverse q then rev xs else xs)"

fun visit_range ::
  "reader_env \<Rightarrow> snapshot \<Rightarrow> query \<Rightarrow> bytes \<Rightarrow> nat \<Rightarrow> nat \<Rightarrow> objref \<Rightarrow> selected list \<times> bytes \<Rightarrow> (selected list \<times> bytes) ract" where
  "visit_range Z s q after limit 0 ref acc = raise Refused"
| "visit_range Z s q after limit (Suc r) ref acc =
     andthen (snapshot_node Z s ref) (\<lambda>n.
     andthen (visit_children (visit_range Z s q after limit r) q after limit acc (in_order q (bounded_children (children n)))) (\<lambda>acc'.
       if length (fst acc') > limit then give acc' else visit_leaves Z s q after limit acc' (in_order q (leaves n))))"

subsection \<open>Pages\<close>

definition cursor_seal :: "reader_env \<Rightarrow> snapshot \<Rightarrow> cursor \<Rightarrow> bytes" where
  "cursor_seal Z s c =
     hex_encode (z_mac Z (sn_secret s) (case z_cursor Z (c\<lparr>cu_seal := []\<rparr>) of None \<Rightarrow> [] | Some raw \<Rightarrow> raw))"

definition valid_cursor :: "reader_env \<Rightarrow> snapshot \<Rightarrow> cursor \<Rightarrow> bool" where
  "valid_cursor Z s c =
     (case (hex_decode (cu_seal c), hex_decode (cursor_seal Z s c)) of (Some a, Some b) \<Rightarrow> a = b | _ \<Rightarrow> False)"

text \<open>The key after which a page starts.\<close>

definition cursor_after :: "reader_env \<Rightarrow> snapshot \<Rightarrow> query \<Rightarrow> objref \<Rightarrow> nat \<Rightarrow> bytes \<Rightarrow> cerr + bytes" where
  "cursor_after Z s q root limit text =
     (if text = [] then Inr []
      else
        (case z_b64_in Z text of
           None \<Rightarrow> Inl StaleCursor
         | Some raw \<Rightarrow>
             if longer raw 8192 then Inl StaleCursor
             else
               (case z_cursor_in Z raw of
                  None \<Rightarrow> Inl StaleCursor
                | Some prior \<Rightarrow>
                    if cu_nonce prior \<noteq> sn_nonce s \<or> cu_root prior \<noteq> root \<or> cu_query prior \<noteq> q \<or> cu_limit prior \<noteq> int limit \<or>
                       cu_after prior = [] \<or> \<not> valid_cursor Z s prior
                    then Inl StaleCursor else Inr (cu_after prior))))"

definition next_cursor :: "reader_env \<Rightarrow> snapshot \<Rightarrow> query \<Rightarrow> objref \<Rightarrow> nat \<Rightarrow> bytes \<Rightarrow> cerr + bytes" where
  "next_cursor Z s q root limit final =
     (let c = \<lparr>cu_nonce = sn_nonce s, cu_root = root, cu_query = q, cu_after = final, cu_limit = int limit, cu_seal = []\<rparr> in
      case z_cursor Z (c\<lparr>cu_seal := cursor_seal Z s c\<rparr>) of None \<Rightarrow> Inl Refused | Some raw \<Rightarrow> Inr (z_b64 Z raw))"

definition snapshot_query :: "reader_env \<Rightarrow> snapshot \<Rightarrow> query \<Rightarrow> bytes \<Rightarrow> int \<Rightarrow> page ract" where
  "snapshot_query Z s q0 cursor n =
     (let q = default_range q0; limit = nat n in
      if n \<le> 0 \<or> n > 10000 then raise Refused
      else
        andthen (lift_sum (index_root s (q_index q))) (\<lambda>root.
        if q_upper q \<noteq> [] \<and> q_lower q > q_upper q then raise Refused
        else
          andthen (fresh_request Z s) (\<lambda>_.
          andthen (lift_sum (cursor_after Z s q root limit cursor)) (\<lambda>after.
          andthen (visit_range Z s q after limit max_depth root ([], [])) (\<lambda>(rows, final).
          andthen (if length rows > limit then lift_sum (next_cursor Z s q root limit final) else give []) (\<lambda>next.
          andthen (fresh_since Z (sn_started s)) (\<lambda>_.
          andthen (in_world (context_err (z_env Z))) (\<lambda>_.
            give \<lparr>pg_rows = take limit rows, pg_next = next\<rparr>))))))))"

end
