(* ===== verification/SnapshotReads.thy ===== *)
theory SnapshotReads
  imports SnapshotQuery
begin

text \<open>
  Single identities, bounded scans, the delta between two identity roots, verified bodies and request
  lifetimes (\<open>internal/catalog/snapshot.go\<close>, \<open>delta.go\<close>, \<open>discovery.go\<close>, \<open>resolved_row.go\<close>, \<open>read_view.go\<close>).
\<close>

subsection \<open>One identity\<close>

text \<open>\<open>findPinned\<close>; the number counts the rounds of its loop that are left.\<close>

fun find_rounds :: "reader_env \<Rightarrow> snapshot \<Rightarrow> bytes \<Rightarrow> nat \<Rightarrow> objref \<Rightarrow> entry option ract" where
  "find_rounds Z s key 0 ref = raise Refused"
| "find_rounds Z s key (Suc r) ref =
     andthen (snapshot_node Z s ref) (\<lambda>n.
       if children n = [] then
         (case filter (\<lambda>v. ikey v = key) (leaves n) of
            [] \<Rightarrow> give None
          | v # _ \<Rightarrow>
              andthen (lift_sum (decode_identity_record (z_entries Z) (ival v) key)) (\<lambda>found.
              andthen (lift_sum (validate_live_entry (sn_head s) (id_entry found))) (\<lambda>_. give (id_entry found))))
       else
         (case filter (\<lambda>c. bmax c \<ge> key) (children n) of
            [] \<Rightarrow> give None
          | c # _ \<Rightarrow> find_rounds Z s key r (bref c)))"

definition find_pinned :: "reader_env \<Rightarrow> snapshot \<Rightarrow> bytes \<Rightarrow> entry option ract" where
  "find_pinned Z s key =
     andthen (check_snapshot Z s) (\<lambda>_. find_rounds Z s key max_depth (hd_identity (sn_head s)))"

definition snapshot_find :: "reader_env \<Rightarrow> snapshot \<Rightarrow> bytes \<Rightarrow> entry option ract" where
  "snapshot_find Z s key = andthen (fresh_request Z s) (\<lambda>_. find_pinned Z s key)"

subsection \<open>Bounded scans\<close>

fun scan_leaves ::
  "reader_env \<Rightarrow> snapshot \<Rightarrow> bytes \<Rightarrow> nat \<Rightarrow> (bytes \<times> entry option) list \<Rightarrow> item list \<Rightarrow> (bytes \<times> entry option) list ract" where
  "scan_leaves Z s after limit acc [] = give acc"
| "scan_leaves Z s after limit acc (v # vs) =
     (if ikey v \<le> after then scan_leaves Z s after limit acc vs
      else
        andthen (lift_sum (decode_identity_record (z_entries Z) (ival v) (ikey v))) (\<lambda>found.
        andthen (lift_sum (validate_live_entry (sn_head s) (id_entry found))) (\<lambda>_.
          (let acc' = acc @ [(ikey v, id_entry found)] in
           if length acc' > limit then give acc' else scan_leaves Z s after limit acc' vs))))"

fun scan_children ::
  "(objref \<Rightarrow> (bytes \<times> entry option) list \<Rightarrow> (bytes \<times> entry option) list ract) \<Rightarrow> bytes \<Rightarrow> nat \<Rightarrow>
   (bytes \<times> entry option) list \<Rightarrow> branch list \<Rightarrow> (bytes \<times> entry option) list ract" where
  "scan_children V after limit acc [] = give acc"
| "scan_children V after limit acc (c # cs) =
     (if bmax c \<le> after then scan_children V after limit acc cs
      else
        andthen (V (bref c) acc) (\<lambda>acc'.
          if length acc' > limit then give acc' else scan_children V after limit acc' cs))"

fun scan_visit ::
  "reader_env \<Rightarrow> snapshot \<Rightarrow> bytes \<Rightarrow> nat \<Rightarrow> nat \<Rightarrow> objref \<Rightarrow> (bytes \<times> entry option) list \<Rightarrow> (bytes \<times> entry option) list ract" where
  "scan_visit Z s after limit 0 ref acc = raise Refused"
| "scan_visit Z s after limit (Suc r) ref acc =
     andthen (snapshot_node Z s ref) (\<lambda>n.
     andthen (scan_children (scan_visit Z s after limit r) after limit acc (children n)) (\<lambda>acc'.
       if length acc' > limit then give acc' else scan_leaves Z s after limit acc' (leaves n)))"

text \<open>\<open>ScanIdentities\<close>: the identities after a key, with removed ones, and whether they are all.\<close>

definition scan_identities :: "reader_env \<Rightarrow> snapshot \<Rightarrow> bytes \<Rightarrow> int \<Rightarrow> ((bytes \<times> entry option) list \<times> bool) ract" where
  "scan_identities Z s after n =
     (if n < 1 \<or> n > 1000 then raise Refused
      else
        andthen (fresh_request Z s) (\<lambda>_.
        andthen (scan_visit Z s after (nat n) max_depth (hd_identity (sn_head s)) []) (\<lambda>found.
        andthen (check_snapshot Z s) (\<lambda>_.
          give (take (nat n) found, length found \<le> nat n)))))"

subsection \<open>Deltas\<close>

record delta =
  dl_prior :: objref
  dl_next :: objref
  dl_changed :: "selected list"
  dl_removed :: "bytes list"
  dl_rebuild :: bool

fun collect_leaves :: "reader_env \<Rightarrow> (bytes \<times> entry) list \<Rightarrow> item list \<Rightarrow> cerr + (bytes \<times> entry) list" where
  "collect_leaves Z target [] = Inr target"
| "collect_leaves Z target (v # vs) =
     sbind (decode_identity_record (z_entries Z) (ival v) (ikey v)) (\<lambda>r.
     case id_entry r of
       None \<Rightarrow> collect_leaves Z target vs
     | Some e \<Rightarrow>
         if leaf_session_key e \<noteq> ikey v \<or> en_revision e = [] then Inl Refused
         else collect_leaves Z (AList.update (ikey v) e target) vs)"

fun collect_children ::
  "(objref \<Rightarrow> (bytes \<times> entry) list \<Rightarrow> (bytes \<times> entry) list ract) \<Rightarrow> (bytes \<times> entry) list \<Rightarrow> branch list \<Rightarrow> (bytes \<times> entry) list ract" where
  "collect_children V target [] = give target"
| "collect_children V target (c # cs) = andthen (V (bref c) target) (\<lambda>target'. collect_children V target' cs)"

fun collect_delta :: "reader_env \<Rightarrow> snapshot \<Rightarrow> nat \<Rightarrow> objref \<Rightarrow> (bytes \<times> entry) list \<Rightarrow> (bytes \<times> entry) list ract" where
  "collect_delta Z s 0 ref target = raise Refused"
| "collect_delta Z s (Suc r) ref target =
     andthen (snapshot_node Z s ref) (\<lambda>n.
     andthen (collect_children (collect_delta Z s r) target (children n)) (\<lambda>target'.
       lift_sum (collect_leaves Z target' (leaves n))))"

type_synonym tables = "(bytes \<times> entry) list \<times> (bytes \<times> entry) list"

fun diff_children :: "(objref \<Rightarrow> objref \<Rightarrow> tables \<Rightarrow> tables ract) \<Rightarrow> tables \<Rightarrow> (branch \<times> branch) list \<Rightarrow> tables ract" where
  "diff_children V t [] = give t"
| "diff_children V t ((a, b) # cs) = andthen (V (bref a) (bref b) t) (\<lambda>t'. diff_children V t' cs)"

text \<open>The level is checked after the comparison of the references, and \<open>collectDelta\<close> starts at the level reached.\<close>

fun diff_delta :: "reader_env \<Rightarrow> snapshot \<Rightarrow> nat \<Rightarrow> objref \<Rightarrow> objref \<Rightarrow> tables \<Rightarrow> tables ract" where
  "diff_delta Z s 0 a b t = (if a = b then give t else raise Refused)"
| "diff_delta Z s (Suc r) a b t =
     (if a = b then give t
      else
        andthen (snapshot_node Z s a) (\<lambda>na.
        andthen (snapshot_node Z s b) (\<lambda>nb.
        if children na \<noteq> [] \<and> map bmax (children na) = map bmax (children nb)
        then diff_children (diff_delta Z s r) t (zip (children na) (children nb))
        else
          andthen (collect_delta Z s (Suc r) a (fst t)) (\<lambda>old.
          andthen (collect_delta Z s (Suc r) b (snd t)) (\<lambda>next. give (old, next))))))"

definition same_projection :: "entry \<Rightarrow> entry \<Rightarrow> bool" where
  "same_projection a b =
     (en_revision a = en_revision b \<and> en_metadata a = en_metadata b \<and> en_ordinary a = en_ordinary b \<and> en_replays a = en_replays b)"

text \<open>The two loops over the maps; Go visits a map in any order, so only the sets are meaningful.\<close>

definition delta_of :: "objref \<Rightarrow> objref \<Rightarrow> bool \<Rightarrow> tables \<Rightarrow> delta" where
  "delta_of prior next rebuild t =
     (let (old, fresh) = t in
      \<lparr>dl_prior = prior, dl_next = next,
       dl_changed = map (\<lambda>(k, e). \<lparr>se_key = k, se_entry = e, se_resolved = None\<rparr>)
         (filter (\<lambda>(k, e). case map_of old k of None \<Rightarrow> True | Some p \<Rightarrow> \<not> same_projection p e) fresh),
       dl_removed = filter (\<lambda>k. map_of fresh k = None) (map fst old), dl_rebuild = rebuild\<rparr>)"

definition snapshot_delta :: "reader_env \<Rightarrow> snapshot \<Rightarrow> objref \<Rightarrow> delta ract" where
  "snapshot_delta Z s prior =
     (let next = hd_identity (sn_head s) in
      andthen (check_snapshot Z s) (\<lambda>_.
      if prior = next \<and> rkey prior \<noteq> [] then give (delta_of prior next False ([], []))
      else
        andthen
          (if rkey prior = [] then
             andthen (collect_delta Z s max_depth next []) (\<lambda>fresh. give (True, ([], fresh)))
           else
             (\<lambda>p. case diff_delta Z s max_depth prior next ([], []) p of
                (Inr t, p') \<Rightarrow> (Inr (False, t), p')
              | (Inl e, p') \<Rightarrow>
                  if \<not> is_err NotFound e then (Inl e, p')
                  else andthen (collect_delta Z s max_depth next []) (\<lambda>fresh. give (True, ([], fresh))) p')) (\<lambda>(rebuild, t).
        andthen (check_snapshot Z s) (\<lambda>_. give (delta_of prior next rebuild t)))))"

subsection \<open>Bodies\<close>

definition read_metadata :: "reader_env \<Rightarrow> snapshot \<Rightarrow> entry \<Rightarrow> bytes ract" where
  "read_metadata Z s e =
     andthen (check_snapshot Z s) (\<lambda>_.
     andthen (lift_sum (validate_entry (z_entries Z) e)) (\<lambda>_.
     andthen (work_limit 33554432) (\<lambda>limit.
     andthen (fetch Z (en_metadata e) limit) (\<lambda>(raw, err).
     andthen (work_bytes (length raw)) (\<lambda>_.
     case err of
       Some x \<Rightarrow> raise (if is_err TooLarge x \<and> limit < 33554432 then PickerBudget else x)
     | None \<Rightarrow> andthen (check_snapshot Z s) (\<lambda>_. give raw))))))"

definition row_digest :: "reader_env \<Rightarrow> bytes \<Rightarrow> entry \<Rightarrow> cerr + bytes" where
  "row_digest Z key e = (case z_row Z key e of None \<Rightarrow> Inl Refused | Some raw \<Rightarrow> Inr (t_sha (x_run (z_env Z)) raw))"

definition new_proof :: "snapshot \<Rightarrow> bytes \<Rightarrow> bytes \<Rightarrow> nat ract" where
  "new_proof s key hash p =
     (Inr (length (rd_resolved p)),
      p\<lparr>rd_resolved := rd_resolved p @ [\<lparr>rs_snapshot = sn_id s, rs_key = key, rs_hash = hash, rs_used = False\<rparr>]\<rparr>)"

text \<open>\<open>ResolveRow\<close>: an overflow row with its full summary, and the verified body.\<close>

definition resolve_row :: "reader_env \<Rightarrow> snapshot \<Rightarrow> selected \<Rightarrow> (selected \<times> bytes option) ract" where
  "resolve_row Z s row =
     (let K = z_entries Z; e = se_entry row in
      andthen (check_snapshot Z s) (\<lambda>_.
      if en_overflow e = [] then give (row, None)
      else
        andthen (find_pinned Z s (se_key row)) (\<lambda>found.
        case found of
          None \<Rightarrow> raise Refused
        | Some current \<Rightarrow>
            andthen (if en_picker e \<noteq> None \<and> en_picker current \<noteq> None
                     then andthen (lift_sum (validate_entry K e)) (\<lambda>_. give (compact_entry current)) else give current) (\<lambda>pinned.
            andthen (lift_sum (row_digest Z (se_key row) pinned)) (\<lambda>expected.
            if row_digest Z (se_key row) e \<noteq> Inr expected then raise Refused
            else
              andthen (read_metadata Z s e) (\<lambda>raw.
              andthen (lift_sum (decode_entry_body K e raw)) (\<lambda>body.
              if metadata_object_key (md_harness body) (md_session body) \<noteq> Inr (se_key row) then raise Refused
              else
                (let full = e\<lparr>en_summary := body, en_overflow := []\<rparr> in
                 andthen (lift_sum (row_digest Z (se_key row) full)) (\<lambda>hash.
                 andthen (new_proof s (se_key row) hash) (\<lambda>proof.
                 andthen (check_snapshot Z s) (\<lambda>_.
                   give (row\<lparr>se_entry := full, se_resolved := Some proof\<rparr>, Some raw))))))))))))"

text \<open>\<open>ResolvedMetadata\<close> gives the body of a resolved, unchanged row once.\<close>

definition resolved_metadata :: "reader_env \<Rightarrow> snapshot \<Rightarrow> selected \<Rightarrow> summary option ract" where
  "resolved_metadata Z s row =
     (let K = z_entries Z in
      andthen (check_snapshot Z s) (\<lambda>_.
      case se_resolved row of
        None \<Rightarrow> give None
      | Some i \<Rightarrow>
          andthen get_reader (\<lambda>p.
          (let proof = rd_resolved p ! i in
           if rs_snapshot proof \<noteq> sn_id s \<or> rs_key proof \<noteq> se_key row then raise Refused
           else if row_digest Z (se_key row) (se_entry row) \<noteq> Inr (rs_hash proof) then raise Refused
           else if rs_used proof then give None
           else
             (case Option.bind (k_summary K (en_summary (se_entry row))) (k_summary_in K) of
                None \<Rightarrow> raise Refused
              | Some body \<Rightarrow>
                  andthen (check_snapshot Z s) (\<lambda>_.
                  andthen (update_reader (\<lambda>p. p\<lparr>rd_resolved := (rd_resolved p)[i := proof\<lparr>rs_used := True\<rparr>]\<rparr>)) (\<lambda>_.
                    give (Some body))))))))"

subsection \<open>Request lifetimes\<close>

text \<open>A \<open>readView\<close>: the start of the request, the destination it is bound to and its snapshot.\<close>

record read_view =
  vw_started :: time
  vw_scope :: bytes
  vw_snapshot :: "snapshot option"

text \<open>The view keeps the scope it was bound to also when opening its snapshot fails.\<close>

definition capture_view :: "reader_env \<Rightarrow> nat \<Rightarrow> bytes \<Rightarrow> read_view \<Rightarrow> ((cerr + snapshot) \<times> read_view) ract" where
  "capture_view Z sid scope v =
     (if vw_scope v \<noteq> [] \<and> vw_scope v \<noteq> scope then give (Inl Refused, v)
      else
        andthen (expired_since Z (vw_started v)) (\<lambda>old.
        if old then give (Inl StaleCursor, v)
        else
          (let v' = v\<lparr>vw_scope := scope\<rparr> in
           case vw_snapshot v of
             Some s \<Rightarrow> (\<lambda>p. case check_snapshot Z s p of
                 (Inl e, p') \<Rightarrow> (Inr (Inl e, v'), p') | (Inr _, p') \<Rightarrow> (Inr (Inr s, v'), p'))
           | None \<Rightarrow> (\<lambda>p. case open_snapshot Z sid True (vw_started v) p of
                 (Inl e, p') \<Rightarrow> (Inr (Inl e, v'), p')
               | (Inr s, p') \<Rightarrow> (Inr (Inr s, v'\<lparr>vw_snapshot := Some s\<rparr>), p')))))"

end
