(* ===== verification/SnapshotTrees.thy ===== *)
theory SnapshotTrees
  imports SnapshotReads CatalogUpdate
begin

text \<open>
  What a snapshot reads. The objects \<open>m\<close> of its trees are not replaced while it lives: at every call the
  bucket has their bytes or nothing at their keys, as content addressing and the collector's retention
  promise. Then every successful read, cached or not, agrees with the tree over \<open>m\<close>.
\<close>

subsection \<open>Unreplaced objects\<close>

definition unreplaced :: "(bytes \<rightharpoonup> bytes) \<Rightarrow> objects \<Rightarrow> bool" where
  "unreplaced m b \<longleftrightarrow> (\<forall>k raw v. k \<in> dom m \<longrightarrow> b k = Some (raw, v) \<longrightarrow> m k = Some raw)"

definition undisturbed :: "(bytes \<rightharpoonup> bytes) \<Rightarrow> environment \<Rightarrow> bool" where
  "undisturbed m X \<longleftrightarrow> (\<forall>n b. unreplaced m b \<longrightarrow> unreplaced m (x_others X n b))"

definition reads_from :: "(bytes \<rightharpoonup> bytes) \<Rightarrow> reader \<Rightarrow> bool" where
  "reads_from m p \<longleftrightarrow> unreplaced m (w_objects (rd_world p)) \<and>
     (\<forall>(ref, raw)\<in>set (rd_cache p). rkey ref \<in> dom m \<longrightarrow> m (rkey ref) = Some raw)"

lemma reads_from_cong:
  "w_objects (rd_world p') = w_objects (rd_world p) \<Longrightarrow> rd_cache p' = rd_cache p \<Longrightarrow> reads_from m p' = reads_from m p"
  by (simp add: reads_from_def)

lemma arrive_unreplaced: "undisturbed m X \<Longrightarrow> unreplaced m (w_objects w) \<Longrightarrow> unreplaced m (w_objects (arrive X w))"
  by (simp add: undisturbed_def arrive_def)

lemma get_version_unreplaced:
  "undisturbed m X \<Longrightarrow> unreplaced m (w_objects w) \<Longrightarrow> get_version X key limit w = (r, w') \<Longrightarrow> unreplaced m (w_objects w')"
  by (auto simp: get_version_def Let_def arrive_unreplaced)

lemma get_version_value:
  assumes "undisturbed m X" "unreplaced m (w_objects w)" "get_version X key limit w = (Inr (raw, v), w')" "key \<in> dom m"
  shows "m key = Some raw"
proof -
  have "w_objects (arrive X w) key = Some (raw, v)"
    using assms(3) by (auto simp: get_version_def Let_def split: call_fault.splits option.splits if_splits)
  then show ?thesis using arrive_unreplaced [OF assms(1,2)] assms(4) by (auto simp: unreplaced_def)
qed

lemma fetch_ref_unreplaced:
  assumes "undisturbed m X" "unreplaced m (w_objects w)" "fetch_ref X ref limit w = ((raw, e), w')"
  shows "unreplaced m (w_objects w')" "e = None \<Longrightarrow> rkey ref \<in> dom m \<Longrightarrow> m (rkey ref) = Some raw"
proof -
  have "unreplaced m (w_objects w') \<and> (e = None \<longrightarrow> rkey ref \<in> dom m \<longrightarrow> m (rkey ref) = Some raw)"
  proof (cases "get_version X (rkey ref) limit w")
    case (Pair r w1)
    have u: "unreplaced m (w_objects w1)" by (rule get_version_unreplaced [OF assms(1,2) Pair])
    have v: "m (rkey ref) = Some raw'" if "r = Inr (raw', v)" "rkey ref \<in> dom m" for raw' v
      using get_version_value [OF assms(1,2)] Pair that by blast
    show ?thesis
      using assms(2,3) Pair u v by (auto simp: fetch_ref_def split: sum.splits if_splits prod.splits)
  qed
  then show "unreplaced m (w_objects w')" "e = None \<Longrightarrow> rkey ref \<in> dom m \<Longrightarrow> m (rkey ref) = Some raw" by auto
qed

named_theorems reader_rules \<open>reads keep what the snapshot reads from\<close>

lemma reads_in_world:
  "keeps (\<lambda>w. unreplaced m (w_objects w)) a \<Longrightarrow> keeps (reads_from m) (in_world a)"
  unfolding keeps_def reads_from_def in_world_def by (auto split: prod.splits)

lemma reads_get_version [reader_rules]: "undisturbed m X \<Longrightarrow> keeps (reads_from m) (in_world (get_version X key limit))"
  by (rule reads_in_world) (auto simp: keeps_def intro: get_version_unreplaced prod.collapse [symmetric])

lemma reads_context [reader_rules]: "keeps (reads_from m) (in_world (context_err X))"
  by (rule reads_in_world) (simp add: keeps_def context_err_def)

lemma reads_new_id [reader_rules]: "undisturbed m X \<Longrightarrow> keeps (reads_from m) (in_world (new_mutation_id X))"
  by (rule reads_in_world) (simp add: keeps_def new_mutation_id_def arrive_unreplaced)

lemma reads_expired [reader_rules]: "keeps (reads_from m) (expired_since Z started)"
  by (simp add: keeps_def expired_since_def reads_from_def)

lemma reads_get_reader [reader_rules]: "keeps (reads_from m) get_reader"
  by (simp add: keeps_def get_reader_def)

lemma reads_update:
  "(\<And>p. w_objects (rd_world (f p)) = w_objects (rd_world p)) \<Longrightarrow> (\<And>p. rd_cache (f p) = rd_cache p) \<Longrightarrow>
   keeps (reads_from m) (update_reader f)"
  by (simp add: keeps_def update_reader_def reads_from_def)

lemma reads_work_node [reader_rules]: "keeps (reads_from m) work_node"
  by (auto simp: keeps_def work_node_def reads_from_def split: option.splits)

lemma reads_work_bytes [reader_rules]: "keeps (reads_from m) (work_bytes n)"
  by (auto simp: keeps_def work_bytes_def reads_from_def split: option.splits)

lemma reads_work_limit [reader_rules]: "keeps (reads_from m) (work_limit l)"
  by (auto simp: keeps_def work_limit_def Let_def split: option.splits)

lemma reads_fresh_since [reader_rules]: "keeps (reads_from m) (fresh_since Z started)"
  unfolding fresh_since_def by (intro keeps_rules reader_rules)

lemma reads_check [reader_rules]: "keeps (reads_from m) (check_snapshot Z s)"
  unfolding check_snapshot_def by (intro keeps_rules reader_rules)

lemma reads_fetch [reader_rules]: "undisturbed m (z_env Z) \<Longrightarrow> keeps (reads_from m) (fetch Z ref limit)"
  unfolding keeps_def
proof (intro allI impI)
  fix p assume a: "undisturbed m (z_env Z)" "reads_from m p"
  obtain raw e w where f: "fetch_ref (z_env Z) ref limit (rd_world p) = ((raw, e), w)" by (metis prod.collapse)
  have "unreplaced m (w_objects w)" by (rule fetch_ref_unreplaced(1) [OF a(1) _ f]) (use a(2) in \<open>simp add: reads_from_def\<close>)
  then show "reads_from m (snd (fetch Z ref limit p))" using a(2) f by (simp add: fetch_def reads_from_def)
qed

lemma reads_cached [reader_rules]: "undisturbed m (z_env Z) \<Longrightarrow> keeps (reads_from m) (read_cached Z ref)"
  unfolding read_cached_def by (intro keeps_rules reader_rules | assumption)+

lemma read_cached_value:
  assumes "undisturbed m (z_env Z)" "reads_from m p" "read_cached Z ref p = (Inr (raw, None, reduced), p')" "rkey ref \<in> dom m"
  shows "m (rkey ref) = Some raw"
proof (cases "\<exists>c cs. map_of (rd_cache p) ref = Some (c # cs)")
  case True
  then obtain c cs where c: "map_of (rd_cache p) ref = Some (c # cs)" by blast
  then have "raw = c # cs" using assms(3) by (simp add: read_cached_def get_reader_def andthen_def give_def)
  moreover have "(ref, c # cs) \<in> set (rd_cache p)" using c by (rule map_of_SomeD)
  ultimately show ?thesis using assms(2,4) by (auto simp: reads_from_def)
next
  case False
  then have "andthen (work_limit (int max_node_bytes)) (\<lambda>l.
           andthen (fetch Z ref l) (\<lambda>(raw, e). give (raw, e, l < int max_node_bytes))) p = (Inr (raw, None, reduced), p')"
    using assms(3) unfolding read_cached_def
    by (subst (asm) andthen_def) (auto simp: get_reader_def split: option.splits list.splits)
  then obtain l p1 p2 where l: "work_limit (int max_node_bytes) p = (Inr l, p1)" and f: "fetch Z ref l p1 = (Inr (raw, None), p2)"
    by (auto simp: andthen_Inr)
  have r: "reads_from m p1" by (rule keepsD [OF reads_work_limit assms(2) l])
  obtain w where "fetch_ref (z_env Z) ref l (rd_world p1) = ((raw, None), w)"
    using f by (auto simp: fetch_def Let_def split: prod.splits)
  from fetch_ref_unreplaced(2) [OF assms(1) _ this _ assms(4)] r show ?thesis by (simp add: reads_from_def)
qed

text \<open>A node that is put into the cache is one that was read.\<close>

lemma reads_cache_node:
  assumes "reads_from m p" "rkey ref \<in> dom m \<Longrightarrow> m (rkey ref) = Some raw"
  shows "reads_from m (cache_node ref raw p)"
proof -
  have "set (AList.update ref raw c) \<subseteq> insert (ref, raw) (set c)" for c by (induction c) (auto split: if_splits)
  then show ?thesis
    using assms unfolding reads_from_def cache_node_def by (fastforce split: if_splits)
qed

text \<open>The calls of a successful node read, and what it gives when the tree over m has the node.\<close>

lemma node_empty:
  assumes "snapshot_node Z s ref p = (Inr n, p')" "rkey ref = []"
  obtains q where "in_world (context_err (z_env Z)) p = (Inr (), q)" "fresh_since Z (sn_started s) q = (Inr (), p')" "n = empty_node"
  using assms by (auto simp: snapshot_node_def andthen_Inr split: sum.splits)

lemma node_calls:
  assumes "snapshot_node Z s ref p = (Inr n, p')" "rkey ref \<noteq> []"
  obtains q1 q2 q3 raw red q4 q5 q6 where "in_world (context_err (z_env Z)) p = (Inr (), q1)"
    "fresh_since Z (sn_started s) q1 = (Inr (), q2)" "work_node q2 = (Inr (), q3)"
    "read_cached Z ref q3 = (Inr (raw, None, red), q4)" "work_bytes (length raw) q4 = (Inr (), q5)"
    "check_snapshot Z s q5 = (Inr (), q6)" "decode_node (z_nodes Z) raw = Inr n" "p' = cache_node ref raw q6"
proof -
  obtain q1 q2 q3 raw e red q4 q5 where a: "in_world (context_err (z_env Z)) p = (Inr (), q1)"
    "fresh_since Z (sn_started s) q1 = (Inr (), q2)" "work_node q2 = (Inr (), q3)"
    "read_cached Z ref q3 = (Inr (raw, e, red), q4)" "work_bytes (length raw) q4 = (Inr (), q5)"
    "(case e of
              Some e \<Rightarrow> raise (if is_err TooLarge e \<and> red then PickerBudget else e)
            | None \<Rightarrow>
                andthen (check_snapshot Z s) (\<lambda>_.
                case decode_node (z_nodes Z) raw of
                  Inl _ \<Rightarrow> raise Refused
                | Inr n \<Rightarrow> andthen (update_reader (cache_node ref raw)) (\<lambda>_. give n))) q5 = (Inr n, p')"
    using assms by (cases "ref_validate ref") (auto simp: snapshot_node_def andthen_Inr)
  obtain q6 where "e = None" "check_snapshot Z s q5 = (Inr (), q6)" "decode_node (z_nodes Z) raw = Inr n" "p' = cache_node ref raw q6"
    using a(6) by (auto simp: andthen_Inr update_reader_def split: option.splits sum.splits)
  then show thesis using that a(1-5) by blast
qed

lemma reads_node:
  assumes "undisturbed m (z_env Z)" "reads_from m p" "snapshot_node Z s ref p = (Inr n, p')"
  shows "reads_from m p'"
proof (cases "rkey ref = []")
  case True
  from node_empty [OF assms(3) this] obtain q where "in_world (context_err (z_env Z)) p = (Inr (), q)"
    "fresh_since Z (sn_started s) q = (Inr (), p')" .
  then show ?thesis using assms(2) reads_context reads_fresh_since by (blast dest: keepsD)
next
  case False
  from node_calls [OF assms(3) False] obtain q1 q2 q3 raw red q4 q5 q6 where c:
    "in_world (context_err (z_env Z)) p = (Inr (), q1)"
    "fresh_since Z (sn_started s) q1 = (Inr (), q2)" "work_node q2 = (Inr (), q3)"
    "read_cached Z ref q3 = (Inr (raw, None, red), q4)" "work_bytes (length raw) q4 = (Inr (), q5)"
    "check_snapshot Z s q5 = (Inr (), q6)" "p' = cache_node ref raw q6" .
  have q3: "reads_from m q3" using c(1-3) assms(2) reads_context reads_fresh_since reads_work_node by (blast dest: keepsD)
  have "reads_from m q4" by (rule keepsD [OF reads_cached [OF assms(1)] q3 c(4)])
  then have "reads_from m q6" using c(5,6) reads_work_bytes reads_check by (blast dest: keepsD)
  then show ?thesis unfolding c(7) by (rule reads_cache_node) (rule read_cached_value [OF assms(1) q3 c(4)])
qed

lemma reads_node_any [reader_rules]:
  assumes u: "undisturbed m (z_env Z)"
  shows "keeps (reads_from m) (snapshot_node Z s ref)"
proof -
  note h = keeps_hoare [THEN iffD1]
  have kept: "hoare (\<lambda>p. A \<and> reads_from m p) a (\<lambda>_ p. A \<and> reads_from m p) (reads_from m)"
    if "keeps (reads_from m) a" for A and a :: "'b ract"
    using that by (auto simp: keeps_hoare hoare_def split: prod.splits sum.splits)
  define fits where "fits raw e \<longleftrightarrow> (e = (None :: cerr option) \<longrightarrow> rkey ref \<in> dom m \<longrightarrow> m (rkey ref) = Some raw)" for raw e
  have cached: "hoare (reads_from m) (read_cached Z ref) (\<lambda>(raw, e, _) p. fits raw e \<and> reads_from m p) (reads_from m)"
    using reads_cached [OF u, of ref] read_cached_value [OF u]
    by (fastforce simp: hoare_def keeps_def fits_def split: prod.splits sum.splits dest: spec)
  have final: "hoare (\<lambda>p. fits raw e \<and> reads_from m p)
     (case e of Some e \<Rightarrow> raise (if is_err TooLarge e \<and> red then PickerBudget else e)
      | None \<Rightarrow> andthen (check_snapshot Z s) (\<lambda>_. case decode_node (z_nodes Z) raw of Inl _ \<Rightarrow> raise Refused
          | Inr n \<Rightarrow> andthen (update_reader (cache_node ref raw)) (\<lambda>_. give n))) (\<lambda>_. reads_from m) (reads_from m)" for raw e red
  proof (cases e)
    case None
    have "hoare (\<lambda>p. fits raw None \<and> reads_from m p) (case decode_node (z_nodes Z) raw of Inl _ \<Rightarrow> raise Refused
          | Inr n \<Rightarrow> andthen (update_reader (cache_node ref raw)) (\<lambda>_. give n)) (\<lambda>_. reads_from m) (reads_from m)"
      using reads_cache_node [of m _ ref raw]
      by (auto simp: hoare_def raise_def andthen_def update_reader_def give_def fits_def split: sum.split)
    then show ?thesis using None by (simp add: hoare_andthen [OF kept [OF reads_check]])
  qed (auto intro!: hoare_raise)
  have "hoare (\<lambda>p. fits raw e \<and> reads_from m p) (andthen (work_bytes (length raw)) (\<lambda>_. case e of
              Some e \<Rightarrow> raise (if is_err TooLarge e \<and> red then PickerBudget else e)
            | None \<Rightarrow>
                andthen (check_snapshot Z s) (\<lambda>_.
                case decode_node (z_nodes Z) raw of
                  Inl _ \<Rightarrow> raise Refused
                | Inr n \<Rightarrow> andthen (update_reader (cache_node ref raw)) (\<lambda>_. give n)))) (\<lambda>_. reads_from m) (reads_from m)" for raw e red
    by (rule hoare_andthen [OF kept [OF reads_work_bytes] final])
  then have "hoare (reads_from m) (andthen (read_cached Z ref) (\<lambda>(raw, e, reduced).
            andthen (work_bytes (length raw)) (\<lambda>_.
            case e of
              Some e \<Rightarrow> raise (if is_err TooLarge e \<and> reduced then PickerBudget else e)
            | None \<Rightarrow>
                andthen (check_snapshot Z s) (\<lambda>_.
                case decode_node (z_nodes Z) raw of
                  Inl _ \<Rightarrow> raise Refused
                | Inr n \<Rightarrow> andthen (update_reader (cache_node ref raw)) (\<lambda>_. give n))))) (\<lambda>_. reads_from m) (reads_from m)"
    by (intro hoare_andthen [OF cached]) (auto split: prod.split)
  note body = this [folded keeps_hoare]
  show ?thesis
    unfolding snapshot_node_def
    by (intro keeps_sum keeps_const keeps_andthen [OF reads_context] keeps_andthen [OF reads_fresh_since] keeps_if
        keeps_andthen [OF reads_work_node] body)
qed

lemma node_value:
  assumes "undisturbed m (z_env Z)" "reads_from m p" "snapshot_node Z s ref p = (Inr n, p')" "load (z_nodes Z) m ref = Some n0"
  shows "n = n0"
proof (cases "rkey ref = []")
  case True
  then show ?thesis using load_empty [OF True assms(4)] by (auto elim: node_empty [OF assms(3)])
next
  case False
  from node_calls [OF assms(3) False] obtain q1 q2 q3 raw red q4 where c:
    "in_world (context_err (z_env Z)) p = (Inr (), q1)"
    "fresh_since Z (sn_started s) q1 = (Inr (), q2)" "work_node q2 = (Inr (), q3)"
    "read_cached Z ref q3 = (Inr (raw, None, red), q4)" "decode_node (z_nodes Z) raw = Inr n" .
  obtain raw0 where m: "m (rkey ref) = Some raw0" "decode_node (z_nodes Z) raw0 = Inr n0"
    using assms(4) False by (auto simp: load_def split: sum.splits option.splits if_splits)
  have "reads_from m q3" using c(1-3) assms(2) reads_context reads_fresh_since reads_work_node by (blast dest: keepsD)
  from read_cached_value [OF assms(1) this c(4)] m(1) have "raw = raw0" by auto
  then show ?thesis using c(5) m(2) by simp
qed

subsection \<open>Reads that are answered\<close>

text \<open>
  \<open>served\<close>: every call is answered, the context and the snapshot live on, and the objects of m stay. Then
  a read also returns: \<open>pinned t\<close> says what a read may rely on, with the promise to return if t.
\<close>

definition stored :: "(bytes \<rightharpoonup> bytes) \<Rightarrow> objects \<Rightarrow> bool" where
  "stored m b \<longleftrightarrow> (\<forall>k raw. m k = Some raw \<longrightarrow> (\<exists>v. b k = Some (raw, v)))"

definition served :: "(bytes \<rightharpoonup> bytes) \<Rightarrow> reader_env \<Rightarrow> snapshot \<Rightarrow> bool" where
  "served m Z s \<longleftrightarrow> (\<forall>n. x_fault (z_env Z) n = Answered \<and> \<not> x_done (z_env Z) n \<and> z_now Z n - sn_started s < snapshot_lifetime) \<and>
     (\<forall>n b. stored m b \<longrightarrow> stored m (x_others (z_env Z) n b)) \<and> c_sha (z_nodes Z) = t_sha (x_run (z_env Z))"

definition pinned :: "bool \<Rightarrow> (bytes \<rightharpoonup> bytes) \<Rightarrow> reader_env \<Rightarrow> snapshot \<Rightarrow> reader \<Rightarrow> bool" where
  "pinned t m Z s p \<longleftrightarrow> undisturbed m (z_env Z) \<and> reads_from m p \<and>
     (t \<longrightarrow> served m Z s \<and> stored m (w_objects (rd_world p)) \<and> rd_work p = None)"

lemma served_check: "served m Z s \<Longrightarrow> \<exists>p'. check_snapshot Z s p = (Inr (), p') \<and> rd_world p' = rd_world p \<and> rd_cache p' = rd_cache p \<and> rd_work p' = rd_work p"
  by (auto simp: served_def check_snapshot_def andthen_def in_world_def context_err_def fresh_since_def expired_since_def give_def
      not_le split: prod.splits)

lemma pinned_check: "hoare (pinned t m Z s) (check_snapshot Z s) (\<lambda>_. pinned t m Z s) (\<lambda>_. \<not> t)"
  unfolding hoare_def
proof (intro allI impI)
  fix p assume a: "pinned t m Z s p"
  obtain r p' where c: "check_snapshot Z s p = (r, p')" by (cases "check_snapshot Z s p")
  have "reads_from m p'" by (rule keepsD [OF reads_check _ c]) (use a in \<open>simp add: pinned_def\<close>)
  moreover have "t \<Longrightarrow> r = Inr () \<and> rd_world p' = rd_world p \<and> rd_work p' = rd_work p"
    using served_check [of m Z s p] a c by (auto simp: pinned_def)
  ultimately show "case check_snapshot Z s p of (Inl _, s') \<Rightarrow> \<not> t | (Inr _, s') \<Rightarrow> pinned t m Z s s'"
    using a c by (cases r) (auto simp: pinned_def)
qed

lemma served_node:
  assumes "served m Z s" "stored m (w_objects (rd_world p))" "rd_work p = None" "reads_from m p"
    and "load (z_nodes Z) m ref = Some n"
  shows "\<exists>p'. snapshot_node Z s ref p = (Inr n, p') \<and> stored m (w_objects (rd_world p')) \<and> rd_work p' = None"
proof -
  have fresh: "\<exists>p'. in_world (context_err (z_env Z)) p = (Inr (), p) \<and> fresh_since Z (sn_started s) p = (Inr (), p') \<and>
      rd_world p' = rd_world p \<and> rd_cache p' = rd_cache p \<and> rd_work p' = rd_work p" for p
    using assms(1) by (auto simp: served_def andthen_def in_world_def context_err_def fresh_since_def expired_since_def give_def not_le)
  then obtain p1 where p1: "in_world (context_err (z_env Z)) p = (Inr (), p)" "fresh_since Z (sn_started s) p = (Inr (), p1)"
      "rd_world p1 = rd_world p" "rd_cache p1 = rd_cache p" "rd_work p1 = None" using assms(3) by metis
  have v: "ref_validate ref = Inr ()" using assms(5) by (auto simp: load_def split: sum.splits)
  show ?thesis
  proof (cases "rkey ref = []")
    case True
    then show ?thesis
      using v p1 assms(2) load_empty [OF True assms(5)] by (auto simp: snapshot_node_def andthen_def give_def)
  next
    case False
    then obtain raw where raw: "m (rkey ref) = Some raw" "length raw \<le> max_node_bytes" "equal_fold (c_sha (z_nodes Z) raw) (rsha ref)"
        "decode_node (z_nodes Z) raw = Inr n"
      using assms(5) by (auto simp: load_def split: sum.splits option.splits if_splits)
    have "\<exists>red p2. read_cached Z ref p1 = (Inr (raw, None, red), p2) \<and> stored m (w_objects (rd_world p2)) \<and> rd_work p2 = None"
    proof (cases "\<exists>c cs. map_of (rd_cache p1) ref = Some (c # cs)")
      case True
      then obtain c cs where c: "map_of (rd_cache p1) ref = Some (c # cs)" by blast
      then have "(ref, c # cs) \<in> set (rd_cache p1)" by (rule map_of_SomeD)
      then have "c # cs = raw" using assms(4) raw(1) p1(4) by (auto simp: reads_from_def dom_def)
      then show ?thesis
        using c raw(3) assms(1,2) p1(3,5) by (auto simp: read_cached_def get_reader_def andthen_def give_def served_def)
    next
      case False
      let ?w = "arrive (z_env Z) (rd_world p1)"
      have st: "stored m (w_objects ?w)" using assms(1,2) p1(3) by (auto simp: served_def arrive_def)
      then obtain v where "w_objects ?w (rkey ref) = Some (raw, v)" using raw(1) by (auto simp: stored_def)
      then have "get_version (z_env Z) (rkey ref) (int max_node_bytes) (rd_world p1) = (Inr (raw, v), ?w)"
        using assms(1) raw(2) by (simp add: get_version_def Let_def served_def longer_def)
      then have "fetch_ref (z_env Z) ref (int max_node_bytes) (rd_world p1) = ((raw, None), ?w)"
        using v \<open>rkey ref \<noteq> []\<close> raw(2,3) assms(1) by (simp add: fetch_ref_def longer_def served_def)
      then show ?thesis
        using False st p1(5) unfolding read_cached_def
        by (subst andthen_def) (auto simp: get_reader_def fetch_def work_limit_def andthen_def give_def split: option.splits list.splits)
    qed
    then obtain red p2 where p2: "read_cached Z ref p1 = (Inr (raw, None, red), p2)" "stored m (w_objects (rd_world p2))" "rd_work p2 = None"
      by blast
    obtain p3 where p3: "check_snapshot Z s p2 = (Inr (), p3)" "rd_world p3 = rd_world p2" "rd_work p3 = None"
      using served_check [OF assms(1), of p2] p2(3) by auto
    show ?thesis
      using v p1 p2 p3 raw(4) False
      by (simp add: snapshot_node_def andthen_def work_node_def work_bytes_def update_reader_def cache_node_def give_def)
  qed
qed

text \<open>A fact about an earlier result is carried to the end of the next step.\<close>

lemma hoare_fact:
  assumes "A \<Longrightarrow> hoare J m Q E" "\<And>x s. A \<Longrightarrow> Q x s \<Longrightarrow> R x s"
  shows "hoare (\<lambda>s. A \<and> J s) m R E"
proof (cases A)
  case True
  show ?thesis by (rule hoare_weaken [OF assms(1) [OF True]]) (simp_all add: assms(2) [OF True])
qed (simp add: hoare_def)

text \<open>What the reads of trees rely on, and what they are proved from.\<close>

locale node_source =
  fixes Z :: reader_env and s :: snapshot and m :: "bytes \<rightharpoonup> bytes" and J :: "reader \<Rightarrow> bool" and t :: bool
  assumes node_read: "load (z_nodes Z) m ref = Some n \<Longrightarrow> hoare J (snapshot_node Z s ref) (\<lambda>x p. x = n \<and> J p) (\<lambda>_. \<not> t)"
    and check_read: "hoare J (check_snapshot Z s) (\<lambda>_. J) (\<lambda>_. \<not> t)"

interpretation pinned: node_source Z s m "pinned t m Z s" t for Z s m t
proof
  fix ref n assume l: "load (z_nodes Z) m ref = Some n"
  show "hoare (pinned t m Z s) (snapshot_node Z s ref) (\<lambda>x p. x = n \<and> pinned t m Z s p) (\<lambda>_. \<not> t)"
    unfolding hoare_def
  proof (intro allI impI)
    fix p assume a: "pinned t m Z s p"
    then have u: "undisturbed m (z_env Z)" "reads_from m p" by (simp_all add: pinned_def)
    obtain r p' where c: "snapshot_node Z s ref p = (r, p')" by (cases "snapshot_node Z s ref p")
    have "r = Inr n' \<Longrightarrow> n' = n \<and> reads_from m p'" for n'
      using node_value [OF u _ l] reads_node [OF u] c by blast
    moreover have "t \<Longrightarrow> r = Inr n \<and> stored m (w_objects (rd_world p')) \<and> rd_work p' = None"
      using served_node [of m Z s p ref n] a c l by (auto simp: pinned_def)
    ultimately show "case snapshot_node Z s ref p of (Inl _, s') \<Rightarrow> \<not> t | (Inr x, s') \<Rightarrow> x = n \<and> pinned t m Z s s'"
      using a c by (cases r) (auto simp: pinned_def)
  qed
next
  show "hoare (pinned t m Z s) (check_snapshot Z s) (\<lambda>_. pinned t m Z s) (\<lambda>_. \<not> t)" by (rule pinned_check)
qed

end
