(* ===== verification/SnapshotCounts.thy ===== *)
theory SnapshotCounts
  imports SnapshotTrees
begin

text \<open>
  Counts. A subtree is visited under the bounds of its keys, so whole subtrees are counted by their
  recorded number; the result is the number of entries of the range.
\<close>

definition range_entries :: "query \<Rightarrow> (bytes \<times> bytes) list \<Rightarrow> (bytes \<times> bytes) list" where
  "range_entries q es = filter (\<lambda>e. leaf_in_range q (fst e)) es"

lemma range_entries_append [simp]: "range_entries q (a @ b) = range_entries q a @ range_entries q b"
  by (simp add: range_entries_def)

lemma range_entries_length: "length (range_entries q es) \<le> length es"
  by (simp add: range_entries_def)

lemma range_entries_all: "(\<And>e. e \<in> set es \<Longrightarrow> q_lower q \<le> fst e \<and> (q_upper q = [] \<or> fst e < q_upper q)) \<Longrightarrow> range_entries q es = es"
  by (auto simp: range_entries_def leaf_in_range_def filter_id_conv)

lemma range_entries_none: "(\<And>e. e \<in> set es \<Longrightarrow> fst e < q_lower q \<or> q_upper q \<noteq> [] \<and> q_upper q \<le> fst e) \<Longrightarrow> range_entries q es = []"
  by (auto simp: range_entries_def leaf_in_range_def filter_empty_conv not_le not_less)

lemma branch_below:
  assumes "branch_ok K c e" "key_sorted (e @ es)" "x \<in> set es"
  shows "bmax c < fst x"
proof -
  obtain z where "z \<in> set e" "fst z = bmax c" using branch_max_in [OF assms(1)] by blast
  then show ?thesis using assms(2,3) by (auto simp: key_sorted_append)
qed

context node_source
begin

lemma count_children_exact:
  assumes "list_all2 (\<lambda>c e. branch_ok K c e \<and> T (bref c) e) cs ess" "key_sorted (concat ess)" "\<forall>x\<in>set (concat ess). lo \<le> fst x"
    and "\<And>c e lo. branch_ok K c e \<Longrightarrow> T (bref c) e \<Longrightarrow> key_sorted e \<Longrightarrow> length e \<le> max_uint64 \<Longrightarrow> \<forall>x\<in>set e. lo \<le> fst x \<and> fst x \<le> bmax c \<Longrightarrow>
      hoare J (V (bref c) lo (bmax c)) (\<lambda>n p. n = length (range_entries q e) \<and> J p) (\<lambda>_. \<not> t)"
    and "acc + length (concat ess) \<le> max_uint64"
  shows "hoare J (count_children V q lo acc cs) (\<lambda>n p. n = acc + length (range_entries q (concat ess)) \<and> J p) (\<lambda>_. \<not> t)"
  using assms(1-3,5)
proof (induction arbitrary: lo acc rule: list_all2_induct)
  case Nil
  then show ?case by (simp add: hoare_give range_entries_def)
next
  case (Cons c cs e ess)
  have ks: "key_sorted e" using Cons.prems(1) by (simp add: key_sorted_append)
  have le: "\<forall>x\<in>set e. lo \<le> fst x \<and> fst x \<le> bmax c"
    using Cons.prems(2) Cons.hyps(1) branch_last [OF _ ks] by auto
  have rest: "\<forall>x\<in>set (concat ess). bmax c \<le> fst x"
    using branch_below [of K c e "concat ess"] Cons.hyps(1) Cons.prems(1) by (auto intro: less_imp_le)
  have one: "hoare J (if lo < q_lower q \<or> q_upper q \<noteq> [] \<and> bmax c \<ge> q_upper q then V (bref c) lo (bmax c) else give (bcount c))
      (\<lambda>n p. n = length (range_entries q e) \<and> J p) (\<lambda>_. \<not> t)"
  proof (rule hoare_if)
    show "hoare J (V (bref c) lo (bmax c)) (\<lambda>n p. n = length (range_entries q e) \<and> J p) (\<lambda>_. \<not> t)"
      by (rule assms(4)) (use Cons.hyps(1) Cons.prems(3) ks le in auto)
    assume inside: "\<not> (lo < q_lower q \<or> q_upper q \<noteq> [] \<and> bmax c \<ge> q_upper q)"
    have "range_entries q e = e"
      by (rule range_entries_all) (use le inside in \<open>auto simp: not_le not_less intro: order.trans le_less_trans\<close>)
    then show "hoare J (give (bcount c)) (\<lambda>n p. n = length (range_entries q e) \<and> J p) (\<lambda>_. \<not> t)"
      using Cons.hyps(1) by (simp add: hoare_give branch_ok_def)
  qed
  have many: "hoare (\<lambda>p. n = length (range_entries q e) \<and> J p)
      (if n > max_uint64 - acc then raise Refused else count_children V q (bmax c) (acc + n) cs)
      (\<lambda>n p. n = acc + length (range_entries q (concat (e # ess))) \<and> J p) (\<lambda>_. \<not> t)" for n
  proof (cases "n = length (range_entries q e)")
    case True
    then have "acc + n + length (concat ess) \<le> max_uint64" using Cons.prems(3) range_entries_length [of q e] by simp
    moreover have "hoare J (count_children V q (bmax c) (acc + n) cs)
      (\<lambda>n' p. n' = acc + n + length (range_entries q (concat ess)) \<and> J p) (\<lambda>_. \<not> t)"
      by (rule Cons.IH) (use Cons.prems(1) rest calculation in \<open>auto simp: key_sorted_append\<close>)
    moreover have "\<not> n > max_uint64 - acc" using calculation(1) by simp
    ultimately show ?thesis using True by (simp add: add.assoc)
  qed (simp add: hoare_def)
  show ?case unfolding count_children.simps by (rule hoare_andthen [OF one many])
qed

lemma count_visit_exact:
  assumes "tree (z_nodes Z) K V m h ref es" "length es \<le> max_uint64" "t \<longrightarrow> h \<le> r"
    and "\<forall>x\<in>set es. lo \<le> fst x" "hi \<noteq> [] \<longrightarrow> (\<forall>x\<in>set es. fst x \<le> hi)"
  shows "hoare J (count_visit Z s q r ref lo hi) (\<lambda>n p. n = length (range_entries q es) \<and> J p) (\<lambda>_. \<not> t)"
  using assms
proof (induction r arbitrary: h ref es lo hi)
  case 0
  then show ?case by (cases h) (auto simp: hoare_raise)
next
  case (Suc r)
  then obtain h2 n where h: "h = Suc h2" "load (z_nodes Z) m ref = Some n" "holds_with (tree (z_nodes Z) K V m h2) K n es"
      "entries_ok K V es"
    by (cases h) auto
  have ks: "key_sorted es" using h(4) by (simp add: entries_ok_def)
  have empty: "length (range_entries q es) = 0" if "hi \<noteq> [] \<and> hi < q_lower q \<or> q_upper q \<noteq> [] \<and> lo \<ge> q_upper q"
  proof -
    have "range_entries q es = []" by (rule range_entries_none) (use that Suc.prems(4,5) in \<open>auto intro: le_less_trans order.trans\<close>)
    then show ?thesis by simp
  qed
  have whole: "ncount n = length (range_entries q es)" if "lo \<ge> q_lower q \<and> hi \<noteq> [] \<and> (q_upper q = [] \<or> hi < q_upper q)"
  proof -
    have "range_entries q es = es" by (rule range_entries_all) (use that Suc.prems(4,5) in \<open>auto intro: le_less_trans order.trans\<close>)
    moreover have "ncount n = node_count n"
      using load_valid(7) [OF h(2)] load_empty [OF _ h(2)] by (cases "rkey ref = []") (auto simp: empty_node_def node_count_def)
    ultimately show ?thesis using holds_count [OF h(3) Suc.prems(2)] by simp
  qed
  have sub: "hoare J (andthen (count_children (count_visit Z s q r) q lo 0 (children n)) (\<lambda>acc.
            give ((acc + length (filter (leaf_in_range q) (map ikey (leaves n)))) mod (max_uint64 + 1))))
        (\<lambda>x p. x = length (range_entries q es) \<and> J p) (\<lambda>_. \<not> t)"
  proof (cases "children n = []")
    case True
    then have "length (filter (leaf_in_range q) (map ikey (leaves n))) = length (range_entries q es)"
      using h(3) by (simp add: holds_with_def range_entries_def entries_of_def filter_map o_def)
    then show ?thesis
      using True Suc.prems(2) range_entries_length [of q es] by (auto simp: hoare_def andthen_def give_def)
  next
    case False
    then obtain ess where e: "leaves n = []" "es = concat ess"
        "list_all2 (\<lambda>c e. branch_ok K c e \<and> tree (z_nodes Z) K V m h2 (bref c) e) (children n) ess"
      using h(3) by (auto simp: holds_with_def)
    have "hoare J (count_children (count_visit Z s q r) q lo 0 (children n)) (\<lambda>n p. n = 0 + length (range_entries q (concat ess)) \<and> J p) (\<lambda>_. \<not> t)"
    proof (rule count_children_exact [OF e(3)])
      fix c e lo assume c: "tree (z_nodes Z) K V m h2 (bref c) e" "length e \<le> max_uint64" "\<forall>x\<in>set e. lo \<le> fst x \<and> fst x \<le> bmax c"
      show "hoare J (count_visit Z s q r (bref c) lo (bmax c)) (\<lambda>n p. n = length (range_entries q e) \<and> J p) (\<lambda>_. \<not> t)"
        by (rule Suc.IH [OF c(1,2)]) (use Suc.prems(3) h(1) c(3) in auto)
    qed (use ks e(2) Suc.prems(2,4) in auto)
    then show ?thesis
      using e(1,2) Suc.prems(2) range_entries_length [of q es]
      by (intro hoare_andthen) (auto simp: hoare_def give_def)
  qed
  show ?case
    unfolding count_visit.simps
    using empty whole sub
    by (intro hoare_if hoare_andthen [OF node_read [OF h(2)]]) (auto simp: hoare_def give_def)
qed

end

end
