(* ===== verification/SnapshotPages.thy ===== *)
theory SnapshotPages
  imports SnapshotCounts
begin

text \<open>
  Pages. The walk over a tree visits the leaves of the range in order as a walk over the list of entries
  would (\<open>gather\<close>), and a cursor resumes it behind the last row given.
\<close>

subsection \<open>The walk over the entries\<close>

fun gather ::
  "reader_env \<Rightarrow> snapshot \<Rightarrow> query \<Rightarrow> bytes \<Rightarrow> nat \<Rightarrow> selected list \<times> bytes \<Rightarrow> (bytes \<times> bytes) list \<Rightarrow> cerr + (selected list \<times> bytes)" where
  "gather Z s q after limit acc [] = Inr acc"
| "gather Z s q after limit acc ((k, v) # es) =
     (if length (fst acc) > limit then Inr acc
      else if \<not> range_contains q after k then gather Z s q after limit acc es
      else
        sbind (live_row Z s (q_index q) k v) (\<lambda>found.
        case found of
          None \<Rightarrow> gather Z s q after limit acc es
        | Some row \<Rightarrow>
            (let rows = fst acc @ [row] in gather Z s q after limit (rows, if length rows > limit then snd acc else k) es)))"

lemma gather_full: "length (fst acc) > limit \<Longrightarrow> gather Z s q after limit acc es = Inr acc"
  by (cases es) auto

lemma gather_append:
  "gather Z s q after limit acc (a @ b) = sbind (gather Z s q after limit acc a) (\<lambda>x. gather Z s q after limit x b)"
proof (induction a arbitrary: acc)
  case (Cons e a)
  obtain k v where e: "e = (k, v)" by fastforce
  show ?case
    using gather_full Cons unfolding e by (cases "live_row Z s (q_index q) k v") (auto simp: Let_def split: option.splits)
qed simp

lemma gather_none:
  "(\<And>e. e \<in> set es \<Longrightarrow> \<not> range_contains q after (fst e)) \<Longrightarrow> gather Z s q after limit acc es = Inr acc"
proof (induction es)
  case (Cons e es)
  then show ?case by (cases e) (fastforce split: if_splits)
qed simp

lemma le_bytes_Nil: "(k :: bytes) \<le> [] \<longleftrightarrow> k = []"
  by (cases k) auto

lemma visit_leaves_gather:
  assumes "length (fst acc) \<le> limit"
  shows "visit_leaves Z s q after limit acc vs = lift_sum (gather Z s q after limit acc (entries_of vs))"
  using assms
proof (induction vs arbitrary: acc)
  case Nil
  then show ?case by (simp add: lift_sum_def give_def fun_eq_iff)
next
  case (Cons v vs)
  show ?case
  proof (cases "range_contains q after (ikey v)")
    case True
    then show ?thesis
      using Cons by (cases "live_row Z s (q_index q) (ikey v) (ival v)")
        (auto simp: fun_eq_iff andthen_def lift_sum_def give_def Let_def gather_full split: option.splits)
  qed (use Cons in simp)
qed

lemma in_order_entries: "entries_of (in_order q vs) = in_order q (entries_of vs)"
  by (simp add: in_order_def entries_of_def rev_map)

text \<open>The keys of a child that the range does not meet.\<close>

lemma range_misses:
  assumes "\<not> range_intersects q after lo hi" "lo = [] \<or> lo < k" "k \<le> hi"
  shows "\<not> range_contains q after k"
proof -
  consider "hi < q_lower q" | "q_upper q \<noteq> []" "lo \<ge> q_upper q" | "after \<noteq> []" "q_reverse q" "lo \<ge> after"
    | "after \<noteq> []" "\<not> q_reverse q" "hi \<le> after"
    using assms(1) by (auto simp: range_intersects_def not_less split: if_splits)
  then show ?thesis
  proof cases
    case 1
    then have "k < q_lower q" using assms(3) by (rule le_less_trans [rotated])
    then show ?thesis by (simp add: range_contains_def)
  next
    case 2
    then have "lo \<noteq> []" by (auto simp: le_bytes_Nil)
    then have "q_upper q \<le> k" using 2 assms(2) by (auto intro: order.trans less_imp_le)
    then show ?thesis using 2 by (simp add: range_contains_def)
  next
    case 3
    then have "lo \<noteq> []" by (auto simp: le_bytes_Nil)
    then have "after \<le> k" using 3 assms(2) by (auto intro: order.trans less_imp_le)
    then show ?thesis using 3 by (simp add: range_contains_def not_less)
  next
    case 4
    then have "k \<le> after" using assms(3) by (blast intro: order.trans)
    then show ?thesis using 4 by (simp add: range_contains_def not_less)
  qed
qed


lemma bounded_children_entries:
  assumes "list_all2 (\<lambda>c e. branch_ok K c e \<and> T (bref c) e) cs ess" "key_sorted (concat ess)" "\<forall>x\<in>set (concat ess). lo = [] \<or> lo < fst x"
  shows "list_all2 (\<lambda>lc e. T (bref (snd lc)) e \<and> (\<forall>x\<in>set e. (fst lc = [] \<or> fst lc < fst x) \<and> fst x \<le> bmax (snd lc)))
    (zip (lo # map bmax cs) cs) ess"
  using assms
proof (induction arbitrary: lo rule: list_all2_induct)
  case (Cons c cs e ess)
  have "\<forall>x\<in>set (concat ess). bmax c = [] \<or> bmax c < fst x"
    using branch_below [of K c e "concat ess"] Cons.hyps(1) Cons.prems(1) by auto
  then have "list_all2 (\<lambda>lc e. T (bref (snd lc)) e \<and> (\<forall>x\<in>set e. (fst lc = [] \<or> fst lc < fst x) \<and> fst x \<le> bmax (snd lc)))
    (zip (bmax c # map bmax cs) cs) ess"
    by (intro Cons.IH) (use Cons.prems(1) in \<open>auto simp: key_sorted_append\<close>)
  then show ?case using Cons.hyps(1) Cons.prems branch_last [of K c e] by (auto simp: key_sorted_append)
qed simp

lemma in_order_concat: "in_order q (concat ess) = concat (map (in_order q) (in_order q ess))"
proof -
  have "(in_order q :: 'a list \<Rightarrow> 'a list) = (if q_reverse q then rev else (\<lambda>x. x))" by (auto simp: in_order_def)
  moreover have "(in_order q :: 'a list list \<Rightarrow> 'a list list) = (if q_reverse q then rev else (\<lambda>x. x))" by (auto simp: in_order_def)
  ultimately show ?thesis by (simp add: rev_concat rev_map)
qed

lemma in_order_list_all2: "list_all2 P xs ys \<Longrightarrow> list_all2 P (in_order q xs) (in_order q ys)"
  by (simp add: in_order_def)

lemma in_order_Nil [simp]: "in_order q [] = []"
  by (simp add: in_order_def)

lemma set_in_order [simp]: "set (in_order q xs) = set xs"
  by (simp add: in_order_def)

context node_source
begin

lemma visit_children_gather:
  assumes "list_all2 (\<lambda>lc e. T (bref (snd lc)) e \<and> (\<forall>x\<in>set e. (fst lc = [] \<or> fst lc < fst x) \<and> fst x \<le> bmax (snd lc))) lcs ess"
    and "\<And>ref e acc. T ref e \<Longrightarrow> length (fst acc) \<le> limit \<Longrightarrow>
      hoare J (V ref acc) (\<lambda>x p. gather Z s q after limit acc (in_order q e) = Inr x \<and> J p) (\<lambda>_. True)"
    and "length (fst acc) \<le> limit"
  shows "hoare J (visit_children V q after limit acc lcs)
    (\<lambda>x p. gather Z s q after limit acc (concat (map (in_order q) ess)) = Inr x \<and> J p) (\<lambda>_. True)"
  using assms(1,3)
proof (induction arbitrary: acc rule: list_all2_induct)
  case Nil
  then show ?case by (simp add: hoare_give)
next
  case (Cons lc lcs e ess)
  obtain lo c where lc: "lc = (lo, c)" by fastforce
  show ?case
  proof (cases "range_intersects q after lo (bmax c)")
    case False
    have "gather Z s q after limit acc (in_order q e) = Inr acc"
      by (rule gather_none) (use Cons.hyps(1) range_misses [OF False] lc in auto)
    then show ?thesis using False Cons.IH [OF Cons.prems] lc by (simp add: gather_append)
  next
    case True
    have V: "hoare J (V (bref c) acc) (\<lambda>x p. gather Z s q after limit acc (in_order q e) = Inr x \<and> J p) (\<lambda>_. True)"
      by (rule assms(2)) (use Cons.hyps(1) Cons.prems lc in auto)
    have rest: "hoare (\<lambda>p. gather Z s q after limit acc (in_order q e) = Inr x \<and> J p)
        (if length (fst x) > limit then give x else visit_children V q after limit x lcs)
        (\<lambda>x p. gather Z s q after limit acc (concat (map (in_order q) (e # ess))) = Inr x \<and> J p) (\<lambda>_. True)" for x
    proof (cases "gather Z s q after limit acc (in_order q e) = Inr x \<and> length (fst x) \<le> limit")
      case True
      then show ?thesis using Cons.IH [of x] by (simp add: gather_append)
    next
      case False
      then show ?thesis by (auto simp: hoare_def give_def gather_append gather_full)
    qed
    show ?thesis using True hoare_andthen [OF V rest] lc by simp
  qed
qed

lemma visit_range_gather:
  assumes "tree (z_nodes Z) K V m h ref es" "length (fst acc) \<le> limit"
  shows "hoare J (visit_range Z s q after limit r ref acc)
    (\<lambda>x p. gather Z s q after limit acc (in_order q es) = Inr x \<and> J p) (\<lambda>_. True)"
  using assms
proof (induction r arbitrary: h ref es acc)
  case 0
  then show ?case by (simp add: hoare_raise)
next
  case (Suc r)
  then obtain h2 n where h: "h = Suc h2" "load (z_nodes Z) m ref = Some n" "holds_with (tree (z_nodes Z) K V m h2) K n es"
      "entries_ok K V es"
    by (cases h) auto
  have rd: "hoare J (snapshot_node Z s ref) (\<lambda>x p. x = n \<and> J p) (\<lambda>_. True)"
    by (rule hoare_weaken [OF node_read [OF h(2)]]) auto
  have "hoare J (andthen (visit_children (visit_range Z s q after limit r) q after limit acc (in_order q (bounded_children (children n)))) (\<lambda>acc'.
       if length (fst acc') > limit then give acc' else visit_leaves Z s q after limit acc' (in_order q (leaves n))))
     (\<lambda>x p. gather Z s q after limit acc (in_order q es) = Inr x \<and> J p) (\<lambda>_. True)"
  proof (cases "children n = []")
    case True
    then have "entries_of (in_order q (leaves n)) = in_order q es" using h(3) by (simp add: holds_with_def in_order_entries)
    then show ?thesis
      using True visit_leaves_gather [OF Suc.prems(2)] Suc.prems(2)
      by (auto simp: bounded_children_def in_order_def hoare_def andthen_def give_def lift_sum_def split: sum.splits)
  next
    case False
    then obtain ess where e: "leaves n = []" "es = concat ess"
        "list_all2 (\<lambda>c e. branch_ok K c e \<and> tree (z_nodes Z) K V m h2 (bref c) e) (children n) ess"
      using h(3) by (auto simp: holds_with_def)
    have "key_sorted (concat ess)" using h(4) e(2) by (simp add: entries_ok_def)
    then have "list_all2 (\<lambda>lc e. tree (z_nodes Z) K V m h2 (bref (snd lc)) e \<and> (\<forall>x\<in>set e. (fst lc = [] \<or> fst lc < fst x) \<and> fst x \<le> bmax (snd lc)))
        (bounded_children (children n)) ess"
      unfolding bounded_children_def by (intro bounded_children_entries [OF e(3)]) auto
    note bounds = in_order_list_all2 [OF this, of q]
    have "hoare J (visit_children (visit_range Z s q after limit r) q after limit acc (in_order q (bounded_children (children n))))
       (\<lambda>x p. gather Z s q after limit acc (concat (map (in_order q) (in_order q ess))) = Inr x \<and> J p) (\<lambda>_. True)"
      by (rule visit_children_gather [OF _ _ Suc.prems(2), where T = "tree (z_nodes Z) K V m h2"])
        (use bounds Suc.IH in auto)
    then show ?thesis
      using e(1,2) by (intro hoare_andthen) (auto simp: in_order_concat hoare_def give_def)
  qed
  then show ?case unfolding visit_range.simps by (intro hoare_andthen [OF rd]) (auto simp: hoare_def)
qed

end

subsection \<open>The rows of a range\<close>

fun live_rows :: "reader_env \<Rightarrow> snapshot \<Rightarrow> tree_index \<Rightarrow> (bytes \<times> bytes) list \<Rightarrow> cerr + selected list" where
  "live_rows Z s i [] = Inr []"
| "live_rows Z s i ((k, v) # es) =
     sbind (live_row Z s i k v) (\<lambda>found. sbind (live_rows Z s i es) (\<lambda>rows.
       Inr (case found of None \<Rightarrow> rows | Some row \<Rightarrow> row # rows)))"

lemma live_rows_append:
  "live_rows Z s i (a @ b) = sbind (live_rows Z s i a) (\<lambda>x. sbind (live_rows Z s i b) (\<lambda>y. Inr (x @ y)))"
proof (induction a)
  case Nil
  show ?case by (cases "live_rows Z s i b") auto
next
  case (Cons e a)
  obtain k v where e: "e = (k, v)" by fastforce
  show ?case
    using Cons unfolding e
    by (cases "live_row Z s i k v"; cases "live_rows Z s i a"; cases "live_rows Z s i b") (auto split: option.splits)
qed

abbreviation contained :: "query \<Rightarrow> bytes \<Rightarrow> (bytes \<times> bytes) list \<Rightarrow> (bytes \<times> bytes) list" where
  "contained q after es \<equiv> filter (\<lambda>e. range_contains q after (fst e)) es"

lemma gather_rows:
  "gather Z s q after limit acc es = Inr (rows, final) \<Longrightarrow> length (fst acc) \<le> limit \<Longrightarrow> length rows \<le> limit \<Longrightarrow>
   \<exists>rs. live_rows Z s (q_index q) (contained q after es) = Inr rs \<and> rows = fst acc @ rs"
proof (induction es arbitrary: acc)
  case (Cons e es)
  obtain k v where e: "e = (k, v)" by fastforce
  show ?case
  proof (cases "range_contains q after k \<and> live_row Z s (q_index q) k v \<noteq> Inr None")
    case False
    then have "gather Z s q after limit acc es = Inr (rows, final)" using Cons.prems(1,2) e by (auto split: if_splits)
    from Cons.IH [OF this Cons.prems(2,3)] obtain rs where
      "live_rows Z s (q_index q) (contained q after es) = Inr rs" "rows = fst acc @ rs" by blast
    then show ?thesis using False e by auto
  next
    case True
    then obtain row where row: "live_row Z s (q_index q) k v = Inr (Some row)"
      using Cons.prems e by (cases "live_row Z s (q_index q) k v") (auto split: option.splits)
    let ?acc = "(fst acc @ [row], if length (fst acc @ [row]) > limit then snd acc else k)"
    have g: "gather Z s q after limit ?acc es = Inr (rows, final)" using Cons.prems(1,2) True row e by (simp add: Let_def)
    then have "length (fst acc @ [row]) \<le> limit" using Cons.prems(3) gather_full [of limit ?acc] by (cases "length (fst acc @ [row]) \<le> limit") auto
    with Cons.IH [OF g] Cons.prems(3) show ?thesis using True row e by auto
  qed
qed simp

text \<open>When the limit is passed: the entries up to the last row within it.\<close>

lemma gather_over:
  "gather Z s q after limit acc es = Inr (rows, final) \<Longrightarrow> length (fst acc) \<le> limit \<Longrightarrow> limit < length rows \<Longrightarrow>
   length rows = Suc limit \<and> (\<exists>a b. es = a @ b \<and> gather Z s q after limit acc a = Inr (take limit rows, final) \<and>
     (a = [] \<or> fst (last a) = final \<and> range_contains q after final))"
proof (induction es arbitrary: acc)
  case (Cons e es)
  obtain k v where e: "e = (k, v)" by fastforce
  have skip: ?case if g: "gather Z s q after limit acc es = Inr (rows, final)" "\<And>a. gather Z s q after limit acc (e # a) = gather Z s q after limit acc a"
  proof -
    obtain a b where ab: "length rows = Suc limit" "es = a @ b" "gather Z s q after limit acc a = Inr (take limit rows, final)"
        "a = [] \<or> fst (last a) = final \<and> range_contains q after final"
      using Cons.IH [OF g(1) Cons.prems(2,3)] by blast
    show ?thesis
    proof (cases "a = []")
      case True
      then show ?thesis using ab by (metis append_Nil)
    next
      case False
      then have "e # es = (e # a) @ b \<and> gather Z s q after limit acc (e # a) = Inr (take limit rows, final) \<and>
          fst (last (e # a)) = final \<and> range_contains q after final"
        using ab g(2) by simp
      then show ?thesis using ab(1) by blast
    qed
  qed
  show ?case
  proof (cases "range_contains q after k \<and> live_row Z s (q_index q) k v \<noteq> Inr None")
    case False
    then show ?thesis using Cons.prems e by (intro skip) (auto split: if_splits)
  next
    case True
    then obtain row where row: "live_row Z s (q_index q) k v = Inr (Some row)"
      using Cons.prems e by (cases "live_row Z s (q_index q) k v") (auto split: option.splits)
    let ?acc = "(fst acc @ [row], if length (fst acc @ [row]) > limit then snd acc else k)"
    have g: "gather Z s q after limit acc (e # a) = gather Z s q after limit ?acc a" for a
      using Cons.prems(2) True row e by (simp add: Let_def)
    show ?thesis
    proof (cases "length (fst acc @ [row]) > limit")
      case over: True
      then have "gather Z s q after limit ?acc es = Inr ?acc" by (intro gather_full) simp
      then have "rows = fst acc @ [row] \<and> final = snd acc" using g [of es] Cons.prems(1) over by auto
      then have "length rows = Suc limit \<and> e # es = [] @ (e # es) \<and> gather Z s q after limit acc [] = Inr (take limit rows, final)"
        using over Cons.prems(2) by auto
      then show ?thesis by blast
    next
      case False
      then obtain a b where ab: "length rows = Suc limit" "es = a @ b" "gather Z s q after limit ?acc a = Inr (take limit rows, final)"
          "a = [] \<or> fst (last a) = final \<and> range_contains q after final"
        using Cons.IH [of ?acc] g [of es] Cons.prems(1,3) by auto
      then have "e # es = (e # a) @ b \<and> gather Z s q after limit acc (e # a) = Inr (take limit rows, final) \<and>
          fst (last (e # a)) = final \<and> range_contains q after final"
        using g [of a] False True e by auto
      then show ?thesis using ab(1) by blast
    qed
  qed
qed simp

text \<open>Behind the last row of a page lie the entries that the next page visits.\<close>

definition beyond :: "query \<Rightarrow> bytes \<Rightarrow> bytes \<Rightarrow> bool" where
  "beyond q a b = (if q_reverse q then b < a else a < b)"

lemma beyond_trans: "beyond q a b \<Longrightarrow> beyond q b c \<Longrightarrow> beyond q a c"
  by (auto simp: beyond_def split: if_splits)

lemma beyond_irrefl: "\<not> beyond q a a"
  by (simp add: beyond_def)

lemma range_contains_beyond:
  "range_contains q after k \<longleftrightarrow> leaf_in_range q k \<and> (after = [] \<or> beyond q after k)"
  by (auto simp: range_contains_def leaf_in_range_def beyond_def not_less not_le)

lemma contained_after:
  assumes "sorted_wrt (\<lambda>x y. beyond q (fst x) (fst y)) (a @ b)" "a \<noteq> []" "range_contains q after (fst (last a))"
    "fst (last a) \<noteq> []"
  shows "contained q (fst (last a)) (a @ b) = contained q after b"
proof -
  let ?k = "fst (last a)"
  have a: "a = butlast a @ [last a]" using assms(2) by simp
  have up: "\<not> beyond q ?k (fst x)" if "x \<in> set a" for x
  proof -
    have "x = last a \<or> beyond q (fst x) ?k"
      using assms(1) that by (subst (asm) (1 2) a) (auto simp: sorted_wrt_append)
    then show ?thesis using beyond_trans beyond_irrefl by blast
  qed
  have down: "beyond q ?k (fst x)" if "x \<in> set b" for x
    using assms(1,2) that by (simp add: sorted_wrt_append)
  have "contained q ?k a = []" using up assms(4) by (auto simp: filter_empty_conv range_contains_beyond)
  moreover have "contained q ?k b = contained q after b"
    by (rule filter_cong) (use down assms(3) beyond_trans in \<open>auto simp: range_contains_beyond\<close>)
  ultimately show ?thesis by simp
qed

lemma sorted_in_order: "key_sorted es \<Longrightarrow> sorted_wrt (\<lambda>x y. beyond q (fst x) (fst y)) (in_order q es)"
  by (simp add: key_sorted_def in_order_def beyond_def sorted_wrt_map sorted_wrt_rev)

end
