(* ===== verification/SnapshotDeltas.thy ===== *)
theory SnapshotDeltas
  imports SnapshotCounts "HOL-Library.Multiset"
begin

text \<open>
  Deltas. Two trees share the subtrees that the walk skips; what it collects are the other entries of
  both, so comparing the tables compares the trees.
\<close>

subsection \<open>Entries of identity trees\<close>

fun collect_entries :: "reader_env \<Rightarrow> (bytes \<times> entry) list \<Rightarrow> (bytes \<times> bytes) list \<Rightarrow> cerr + (bytes \<times> entry) list" where
  "collect_entries Z target [] = Inr target"
| "collect_entries Z target ((k, v) # es) =
     sbind (decode_identity_record (z_entries Z) v k) (\<lambda>r.
     case id_entry r of
       None \<Rightarrow> collect_entries Z target es
     | Some e \<Rightarrow>
         if leaf_session_key e \<noteq> k \<or> en_revision e = [] then Inl Refused
         else collect_entries Z (AList.update k e target) es)"

lemma collect_leaves_entries: "collect_leaves Z target vs = collect_entries Z target (entries_of vs)"
  by (induction vs arbitrary: target) (simp_all cong: option.case_cong if_cong)

lemma collect_entries_append:
  "collect_entries Z target (a @ b) = sbind (collect_entries Z target a) (\<lambda>x. collect_entries Z x b)"
proof (induction a arbitrary: target)
  case (Cons e a)
  obtain k v where e: "e = (k, v)" by fastforce
  show ?case using Cons unfolding e by (cases "decode_identity_record (z_entries Z) v k") (auto split: option.split)
qed simp

text \<open>The session of a key, as the leaf of the key records it.\<close>

definition live_identity :: "reader_env \<Rightarrow> (bytes \<times> bytes) list \<Rightarrow> bytes \<Rightarrow> entry option" where
  "live_identity Z es k =
     (case map_of es k of
        None \<Rightarrow> None
      | Some v \<Rightarrow> (case decode_identity_record (z_entries Z) v k of Inl _ \<Rightarrow> None | Inr r \<Rightarrow> id_entry r))"

lemma collect_entries_live:
  assumes "collect_entries Z target es = Inr x" "distinct (map fst es)"
  shows "map_of x k = (case live_identity Z es k of None \<Rightarrow> map_of target k | Some e \<Rightarrow> Some e)"
    "distinct (map fst target) \<Longrightarrow> distinct (map fst x)"
proof -
  have "map_of x k = (case live_identity Z es k of None \<Rightarrow> map_of target k | Some e \<Rightarrow> Some e) \<and>
      (distinct (map fst target) \<longrightarrow> distinct (map fst x))"
    using assms
  proof (induction es arbitrary: target)
    case Nil
    then show ?case by (simp add: live_identity_def)
  next
    case (Cons e es)
    obtain j v where e: "e = (j, v)" by fastforce
    obtain r where r: "decode_identity_record (z_entries Z) v j = Inr r"
      using Cons.prems(1) e by (cases "decode_identity_record (z_entries Z) v j") auto
    have off: "live_identity Z es j = None"
      using Cons.prems(2) e by (auto simp: live_identity_def map_of_eq_None_iff [THEN iffD2] split: option.split dest: map_of_SomeD)
    have on: "live_identity Z (e # es) k = (if k = j then id_entry r else live_identity Z es k)"
      using e r by (simp add: live_identity_def)
    show ?case
    proof (cases "id_entry r")
      case None
      then show ?thesis using Cons.IH [of target] Cons.prems e r on off by (auto split: option.split)
    next
      case (Some y)
      then have "collect_entries Z (AList.update j y target) es = Inr x" using Cons.prems(1) e r by (auto split: if_splits)
      from Cons.IH [OF this] Cons.prems(2) show ?thesis
        using Some e on off by (auto simp: update_conv' distinct_update split: option.split)
    qed
  qed
  then show "map_of x k = (case live_identity Z es k of None \<Rightarrow> map_of target k | Some e \<Rightarrow> Some e)"
    "distinct (map fst target) \<Longrightarrow> distinct (map fst x)" by auto
qed

lemma tree_unique: "tree C K V m h ref es \<Longrightarrow> tree C K V m h' ref es' \<Longrightarrow> es = es'"
proof (induction h arbitrary: h' ref es es')
  case (Suc h)
  then obtain n g where n: "load C m ref = Some n" "holds_with (tree C K V m h) K n es" "h' = Suc g" "holds_with (tree C K V m g) K n es'"
    by (cases h') auto
  show ?case
  proof (cases "children n = []")
    case True
    then show ?thesis using n(2,4) by (simp add: holds_with_def)
  next
    case False
    obtain a where a: "es = concat a" "list_all2 (\<lambda>c e. branch_ok K c e \<and> tree C K V m h (bref c) e) (children n) a"
      using False n(2) by (auto simp: holds_with_def)
    obtain b where b: "es' = concat b" "list_all2 (\<lambda>c e. branch_ok K c e \<and> tree C K V m g (bref c) e) (children n) b"
      using False n(4) by (auto simp: holds_with_def)
    have "length a = length b" using list_all2_lengthD [OF a(2)] list_all2_lengthD [OF b(2)] by simp
    moreover have "a ! i = b ! i" if "i < length a" for i
      by (rule Suc.IH [of "bref (children n ! i)"]) (use a(2) b(2) that calculation in \<open>auto simp: list_all2_conv_all_nth\<close>)
    ultimately have "a = b" by (rule nth_equalityI)
    then show ?thesis using a(1) b(1) by simp
  qed
qed simp

text \<open>What a comparison has collected: the entries of both trees but the ones they share.\<close>

definition differs :: "reader_env \<Rightarrow> tables \<Rightarrow> (bytes \<times> bytes) list \<Rightarrow> (bytes \<times> bytes) list \<Rightarrow> tables \<Rightarrow> bool" where
  "differs Z t ea eb t' \<longleftrightarrow> (\<exists>da db common. mset ea = mset da + mset common \<and> mset eb = mset db + mset common \<and>
     collect_entries Z (fst t) da = Inr (fst t') \<and> collect_entries Z (snd t) db = Inr (snd t'))"

lemma differs_same: "differs Z t es es t"
  unfolding differs_def by (intro exI [of _ "[]"] exI [of _ es]) simp

lemma differs_all: "collect_entries Z (fst t) ea = Inr (fst t') \<Longrightarrow> collect_entries Z (snd t) eb = Inr (snd t') \<Longrightarrow> differs Z t ea eb t'"
  unfolding differs_def by (intro exI [of _ ea] exI [of _ eb] exI [of _ "[]"]) simp

lemma differs_append:
  assumes "differs Z t ea eb t1" "differs Z t1 fa fb t2"
  shows "differs Z t (ea @ fa) (eb @ fb) t2"
proof -
  obtain da db c where 1: "mset ea = mset da + mset c" "mset eb = mset db + mset c"
      "collect_entries Z (fst t) da = Inr (fst t1)" "collect_entries Z (snd t) db = Inr (snd t1)"
    using assms(1) by (auto simp: differs_def)
  obtain ga gb d where 2: "mset fa = mset ga + mset d" "mset fb = mset gb + mset d"
      "collect_entries Z (fst t1) ga = Inr (fst t2)" "collect_entries Z (snd t1) gb = Inr (snd t2)"
    using assms(2) by (auto simp: differs_def)
  show ?thesis
    unfolding differs_def
    by (intro exI [of _ "da @ ga"] exI [of _ "db @ gb"] exI [of _ "c @ d"]) (use 1 2 in \<open>simp add: collect_entries_append\<close>)
qed

context node_source
begin

lemma collect_children_entries:
  assumes "list_all2 (\<lambda>c e. T (bref c) e) cs ess"
    and "\<And>ref e target. T ref e \<Longrightarrow> hoare J (V ref target) (\<lambda>x p. collect_entries Z target e = Inr x \<and> J p) (\<lambda>_. True)"
  shows "hoare J (collect_children V target cs) (\<lambda>x p. collect_entries Z target (concat ess) = Inr x \<and> J p) (\<lambda>_. True)"
  using assms(1)
proof (induction arbitrary: target rule: list_all2_induct)
  case Nil
  then show ?case by (simp add: hoare_give)
next
  case (Cons c cs e ess)
  have "hoare (\<lambda>p. collect_entries Z target e = Inr x \<and> J p) (collect_children V x cs)
      (\<lambda>x p. collect_entries Z target (concat (e # ess)) = Inr x \<and> J p) (\<lambda>_. True)" for x
    by (rule hoare_fact [OF Cons.IH]) (simp add: collect_entries_append)
  then show ?case unfolding collect_children.simps by (rule hoare_andthen [OF assms(2) [OF Cons.hyps(1)]])
qed

lemma collect_delta_entries:
  assumes "tree (z_nodes Z) K V m h ref es"
  shows "hoare J (collect_delta Z s r ref target) (\<lambda>x p. collect_entries Z target es = Inr x \<and> J p) (\<lambda>_. True)"
  using assms
proof (induction r arbitrary: h ref es target)
  case 0
  then show ?case by (simp add: hoare_raise)
next
  case (Suc r)
  then obtain h2 n where h: "load (z_nodes Z) m ref = Some n" "holds_with (tree (z_nodes Z) K V m h2) K n es"
    by (cases h) auto
  have rd: "hoare J (snapshot_node Z s ref) (\<lambda>x p. x = n \<and> J p) (\<lambda>_. True)"
    by (rule hoare_weaken [OF node_read [OF h(1)]]) auto
  have sub: "hoare J (andthen (collect_children (collect_delta Z s r) target (children n)) (\<lambda>target'. lift_sum (collect_leaves Z target' (leaves n))))
     (\<lambda>x p. collect_entries Z target es = Inr x \<and> J p) (\<lambda>_. True)"
  proof (cases "children n = []")
    case True
    then show ?thesis
      using h(2) by (auto simp: holds_with_def collect_leaves_entries hoare_def andthen_def give_def lift_sum_def split: sum.split)
  next
    case False
    then obtain ess where e: "leaves n = []" "es = concat ess"
        "list_all2 (\<lambda>c e. branch_ok K c e \<and> tree (z_nodes Z) K V m h2 (bref c) e) (children n) ess"
      using h(2) by (auto simp: holds_with_def)
    have "list_all2 (\<lambda>c e. tree (z_nodes Z) K V m h2 (bref c) e) (children n) ess" by (rule list_all2_mono [OF e(3)]) simp
    then have "hoare J (collect_children (collect_delta Z s r) target (children n))
        (\<lambda>x p. collect_entries Z target (concat ess) = Inr x \<and> J p) (\<lambda>_. True)"
      by (rule collect_children_entries) (rule Suc.IH)
    then show ?thesis using e(1,2) by (intro hoare_andthen) (auto simp: hoare_def lift_sum_def)
  qed
  show ?case unfolding collect_delta.simps by (rule hoare_andthen [OF rd]) (use sub in \<open>auto simp: hoare_def\<close>)
qed

lemma diff_children_entries:
  assumes "list_all2 (\<lambda>(a, b) (e, f). T (bref a) e \<and> U (bref b) f) cs efs"
    and "\<And>a b e f x. T a e \<Longrightarrow> U b f \<Longrightarrow> hoare J (W a b x) (\<lambda>y p. differs Z x e f y \<and> J p) (\<lambda>_. True)"
  shows "hoare J (diff_children W x cs) (\<lambda>y p. differs Z x (concat (map fst efs)) (concat (map snd efs)) y \<and> J p) (\<lambda>_. True)"
  using assms(1)
proof (induction arbitrary: x rule: list_all2_induct)
  case Nil
  then show ?case by (simp add: hoare_give differs_same)
next
  case (Cons ab cs ef efs)
  obtain a b e f where ab: "ab = (a, b)" "ef = (e, f)" by fastforce
  have "hoare J (W (bref a) (bref b) x) (\<lambda>y p. differs Z x e f y \<and> J p) (\<lambda>_. True)"
    by (rule assms(2)) (use Cons.hyps(1) ab in auto)
  moreover have "hoare (\<lambda>p. differs Z x e f y \<and> J p) (diff_children W y cs)
      (\<lambda>z p. differs Z x (e @ concat (map fst efs)) (f @ concat (map snd efs)) z \<and> J p) (\<lambda>_. True)" for y
    by (rule hoare_fact [OF Cons.IH]) (auto intro: differs_append)
  ultimately have "hoare J (andthen (W (bref a) (bref b) x) (\<lambda>y. diff_children W y cs))
      (\<lambda>z p. differs Z x (e @ concat (map fst efs)) (f @ concat (map snd efs)) z \<and> J p) (\<lambda>_. True)"
    by (rule hoare_andthen)
  then show ?case using ab by simp
qed

lemma diff_delta_entries:
  assumes "tree (z_nodes Z) K V m h a ea" "tree (z_nodes Z) K V m g b eb"
  shows "hoare J (diff_delta Z s r a b x) (\<lambda>y p. differs Z x ea eb y \<and> J p) (\<lambda>_. True)"
  using assms
proof (induction r arbitrary: h g a b ea eb x)
  case 0
  then have "a = b \<Longrightarrow> ea = eb" by (blast intro: tree_unique)
  then show ?case by (auto simp: hoare_def give_def raise_def differs_same)
next
  case (Suc r)
  show ?case
  proof (cases "a = b")
    case True
    then have "ea = eb" using Suc.prems by (blast intro: tree_unique)
    then show ?thesis using True by (simp add: hoare_def give_def differs_same)
  next
    case False
    obtain h2 na where na: "load (z_nodes Z) m a = Some na" "holds_with (tree (z_nodes Z) K V m h2) K na ea"
      using Suc.prems(1) by (cases h) auto
    obtain g2 nb where nb: "load (z_nodes Z) m b = Some nb" "holds_with (tree (z_nodes Z) K V m g2) K nb eb"
      using Suc.prems(2) by (cases g) auto
    have rd: "hoare J (snapshot_node Z s a) (\<lambda>x p. x = na \<and> J p) (\<lambda>_. True)" "hoare J (snapshot_node Z s b) (\<lambda>x p. x = nb \<and> J p) (\<lambda>_. True)"
      by (rule hoare_weaken [OF node_read [OF na(1)]]; simp; fail)
        (rule hoare_weaken [OF node_read [OF nb(1)]]; simp)
    have split: "hoare J (diff_children (diff_delta Z s r) x (zip (children na) (children nb))) (\<lambda>y p. differs Z x ea eb y \<and> J p) (\<lambda>_. True)"
      if c: "children na \<noteq> [] \<and> map bmax (children na) = map bmax (children nb)"
    proof -
      have len: "length (children na) = length (children nb)" using c by (metis length_map)
      have "children nb \<noteq> []" using c len by auto
      obtain A where A: "ea = concat A" "list_all2 (\<lambda>c e. branch_ok K c e \<and> tree (z_nodes Z) K V m h2 (bref c) e) (children na) A"
        using na(2) c by (auto simp: holds_with_def)
      obtain B where B: "eb = concat B" "list_all2 (\<lambda>c e. branch_ok K c e \<and> tree (z_nodes Z) K V m g2 (bref c) e) (children nb) B"
        using nb(2) \<open>children nb \<noteq> []\<close> by (auto simp: holds_with_def)
      have lens: "length A = length B" using len list_all2_lengthD [OF A(2)] list_all2_lengthD [OF B(2)] by simp
      have "list_all2 (\<lambda>(a, b) (e, f). tree (z_nodes Z) K V m h2 (bref a) e \<and> tree (z_nodes Z) K V m g2 (bref b) f)
          (zip (children na) (children nb)) (zip A B)"
        using A(2) B(2) len lens by (auto simp: list_all2_conv_all_nth)
      from diff_children_entries [OF this, of "diff_delta Z s r" x] Suc.IH show ?thesis
        using A(1) B(1) lens by simp
    qed
    have whole: "hoare J (andthen (collect_delta Z s (Suc r) a (fst x)) (\<lambda>old. andthen (collect_delta Z s (Suc r) b (snd x)) (\<lambda>next. give (old, next))))
        (\<lambda>y p. differs Z x ea eb y \<and> J p) (\<lambda>_. True)"
    proof (rule hoare_andthen [OF collect_delta_entries [OF Suc.prems(1)]])
      fix old
      have "hoare (\<lambda>p. collect_entries Z (fst x) ea = Inr old \<and> J p) (collect_delta Z s (Suc r) b (snd x))
          (\<lambda>y p. collect_entries Z (snd x) eb = Inr y \<and> collect_entries Z (fst x) ea = Inr old \<and> J p) (\<lambda>_. True)"
        by (rule hoare_fact [OF collect_delta_entries [OF Suc.prems(2)]]) simp
      then show "hoare (\<lambda>p. collect_entries Z (fst x) ea = Inr old \<and> J p) (andthen (collect_delta Z s (Suc r) b (snd x)) (\<lambda>next. give (old, next)))
          (\<lambda>y p. differs Z x ea eb y \<and> J p) (\<lambda>_. True)"
        by (rule hoare_andthen) (auto intro!: hoare_give differs_all)
    qed
    have pair: "hoare J (if children na \<noteq> [] \<and> map bmax (children na) = map bmax (children nb)
        then diff_children (diff_delta Z s r) x (zip (children na) (children nb))
        else andthen (collect_delta Z s (Suc r) a (fst x)) (\<lambda>old. andthen (collect_delta Z s (Suc r) b (snd x)) (\<lambda>next. give (old, next))))
        (\<lambda>y p. differs Z x ea eb y \<and> J p) (\<lambda>_. True)"
      by (rule hoare_if) (rule split whole, assumption?)+
    have two: "hoare (\<lambda>p. y = nb \<and> J p) (if children na \<noteq> [] \<and> map bmax (children na) = map bmax (children y)
        then diff_children (diff_delta Z s r) x (zip (children na) (children y))
        else andthen (collect_delta Z s (Suc r) a (fst x)) (\<lambda>old. andthen (collect_delta Z s (Suc r) b (snd x)) (\<lambda>next. give (old, next))))
        (\<lambda>y p. differs Z x ea eb y \<and> J p) (\<lambda>_. True)" for y
    proof (cases "y = nb")
      case True
      show ?thesis unfolding True by (rule hoare_fact [OF pair])
    qed (simp add: hoare_def)
    have one: "hoare (\<lambda>p. y = na \<and> J p) (andthen (snapshot_node Z s b) (\<lambda>nb.
        if children y \<noteq> [] \<and> map bmax (children y) = map bmax (children nb)
        then diff_children (diff_delta Z s r) x (zip (children y) (children nb))
        else andthen (collect_delta Z s (Suc r) a (fst x)) (\<lambda>old. andthen (collect_delta Z s (Suc r) b (snd x)) (\<lambda>next. give (old, next)))))
        (\<lambda>y p. differs Z x ea eb y \<and> J p) (\<lambda>_. True)" for y
    proof (cases "y = na")
      case True
      show ?thesis unfolding True by (rule hoare_fact [OF hoare_andthen [OF rd(2) two]])
    qed (simp add: hoare_def)
    show ?thesis
      unfolding diff_delta.simps using False hoare_andthen [OF rd(1) one] by (simp del: collect_delta.simps)
  qed
qed

end

subsection \<open>Comparing the tables\<close>

lemma live_identity_Nil [simp]: "live_identity Z [] k = None"
  by (simp add: live_identity_def)

lemma map_of_shared:
  assumes "mset es = mset d + mset common" "distinct (map fst es)"
  shows "distinct (map fst d)" "map_of es k = (if k \<in> fst ` set common then map_of common k else map_of d k)"
    "k \<in> fst ` set common \<Longrightarrow> map_of d k = None"
proof -
  have "mset (map fst es) = mset (map fst (d @ common))" using assms(1) by simp
  then have dist: "distinct (map fst (d @ common))" using assms(2) mset_eq_imp_distinct_iff by blast
  then show "distinct (map fst d)" by simp
  have off: "map_of d k = None" if "k \<in> fst ` set common" for k
    using dist that by (auto simp: map_of_eq_None_iff)
  then show "k \<in> fst ` set common \<Longrightarrow> map_of d k = None" .
  have "set es = set (d @ common)" using assms(1) by (metis mset_append set_mset_mset)
  then have "map_of es k = map_of (d @ common) k"
    using assms(2) dist by (metis (no_types, lifting) map_of_eq_Some_iff option.exhaust)
  also have "\<dots> = (if k \<in> fst ` set common then map_of common k else map_of d k)"
    using off [of k] map_of_eq_None_iff [of common k] by (auto simp: map_add_def split: option.split)
  finally show "map_of es k = (if k \<in> fst ` set common then map_of common k else map_of d k)" .
qed

lemma live_shared:
  assumes "mset es = mset d + mset common" "distinct (map fst es)"
  shows "live_identity Z es k = (if k \<in> fst ` set common then live_identity Z common k else live_identity Z d k)"
    "k \<in> fst ` set common \<Longrightarrow> live_identity Z d k = None"
  using map_of_shared [OF assms] by (simp_all add: live_identity_def)

lemma same_projection_refl [simp]: "same_projection e e"
  by (simp add: same_projection_def)

lemma delta_of_tables:
  assumes "differs Z ([], []) ea eb t" "distinct (map fst ea)" "distinct (map fst eb)"
  shows "(\<lambda>r. (se_key r, se_entry r)) ` set (dl_changed (delta_of prior fresh rebuild t)) =
      {(k, e). live_identity Z eb k = Some e \<and> (\<forall>e'. live_identity Z ea k = Some e' \<longrightarrow> \<not> same_projection e' e)}"
    "set (dl_removed (delta_of prior fresh rebuild t)) = {k. live_identity Z ea k \<noteq> None \<and> live_identity Z eb k = None}"
proof -
  obtain old new where t: "t = (old, new)" by fastforce
  obtain da db common where d: "mset ea = mset da + mset common" "mset eb = mset db + mset common"
      "collect_entries Z [] da = Inr old" "collect_entries Z [] db = Inr new"
    using assms(1) t by (auto simp: differs_def)
  note sa = map_of_shared(1) [OF d(1) assms(2)] live_shared [OF d(1) assms(2)]
  note sb = map_of_shared(1) [OF d(2) assms(3)] live_shared [OF d(2) assms(3)]
  have old: "map_of old k = live_identity Z da k" for k
    using collect_entries_live(1) [OF d(3) sa(1), of k] by (simp split: option.splits)
  have new: "map_of new k = live_identity Z db k" "distinct (map fst new)" for k
    using collect_entries_live(1) [OF d(4) sb(1), of k] collect_entries_live(2) [OF d(4) sb(1)] by (simp_all split: option.splits)
  have mem: "(k, e) \<in> set new \<longleftrightarrow> live_identity Z db k = Some e" for k e
    using new by (metis map_of_eq_Some_iff)
  have "(\<lambda>r. (se_key r, se_entry r)) ` set (dl_changed (delta_of prior fresh rebuild t)) =
      {(k, e). live_identity Z db k = Some e \<and> (\<forall>e'. live_identity Z da k = Some e' \<longrightarrow> \<not> same_projection e' e)}"
    unfolding t delta_of_def by (auto simp: mem old image_iff split: option.splits)
  also have "\<dots> = {(k, e). live_identity Z eb k = Some e \<and> (\<forall>e'. live_identity Z ea k = Some e' \<longrightarrow> \<not> same_projection e' e)}"
  proof (intro set_eqI)
    fix x :: "bytes \<times> entry"
    show "x \<in> {(k, e). live_identity Z db k = Some e \<and> (\<forall>e'. live_identity Z da k = Some e' \<longrightarrow> \<not> same_projection e' e)} \<longleftrightarrow>
      x \<in> {(k, e). live_identity Z eb k = Some e \<and> (\<forall>e'. live_identity Z ea k = Some e' \<longrightarrow> \<not> same_projection e' e)}"
      using sa(2,3) [where k = "fst x"] sb(2,3) [where k = "fst x"] by (cases "fst x \<in> fst ` set common") (auto simp del: image_eqI)
  qed
  finally show "(\<lambda>r. (se_key r, se_entry r)) ` set (dl_changed (delta_of prior fresh rebuild t)) =
      {(k, e). live_identity Z eb k = Some e \<and> (\<forall>e'. live_identity Z ea k = Some e' \<longrightarrow> \<not> same_projection e' e)}" .
  have "set (dl_removed (delta_of prior fresh rebuild t)) = {k. live_identity Z da k \<noteq> None \<and> live_identity Z db k = None}"
    using map_of_eq_None_iff [of old] old new(1) unfolding t delta_of_def by (auto simp: filter_set [symmetric] simp del: map_of_eq_None_iff)
  also have "\<dots> = {k. live_identity Z ea k \<noteq> None \<and> live_identity Z eb k = None}"
    by (rule Collect_cong) (auto simp: sa(2,3) sb(2,3))
  finally show "set (dl_removed (delta_of prior fresh rebuild t)) = {k. live_identity Z ea k \<noteq> None \<and> live_identity Z eb k = None}" .
qed

text \<open>The reads keep what the snapshot reads from also when they fail.\<close>

lemma reads_collect_children [reader_rules]:
  "(\<And>ref target. keeps (reads_from m) (V ref target)) \<Longrightarrow> keeps (reads_from m) (collect_children V target cs)"
  by (induction cs arbitrary: target) (auto intro!: keeps_rules)

lemma reads_collect [reader_rules]: "undisturbed m (z_env Z) \<Longrightarrow> keeps (reads_from m) (collect_delta Z s r ref target)"
  by (induction r arbitrary: ref target) (auto intro!: keeps_rules reader_rules)

lemma reads_diff_children [reader_rules]:
  "(\<And>a b t. keeps (reads_from m) (W a b t)) \<Longrightarrow> keeps (reads_from m) (diff_children W t cs)"
  by (induction cs arbitrary: t) (auto intro!: keeps_rules)

lemma reads_diff [reader_rules]: "undisturbed m (z_env Z) \<Longrightarrow> keeps (reads_from m) (diff_delta Z s r a b t)"
  by (induction r arbitrary: a b t) (auto intro!: keeps_rules reader_rules simp del: collect_delta.simps)

end
