(* ===== verification/SnapshotDemo.thy ===== *)
theory SnapshotDemo
  imports SnapshotPages SnapshotDeltas CoordinatorClaims
begin

text \<open>A small archive for the witnesses: two identity roots, a head, and a codec for the entries in them.\<close>

definition tour_key :: "bytes \<Rightarrow> bytes" where
  "tour_key sid = session_prefix ''c'' sid @ ''metadata.json''"

definition tour_entry :: "bytes \<Rightarrow> bytes \<Rightarrow> entry" where
  "tour_entry sid revision =
     \<lparr>en_picker = None, en_overflow = [], en_ordinary = 0, en_replays = 0, en_revision = revision,
      en_metadata = \<lparr>rkey = ''catalog-v4/metadata/'' @ demo_sha @ ''.json'', rsha = demo_sha\<rparr>,
      en_summary = \<lparr>md_schema = 1, md_session = sid, md_harness = ''c'', md_native = [], md_project = [], md_captured = 0,
        md_bundle = \<lparr>sr_key = [], sr_sha = [], sr_bytes = 0\<rparr>, md_history = None, sy_origin = [], sy_started = 0, sy_ended = None,
        sy_parent = [], sy_child = False, sy_replay = None, sy_repo = [], sy_name = [], sy_title = [], sy_project_name = [],
        sy_turns = None, sy_other = []\<rparr>\<rparr>"

definition tour_codec :: entry_codec where
  "tour_codec =
     \<lparr>t_lower = (\<lambda>b. b), t_sha = (\<lambda>_. demo_sha), t_plain_https = (\<lambda>_. True), k_entry = (\<lambda>_. None),
      k_entry_in = [''a'' \<mapsto> (tour_entry ''1'' ''r'', []), ''b'' \<mapsto> (tour_entry ''2'' ''r'', []), ''c'' \<mapsto> (tour_entry ''1'' ''q'', [])],
      k_identity = (\<lambda>_. None), k_identity_in = [''1'' \<mapsto> (''r'', ''a''), ''2'' \<mapsto> (''r'', ''b''), ''3'' \<mapsto> (''q'', ''c'')],
      k_row = (\<lambda>_. None), k_row_in = (\<lambda>_. None), k_summary = (\<lambda>_. None), k_summary_in = (\<lambda>_. None),
      k_receipt = (\<lambda>_. None), k_item = (\<lambda>_ _. None)\<rparr>"

definition tour_ref :: "bytes \<Rightarrow> objref" where
  "tour_ref k = \<lparr>rkey = k, rsha = demo_sha\<rparr>"

definition tour_node :: "item list \<Rightarrow> node" where
  "tour_node vs = \<lparr>ncount = length vs, leaves = vs, children = []\<rparr>"

definition tour_new :: "item list" where
  "tour_new = [\<lparr>ikey = tour_key ''1'', ival = ''1''\<rparr>, \<lparr>ikey = tour_key ''2'', ival = ''2''\<rparr>]"

definition tour_old :: "item list" where
  "tour_old = [\<lparr>ikey = tour_key ''1'', ival = ''3''\<rparr>]"

definition tour_snapshot :: snapshot where
  "tour_snapshot = \<lparr>sn_id = 0, sn_head = demo_head\<lparr>hd_identity := tour_ref ''N'', hd_activity := tour_ref ''N''\<rparr>, sn_etag = ''S'',
     sn_started = 0, sn_nonce = ''n'', sn_secret = ''s''\<rparr>"

definition tour_query :: "tree_index \<Rightarrow> query" where
  "tour_query i = \<lparr>q_index = i, q_lower = ''s'', q_upper = ''t'', q_reverse = True\<rparr>"

text \<open>Cursors of this query one row at a time, encoded as the key they stand at.\<close>

definition tour_cursor :: "bytes \<Rightarrow> cursor" where
  "tour_cursor k = \<lparr>cu_nonce = ''n'', cu_root = tour_ref ''N'', cu_query = tour_query IdentityIndex, cu_after = k, cu_limit = 1, cu_seal = []\<rparr>"

definition tour_env :: reader_env where
  "tour_env =
     \<lparr>z_env = sweep_env, z_entries = tour_codec,
      z_nodes = \<lparr>c_sha = (\<lambda>_. demo_sha), c_enc = (\<lambda>_. []), c_dec = [''N'' \<mapsto> tour_node tour_new, ''M'' \<mapsto> tour_node tour_old]\<rparr>,
      z_now = (\<lambda>_. 0), z_cursor = (\<lambda>c. Some (CHR ''k'' # cu_after c)), z_cursor_in = (\<lambda>raw. Some (tour_cursor (tl raw))),
      z_b64 = (\<lambda>b. b), z_b64_in = Some, z_mac = (\<lambda>_ _. []), z_row = (\<lambda>_ _. None)\<rparr>"

definition tour_objects :: objects where
  "tour_objects = [''N'' \<mapsto> (''N'', demo_version), ''M'' \<mapsto> (''M'', demo_version), head_key \<mapsto> (''H'', demo_version)]"

definition tour_reader :: "nat \<Rightarrow> nat \<Rightarrow> (objref \<times> bytes) list \<Rightarrow> u64 \<Rightarrow> reader" where
  "tour_reader calls looks cache requests =
     \<lparr>rd_world = \<lparr>w_objects = tour_objects, w_calls = calls, w_log = []\<rparr>, rd_looks = looks, rd_cache = cache, rd_requests = requests,
      rd_work = None, rd_discovery = False, rd_resolved = []\<rparr>"

definition tour_bytes :: "bytes \<rightharpoonup> bytes" where
  "tour_bytes = [''N'' \<mapsto> ''N'', ''M'' \<mapsto> ''M'']"

subsection \<open>Its trees\<close>

lemma ascii_valid: "list_all (\<lambda>c. byte c < 128) s \<Longrightarrow> valid_utf8 s"
  by (induction s) (simp_all add: valid_utf8.simps [of "[]"] valid_utf8.simps [of "_ # _"] decode_rune_def rune_error_def)

lemma tour_keys: "tour_key ''1'' = ''sessions/c/1/metadata.json''" "tour_key ''2'' = ''sessions/c/2/metadata.json''"
  by (simp_all add: tour_key_def session_prefix_def)

lemma tour_keys_valid: "valid_utf8 (tour_key ''1'')" "valid_utf8 (tour_key ''2'')"
  by (rule ascii_valid; simp add: tour_keys)+

lemma demo_sha_digits: "length demo_sha = 64" "list_all is_hex demo_sha"
proof -
  have "\<forall>n\<in>set [0..<16]. is_hex (hex_digit n)" by code_simp
  then have "is_hex (hex_digit n)" if "n < 16" for n using that by simp
  moreover have "(of_char c :: nat) div 16 < 16" "(of_char c :: nat) mod 16 < 16" for c :: char
    using nat_of_char_less_256 [of c] by (simp_all add: less_mult_imp_div_less)
  ultimately have "list_all is_hex (hex_encode s)" for s by (induction s) simp_all
  then show "list_all is_hex demo_sha" by (simp add: demo_sha_def)
  show "length demo_sha = 64" by (simp add: demo_sha_def)
qed

lemma tour_ref_valid: "ref_validate (tour_ref k) = (if k = [] then Inl ErrIncompleteRef else Inr ())"
  using demo_sha_digits by (auto simp: ref_validate_def tour_ref_def)

lemma tour_load:
  "load (z_nodes tour_env) tour_bytes (tour_ref ''N'') = Some (tour_node tour_new)"
  "load (z_nodes tour_env) tour_bytes (tour_ref ''M'') = Some (tour_node tour_old)"
  by (simp_all add: load_def tour_ref_valid)
    (simp_all add: tour_ref_def tour_bytes_def tour_env_def equal_fold_def max_node_bytes_def decode_node_def tour_node_def
      tour_new_def tour_old_def fanout_def node_count_def tour_keys)

lemma tour_trees:
  "tree (z_nodes tour_env) valid_utf8 (\<lambda>_. True) tour_bytes 1 (tour_ref ''N'') [(tour_key ''1'', ''1''), (tour_key ''2'', ''2'')]"
  "tree (z_nodes tour_env) valid_utf8 (\<lambda>_. True) tour_bytes 1 (tour_ref ''M'') [(tour_key ''1'', ''3'')]"
  using tour_load tour_keys_valid
  by (simp_all add: holds_with_def tour_node_def tour_new_def tour_old_def entries_ok_def key_sorted_def)
    (simp_all add: tour_keys)

lemma tour_undisturbed: "undisturbed tour_bytes (z_env tour_env)"
  by (simp add: undisturbed_def tour_env_def sweep_env_fields)

lemma tour_stored: "stored tour_bytes tour_objects"
  by (simp add: stored_def tour_bytes_def tour_objects_def head_key_def)

lemma tour_reads: "reads_from tour_bytes (tour_reader c l [] r)"
  by (simp add: reads_from_def tour_reader_def unreplaced_def tour_bytes_def tour_objects_def head_key_def)

lemma tour_served: "served tour_bytes tour_env tour_snapshot"
  by (simp add: served_def tour_env_def sweep_env_fields sweep_env_def demo_env_calls demo_env_fields snapshot_lifetime_def minute_def
      tour_snapshot_def sweep_runtime_def)

subsection \<open>Its reads\<close>

lemma tour_fields:
  "z_env tour_env = sweep_env" "z_now tour_env = (\<lambda>_. 0)" "z_entries tour_env = tour_codec" "sn_started tour_snapshot = 0"
  "x_done sweep_env = (\<lambda>_. False)" "t_sha (x_run sweep_env) = (\<lambda>_. demo_sha)" "sn_etag tour_snapshot = ''S''"
  "hd_identity (sn_head tour_snapshot) = tour_ref ''N''" "hd_activity (sn_head tour_snapshot) = tour_ref ''N''"
  "hd_protocol (sn_head tour_snapshot) = 10"
  by (simp_all add: tour_env_def tour_snapshot_def sweep_env_def sweep_runtime_def demo_env_calls demo_head_def fresh_head_def)

lemma tour_context: "in_world (context_err (z_env tour_env)) p = (Inr (), p)"
  by (simp add: in_world_def context_err_def tour_fields)

lemma tour_fresh: "fresh_since tour_env 0 p = (Inr (), p\<lparr>rd_looks := Suc (rd_looks p)\<rparr>)"
  by (simp add: fresh_since_def andthen_def expired_since_def tour_fields snapshot_lifetime_def minute_def give_def)

lemma tour_check: "check_snapshot tour_env tour_snapshot p = (Inr (), p\<lparr>rd_looks := Suc (rd_looks p)\<rparr>)"
  by (simp add: check_snapshot_def andthen_def tour_context tour_fields(4) tour_fresh)

lemma tour_arrive: "arrive sweep_env w = w\<lparr>w_calls := Suc (w_calls w)\<rparr>"
  by (rule sweep_arrive)

lemma tour_fetch:
  assumes "k \<in> {''N'', ''M''}"
  shows "fetch tour_env (tour_ref k) (int max_node_bytes) (tour_reader calls looks cache r) =
    (Inr (k, None), tour_reader (Suc calls) looks cache r)"
proof -
  have k: "k \<noteq> []" "rkey (tour_ref k) = k" "rsha (tour_ref k) = demo_sha" "length k = 1" "tour_objects k = Some (k, demo_version)"
    using assms by (auto simp: tour_ref_def tour_objects_def head_key_def)
  have "get_version sweep_env k (int max_node_bytes) w = (Inr (k, demo_version), w\<lparr>w_calls := Suc (w_calls w)\<rparr>)"
    if "w_objects w = tour_objects" for w
    using that k by (simp add: get_version_def sweep_env_fields sweep_arrive longer_def max_node_bytes_def)
  then show ?thesis
    using k by (simp add: fetch_def fetch_ref_def tour_ref_valid tour_fields tour_reader_def longer_def max_node_bytes_def equal_fold_def)
qed

definition tour_cached :: "(objref \<times> bytes) list \<Rightarrow> bool" where
  "tour_cached cache \<longleftrightarrow> set cache \<subseteq> {(tour_ref ''N'', ''N''), (tour_ref ''M'', ''M'')}"

lemma tour_cached_Nil [simp]: "tour_cached []"
  by (simp add: tour_cached_def)

lemma tour_read:
  assumes "k = ''N'' \<and> vs = tour_new \<or> k = ''M'' \<and> vs = tour_old" "tour_cached cache"
  shows "\<exists>c l cache'. snapshot_node tour_env tour_snapshot (tour_ref k) (tour_reader calls looks cache r) =
      (Inr (tour_node vs), tour_reader c l cache' r) \<and> tour_cached cache'"
proof -
  have k: "k \<noteq> []" "k \<in> {''N'', ''M''}" "rkey (tour_ref k) = k" "equal_fold demo_sha (rsha (tour_ref k))"
    using assms(1) by (auto simp: tour_ref_def equal_fold_def)
  have cached: "\<exists>c. read_cached tour_env (tour_ref k) (tour_reader calls l cache r) =
      (Inr (k, None, False), tour_reader c l cache r)" for l
  proof (cases "map_of cache (tour_ref k)")
    case None
    then show ?thesis
      by (auto simp: read_cached_def andthen_def get_reader_def tour_reader_def work_limit_def give_def
          tour_fetch [OF k(2), unfolded tour_reader_def])
  next
    case (Some raw)
    then have "(tour_ref k, raw) \<in> set cache" by (rule map_of_SomeD)
    then have "raw = k" using assms(2) by (auto simp: tour_cached_def tour_ref_def)
    then show ?thesis
      using k(1,4) Some by (cases k) (auto simp: read_cached_def andthen_def get_reader_def tour_reader_def give_def tour_fields)
  qed
  have dec: "decode_node (z_nodes tour_env) k = Inr (tour_node vs)"
    using assms(1) by (auto simp: tour_env_def decode_node_def tour_node_def tour_new_def tour_old_def fanout_def node_count_def tour_keys)
  have looks: "(tour_reader c l ca r)\<lparr>rd_looks := l'\<rparr> = tour_reader c l' ca r" "rd_looks (tour_reader c l ca r) = l" for c l l' ca
    by (simp_all add: tour_reader_def)
  have work: "work_node (tour_reader c l ca r) = (Inr (), tour_reader c l ca r)" "work_bytes n (tour_reader c l ca r) = (Inr (), tour_reader c l ca r)"
    for c l ca n by (simp_all add: work_node_def work_bytes_def tour_reader_def)
  define cache' where "cache' = AList.update (tour_ref k) k (if length cache \<ge> 256 then [] else cache)"
  have "set (AList.update (tour_ref k) k c) \<subseteq> insert (tour_ref k, k) (set c)" for c by (induction c) (auto split: if_splits)
  then have ok: "tour_cached cache'" using assms(2) k(2) by (fastforce simp: cache'_def tour_cached_def split: if_splits)
  have put: "cache_node (tour_ref k) k (tour_reader c l cache r) = tour_reader c l cache' r" for c l
    by (simp add: cache_node_def tour_reader_def cache'_def)
  obtain c where "read_cached tour_env (tour_ref k) (tour_reader calls (Suc looks) cache r) =
      (Inr (k, None, False), tour_reader c (Suc looks) cache r)" using cached by blast
  then have "snapshot_node tour_env tour_snapshot (tour_ref k) (tour_reader calls looks cache r) =
      (Inr (tour_node vs), tour_reader c (Suc (Suc looks)) cache' r)"
    using k(1,3) dec
    by (simp add: snapshot_node_def tour_ref_valid andthen_def tour_context tour_fields(4) tour_fresh looks work tour_check update_reader_def
        put give_def)
  then show ?thesis using ok by blast
qed

text \<open>Later requests find the head unchanged.\<close>

lemma tour_head: "\<exists>h. observe_head tour_env (tour_reader calls looks cache r) = (Inr (h, ''S''), tour_reader (Suc calls) looks cache r)"
  using sweep_head
  by (auto simp: observe_head_def read_discovery_version_def tour_reader_def in_world_def get_version_def sweep_env_fields tour_fields
      sweep_arrive tour_objects_def longer_def head_limit_def) (simp add: demo_version_def)

lemma tour_request: "\<exists>c l. fresh_request tour_env tour_snapshot (tour_reader calls looks cache r) = (Inr (), tour_reader c l cache (r + 1))"
proof -
  have looks: "(tour_reader c l ca k)\<lparr>rd_looks := l'\<rparr> = tour_reader c l' ca k" "rd_looks (tour_reader c l ca k) = l"
      "(tour_reader c l ca k)\<lparr>rd_requests := k'\<rparr> = tour_reader c l ca k'" "rd_requests (tour_reader c l ca k) = k" for c l l' ca k k'
    by (simp_all add: tour_reader_def)
  obtain h where "observe_head tour_env (tour_reader calls (Suc (Suc looks)) cache (r + 1)) =
      (Inr (h, ''S''), tour_reader (Suc calls) (Suc (Suc looks)) cache (r + 1))" using tour_head by blast
  then show ?thesis
    by (auto simp: fresh_request_def validate_continuation_def andthen_def tour_check get_reader_def update_reader_def looks give_def tour_fields)
qed

subsection \<open>Its rows and walks\<close>

definition tour_row :: "bytes \<Rightarrow> selected" where
  "tour_row sid = \<lparr>se_key = tour_key sid, se_entry = tour_entry sid ''r'', se_resolved = None\<rparr>"

lemma tour_identity:
  "decode_identity_record tour_codec ''1'' (tour_key ''1'') = Inr \<lparr>id_revision = ''r'', id_entry = Some (tour_entry ''1'' ''r'')\<rparr>"
  "decode_identity_record tour_codec ''2'' (tour_key ''2'') = Inr \<lparr>id_revision = ''r'', id_entry = Some (tour_entry ''2'' ''r'')\<rparr>"
  "decode_identity_record tour_codec ''3'' (tour_key ''1'') = Inr \<lparr>id_revision = ''q'', id_entry = Some (tour_entry ''1'' ''q'')\<rparr>"
  "leaf_session_key (tour_entry ''1'' rv) = tour_key ''1''" "leaf_session_key (tour_entry ''2'' rv) = tour_key ''2''"
proof -
  have key: "leaf_session_key (tour_entry sid rv) = tour_key sid" if "sid \<in> {''1'', ''2''}" for sid rv
    using that by (auto simp: leaf_session_key_def metadata_object_key_def safe_object_component_def tour_entry_def tour_key_def in_range_def)
  then show "leaf_session_key (tour_entry ''1'' rv) = tour_key ''1''" "leaf_session_key (tour_entry ''2'' rv) = tour_key ''2''" by simp_all
  have ok: "validate_entry tour_codec (tour_entry sid rv) = Inr ()" "(tour_entry sid rv)\<lparr>en_picker := None\<rparr> = tour_entry sid rv" for sid rv
    using demo_sha_hex by (simp_all add: validate_entry_def tour_entry_def metadata_ref_ok_def)
  have ref: "ref_validate (en_metadata (tour_entry sid rv)) = Inr ()" "rkey (en_metadata (tour_entry sid rv)) \<noteq> []"
      "en_revision (tour_entry sid rv) = rv" "en_overflow (tour_entry sid rv) = []" for sid rv
    using demo_sha_digits by (auto simp: tour_entry_def ref_validate_def)
  have dec: "decode_entry tour_codec ''a'' = Inr (tour_entry ''1'' ''r'')" "decode_entry tour_codec ''b'' = Inr (tour_entry ''2'' ''r'')"
      "decode_entry tour_codec ''c'' = Inr (tour_entry ''1'' ''q'')"
    by (simp_all add: decode_entry_def tour_codec_def ok [unfolded tour_codec_def] ref)
  have ids: "k_identity_in tour_codec = [''1'' \<mapsto> (''r'', ''a''), ''2'' \<mapsto> (''r'', ''b''), ''3'' \<mapsto> (''q'', ''c'')]"
    by (simp add: tour_codec_def)
  show "decode_identity_record tour_codec ''1'' (tour_key ''1'') = Inr \<lparr>id_revision = ''r'', id_entry = Some (tour_entry ''1'' ''r'')\<rparr>"
    "decode_identity_record tour_codec ''2'' (tour_key ''2'') = Inr \<lparr>id_revision = ''r'', id_entry = Some (tour_entry ''2'' ''r'')\<rparr>"
    "decode_identity_record tour_codec ''3'' (tour_key ''1'') = Inr \<lparr>id_revision = ''q'', id_entry = Some (tour_entry ''1'' ''q'')\<rparr>"
    by (simp_all add: decode_identity_record_def decode_identity_def ids dec key ref)
qed

lemma tour_rows:
  "live_row tour_env tour_snapshot IdentityIndex (tour_key ''1'') ''1'' = Inr (Some (tour_row ''1''))"
  "live_row tour_env tour_snapshot IdentityIndex (tour_key ''2'') ''2'' = Inr (Some (tour_row ''2''))"
proof -
  have ref: "ref_validate (en_metadata (tour_entry sid rv)) = Inr ()" "rkey (en_metadata (tour_entry sid rv)) \<noteq> []"
      "en_revision (tour_entry sid rv) = rv" for sid rv
    using demo_sha_digits by (auto simp: tour_entry_def ref_validate_def)
  have ne: "tour_key sid \<noteq> []" for sid by (simp add: tour_key_def session_prefix_def)
  have valid: "validate_live_entry (sn_head tour_snapshot) e = Inr ()" for e
    by (simp add: validate_live_entry_def tour_fields guard_def)
  show "live_row tour_env tour_snapshot IdentityIndex (tour_key ''1'') ''1'' = Inr (Some (tour_row ''1''))"
    "live_row tour_env tour_snapshot IdentityIndex (tour_key ''2'') ''2'' = Inr (Some (tour_row ''2''))"
    by (simp_all add: live_row_def decode_row_def tour_fields(3) tour_identity ref ne valid tour_row_def Let_def)
qed

lemma tour_walk:
  assumes "tour_cached cache" "length (fst acc) \<le> limit"
  shows "\<exists>c l cache'. visit_range tour_env tour_snapshot q after limit max_depth (tour_ref ''N'') acc (tour_reader calls looks cache r) =
      (gather tour_env tour_snapshot q after limit acc (in_order q (entries_of tour_new)), tour_reader c l cache' r) \<and> tour_cached cache'"
proof -
  obtain c l cache' where n: "snapshot_node tour_env tour_snapshot (tour_ref ''N'') (tour_reader calls looks cache r) =
      (Inr (tour_node tour_new), tour_reader c l cache' r)" "tour_cached cache'"
    using tour_read [of "''N''" tour_new, OF _ assms(1)] by blast
  have "visit_range tour_env tour_snapshot q after limit (Suc d) (tour_ref ''N'') acc (tour_reader calls looks cache r) =
      (gather tour_env tour_snapshot q after limit acc (in_order q (entries_of tour_new)), tour_reader c l cache' r)" for d
    using n visit_leaves_gather [OF assms(2), of tour_env tour_snapshot q after "in_order q tour_new"] assms(2)
    by (simp add: andthen_def tour_node_def bounded_children_def in_order_entries give_def lift_sum_def)
  from this [of 63] n(2) show ?thesis by (auto simp: max_depth_def)
qed

lemma tour_collect:
  assumes "k = ''N'' \<and> vs = tour_new \<or> k = ''M'' \<and> vs = tour_old" "tour_cached cache"
  shows "\<exists>c l cache'. collect_delta tour_env tour_snapshot (Suc d) (tour_ref k) target (tour_reader calls looks cache r) =
      (collect_leaves tour_env target vs, tour_reader c l cache' r) \<and> tour_cached cache'"
proof -
  obtain c l cache' where n: "snapshot_node tour_env tour_snapshot (tour_ref k) (tour_reader calls looks cache r) =
      (Inr (tour_node vs), tour_reader c l cache' r)" "tour_cached cache'"
    using tour_read [OF assms] by blast
  then have "collect_delta tour_env tour_snapshot (Suc d) (tour_ref k) target (tour_reader calls looks cache r) =
      (collect_leaves tour_env target vs, tour_reader c l cache' r)"
    by (simp add: andthen_def tour_node_def give_def lift_sum_def)
  then show ?thesis using n(2) by blast
qed

lemma tour_diff:
  "\<exists>c l cache. diff_delta tour_env tour_snapshot max_depth (tour_ref ''M'') (tour_ref ''N'') ([], []) (tour_reader calls looks [] r) =
    (Inr ([(tour_key ''1'', tour_entry ''1'' ''q'')], [(tour_key ''1'', tour_entry ''1'' ''r''), (tour_key ''2'', tour_entry ''2'' ''r'')]),
     tour_reader c l cache r)"
proof -
  define d :: nat where "d = 63"
  then have depth: "max_depth = Suc d" by (simp add: max_depth_def)
  have leaves: "collect_leaves tour_env [] tour_old = Inr [(tour_key ''1'', tour_entry ''1'' ''q'')]"
      "collect_leaves tour_env [] tour_new = Inr [(tour_key ''1'', tour_entry ''1'' ''r''), (tour_key ''2'', tour_entry ''2'' ''r'')]"
    by (simp_all add: tour_old_def tour_new_def tour_fields(3) tour_identity)
      (simp_all add: tour_entry_def tour_keys)
  obtain c1 l1 k1 where 1: "snapshot_node tour_env tour_snapshot (tour_ref ''M'') (tour_reader calls looks [] r) =
      (Inr (tour_node tour_old), tour_reader c1 l1 k1 r)" "tour_cached k1"
    using tour_read [of "''M''" tour_old, OF _ tour_cached_Nil] by blast
  obtain c2 l2 k2 where 2: "snapshot_node tour_env tour_snapshot (tour_ref ''N'') (tour_reader c1 l1 k1 r) =
      (Inr (tour_node tour_new), tour_reader c2 l2 k2 r)" "tour_cached k2"
    using tour_read [of "''N''" tour_new, OF _ 1(2)] by blast
  obtain c3 l3 k3 where 3: "collect_delta tour_env tour_snapshot (Suc d) (tour_ref ''M'') [] (tour_reader c2 l2 k2 r) =
      (collect_leaves tour_env [] tour_old, tour_reader c3 l3 k3 r)" "tour_cached k3"
    using tour_collect [of "''M''" tour_old k2] 2(2) by blast
  obtain c4 l4 k4 where 4: "collect_delta tour_env tour_snapshot (Suc d) (tour_ref ''N'') [] (tour_reader c3 l3 k3 r) =
      (collect_leaves tour_env [] tour_new, tour_reader c4 l4 k4 r)"
    using tour_collect [of "''N''" tour_new k3] 3(2) by blast
  have "diff_delta tour_env tour_snapshot (Suc d) (tour_ref ''M'') (tour_ref ''N'') ([], []) (tour_reader calls looks [] r) =
    (Inr ([(tour_key ''1'', tour_entry ''1'' ''q'')], [(tour_key ''1'', tour_entry ''1'' ''r''), (tour_key ''2'', tour_entry ''2'' ''r'')]),
     tour_reader c4 l4 k4 r)"
    by (simp add: andthen_def 1(1) 2(1) 3(1) 4 leaves give_def tour_ref_def [of "''M''", THEN sym] del: collect_delta.simps)
      (simp add: tour_ref_def tour_node_def andthen_def 3(1) 4 leaves give_def del: collect_delta.simps)
  then show ?thesis unfolding depth by blast
qed

end
