(* ===== verification/SnapshotClaims.thy ===== *)
theory SnapshotClaims
  imports SnapshotDemo
begin

text \<open>
  Properties of snapshots: exact counts, pages that list a range without gaps or repetitions, and deltas
  that say how one set of identities becomes another.
\<close>

subsection \<open>Requests\<close>

lemma reads_discovery [reader_rules]:
  assumes "undisturbed m (z_env Z)"
  shows "keeps (reads_from m) (read_discovery_version Z key limit)"
proof -
  have charged: "keeps (reads_from m) (\<lambda>p. case in_world (get_version (z_env Z) key l) p of
      (r, p') \<Rightarrow> andthen (work_bytes (case r of Inl _ \<Rightarrow> 0 | Inr (raw, _) \<Rightarrow> length raw)) (\<lambda>_.
        case r of Inl e \<Rightarrow> raise (if is_err TooLarge e \<and> l < limit then PickerBudget else e) | Inr x \<Rightarrow> give x) p')" for l
    unfolding keeps_def
  proof (intro allI impI)
    fix p assume "reads_from m p"
    then have "reads_from m (snd (in_world (get_version (z_env Z) key l) p))"
      using reads_get_version [OF assms] by (auto simp: keeps_def)
    moreover have "keeps (reads_from m) (andthen (work_bytes (case r of Inl _ \<Rightarrow> 0 | Inr (raw, _) \<Rightarrow> length raw)) (\<lambda>_.
        case r of Inl e \<Rightarrow> raise (if is_err TooLarge e \<and> l < limit then PickerBudget else e) | Inr x \<Rightarrow> give x))"
      for r :: "cerr + bytes \<times> version"
      by (intro keeps_rules reader_rules)
    ultimately show "reads_from m (snd (case in_world (get_version (z_env Z) key l) p of
      (r, p') \<Rightarrow> andthen (work_bytes (case r of Inl _ \<Rightarrow> 0 | Inr (raw, _) \<Rightarrow> length raw)) (\<lambda>_.
        case r of Inl e \<Rightarrow> raise (if is_err TooLarge e \<and> l < limit then PickerBudget else e) | Inr x \<Rightarrow> give x) p'))"
      by (cases "in_world (get_version (z_env Z) key l) p") (simp add: keeps_def)
  qed
  have counted: "keeps (reads_from m) (update_reader (\<lambda>p. p\<lparr>rd_work := f p\<rparr>))" for f
    by (rule reads_update) simp_all
  have "keeps (reads_from m) (andthen (work_limit limit) (\<lambda>l.
            andthen (update_reader (\<lambda>p. p\<lparr>rd_work := map_option (count_observation key) (rd_work p)\<rparr>)) (\<lambda>_ p.
            case in_world (get_version (z_env Z) key l) p of
              (r, p') \<Rightarrow>
                andthen (work_bytes (case r of Inl _ \<Rightarrow> 0 | Inr (raw, _) \<Rightarrow> length raw)) (\<lambda>_.
                  case r of
                    Inl e \<Rightarrow> raise (if is_err TooLarge e \<and> l < limit then PickerBudget else e)
                  | Inr x \<Rightarrow> give x) p')))"
    by (intro keeps_andthen reads_work_limit counted charged)
  then show ?thesis
    using reads_get_version [OF assms, of key limit] unfolding keeps_def read_discovery_version_def by (auto split: option.split)
qed

lemma reads_coordinator [reader_rules]:
  assumes "undisturbed m (z_env Z)"
  shows "keeps (reads_from m) (observe_coordinator Z)"
  using reads_discovery [OF assms, of coordinator_key coordinator_limit]
  unfolding keeps_def observe_coordinator_def Let_def by (auto split: prod.split sum.split option.split)

lemma reads_head [reader_rules]:
  assumes "undisturbed m (z_env Z)"
  shows "keeps (reads_from m) (observe_head Z)"
proof -
  have "keeps (reads_from m) (andthen (observe_coordinator Z) (\<lambda>(s, _).
              if as_protocol s = 11 \<and> as_upgrade s = None then
                (if as_mode s \<noteq> Candidate \<or> as_seal s = [] then raise ScopedUnavailable
                 else give (fresh_head 5 11 (Some picker_format), [] :: bytes))
              else give (fresh_head 4 10 None, [])))"
    by (intro keeps_rules reader_rules assms)
  then show ?thesis
    using reads_discovery [OF assms, of head_key head_limit]
    unfolding keeps_def observe_head_def by (auto split: prod.split sum.split)
qed

lemma reads_fresh [reader_rules]: "undisturbed m (z_env Z) \<Longrightarrow> keeps (reads_from m) (fresh_request Z s)"
  unfolding fresh_request_def validate_continuation_def
  by (intro keeps_rules reader_rules reads_update | simp)+

subsection \<open>Pages\<close>

lemma query_page:
  assumes "undisturbed m (z_env Z)" "reads_from m p" "index_root s (q_index q0) = Inr root" "tree (z_nodes Z) K V m h root es"
    and "snapshot_query Z s q0 cursor n p = (Inr pg, p')"
  defines "q \<equiv> default_range q0"
  obtains after rows final where "reads_from m p'" "0 < n" "cursor_after Z s q root (nat n) cursor = Inr after"
    "gather Z s q after (nat n) ([], []) (in_order q es) = Inr (rows, final)" "pg_rows pg = take (nat n) rows"
    "if length rows > nat n then next_cursor Z s q root (nat n) final = Inr (pg_next pg) else pg_next pg = []"
proof -
  have i: "q_index q = q_index q0" by (auto simp: q_def default_range_def split: tree_index.split)
  obtain after rows final p1 p2 p3 where a: "0 < n" "fresh_request Z s p = (Inr (), p1)" "cursor_after Z s q root (nat n) cursor = Inr after"
    "visit_range Z s q after (nat n) max_depth root ([], []) p1 = (Inr (rows, final), p2)"
    "(if length rows > nat n then next_cursor Z s q root (nat n) final else Inr []) = Inr (pg_next pg)"
    "fresh_since Z (sn_started s) p2 = (Inr (), p3)" "in_world (context_err (z_env Z)) p3 = (Inr (), p')" "pg_rows pg = take (nat n) rows"
    using assms(3,5) i unfolding snapshot_query_def Let_def q_def [symmetric]
    by (auto simp: andthen_Inr split: if_splits)
  have p1: "reads_from m p1" by (rule keepsD [OF reads_fresh [OF assms(1)] assms(2) a(2)])
  then have "pinned False m Z s p1" using assms(1) by (simp add: pinned_def)
  moreover have "hoare (pinned False m Z s) (visit_range Z s q after (nat n) max_depth root ([], []))
    (\<lambda>x p. gather Z s q after (nat n) ([], []) (in_order q es) = Inr x \<and> pinned False m Z s p) (\<lambda>_. True)"
    by (rule pinned.visit_range_gather [OF assms(4)]) simp
  ultimately have g: "gather Z s q after (nat n) ([], []) (in_order q es) = Inr (rows, final)" "reads_from m p2"
    using a(4) by (auto simp: hoare_def pinned_def)
  have "reads_from m p'" using g(2) a(6,7) reads_fresh_since reads_context by (blast dest: keepsD)
  then show thesis using that a(1,3,5,8) g(1) by (auto split: if_splits)
qed

text \<open>Following the cursors to the page without one.\<close>

fun follows :: "reader_env \<Rightarrow> snapshot \<Rightarrow> query \<Rightarrow> int \<Rightarrow> bytes \<Rightarrow> reader \<Rightarrow> page list \<Rightarrow> bool" where
  "follows Z s q n cursor p [] = False"
| "follows Z s q n cursor p (pg # pgs) =
     (case snapshot_query Z s q cursor n p of
        (Inl _, _) \<Rightarrow> False
      | (Inr pg', p') \<Rightarrow> pg' = pg \<and> (if pg_next pg = [] then pgs = [] else follows Z s q n (pg_next pg) p' pgs))"

text \<open>Cursors survive their encoding as far as they are text (\<open>encoding/json\<close>, \<open>encoding/base64\<close>).\<close>

definition cursors_encoded :: "reader_env \<Rightarrow> bool" where
  "cursors_encoded Z \<longleftrightarrow> (\<forall>c raw. z_cursor Z c = Some raw \<longrightarrow> z_b64 Z raw \<noteq> [] \<and> z_b64_in Z (z_b64 Z raw) = Some raw \<and>
     (\<forall>c'. valid_utf8 (cu_after c) \<longrightarrow> z_cursor_in Z raw = Some c' \<longrightarrow> cu_after c' = cu_after c))"

lemma cursor_resumes:
  assumes "cursors_encoded Z" "next_cursor Z s q root limit final = Inr text" "valid_utf8 final"
  shows "text \<noteq> []" "cursor_after Z s q root limit text = Inr after \<Longrightarrow> after = final \<and> final \<noteq> []"
proof -
  obtain c raw where c: "z_cursor Z c = Some raw" "text = z_b64 Z raw" "cu_after c = final"
    using assms(2) by (auto simp: next_cursor_def Let_def split: option.splits)
  then have coded: "z_b64 Z raw \<noteq> []" "z_b64_in Z text = Some raw" "\<And>c'. z_cursor_in Z raw = Some c' \<Longrightarrow> cu_after c' = final"
    using assms(1,3) by (auto simp: cursors_encoded_def)
  show "text \<noteq> []" using coded(1) c(2) by simp
  assume "cursor_after Z s q root limit text = Inr after"
  then obtain prior where "z_cursor_in Z raw = Some prior" "after = cu_after prior" "cu_after prior \<noteq> []"
    using coded(2) \<open>text \<noteq> []\<close> unfolding cursor_after_def by (simp split: option.splits if_splits)
  then show "after = final \<and> final \<noteq> []" using coded(3) by simp
qed

lemma follows_rows:
  assumes "undisturbed m (z_env Z)" "index_root s (q_index q0) = Inr root" "tree (z_nodes Z) valid_utf8 V m h root es"
    and "cursors_encoded Z" "reads_from m p" "follows Z s q0 n cursor p pgs"
  defines "q \<equiv> default_range q0"
  shows "\<exists>after. cursor_after Z s q root (nat n) cursor = Inr after \<and>
    live_rows Z s (q_index q) (contained q after (in_order q es)) = Inr (concat (map pg_rows pgs)) \<and>
    (\<forall>pg\<in>set (butlast pgs). length (pg_rows pg) = nat n) \<and> length (pg_rows (last pgs)) \<le> nat n"
  using assms(5,6)
proof (induction pgs arbitrary: cursor p)
  case (Cons pg pgs)
  obtain p' where pg: "snapshot_query Z s q0 cursor n p = (Inr pg, p')"
    "if pg_next pg = [] then pgs = [] else follows Z s q0 n (pg_next pg) p' pgs"
    using Cons.prems(2) by (auto split: prod.splits sum.splits)
  let ?es = "in_order q es"
  from query_page [OF assms(1) Cons.prems(1) assms(2,3) pg(1)] obtain after rows final where r:
    "reads_from m p'" "0 < n" "cursor_after Z s q root (nat n) cursor = Inr after"
    "gather Z s q after (nat n) ([], []) ?es = Inr (rows, final)" "pg_rows pg = take (nat n) rows"
    "if length rows > nat n then next_cursor Z s q root (nat n) final = Inr (pg_next pg) else pg_next pg = []"
    unfolding q_def .
  show ?case
  proof (cases "length rows \<le> nat n")
    case True
    then have "pgs = []" using pg(2) r(6) by auto
    moreover have "live_rows Z s (q_index q) (contained q after ?es) = Inr rows"
      using gather_rows [OF r(4)] True by auto
    ultimately show ?thesis using True r(3,5) by auto
  next
    case False
    then have "nat n < length rows" by simp
    from gather_over [OF r(4) _ this] obtain a b where ab: "?es = a @ b" "gather Z s q after (nat n) ([], []) a = Inr (take (nat n) rows, final)"
      "a = [] \<or> fst (last a) = final \<and> range_contains q after final" "length rows = Suc (nat n)"
      by (metis fst_conv le0 list.size(3))
    have a: "a \<noteq> []" using ab(2,4) r(2) by auto
    then have fin: "fst (last a) = final" "range_contains q after final" using ab(3) by auto
    have "last a \<in> set es" using a ab(1) by (metis UnI1 last_in_set set_append set_in_order)
    then have "valid_utf8 final" using tree_entries_ok [OF assms(3)] fin(1) by (auto simp: entries_ok_def)
    note resumes = cursor_resumes [OF assms(4) _ this, of s q root "nat n" "pg_next pg"]
    have next_page: "next_cursor Z s q root (nat n) final = Inr (pg_next pg)" using r(6) False by simp
    then have "follows Z s q0 n (pg_next pg) p' pgs" using pg(2) resumes(1) by simp
    from Cons.IH [OF r(1) this] obtain after' where ih: "cursor_after Z s q root (nat n) (pg_next pg) = Inr after'"
      "live_rows Z s (q_index q) (contained q after' ?es) = Inr (concat (map pg_rows pgs))"
      "\<forall>pg\<in>set (butlast pgs). length (pg_rows pg) = nat n" "length (pg_rows (last pgs)) \<le> nat n" by blast
    have "after' = final" "final \<noteq> []" using resumes(2) [OF next_page ih(1)] by auto
    moreover have "sorted_wrt (\<lambda>x y. beyond q (fst x) (fst y)) (a @ b)"
      using sorted_in_order [of es q] tree_entries_ok [OF assms(3)] ab(1) by (simp add: entries_ok_def)
    ultimately have "contained q after' ?es = contained q after b"
      using contained_after [of q a b after] a fin ab(1) by simp
    moreover have "live_rows Z s (q_index q) (contained q after a) = Inr (pg_rows pg)"
      using gather_rows [OF ab(2)] r(5) by auto
    ultimately have "live_rows Z s (q_index q) (contained q after ?es) = Inr (concat (map pg_rows (pg # pgs)))"
      using ih(2) ab(1) by (simp add: live_rows_append)
    moreover have "pgs \<noteq> []" using \<open>follows Z s q0 n (pg_next pg) p' pgs\<close> by auto
    ultimately show ?thesis using ih(3,4) r(3,5) ab(4) by auto
  qed
qed simp

subsection \<open>Properties\<close>

text \<open>
  Claim C20. However the calls go, a count that is answered is the number of entries of the index in the
  range; and it is answered when the provider answers and the snapshot has not expired.
\<close>

theorem snapshot_count_exact:
  assumes "undisturbed m (z_env Z)" "reads_from m p" "index_root s (q_index q) = Inr root"
    and "tree (z_nodes Z) K V m h root es" "length es \<le> max_uint64"
  defines "n \<equiv> length (range_entries (default_range q) es)"
  shows "(\<forall>k p'. snapshot_count Z s q p = (Inr k, p') \<longrightarrow> k = n) \<and>
    (served m Z s \<and> stored m (w_objects (rd_world p)) \<and> rd_work p = None \<and> h \<le> max_depth \<and> q_index q \<noteq> IdentityIndex \<longrightarrow>
      (\<exists>p'. snapshot_count Z s q p = (Inr n, p')))"
proof -
  let ?q = "default_range q"
  have i: "q_index ?q = q_index q" by (auto simp: default_range_def split: tree_index.split)
  have reads: "hoare (pinned t m Z s) (andthen (check_snapshot Z s) (\<lambda>_.
        andthen (count_visit Z s ?q max_depth root [] []) (\<lambda>n. andthen (check_snapshot Z s) (\<lambda>_. give n))))
      (\<lambda>k _. k = n) (\<lambda>_. \<not> t)" if t: "t \<longrightarrow> h \<le> max_depth" for t
  proof -
    have last: "hoare (\<lambda>p. k = n \<and> pinned t m Z s p) (andthen (check_snapshot Z s) (\<lambda>_. give k)) (\<lambda>k _. k = n) (\<lambda>_. \<not> t)" for k
      by (rule hoare_fact [where Q = "\<lambda>x _. x = k"]) (auto intro!: hoare_andthen [OF pinned_check] hoare_give)
    have count: "hoare (pinned t m Z s) (count_visit Z s ?q max_depth root [] []) (\<lambda>k p. k = n \<and> pinned t m Z s p) (\<lambda>_. \<not> t)"
      unfolding n_def by (rule pinned.count_visit_exact [OF assms(4,5) t]) simp_all
    show ?thesis by (intro hoare_andthen [OF pinned_check] hoare_andthen [OF count last])
  qed
  let ?body = "andthen (check_snapshot Z s) (\<lambda>_.
        andthen (count_visit Z s ?q max_depth root [] []) (\<lambda>n. andthen (check_snapshot Z s) (\<lambda>_. give n)))"
  have whole: "snapshot_count Z s q p = (if q_index q = IdentityIndex then raise Refused p else ?body p)"
    using assms(3) i by (simp add: snapshot_count_def Let_def andthen_def [of "lift_sum _"] lift_sum_def)
  obtain r p' where body: "?body p = (r, p')" by fastforce
  have partial: "k = n" if "snapshot_count Z s q p = (Inr k, p'')" for k p''
  proof -
    have "r = Inr k" using that whole body by (auto simp: raise_def split: if_splits)
    moreover have "pinned False m Z s p" using assms(1,2) by (simp add: pinned_def)
    ultimately show ?thesis using reads [of False] body by (force simp: hoare_def)
  qed
  have served: "\<exists>p'. snapshot_count Z s q p = (Inr n, p')"
    if t: "served m Z s \<and> stored m (w_objects (rd_world p)) \<and> rd_work p = None \<and> h \<le> max_depth \<and> q_index q \<noteq> IdentityIndex"
  proof -
    have "pinned True m Z s p" using assms(1,2) t by (simp add: pinned_def)
    then have "r = Inr n" using reads [of True] t body by (cases r) (force simp: hoare_def)+
    then show ?thesis using whole body t by simp
  qed
  show ?thesis using partial served by blast
qed

lemma tour_range: "default_range (tour_query i) = tour_query i" "q_index (tour_query i) = i"
    "range_entries (tour_query i) [(tour_key ''1'', ''1''), (tour_key ''2'', ''2'')] = [(tour_key ''1'', ''1''), (tour_key ''2'', ''2'')]"
  by (simp_all add: default_range_def tour_query_def range_entries_def leaf_in_range_def tour_keys)

theorem snapshot_count_exact_witness:
  "\<exists>p'. snapshot_count tour_env tour_snapshot (tour_query ActivityIndex) (tour_reader 0 0 [] 0) = (Inr 2, p')"
proof -
  have "index_root tour_snapshot (q_index (tour_query ActivityIndex)) = Inr (tour_ref ''N'')"
    by (simp add: tour_range index_root_def tour_fields)
  moreover have "length [(tour_key ''1'', ''1''), (tour_key ''2'', ''2'')] \<le> max_uint64" by (simp add: max_uint64_def)
  ultimately show ?thesis
    using snapshot_count_exact [OF tour_undisturbed tour_reads _ tour_trees(1), of tour_snapshot "tour_query ActivityIndex" 0 0 0] tour_served tour_stored
    by (simp add: tour_range numeral_2_eq_2) (simp add: tour_reader_def max_depth_def)
qed

text \<open>
  Claim C19. Reading a range page by page, each with the cursor of the page before, gives the live rows
  of the range in order, each once: every page but the last is full.
\<close>

theorem pages_list_range:
  assumes "undisturbed m (z_env Z)" "index_root s (q_index q) = Inr root" "tree (z_nodes Z) valid_utf8 V m h root es"
    and "cursors_encoded Z" "reads_from m p" "follows Z s q n [] p pgs"
  shows "live_rows Z s (q_index q) (in_order q (range_entries (default_range q) es)) = Inr (concat (map pg_rows pgs)) \<and>
    (\<forall>pg\<in>set (butlast pgs). length (pg_rows pg) = nat n) \<and> length (pg_rows (last pgs)) \<le> nat n"
proof -
  have i: "q_index (default_range q) = q_index q" "q_reverse (default_range q) = q_reverse q"
    by (auto simp: default_range_def split: tree_index.split)
  then have "contained (default_range q) [] (in_order (default_range q) es) = in_order q (range_entries (default_range q) es)"
    by (simp add: in_order_def range_entries_def range_contains_beyond rev_filter)
  with follows_rows [OF assms] show ?thesis by (auto simp: cursor_after_def i)
qed

lemma tour_codes: "cursors_encoded tour_env"
  by (simp add: cursors_encoded_def tour_env_def tour_cursor_def)

lemma tour_gather:
  "gather tour_env tour_snapshot (tour_query IdentityIndex) [] (Suc 0) ([], []) (in_order (tour_query IdentityIndex) (entries_of tour_new)) =
    Inr ([tour_row ''2'', tour_row ''1''], tour_key ''2'')"
  "gather tour_env tour_snapshot (tour_query IdentityIndex) (tour_key ''2'') (Suc 0) ([], []) (in_order (tour_query IdentityIndex) (entries_of tour_new)) =
    Inr ([tour_row ''1''], tour_key ''1'')"
proof -
  have es: "in_order (tour_query IdentityIndex) (entries_of tour_new) = [(tour_key ''2'', ''2''), (tour_key ''1'', ''1'')]"
    by (simp add: in_order_def tour_query_def tour_new_def)
  have c: "range_contains (tour_query IdentityIndex) [] (tour_key ''1'')" "range_contains (tour_query IdentityIndex) [] (tour_key ''2'')"
      "range_contains (tour_query IdentityIndex) (tour_key ''2'') (tour_key ''1'')" "\<not> range_contains (tour_query IdentityIndex) (tour_key ''2'') (tour_key ''2'')"
    by (simp_all add: range_contains_def tour_query_def tour_keys)
  show "gather tour_env tour_snapshot (tour_query IdentityIndex) [] (Suc 0) ([], []) (in_order (tour_query IdentityIndex) (entries_of tour_new)) =
      Inr ([tour_row ''2'', tour_row ''1''], tour_key ''2'')"
    "gather tour_env tour_snapshot (tour_query IdentityIndex) (tour_key ''2'') (Suc 0) ([], []) (in_order (tour_query IdentityIndex) (entries_of tour_new)) =
      Inr ([tour_row ''1''], tour_key ''1'')"
    unfolding es by (simp_all add: c tour_rows tour_range)
qed

lemma tour_page:
  assumes "tour_cached cache" "cursor_after tour_env tour_snapshot (tour_query IdentityIndex) (tour_ref ''N'') (Suc 0) cursor = Inr after"
    and "gather tour_env tour_snapshot (tour_query IdentityIndex) after (Suc 0) ([], []) (in_order (tour_query IdentityIndex) (entries_of tour_new)) =
      Inr (rows, final)"
    and "if length rows > Suc 0 then next_cursor tour_env tour_snapshot (tour_query IdentityIndex) (tour_ref ''N'') (Suc 0) final = Inr follow else follow = []"
  shows "\<exists>c l cache'. snapshot_query tour_env tour_snapshot (tour_query IdentityIndex) cursor 1 (tour_reader calls looks cache r) =
    (Inr \<lparr>pg_rows = take (Suc 0) rows, pg_next = follow\<rparr>, tour_reader c l cache' (r + 1)) \<and> tour_cached cache'"
proof -
  have looks: "(tour_reader c l ca r)\<lparr>rd_looks := l'\<rparr> = tour_reader c l' ca r" "rd_looks (tour_reader c l ca r) = l" for c l l' ca r
    by (simp_all add: tour_reader_def)
  obtain c1 l1 where 1: "fresh_request tour_env tour_snapshot (tour_reader calls looks cache r) = (Inr (), tour_reader c1 l1 cache (r + 1))"
    using tour_request by blast
  obtain c2 l2 cache' where 2: "visit_range tour_env tour_snapshot (tour_query IdentityIndex) after (Suc 0) max_depth (tour_ref ''N'') ([], [])
      (tour_reader c1 l1 cache (r + 1)) = (Inr (rows, final), tour_reader c2 l2 cache' (r + 1))" "tour_cached cache'"
    using tour_walk [OF assms(1), of "([], [])" "Suc 0" "tour_query IdentityIndex" after c1 l1 "r + 1"] assms(3) by auto
  have q: "\<not> (q_upper (tour_query IdentityIndex) \<noteq> [] \<and> q_lower (tour_query IdentityIndex) > q_upper (tour_query IdentityIndex))"
    by (simp add: tour_query_def)
  have "snapshot_query tour_env tour_snapshot (tour_query IdentityIndex) cursor 1 (tour_reader calls looks cache r) =
    (Inr \<lparr>pg_rows = take (Suc 0) rows, pg_next = follow\<rparr>, tour_reader c2 (Suc l2) cache' (r + 1))"
    using assms(2,4) q
    by (simp add: snapshot_query_def Let_def tour_range index_root_def tour_fields(8) andthen_def [of "lift_sum _"] lift_sum_def)
      (simp add: andthen_def 1 2(1) lift_sum_def give_def tour_fields(4) tour_fresh looks tour_context split: if_splits)
  then show ?thesis using 2(2) by blast
qed

theorem pages_list_range_witness:
  "\<exists>pgs. follows tour_env tour_snapshot (tour_query IdentityIndex) 1 [] (tour_reader 0 0 [] 0) pgs \<and> length pgs = 2 \<and>
    live_rows tour_env tour_snapshot IdentityIndex [(tour_key ''2'', ''2''), (tour_key ''1'', ''1'')] = Inr (concat (map pg_rows pgs))"
proof -
  let ?q = "tour_query IdentityIndex" and ?next = "CHR ''k'' # tour_key ''2''"
  have next_page: "next_cursor tour_env tour_snapshot ?q (tour_ref ''N'') (Suc 0) (tour_key ''2'') = Inr ?next"
    by (simp add: next_cursor_def tour_env_def)
  have after: "cursor_after tour_env tour_snapshot ?q (tour_ref ''N'') (Suc 0) ?next = Inr (tour_key ''2'')"
    by (simp add: cursor_after_def tour_env_def tour_cursor_def valid_cursor_def cursor_seal_def longer_def tour_snapshot_def tour_keys)
  obtain c l cache where one: "snapshot_query tour_env tour_snapshot ?q [] 1 (tour_reader 0 0 [] 0) =
      (Inr \<lparr>pg_rows = [tour_row ''2''], pg_next = ?next\<rparr>, tour_reader c l cache 1)" "tour_cached cache"
    using tour_page [OF tour_cached_Nil _ tour_gather(1), of "[]" ?next 0 0 0] next_page by (auto simp: cursor_after_def)
  obtain p where two: "snapshot_query tour_env tour_snapshot ?q ?next 1 (tour_reader c l cache 1) =
      (Inr \<lparr>pg_rows = [tour_row ''1''], pg_next = []\<rparr>, p)"
    using tour_page [OF one(2) after tour_gather(2), of "[]" c l 1] by auto
  let ?pgs = "[\<lparr>pg_rows = [tour_row ''2''], pg_next = ?next\<rparr>, \<lparr>pg_rows = [tour_row ''1''], pg_next = []\<rparr>]"
  have f: "follows tour_env tour_snapshot ?q 1 [] (tour_reader 0 0 [] 0) ?pgs" by (simp add: one(1) two)
  have root: "index_root tour_snapshot (q_index ?q) = Inr (tour_ref ''N'')" by (simp add: tour_range index_root_def tour_fields)
  have es: "in_order ?q [(tour_key ''1'', ''1''), (tour_key ''2'', ''2'')] = [(tour_key ''2'', ''2''), (tour_key ''1'', ''1'')]"
    by (simp add: in_order_def tour_query_def)
  have "live_rows tour_env tour_snapshot IdentityIndex [(tour_key ''2'', ''2''), (tour_key ''1'', ''1'')] = Inr (concat (map pg_rows ?pgs))"
    using pages_list_range [OF tour_undisturbed root tour_trees(1) tour_codes tour_reads f] by (simp only: tour_range es)
  then show ?thesis using f by (intro exI [of _ ?pgs]) simp
qed

text \<open>
  Claim C18. A delta turns the sessions of the prior root into those of the snapshot: it has exactly the
  sessions that are new or changed, and removes exactly those that are gone. When the prior root is none
  or cannot be found any more, it says so and has every session.
\<close>

theorem delta_reconciles:
  assumes "undisturbed m (z_env Z)" "reads_from m p" "tree (z_nodes Z) K V m h (hd_identity (sn_head s)) es"
    and "snapshot_delta Z s prior p = (Inr d, p')"
  shows "let changed = (\<lambda>r. (se_key r, se_entry r)) ` set (dl_changed d) in
    if dl_rebuild d then changed = {(k, e). live_identity Z es k = Some e} \<and> dl_removed d = []
    else (\<forall>g old. tree (z_nodes Z) K V m g prior old \<longrightarrow>
      changed = {(k, e). live_identity Z es k = Some e \<and> (\<forall>e'. live_identity Z old k = Some e' \<longrightarrow> \<not> same_projection e' e)} \<and>
      set (dl_removed d) = {k. live_identity Z old k \<noteq> None \<and> live_identity Z es k = None})"
proof -
  let ?next = "hd_identity (sn_head s)"
  have keys: "distinct (map fst xs)" if "tree (z_nodes Z) K V m g r xs" for g r xs
    using tree_entries_ok [OF that] by (simp add: entries_ok_def key_sorted_def strict_sorted_iff)
  have rebuilt: "differs Z ([], []) [] es ([], fresh)"
    if "collect_delta Z s max_depth ?next [] q = (Inr fresh, q')" "reads_from m q" for fresh q q'
  proof -
    have "hoare (pinned False m Z s) (collect_delta Z s max_depth ?next []) (\<lambda>x p. collect_entries Z [] es = Inr x \<and> pinned False m Z s p) (\<lambda>_. True)"
      by (rule pinned.collect_delta_entries [OF assms(3)])
    then have "collect_entries Z [] es = Inr fresh" using that assms(1) by (auto simp: hoare_def pinned_def)
    then show ?thesis by (intro differs_all) simp_all
  qed
  have diffed: "differs Z ([], []) old es t"
    if "diff_delta Z s max_depth prior ?next ([], []) q = (Inr t, q')" "reads_from m q" "tree (z_nodes Z) K V m g prior old" for old t q q' g
  proof -
    have "hoare (pinned False m Z s) (diff_delta Z s max_depth prior ?next ([], [])) (\<lambda>y p. differs Z ([], []) old es y \<and> pinned False m Z s p) (\<lambda>_. True)"
      by (rule pinned.diff_delta_entries [OF that(3) assms(3)])
    then show ?thesis using that(1,2) assms(1) by (auto simp: hoare_def pinned_def)
  qed
  obtain p1 where p1: "check_snapshot Z s p = (Inr (), p1)"
    using assms(4) by (auto simp: snapshot_delta_def Let_def andthen_Inr)
  have r1: "reads_from m p1" by (rule keepsD [OF reads_check assms(2) p1])
  have "\<exists>rebuild t. d = delta_of prior ?next rebuild t \<and>
      (if rebuild then fst t = [] \<and> differs Z ([], []) [] es t
       else (\<forall>g old. tree (z_nodes Z) K V m g prior old \<longrightarrow> differs Z ([], []) old es t))"
  proof (cases "prior = ?next \<and> rkey prior \<noteq> []")
    case True
    then have "d = delta_of prior ?next False ([], [])"
      using assms(4) p1 by (auto simp: snapshot_delta_def Let_def andthen_def give_def)
    moreover have "differs Z ([], []) old es ([], [])" if "tree (z_nodes Z) K V m g prior old" for g old
      using tree_unique [OF that] assms(3) True differs_same by blast
    ultimately show ?thesis by (intro exI [of _ False] exI [of _ "([], [])"]) simp
  next
    case ne: False
    show ?thesis
    proof (cases "rkey prior = []")
      case True
      then obtain fresh q where "collect_delta Z s max_depth ?next [] p1 = (Inr fresh, q)" "d = delta_of prior ?next True ([], fresh)"
        using assms(4) p1 ne by (auto simp: snapshot_delta_def Let_def andthen_Inr)
      then show ?thesis using rebuilt r1 by (intro exI [of _ True] exI [of _ "([], fresh)"]) auto
    next
      case False
      obtain r q where diff: "diff_delta Z s max_depth prior ?next ([], []) p1 = (r, q)" by fastforce
      show ?thesis
      proof (cases r)
        case (Inr t)
        then have "d = delta_of prior ?next False t"
          using assms(4) p1 ne False diff by (auto simp: snapshot_delta_def Let_def andthen_def give_def split: prod.splits sum.splits)
        then show ?thesis using diffed diff Inr r1 by (intro exI [of _ False] exI [of _ t]) auto
      next
        case (Inl e)
        then obtain fresh q' where "collect_delta Z s max_depth ?next [] q = (Inr fresh, q')" "d = delta_of prior ?next True ([], fresh)"
          using assms(4) p1 ne False diff by (auto simp: snapshot_delta_def Let_def andthen_Inr split: if_splits)
        moreover have "reads_from m q" by (rule keepsD [OF reads_diff [OF assms(1)] r1 diff])
        ultimately show ?thesis using rebuilt by (intro exI [of _ True] exI [of _ "([], fresh)"]) auto
      qed
    qed
  qed
  then obtain rebuild t where d: "d = delta_of prior ?next rebuild t"
      "if rebuild then fst t = [] \<and> differs Z ([], []) [] es t
       else (\<forall>g old. tree (z_nodes Z) K V m g prior old \<longrightarrow> differs Z ([], []) old es t)" by blast
  have rb: "dl_rebuild d = rebuild" by (cases t) (simp add: d(1) delta_of_def)
  show ?thesis
  proof (cases rebuild)
    case True
    then have t: "differs Z ([], []) [] es t" "fst t = []" using d(2) by auto
    have "dl_removed d = []" using t(2) by (cases t) (simp add: d(1) delta_of_def)
    then show ?thesis using delta_of_tables(1) [OF t(1) _ keys [OF assms(3)]] True rb by (simp add: d(1))
  next
    case False
    then show ?thesis using d rb delta_of_tables keys assms(3) by (auto simp: Let_def)
  qed
qed

theorem delta_reconciles_witness:
  "\<exists>d p'. snapshot_delta tour_env tour_snapshot (tour_ref ''M'') (tour_reader 0 0 [] 0) = (Inr d, p') \<and> \<not> dl_rebuild d \<and>
    (tour_key ''2'', tour_entry ''2'' ''r'') \<in> (\<lambda>r. (se_key r, se_entry r)) ` set (dl_changed d) \<and> dl_removed d = []"
proof -
  let ?old = "[(tour_key ''1'', ''3'')]" and ?new = "[(tour_key ''1'', ''1''), (tour_key ''2'', ''2'')]"
  let ?t = "([(tour_key ''1'', tour_entry ''1'' ''q'')], [(tour_key ''1'', tour_entry ''1'' ''r''), (tour_key ''2'', tour_entry ''2'' ''r'')])"
  have looks: "(tour_reader c l ca r)\<lparr>rd_looks := l'\<rparr> = tour_reader c l' ca r" "rd_looks (tour_reader c l ca r) = l" for c l l' ca r
    by (simp_all add: tour_reader_def)
  obtain c l cache where diff: "diff_delta tour_env tour_snapshot max_depth (tour_ref ''M'') (tour_ref ''N'') ([], []) (tour_reader 0 1 [] 0) =
    (Inr ?t, tour_reader c l cache 0)" using tour_diff by blast
  define d where "d = delta_of (tour_ref ''M'') (tour_ref ''N'') False ?t"
  have refs: "tour_ref ''M'' \<noteq> tour_ref ''N''" "rkey (tour_ref ''M'') \<noteq> []" by (simp_all add: tour_ref_def)
  have run: "snapshot_delta tour_env tour_snapshot (tour_ref ''M'') (tour_reader 0 0 [] 0) = (Inr d, tour_reader c (Suc l) cache 0)"
    using refs diff by (simp add: snapshot_delta_def Let_def andthen_def tour_check tour_fields(8) looks give_def d_def)
  have tree: "tree (z_nodes tour_env) valid_utf8 (\<lambda>_. True) tour_bytes 1 (hd_identity (sn_head tour_snapshot)) ?new"
    using tour_trees(1) by (simp only: tour_fields(8))
  have keys: "tour_key ''1'' \<noteq> tour_key ''2''" by (simp add: tour_keys)
  have live: "live_identity tour_env ?new (tour_key ''2'') = Some (tour_entry ''2'' ''r'')" "live_identity tour_env ?old (tour_key ''2'') = None"
      "{k. live_identity tour_env ?old k \<noteq> None \<and> live_identity tour_env ?new k = None} = {}"
    using keys by (auto simp: live_identity_def tour_fields(3) tour_identity)
  have kind: "\<not> dl_rebuild d" by (simp add: d_def delta_of_def)
  note exact = delta_reconciles [OF tour_undisturbed tour_reads tree run, unfolded Let_def if_not_P [OF kind]]
  note sets = mp [OF spec [OF spec [OF exact]] tour_trees(2), unfolded live(3)]
  then have "(tour_key ''2'', tour_entry ''2'' ''r'') \<in> (\<lambda>r. (se_key r, se_entry r)) ` set (dl_changed d)" using live(1,2) by simp
  moreover have "dl_removed d = []" using sets by simp
  ultimately show ?thesis using run kind by blast
qed

end
