(* ===== verification/GcMark.thy ===== *)
theory GcMark
  imports CatalogRecovery CatalogEntry Publication Snapshot
begin

text \<open>
  A collection (\<open>internal/catalog/gc.go\<close>): the marking of everything that the leased head and the heads it
  retains refer to, and \<open>Collect\<close> as a whole. The maps \<open>live\<close> and \<open>visited\<close> are lists of keys.
\<close>

subsection \<open>State\<close>

text \<open>
  \<open>gc_fields\<close> gives the names of the fields of a JSON object, \<open>gc_stat\<close> the size and the recorded SHA-256 of an
  object, when the store can tell them.
\<close>

record gc_env =
  gc_x :: environment
  gc_codec :: entry_codec
  gc_fields :: "bytes \<Rightarrow> bytes list option"
  gc_nodes :: cenv
  gc_stat :: "(nat \<Rightarrow> objects \<Rightarrow> bytes \<Rightarrow> cerr + (int \<times> bytes)) option"

type_synonym marks = "bytes list \<times> bytes list"

text \<open>
  What is passed as the writer barrier. An \<open>OtherBarrier\<close> answers its inventory and whether it handed back a
  release function, whose effect comes second.
\<close>

datatype barrier = NoBarrier | CompletedBarrier | RecoveryBarrier | HeldBarrier bytes bool
  | OtherBarrier "(objref list \<times> bool) act" "world \<Rightarrow> world"

subsection \<open>Verifying an entry\<close>

definition gc_node :: "gc_env \<Rightarrow> objref \<Rightarrow> node act" where
  "gc_node G ref =
     (case ref_validate ref of
        Inl _ \<Rightarrow> raise Refused
      | Inr _ \<Rightarrow>
          if rkey ref = [] then give empty_node
          else andthen (read_object (gc_x G) ref (int max_node_bytes)) (\<lambda>raw.
            case decode_node (gc_nodes G) raw of Inl _ \<Rightarrow> raise Refused | Inr n \<Rightarrow> give n))"

definition stat_object :: "environment \<Rightarrow> (nat \<Rightarrow> objects \<Rightarrow> bytes \<Rightarrow> cerr + (int \<times> bytes)) \<Rightarrow> bytes \<Rightarrow> (int \<times> bytes) act" where
  "stat_object X stat key w =
     (let w' = arrive X w in
      (case x_fault X (w_calls w) of
         Answered \<Rightarrow> stat (w_calls w) (w_objects w') key
       | Unanswered e \<Rightarrow> Inl e
       | AppliedUnanswered e \<Rightarrow> Inl e, w'))"

definition source_ref_object :: "source_ref \<Rightarrow> objref" where
  "source_ref_object r = \<lparr>rkey = sr_key r, rsha = sr_sha r\<rparr>"

text \<open>A recorded digest spares reading the source.\<close>

definition verify_source :: "gc_env \<Rightarrow> source_ref \<Rightarrow> unit act" where
  "verify_source G r =
     (let read = andthen (read_object (gc_x G) (source_ref_object r) (sr_bytes r)) (\<lambda>raw.
            if int (length raw) \<noteq> sr_bytes r then raise ChecksumMismatch else give ()) in
      case gc_stat G of
        None \<Rightarrow> read
      | Some stat \<Rightarrow>
          andthen (stat_object (gc_x G) stat (sr_key r)) (\<lambda>(size, sha).
            if size \<noteq> sr_bytes r then raise ChecksumMismatch
            else if sha \<noteq> [] then (if sha \<noteq> sr_sha r then raise ChecksumMismatch else give ())
            else read))"

fun verify_sources :: "gc_env \<Rightarrow> source_ref list \<Rightarrow> unit act" where
  "verify_sources G [] = give ()"
| "verify_sources G (r # rs) = andthen (verify_source G r) (\<lambda>_. verify_sources G rs)"

text \<open>\<open>verifyEntry\<close> completes the entry with the full summary of its body.\<close>

definition verify_entry :: "gc_env \<Rightarrow> bytes \<Rightarrow> entry \<Rightarrow> entry act" where
  "verify_entry G key e =
     (let K = gc_codec G in
      andthen (lift_sum (validate_entry K e)) (\<lambda>_.
      andthen (read_object (gc_x G) (en_metadata e) 33554432) (\<lambda>raw.
      andthen (lift_sum (decode_entry_body K e raw)) (\<lambda>body.
      if metadata_object_key (md_harness body) (md_session body) \<noteq> Inr key then raise Refused
      else
        andthen (lift_sum (canonical_source_references (metadata.truncate body))) (\<lambda>refs.
        andthen (verify_sources G refs) (\<lambda>_. give (e\<lparr>en_summary := body, en_overflow := []\<rparr>)))))))"

subsection \<open>Marking\<close>

text \<open>The entry a leaf carries: in its record, or itself in the ordered indexes; a receipt carries none.\<close>

definition leaf_entry :: "gc_env \<Rightarrow> item \<Rightarrow> cerr + entry option" where
  "leaf_entry G v =
     (let K = gc_codec G in
      sbind (if picker_tree_key (ikey v) then sbind (decode_picker_row K (ikey v) (ival v)) (\<lambda>_. Inr ()) else Inr ()) (\<lambda>_.
      sbind (decode_identity K (ival v)) (\<lambda>r.
      case id_entry r of
        Some e \<Rightarrow> Inr (Some e)
      | None \<Rightarrow>
          (case gc_fields G (ival v) of
             None \<Rightarrow> Inl Refused
           | Some names \<Rightarrow>
               if ''Metadata'' \<in> set names then sbind (decode_entry K (ival v)) (\<lambda>e. Inr (Some e)) else Inr None))))"

definition mark_leaf :: "gc_env \<Rightarrow> bool \<Rightarrow> item \<Rightarrow> bytes list \<Rightarrow> bytes list act" where
  "mark_leaf G scoped v live =
     andthen (lift_sum (leaf_entry G v)) (\<lambda>found.
     case found of
       None \<Rightarrow> give live
     | Some e \<Rightarrow>
         if scoped \<and> en_picker e = None then raise Refused
         else
           andthen (verify_entry G (leaf_session_key e) e) (\<lambda>full.
           case source_references (metadata.truncate (en_summary full)) of
             Inl _ \<Rightarrow> raise Refused
           | Inr refs \<Rightarrow> give (map sr_key refs @ rkey (en_metadata full) # live)))"

fun mark_leaves :: "gc_env \<Rightarrow> bool \<Rightarrow> item list \<Rightarrow> bytes list \<Rightarrow> bytes list act" where
  "mark_leaves G scoped [] live = give live"
| "mark_leaves G scoped (v # vs) live = andthen (mark_leaf G scoped v live) (mark_leaves G scoped vs)"

fun mark_children :: "(objref \<Rightarrow> marks \<Rightarrow> marks act) \<Rightarrow> branch list \<Rightarrow> marks \<Rightarrow> marks act" where
  "mark_children M [] st = give st"
| "mark_children M (c # cs) st = andthen (M (bref c) st) (mark_children M cs)"

text \<open>The number counts the levels below \<open>maxDepth\<close> that are left.\<close>

fun mark_tree :: "gc_env \<Rightarrow> bool \<Rightarrow> nat \<Rightarrow> objref \<Rightarrow> marks \<Rightarrow> marks act" where
  "mark_tree G scoped 0 ref st = (if rkey ref = [] \<or> rkey ref \<in> set (snd st) then give st else raise Refused)"
| "mark_tree G scoped (Suc d) ref st =
     (if rkey ref = [] \<or> rkey ref \<in> set (snd st) then give st
      else
        andthen (gc_node G ref) (\<lambda>n.
        andthen (mark_children (mark_tree G scoped d) (children n) (rkey ref # fst st, rkey ref # snd st)) (\<lambda>st'.
        andthen (mark_leaves G scoped (leaves n) (fst st')) (\<lambda>live. give (live, snd st')))))"

fun mark_roots :: "gc_env \<Rightarrow> bool \<Rightarrow> objref list \<Rightarrow> marks \<Rightarrow> marks act" where
  "mark_roots G scoped [] st = give st"
| "mark_roots G scoped (root # roots) st = andthen (mark_tree G scoped max_depth root st) (mark_roots G scoped roots)"

definition head_roots :: "head \<Rightarrow> objref list" where
  "head_roots h = [hd_identity h, hd_capture h, hd_activity h, hd_project h, hd_receipts h]"

definition mark_head :: "gc_env \<Rightarrow> head \<Rightarrow> marks \<Rightarrow> marks act" where
  "mark_head G h st =
     (if \<not> head_references_valid h then raise Refused else mark_roots G (hd_protocol h = 11) (head_roots h) st)"

subsection \<open>Retained heads\<close>

definition decode_retained :: "runtime \<Rightarrow> time \<Rightarrow> bytes \<Rightarrow> cerr + head" where
  "decode_retained R successor raw =
     (case head_unmarshal R raw of
        None \<Rightarrow> Inl Refused
      | Some old \<Rightarrow>
          (let wit = hd_pub_witness old in
           sbind (observe_version R old \<lparr>ve_etag = hw_etag wit, ve_modified = hw_modified wit, ve_precision = hw_precision wit\<rparr>) (\<lambda>seen.
           if \<not> head_valid_format seen \<or> hw_modified (hd_pub_witness seen) > successor then Inl Refused else Inr seen)))"

text \<open>The loop over the predecessors; the number bounds its rounds, since nothing in the code does.\<close>

fun retained_rounds :: "gc_env \<Rightarrow> time \<Rightarrow> nat \<Rightarrow> objref \<Rightarrow> time \<Rightarrow> marks \<Rightarrow> marks act" where
  "retained_rounds G oldest 0 previous successor st =
     (if rkey previous \<noteq> [] \<and> \<not> successor < oldest then raise Refused else give st)"
| "retained_rounds G oldest (Suc n) previous successor st =
     (if rkey previous \<noteq> [] \<and> \<not> successor < oldest then
        andthen (read_object (gc_x G) previous 16384) (\<lambda>raw.
        andthen (lift_sum (decode_retained (x_run (gc_x G)) successor raw)) (\<lambda>old.
        andthen (mark_head G old (rkey previous # fst st, snd st))
          (retained_rounds G oldest n (hd_previous old) (hw_modified (hd_pub_witness old) + hw_precision (hd_pub_witness old)))))
      else give st)"

definition mark_retained :: "gc_env \<Rightarrow> nat \<Rightarrow> head \<Rightarrow> time \<times> time \<Rightarrow> marks \<Rightarrow> marks act" where
  "mark_retained G rounds h clock st =
     (let wit = hd_pub_witness h in
      if hw_modified wit > snd clock then raise Refused
      else retained_rounds G (fst clock - snapshot_lifetime) rounds (hd_previous h) (hw_modified wit + hw_precision wit) st)"

subsection \<open>Collect\<close>

text \<open>\<open>gcHead\<close> with the check that \<open>Collect\<close> passes, and whether it was asked and granted.\<close>

definition collect_head :: "environment \<Rightarrow> writer \<Rightarrow> admissions \<times> bytes \<Rightarrow> (head \<times> bytes \<times> bool) act" where
  "collect_head X W seen =
     (if wt_readonly W then raise ReadOnly
      else andthen (live_head X) (\<lambda>(h, etag).
        if etag \<noteq> [] then give (h, etag, False)
        else andthen (new_mutation_id X) (\<lambda>epoch.
          case r_head (x_run X) (h\<lparr>hd_generation := 1, hd_epoch := epoch, hd_pub_epoch := epoch\<rparr>) of
            None \<Rightarrow> raise Refused
          | Some raw \<Rightarrow>
              andthen (authorize_bootstrap X W W seen) (\<lambda>_.
              andthen (put_conditional X head_key raw \<lparr>pc_match = [], pc_create = True\<rparr>) (\<lambda>_.
              andthen (live_head X) (\<lambda>(h', etag'). give (h', etag', True)))))))"

text \<open>The inventory under the hold: the barrier's own, or also that of a fresh hold of the coordinator.\<close>

definition hold_inventory :: "environment \<Rightarrow> writer \<Rightarrow> call_context \<Rightarrow> bool \<Rightarrow> objref list \<Rightarrow> objref list act" where
  "hold_inventory X W C own protected =
     (if own then give protected
      else
        andthen (seal X W C) (\<lambda>owner.
        andthen (hold_barrier X W C owner) (\<lambda>(more, _). give (protected @ more))))"

definition mark_all :: "gc_env \<Rightarrow> nat \<Rightarrow> head \<Rightarrow> time \<times> time \<Rightarrow> objref list \<Rightarrow> bytes list act" where
  "mark_all G rounds h clock protected =
     andthen (mark_protected (gc_x G) protected [coordinator_key, head_key]) (\<lambda>live.
     andthen (mark_head G h (live, [])) (\<lambda>st.
     andthen (mark_retained G rounds h clock st) (\<lambda>st'. give (fst st'))))"

definition sweep_leased :: "gc_env \<Rightarrow> writer \<Rightarrow> call_context \<Rightarrow> nat \<Rightarrow> head \<Rightarrow> bytes \<Rightarrow> time \<times> time \<Rightarrow> objref list \<Rightarrow> unit act" where
  "sweep_leased G W C rounds h etag clock protected =
     andthen (mark_all G rounds h clock protected) (\<lambda>live.
     andthen (verify_gc_sweep (gc_x G) h etag) (\<lambda>_.
     andthen (remove_unreachable (gc_x G) W live h etag) (\<lambda>_.
       release_gc (gc_x G) W C h etag)))"

definition collect_held :: "gc_env \<Rightarrow> writer \<Rightarrow> call_context \<Rightarrow> nat \<Rightarrow> bool \<Rightarrow> time \<times> time \<Rightarrow> objref list \<Rightarrow> unit act" where
  "collect_held G W C rounds own clock protected =
     (let X = gc_x G in
      andthen (hold_inventory X W C own protected) (\<lambda>protected.
      andthen (bootstrap_authority X) (\<lambda>seen.
      andthen (collect_head X W seen) (\<lambda>(h, etag, bootstrapped).
      andthen (if bootstrapped then preflight_clock X else give clock) (\<lambda>clock.
      andthen (acquire_gc X W C h etag clock protected) (\<lambda>(leased, lease_etag).
        sweep_leased G W C rounds leased lease_etag clock protected))))))"

text \<open>The barrier's hold and its deferred release.\<close>

definition collect :: "gc_env \<Rightarrow> writer \<Rightarrow> call_context \<Rightarrow> nat \<Rightarrow> barrier \<Rightarrow> unit act" where
  "collect G W C rounds b =
     (let X = gc_x G in
      if wt_readonly W then raise ReadOnly
      else
        (case b of
           NoBarrier \<Rightarrow> raise Refused
         | CompletedBarrier \<Rightarrow> raise Refused
         | RecoveryBarrier \<Rightarrow> raise Refused
         | HeldBarrier owner same \<Rightarrow>
             if \<not> same then raise Refused
             else
               andthen (preflight_clock X) (\<lambda>clock.
               andthen (hold_barrier X W C owner) (\<lambda>(protected, _). collect_held G W C rounds True clock protected))
         | OtherBarrier hold let_go \<Rightarrow>
             andthen (preflight_clock X) (\<lambda>clock.
             andthen hold (\<lambda>(protected, given).
               if \<not> given then raise Refused
               else (\<lambda>w. case collect_held G W C rounds False clock protected w of (r, w') \<Rightarrow> (r, let_go w'))))))"

end
