(* ===== verification/GcCalls.thy ===== *)
theory GcCalls
  imports GcMark CoordinatorClaims SnapshotTrees
begin

text \<open>
  What a collection does besides deleting: it reads, and it writes the head and the coordinator. An invariant
  that survives the other machines and those two writes survives every operation of a collection up to the
  sweep, and its release.
\<close>

named_theorems call_rules \<open>operations that keep an invariant of the calls\<close>

locale reads_kept =
  fixes X :: environment and J :: "world \<Rightarrow> bool"
  assumes kept_arrive: "J w \<Longrightarrow> J (arrive X w)"
begin

lemma kept_get [call_rules]: "keeps J (get_version X key limit)"
  by (simp add: keeps_def get_version_def Let_def kept_arrive)

lemma kept_list [call_rules]: "keeps J (list_objects X prefix)"
  by (simp add: keeps_def list_objects_def Let_def kept_arrive)

lemma kept_clock [call_rules]: "keeps J (server_clock X)"
  by (simp add: keeps_def server_clock_def kept_arrive)

lemma kept_new_id [call_rules]: "keeps J (new_mutation_id X)"
  by (simp add: keeps_def new_mutation_id_def kept_arrive)

lemma kept_stat [call_rules]: "keeps J (stat_object X stat key)"
  by (simp add: keeps_def stat_object_def Let_def kept_arrive)

lemma kept_coord_read [call_rules]: "keeps J (coord_read X)"
  using keepsD [OF kept_get [of coordinator_key coordinator_limit]]
  by (auto simp: keeps_def coord_read_def split: prod.splits sum.splits option.splits)

lemma kept_read_head [call_rules]: "keeps J (read_head X)"
  unfolding keeps_def
proof (intro allI impI)
  fix w assume j: "J w"
  obtain r w1 where g: "get_version X head_key head_limit w = (r, w1)" by fastforce
  have j1: "J w1" by (rule keepsD [OF kept_get j g])
  have missing: "keeps J (andthen (coord_read X) (\<lambda>(s, _).
              if as_protocol s = 11 \<and> as_upgrade s = None then
                (if as_mode s \<noteq> Candidate \<or> as_seal s = [] then raise ScopedUnavailable
                 else give (fresh_head 5 11 (Some picker_format), no_version))
              else give (fresh_head 4 10 None, no_version)))"
    by (intro keeps_rules call_rules)
  show "J (snd (read_head X w))"
    using g j1 keepsD [OF missing j1 surjective_pairing] by (auto simp: read_head_def split: sum.splits)
qed

lemma kept_live_head [call_rules]: "keeps J (live_head X)"
  unfolding live_head_def by (intro keeps_rules call_rules)

lemma kept_read_object [call_rules]: "keeps J (read_object X ref limit)"
  unfolding read_object_def by (intro keeps_rules call_rules)

lemma kept_protected [call_rules]: "keeps J (mark_protected X refs live)"
  by (induction refs arbitrary: live) (auto intro!: keeps_rules call_rules)

lemma kept_observe [call_rules]: "keeps J (observe_gc_head X)"
  unfolding observe_gc_head_def by (intro keeps_rules call_rules)

lemma kept_verify [call_rules]: "keeps J (verify_gc_sweep X h etag)"
  unfolding verify_gc_sweep_def gc_state_def by (intro keeps_rules call_rules)

lemma kept_candidates [call_rules]: "keeps J (list_candidates X prefixes)"
  by (induction prefixes) (auto intro!: keeps_rules call_rules)

lemma kept_preflight [call_rules]: "keeps J (preflight_clock X)"
  unfolding preflight_clock_def by (intro keeps_rules call_rules)

end

text \<open>The writes of a collection.\<close>

locale calls_kept = reads_kept +
  assumes kept_store: "J w \<Longrightarrow> key = head_key \<or> key = coordinator_key \<Longrightarrow> J (store X key raw n w)"
begin

lemma kept_put: "key = head_key \<or> key = coordinator_key \<Longrightarrow> keeps J (put_conditional X key raw c)"
  by (auto simp: keeps_def put_conditional_def Let_def kept_arrive kept_store split: call_fault.splits)

lemma kept_puts [call_rules]: "keeps J (put_conditional X head_key raw c)" "keeps J (put_conditional X coordinator_key raw c)"
  by (simp_all add: kept_put)

lemma kept_rounds:
  assumes "\<And>captured s. keeps J (f captured s)"
  shows "J w \<Longrightarrow> J (snd (change_rounds X W C f n captured w))"
proof (induction n arbitrary: captured w)
  case (Suc n)
  obtain r w1 where read: "coord_read X w = (r, w1)" by fastforce
  have j1: "J w1" by (rule keepsD [OF kept_coord_read Suc.prems read])
  show ?case
  proof (cases r)
    case (Inr se)
    obtain q w2 where fq: "f captured (fst se) w1 = (q, w2)" by fastforce
    have j2: "J w2" by (rule keepsD [OF assms j1 fq])
    have again: "J (snd (change_rounds X W C f n captured' w3))" "J w3" if "put_conditional X coordinator_key raw c w2 = (p, w3)" for raw c p captured' w3
      using keepsD [OF kept_puts(2) j2 that] by (simp_all add: Suc.IH)
    show ?thesis
      using read Inr fq j1 j2 by (auto simp: again split: sum.splits prod.splits)
  qed (use read j1 in simp)
qed simp

lemma kept_change [call_rules]: "(\<And>captured s. keeps J (f captured s)) \<Longrightarrow> keeps J (coord_change X W C f)"
  unfolding keeps_def coord_change_def change_captured_def
  using kept_rounds [of f, unfolded keeps_def] by (auto split: prod.splits) (metis snd_conv)

lemma kept_pure [call_rules]: "keeps J (pure f captured s)"
  by (rule keeps_pure)

lemma kept_seal [call_rules]: "keeps J (seal X W C)"
  unfolding seal_def by (intro keeps_rules call_rules)

lemma kept_hold [call_rules]: "keeps J (hold_barrier X W C owner)"
  unfolding hold_barrier_def by (intro keeps_rules call_rules)

lemma kept_bind_lease [call_rules]: "keeps J (bind_gc_lease X W C etag leased inventory)"
  unfolding bind_gc_lease_def by (intro keeps_rules call_rules)

lemma kept_release [call_rules]: "keeps J (release_gc X W C h etag)"
proof -
  have finish: "keeps J (finish_gc_release X W C owner)" for owner
    unfolding finish_gc_release_def gc_state_def by (intro keeps_rules call_rules)
  have step: "keeps J (bind_release_step X h owner captured s)" for owner captured s
    unfolding bind_release_step_def Let_def
    by (intro keeps_rules call_rules; simp only:; (intro keeps_rules call_rules)?)
  have settle: "keeps J (\<lambda>w.
      case put_conditional X head_key raw c w of
        (Inl e, w') \<Rightarrow> (Inl (Join CommitUnknown e), w')
      | (Inr _, w') \<Rightarrow> finish_gc_release X W C owner w')" for raw c owner
    using kept_puts(1) finish by (auto simp: keeps_def split: prod.splits sum.splits) (metis snd_conv)+
  show ?thesis
    unfolding release_gc_def publish_release_def bind_gc_release_def by (intro keeps_rules call_rules step settle)
qed

lemma kept_bootstrap [call_rules]: "keeps J (bootstrap_authority X)" "keeps J (authorize_bootstrap X W W' seen)"
  unfolding bootstrap_authority_def authorize_bootstrap_def by (intro keeps_rules call_rules)+

lemma kept_collect_head [call_rules]: "keeps J (collect_head X W seen)"
  unfolding collect_head_def by (intro keeps_rules call_rules)

lemma kept_acquire [call_rules]: "keeps J (acquire_gc X W C h etag clock inventory)"
  unfolding acquire_gc_def by (intro keeps_rules call_rules)

lemma kept_inventory [call_rules]: "keeps J (hold_inventory X W C own protected)"
  unfolding hold_inventory_def by (intro keeps_rules call_rules)

end

subsection \<open>The invariants of a collection\<close>

text \<open>
  \<open>puts_only\<close>: since the log l nothing was deleted. \<open>settled\<close>: in addition no object of m was replaced, by the other
  machines or by the two writes.
\<close>

definition puts_only :: "written list \<Rightarrow> world \<Rightarrow> bool" where
  "puts_only l w \<longleftrightarrow> (\<exists>es. w_log w = es @ l \<and> (\<forall>e\<in>set es. wr_after e \<noteq> None))"

definition settled :: "(bytes \<rightharpoonup> bytes) \<Rightarrow> environment \<Rightarrow> written list \<Rightarrow> world \<Rightarrow> bool" where
  "settled m X l w \<longleftrightarrow> undisturbed m X \<and> head_key \<notin> dom m \<and> coordinator_key \<notin> dom m \<and> unreplaced m (w_objects w) \<and> puts_only l w"

lemma puts_only_start: "puts_only (w_log w) w"
  by (simp add: puts_only_def)

lemma puts_only_arrive: "puts_only l w \<Longrightarrow> puts_only l (arrive X w)"
  by (simp add: puts_only_def arrive_def)

lemma puts_only_store: "puts_only l w \<Longrightarrow> puts_only l (store X key raw n w)"
  unfolding puts_only_def store_def by (auto intro: exI [of _ "_ # _"])

interpretation putting: calls_kept X "puts_only l" for X l
  by unfold_locales (simp_all add: puts_only_arrive puts_only_store)

interpretation settling: calls_kept X "settled m X l" for X m l
proof
  fix w assume "settled m X l w"
  then show "settled m X l (arrive X w)" by (simp add: settled_def arrive_unreplaced puts_only_arrive)
next
  fix w key raw n assume "settled m X l w" "key = head_key \<or> key = coordinator_key"
  then show "settled m X l (store X key raw n w)"
    unfolding settled_def by (auto simp: puts_only_store) (auto simp: store_def unreplaced_def split: if_splits)
qed

text \<open>What a read answers while m is settled.\<close>

lemma read_object_value:
  assumes "settled m X l w" "read_object X ref limit w = (Inr raw, w')" "rkey ref \<in> dom m"
  shows "m (rkey ref) = Some raw"
  using assms get_version_value [of m X w "rkey ref" limit]
  by (auto simp: read_object_def settled_def andthen_Inr split: sum.splits if_splits)

lemma settled_read:
  "hoare (settled m X l) (read_object X ref limit) (\<lambda>raw w. (rkey ref \<in> dom m \<longrightarrow> m (rkey ref) = Some raw) \<and> settled m X l w) (settled m X l)"
  using settling.kept_read_object [of m X l ref limit] read_object_value [of m X l _ ref limit]
  by (auto simp: hoare_def keeps_def split: prod.splits sum.splits dest: spec)

end
