(* ===== verification/GcReach.thy ===== *)
theory GcReach
  imports GcCalls
begin

text \<open>
  What a collection must keep. Over the objects m that nobody replaces: the nodes a head's trees reach, the
  metadata and source objects of the entries in their leaves, and the heads that are still retained. Every
  successful marking covers them: the keys it adds to \<open>visited\<close> are closed under children, with the objects
  of their leaves marked.
\<close>

subsection \<open>What a head refers to\<close>

inductive entry_refers :: "gc_env \<Rightarrow> (bytes \<rightharpoonup> bytes) \<Rightarrow> entry \<Rightarrow> bytes \<Rightarrow> bool" for G m e where
  metadata_object: "entry_refers G m e (rkey (en_metadata e))"
| source_object: "m (rkey (en_metadata e)) = Some raw \<Longrightarrow> decode_entry_body (gc_codec G) e raw = Inr body \<Longrightarrow>
    source_references (metadata.truncate body) = Inr refs \<Longrightarrow> r \<in> set refs \<Longrightarrow> entry_refers G m e (sr_key r)"

inductive head_node :: "gc_env \<Rightarrow> (bytes \<rightharpoonup> bytes) \<Rightarrow> head \<Rightarrow> bytes \<Rightarrow> bool" for G m h where
  root_node: "root \<in> set (head_roots h) \<Longrightarrow> rkey root \<noteq> [] \<Longrightarrow> head_node G m h (rkey root)"
| child_node: "head_node G m h k \<Longrightarrow> m k = Some raw \<Longrightarrow> decode_node (gc_nodes G) raw = Inr n \<Longrightarrow>
    c \<in> set (children n) \<Longrightarrow> rkey (bref c) \<noteq> [] \<Longrightarrow> head_node G m h (rkey (bref c))"

inductive head_refers :: "gc_env \<Rightarrow> (bytes \<rightharpoonup> bytes) \<Rightarrow> head \<Rightarrow> bytes \<Rightarrow> bool" for G m h where
  tree_object: "head_node G m h k \<Longrightarrow> head_refers G m h k"
| entry_object: "head_node G m h k \<Longrightarrow> m k = Some raw \<Longrightarrow> decode_node (gc_nodes G) raw = Inr n \<Longrightarrow>
    v \<in> set (leaves n) \<Longrightarrow> leaf_entry G v = Inr (Some e) \<Longrightarrow> entry_refers G m e k' \<Longrightarrow> head_refers G m h k'"

text \<open>When a head's predecessor stopped being current, at the latest.\<close>

definition superseded_at :: "head \<Rightarrow> time" where
  "superseded_at h = hw_modified (hd_pub_witness h) + hw_precision (hd_pub_witness h)"

inductive retained_head :: "gc_env \<Rightarrow> (bytes \<rightharpoonup> bytes) \<Rightarrow> time \<Rightarrow> head \<Rightarrow> head \<Rightarrow> bool" for G m oldest h where
  current_head: "retained_head G m oldest h h"
| earlier_head: "retained_head G m oldest h g \<Longrightarrow> rkey (hd_previous g) \<noteq> [] \<Longrightarrow> oldest \<le> superseded_at g \<Longrightarrow>
    m (rkey (hd_previous g)) = Some raw \<Longrightarrow> decode_retained (x_run (gc_x G)) (superseded_at g) raw = Inr old \<Longrightarrow>
    retained_head G m oldest h old"

text \<open>The objects of the retained heads, and the recorded heads themselves.\<close>

definition kept_for :: "gc_env \<Rightarrow> (bytes \<rightharpoonup> bytes) \<Rightarrow> time \<Rightarrow> head \<Rightarrow> bytes \<Rightarrow> bool" where
  "kept_for G m oldest h k \<longleftrightarrow> (\<exists>g. retained_head G m oldest h g \<and>
     (head_refers G m g k \<or> rkey (hd_previous g) \<noteq> [] \<and> oldest \<le> superseded_at g \<and> k = rkey (hd_previous g)))"

subsection \<open>Steps with a known answer\<close>

definition answers :: "('s \<Rightarrow> bool) \<Rightarrow> ('s, 'e, 'a) step \<Rightarrow> ('a \<Rightarrow> bool) \<Rightarrow> bool" where
  "answers J a Q \<longleftrightarrow> hoare J a (\<lambda>x s. Q x \<and> J s) J"

named_theorems answer_rules \<open>syntax-directed rules of answers\<close>

lemma answers_andthen: "answers J a Q \<Longrightarrow> (\<And>x. Q x \<Longrightarrow> answers J (f x) R) \<Longrightarrow> answers J (andthen a f) R"
  unfolding answers_def by (rule hoare_andthen, assumption) (rule hoare_fact, assumption)

lemma answers_kept: "keeps J a \<Longrightarrow> (\<And>x. answers J (f x) R) \<Longrightarrow> answers J (andthen a f) R"
  unfolding answers_def keeps_hoare by (rule hoare_andthen)

lemma answers_lift: "(\<And>x. r = Inr x \<Longrightarrow> answers J (f x) R) \<Longrightarrow> answers J (andthen (lift_sum r) f) R"
  by (cases r) (simp_all add: answers_def hoare_def andthen_def lift_sum_def)

lemma answers_give [answer_rules]: "Q x \<Longrightarrow> answers J (give x) Q"
  by (simp add: answers_def hoare_give)

lemma answers_raise [answer_rules]: "answers J (raise e) Q"
  by (simp add: answers_def hoare_raise)

lemma answers_if [answer_rules]: "(b \<Longrightarrow> answers J a Q) \<Longrightarrow> (\<not> b \<Longrightarrow> answers J a' Q) \<Longrightarrow> answers J (if b then a else a') Q"
  by simp

lemma answers_sum [answer_rules]:
  "(\<And>y. x = Inl y \<Longrightarrow> answers J (a y) Q) \<Longrightarrow> (\<And>y. x = Inr y \<Longrightarrow> answers J (b y) Q) \<Longrightarrow>
   answers J (case x of Inl y \<Rightarrow> a y | Inr y \<Rightarrow> b y) Q"
  by (cases x) auto

lemma answers_option [answer_rules]:
  "(x = None \<Longrightarrow> answers J a Q) \<Longrightarrow> (\<And>y. x = Some y \<Longrightarrow> answers J (b y) Q) \<Longrightarrow>
   answers J (case x of None \<Rightarrow> a | Some y \<Rightarrow> b y) Q"
  by (cases x) auto

lemma answers_weaken: "answers J a Q \<Longrightarrow> (\<And>x. Q x \<Longrightarrow> R x) \<Longrightarrow> answers J a R"
  unfolding answers_def by (erule hoare_weaken) auto

lemma answers_any: "keeps J a \<Longrightarrow> answers J a (\<lambda>_. True)"
  by (simp add: answers_def keeps_hoare)

lemma answersD: "answers J a Q \<Longrightarrow> J s \<Longrightarrow> a s = (Inr x, s') \<Longrightarrow> Q x \<and> J s'"
  unfolding answers_def hoare_def by (auto dest: spec)

lemma answers_object:
  "answers (settled m X l) (read_object X ref limit) (\<lambda>raw. rkey ref \<in> dom m \<longrightarrow> m (rkey ref) = Some raw)"
  unfolding answers_def by (rule settled_read)

subsection \<open>What marking covers\<close>

definition key_closed :: "gc_env \<Rightarrow> (bytes \<rightharpoonup> bytes) \<Rightarrow> marks \<Rightarrow> bytes \<Rightarrow> bool" where
  "key_closed G m st k \<longleftrightarrow> (\<forall>raw n. m k = Some raw \<longrightarrow> decode_node (gc_nodes G) raw = Inr n \<longrightarrow>
     (\<forall>c\<in>set (children n). rkey (bref c) \<noteq> [] \<longrightarrow> rkey (bref c) \<in> set (snd st)) \<and>
     (\<forall>v\<in>set (leaves n). \<forall>e k'. leaf_entry G v = Inr (Some e) \<longrightarrow> entry_refers G m e k' \<longrightarrow> k' \<in> set (fst st)))"

definition marks_more :: "gc_env \<Rightarrow> (bytes \<rightharpoonup> bytes) \<Rightarrow> marks \<Rightarrow> marks \<Rightarrow> bool" where
  "marks_more G m st st' \<longleftrightarrow> set (fst st) \<subseteq> set (fst st') \<and> set (snd st) \<subseteq> set (snd st') \<and>
     (\<forall>k\<in>set (snd st') - set (snd st). k \<in> set (fst st') \<and> key_closed G m st' k)"

lemma key_closed_mono:
  "key_closed G m st k \<Longrightarrow> set (fst st) \<subseteq> set (fst st') \<Longrightarrow> set (snd st) \<subseteq> set (snd st') \<Longrightarrow> key_closed G m st' k"
  unfolding key_closed_def by blast

lemma marks_more_refl [simp]: "marks_more G m st st"
  by (simp add: marks_more_def)

lemma marks_more_trans: "marks_more G m a b \<Longrightarrow> marks_more G m b c \<Longrightarrow> marks_more G m a c"
  unfolding marks_more_def by (blast intro: key_closed_mono)

lemma marks_more_live: "set (fst st) \<subseteq> set live \<Longrightarrow> marks_more G m st (live, snd st)"
  by (simp add: marks_more_def)

abbreviation covers :: "gc_env \<Rightarrow> (bytes \<rightharpoonup> bytes) \<Rightarrow> written list \<Rightarrow> marks act \<Rightarrow> marks \<Rightarrow> (marks \<Rightarrow> bool) \<Rightarrow> bool" where
  "covers G m l a st Q \<equiv> answers (settled m (gc_x G) l) a (\<lambda>st'. marks_more G m st st' \<and> Q st')"

subsection \<open>Leaves\<close>

lemma kept_sources [call_rules]: "keeps (settled m (gc_x G) l) (verify_sources G refs)"
proof (induction refs)
  case (Cons r refs)
  have "keeps (settled m (gc_x G) l) (verify_source G r)"
    unfolding verify_source_def Let_def by (intro keeps_rules call_rules)
  then show ?case by (simp only: verify_sources.simps) (intro keeps_rules Cons)
qed (simp add: keeps_const)

lemma answers_verify:
  "answers (settled m (gc_x G) l) (verify_entry G key e) (\<lambda>full. en_metadata full = en_metadata e \<and>
     (\<forall>raw. m (rkey (en_metadata e)) = Some raw \<longrightarrow> decode_entry_body (gc_codec G) e raw = Inr (en_summary full)))"
  unfolding verify_entry_def Let_def
  by (intro answers_lift answers_andthen [OF answers_object] answers_kept [OF kept_sources] answer_rules) auto

lemma answers_leaf:
  "answers (settled m (gc_x G) l) (mark_leaf G scoped v live) (\<lambda>live'. set live \<subseteq> set live' \<and>
     (\<forall>e k. leaf_entry G v = Inr (Some e) \<longrightarrow> entry_refers G m e k \<longrightarrow> k \<in> set live'))"
  unfolding mark_leaf_def
  by (intro answers_lift answers_andthen [OF answers_verify] answer_rules) (auto simp: entry_refers.simps)

lemma answers_leaves:
  "answers (settled m (gc_x G) l) (mark_leaves G scoped vs live) (\<lambda>live'. set live \<subseteq> set live' \<and>
     (\<forall>v\<in>set vs. \<forall>e k. leaf_entry G v = Inr (Some e) \<longrightarrow> entry_refers G m e k \<longrightarrow> k \<in> set live'))"
proof (induction vs arbitrary: live)
  case (Cons v vs)
  show ?case
    by (simp only: mark_leaves.simps) (rule answers_andthen [OF answers_leaf], rule answers_weaken [OF Cons], auto)
qed (simp add: answers_give)

subsection \<open>Trees\<close>

lemma answers_node:
  "answers (settled m (gc_x G) l) (gc_node G ref) (\<lambda>n. \<forall>raw n0. rkey ref \<noteq> [] \<longrightarrow> m (rkey ref) = Some raw \<longrightarrow>
     decode_node (gc_nodes G) raw = Inr n0 \<longrightarrow> n = n0)"
  unfolding gc_node_def
  by (intro answers_andthen [OF answers_object] answer_rules) auto

lemma covers_children:
  assumes "\<And>ref st. covers G m l (M ref st) st (\<lambda>st'. rkey ref \<noteq> [] \<longrightarrow> rkey ref \<in> set (snd st'))"
  shows "covers G m l (mark_children M cs st) st (\<lambda>st'. \<forall>c\<in>set cs. rkey (bref c) \<noteq> [] \<longrightarrow> rkey (bref c) \<in> set (snd st'))"
proof (induction cs arbitrary: st)
  case (Cons c cs)
  show ?case
    by (simp only: mark_children.simps) (rule answers_andthen [OF assms], rule answers_weaken [OF Cons], auto simp: marks_more_def
      intro: key_closed_mono)
qed (simp add: answers_give)

lemma covers_tree:
  "covers G m l (mark_tree G scoped d ref st) st (\<lambda>st'. rkey ref \<noteq> [] \<longrightarrow> rkey ref \<in> set (snd st'))"
proof (induction d arbitrary: ref st)
  case 0
  show ?case by (auto simp: answers_give answers_raise)
next
  case (Suc d)
  let ?st = "(rkey ref # fst st, rkey ref # snd st)"
  show ?case
  proof (cases "rkey ref = [] \<or> rkey ref \<in> set (snd st)")
    case False
    have final: "marks_more G m st (live, snd st1)"
      if node: "\<And>raw n0. m (rkey ref) = Some raw \<Longrightarrow> decode_node (gc_nodes G) raw = Inr n0 \<Longrightarrow> n = n0"
        and cs: "marks_more G m ?st st1" "\<forall>c\<in>set (children n). rkey (bref c) \<noteq> [] \<longrightarrow> rkey (bref c) \<in> set (snd st1)"
        and vs: "set (fst st1) \<subseteq> set live"
          "\<forall>v\<in>set (leaves n). \<forall>e k. leaf_entry G v = Inr (Some e) \<longrightarrow> entry_refers G m e k \<longrightarrow> k \<in> set live" for n st1 live
    proof -
      have "key_closed G m (live, snd st1) (rkey ref)"
        using node cs(2) vs(2) unfolding key_closed_def fst_conv snd_conv by blast
      moreover have "marks_more G m ?st (live, snd st1)" using cs(1) marks_more_live [OF vs(1)] by (rule marks_more_trans)
      ultimately show ?thesis unfolding marks_more_def by auto
    qed
    have seen: "rkey ref \<in> set (snd st1)" if "marks_more G m ?st st1" for st1 using that by (auto simp: marks_more_def)
    note steps = answers_andthen [OF answers_node] answers_andthen [OF covers_children [OF Suc]] answers_andthen [OF answers_leaves]
    have "covers G m l (andthen (gc_node G ref) (\<lambda>n.
        andthen (mark_children (mark_tree G scoped d) (children n) ?st) (\<lambda>st'.
        andthen (mark_leaves G scoped (leaves n) (fst st')) (\<lambda>live. give (live, snd st'))))) st
      (\<lambda>st'. rkey ref \<noteq> [] \<longrightarrow> rkey ref \<in> set (snd st'))"
    proof (intro steps answers_give conjI impI)
      fix n st1 live
      assume a: "\<forall>raw n0. rkey ref \<noteq> [] \<longrightarrow> m (rkey ref) = Some raw \<longrightarrow> decode_node (gc_nodes G) raw = Inr n0 \<longrightarrow> n = n0"
        "marks_more G m ?st st1 \<and> (\<forall>c\<in>set (children n). rkey (bref c) \<noteq> [] \<longrightarrow> rkey (bref c) \<in> set (snd st1))"
        "set (fst st1) \<subseteq> set live \<and> (\<forall>v\<in>set (leaves n). \<forall>e k. leaf_entry G v = Inr (Some e) \<longrightarrow> entry_refers G m e k \<longrightarrow> k \<in> set live)"
      show "marks_more G m st (live, snd st1)" by (rule final [where n = n]) (use a False in blast)+
      show "rkey ref \<in> set (snd (live, snd st1))" using a(2) seen by simp
    qed
    then show ?thesis using False by simp
  qed (auto simp: answers_give)
qed

lemma covers_roots:
  "covers G m l (mark_roots G scoped roots st) st (\<lambda>st'. \<forall>root\<in>set roots. rkey root \<noteq> [] \<longrightarrow> rkey root \<in> set (snd st'))"
proof (induction roots arbitrary: st)
  case (Cons root roots)
  show ?case
    by (simp only: mark_roots.simps) (rule answers_andthen [OF covers_tree], rule answers_weaken [OF Cons], auto simp: marks_more_def
      intro: key_closed_mono)
qed (simp add: answers_give)

subsection \<open>Heads\<close>

definition all_closed :: "gc_env \<Rightarrow> (bytes \<rightharpoonup> bytes) \<Rightarrow> marks \<Rightarrow> bool" where
  "all_closed G m st \<longleftrightarrow> (\<forall>k\<in>set (snd st). k \<in> set (fst st) \<and> key_closed G m st k)"

lemma all_closed_more: "all_closed G m st \<Longrightarrow> marks_more G m st st' \<Longrightarrow> all_closed G m st'"
  unfolding all_closed_def marks_more_def by (blast intro: key_closed_mono)

lemma head_node_visited:
  assumes "all_closed G m st" "\<forall>root\<in>set (head_roots h). rkey root \<noteq> [] \<longrightarrow> rkey root \<in> set (snd st)" "head_node G m h k"
  shows "k \<in> set (snd st)"
  using assms(3)
proof (induction rule: head_node.induct)
  case (child_node k raw n c)
  then show ?case using assms(1) unfolding all_closed_def key_closed_def by blast
qed (use assms(2) in blast)

lemma head_refers_live:
  assumes "all_closed G m st" "\<forall>root\<in>set (head_roots h). rkey root \<noteq> [] \<longrightarrow> rkey root \<in> set (snd st)" "head_refers G m h k"
  shows "k \<in> set (fst st)"
  using assms(3)
proof (cases rule: head_refers.cases)
  case tree_object
  then show ?thesis using head_node_visited [OF assms(1,2)] assms(1) by (auto simp: all_closed_def)
next
  case (entry_object k' raw n v e)
  have "key_closed G m st k'" using head_node_visited [OF assms(1,2) entry_object(1)] assms(1) by (auto simp: all_closed_def)
  then show ?thesis using entry_object unfolding key_closed_def by blast
qed

lemma covers_head:
  assumes "all_closed G m st"
  shows "covers G m l (mark_head G h st) st (\<lambda>st'. all_closed G m st' \<and> (\<forall>k. head_refers G m h k \<longrightarrow> k \<in> set (fst st')))"
  unfolding mark_head_def
  by (intro answer_rules answers_weaken [OF covers_roots])
    (use assms in \<open>auto intro: all_closed_more elim!: head_refers_live [rotated 2]\<close>)

subsection \<open>Retained heads\<close>

lemma retained_first:
  assumes "retained_head G m oldest h g"
  shows "g = h \<or> rkey (hd_previous h) \<noteq> [] \<and> oldest \<le> superseded_at h \<and> (\<exists>raw old. m (rkey (hd_previous h)) = Some raw \<and>
    decode_retained (x_run (gc_x G)) (superseded_at h) raw = Inr old \<and> retained_head G m oldest old g)"
  using assms by (induction rule: retained_head.induct) (blast intro: retained_head.intros)+

lemma kept_for_first:
  assumes "kept_for G m oldest h k"
  shows "head_refers G m h k \<or> rkey (hd_previous h) \<noteq> [] \<and> oldest \<le> superseded_at h \<and> (k = rkey (hd_previous h) \<or>
    (\<exists>raw old. m (rkey (hd_previous h)) = Some raw \<and> decode_retained (x_run (gc_x G)) (superseded_at h) raw = Inr old \<and>
      kept_for G m oldest old k))"
  using assms unfolding kept_for_def by (blast dest: retained_first)

lemma covers_retained_rounds:
  assumes "all_closed G m st"
  shows "answers (settled m (gc_x G) l) (retained_rounds G oldest n (hd_previous h) (superseded_at h) st) (\<lambda>st'.
    set (fst st) \<subseteq> set (fst st') \<and> (\<forall>k. kept_for G m oldest h k \<longrightarrow> head_refers G m h k \<or> k \<in> set (fst st')))"
  using assms
proof (induction n arbitrary: h st)
  case 0
  then show ?case by (auto intro!: answer_rules dest: kept_for_first)
next
  case (Suc n)
  let ?st = "(rkey (hd_previous h) # fst st, snd st)"
  have start: "all_closed G m ?st" using Suc.prems by (rule all_closed_more) (rule marks_more_live, auto)
  have round: "answers (settled m (gc_x G) l) (andthen (mark_head G old ?st)
      (retained_rounds G oldest n (hd_previous old) (superseded_at old))) (\<lambda>st'.
      insert (rkey (hd_previous h)) (set (fst st)) \<subseteq> set (fst st') \<and> (\<forall>k. kept_for G m oldest old k \<longrightarrow> k \<in> set (fst st')))" for old
    by (rule answers_andthen [OF covers_head [OF start]], rule answers_weaken [OF Suc.IH]) (auto simp: marks_more_def)
  show ?case
    unfolding retained_rounds.simps superseded_at_def [symmetric]
    by (intro answer_rules answers_andthen [OF answers_object] answers_lift answers_weaken [OF round])
      (auto dest!: kept_for_first [where h = h])
qed

lemma covers_retained:
  assumes "all_closed G m st"
  shows "answers (settled m (gc_x G) l) (mark_retained G rounds h clock st) (\<lambda>st'. set (fst st) \<subseteq> set (fst st') \<and>
    (\<forall>k. kept_for G m (fst clock - snapshot_lifetime) h k \<longrightarrow> head_refers G m h k \<or> k \<in> set (fst st')))"
  unfolding mark_retained_def Let_def superseded_at_def [symmetric]
  by (intro answer_rules covers_retained_rounds assms)

lemma answers_protected:
  "answers (settled m (gc_x G) l) (mark_protected (gc_x G) refs live) (\<lambda>live'. (\<forall>ref\<in>set refs. rkey ref \<in> set live') \<and> set live \<subseteq> set live')"
proof (induction refs arbitrary: live)
  case (Cons ref refs)
  show ?case
    by (simp only: mark_protected.simps) (intro answer_rules answers_kept call_rules answers_weaken [OF Cons], auto)
qed (simp add: answers_give)

text \<open>Everything a marking must cover.\<close>

lemma answers_mark_all:
  "answers (settled m (gc_x G) l) (mark_all G rounds h clock protected) (\<lambda>live. (\<forall>ref\<in>set protected. rkey ref \<in> set live) \<and>
     (\<forall>k. kept_for G m (fst clock - snapshot_lifetime) h k \<longrightarrow> k \<in> set live))"
  unfolding mark_all_def
  by (intro answers_andthen [OF answers_protected] answers_andthen [OF covers_head] answers_andthen [OF covers_retained]
      answer_rules) (auto simp: all_closed_def marks_more_def)

end
