(* ===== verification/GcDemo.thy ===== *)
theory GcDemo
  imports GcReach SnapshotDemo
begin

text \<open>
  A whole collection for the witness: a sealed coordinator, a head with one tree of one entry, its metadata and
  source objects, and one object that nothing refers to. ETags are the bytes; from the release on the bucket
  does not answer.
\<close>

subsection \<open>The archive\<close>

definition drill_id :: bytes where
  "drill_id = hex_encode (replicate 24 CHR ''r'')"

definition drill_metadata :: bytes where
  "drill_metadata = ''catalog-v4/metadata/'' @ demo_sha @ ''.json''"

definition drill_source :: bytes where
  "drill_source = ''sessions/c/1/source.'' @ demo_sha @ ''.jsonl.gz''"

definition drill_entry :: entry where
  "drill_entry = (tour_entry ''1'' ''r'')\<lparr>en_summary := (en_summary (tour_entry ''1'' ''r''))
     \<lparr>md_bundle := \<lparr>sr_key = drill_source, sr_sha = demo_sha, sr_bytes = 1\<rparr>\<rparr>\<rparr>"

definition drill_codec :: entry_codec where
  "drill_codec = tour_codec\<lparr>k_entry_in := [''a'' \<mapsto> (drill_entry, [])], k_summary_in := (\<lambda>_. Some (en_summary drill_entry)),
     k_summary := (\<lambda>_. Some [])\<rparr>"

definition drill_nodes :: cenv where
  "drill_nodes = \<lparr>c_sha = (\<lambda>_. demo_sha), c_enc = (\<lambda>_. []), c_dec = [''N'' \<mapsto> tour_node [\<lparr>ikey = tour_key ''1'', ival = ''1''\<rparr>]]\<rparr>"

definition drill_sealed :: admissions where
  "drill_sealed = demo_state\<lparr>as_hold := []\<rparr>"

definition drill_held :: admissions where
  "drill_held = demo_state\<lparr>as_hold := drill_id, as_generation := 4\<rparr>"

definition drill_witness :: gc_witness where
  "drill_witness = \<lparr>gw_generation = 4, gw_seal = demo_seal, gw_hold = drill_id, gw_inventory = demo_sha\<rparr>"

definition drill_linked :: admissions where
  "drill_linked = drill_held\<lparr>as_generation := 5, as_gc_link := Some \<lparr>gl_owner = drill_id, gl_witness = drill_witness, gl_generation = 5,
     gl_inventory = [], gl_prior_etag = ''H'', gl_prior_sha = demo_sha, gl_leased_sha = demo_sha, gl_released_sha = [],
     gl_released_head = [], gl_phase = GcPrepared\<rparr>\<rparr>"

definition drill_head :: head where
  "drill_head = demo_head\<lparr>hd_lease := [], hd_gc := no_gc_witness, hd_identity := tour_ref ''catalog-v4/n''\<rparr>"

definition drill_leased :: head where
  "drill_leased = drill_head\<lparr>hd_lease := drill_id, hd_epoch := drill_id, hd_generation := 3, hd_gc := drill_witness\<rparr>"

definition drill_runtime :: runtime where
  "drill_runtime = (demo_runtime demo_state)\<lparr>t_sha := (\<lambda>_. demo_sha),
     r_state := (\<lambda>s. Some (if as_gc_link s \<noteq> None then ''U'' else if as_hold s \<noteq> [] then ''T'' else ''S'')),
     r_state_in := [''S'' \<mapsto> drill_sealed, ''T'' \<mapsto> drill_held, ''U'' \<mapsto> drill_linked],
     r_head := (\<lambda>_. Some ''L''), r_head_in := [''H'' \<mapsto> (drill_head, []), ''L'' \<mapsto> (drill_leased, [])]\<rparr>"

definition drill_env :: environment where
  "drill_env = (env_of (demo_env demo_state))\<lparr>x_run := drill_runtime,
     x_fault := (\<lambda>n. if n < 25 then Answered else Unanswered Refused),
     x_list := (\<lambda>_ _ prefix. Inr (if prefix = ''sessions/'' then [drill_source, ''sessions/old''] else [''catalog-v4/n'', drill_metadata]))\<rparr>"

definition drill :: gc_env where
  "drill = \<lparr>gc_x = drill_env, gc_codec = drill_codec, gc_fields = (\<lambda>_. None), gc_nodes = drill_nodes,
     gc_stat = Some (\<lambda>_ _ _. Inr (1, demo_sha))\<rparr>"

definition drill_version :: "bytes \<Rightarrow> version" where
  "drill_version raw = \<lparr>ve_etag = raw, ve_modified = 1, ve_precision = 1\<rparr>"

definition drill_objects :: objects where
  "drill_objects = [coordinator_key \<mapsto> (''S'', drill_version ''S''), head_key \<mapsto> (''H'', drill_version ''H''),
     ''catalog-v4/n'' \<mapsto> (''N'', drill_version ''N''), drill_metadata \<mapsto> (''B'', drill_version ''B''),
     drill_source \<mapsto> (''c'', drill_version ''c''), ''sessions/old'' \<mapsto> (''o'', drill_version ''o'')]"

definition drill_bytes :: "bytes \<rightharpoonup> bytes" where
  "drill_bytes = [''catalog-v4/n'' \<mapsto> ''N'', drill_metadata \<mapsto> ''B'', drill_source \<mapsto> ''c'']"

subsection \<open>Its calls\<close>

lemma drill_fields:
  "x_others drill_env = (\<lambda>_ b. b)" "x_run drill_env = drill_runtime" "x_clock drill_env = (\<lambda>_. Inr (1, 2))"
  "x_random drill_env = (\<lambda>_. Some (replicate 24 CHR ''r''))" "x_version drill_env = (\<lambda>_ raw. drill_version raw)"
  "x_fault drill_env n = (if n < 25 then Answered else Unanswered Refused)"
  "x_list drill_env n b prefix = Inr (if prefix = ''sessions/'' then [drill_source, ''sessions/old''] else [''catalog-v4/n'', drill_metadata])"
  by (simp_all add: drill_env_def env_of_def demo_env_def environment.defs drill_version_def)

lemma drill_runtime_fields:
  "t_sha drill_runtime = (\<lambda>_. demo_sha)" "r_head drill_runtime = (\<lambda>_. Some ''L'')"
  "r_state drill_runtime s = Some (if as_gc_link s \<noteq> None then ''U'' else if as_hold s \<noteq> [] then ''T'' else ''S'')"
  "r_state_in drill_runtime = [''S'' \<mapsto> drill_sealed, ''T'' \<mapsto> drill_held, ''U'' \<mapsto> drill_linked]"
  "r_head_in drill_runtime = [''H'' \<mapsto> (drill_head, []), ''L'' \<mapsto> (drill_leased, [])]"
  by (simp_all add: drill_runtime_def demo_runtime_def)

lemma drill_hex: "exact_hex drill_id 24" "drill_id \<noteq> []" "[] \<noteq> drill_id"
  by (simp_all add: drill_id_def exact_hex_nonempty [where n = 24] exact_hex_nonempty [where n = 24, symmetric])

lemma drill_hashes: "inventory_hash drill_runtime refs = demo_sha" "head_hash drill_runtime h = demo_sha"
  by (simp_all add: inventory_hash_def head_hash_def drill_runtime_fields)

abbreviation drill_world :: "objects \<Rightarrow> nat \<Rightarrow> written list \<Rightarrow> world" where
  "drill_world b n l \<equiv> \<lparr>w_objects = b, w_calls = n, w_log = l\<rparr>"

lemma drill_arrive: "arrive drill_env (drill_world b n l) = drill_world b (Suc n) l"
  by (simp add: arrive_def drill_fields)

lemma drill_get:
  "b key = Some (raw, v) \<Longrightarrow> n < 25 \<Longrightarrow> \<not> longer raw limit \<Longrightarrow>
   get_version drill_env key limit (drill_world b n l) = (Inr (raw, v), drill_world b (Suc n) l)"
  by (simp add: get_version_def Let_def drill_arrive drill_fields)

definition drill_put_at :: "bytes \<Rightarrow> bytes \<Rightarrow> bytes \<Rightarrow> written" where
  "drill_put_at key old raw = \<lparr>wr_key = key, wr_before = Some (old, drill_version old), wr_after = Some raw\<rparr>"

lemma drill_version_fields: "ve_etag (drill_version raw) = raw" "ve_modified (drill_version raw) = 1" "ve_precision (drill_version raw) = 1"
  by (simp_all add: drill_version_def)

lemma drill_put:
  "b key = Some (old, drill_version old) \<Longrightarrow> n < 25 \<Longrightarrow> old \<noteq> [] \<Longrightarrow>
   put_conditional drill_env key raw \<lparr>pc_match = old, pc_create = False\<rparr> (drill_world b n l) =
     (Inr raw, drill_world (b(key \<mapsto> (raw, drill_version raw))) (Suc n) (drill_put_at key old raw # l))"
  by (simp add: put_conditional_def Let_def drill_arrive drill_fields holds_condition_def store_def drill_version_fields drill_put_at_def)

lemma drill_new_id: "new_mutation_id drill_env (drill_world b n l) = (Inr drill_id, drill_world b (Suc n) l)"
  by (simp add: new_mutation_id_def drill_fields drill_arrive drill_id_def)

lemma drill_clock: "server_clock drill_env (drill_world b n l) = (Inr (1, 2), drill_world b (Suc n) l)"
  by (simp add: server_clock_def drill_fields drill_arrive)

subsection \<open>The coordinator and the head\<close>

lemma drill_valid: "state_valid drill_runtime drill_sealed" "state_valid drill_runtime drill_held" "state_valid drill_runtime drill_linked"
proof -
  show "state_valid drill_runtime drill_sealed"
    by (simp add: drill_sealed_def demo_state_def initial_admissions_def state_valid_def state_valid_format_def owners_def
        picker_upgrade_valid_def demo_ids)
  show "state_valid drill_runtime drill_held"
    by (simp add: drill_held_def demo_state_def initial_admissions_def state_valid_def state_valid_format_def owners_def
        picker_upgrade_valid_def demo_ids drill_hex)
  have "link_valid drill_runtime (the (as_gc_link drill_linked)) drill_linked"
    by (simp add: link_valid_def drill_linked_def drill_held_def drill_witness_def demo_state_def initial_admissions_def owners_def
        longer_def demo_ids drill_hex drill_hashes)
  then show "state_valid drill_runtime drill_linked"
    by (simp add: drill_linked_def drill_held_def demo_state_def initial_admissions_def state_valid_def state_valid_format_def owners_def
        picker_upgrade_valid_def demo_ids drill_hex)
qed

lemma drill_read:
  assumes "b coordinator_key = Some (raw, drill_version raw)" "n < 25" "(raw, s) \<in> {(''S'', drill_sealed), (''T'', drill_held), (''U'', drill_linked)}"
  shows "coord_read drill_env (drill_world b n l) = (Inr (s, raw), drill_world b (Suc n) l)"
  using assms drill_valid
  by (auto simp: coord_read_def drill_get longer_def coordinator_limit_def drill_fields drill_runtime_fields drill_version_def)

lemma drill_read_head:
  assumes "b head_key = Some (raw, drill_version raw)" "n < 25" "(raw, h) \<in> {(''H'', drill_head), (''L'', drill_leased)}"
  shows "read_head drill_env (drill_world b n l) = (Inr (h, drill_version raw), drill_world b (Suc n) l)"
proof -
  have "head_unmarshal drill_runtime raw = Some h" "head_references_valid h"
    using assms(3) tour_ref_valid
    by (auto simp: head_unmarshal_def drill_runtime_fields drill_head_def drill_leased_def demo_head_def fresh_head_def
        head_references_valid_def no_ref_def ref_validate_def [of "\<lparr>rkey = [], rsha = []\<rparr>"])
  moreover have "observe_version drill_runtime h (drill_version raw) = Inr h" "head_valid_format h" "hd_generation h \<noteq> 0" "hd_epoch h \<noteq> []"
    "hd_pub_epoch h \<noteq> []"
    using assms(3)
    by (auto simp: observe_version_def head_valid_format_def drill_leased_def drill_head_def demo_head_def fresh_head_def
        drill_version_def minute_def roots_sha_def drill_runtime_fields demo_ids drill_hex no_ref_def)
  ultimately have "decode_live_head drill_runtime raw (drill_version raw) = Inr h"
    using assms(3) by (auto simp: decode_live_head_def longer_def head_limit_def drill_version_def)
  moreover have "length raw = 1" using assms(3) by auto
  ultimately show ?thesis
    using assms(1,2) by (simp add: read_head_def drill_get longer_def head_limit_def drill_fields)
qed

subsection \<open>The collection\<close>

lemma drill_keys: "head_key \<noteq> coordinator_key" "coordinator_key \<noteq> head_key" "''catalog-v4/n'' \<noteq> coordinator_key" "''catalog-v4/n'' \<noteq> head_key"
  "drill_metadata \<noteq> coordinator_key" "drill_metadata \<noteq> head_key" "drill_source \<noteq> coordinator_key" "drill_source \<noteq> head_key"
  "''sessions/old'' \<noteq> coordinator_key" "''sessions/old'' \<noteq> head_key" "drill_metadata \<noteq> ''catalog-v4/n''" "drill_source \<noteq> ''catalog-v4/n''"
  "drill_source \<noteq> drill_metadata" "drill_source \<noteq> ''sessions/old''" "drill_metadata \<noteq> ''sessions/old''"
  by (simp_all add: head_key_def coordinator_key_def drill_metadata_def drill_source_def)

lemma drill_objects_cells: "drill_objects coordinator_key = Some (''S'', drill_version ''S'')" "drill_objects head_key = Some (''H'', drill_version ''H'')"
  "drill_objects ''catalog-v4/n'' = Some (''N'', drill_version ''N'')" "drill_objects drill_metadata = Some (''B'', drill_version ''B'')"
  "drill_objects drill_source = Some (''c'', drill_version ''c'')" "drill_objects ''sessions/old'' = Some (''o'', drill_version ''o'')"
  using drill_keys by (simp_all add: drill_objects_def)

lemma drill_change:
  assumes "b coordinator_key = Some (raw, drill_version raw)" "Suc n < 25"
    and "(raw, s) \<in> {(''S'', drill_sealed), (''T'', drill_held), (''U'', drill_linked)}"
    and "f None s = lift_sum (Inr (s', a))" "state_valid drill_runtime (next_generation s')" "as_intent s = None"
    and "r_state drill_runtime (next_generation s') = Some raw'" "length raw' = 1"
  shows "coord_change drill_env demo_writer C f (drill_world b n l) =
    (Inr a, drill_world (b(coordinator_key \<mapsto> (raw', drill_version raw'))) (Suc (Suc n)) (drill_put_at coordinator_key raw raw' # l))"
proof -
  have "raw \<noteq> []" using assms(3) by auto
  then have put: "put_conditional drill_env coordinator_key raw' \<lparr>pc_match = raw, pc_create = (raw = [])\<rparr> (drill_world b (Suc n) l) =
      (Inr raw', drill_world (b(coordinator_key \<mapsto> (raw', drill_version raw'))) (Suc (Suc n)) (drill_put_at coordinator_key raw raw' # l))"
    using drill_put [of b coordinator_key raw "Suc n" raw' l] assms(1,2) by simp
  have "prepare_state drill_runtime s' = Inr raw'"
    using assms(5,7,8) by (simp add: prepare_state_def longer_def coordinator_limit_def)
  then have "change_rounds drill_env demo_writer C f (Suc k) None (drill_world b n l) = ((Inr a, Some a), drill_world
      (b(coordinator_key \<mapsto> (raw', drill_version raw'))) (Suc (Suc n)) (drill_put_at coordinator_key raw raw' # l))" for k
    using assms(2,4,6) put drill_read [of b raw n s l] assms(1,3)
    by (simp add: intent_blocks_def lift_sum_def drill_fields)
  from this [of 63] show ?thesis
    by (simp add: coord_change_def change_captured_def demo_writer_def change_attempts_def del: change_rounds.simps)
qed

lemma drill_live_head:
  assumes "b head_key = Some (raw, drill_version raw)" "n < 25" "(raw, h) \<in> {(''H'', drill_head), (''L'', drill_leased)}"
  shows "live_head drill_env (drill_world b n l) = (Inr (h, raw), drill_world b (Suc n) l)"
  by (simp add: live_head_def andthen_def drill_read_head [where b = b and h = h, OF assms] give_def)
    (simp add: drill_version_def)

lemma drill_preflight:
  "preflight_clock drill_env (drill_world drill_objects 0 []) = (Inr (1, 2), drill_world drill_objects 2 [])"
  by (simp add: preflight_clock_def andthen_def drill_clock validate_clock_def lift_sum_def min_dur_def max_dur_def guard_def
      drill_live_head [where h = drill_head] drill_objects_cells give_def minute_def tsub_def)
    (simp add: drill_head_def demo_head_def)

definition drill_b1 :: objects where
  "drill_b1 = drill_objects(coordinator_key \<mapsto> (''T'', drill_version ''T''))"

definition drill_b2 :: objects where
  "drill_b2 = drill_b1(coordinator_key \<mapsto> (''U'', drill_version ''U''))"

definition drill_b3 :: objects where
  "drill_b3 = drill_b2(head_key \<mapsto> (''L'', drill_version ''L''))"

lemma drill_cells:
  "drill_b1 coordinator_key = Some (''T'', drill_version ''T'')" "drill_b1 head_key = Some (''H'', drill_version ''H'')"
  "drill_b2 coordinator_key = Some (''U'', drill_version ''U'')" "drill_b2 head_key = Some (''H'', drill_version ''H'')"
  "drill_b3 coordinator_key = Some (''U'', drill_version ''U'')" "drill_b3 head_key = Some (''L'', drill_version ''L'')"
  "drill_b3 ''catalog-v4/n'' = Some (''N'', drill_version ''N'')" "drill_b3 drill_metadata = Some (''B'', drill_version ''B'')"
  "drill_b3 ''sessions/old'' = Some (''o'', drill_version ''o'')"
  using drill_keys by (simp_all add: drill_b1_def drill_b2_def drill_b3_def drill_objects_cells)

lemma drill_hold:
  "hold_barrier drill_env demo_writer background demo_seal (drill_world drill_objects 2 []) =
    (Inr ([], drill_id), drill_world drill_b1 5 [drill_put_at coordinator_key ''S'' ''T''])"
proof -
  let ?s = "drill_sealed\<lparr>as_hold := drill_id\<rparr>"
  have n: "next_generation ?s = drill_held"
    by (simp add: next_generation_def drill_sealed_def drill_held_def demo_state_def)
  have h: "hold_state demo_seal drill_id drill_sealed = Inr ?s" "completed_references ?s = []" "as_intent drill_sealed = None"
    by (simp_all add: hold_state_def drill_sealed_def demo_state_def initial_admissions_def owners_def demo_ids completed_references_def)
  have "coord_change drill_env demo_writer background
      (\<lambda>_ s. lift_sum (sbind (hold_state demo_seal drill_id s) (\<lambda>s'. Inr (s', completed_references s')))) (drill_world drill_objects 3 []) =
    (Inr [], drill_world drill_b1 5 [drill_put_at coordinator_key ''S'' ''T''])"
    using drill_change [of drill_objects "''S''" 3 drill_sealed
        "\<lambda>_ s. lift_sum (sbind (hold_state demo_seal drill_id s) (\<lambda>s'. Inr (s', completed_references s')))" ?s "[]" "''T''" background "[]"]
      n h drill_valid drill_objects_cells
    by (simp add: drill_runtime_fields drill_b1_def) (simp add: drill_held_def demo_state_def initial_admissions_def drill_hex)
  then show ?thesis
    by (simp add: hold_barrier_def andthen_def drill_new_id numeral_eq_Suc give_def)
qed

lemma drill_head_fields: "hd_lease drill_head = []" "hd_generation drill_head = 2" "hd_lease drill_leased = drill_id" "hd_gc drill_leased = drill_witness"
  by (simp_all add: drill_head_def drill_leased_def demo_head_def)

lemma drill_bind:
  "bind_gc_lease drill_env demo_writer background ''H'' (drill_head\<lparr>hd_lease := drill_id, hd_epoch := drill_id, hd_generation := 3\<rparr>) []
     (drill_world drill_b1 8 l) = (Inr drill_leased, drill_world drill_b2 12 (drill_put_at coordinator_key ''T'' ''U'' # l))"
proof -
  let ?leased = "drill_head\<lparr>hd_lease := drill_id, hd_epoch := drill_id, hd_generation := 3\<rparr>"
  have "observe_gc_head drill_env (drill_world drill_b1 8 l) = (Inr (drill_head, ''H'', demo_sha), drill_world drill_b1 10 l)"
    by (simp add: observe_gc_head_def andthen_def drill_live_head [where h = drill_head] drill_cells drill_get longer_def head_limit_def give_def
        drill_fields drill_runtime_fields) (simp add: drill_version_def)
  moreover have "coord_change drill_env demo_writer background
      (\<lambda>_ s. lift_sum (bind_lease_state drill_runtime ''H'' demo_sha ?leased [] s)) (drill_world drill_b1 10 l) =
    (Inr drill_leased, drill_world drill_b2 12 (drill_put_at coordinator_key ''T'' ''U'' # l))"
  proof -
    define s' where "s' = drill_linked\<lparr>as_generation := 4\<rparr>"
    have "bind_lease_state drill_runtime ''H'' demo_sha ?leased [] drill_held = Inr (s', drill_leased)"
      by (simp add: bind_lease_state_def drill_held_def demo_state_def initial_admissions_def owners_def drill_hex demo_ids drill_hashes
          drill_linked_def drill_leased_def drill_witness_def s'_def Let_def)
    moreover have "next_generation s' = drill_linked" by (simp add: s'_def next_generation_def drill_linked_def)
    ultimately show ?thesis
      using drill_change [of drill_b1 "''T''" 10 drill_held
          "\<lambda>_ s. lift_sum (bind_lease_state drill_runtime ''H'' demo_sha ?leased [] s)" s' drill_leased "''U''" background l] drill_valid drill_cells
      by (simp add: drill_runtime_fields drill_b2_def) (simp add: drill_linked_def drill_held_def demo_state_def initial_admissions_def)
  qed
  ultimately show ?thesis
    by (simp add: bind_gc_lease_def andthen_def drill_fields)
qed

lemma drill_acquire:
  "acquire_gc drill_env demo_writer background drill_head ''H'' (1, 2) [] (drill_world drill_b1 7 l) =
    (Inr (drill_leased, ''L''), drill_world drill_b3 15 (drill_put_at head_key ''H'' ''L'' # drill_put_at coordinator_key ''T'' ''U'' # l))"
  using drill_bind [of l]
  by (simp add: acquire_gc_def demo_writer_def drill_head_fields andthen_def drill_new_id drill_fields drill_runtime_fields
      drill_put drill_cells drill_b3_def [symmetric] drill_read_head [where h = drill_leased] drill_version_fields drill_clock
      validate_clock_def min_dur_def max_dur_def guard_def minute_def tsub_def lift_sum_def give_def)

subsection \<open>Its marking\<close>

lemma drill_gc_fields: "gc_x drill = drill_env" "gc_codec drill = drill_codec" "gc_nodes drill = drill_nodes"
  "gc_stat drill = Some (\<lambda>_ _ _. Inr (1, demo_sha))"
  by (simp_all add: drill_def)

lemma drill_metadata_key: "metadata_object_key ''c'' ''1'' = Inr (tour_key ''1'')"
  by (simp add: metadata_object_key_def safe_object_component_def in_range_def tour_key_def)

lemma drill_entry_fields: "md_harness (en_summary drill_entry) = ''c''" "md_session (en_summary drill_entry) = ''1''" "en_picker drill_entry = None"
  "en_metadata drill_entry = \<lparr>rkey = drill_metadata, rsha = demo_sha\<rparr>" "en_overflow drill_entry = []"
  by (simp_all add: drill_entry_def tour_entry_def drill_metadata_def)

lemma drill_codec_fields: "k_entry_in drill_codec = [''a'' \<mapsto> (drill_entry, [])]" "k_summary_in drill_codec = (\<lambda>_. Some (en_summary drill_entry))"
  "k_summary drill_codec = (\<lambda>_. Some [])" "k_identity_in drill_codec ''1'' = Some (''r'', ''a'')" "t_sha drill_codec = (\<lambda>_. demo_sha)"
  by (simp_all add: drill_codec_def tour_codec_def)

lemma drill_entry_valid: "validate_entry drill_codec drill_entry = Inr ()"
  by (simp add: validate_entry_def drill_entry_fields metadata_ref_ok_def drill_metadata_def)

lemma drill_body: "decode_entry_body drill_codec drill_entry raw = Inr (en_summary drill_entry)"
  by (simp add: decode_entry_body_def drill_entry_valid drill_codec_fields drill_entry_fields drill_metadata_key leaf_session_key_def
      match_metadata_def same_metadata_def equal_fold_def)

lemma drill_sources: "source_references (metadata.truncate (en_summary drill_entry)) = Inr [\<lparr>sr_key = drill_source, sr_sha = demo_sha, sr_bytes = 1\<rparr>]"
  by (simp add: source_references_def validate_source_reference_def validate_revision_history_def drill_entry_def tour_entry_def metadata.defs
      guard_def demo_sha_digits) (simp add: drill_source_def)

lemma drill_canonical:
  "canonical_source_references (metadata.truncate (en_summary drill_entry)) = Inr [\<lparr>sr_key = drill_source, sr_sha = demo_sha, sr_bytes = 1\<rparr>]"
proof -
  have m: "md_harness (metadata.truncate (en_summary drill_entry)) = ''c''" "md_session (metadata.truncate (en_summary drill_entry)) = ''1''"
    by (simp_all add: drill_entry_def tour_entry_def metadata.defs)
  have "canonical_source (tour_key ''1'') \<lparr>sr_key = drill_source, sr_sha = demo_sha, sr_bytes = 1\<rparr>"
    by (simp add: canonical_source_def demo_sha_def hex_decode_encode tour_keys drill_source_def)
  then show ?thesis by (simp add: canonical_source_references_def m drill_metadata_key drill_sources)
qed

lemma drill_ref_valid: "ref_validate \<lparr>rkey = drill_metadata, rsha = demo_sha\<rparr> = Inr ()"
  using tour_ref_valid [of drill_metadata] by (simp add: tour_ref_def) (simp add: drill_metadata_def)

lemma drill_object:
  assumes "b (rkey ref) = Some (raw, v)" "n < 25" "ref_validate ref = Inr ()" "rkey ref \<noteq> []" "rsha ref = demo_sha" "\<not> longer raw limit"
  shows "read_object drill_env ref limit (drill_world b n l) = (Inr raw, drill_world b (Suc n) l)"
  using assms by (simp add: read_object_def andthen_def drill_get drill_fields drill_runtime_fields equal_fold_def give_def)

lemma drill_verify:
  assumes "b drill_metadata = Some (''B'', v)" "Suc n < 25"
  shows "verify_entry drill (tour_key ''1'') drill_entry (drill_world b n l) = (Inr drill_entry, drill_world b (Suc (Suc n)) l)"
proof -
  have "drill_metadata \<noteq> []" by (simp add: drill_metadata_def)
  then have "read_object drill_env \<lparr>rkey = drill_metadata, rsha = demo_sha\<rparr> 33554432 (drill_world b n l) = (Inr ''B'', drill_world b (Suc n) l)"
    using assms drill_ref_valid by (simp add: drill_object longer_def)
  moreover have "drill_entry\<lparr>en_summary := en_summary drill_entry, en_overflow := []\<rparr> = drill_entry"
    by (simp add: drill_entry_fields(5) [symmetric])
  ultimately show ?thesis
    using assms(2)
    by (simp add: verify_entry_def drill_gc_fields drill_entry_valid drill_entry_fields drill_body drill_canonical drill_metadata_key
        andthen_def lift_sum_def verify_source_def stat_object_def drill_arrive drill_fields give_def)
qed

lemma drill_leaf: "leaf_entry drill \<lparr>ikey = tour_key ''1'', ival = ''1''\<rparr> = Inr (Some drill_entry)"
  by (simp add: leaf_entry_def drill_gc_fields decode_identity_def drill_codec_fields decode_entry_def drill_entry_fields
      tour_keys picker_tree_key_def has_prefix_def)
    (simp add: drill_entry_valid drill_entry_fields(3) [symmetric])

lemma drill_mark:
  "mark_all drill 1 drill_leased (1, 2) [] (drill_world drill_b3 15 l) =
    (Inr [drill_source, drill_metadata, ''catalog-v4/n'', coordinator_key, head_key], drill_world drill_b3 18 l)"
proof -
  have node: "gc_node drill (tour_ref ''catalog-v4/n'') (drill_world drill_b3 15 l) =
      (Inr (tour_node [\<lparr>ikey = tour_key ''1'', ival = ''1''\<rparr>]), drill_world drill_b3 16 l)"
  proof -
    have "read_object drill_env (tour_ref ''catalog-v4/n'') (int max_node_bytes) (drill_world drill_b3 15 l) = (Inr ''N'', drill_world drill_b3 16 l)"
      using drill_object [of drill_b3 "tour_ref ''catalog-v4/n''" "''N''" "drill_version ''N''" 15 "int max_node_bytes" l] drill_cells tour_ref_valid
      by (simp add: longer_def max_node_bytes_def) (simp add: tour_ref_def)
    moreover have "decode_node drill_nodes ''N'' = Inr (tour_node [\<lparr>ikey = tour_key ''1'', ival = ''1''\<rparr>])"
      by (simp add: drill_nodes_def decode_node_def tour_node_def fanout_def node_count_def tour_keys)
    moreover have "ref_validate (tour_ref ''catalog-v4/n'') = Inr ()" "rkey (tour_ref ''catalog-v4/n'') \<noteq> []"
      by (simp_all add: tour_ref_valid) (simp add: tour_ref_def)
    ultimately show ?thesis by (simp add: gc_node_def drill_gc_fields andthen_def give_def)
  qed
  have leaf: "mark_leaf drill False \<lparr>ikey = tour_key ''1'', ival = ''1''\<rparr> live (drill_world drill_b3 16 l) =
      (Inr (drill_source # drill_metadata # live), drill_world drill_b3 18 l)" for live
    using drill_verify [of drill_b3 "drill_version ''B''" 16 l] drill_cells
    by (simp add: mark_leaf_def andthen_def lift_sum_def drill_leaf leaf_session_key_def drill_entry_fields drill_metadata_key drill_sources give_def)
  have roots: "head_roots drill_leased = [tour_ref ''catalog-v4/n'', no_ref, no_ref, no_ref, no_ref]" "head_references_valid drill_leased"
    "hd_protocol drill_leased = 10" "hd_previous drill_leased = no_ref"
    using tour_ref_valid
    by (simp_all add: head_roots_def drill_leased_def drill_head_def demo_head_def fresh_head_def head_references_valid_def no_ref_def
        ref_validate_def [of "\<lparr>rkey = [], rsha = []\<rparr>"])
  have tree: "mark_tree drill False max_depth (tour_ref ''catalog-v4/n'') (live, []) (drill_world drill_b3 15 l) =
      (Inr (drill_source # drill_metadata # ''catalog-v4/n'' # live, [''catalog-v4/n'']), drill_world drill_b3 18 l)" for live
  proof -
    obtain d where d: "max_depth = Suc d" by (simp add: max_depth_def)
    show ?thesis
      unfolding d using leaf
      by (simp add: node andthen_def) (simp add: tour_node_def tour_ref_def give_def andthen_def)
  qed
  have empty: "mark_tree drill False max_depth no_ref st w = (Inr st, w)" for st w
  proof -
    obtain d where d: "max_depth = Suc d" by (simp add: max_depth_def)
    show ?thesis unfolding d by (simp add: no_ref_def give_def)
  qed
  show ?thesis
    by (simp add: mark_all_def mark_head_def roots andthen_def give_def tree empty mark_retained_def Let_def)
      (simp add: no_ref_def give_def drill_leased_def drill_head_def demo_head_def)
qed

subsection \<open>Its sweep\<close>

lemma drill_verified:
  assumes "Suc n < 25"
  shows "verify_gc_sweep drill_env drill_leased ''L'' (drill_world drill_b3 n l) = (Inr (), drill_world drill_b3 (Suc (Suc n)) l)"
proof -
  obtain k where k: "as_gc_link drill_linked = Some k" "gl_witness k = drill_witness" "gl_leased_sha k = demo_sha"
      "link_current drill_runtime drill_id drill_linked k" "gl_inventory k = []"
    by (simp add: drill_linked_def drill_held_def demo_state_def initial_admissions_def link_current_def owners_def drill_witness_def)
  then have "gc_state drill_env drill_id (drill_world drill_b3 n l) = (Inr (drill_linked, k), drill_world drill_b3 (Suc n) l)"
    using assms by (simp add: gc_state_def andthen_def drill_read [where s = drill_linked] drill_cells drill_fields drill_hashes give_def)
      (simp add: drill_witness_def)
  then show ?thesis
    using assms k by (simp add: verify_gc_sweep_def andthen_def drill_head_fields drill_live_head [where h = drill_leased] drill_cells
      drill_fields drill_hashes give_def)
qed

definition drill_deletion :: written where
  "drill_deletion = \<lparr>wr_key = ''sessions/old'', wr_before = Some (''o'', drill_version ''o''), wr_after = None\<rparr>"

lemma has_suffix_last:
  assumes "has_suffix s p" "p \<noteq> []"
  shows "last s = last p"
proof -
  have "length s - length p < length s" "drop (length s - length p) s = p" using assms by (cases p; auto simp: has_suffix_def)+
  then show ?thesis by (metis last_drop)
qed

lemma drill_remove:
  "remove_unreachable drill_env demo_writer [drill_source, drill_metadata, ''catalog-v4/n'', coordinator_key, head_key] drill_leased ''L''
     (drill_world drill_b3 20 l) = (Inr (), drill_world (drill_b3(''sessions/old'' := None)) 25 (drill_deletion # l))"
proof -
  have "\<not> has_suffix drill_source ''/metadata.json''"
    using has_suffix_last [of drill_source "''/metadata.json''"] by (auto simp: drill_source_def)
  then have "\<not> coordinator_object ''sessions/old''" "\<not> metadata_key drill_source" "\<not> metadata_key ''sessions/old''" "\<not> metadata_key drill_metadata"
      "\<not> metadata_key ''catalog-v4/n''"
    by (simp_all add: coordinator_object_def coordinator_key_def metadata_key_def) (simp_all add: has_prefix_def has_suffix_def drill_metadata_def)
  then show ?thesis
    using drill_keys
    by (simp add: remove_unreachable_def demo_writer_def andthen_def list_objects_def Let_def drill_arrive drill_fields give_def drill_verified
        delete_object_def drill_cells drill_deletion_def)
qed

lemma drill_release:
  "release_gc drill_env demo_writer background drill_leased ''L'' (drill_world b 25 l) = (Inl Refused, drill_world b 26 l)"
proof -
  have "coord_read drill_env (drill_world b 25 l) = (Inl Refused, drill_world b 26 l)"
    by (simp add: coord_read_def get_version_def Let_def drill_arrive drill_fields)
  then have "change_rounds drill_env demo_writer background f (Suc k) None (drill_world b 25 l) = ((Inl Refused, None), drill_world b 26 l)"
    for k and f :: "(bytes \<times> head) transition"
    by simp
  from this [of _ 63] show ?thesis
    by (simp add: release_gc_def publish_release_def bind_gc_release_def andthen_def coord_change_def change_captured_def demo_writer_def
        change_attempts_def del: change_rounds.simps)
qed

lemma drill_run:
  "collect drill demo_writer background 1 (HeldBarrier demo_seal True) (drill_world drill_objects 0 []) =
    (Inl Refused, drill_world (drill_b3(''sessions/old'' := None)) 26
      [drill_deletion, drill_put_at head_key ''H'' ''L'', drill_put_at coordinator_key ''T'' ''U'', drill_put_at coordinator_key ''S'' ''T''])"
proof -
  let ?l = "[drill_put_at coordinator_key ''S'' ''T'']"
  have w: "wt_readonly demo_writer = False" by (simp add: demo_writer_def)
  have bootstrap: "bootstrap_authority drill_env (drill_world drill_b1 5 ?l) = (Inr (drill_held, ''T''), drill_world drill_b1 6 ?l)"
    by (simp add: bootstrap_authority_def andthen_def drill_read [where s = drill_held] drill_cells give_def)
      (simp add: drill_held_def demo_state_def initial_admissions_def owners_def demo_ids drill_hex)
  have head: "collect_head drill_env demo_writer x (drill_world drill_b1 6 ?l) = (Inr (drill_head, ''H'', False), drill_world drill_b1 7 ?l)" for x
    by (simp add: collect_head_def w andthen_def drill_live_head [where h = drill_head] drill_cells give_def)
  note verify = drill_verified [of 18]
  show ?thesis
    using drill_hold drill_preflight bootstrap head drill_acquire drill_mark drill_remove drill_release
    by (simp add: collect_def w Let_def drill_gc_fields andthen_def collect_held_def hold_inventory_def give_def sweep_leased_def verify)
qed

end
