(* ===== verification/GcClaims.thy ===== *)
theory GcClaims
  imports GcReach GcDemo
begin

text \<open>
  What a collection deletes, from the call of \<open>Collect\<close> to the release of its lease.
\<close>

subsection \<open>Steps before the sweep\<close>

lemma hoare_answers:
  assumes "answers J a Q" "\<And>x. Q x \<Longrightarrow> hoare J (f x) R E" "\<And>s. J s \<Longrightarrow> E s"
  shows "hoare J (andthen a f) R E"
proof (rule hoare_andthen)
  show "hoare J a (\<lambda>x s. Q x \<and> J s) E"
    using assms(1) unfolding answers_def by (rule hoare_weaken) (simp_all add: assms(3))
  show "hoare (\<lambda>s. Q x \<and> J s) (f x) R E" for x
    using assms(2) by (rule hoare_fact)
qed

lemma hoare_kept: "keeps J a \<Longrightarrow> (\<And>x. hoare J (f x) R E) \<Longrightarrow> (\<And>s. J s \<Longrightarrow> E s) \<Longrightarrow> hoare J (andthen a f) R E"
  by (rule hoare_answers [OF answers_any])

lemma hoare_kept_end: "keeps J a \<Longrightarrow> (\<And>s. J s \<Longrightarrow> E s) \<Longrightarrow> hoare J a (\<lambda>_. E) E"
  unfolding keeps_hoare by (erule hoare_weaken) auto

lemma answers_preflight: "answers (settled m X l) (preflight_clock X) (\<lambda>clock. \<exists>n. x_clock X n = Inr clock)"
proof -
  have "answers (settled m X l) (server_clock X) (\<lambda>clock. \<exists>n. x_clock X n = Inr clock)"
    using settling.kept_clock [of m X l] by (auto simp: answers_def hoare_def keeps_def server_clock_def split: sum.splits)
  then show ?thesis
    unfolding preflight_clock_def
    by (rule answers_andthen) (intro answers_lift answers_kept call_rules answers_if answers_raise answers_give | auto split: prod.split)+
qed

subsection \<open>The deletions of a collection\<close>

text \<open>The writes since the log l that delete: each under the lease of h, and not of an object kept for h.\<close>

definition unneeded :: "gc_env \<Rightarrow> (bytes \<rightharpoonup> bytes) \<Rightarrow> bytes list \<Rightarrow> head \<Rightarrow> bytes \<Rightarrow> time \<times> time \<Rightarrow> written \<Rightarrow> bool" where
  "unneeded G m live h etag clock e \<longleftrightarrow> (\<exists>n. x_clock (gc_x G) n = Inr clock) \<and> deleted_under_lease (gc_x G) live h etag e \<and>
     \<not> kept_for G m (fst clock - snapshot_lifetime) h (wr_key e)"

definition deletes_only :: "(written \<Rightarrow> bool) \<Rightarrow> written list \<Rightarrow> world \<Rightarrow> bool" where
  "deletes_only D l w \<longleftrightarrow> (\<exists>es. w_log w = es @ l \<and> (\<forall>e\<in>set es. wr_after e = None \<longrightarrow> D e))"

interpretation deleting: calls_kept X "deletes_only D l" for X D l
proof
  fix w assume "deletes_only D l w"
  then show "deletes_only D l (arrive X w)" by (simp add: deletes_only_def arrive_def)
next
  fix w key raw n assume "deletes_only D l w"
  then show "deletes_only D l (store X key raw n w)"
    unfolding deletes_only_def store_def by (auto intro: exI [of _ "_ # _"])
qed

lemma settled_deletes: "settled m X l w \<Longrightarrow> deletes_only D l w"
  unfolding settled_def puts_only_def deletes_only_def by blast

definition collected :: "gc_env \<Rightarrow> (bytes \<rightharpoonup> bytes) \<Rightarrow> written list \<Rightarrow> world \<Rightarrow> bool" where
  "collected G m l w \<longleftrightarrow> (\<exists>live h etag clock. deletes_only (unneeded G m live h etag clock) l w)"

lemma settled_collected: "settled m X l w \<Longrightarrow> collected G m l w"
  by (simp add: collected_def settled_deletes)

lemma swept:
  assumes "\<exists>n. x_clock (gc_x G) n = Inr clock" "\<And>k. kept_for G m (fst clock - snapshot_lifetime) h k \<Longrightarrow> k \<in> set live"
  shows "hoare (settled m (gc_x G) l) (andthen (remove_unreachable (gc_x G) W live h etag) (\<lambda>_. release_gc (gc_x G) W C h etag))
    (\<lambda>_. collected G m l) (collected G m l)"
proof (rule hoare_weaken)
  let ?D = "unneeded G m live h etag clock"
  show "hoare (settled m (gc_x G) l) (andthen (remove_unreachable (gc_x G) W live h etag) (\<lambda>_. release_gc (gc_x G) W C h etag))
      (\<lambda>_. deletes_only ?D l) (deletes_only ?D l)"
  proof (rule hoare_andthen)
    show "hoare (deletes_only ?D l) (release_gc (gc_x G) W C h etag) (\<lambda>_. deletes_only ?D l) (deletes_only ?D l)"
      using deleting.kept_release by (simp add: keeps_hoare)
    have "deletes_only ?D l w'"
      if w: "settled m (gc_x G) l w" and run: "remove_unreachable (gc_x G) W live h etag w = (r, w')" for w r w'
    proof -
      obtain es where es: "w_log w' = es @ w_log w" "\<forall>e\<in>set es. deleted_under_lease (gc_x G) live h etag e"
        using remove_unreachable_log [OF run] by blast
      obtain es0 where es0: "w_log w = es0 @ l" "\<forall>e\<in>set es0. wr_after e \<noteq> None"
        using w by (auto simp: settled_def puts_only_def)
      have "?D e" if "e \<in> set es" for e
        using that es(2) assms by (auto simp: unneeded_def deleted_under_lease_def)
      then show ?thesis
        unfolding deletes_only_def using es(1) es0 by (intro exI [of _ "es @ es0"]) auto
    qed
    then show "hoare (settled m (gc_x G) l) (remove_unreachable (gc_x G) W live h etag) (\<lambda>_. deletes_only ?D l) (deletes_only ?D l)"
      unfolding hoare_def by (auto split: prod.splits sum.splits)
  qed
qed (unfold collected_def, blast+)

lemma leased_collected:
  assumes "\<exists>n. x_clock (gc_x G) n = Inr clock"
  shows "hoare (settled m (gc_x G) l) (sweep_leased G W C rounds h etag clock protected) (\<lambda>_. collected G m l) (collected G m l)"
  unfolding sweep_leased_def
  by (rule hoare_answers [OF answers_mark_all], rule hoare_kept [OF settling.kept_verify], rule swept [OF assms])
    (auto intro: settled_collected)

lemma held_collected:
  assumes "\<exists>n. x_clock (gc_x G) n = Inr clock"
  shows "hoare (settled m (gc_x G) l) (collect_held G W C rounds own clock protected) (\<lambda>_. collected G m l) (collected G m l)"
proof -
  have clocks: "answers (settled m (gc_x G) l) (if b then preflight_clock (gc_x G) else give clock) (\<lambda>clock. \<exists>n. x_clock (gc_x G) n = Inr clock)" for b
    using assms by (auto intro: answers_preflight answers_give)
  show ?thesis
    unfolding collect_held_def Let_def
    by (rule hoare_kept, rule call_rules, rule hoare_kept, rule call_rules, rule hoare_kept, rule call_rules, rule hoare_prod, rule hoare_prod,
      rule hoare_answers [OF clocks], rule hoare_kept, rule call_rules, rule hoare_prod, rule leased_collected)
      (auto intro: settled_collected)
qed

text \<open>A barrier of another kind writes nothing through this process and replaces no object of m.\<close>

fun barrier_apart :: "(bytes \<rightharpoonup> bytes) \<Rightarrow> barrier \<Rightarrow> bool" where
  "barrier_apart m (OtherBarrier hold let_go) \<longleftrightarrow>
     (\<forall>w. w_log (snd (hold w)) = w_log w \<and> (unreplaced m (w_objects w) \<longrightarrow> unreplaced m (w_objects (snd (hold w))))) \<and>
     (\<forall>w. w_log (let_go w) = w_log w)"
| "barrier_apart m _ \<longleftrightarrow> True"

lemma collect_collected:
  assumes "barrier_apart m b"
  shows "hoare (settled m (gc_x G) l) (collect G W C rounds b) (\<lambda>_. collected G m l) (collected G m l)"
proof (cases "wt_readonly W")
  case False
  note known = hoare_answers [OF answers_preflight _ settled_collected]
  show ?thesis
  proof (cases b)
    case (HeldBarrier owner same)
    then show ?thesis
      using False unfolding collect_def Let_def
      by (auto intro!: hoare_raise settled_collected known hoare_kept [OF settling.kept_hold] hoare_prod held_collected)
  next
    case (OtherBarrier hold let_go)
    have "keeps (settled m (gc_x G) l) hold"
      using assms OtherBarrier by (auto simp: keeps_def settled_def puts_only_def)
    moreover have "hoare (settled m (gc_x G) l) (\<lambda>w. case collect_held G W C rounds False clock protected w of (r, w') \<Rightarrow> (r, let_go w'))
        (\<lambda>_. collected G m l) (collected G m l)" if "\<exists>n. x_clock (gc_x G) n = Inr clock" for clock protected
      using held_collected [OF that, of m l W C rounds False protected] assms OtherBarrier
      by (fastforce simp: hoare_def collected_def deletes_only_def split: prod.splits sum.splits)
    ultimately show ?thesis
      using False OtherBarrier unfolding collect_def Let_def
      by (auto intro!: hoare_raise settled_collected known hoare_kept [OF _ _ settled_collected] hoare_prod hoare_if)
  qed (use False in \<open>simp_all add: collect_def hoare_raise settled_collected\<close>)
qed (simp add: collect_def hoare_raise settled_collected)

text \<open>
  Claim C5. A collection deletes nothing that is still needed.
\<close>

theorem collection_keeps_reachable:
  assumes "collect G W C rounds b w = (r, w')" "barrier_apart m b"
    and "undisturbed m (gc_x G)" "unreplaced m (w_objects w)" "head_key \<notin> dom m" "coordinator_key \<notin> dom m"
  shows "\<exists>es live h etag clock. w_log w' = es @ w_log w \<and> (\<forall>e\<in>set es. wr_after e = None \<longrightarrow>
    (\<exists>n. x_clock (gc_x G) n = Inr clock) \<and> deleted_under_lease (gc_x G) live h etag e \<and>
    (\<forall>g. retained_head G m (fst clock - snapshot_lifetime) h g \<longrightarrow> \<not> head_refers G m g (wr_key e) \<and>
      (rkey (hd_previous g) \<noteq> [] \<longrightarrow> fst clock - snapshot_lifetime \<le> superseded_at g \<longrightarrow> wr_key e \<noteq> rkey (hd_previous g))))"
proof -
  have "settled m (gc_x G) (w_log w) w" using assms(3-6) by (simp add: settled_def puts_only_start)
  then have "collected G m (w_log w) w'"
    using collect_collected [OF assms(2), of G "w_log w" W C rounds] assms(1) by (auto simp: hoare_def split: sum.splits)
  then show ?thesis unfolding collected_def deletes_only_def unneeded_def kept_for_def by blast
qed

lemma drill_kept:
  "undisturbed drill_bytes (gc_x drill)" "unreplaced drill_bytes drill_objects" "head_key \<notin> dom drill_bytes" "coordinator_key \<notin> dom drill_bytes"
proof -
  show "undisturbed drill_bytes (gc_x drill)" by (simp add: undisturbed_def drill_gc_fields drill_fields)
  show "unreplaced drill_bytes drill_objects"
    using drill_keys by (auto simp: unreplaced_def drill_bytes_def drill_objects_def split: if_splits)
  show "head_key \<notin> dom drill_bytes" "coordinator_key \<notin> dom drill_bytes" using drill_keys by (auto simp: drill_bytes_def)
qed

theorem collection_keeps_reachable_witness:
  "\<exists>es live h etag clock. [drill_deletion, drill_put_at head_key ''H'' ''L'', drill_put_at coordinator_key ''T'' ''U'',
      drill_put_at coordinator_key ''S'' ''T''] = es @ [] \<and> (\<forall>e\<in>set es. wr_after e = None \<longrightarrow>
    (\<exists>n. x_clock (gc_x drill) n = Inr clock) \<and> deleted_under_lease (gc_x drill) live h etag e \<and>
    (\<forall>g. retained_head drill drill_bytes (fst clock - snapshot_lifetime) h g \<longrightarrow> \<not> head_refers drill drill_bytes g (wr_key e) \<and>
      (rkey (hd_previous g) \<noteq> [] \<longrightarrow> fst clock - snapshot_lifetime \<le> superseded_at g \<longrightarrow> wr_key e \<noteq> rkey (hd_previous g))))"
  using collection_keeps_reachable [OF drill_run _ drill_kept(1) _ drill_kept(3,4)] drill_kept(2) by simp

end
