(* ===== verification/CatalogCommit.thy ===== *)
theory CatalogCommit
  imports GcMark SnapshotQuery
begin

text \<open>
  Commits (\<open>internal/catalog/catalog.go\<close>, \<open>tree.go\<close>, \<open>child_counts.go\<close>): one mutation of a session is published by a
  compare-and-swap on the head, after the new tree nodes, the receipt and the replaced head are stored. The
  trees here are those of \<open>CatalogTree\<close>, run against the world: every node read or written is a call.
\<close>

subsection \<open>Data\<close>

record mutation =
  mu_id :: bytes
  mu_key :: bytes
  mu_expected :: bytes
  mu_next :: "entry option"

datatype immutable_kind = KindNodes | KindMetadata | KindHeads | OtherKind bytes

text \<open>
  \<open>cm_mutation\<close>, \<open>cm_mutation_in\<close>, \<open>cm_receipt_in\<close> are \<open>encoding/json\<close>. \<open>cm_reader\<close> has the clock of the snapshot that counts
  children, and \<open>cm_range\<close> the order in which Go ranges over the affected parents, by the number of calls made.
\<close>

record commit_env =
  cm_gc :: gc_env
  cm_mutation :: "mutation \<Rightarrow> bytes option"
  cm_mutation_in :: "bytes \<Rightarrow> mutation option"
  cm_receipt_in :: "bytes \<Rightarrow> mutation_receipt option"
  cm_reader :: reader_env
  cm_range :: "nat \<Rightarrow> bytes list \<Rightarrow> bytes list"

abbreviation cm_x :: "commit_env \<Rightarrow> environment" where
  "cm_x T \<equiv> gc_x (cm_gc T)"

abbreviation cm_codec :: "commit_env \<Rightarrow> entry_codec" where
  "cm_codec T \<equiv> gc_codec (cm_gc T)"

abbreviation cm_nodes :: "commit_env \<Rightarrow> cenv" where
  "cm_nodes T \<equiv> gc_nodes (cm_gc T)"

definition child_reader :: "commit_env \<Rightarrow> reader_env" where
  "child_reader T = (cm_reader T)\<lparr>z_env := cm_x T, z_entries := cm_codec T, z_nodes := cm_nodes T\<rparr>"

subsection \<open>Immutable objects\<close>

fun kind_name :: "immutable_kind \<Rightarrow> bytes" where
  "kind_name KindNodes = ''nodes''"
| "kind_name KindMetadata = ''metadata''"
| "kind_name KindHeads = ''heads''"
| "kind_name (OtherKind s) = s"

definition immutable_key :: "immutable_kind \<Rightarrow> bytes \<Rightarrow> bytes" where
  "immutable_key kind digest = ''catalog-v4/'' @ kind_name kind @ ''/'' @ digest @ ''.json''"

text \<open>A failed create is settled by reading the object back.\<close>

definition create_or_same :: "environment \<Rightarrow> bytes \<Rightarrow> bytes \<Rightarrow> bytes act \<Rightarrow> unit act" where
  "create_or_same X key b back w =
     (case put_conditional X key b \<lparr>pc_match = [], pc_create = True\<rparr> w of
        (Inr _, w') \<Rightarrow> (Inr (), w')
      | (Inl e, w') \<Rightarrow>
          (case back w' of
             (Inl e', w'') \<Rightarrow> (Inl (Join e e'), w'')
           | (Inr raw, w'') \<Rightarrow> (if raw \<noteq> b then Inl ChecksumMismatch else Inr (), w'')))"

definition put_admitted :: "environment \<Rightarrow> writer \<Rightarrow> call_context \<Rightarrow> immutable_kind \<Rightarrow> bytes \<Rightarrow> objref act" where
  "put_admitted X W C kind b =
     andthen (check_authority X W C) (\<lambda>_.
       let digest = t_sha (x_run X) b; ref = \<lparr>rkey = immutable_key kind digest, rsha = digest\<rparr> in
       if kind \<notin> {KindNodes, KindMetadata, KindHeads} then raise Refused
       else andthen (create_or_same X (rkey ref) b (read_object X ref (int (length b)))) (\<lambda>_. give ref))"

definition put_encoded :: "environment \<Rightarrow> writer \<Rightarrow> call_context \<Rightarrow> immutable_kind \<Rightarrow> bytes option \<Rightarrow> int \<Rightarrow> objref act" where
  "put_encoded X W C kind encoded limit =
     (case encoded of
        None \<Rightarrow> raise Refused
      | Some b \<Rightarrow> if longer b limit then raise TooLarge else put_admitted X W C kind b)"

text \<open>\<open>PutImmutable\<close>; the flag says whether the context carries a publication claim.\<close>

definition put_immutable_object :: "environment \<Rightarrow> writer \<Rightarrow> call_context \<Rightarrow> bool \<Rightarrow> immutable_kind \<Rightarrow> bytes \<Rightarrow> world \<Rightarrow> (objref \<times> cerr option) \<times> world" where
  "put_immutable_object X W C claimed kind b w =
     (if claimed then ((no_ref, Some AdmissionClosed), w)
      else if wt_readonly W then ((no_ref, Some ReadOnly), w)
      else
        (let digest = t_sha (x_run X) b in
         case andthen (new_mutation_id X) (\<lambda>id. andthen (admit X W C (''immutable/'' @ id) digest []) (\<lambda>_. give (''immutable/'' @ id))) w of
           (Inl e, w1) \<Rightarrow> ((no_ref, Some e), w1)
         | (Inr owner, w1) \<Rightarrow>
             (case put_admitted X W (C\<lparr>cx_write := Some \<lparr>wa_writer = wt_id W, wa_owner = owner, wa_digest = digest, wa_seal = []\<rparr>\<rparr>) kind b w1 of
                (r, w2) \<Rightarrow>
                  (case complete X W C owner digest w2 of
                     (done, w3) \<Rightarrow>
                       ((case r of Inl _ \<Rightarrow> no_ref | Inr ref \<Rightarrow> ref,
                         case (r, done) of (Inl e, Inl e') \<Rightarrow> Some (Join e e') | (Inl e, Inr _) \<Rightarrow> Some e
                         | (Inr _, Inl e') \<Rightarrow> Some e' | (Inr _, Inr _) \<Rightarrow> None), w3)))))"

subsection \<open>Trees\<close>

fun seek_rounds :: "gc_env \<Rightarrow> nat \<Rightarrow> objref \<Rightarrow> bytes \<Rightarrow> bytes option act" where
  "seek_rounds G 0 ref key = raise Refused"
| "seek_rounds G (Suc r) ref key =
     andthen (gc_node G ref) (\<lambda>n.
       if children n = [] then
         (let i = leaf_index (leaves n) key in
          if i < length (leaves n) \<and> ikey (leaves n ! i) = key then give (Some (ival (leaves n ! i)))
          else give None)
       else
         (let i = child_index (children n) key in
          if i = length (children n) then give None
          else seek_rounds G r (bref (children n ! i)) key))"

definition seek :: "gc_env \<Rightarrow> objref \<Rightarrow> bytes \<Rightarrow> bytes option act" where
  "seek G = seek_rounds G max_depth"

definition put_node :: "gc_env \<Rightarrow> writer \<Rightarrow> call_context \<Rightarrow> node \<Rightarrow> objref act" where
  "put_node G W C n = put_encoded (gc_x G) W C KindNodes (Some (c_enc (gc_nodes G) n)) (int max_node_bytes)"

fun put_parts :: "gc_env \<Rightarrow> writer \<Rightarrow> call_context \<Rightarrow> node list \<Rightarrow> branch list act" where
  "put_parts G W C [] = give []"
| "put_parts G W C (q # qs) =
     (let q' = q\<lparr>ncount := node_count q\<rparr> in
      andthen (put_node G W C q') (\<lambda>ref.
        andthen (put_parts G W C qs) (\<lambda>out.
          give (\<lparr>bmax = last_key q', bref = ref, bcount = ncount q'\<rparr> # out))))"

definition put_split :: "gc_env \<Rightarrow> writer \<Rightarrow> call_context \<Rightarrow> node \<Rightarrow> branch list act" where
  "put_split G W C n =
     (if length (leaves n) + length (children n) = 0 then give []
      else
        (case split_node (gc_nodes G) n of
           Inl e \<Rightarrow> raise (if e = ErrTooLarge then TooLarge else Refused)
         | Inr parts \<Rightarrow> put_parts G W C parts))"

text \<open>\<open>change\<close>; the number counts the levels below \<open>maxDepth\<close> that are left.\<close>

fun rewrite :: "gc_env \<Rightarrow> writer \<Rightarrow> call_context \<Rightarrow> nat \<Rightarrow> objref \<Rightarrow> bytes \<Rightarrow> bytes option \<Rightarrow> branch list act" where
  "rewrite G W C 0 ref key value = raise Refused"
| "rewrite G W C (Suc r) ref key value =
     andthen (gc_node G ref) (\<lambda>n.
       if children n = [] then put_split G W C (n\<lparr>leaves := change_leaves (leaves n) key value\<rparr>)
       else
         (let i0 = child_index (children n) key;
              i = (if i0 = length (children n) then i0 - 1 else i0) in
          andthen (rewrite G W C r (bref (children n ! i)) key value) (\<lambda>changed.
            put_split G W C (n\<lparr>children := take i (children n) @ changed @ drop (Suc i) (children n)\<rparr>))))"

text \<open>\<open>update\<close>: no value deletes the key.\<close>

definition set_leaf :: "gc_env \<Rightarrow> writer \<Rightarrow> call_context \<Rightarrow> objref \<Rightarrow> bytes \<Rightarrow> tree_value option \<Rightarrow> objref act" where
  "set_leaf G W C ref key value =
     (if length key > 4096 then raise Refused
      else
        andthen (case value of None \<Rightarrow> give None
          | Some v \<Rightarrow> andthen (lift_sum (encode_tree_value (gc_codec G) key v)) (\<lambda>b. give (Some b))) (\<lambda>raw.
        andthen (rewrite G W C max_depth ref key raw) (\<lambda>parts.
          if parts = [] then give no_ref
          else if length parts = 1 then give (bref (hd parts))
          else
            (let n = empty_node\<lparr>children := parts\<rparr> in put_node G W C (n\<lparr>ncount := node_count n\<rparr>)))))"

subsection \<open>Finding\<close>

text \<open>\<open>find\<close>: an absent key has the zero record.\<close>

definition find_record :: "gc_env \<Rightarrow> objref \<Rightarrow> bytes \<Rightarrow> identity act" where
  "find_record G root key =
     andthen (seek G root key) (\<lambda>found.
     case found of
       None \<Rightarrow> give \<lparr>id_revision = [], id_entry = None\<rparr>
     | Some raw \<Rightarrow> lift_sum (decode_identity (gc_codec G) raw))"

definition find_live :: "gc_env \<Rightarrow> bytes \<Rightarrow> identity act" where
  "find_live G key =
     andthen (live_head (gc_x G)) (\<lambda>(h, _).
     andthen (find_record G (hd_identity h) key) (\<lambda>r.
     andthen (lift_sum (validate_live_entry h (id_entry r))) (\<lambda>_. give r)))"

definition find_receipt :: "commit_env \<Rightarrow> head \<Rightarrow> bytes \<Rightarrow> bytes \<Rightarrow> bytes act" where
  "find_receipt T h mid digest =
     andthen (seek (cm_gc T) (hd_receipts h) mid) (\<lambda>found.
     case found of
       None \<Rightarrow> give []
     | Some raw \<Rightarrow>
         (case cm_receipt_in T raw of
            None \<Rightarrow> raise Refused
          | Some r \<Rightarrow>
              if mr_digest r \<noteq> digest \<or> mr_revision r = [] \<or> mr_session r = [] then raise MutationReuse
              else give (mr_revision r)))"

subsection \<open>The order indexes\<close>

text \<open>The capture, activity and project roots.\<close>

type_synonym roots = "objref \<times> objref \<times> objref"

fun set_leaves :: "gc_env \<Rightarrow> writer \<Rightarrow> call_context \<Rightarrow> tree_value option \<Rightarrow> bytes list \<Rightarrow> objref \<Rightarrow> objref act" where
  "set_leaves G W C value [] root = give root"
| "set_leaves G W C value (k # ks) root = andthen (set_leaf G W C root k value) (set_leaves G W C value ks)"

definition set_orders :: "gc_env \<Rightarrow> writer \<Rightarrow> call_context \<Rightarrow> bytes \<Rightarrow> entry option \<Rightarrow> tree_value option \<Rightarrow> roots \<Rightarrow> roots act" where
  "set_orders G W C key e value = (\<lambda>(c, a, p).
     case e of
       None \<Rightarrow> give (c, a, p)
     | Some e \<Rightarrow>
         (case all_order_keys (gc_codec G) key e of (ck, ak, pk) \<Rightarrow>
            andthen (set_leaves G W C value ck c) (\<lambda>c.
            andthen (set_leaves G W C value ak a) (\<lambda>a.
            andthen (set_leaves G W C value pk p) (\<lambda>p. give (c, a, p))))))"

definition update_orders :: "gc_env \<Rightarrow> writer \<Rightarrow> call_context \<Rightarrow> head \<Rightarrow> bytes \<Rightarrow> entry option \<Rightarrow> entry option \<Rightarrow> head act" where
  "update_orders G W C h key old new =
     andthen (set_orders G W C key old None (hd_capture h, hd_activity h, hd_project h)) (\<lambda>roots.
     andthen (set_orders G W C key new (map_option EntryValue new) roots) (\<lambda>(c, a, p).
       give (h\<lparr>hd_capture := c, hd_activity := a, hd_project := p\<rparr>)))"

subsection \<open>Child counters\<close>

text \<open>The parents an entry names, itself included.\<close>

definition parent_key :: "entry option \<Rightarrow> cerr + bytes list" where
  "parent_key e =
     (case e of
        None \<Rightarrow> Inr []
      | Some e \<Rightarrow>
          if sy_parent (en_summary e) = [] then Inr []
          else (case metadata_object_key (md_harness (en_summary e)) (sy_parent (en_summary e)) of
                  Inl _ \<Rightarrow> Inl Refused | Inr k \<Rightarrow> Inr [k]))"

definition affected_keys :: "bytes \<Rightarrow> entry option \<Rightarrow> entry option \<Rightarrow> cerr + bytes list" where
  "affected_keys key old new =
     sbind (parent_key old) (\<lambda>a. sbind (parent_key new) (\<lambda>b. Inr (remdups (key # a @ b))))"

definition child_query :: "entry \<Rightarrow> bool \<Rightarrow> query" where
  "child_query e replay =
     (let prefix = child_prefix (md_harness (en_summary e)) (md_session (en_summary e)) replay in
      \<lparr>q_index = ProjectIndex, q_lower = prefix @ ''0'', q_upper = prefix @ '':'', q_reverse = False\<rparr>)"

definition counted_picker :: "entry_codec \<Rightarrow> entry \<Rightarrow> cerr + entry" where
  "counted_picker K e =
     (case en_picker e of
        None \<Rightarrow> Inr e
      | Some r \<Rightarrow>
          if uint (en_ordinary e) > max_int64 \<or> uint (en_replays e) > max_int64 then Inl Refused
          else
            (let r' = r\<lparr>rw_ordinary := uint (en_ordinary e), rw_replays := uint (en_replays e)\<rparr> in
             sbind (validate_row K r') (\<lambda>_. Inr (e\<lparr>en_picker := Some r'\<rparr>))))"

definition update_counter :: "commit_env \<Rightarrow> writer \<Rightarrow> call_context \<Rightarrow> snapshot \<Rightarrow> head \<Rightarrow> bytes \<Rightarrow> head ract" where
  "update_counter T W C s h parent =
     (let G = cm_gc T; Z = child_reader T in
      andthen (in_world (find_record G (hd_identity h) parent)) (\<lambda>r.
      case id_entry r of
        None \<Rightarrow> give h
      | Some e \<Rightarrow>
          andthen (snapshot_count Z s (child_query e False)) (\<lambda>ordinary.
          andthen (snapshot_count Z s (child_query e True)) (\<lambda>replays.
          let e' = e\<lparr>en_ordinary := of_nat ordinary, en_replays := of_nat replays\<rparr> in
          if en_ordinary e' = en_ordinary e \<and> en_replays e' = en_replays e then give h
          else
            andthen (lift_sum (counted_picker (cm_codec T) e')) (\<lambda>e'.
            andthen (in_world (update_orders G W C h parent (Some e) (Some e'))) (\<lambda>h.
            andthen (in_world (set_leaf G W C (hd_identity h) parent
                (Some (IdentityValue \<lparr>id_revision = id_revision r, id_entry = Some e'\<rparr>)))) (\<lambda>root.
              give (h\<lparr>hd_identity := root\<rparr>))))))))"

fun update_counters :: "commit_env \<Rightarrow> writer \<Rightarrow> call_context \<Rightarrow> snapshot \<Rightarrow> bytes list \<Rightarrow> head \<Rightarrow> head ract" where
  "update_counters T W C s [] h = give h"
| "update_counters T W C s (k # ks) h = andthen (update_counter T W C s h k) (update_counters T W C s ks)"

text \<open>The candidate's project tree is counted through a snapshot of its own.\<close>

definition count_snapshot :: "commit_env \<Rightarrow> head \<Rightarrow> nat \<Rightarrow> snapshot" where
  "count_snapshot T h n =
     \<lparr>sn_id = 0, sn_head = h, sn_etag = [], sn_started = z_now (child_reader T) n, sn_nonce = [], sn_secret = []\<rparr>"

definition count_state :: "world \<Rightarrow> reader" where
  "count_state w =
     \<lparr>rd_world = w, rd_looks = Suc (w_calls w), rd_cache = [], rd_requests = 0, rd_work = None, rd_discovery = False, rd_resolved = []\<rparr>"

definition update_child_counters :: "commit_env \<Rightarrow> writer \<Rightarrow> call_context \<Rightarrow> head \<Rightarrow> bytes \<Rightarrow> entry option \<Rightarrow> entry option \<Rightarrow> head act" where
  "update_child_counters T W C h key old new =
     andthen (lift_sum (affected_keys key old new)) (\<lambda>keys w.
       case update_counters T W C (count_snapshot T h (w_calls w)) (cm_range T (w_calls w) keys) h (count_state w) of
         (r, p) \<Rightarrow> (r, rd_world p))"

subsection \<open>Commit\<close>

text \<open>\<open>freezeMutation\<close>: what is committed is what its encoding decodes to.\<close>

definition freeze_mutation :: "commit_env \<Rightarrow> mutation \<Rightarrow> cerr + mutation \<times> bytes" where
  "freeze_mutation T m =
     (if (case mu_next m of None \<Rightarrow> False | Some e \<Rightarrow> en_overflow e \<noteq> []) then Inl Refused
      else if mu_id m = [] \<or> length (mu_id m) > 128 \<or> mu_key m = [] \<or> length (mu_key m) > 1024 then Inl Refused
      else if (case mu_next m of None \<Rightarrow> False | Some e \<Rightarrow> rkey (en_metadata e) = [] \<or> rsha (en_metadata e) = []) then Inl Refused
      else
        (case cm_mutation T m of
           None \<Rightarrow> Inl Refused
         | Some b \<Rightarrow> (case cm_mutation_in T b of None \<Rightarrow> Inl Refused | Some frozen \<Rightarrow> Inr (frozen, t_sha (x_run (cm_x T)) b))))"

text \<open>The entry to store: verified, with the new revision, and with its picker row when the head is scoped.\<close>

definition next_entry :: "commit_env \<Rightarrow> bool \<Rightarrow> mutation \<Rightarrow> bytes \<Rightarrow> entry option \<Rightarrow> cerr + entry option" where
  "next_entry T scoped m revision new =
     (case new of
        None \<Rightarrow> Inr None
      | Some e \<Rightarrow>
          (let e' = e\<lparr>en_revision := revision\<rparr> in
           if scoped then sbind (build_row (cm_codec T) (mu_key m) e') (\<lambda>r. Inr (Some (e'\<lparr>en_picker := Some r\<rparr>)))
           else Inr (Some e')))"

definition publish_fields :: "head \<Rightarrow> bytes \<Rightarrow> head" where
  "publish_fields h revision =
     h\<lparr>hd_generation := hd_generation h + 1, hd_epoch := revision, hd_committed := 0, hd_pub_epoch := revision,
       hd_pub_witness := no_head_witness\<rparr>"

text \<open>
  \<open>prepareCommit\<close> works on the caller's entry: the next attempt starts from the entry as this one left it. Hence
  the entry in the result.
\<close>

definition prepare_commit :: "commit_env \<Rightarrow> writer \<Rightarrow> call_context \<Rightarrow> head \<Rightarrow> mutation \<Rightarrow> bytes \<Rightarrow> bytes \<Rightarrow> bool \<Rightarrow> (head \<times> entry option) act" where
  "prepare_commit T W C base m revision digest existing =
     (let G = cm_gc T; X = cm_x T; scoped = (hd_protocol base = 11 \<and> hd_schema base = 5) in
      if \<not> scoped \<and> (hd_protocol base \<noteq> 10 \<or> hd_schema base \<noteq> 4) then raise Refused
      else if \<not> scoped \<and> (case mu_next m of None \<Rightarrow> False | Some e \<Rightarrow> en_picker e \<noteq> None) then raise Refused
      else
        andthen (case mu_next m of None \<Rightarrow> give None
          | Some e \<Rightarrow> andthen (verify_entry G (mu_key m) e) (\<lambda>e. give (Some e))) (\<lambda>verified.
        andthen (find_record G (hd_identity base) (mu_key m)) (\<lambda>old.
        if id_revision old \<noteq> mu_expected m then raise Conflict
        else
          andthen (lift_sum (next_entry T scoped m revision verified)) (\<lambda>new.
          if scoped \<and> (case id_entry old of None \<Rightarrow> False | Some e \<Rightarrow> en_picker e = None) then raise Refused
          else
            andthen (update_orders G W C base (mu_key m) (id_entry old) new) (\<lambda>h.
            andthen (set_leaf G W C (hd_identity h) (mu_key m) (Some (IdentityValue \<lparr>id_revision = revision, id_entry = new\<rparr>))) (\<lambda>identity.
            andthen (update_child_counters T W C (h\<lparr>hd_identity := identity\<rparr>) (mu_key m) (id_entry old) new) (\<lambda>h.
            andthen (set_leaf G W C (hd_receipts h) (mu_id m) (Some (ReceiptValue \<lparr>mr_digest = digest, mr_revision = revision,
                mr_session = mu_key m, mr_metadata = (case new of None \<Rightarrow> [] | Some e \<Rightarrow> rsha (en_metadata e))\<rparr>))) (\<lambda>receipts.
            let h = h\<lparr>hd_receipts := receipts\<rparr> in
            andthen (if existing then andthen (put_encoded X W C KindHeads (r_head (x_run X) base) 16384) (\<lambda>previous.
                give (h\<lparr>hd_pred_witness := hd_pub_witness base, hd_previous := previous\<rparr>)) else give h) (\<lambda>h.
              give (publish_fields h revision, new))))))))))"

text \<open>After a put that failed: a receipt in a fresh head settles it; only a definite refusal is tried again.\<close>

definition settle_commit :: "commit_env \<Rightarrow> bytes \<Rightarrow> bytes \<Rightarrow> cerr \<Rightarrow> world \<Rightarrow> (cerr + bytes option) \<times> world" where
  "settle_commit T mid digest e w =
     (case live_head (cm_x T) w of
        (Inl e', w1) \<Rightarrow> (Inl (Join CommitUnknown (Join e e')), w1)
      | (Inr (fresh, _), w1) \<Rightarrow>
          (case find_receipt T fresh mid digest w1 of
             (Inl e', w2) \<Rightarrow> (Inl (Join CommitUnknown (Join e e')), w2)
           | (Inr committed, w2) \<Rightarrow>
               (if committed \<noteq> [] then Inr (Some committed)
                else if \<not> is_err Precondition e then Inl (Join CommitUnknown e) else Inr None, w2)))"

fun commit_rounds :: "commit_env \<Rightarrow> writer \<Rightarrow> call_context \<Rightarrow> bytes \<Rightarrow> bytes \<Rightarrow> nat \<Rightarrow> mutation \<Rightarrow> bytes act" where
  "commit_rounds T W C digest revision 0 m = raise Precondition"
| "commit_rounds T W C digest revision (Suc n) m =
     (let X = cm_x T in
      andthen (context_err X) (\<lambda>_.
      andthen (live_head X) (\<lambda>(h, etag).
      if hd_lease h \<noteq> [] then raise Refused
      else
        andthen (find_receipt T h (mu_id m) digest) (\<lambda>committed.
        if committed \<noteq> [] then give committed
        else
          andthen (prepare_commit T W C h m revision digest (etag \<noteq> [])) (\<lambda>(next, entry).
          case r_head (x_run X) next of
            None \<Rightarrow> raise Refused
          | Some raw \<Rightarrow>
              andthen (check_authority X W C) (\<lambda>_ w.
                case put_conditional X head_key raw \<lparr>pc_match = etag, pc_create = (etag = [])\<rparr> w of
                  (Inr _, w') \<Rightarrow> (Inr revision, w')
                | (Inl e, w') \<Rightarrow>
                    andthen (settle_commit T (mu_id m) digest e) (\<lambda>settled.
                      case settled of
                        Some committed \<Rightarrow> give committed
                      | None \<Rightarrow> commit_rounds T W C digest revision n (m\<lparr>mu_next := entry\<rparr>)) w'))))))"

definition commit_attempts :: nat where
  "commit_attempts = 64"

definition commit_admitted :: "commit_env \<Rightarrow> writer \<Rightarrow> call_context \<Rightarrow> mutation \<Rightarrow> bytes act" where
  "commit_admitted T W C m =
     andthen (check_authority (cm_x T) W C) (\<lambda>_.
     andthen (lift_sum (freeze_mutation T m)) (\<lambda>(frozen, digest).
     andthen (new_mutation_id (cm_x T)) (\<lambda>revision.
       commit_rounds T W C digest revision commit_attempts frozen)))"

text \<open>\<open>Commit\<close>: the references its admission protects.\<close>

definition mutation_refs :: "mutation \<Rightarrow> cerr + objref list" where
  "mutation_refs m =
     (case mu_next m of
        None \<Rightarrow> Inr []
      | Some e \<Rightarrow> sbind (canonical_source_references (metadata.truncate (en_summary e))) (\<lambda>sources.
          Inr (en_metadata e # map source_ref_object sources)))"

definition begin_commit :: "commit_env \<Rightarrow> writer \<Rightarrow> call_context \<Rightarrow> bool \<Rightarrow> mutation \<Rightarrow> (mutation \<times> bytes \<times> bytes) act" where
  "begin_commit T W C claimed m =
     (if claimed then raise AdmissionClosed
      else if wt_readonly W then raise ReadOnly
      else
        andthen (lift_sum (freeze_mutation T m)) (\<lambda>(frozen, digest).
        andthen (lift_sum (mutation_refs frozen)) (\<lambda>refs.
        andthen (new_mutation_id (cm_x T)) (\<lambda>invocation.
        let owner = ''commit/'' @ mu_id m @ ''/'' @ invocation in
        andthen (admit (cm_x T) W C owner digest refs) (\<lambda>_. give (frozen, digest, owner))))))"

text \<open>The revision and the error; an unknown outcome keeps the admission.\<close>

definition commit :: "commit_env \<Rightarrow> writer \<Rightarrow> call_context \<Rightarrow> bool \<Rightarrow> mutation \<Rightarrow> world \<Rightarrow> (bytes \<times> cerr option) \<times> world" where
  "commit T W C claimed m w =
     (case begin_commit T W C claimed m w of
        (Inl e, w1) \<Rightarrow> (([], Some e), w1)
      | (Inr (frozen, digest, owner), w1) \<Rightarrow>
          (case commit_admitted T W (C\<lparr>cx_write := Some \<lparr>wa_writer = wt_id W, wa_owner = owner, wa_digest = digest, wa_seal = []\<rparr>\<rparr>) frozen w1 of
             (Inl e, w2) \<Rightarrow>
               if is_err CommitUnknown e then (([], Some e), w2)
               else (case complete (cm_x T) W C owner digest w2 of
                   (Inl e', w3) \<Rightarrow> (([], Some (Join e e')), w3) | (Inr _, w3) \<Rightarrow> (([], Some e), w3))
           | (Inr revision, w2) \<Rightarrow>
               (case complete (cm_x T) W C owner digest w2 of
                  (Inl e', w3) \<Rightarrow> ((revision, Some e'), w3) | (Inr _, w3) \<Rightarrow> ((revision, None), w3))))"

end
