(* ===== verification/CommitTrees.thy ===== *)
theory CommitTrees
  imports CatalogCommit GcReach CatalogUpdate
begin

text \<open>
  The trees of a commit. While a commit is admitted the collector deletes nothing, and a node object, once
  created, is never replaced: the nodes of the bucket only grow. Over the nodes U that it has at the end, a
  tree operation that succeeds against the world has the same result as that of \<open>CatalogTree\<close> on a provider
  that holds U and never fails.
\<close>

subsection \<open>Node objects\<close>

definition node_bytes :: "objects \<Rightarrow> (bytes \<rightharpoonup> bytes)" where
  "node_bytes b k = (if \<exists>d. k = node_key d then map_option fst (b k) else None)"

text \<open>The other machines leave node objects as they are.\<close>

definition nodes_last :: "environment \<Rightarrow> bool" where
  "nodes_last X \<longleftrightarrow> (\<forall>n b. node_bytes b \<subseteq>\<^sub>m node_bytes (x_others X n b))"

text \<open>\<open>outgrown\<close>: the bucket has a node that U has not.\<close>

definition within :: "gc_env \<Rightarrow> (bytes \<rightharpoonup> bytes) \<Rightarrow> world \<Rightarrow> bool" where
  "within G U w \<longleftrightarrow> nodes_last (gc_x G) \<and> c_sha (gc_nodes G) = t_sha (x_run (gc_x G)) \<and>
     (\<forall>k\<in>dom U. \<exists>d. k = node_key d) \<and> node_bytes (w_objects w) \<subseteq>\<^sub>m U"

definition outgrown :: "gc_env \<Rightarrow> (bytes \<rightharpoonup> bytes) \<Rightarrow> world \<Rightarrow> bool" where
  "outgrown G U w \<longleftrightarrow> \<not> within G U w"

lemma outgrown_grows: "outgrown G U w \<Longrightarrow> node_bytes (w_objects w) \<subseteq>\<^sub>m node_bytes (w_objects w') \<or> \<not> nodes_last (gc_x G) \<Longrightarrow> outgrown G U w'"
  unfolding outgrown_def within_def by (blast intro: map_le_trans)

lemma outgrown_arrive: "outgrown G U w \<Longrightarrow> outgrown G U (arrive (gc_x G) w)"
  by (erule outgrown_grows) (auto simp: nodes_last_def arrive_def)

lemma store_nodes:
  "w_objects w key = None \<or> (\<forall>d. key \<noteq> node_key d) \<Longrightarrow> node_bytes (w_objects w) \<subseteq>\<^sub>m node_bytes (w_objects (store X key raw n w))"
  by (auto simp: map_le_def node_bytes_def store_def split: if_splits)

lemma outgrown_store: "outgrown G U w \<Longrightarrow> w_objects w key = None \<or> (\<forall>d. key \<noteq> node_key d) \<Longrightarrow> outgrown G U (store X key raw n w)"
  by (erule outgrown_grows) (simp add: store_nodes)

subsection \<open>Results over the nodes of the end\<close>

text \<open>\<open>yields\<close>: every result satisfies Q, unless J holds at the end.\<close>

definition yields :: "('s \<Rightarrow> bool) \<Rightarrow> ('s, 'e, 'a) step \<Rightarrow> ('a \<Rightarrow> bool) \<Rightarrow> bool" where
  "yields J a Q \<longleftrightarrow> (\<forall>s x s'. a s = (Inr x, s') \<longrightarrow> J s' \<or> Q x)"

lemma yields_andthen:
  assumes "yields J a Q" "\<And>x. keeps J (f x)" "\<And>x. Q x \<Longrightarrow> yields J (f x) R"
  shows "yields J (andthen a f) R"
  unfolding yields_def andthen_Inr
proof (intro allI impI, elim exE conjE)
  fix s y s' x s1 assume a: "a s = (Inr x, s1)" and f: "f x s1 = (Inr y, s')"
  then have "J s1 \<or> Q x" using assms(1) by (auto simp: yields_def)
  then show "J s' \<or> R y" using keepsD [OF assms(2) _ f] assms(3) f unfolding yields_def by blast
qed

lemma yields_skip: "(\<And>x. yields J (f x) R) \<Longrightarrow> yields J (andthen a f) R"
  unfolding yields_def andthen_Inr by blast

lemma yields_lift: "(\<And>x. r = Inr x \<Longrightarrow> yields J (f x) R) \<Longrightarrow> yields J (andthen (lift_sum r) f) R"
  by (cases r) (simp_all add: yields_def andthen_def lift_sum_def)

lemma yields_lifted: "yields J (lift_sum r) (\<lambda>x. r = Inr x)"
  by (cases r) (simp_all add: yields_def lift_sum_def)

lemma yields_give: "Q x \<Longrightarrow> yields J (give x) Q"
  by (simp add: yields_def give_def)

lemma yields_raise: "yields J (raise e) Q"
  by (simp add: yields_def raise_def)

lemma yields_if: "(b \<Longrightarrow> yields J a Q) \<Longrightarrow> (\<not> b \<Longrightarrow> yields J a' Q) \<Longrightarrow> yields J (if b then a else a') Q"
  by simp

lemma yields_sum:
  "(\<And>y. x = Inl y \<Longrightarrow> yields J (a y) Q) \<Longrightarrow> (\<And>y. x = Inr y \<Longrightarrow> yields J (b y) Q) \<Longrightarrow>
   yields J (case x of Inl y \<Rightarrow> a y | Inr y \<Rightarrow> b y) Q"
  by (cases x) auto

lemma yields_option:
  "(x = None \<Longrightarrow> yields J a Q) \<Longrightarrow> (\<And>y. x = Some y \<Longrightarrow> yields J (b y) Q) \<Longrightarrow>
   yields J (case x of None \<Rightarrow> a | Some y \<Rightarrow> b y) Q"
  by (cases x) auto

lemma yields_weaken: "yields J a Q \<Longrightarrow> (\<And>x. Q x \<Longrightarrow> R x) \<Longrightarrow> yields J a R"
  unfolding yields_def by blast

lemma yieldsD: "yields J a Q \<Longrightarrow> a s = (Inr x, s') \<Longrightarrow> \<not> J s' \<Longrightarrow> Q x"
  unfolding yields_def by blast

subsection \<open>What only creates objects\<close>

text \<open>
  Besides reading, the operations of a commit create immutable objects where there are none; only the commit itself
  then writes the head.
\<close>

locale creates_kept = reads_kept "gc_x G" J for G :: gc_env and J +
  assumes kept_new: "J w \<Longrightarrow> kind \<in> {KindNodes, KindMetadata, KindHeads} \<Longrightarrow> w_objects w (immutable_key kind d) = None \<Longrightarrow>
    J (store (gc_x G) (immutable_key kind d) raw n w)"
begin

lemma kept_create:
  assumes "keeps J back" "kind \<in> {KindNodes, KindMetadata, KindHeads}"
  shows "keeps J (create_or_same (gc_x G) (immutable_key kind d) b back)"
  unfolding keeps_def
proof (intro allI impI)
  let ?key = "immutable_key kind d"
  fix w assume s: "J w"
  obtain r w1 where put: "put_conditional (gc_x G) ?key b \<lparr>pc_match = [], pc_create = True\<rparr> w = (r, w1)" by fastforce
  have s1: "J w1"
    using put kept_arrive [OF s] kept_new [OF kept_arrive [OF s] assms(2)]
    by (auto simp: put_conditional_def Let_def holds_condition_def split: call_fault.splits if_splits)
  obtain q w2 where b: "back w1 = (q, w2)" by fastforce
  have "J w2" by (rule keepsD [OF assms(1) s1 b])
  then show "J (snd (create_or_same (gc_x G) ?key b back w))"
    using put b s1 by (auto simp: create_or_same_def split: sum.splits)
qed

lemma kept_context [call_rules]: "keeps J (context_err X)"
  by (simp add: keeps_def context_err_def)

lemma kept_authority [call_rules]: "keeps J (check_authority (gc_x G) W C)"
  unfolding check_authority_def write_format_def by (intro keeps_rules call_rules)

lemma kept_put_admitted [call_rules]: "keeps J (put_admitted (gc_x G) W C kind b)"
  unfolding put_admitted_def Let_def objref.simps by (intro keeps_rules call_rules kept_create) simp

lemma kept_put_encoded [call_rules]: "keeps J (put_encoded (gc_x G) W C kind encoded limit)"
  unfolding put_encoded_def by (intro keeps_rules call_rules)

lemma kept_gc_node [call_rules]: "keeps J (gc_node G ref)"
  unfolding gc_node_def by (intro keeps_rules call_rules)

lemma kept_seek_rounds [call_rules]: "keeps J (seek_rounds G r ref key)"
  by (induction r arbitrary: ref) (auto intro!: keeps_rules call_rules simp: Let_def)

lemma kept_seek [call_rules]: "keeps J (seek G ref key)"
  by (simp add: seek_def kept_seek_rounds)

lemma kept_put_node [call_rules]: "keeps J (put_node G W C n)"
  by (simp add: put_node_def kept_put_encoded)

lemma kept_put_parts [call_rules]: "keeps J (put_parts G W C qs)"
proof (induction qs)
  case (Cons q qs)
  show ?case unfolding put_parts.simps Let_def by (intro keeps_rules call_rules Cons)
qed (simp add: keeps_const)

lemma kept_put_split [call_rules]: "keeps J (put_split G W C n)"
  unfolding put_split_def by (intro keeps_rules call_rules)

lemma kept_rewrite [call_rules]: "keeps J (rewrite G W C r ref key raw)"
proof (induction r arbitrary: ref)
  case (Suc r)
  show ?case unfolding rewrite.simps Let_def by (intro keeps_rules call_rules Suc)
qed (simp add: keeps_const)

lemma kept_set_leaf [call_rules]: "keeps J (set_leaf G W C ref key new)"
  unfolding set_leaf_def Let_def by (intro keeps_rules call_rules)

lemma kept_find_record [call_rules]: "keeps J (find_record G root key)"
  unfolding find_record_def by (intro keeps_rules call_rules)

lemma kept_set_leaves [call_rules]: "keeps J (set_leaves G W C new ks root)"
  by (induction ks arbitrary: root) (auto intro!: keeps_rules call_rules)

lemma kept_set_orders [call_rules]: "keeps J (set_orders G W C key e new roots)"
  unfolding set_orders_def by (intro keeps_rules call_rules)

lemma kept_update_orders [call_rules]: "keeps J (update_orders G W C h key old new)"
  unfolding update_orders_def by (intro keeps_rules call_rules)

lemma kept_verify_entry [call_rules]: "keeps J (verify_entry G key e)"
proof -
  have one: "keeps J (verify_source G r)" for r
    unfolding verify_source_def Let_def by (intro keeps_rules call_rules)
  have "keeps J (verify_sources G rs)" for rs
    by (induction rs) (auto intro!: keeps_rules one)
  then show ?thesis unfolding verify_entry_def Let_def by (intro keeps_rules call_rules)
qed

end

lemma node_key_kind: "immutable_key KindNodes d = node_key d"
  by (simp add: immutable_key_def node_key_def)

interpretation nodes_grow: creates_kept G "outgrown G U" for G U
  by unfold_locales (auto intro: outgrown_arrive outgrown_store)

subsection \<open>Nodes\<close>

definition ideal :: "(bytes \<rightharpoonup> bytes) \<Rightarrow> prov" where
  "ideal U = \<lparr>objs = U, faults = []\<rparr>"

lemma ideal_fields [simp]: "objs (ideal U) = U" "faults (ideal U) = []"
  by (simp_all add: ideal_def)

lemma within_node:
  assumes "\<not> outgrown G U w" "w_objects w (node_key d) = Some (raw, v)"
  shows "U (node_key d) = Some raw"
proof -
  have "node_bytes (w_objects w) (node_key d) = Some raw" using assms(2) by (auto simp: node_bytes_def)
  then show ?thesis using assms(1) map_le_def [of "node_bytes (w_objects w)" U] by (metis outgrown_def domI within_def)
qed

lemma get_version_cell: "get_version X key limit w = (Inr (raw, v), w') \<Longrightarrow> w_objects w' key = Some (raw, v)"
  by (auto simp: get_version_def Let_def split: call_fault.splits option.splits if_splits)

lemma read_object_cell: "read_object X ref limit w = (Inr raw, w') \<Longrightarrow> \<exists>v. w_objects w' (rkey ref) = Some (raw, v)"
  by (cases "ref_validate ref") (auto simp: read_object_def andthen_Inr split: if_splits dest: get_version_cell)

lemma create_or_same_cell:
  assumes "create_or_same X (rkey ref) b (read_object X ref limit) w = (Inr x, w')"
  shows "\<exists>v. w_objects w' (rkey ref) = Some (b, v)"
proof -
  obtain r w1 where put: "put_conditional X (rkey ref) b \<lparr>pc_match = [], pc_create = True\<rparr> w = (r, w1)" by fastforce
  show ?thesis
  proof (cases r)
    case (Inl e)
    then have "read_object X ref limit w1 = (Inr b, w')"
      using assms put by (auto simp: create_or_same_def split: sum.splits prod.splits if_splits)
    then show ?thesis by (rule read_object_cell)
  next
    case (Inr t)
    then have "w_objects w1 (rkey ref) = Some (b, x_version X (w_calls w) b)"
      using put by (auto simp: put_conditional_def Let_def store_def split: call_fault.splits if_splits)
    then show ?thesis using assms put Inr by (auto simp: create_or_same_def)
  qed
qed

lemma put_json_ideal:
  assumes "U (node_key (c_sha C (c_enc C n))) = Some (c_enc C n)" "codec_ok C K V" "length (c_enc C n) \<le> max_node_bytes"
  shows "put_json C n (ideal U) = (Inr \<lparr>rkey = node_key (c_sha C (c_enc C n)), rsha = c_sha C (c_enc C n)\<rparr>, ideal U)"
proof -
  let ?b = "c_enc C n"
  let ?d = "c_sha C ?b"
  have v: "ref_validate \<lparr>rkey = node_key ?d, rsha = ?d\<rparr> = Inr ()"
    using assms(2) by (simp add: codec_ok_def ref_validate_def node_key_def)
  have k: "node_key ?d \<noteq> []" by (simp add: node_key_def)
  have "read_ref C \<lparr>rkey = node_key ?d, rsha = ?d\<rparr> (length ?b) (ideal U) = (Inr ?b, ideal U)"
    using assms(1) v k by (simp add: read_ref_def andthen_def lift_sum_def get_limited_def next_fault_def equal_fold_def give_def)
  then show ?thesis
    using assms(1,3)
    by (simp add: put_json_def put_immutable_def andthen_def check_write_authority_def next_fault_def Let_def put_create_def give_def)
qed

lemma yields_put_node:
  assumes "codec_ok (gc_nodes G) K V"
  shows "yields (outgrown G U) (put_node G W C n) (\<lambda>ref. put_json (gc_nodes G) n (ideal U) = (Inr ref, ideal U))"
  unfolding yields_def
proof (intro allI impI, rule disjCI)
  fix w ref w' assume run: "put_node G W C n w = (Inr ref, w')" and "\<not> put_json (gc_nodes G) n (ideal U) = (Inr ref, ideal U)"
  show "outgrown G U w'"
  proof (rule ccontr)
    assume b: "\<not> outgrown G U w'"
    then have sha: "c_sha (gc_nodes G) = t_sha (x_run (gc_x G))" by (simp add: outgrown_def within_def)
    let ?b = "c_enc (gc_nodes G) n"
    let ?ref = "\<lparr>rkey = node_key (c_sha (gc_nodes G) ?b), rsha = c_sha (gc_nodes G) ?b\<rparr>"
    obtain w1 where c: "create_or_same (gc_x G) (rkey ?ref) ?b (read_object (gc_x G) ?ref (int (length ?b))) w1 = (Inr (), w')"
        "ref = ?ref" "length ?b \<le> max_node_bytes"
      using run by (auto simp: put_node_def put_encoded_def put_admitted_def Let_def andthen_Inr longer_def node_key_kind sha split: if_splits)
    have "U (node_key (c_sha (gc_nodes G) ?b)) = Some ?b"
      using create_or_same_cell [OF c(1)] within_node [OF b] by auto
    then show False using put_json_ideal [OF _ assms c(3)] c(2) \<open>\<not> put_json _ _ _ = _\<close> by simp
  qed
qed

text \<open>A node of U that is read from the world is that of U.\<close>

lemma yields_gc_node:
  assumes "rkey ref = [] \<or> rkey ref \<in> dom U"
  shows "yields (outgrown G U) (gc_node G ref) (\<lambda>n. load (gc_nodes G) U ref = Some n)"
  unfolding yields_def
proof (intro allI impI)
  fix w n w' assume run: "gc_node G ref w = (Inr n, w')"
  show "outgrown G U w' \<or> load (gc_nodes G) U ref = Some n"
  proof (cases "rkey ref = []")
    case True
    then show ?thesis using run by (auto simp: gc_node_def load_def split: sum.splits)
  next
    case False
    obtain raw w1 where o: "ref_validate ref = Inr ()" "read_object (gc_x G) ref (int max_node_bytes) w = (Inr raw, w1)"
        "(case decode_node (gc_nodes G) raw of Inl _ \<Rightarrow> raise Refused | Inr n \<Rightarrow> give n) w1 = (Inr n, w')"
      using run False by (cases "ref_validate ref") (auto simp: gc_node_def andthen_Inr raise_def)
    then have o': "ref_validate ref = Inr ()" "read_object (gc_x G) ref (int max_node_bytes) w = (Inr raw, w')"
        "decode_node (gc_nodes G) raw = Inr n"
      by (auto split: sum.splits)
    then have d: "length raw \<le> max_node_bytes" "equal_fold (t_sha (x_run (gc_x G)) raw) (rsha ref)"
      using False by (auto simp: read_object_def andthen_Inr longer_def split: if_splits)
    have "load (gc_nodes G) U ref = Some n" if b: "\<not> outgrown G U w'"
    proof -
      obtain k where k: "rkey ref = node_key k" using assms False b by (auto simp: outgrown_def within_def)
      have "U (rkey ref) = Some raw" using read_object_cell [OF o'(2)] within_node [OF b] k by auto
      then show ?thesis using False o'(1,3) d b by (simp add: load_def outgrown_def within_def)
    qed
    then show ?thesis by blast
  qed
qed

lemma tree_ref:
  assumes "tree C K V U h ref es"
  shows "rkey ref = [] \<or> rkey ref \<in> dom U" "load C U ref \<noteq> None"
  using assms by (cases h; auto simp: load_def split: sum.splits if_splits option.splits)+

lemma sort_search_loop_le: "i \<le> j \<Longrightarrow> sort_search_loop f i j \<le> j"
proof (induction f i j rule: sort_search_loop.induct)
  case (1 f i j)
  show ?case
  proof (cases "i < j")
    case True
    then have h: "i \<le> (i + j) div 2" "(i + j) div 2 < j" by auto
    show ?thesis
      using 1(1) [OF True refl] 1(2) [OF True refl] h True
      by (subst sort_search_loop.simps) (auto simp: Let_def intro: order_trans less_imp_le)
  qed (use 1(3) in \<open>simp add: sort_search_loop.simps\<close>)
qed

lemma child_index_le: "child_index cs key \<le> length cs"
  by (simp add: child_index_def sort_search_def sort_search_loop_le)

lemma tree_child:
  assumes "tree C K V U h ref es" "load C U ref = Some n" "i < length (children n)"
  obtains h' f where "tree C K V U h' (bref (children n ! i)) f"
proof -
  obtain h2 where h: "h = Suc h2" "holds_with (tree C K V U h2) K n es" using assms(1,2) by (cases h) auto
  have "children n \<noteq> []" using assms(3) by auto
  then obtain ess where "list_all2 (\<lambda>c e. branch_ok K c e \<and> tree C K V U h2 (bref c) e) (children n) ess"
    using h(2) by (auto simp: holds_with_def)
  then have "tree C K V U h2 (bref (children n ! i)) (ess ! i)"
    using assms(3) by (auto dest: list_all2_nthD)
  then show thesis by (rule that)
qed

subsection \<open>Lookups\<close>

lemma yields_seek_rounds:
  assumes "tree (gc_nodes G) K V U h ref es"
  shows "yields (outgrown G U) (seek_rounds G r ref key) (\<lambda>v. lookup_rounds (gc_nodes G) r ref key (ideal U) = (Inr v, ideal U))"
  using assms
proof (induction r arbitrary: h ref es)
  case (Suc r)
  let ?C = "gc_nodes G"
  have step: "yields (outgrown G U) (let i = child_index (children n) key in
          if i = length (children n) then give None else seek_rounds G r (bref (children n ! i)) key)
      (\<lambda>v. lookup_rounds ?C (Suc r) ref key (ideal U) = (Inr v, ideal U))"
    if l: "load ?C U ref = Some n" and ne: "children n \<noteq> []" for n
  proof (cases "child_index (children n) key = length (children n)")
    case True
    then show ?thesis using read_node_fine [of ?C "ideal U" ref n] l ne by (simp add: yields_give andthen_def give_def)
  next
    case False
    then have i: "child_index (children n) key < length (children n)" using child_index_le [of "children n" key] by simp
    obtain h' f where t: "tree ?C K V U h' (bref (children n ! child_index (children n) key)) f"
      by (rule tree_child [OF Suc.prems l i])
    show ?thesis
      using Suc.IH [OF t] False read_node_fine [of ?C "ideal U" ref n] l ne by (simp add: andthen_def Let_def)
  qed
  have leaf: "yields (outgrown G U) (let i = leaf_index (leaves n) key in
          if i < length (leaves n) \<and> ikey (leaves n ! i) = key then give (Some (ival (leaves n ! i))) else give None)
      (\<lambda>v. lookup_rounds ?C (Suc r) ref key (ideal U) = (Inr v, ideal U))"
    if "load ?C U ref = Some n" "children n = []" for n
    using read_node_fine [of ?C "ideal U" ref n] that by (auto simp: Let_def andthen_def give_def yields_def hoare_def)
  show ?case
    unfolding seek_rounds.simps
    by (rule yields_andthen [OF yields_gc_node [OF tree_ref(1) [OF Suc.prems]]], (unfold Let_def, intro keeps_rules call_rules)[1],
      rule yields_if; (rule leaf, assumption+ | rule step, assumption+))
qed (simp add: yields_raise)

lemma yields_seek:
  assumes "tree (gc_nodes G) K V U h ref es"
  shows "yields (outgrown G U) (seek G ref key) (\<lambda>v. v = map_of es key)"
  unfolding seek_def using yields_seek_rounds [OF assms]
  by (rule yields_weaken) (rule lookup_rounds_correct, assumption, simp only: ideal_fields, rule assms)

subsection \<open>Updates\<close>

lemma yields_put_parts:
  assumes "codec_ok (gc_nodes G) K V"
  shows "yields (outgrown G U) (put_parts G W C qs) (\<lambda>bs. write_parts (gc_nodes G) qs (ideal U) = (Inr bs, ideal U))"
proof (induction qs)
  case (Cons q qs)
  show ?case
    unfolding put_parts.simps Let_def
    by (intro yields_andthen [OF yields_put_node [OF assms]] yields_andthen [OF Cons] yields_give keeps_rules call_rules)
      (simp add: Let_def andthen_def give_def)
qed (simp add: yields_def hoare_def give_def)

lemma yields_put_split:
  assumes "codec_ok (gc_nodes G) K V"
  shows "yields (outgrown G U) (put_split G W C n) (\<lambda>bs. store_node (gc_nodes G) n (ideal U) = (Inr bs, ideal U))"
  unfolding put_split_def
  by (intro yields_if yields_give yields_sum yields_raise yields_weaken [OF yields_put_parts [OF assms]])
    (auto simp: store_node_def give_def andthen_def lift_sum_def)

lemma yields_rewrite:
  assumes "codec_ok (gc_nodes G) K V" "tree (gc_nodes G) K V U h ref es"
  shows "yields (outgrown G U) (rewrite G W C r ref key val) (\<lambda>bs. change (gc_nodes G) r ref key val (ideal U) = (Inr bs, ideal U))"
  using assms(2)
proof (induction r arbitrary: h ref es)
  case (Suc r)
  let ?C = "gc_nodes G"
  define i where "i n = (if child_index (children n) key = length (children n) then child_index (children n) key - 1
      else child_index (children n) key)" for n :: node
  have step: "yields (outgrown G U) (andthen (rewrite G W C r (bref (children n ! i n)) key val) (\<lambda>changed.
            put_split G W C (n\<lparr>children := take (i n) (children n) @ changed @ drop (Suc (i n)) (children n)\<rparr>)))
      (\<lambda>bs. change ?C (Suc r) ref key val (ideal U) = (Inr bs, ideal U))"
    if l: "load ?C U ref = Some n" and ne: "children n \<noteq> []" for n
  proof -
    have "i n < length (children n)" using child_index_le [of "children n" key] ne by (auto simp: i_def)
    then obtain h' f where t: "tree ?C K V U h' (bref (children n ! i n)) f" by (rule tree_child [OF Suc.prems l])
    show ?thesis
      by (rule yields_andthen [OF Suc.IH [OF t]], rule nodes_grow.kept_put_split, rule yields_weaken [OF yields_put_split [OF assms(1)]])
        (use read_node_fine [of ?C "ideal U" ref n] l ne in \<open>simp add: andthen_def Let_def i_def\<close>)
  qed
  have leaf: "yields (outgrown G U) (put_split G W C (n\<lparr>leaves := change_leaves (leaves n) key val\<rparr>))
      (\<lambda>bs. change ?C (Suc r) ref key val (ideal U) = (Inr bs, ideal U))"
    if "load ?C U ref = Some n" "children n = []" for n
    by (rule yields_weaken [OF yields_put_split [OF assms(1)]])
      (use read_node_fine [of ?C "ideal U" ref n] that in \<open>simp add: andthen_def\<close>)
  show ?case
    unfolding rewrite.simps Let_def i_def [symmetric]
    by (rule yields_andthen [OF yields_gc_node [OF tree_ref(1) [OF Suc.prems]]], (intro keeps_rules call_rules)[1],
      rule yields_if; (rule leaf, assumption+ | rule step, assumption+))
qed (simp add: yields_raise)

text \<open>
  \<open>rooted\<close>: the root of a tree over the entries es, if it can be read at all; a root that was just written with too
  many children cannot.
\<close>

definition rooted :: "gc_env \<Rightarrow> (bytes \<Rightarrow> bool) \<Rightarrow> (bytes \<Rightarrow> bool) \<Rightarrow> (bytes \<rightharpoonup> bytes) \<Rightarrow> objref \<Rightarrow> (bytes \<times> bytes) list \<Rightarrow> bool" where
  "rooted G K V U ref es \<longleftrightarrow> (rkey ref = [] \<or> rkey ref \<in> dom U) \<and>
     (load (gc_nodes G) U ref \<noteq> None \<longrightarrow> (\<exists>h. tree (gc_nodes G) K V U h ref es))"

lemma rooted_tree: "tree (gc_nodes G) K V U h ref es \<Longrightarrow> rooted G K V U ref es"
  unfolding rooted_def using tree_ref(1) by blast

lemma yields_rooted_seek:
  assumes "rooted G K V U ref es"
  shows "yields (outgrown G U) (seek G ref key) (\<lambda>v. v = map_of es key)"
proof (cases "load (gc_nodes G) U ref = None")
  case True
  obtain d where d: "max_depth = Suc d" by (simp add: max_depth_def)
  have r: "rkey ref = [] \<or> rkey ref \<in> dom U" using assms by (simp add: rooted_def)
  show ?thesis
    unfolding seek_def d seek_rounds.simps Let_def
    by (rule yields_andthen [OF yields_gc_node [OF r]], (intro keeps_rules call_rules)[1]) (simp add: True)
next
  case False
  then obtain h where "tree (gc_nodes G) K V U h ref es" using assms by (auto simp: rooted_def)
  then show ?thesis by (rule yields_seek)
qed

lemma ideal_update_rooted:
  assumes "update_tree (gc_nodes G) ref key (map_option Inr val) (ideal U) = (Inr ref', ideal U)" "codec_ok (gc_nodes G) K V"
    and "tree (gc_nodes G) K V U h ref es" "K key" "\<And>v. val = Some v \<Longrightarrow> V v" "length es < max_uint64"
    and "rkey ref' = [] \<or> rkey ref' \<in> dom U"
  shows "rooted G K V U ref' (upd key val es)"
proof -
  have v: "map_option projr (map_option Inr val) = val" by (cases val) auto
  have "tree (gc_nodes G) K V U (Suc h) ref' (upd key val es)" if "load (gc_nodes G) U ref' \<noteq> None"
    using update_trees [of "gc_nodes G" ref key "map_option Inr val" "ideal U" ref' "ideal U" K V h es] assms that unfolding v
    by simp
  then show ?thesis using assms(7) unfolding rooted_def by blast
qed

text \<open>The value a leaf is given, encoded.\<close>

definition encodes :: "gc_env \<Rightarrow> bytes \<Rightarrow> tree_value option \<Rightarrow> bytes option \<Rightarrow> bool" where
  "encodes G key new raw \<longleftrightarrow>
     (case new of None \<Rightarrow> raw = None | Some v \<Rightarrow> \<exists>b. raw = Some b \<and> encode_tree_value (gc_codec G) key v = Inr b)"

lemma yields_root:
  assumes "codec_ok (gc_nodes G) K V" "tree (gc_nodes G) K V U h ref es" "K key" "\<And>v. val = Some v \<Longrightarrow> V v" "length es < max_uint64"
    and "length key \<le> 4096" "change (gc_nodes G) max_depth ref key val (ideal U) = (Inr parts, ideal U)"
  shows "yields (outgrown G U) (if parts = [] then give no_ref else if length parts = 1 then give (bref (hd parts))
      else (let n = empty_node\<lparr>children := parts\<rparr> in put_node G W C (n\<lparr>ncount := node_count n\<rparr>)))
    (\<lambda>ref'. rooted G K V U ref' (upd key val es))"
proof -
  let ?root = "if parts = [] then give no_ref else if length parts = 1 then give (bref (hd parts))
      else (let n = empty_node\<lparr>children := parts\<rparr> in put_json (gc_nodes G) (n\<lparr>ncount := node_count n\<rparr>))"
  have upd: "update_tree (gc_nodes G) ref key (map_option Inr val) (ideal U) = ?root (ideal U)"
    using assms(6,7) by (cases val) (simp_all add: update_tree_def andthen_def lift_sum_def give_def)
  obtain ess where ess: "list_all2 (\<lambda>c e. branch_ok K c e \<and> tree (gc_nodes G) K V U h (bref c) e) parts ess"
    using change_trees [OF assms(7,1) _ assms(3,6,4,5), of h] assms(2) by auto
  note rooted = ideal_update_rooted [OF _ assms(1-5)]
  consider (none) "parts = []" | (one) b where "parts = [b]" | (more) "1 < length parts"
    by (cases parts; cases "tl parts") auto
  then show ?thesis
  proof cases
    case none
    then show ?thesis using rooted [where ref' = no_ref] upd by (auto simp: no_ref_def give_def intro: yields_give)
  next
    case one
    then obtain e where "tree (gc_nodes G) K V U h (bref b) e" using ess by (auto simp: list_all2_Cons1)
    then show ?thesis using one rooted [where ref' = "bref b"] upd tree_ref(1) by (auto simp: give_def intro!: yields_give)
  next
    case more
    let ?n = "empty_node\<lparr>children := parts\<rparr>"
    have p: "parts \<noteq> []" "length parts \<noteq> 1" using more by auto
    have "rooted G K V U ref' (upd key val es)"
      if put: "put_json (gc_nodes G) (?n\<lparr>ncount := node_count ?n\<rparr>) (ideal U) = (Inr ref', ideal U)" for ref'
    proof (rule rooted)
      show "update_tree (gc_nodes G) ref key (map_option Inr val) (ideal U) = (Inr ref', ideal U)"
        using upd put p by (simp add: Let_def)
      show "rkey ref' = [] \<or> rkey ref' \<in> dom U" using put_json_Inr(2) [OF put] by auto
    qed
    then show ?thesis using p by (simp add: Let_def yields_weaken [OF yields_put_node [OF assms(1)]])
  qed
qed

lemma yields_set_leaf:
  assumes "codec_ok (gc_nodes G) K V" "rooted G K V U ref es" "K key" "length es < max_uint64"
    and "\<And>raw b. encodes G key new raw \<Longrightarrow> raw = Some b \<Longrightarrow> V b"
  shows "yields (outgrown G U) (set_leaf G W C ref key new) (\<lambda>ref'. \<exists>raw. encodes G key new raw \<and> rooted G K V U ref' (upd key raw es))"
proof -
  have encoded: "yields (outgrown G U) (case new of None \<Rightarrow> give None
          | Some v \<Rightarrow> andthen (lift_sum (encode_tree_value (gc_codec G) key v)) (\<lambda>b. give (Some b))) (encodes G key new)"
    by (cases new) (auto simp: encodes_def intro!: yields_give yields_lift)
  show ?thesis
  proof (cases "load (gc_nodes G) U ref = None")
    case True
    obtain d where d: "max_depth = Suc d" by (simp add: max_depth_def)
    have r: "rkey ref = [] \<or> rkey ref \<in> dom U" using assms(2) by (simp add: rooted_def)
    have "yields (outgrown G U) (rewrite G W C max_depth ref key raw) (\<lambda>_. False)" for raw
      unfolding d rewrite.simps Let_def
      by (rule yields_andthen [OF yields_gc_node [OF r]], (intro keeps_rules call_rules)[1]) (simp add: True)
    note none = yields_andthen [OF this]
    show ?thesis
      unfolding set_leaf_def Let_def
      by (rule yields_if, rule yields_raise, rule yields_skip, rule none, (intro keeps_rules call_rules)[1]) simp
  next
    case False
    then obtain h where t: "tree (gc_nodes G) K V U h ref es" using assms(2) by (auto simp: rooted_def)
    show ?thesis
      unfolding set_leaf_def
    proof (rule yields_if, rule yields_raise, rule yields_andthen [OF encoded], (unfold Let_def, intro keeps_rules call_rules)[1],
        rule yields_andthen [OF yields_rewrite [OF assms(1) t]], (unfold Let_def, intro keeps_rules call_rules)[1])
      fix raw parts
      assume a: "encodes G key new raw" "change (gc_nodes G) max_depth ref key raw (ideal U) = (Inr parts, ideal U)" "\<not> 4096 < length key"
      have V: "V b" if "raw = Some b" for b using assms(5) [OF a(1) that] .
      have "yields (outgrown G U) (if parts = [] then give no_ref else if length parts = 1 then give (bref (hd parts))
          else (let n = empty_node\<lparr>children := parts\<rparr> in put_node G W C (n\<lparr>ncount := node_count n\<rparr>)))
        (\<lambda>ref'. rooted G K V U ref' (upd key raw es))"
        by (rule yields_root [OF assms(1) t assms(3) V assms(4) _ a(2)]) (use a(3) in simp_all)
      then show "yields (outgrown G U) (if parts = [] then give no_ref else if length parts = 1 then give (bref (hd parts))
          else (let n = empty_node\<lparr>children := parts\<rparr> in put_node G W C (n\<lparr>ncount := node_count n\<rparr>)))
        (\<lambda>ref'. \<exists>raw. encodes G key new raw \<and> rooted G K V U ref' (upd key raw es))"
        by (rule yields_weaken) (use a(1) in blast)
    qed
  qed
qed

end
