(* ===== verification/CommitRefines.thy ===== *)
theory CommitRefines
  imports CommitTrees SnapshotTrees "HOL-Library.Multiset"
begin

text \<open>
  What a prepared commit publishes: the identity tree of the next head is that of the base with one record set,
  up to the counters of children, and its receipts are those of the base with one receipt added.
\<close>

subsection \<open>Records\<close>

definition record_at :: "gc_env \<Rightarrow> (bytes \<times> bytes) list \<Rightarrow> bytes \<Rightarrow> cerr + identity" where
  "record_at G es key =
     (case map_of es key of None \<Rightarrow> Inr \<lparr>id_revision = [], id_entry = None\<rparr> | Some raw \<Rightarrow> decode_identity (gc_codec G) raw)"

lemma yields_find:
  assumes "rooted G K V U ref es"
  shows "yields (outgrown G U) (find_record G ref key) (\<lambda>r. record_at G es key = Inr r)"
proof -
  have "yields (outgrown G U) (case found of None \<Rightarrow> give \<lparr>id_revision = [], id_entry = None\<rparr>
      | Some raw \<Rightarrow> lift_sum (decode_identity (gc_codec G) raw)) (\<lambda>r. record_at G es key = Inr r)"
    if "found = map_of es key" for found
    unfolding record_at_def that by (cases "map_of es key") (simp_all add: yields_give yields_lifted)
  note decoded = this
  show ?thesis
    unfolding find_record_def
    by (rule yields_andthen [OF yields_rooted_seek [OF assms]], (intro keeps_rules)[1], rule decoded)
qed

text \<open>An entry with other counts, and its record in the tree.\<close>

definition recount :: "entry \<Rightarrow> entry \<Rightarrow> bool" where
  "recount e e' \<longleftrightarrow> (\<exists>a b. e' = e\<lparr>en_ordinary := a, en_replays := b,
     en_picker := map_option (\<lambda>r. r\<lparr>rw_ordinary := uint a, rw_replays := uint b\<rparr>) (en_picker e)\<rparr>)"

definition recounted :: "gc_env \<Rightarrow> bytes \<Rightarrow> bytes \<Rightarrow> bytes \<Rightarrow> bool" where
  "recounted G key a b \<longleftrightarrow> (\<exists>r e e'. decode_identity (gc_codec G) a = Inr r \<and> id_entry r = Some e \<and> recount e e' \<and>
     encode_tree_value (gc_codec G) key (IdentityValue \<lparr>id_revision = id_revision r, id_entry = Some e'\<rparr>) = Inr b)"

definition recounts :: "gc_env \<Rightarrow> bytes list \<Rightarrow> (bytes \<times> bytes) list \<Rightarrow> (bytes \<times> bytes) list \<Rightarrow> bool" where
  "recounts G ks es es' \<longleftrightarrow> (\<forall>k. if k \<in> set ks then rel_option (\<lambda>a b. b = a \<or> recounted G k a b) (map_of es k) (map_of es' k)
     else map_of es' k = map_of es k)"

lemma recounts_refl: "recounts G ks es es"
  by (auto simp: recounts_def option.rel_refl)

lemma recounts_Cons:
  assumes "recounts G [k] es es1" "recounts G ks es1 es2" "k \<notin> set ks"
  shows "recounts G (k # ks) es es2"
  unfolding recounts_def
proof (intro allI)
  fix k'
  show "if k' \<in> set (k # ks) then rel_option (\<lambda>a b. b = a \<or> recounted G k' a b) (map_of es k') (map_of es2 k')
     else map_of es2 k' = map_of es k'"
    using assms(1) [unfolded recounts_def, rule_format, of k'] assms(2) [unfolded recounts_def, rule_format, of k'] assms(3)
    by (cases "k' = k") (auto split: if_splits)
qed

lemma recounts_upd:
  assumes "map_of es key = Some a" "recounted G key a b"
  shows "recounts G [key] es (upd key (Some b) es)"
  using assms by (auto simp: recounts_def map_of_upd)

lemma counted_picker_recount:
  assumes "counted_picker K (e\<lparr>en_ordinary := a, en_replays := b\<rparr>) = Inr e'"
  shows "recount e e'"
proof (cases "en_picker e")
  case None
  then show ?thesis using assms unfolding recount_def counted_picker_def by (intro exI [of _ a] exI [of _ b]) auto
next
  case (Some r)
  then have "e' = e\<lparr>en_ordinary := a, en_replays := b, en_picker := Some (r\<lparr>rw_ordinary := uint a, rw_replays := uint b\<rparr>)\<rparr>"
    using assms by (auto simp: counted_picker_def Let_def sbind_Inr_conv split: if_splits)
  then show ?thesis using Some unfolding recount_def by (intro exI [of _ a] exI [of _ b]) simp
qed

subsection \<open>The order indexes\<close>

definition same_but_trees :: "head \<Rightarrow> head \<Rightarrow> bool" where
  "same_but_trees h h' \<longleftrightarrow>
     h'\<lparr>hd_identity := no_ref, hd_capture := no_ref, hd_activity := no_ref, hd_project := no_ref\<rparr> =
     h\<lparr>hd_identity := no_ref, hd_capture := no_ref, hd_activity := no_ref, hd_project := no_ref\<rparr>"

lemma same_but_trees_identity: "same_but_trees h h' \<Longrightarrow> same_but_trees h (h'\<lparr>hd_identity := i\<rparr>)"
  by (simp add: same_but_trees_def)

lemma same_but_trees_trans: "same_but_trees a b \<Longrightarrow> same_but_trees b c \<Longrightarrow> same_but_trees a c"
  by (simp add: same_but_trees_def)

lemma yields_orders:
  "yields (outgrown G U) (update_orders G W C h key old new) (\<lambda>h'. same_but_trees h h' \<and> hd_identity h' = hd_identity h)"
proof -
  have orders: "same_but_trees h (h\<lparr>hd_capture := c, hd_activity := a, hd_project := p\<rparr>)" for c a p
    by (simp add: same_but_trees_def)
  have last: "yields (outgrown G U) (case roots of (c, a, p) \<Rightarrow> give (h\<lparr>hd_capture := c, hd_activity := a, hd_project := p\<rparr>))
      (\<lambda>h'. same_but_trees h h' \<and> hd_identity h' = hd_identity h)" for roots
    by (cases roots) (simp add: yields_give orders)
  show ?thesis
    unfolding update_orders_def by (rule yields_skip, rule yields_skip, rule last)
qed

subsection \<open>Counting in the candidate\<close>

definition in_reader :: "(world \<Rightarrow> bool) \<Rightarrow> reader \<Rightarrow> bool" where
  "in_reader J p \<longleftrightarrow> J (rd_world p)"

lemma kept_in_world: "keeps J a \<Longrightarrow> keeps (in_reader J) (in_world a)"
  unfolding keeps_def in_reader_def in_world_def by (auto split: prod.splits)

lemma yields_in_world: "yields J a Q \<Longrightarrow> yields (in_reader J) (in_world a) Q"
  unfolding yields_def in_reader_def in_world_def by (auto split: prod.splits)

context reads_kept
begin

lemma kept_fetch: "z_env Z = X \<Longrightarrow> keeps (in_reader J) (fetch Z ref limit)"
proof -
  have "J (snd (fetch_ref X ref limit w))" if j: "J w" for w
  proof -
    have "J w'" if "get_version X (rkey ref) limit w = (r, w')" for r w' by (rule keepsD [OF kept_get j that])
    then show ?thesis using j by (auto simp: fetch_ref_def split: sum.splits prod.splits)
  qed
  then show "z_env Z = X \<Longrightarrow> keeps (in_reader J) (fetch Z ref limit)" by (auto simp: keeps_def in_reader_def fetch_def split: prod.splits) (metis snd_conv)
qed

lemma kept_clockless:
  "keeps (in_reader J) (fresh_since Z started)" "keeps (in_reader J) (check_snapshot Z s)" "keeps (in_reader J) work_node"
  "keeps (in_reader J) (work_bytes n)" "keeps (in_reader J) (work_limit l)" "keeps (in_reader J) get_reader"
  "keeps (in_reader J) (update_reader (cache_node ref raw))" "keeps (in_reader J) (in_world (context_err Y))"
proof -
  show ctx: "keeps (in_reader J) (in_world (context_err Y))" for Y
    by (rule kept_in_world) (simp add: keeps_def context_err_def)
  have expired: "keeps (in_reader J) (expired_since Z started)" for started
    by (simp add: keeps_def expired_since_def in_reader_def)
  show fresh: "keeps (in_reader J) (fresh_since Z started)" for started
    unfolding fresh_since_def by (intro keeps_rules expired)
  show "keeps (in_reader J) (check_snapshot Z s)"
    unfolding check_snapshot_def by (intro keeps_rules ctx fresh)
qed (auto simp: keeps_def in_reader_def work_node_def work_bytes_def work_limit_def get_reader_def update_reader_def cache_node_def Let_def
    split: option.splits)

lemma kept_count:
  assumes "z_env Z = X"
  shows "keeps (in_reader J) (snapshot_count Z s q)"
proof -
  have cached: "keeps (in_reader J) (read_cached Z ref)" for ref
    unfolding read_cached_def by (intro keeps_rules kept_clockless kept_fetch assms)
  have node: "keeps (in_reader J) (snapshot_node Z s ref)" for ref
    unfolding snapshot_node_def by (intro keeps_rules kept_clockless cached)
  have "keeps (in_reader J) (count_visit Z s q r ref lo hi)" for r q ref lo hi
  proof (induction r arbitrary: ref lo hi)
    case (Suc r)
    have "keeps (in_reader J) (count_children (count_visit Z s q r) q lo acc cs)" for lo acc cs
      by (induction cs arbitrary: lo acc) (auto intro!: keeps_rules Suc)
    then show ?case unfolding count_visit.simps by (intro keeps_rules node)
  qed (simp add: keeps_const)
  then show ?thesis unfolding snapshot_count_def Let_def by (intro keeps_rules kept_clockless)
qed

end

text \<open>The calls of a whole commit, up to the write of the head.\<close>

locale commits_kept = creates_kept "cm_gc T" J for T :: commit_env and J
begin

lemma kept_child_count: "keeps (in_reader J) (snapshot_count (child_reader T) s q)"
  by (rule kept_count) (simp add: child_reader_def)

lemmas counter_rules = keeps_rules kept_in_world call_rules kept_child_count

lemma kept_update_counter: "keeps (in_reader J) (update_counter T W C s h k)"
  unfolding update_counter_def Let_def by (intro counter_rules)

lemma kept_update_counters: "keeps (in_reader J) (update_counters T W C s ks h)"
  by (induction ks arbitrary: h) (auto intro!: keeps_rules kept_update_counter)

lemma kept_child_counters [call_rules]: "keeps J (update_child_counters T W C h key old new)"
  unfolding update_child_counters_def
proof (intro keeps_rules)
  fix ks
  have "J (rd_world p)"
    if "J w" "update_counters T W C (count_snapshot T h (w_calls w)) (cm_range T (w_calls w) ks) h (count_state w) = (r, p)"
    for w r p
    using keepsD [OF kept_update_counters, of "count_state w"] that by (auto simp: in_reader_def count_state_def)
  then show "keeps J (\<lambda>w. case update_counters T W C (count_snapshot T h (w_calls w)) (cm_range T (w_calls w) ks) h (count_state w) of
      (r, p) \<Rightarrow> (r, rd_world p))"
    by (auto simp: keeps_def split: prod.splits)
qed

lemma kept_prepare [call_rules]: "keeps J (prepare_commit T W C base m revision digest existing)"
  unfolding prepare_commit_def Let_def by (intro keeps_rules call_rules)

lemma kept_receipt [call_rules]: "keeps J (find_receipt T h mid digest)"
  unfolding find_receipt_def by (intro keeps_rules call_rules)

end

interpretation commit_grows: commits_kept T "outgrown (cm_gc T) U" for T U
  by unfold_locales

lemmas counting_rules = keeps_rules kept_in_world call_rules commit_grows.kept_child_count

text \<open>The keys that are counted are each counted once; their trees only change their records' counts.\<close>

definition recounting :: "gc_env \<Rightarrow> (bytes \<Rightarrow> bool) \<Rightarrow> (bytes \<Rightarrow> bool) \<Rightarrow> (bytes \<rightharpoonup> bytes) \<Rightarrow> bytes list \<Rightarrow> head \<Rightarrow> (bytes \<times> bytes) list \<Rightarrow> head \<Rightarrow> bool" where
  "recounting G K V U ks h es h' \<longleftrightarrow> same_but_trees h h' \<and>
     (\<exists>es'. rooted G K V U (hd_identity h') es' \<and> recounts G ks es es' \<and> length es' \<le> length es + length ks)"

lemma recounting_refl: "rooted G K V U (hd_identity h) es \<Longrightarrow> recounting G K V U ks h es h"
  unfolding recounting_def same_but_trees_def using recounts_refl by auto

lemma yields_counter:
  assumes "codec_ok (cm_nodes T) K V" "rooted (cm_gc T) K V U (hd_identity h) es" "K k" "length es < max_uint64"
    and "\<And>key v b. encode_tree_value (cm_codec T) key v = Inr b \<Longrightarrow> V b"
  shows "yields (in_reader (outgrown (cm_gc T) U)) (update_counter T W C s h k) (recounting (cm_gc T) K V U [k] h es)"
proof -
  let ?G = "cm_gc T"
  note same = recounting_refl [OF assms(2)]
  have stored: "yields (in_reader (outgrown ?G U)) (andthen (lift_sum (counted_picker (cm_codec T) (e\<lparr>en_ordinary := a, en_replays := b\<rparr>))) (\<lambda>e'.
            andthen (in_world (update_orders ?G W C h k (Some e) (Some e'))) (\<lambda>h.
            andthen (in_world (set_leaf ?G W C (hd_identity h) k
                (Some (IdentityValue \<lparr>id_revision = id_revision r, id_entry = Some e'\<rparr>)))) (\<lambda>root.
              give (h\<lparr>hd_identity := root\<rparr>))))) (recounting ?G K V U [k] h es)"
    if r: "record_at ?G es k = Inr r" "id_entry r = Some e" for r e a b
  proof (rule yields_lift, rule yields_andthen [OF yields_in_world [OF yields_orders]], (intro counting_rules)[1])
    fix e' h1 assume e': "counted_picker (cm_codec T) (e\<lparr>en_ordinary := a, en_replays := b\<rparr>) = Inr e'"
      and h1: "same_but_trees h h1 \<and> hd_identity h1 = hd_identity h"
    let ?v = "IdentityValue \<lparr>id_revision = id_revision r, id_entry = Some e'\<rparr>"
    obtain raw where raw: "map_of es k = Some raw" "decode_identity (cm_codec T) raw = Inr r"
      using r by (auto simp: record_at_def split: option.splits)
    have leaf: "yields (outgrown ?G U) (set_leaf ?G W C (hd_identity h1) k (Some ?v))
        (\<lambda>root. \<exists>b. encodes ?G k (Some ?v) b \<and> rooted ?G K V U root (upd k b es))"
      using yields_set_leaf [OF assms(1) _ assms(3,4), where new = "Some ?v"] assms(2,5) h1 by (auto simp: encodes_def)
    have finished: "recounting ?G K V U [k] h es (h1\<lparr>hd_identity := root\<rparr>)"
      if g: "\<exists>b. encodes ?G k (Some ?v) b \<and> rooted ?G K V U root (upd k b es)" for root
    proof -
      obtain b where b: "encode_tree_value (cm_codec T) k ?v = Inr b" "rooted ?G K V U root (upd k (Some b) es)"
        using g by (auto simp: encodes_def)
      have "recounted ?G k raw b"
        unfolding recounted_def using raw(2) r(2) counted_picker_recount [OF e'] b(1) by blast
      with raw(1) have "recounts ?G [k] es (upd k (Some b) es)" by (rule recounts_upd)
      moreover have "same_but_trees h (h1\<lparr>hd_identity := root\<rparr>)" using h1 same_but_trees_identity by blast
      ultimately show ?thesis unfolding recounting_def using b(2) length_upd [of k "Some b" es] by auto
    qed
    show "yields (in_reader (outgrown ?G U)) (andthen (in_world (set_leaf ?G W C (hd_identity h1) k (Some ?v))) (\<lambda>root. give (h1\<lparr>hd_identity := root\<rparr>)))
        (recounting ?G K V U [k] h es)"
      by (rule yields_andthen [OF yields_in_world [OF leaf]], rule keeps_const, rule yields_give, rule finished)
  qed
  show ?thesis
    unfolding update_counter_def Let_def
    by (rule yields_andthen [OF yields_in_world [OF yields_find [OF assms(2)]]], (intro counting_rules)[1], rule yields_option, rule yields_give, rule same,
      rule yields_skip, rule yields_skip, rule yields_if, rule yields_give, rule same, rule stored)
qed

lemma yields_counters:
  assumes "codec_ok (cm_nodes T) K V" "\<And>key v b. encode_tree_value (cm_codec T) key v = Inr b \<Longrightarrow> V b"
  shows "rooted (cm_gc T) K V U (hd_identity h) es \<Longrightarrow> distinct ks \<Longrightarrow> \<forall>k\<in>set ks. K k \<Longrightarrow> length es + length ks \<le> max_uint64 \<Longrightarrow>
    yields (in_reader (outgrown (cm_gc T) U)) (update_counters T W C s ks h) (recounting (cm_gc T) K V U ks h es)"
proof (induction ks arbitrary: h es)
  case Nil
  then show ?case by (simp add: yields_give recounting_refl)
next
  case (Cons k ks)
  let ?G = "cm_gc T"
  have first: "yields (in_reader (outgrown ?G U)) (update_counter T W C s h k) (recounting ?G K V U [k] h es)"
    by (rule yields_counter [OF assms(1) Cons.prems(1) _ _ assms(2)]) (use Cons.prems in auto)
  have rest: "yields (in_reader (outgrown ?G U)) (update_counters T W C s ks h1) (recounting ?G K V U (k # ks) h es)"
    if g: "recounting ?G K V U [k] h es h1" for h1
  proof -
    obtain es1 where h1: "same_but_trees h h1" "rooted ?G K V U (hd_identity h1) es1" "recounts ?G [k] es es1" "length es1 \<le> Suc (length es)"
      using g by (auto simp: recounting_def)
    have "yields (in_reader (outgrown ?G U)) (update_counters T W C s ks h1) (recounting ?G K V U ks h1 es1)"
      by (rule Cons.IH [OF h1(2)]) (use Cons.prems h1(4) in auto)
    then show ?thesis
    proof (rule yields_weaken)
      fix h' assume "recounting ?G K V U ks h1 es1 h'"
      then obtain es' where e: "same_but_trees h1 h'" "rooted ?G K V U (hd_identity h') es'" "recounts ?G ks es1 es'"
          "length es' \<le> length es1 + length ks" by (auto simp: recounting_def)
      have "recounts ?G (k # ks) es es'" by (rule recounts_Cons [OF h1(3) e(3)]) (use Cons.prems(2) in simp)
      then show "recounting ?G K V U (k # ks) h es h'"
        using e h1(4) same_but_trees_trans [OF h1(1) e(1)] by (auto simp: recounting_def)
    qed
  qed
  show ?case by (simp only: update_counters.simps) (rule yields_andthen [OF first commit_grows.kept_update_counters rest])
qed

lemma affected_keys_ok:
  assumes "affected_keys key old new = Inr ks" "K key" "\<And>harness sid k. metadata_object_key harness sid = Inr k \<Longrightarrow> K k"
  shows "distinct ks" "\<forall>k\<in>set ks. K k" "length ks \<le> 3"
proof -
  obtain a b where ab: "parent_key old = Inr a" "parent_key new = Inr b" "ks = remdups (key # a @ b)"
    using assms(1) by (auto simp: affected_keys_def sbind_Inr_conv simp del: remdups.simps)
  have one: "length c \<le> 1 \<and> (\<forall>k\<in>set c. K k)" if "parent_key e = Inr c" for e c
    using that assms(3) by (auto simp: parent_key_def split: option.splits if_splits sum.splits)
  have "set ks = insert key (set a \<union> set b)" using ab(3) by (auto simp del: remdups.simps)
  then show "distinct ks" "\<forall>k\<in>set ks. K k" using ab(3) one [OF ab(1)] one [OF ab(2)] assms(2) by (auto simp del: remdups.simps)
  have "length ks \<le> length (key # a @ b)" using ab(3) by (simp only: length_remdups_leq)
  then show "length ks \<le> 3" using one [OF ab(1)] one [OF ab(2)] by simp
qed

definition ranges_whole :: "commit_env \<Rightarrow> bool" where
  "ranges_whole T \<longleftrightarrow> (\<forall>n ks. mset (cm_range T n ks) = mset ks)"

lemma recounting_set:
  assumes "mset ks = mset ks'" "recounting G K V U ks h es h'"
  shows "recounting G K V U ks' h es h'"
proof -
  have "set ks = set ks'" "length ks = length ks'" using assms(1) by (metis set_mset_mset, metis size_mset)
  then show ?thesis using assms(2) by (simp add: recounting_def recounts_def)
qed

lemma yields_child_counters:
  assumes "codec_ok (cm_nodes T) K V" "\<And>key v b. encode_tree_value (cm_codec T) key v = Inr b \<Longrightarrow> V b" "ranges_whole T"
    and "rooted (cm_gc T) K V U (hd_identity h) es" "K key" "\<And>harness sid k. metadata_object_key harness sid = Inr k \<Longrightarrow> K k"
    and "length es + 3 \<le> max_uint64"
  shows "yields (outgrown (cm_gc T) U) (update_child_counters T W C h key old new)
    (\<lambda>h'. \<exists>ks. affected_keys key old new = Inr ks \<and> recounting (cm_gc T) K V U ks h es h')"
  unfolding update_child_counters_def
proof (rule yields_lift)
  let ?G = "cm_gc T"
  fix ks assume ks: "affected_keys key old new = Inr ks"
  have ok: "distinct ks" "\<forall>k\<in>set ks. K k" "length ks \<le> 3"
    by (rule affected_keys_ok [where K = K, OF ks assms(5)], erule assms(6))+
  show "yields (outgrown ?G U) (\<lambda>w. case update_counters T W C (count_snapshot T h (w_calls w)) (cm_range T (w_calls w) ks) h (count_state w) of
        (r, p) \<Rightarrow> (r, rd_world p)) (\<lambda>h'. \<exists>ks. affected_keys key old new = Inr ks \<and> recounting ?G K V U ks h es h')"
    unfolding yields_def
  proof (intro allI impI)
    fix w w' :: world and h'
    let ?ks = "cm_range T (w_calls w) ks"
    assume "(case update_counters T W C (count_snapshot T h (w_calls w)) ?ks h (count_state w) of (r, p) \<Rightarrow> (r, rd_world p)) = (Inr h', w')"
    then obtain p where run: "update_counters T W C (count_snapshot T h (w_calls w)) ?ks h (count_state w) = (Inr h', p)" "w' = rd_world p"
      by (auto split: prod.splits)
    have perm: "mset ?ks = mset ks" using assms(3) by (simp add: ranges_whole_def)
    have "distinct ?ks" using ok(1) perm by (metis mset_eq_imp_distinct_iff)
    moreover have "\<forall>k\<in>set ?ks. K k" using ok(2) perm by (metis set_mset_mset)
    moreover have "length ?ks \<le> 3" using ok(3) perm by (metis size_mset)
    ultimately have "yields (in_reader (outgrown ?G U)) (update_counters T W C (count_snapshot T h (w_calls w)) ?ks h) (recounting ?G K V U ?ks h es)"
      by (intro yields_counters [OF assms(1,2,4)]) (use assms(7) in auto)
    note counted = yieldsD [OF this run(1)]
    show "outgrown ?G U w' \<or> (\<exists>ks. affected_keys key old new = Inr ks \<and> recounting ?G K V U ks h es h')"
      using counted ks recounting_set [OF perm] run(2) by (cases "outgrown ?G U (rd_world p)") (auto simp: in_reader_def)
  qed
qed

subsection \<open>A prepared commit\<close>

text \<open>
  Over a base head with the records es and the receipts rs: the mutation expected the revision it found, the
  record of its session is set, counts of affected records may change, one receipt is added, and the head
  moves on by one generation.
\<close>

definition publishes ::
  "gc_env \<Rightarrow> (bytes \<Rightarrow> bool) \<Rightarrow> (bytes \<Rightarrow> bool) \<Rightarrow> (bytes \<rightharpoonup> bytes) \<Rightarrow> (bytes \<times> bytes) list \<Rightarrow> (bytes \<times> bytes) list \<Rightarrow> mutation \<Rightarrow> bytes \<Rightarrow> bytes \<Rightarrow>
   head \<Rightarrow> head \<Rightarrow> entry option \<Rightarrow> bool" where
  "publishes G K V U es rs m revision digest base next e \<longleftrightarrow>
     (\<exists>old ks b es' receipt. record_at G es (mu_key m) = Inr old \<and> id_revision old = mu_expected m \<and>
        affected_keys (mu_key m) (id_entry old) e = Inr ks \<and>
        encode_tree_value (gc_codec G) (mu_key m) (IdentityValue \<lparr>id_revision = revision, id_entry = e\<rparr>) = Inr b \<and>
        rooted G K V U (hd_identity next) es' \<and> recounts G ks (upd (mu_key m) (Some b) es) es' \<and>
        encode_tree_value (gc_codec G) (mu_id m) (ReceiptValue \<lparr>mr_digest = digest, mr_revision = revision,
          mr_session = mu_key m, mr_metadata = (case e of None \<Rightarrow> [] | Some e \<Rightarrow> rsha (en_metadata e))\<rparr>) = Inr receipt \<and>
        rooted G K V U (hd_receipts next) (upd (mu_id m) (Some receipt) rs)) \<and>
     (e = None \<longleftrightarrow> mu_next m = None) \<and> hd_generation next = hd_generation base + 1 \<and> hd_epoch next = revision \<and> hd_lease next = hd_lease base"

lemma next_entry_none: "next_entry T scoped m revision v = Inr e \<Longrightarrow> e = None \<longleftrightarrow> v = None"
  by (auto simp: next_entry_def Let_def sbind_Inr_conv split: option.splits if_splits)

text \<open>
  The contracts a commit relies on: nodes decode to what was encoded, and Go's range visits every parent once. K and
  V hold of the keys and values of the trees.
\<close>

definition commit_codec :: "commit_env \<Rightarrow> (bytes \<Rightarrow> bool) \<Rightarrow> (bytes \<Rightarrow> bool) \<Rightarrow> bool" where
  "commit_codec T K V \<longleftrightarrow> codec_ok (cm_nodes T) K V \<and> (\<forall>key v b. encode_tree_value (cm_codec T) key v = Inr b \<longrightarrow> V b) \<and>
     (\<forall>harness sid k. metadata_object_key harness sid = Inr k \<longrightarrow> K k) \<and> (\<forall>n ks. mset (cm_range T n ks) = mset ks)"

lemma yields_written:
  assumes "commit_codec T K V" "rooted (cm_gc T) K V U ref es" "K key" "length es < max_uint64"
  shows "yields (outgrown (cm_gc T) U) (set_leaf (cm_gc T) W C ref key (Some v))
    (\<lambda>ref'. \<exists>b. encode_tree_value (cm_codec T) key v = Inr b \<and> rooted (cm_gc T) K V U ref' (upd key (Some b) es))"
proof -
  have "codec_ok (gc_nodes (cm_gc T)) K V" using assms(1) by (simp add: commit_codec_def)
  then show ?thesis
    by (rule yields_weaken [OF yields_set_leaf [OF _ assms(2,3,4)]]) (use assms(1) in \<open>auto simp: encodes_def commit_codec_def\<close>)
qed

lemma yields_candidate:
  assumes "commit_codec T K V" "rooted (cm_gc T) K V U root (upd key (Some b) es)" "K key" "length es + 4 \<le> max_uint64"
  shows "yields (outgrown (cm_gc T) U) (update_child_counters T W C (h\<lparr>hd_identity := root\<rparr>) key old new)
    (\<lambda>h'. \<exists>ks. affected_keys key old new = Inr ks \<and> recounting (cm_gc T) K V U ks (h\<lparr>hd_identity := root\<rparr>) (upd key (Some b) es) h')"
  by (rule yields_child_counters) (use assms length_upd [of key "Some b" es] in \<open>auto simp: commit_codec_def ranges_whole_def\<close>)

text \<open>The last fields of the candidate.\<close>

definition same_trees :: "head \<Rightarrow> head \<Rightarrow> bool" where
  "same_trees h h' \<longleftrightarrow> hd_identity h' = hd_identity h \<and> hd_receipts h' = hd_receipts h \<and> hd_generation h' = hd_generation h \<and> hd_lease h' = hd_lease h"

lemma yields_previous:
  assumes "\<And>h'. same_trees h h' \<Longrightarrow> Q (publish_fields h' revision, new)"
  shows "yields J (andthen (if existing then andthen (put_encoded X W C KindHeads raw l) (\<lambda>previous.
      give (h\<lparr>hd_pred_witness := hd_pub_witness base, hd_previous := previous\<rparr>)) else give h) (\<lambda>h. give (publish_fields h revision, new))) Q"
proof -
  have "yields J (if existing then andthen (put_encoded X W C KindHeads raw l) (\<lambda>previous.
      give (h\<lparr>hd_pred_witness := hd_pub_witness base, hd_previous := previous\<rparr>)) else give h) (same_trees h)"
    by (rule yields_if, rule yields_skip, rule yields_give, simp add: same_trees_def, rule yields_give, simp add: same_trees_def)
  then show ?thesis by (rule yields_andthen) (rule keeps_const, rule yields_give, rule assms)
qed

lemma publishes_candidate:
  assumes "record_at G es (mu_key m) = Inr old" "id_revision old = mu_expected m" "new = None \<longleftrightarrow> mu_next m = None"
    and "encode_tree_value (gc_codec G) (mu_key m) (IdentityValue \<lparr>id_revision = revision, id_entry = new\<rparr>) = Inr b"
    and "affected_keys (mu_key m) (id_entry old) new = Inr ks" "recounting G K V U ks h1 (upd (mu_key m) (Some b) es) h2" "same_but_trees base h1"
    and "encode_tree_value (gc_codec G) (mu_id m) (ReceiptValue \<lparr>mr_digest = digest, mr_revision = revision,
              mr_session = mu_key m, mr_metadata = (case new of None \<Rightarrow> [] | Some e \<Rightarrow> rsha (en_metadata e))\<rparr>) = Inr receipt"
    and "rooted G K V U receipts (upd (mu_id m) (Some receipt) rs)" "same_trees (h2\<lparr>hd_receipts := receipts\<rparr>) h'"
  shows "publishes G K V U es rs m revision digest base (publish_fields h' revision) new"
proof -
  have "hd_generation h2 = hd_generation base" "hd_lease h2 = hd_lease base"
    using assms(6,7) by (cases base; cases h1; cases h2; simp add: recounting_def same_but_trees_def)+
  moreover obtain es' where "rooted G K V U (hd_identity h2) es'" "recounts G ks (upd (mu_key m) (Some b) es) es'"
    using assms(6) by (auto simp: recounting_def)
  ultimately show ?thesis
    using assms unfolding publishes_def publish_fields_def same_trees_def by simp blast
qed

lemma same_receipts: "same_but_trees h h' \<Longrightarrow> hd_receipts h' = hd_receipts h"
  by (cases h; cases h'; simp add: same_but_trees_def)

lemma recounting_receipts:
  "recounting G K V U ks (h\<lparr>hd_identity := root\<rparr>) es h' \<Longrightarrow> same_but_trees base h \<Longrightarrow> rooted G K V U (hd_receipts base) rs \<Longrightarrow>
   rooted G K V U (hd_receipts h') rs"
  using same_receipts [of base "h\<lparr>hd_identity := root\<rparr>"] same_receipts [of "h\<lparr>hd_identity := root\<rparr>" h'] same_but_trees_identity [of base h root]
  by (auto simp: recounting_def)

lemma yields_verified: "yields J (case v of None \<Rightarrow> give None | Some e \<Rightarrow> andthen (verify_entry G key e) (\<lambda>e. give (Some e))) (\<lambda>v'. v' = None \<longleftrightarrow> v = None)"
  by (cases v) (auto intro!: yields_give yields_skip)

lemma yields_stored:
  assumes "commit_codec T K V" "rooted (cm_gc T) K V U (hd_identity base) es" "rooted (cm_gc T) K V U (hd_receipts base) rs"
    and "K (mu_key m)" "K (mu_id m)" "length es + 4 \<le> max_uint64" "length rs < max_uint64"
    and "record_at (cm_gc T) es (mu_key m) = Inr old" "id_revision old = mu_expected m" "new = None \<longleftrightarrow> mu_next m = None"
    and "same_but_trees base h \<and> hd_identity h = hd_identity base"
  shows "yields (outgrown (cm_gc T) U) (andthen (set_leaf (cm_gc T) W C (hd_identity h) (mu_key m) (Some (IdentityValue \<lparr>id_revision = revision, id_entry = new\<rparr>))) (\<lambda>identity.
      andthen (update_child_counters T W C (h\<lparr>hd_identity := identity\<rparr>) (mu_key m) (id_entry old) new) (\<lambda>h.
      andthen (set_leaf (cm_gc T) W C (hd_receipts h) (mu_id m) (Some (ReceiptValue \<lparr>mr_digest = digest, mr_revision = revision,
          mr_session = mu_key m, mr_metadata = (case new of None \<Rightarrow> [] | Some e \<Rightarrow> rsha (en_metadata e))\<rparr>))) (\<lambda>receipts.
      andthen (if existing then andthen (put_encoded (cm_x T) W C KindHeads (r_head (x_run (cm_x T)) base) 16384) (\<lambda>previous.
          give (h\<lparr>hd_receipts := receipts, hd_pred_witness := hd_pub_witness base, hd_previous := previous\<rparr>))
          else give (h\<lparr>hd_receipts := receipts\<rparr>)) (\<lambda>h. give (publish_fields h revision, new))))))
    (\<lambda>(next, e). publishes (cm_gc T) K V U es rs m revision digest base next e)"
proof (rule yields_andthen [OF yields_written [OF assms(1) _ assms(4)]])
  show "rooted (cm_gc T) K V U (hd_identity h) es" "length es < max_uint64" using assms(2,6,11) by simp_all
  have h: "same_but_trees base h" using assms(11) ..
  fix root
  assume "\<exists>b. encode_tree_value (cm_codec T) (mu_key m) (IdentityValue \<lparr>id_revision = revision, id_entry = new\<rparr>) = Inr b \<and>
      rooted (cm_gc T) K V U root (upd (mu_key m) (Some b) es)"
  then obtain b where b: "encode_tree_value (cm_codec T) (mu_key m) (IdentityValue \<lparr>id_revision = revision, id_entry = new\<rparr>) = Inr b"
      "rooted (cm_gc T) K V U root (upd (mu_key m) (Some b) es)" by blast
  show "yields (outgrown (cm_gc T) U) (andthen (update_child_counters T W C (h\<lparr>hd_identity := root\<rparr>) (mu_key m) (id_entry old) new) (\<lambda>h.
      andthen (set_leaf (cm_gc T) W C (hd_receipts h) (mu_id m) (Some (ReceiptValue \<lparr>mr_digest = digest, mr_revision = revision,
          mr_session = mu_key m, mr_metadata = (case new of None \<Rightarrow> [] | Some e \<Rightarrow> rsha (en_metadata e))\<rparr>))) (\<lambda>receipts.
      andthen (if existing then andthen (put_encoded (cm_x T) W C KindHeads (r_head (x_run (cm_x T)) base) 16384) (\<lambda>previous.
          give (h\<lparr>hd_receipts := receipts, hd_pred_witness := hd_pub_witness base, hd_previous := previous\<rparr>))
          else give (h\<lparr>hd_receipts := receipts\<rparr>)) (\<lambda>h. give (publish_fields h revision, new)))))
    (\<lambda>(next, e). publishes (cm_gc T) K V U es rs m revision digest base next e)"
    by (rule yields_andthen [OF yields_candidate [OF assms(1) b(2) assms(4,6)]], (intro keeps_rules call_rules)[1], elim exE conjE,
        rule yields_andthen [OF yields_written [OF assms(1) _ assms(5,7)]], erule recounting_receipts [OF _ h assms(3)],
        (intro keeps_rules call_rules)[1], elim exE conjE, rule yields_previous, simp only: prod.case,
        rule publishes_candidate [OF assms(8,9,10) b(1) _ _ same_but_trees_identity [OF h]]; assumption)
qed (intro keeps_rules call_rules)

lemma yields_prepare:
  assumes "commit_codec T K V" "rooted (cm_gc T) K V U (hd_identity base) es" "rooted (cm_gc T) K V U (hd_receipts base) rs"
    and "K (mu_key m)" "K (mu_id m)" "length es + 4 \<le> max_uint64" "length rs < max_uint64"
  shows "yields (outgrown (cm_gc T) U) (prepare_commit T W C base m revision digest existing)
    (\<lambda>(next, e). publishes (cm_gc T) K V U es rs m revision digest base next e)"
  unfolding prepare_commit_def Let_def
  by (rule yields_if, rule yields_raise, rule yields_if, rule yields_raise, rule yields_andthen [OF yields_verified],
      (intro keeps_rules call_rules)[1], rule yields_andthen [OF yields_find [OF assms(2)]], (intro keeps_rules call_rules)[1],
      rule yields_if, rule yields_raise, rule yields_lift, rule yields_if, rule yields_raise, rule yields_andthen [OF yields_orders],
      (intro keeps_rules call_rules)[1], rule yields_stored [OF assms]; (assumption | simp add: next_entry_none))

end
