(* ===== verification/CommitDemo.thy ===== *)
theory CommitDemo
  imports CommitRefines SnapshotDemo CatalogMap
begin

text \<open>
  A commit for the witnesses: a first head is published, over a bucket with nothing but a coordinator that admits
  the writer, by the deletion of the session a. Its record and its receipt are both encoded as 1.
\<close>

definition trial_mutation :: mutation where
  "trial_mutation = \<lparr>mu_id = ''a'', mu_key = ''a'', mu_expected = [], mu_next = None\<rparr>"

definition trial_id :: bytes where
  "trial_id = hex_encode (replicate 24 CHR ''r'')"

definition trial_receipt :: mutation_receipt where
  "trial_receipt = \<lparr>mr_digest = toy_sha ''m'', mr_revision = trial_id, mr_session = ''a'', mr_metadata = []\<rparr>"

definition trial_env :: environment where
  "trial_env = (env_of (demo_env demo_admitted))\<lparr>x_run := (demo_runtime demo_admitted)\<lparr>t_sha := toy_sha, r_head := (\<lambda>_. Some ''H'')\<rparr>\<rparr>"

definition trial_codec :: entry_codec where
  "trial_codec = tour_codec\<lparr>k_identity := (\<lambda>_. Some ''1''), k_identity_in := [''1'' \<mapsto> (''r'', [])], k_receipt := [trial_receipt \<mapsto> ''1''],
     k_item := (\<lambda>_ _. Some [])\<rparr>"

definition trial :: commit_env where
  "trial = \<lparr>cm_gc = \<lparr>gc_x = trial_env, gc_codec = trial_codec, gc_fields = (\<lambda>_. None), gc_nodes = toy, gc_stat = None\<rparr>,
     cm_mutation = (\<lambda>_. Some ''m''), cm_mutation_in = (\<lambda>_. Some trial_mutation), cm_receipt_in = [''1'' \<mapsto> trial_receipt], cm_reader = tour_env,
     cm_range = (\<lambda>_ ks. ks)\<rparr>"

abbreviation trial_world :: "objects \<Rightarrow> nat \<Rightarrow> written list \<Rightarrow> world" where
  "trial_world b n l \<equiv> \<lparr>w_objects = b, w_calls = n, w_log = l\<rparr>"

definition trial_version :: "bytes \<Rightarrow> version" where
  "trial_version raw = \<lparr>ve_etag = raw, ve_modified = 1, ve_precision = 1\<rparr>"

definition trial_objects :: objects where
  "trial_objects = [coordinator_key \<mapsto> (''S'', demo_version)]"

definition trial_stored :: objects where
  "trial_stored = trial_objects(rkey (toy_ref toy_n1) \<mapsto> (toy_enc toy_n1, trial_version (toy_enc toy_n1)))"

definition trial_node_written :: written where
  "trial_node_written = \<lparr>wr_key = rkey (toy_ref toy_n1), wr_before = None, wr_after = Some (toy_enc toy_n1)\<rparr>"

definition trial_head :: head where
  "trial_head = publish_fields ((fresh_head 4 10 None)\<lparr>hd_identity := toy_ref toy_n1, hd_receipts := toy_ref toy_n1\<rparr>) trial_id"

subsection \<open>Its calls\<close>

lemma trial_fields:
  "x_others trial_env = (\<lambda>_ b. b)" "x_fault trial_env = (\<lambda>_. Answered)" "x_done trial_env = (\<lambda>_. False)"
  "x_random trial_env = (\<lambda>_. Some (replicate 24 CHR ''r''))" "x_version trial_env = (\<lambda>_ raw. trial_version raw)"
  "t_sha (x_run trial_env) = toy_sha" "r_head (x_run trial_env) = (\<lambda>_. Some ''H'')"
  "r_state_in (x_run trial_env) = (\<lambda>raw. if raw = ''S'' then Some demo_admitted else None)"
  by (simp_all add: trial_env_def demo_env_fields demo_env_calls demo_runtime_def trial_version_def)

lemma trial_parts: "cm_x trial = trial_env" "cm_codec trial = trial_codec" "cm_nodes trial = toy" "cm_range trial = (\<lambda>_ ks. ks)"
  "cm_mutation trial = (\<lambda>_. Some ''m'')" "cm_mutation_in trial = (\<lambda>_. Some trial_mutation)"
  by (simp_all add: trial_def)

lemma trial_coord:
  assumes "b coordinator_key = Some (''S'', demo_version)"
  shows "coord_read trial_env (trial_world b n l) = (Inr (demo_admitted, ''S''), trial_world b (Suc n) l)"
  using assms by (simp add: coord_read_def get_version_def arrive_def Let_def trial_fields demo_version_def longer_def
      coordinator_limit_def demo_admitted_valid)

lemma trial_authority:
  assumes "b coordinator_key = Some (''S'', demo_version)"
  shows "check_authority trial_env demo_writer demo_context (trial_world b n l) = (Inr (), trial_world b (Suc n) l)"
  using trial_coord [of b, OF assms]
  by (simp add: check_authority_def andthen_def context_err_def trial_fields demo_context_def demo_writer_def
      demo_admitted_def initial_admissions_def ordinary_permits_def owners_def lift_sum_def background_def give_def)

lemma trial_key: "rkey (toy_ref toy_n1) \<noteq> coordinator_key" "rkey (toy_ref toy_n1) \<noteq> head_key" "coordinator_key \<noteq> head_key"
  by (simp_all add: toy_ref_def node_key_def coordinator_key_def head_key_def)

lemma trial_coordinator: "trial_objects coordinator_key = Some (''S'', demo_version)" "trial_stored coordinator_key = Some (''S'', demo_version)"
  using trial_key by (simp_all add: trial_stored_def trial_objects_def)

lemma trial_object:
  "read_object trial_env (toy_ref toy_n1) 12 (trial_world trial_stored n l) = (Inr (toy_enc toy_n1), trial_world trial_stored (Suc n) l)"
  "read_object trial_env (toy_ref toy_n1) (int max_node_bytes) (trial_world trial_stored n l) =
     (Inr (toy_enc toy_n1), trial_world trial_stored (Suc n) l)"
proof -
  have v: "ref_validate (toy_ref toy_n1) = Inr ()"
    using toy_codec by (simp add: codec_ok_def ref_validate_def toy_ref_def node_key_def toy_def)
  have k: "rkey (toy_ref toy_n1) \<noteq> []" by (simp add: toy_ref_def node_key_def)
  have g: "get_version trial_env (rkey (toy_ref toy_n1)) m (trial_world trial_stored n l) =
      (Inr (toy_enc toy_n1, trial_version (toy_enc toy_n1)), trial_world trial_stored (Suc n) l)" if "12 \<le> m" for m
    using that by (simp add: get_version_def arrive_def Let_def trial_fields trial_stored_def longer_def toy_lengths)
  show "read_object trial_env (toy_ref toy_n1) 12 (trial_world trial_stored n l) = (Inr (toy_enc toy_n1), trial_world trial_stored (Suc n) l)"
    "read_object trial_env (toy_ref toy_n1) (int max_node_bytes) (trial_world trial_stored n l) =
     (Inr (toy_enc toy_n1), trial_world trial_stored (Suc n) l)"
    using v k g by (simp_all add: read_object_def andthen_def longer_def toy_lengths trial_fields equal_fold_def give_def max_node_bytes_def)
      (simp_all add: toy_ref_def)
qed

lemma trial_gc_node:
  "gc_node (cm_gc trial) no_ref w = (Inr empty_node, w)"
  "gc_node (cm_gc trial) (toy_ref toy_n1) (trial_world trial_stored n l) = (Inr toy_n1, trial_world trial_stored (Suc n) l)"
proof -
  show "gc_node (cm_gc trial) no_ref w = (Inr empty_node, w)"
    by (simp add: gc_node_def ref_validate_def no_ref_def give_def)
  have v: "ref_validate (toy_ref toy_n1) = Inr ()" "rkey (toy_ref toy_n1) \<noteq> []"
    using toy_codec by (simp_all add: codec_ok_def ref_validate_def toy_ref_def node_key_def toy_def)
  have "load toy (objs toy_p1) (toy_ref toy_n1) = Some toy_n1" by (rule toy_load) (simp_all add: toy_p1_def)
  then have "decode_node toy (toy_enc toy_n1) = Inr toy_n1"
    using v by (auto simp: load_def toy_p1_def split: sum.splits if_splits)
  then show "gc_node (cm_gc trial) (toy_ref toy_n1) (trial_world trial_stored n l) = (Inr toy_n1, trial_world trial_stored (Suc n) l)"
    using trial_object v by (simp add: gc_node_def trial_parts andthen_def give_def)
qed

lemma trial_put:
  "put_node (cm_gc trial) demo_writer demo_context toy_n1 (trial_world trial_objects n l) =
     (Inr (toy_ref toy_n1), trial_world trial_stored (Suc (Suc n)) (trial_node_written # l))"
  "put_node (cm_gc trial) demo_writer demo_context toy_n1 (trial_world trial_stored n l) =
     (Inr (toy_ref toy_n1), trial_world trial_stored (Suc (Suc (Suc n))) l)"
proof -
  have r: "immutable_key KindNodes (toy_sha (toy_enc toy_n1)) = rkey (toy_ref toy_n1)"
      "\<lparr>rkey = rkey (toy_ref toy_n1), rsha = toy_sha (toy_enc toy_n1)\<rparr> = toy_ref toy_n1"
    by (simp_all add: node_key_kind toy_ref_def)
  have absent: "trial_objects (rkey (toy_ref toy_n1)) = None" using trial_key by (simp add: trial_objects_def)
  have present: "trial_stored (rkey (toy_ref toy_n1)) = Some (toy_enc toy_n1, trial_version (toy_enc toy_n1))" by (simp add: trial_stored_def)
  have "create_or_same trial_env (rkey (toy_ref toy_n1)) (toy_enc toy_n1) back' (trial_world trial_objects n l) =
      (Inr (), trial_world trial_stored (Suc n) (trial_node_written # l))" for back' n l
    using absent by (simp add: create_or_same_def put_conditional_def Let_def arrive_def trial_fields holds_condition_def store_def
        trial_stored_def trial_node_written_def)
  moreover have "create_or_same trial_env (rkey (toy_ref toy_n1)) (toy_enc toy_n1) (read_object trial_env (toy_ref toy_n1) 12) (trial_world trial_stored n l) =
      (Inr (), trial_world trial_stored (Suc (Suc n)) l)" for n l
    using present trial_object(1) [of "Suc n" l] by (simp add: create_or_same_def put_conditional_def Let_def arrive_def trial_fields holds_condition_def)
  ultimately show
    "put_node (cm_gc trial) demo_writer demo_context toy_n1 (trial_world trial_objects n l) =
     (Inr (toy_ref toy_n1), trial_world trial_stored (Suc (Suc n)) (trial_node_written # l))"
    "put_node (cm_gc trial) demo_writer demo_context toy_n1 (trial_world trial_stored n l) =
     (Inr (toy_ref toy_n1), trial_world trial_stored (Suc (Suc (Suc n))) l)"
    using trial_authority [of trial_objects, OF trial_coordinator(1)] trial_authority [of trial_stored, OF trial_coordinator(2)]
    by (simp_all add: put_node_def put_encoded_def put_admitted_def Let_def andthen_def trial_parts trial_fields longer_def
        max_node_bytes_def toy_def toy_lengths r give_def)
qed

subsection \<open>Its run\<close>

lemma trial_receipt_encoded: "encode_tree_value trial_codec ''a'' (ReceiptValue trial_receipt) = Inr ''1''"
  by (simp add: encode_tree_value_def picker_tree_key_def has_prefix_def trial_codec_def marshalled_def Let_def sbind_def)

lemma trial_leaf:
  assumes "put_node (cm_gc trial) demo_writer demo_context toy_n1 w = (Inr (toy_ref toy_n1), w')" "v = IdentityValue i \<or> v = ReceiptValue trial_receipt"
  shows "set_leaf (cm_gc trial) demo_writer demo_context no_ref ''a'' (Some v) w = (Inr (toy_ref toy_n1), w')"
proof -
  have enc: "encode_tree_value trial_codec ''a'' v = Inr ''1''"
    using assms(2) by (auto simp: encode_tree_value_def picker_tree_key_def has_prefix_def trial_codec_def marshalled_def Let_def sbind_def longer_def inline_leaf_bytes_def)
  have n: "empty_node\<lparr>leaves := change_leaves (leaves empty_node) ''a'' (Some ''1'')\<rparr> = toy_n1\<lparr>ncount := 0\<rparr>"
    by (simp add: empty_node_def change_leaves_def leaf_index_small toy_n1_def)
  have sp: "split_node toy (toy_n1\<lparr>ncount := 0\<rparr>) = Inr [toy_n1\<lparr>ncount := 0\<rparr>]"
    using toy_lengths by (subst split_node.simps) (simp add: Let_def toy_n1_def fanout_def max_node_bytes_def toy_def)
  have cnt: "node_count (toy_n1\<lparr>ncount := 0\<rparr>) = 1" "toy_n1\<lparr>ncount := 0, ncount := Suc 0\<rparr> = toy_n1" "children empty_node = []"
    by (simp_all add: node_count_def toy_n1_def empty_node_def)
  have "put_split (cm_gc trial) demo_writer demo_context (toy_n1\<lparr>ncount := 0\<rparr>) w =
      (Inr [\<lparr>bmax = last_key toy_n1, bref = toy_ref toy_n1, bcount = ncount toy_n1\<rparr>], w')"
    using assms(1) sp cnt by (simp add: put_split_def trial_parts Let_def andthen_def give_def) (simp add: toy_n1_def)
  then have "rewrite (cm_gc trial) demo_writer demo_context max_depth no_ref ''a'' (Some ''1'') w =
      (Inr [\<lparr>bmax = last_key toy_n1, bref = toy_ref toy_n1, bcount = ncount toy_n1\<rparr>], w')"
    using trial_gc_node(1) cnt(3) n by (simp add: max_depth_def numeral_eq_Suc andthen_def)
  then show ?thesis using enc by (simp add: set_leaf_def trial_parts andthen_def give_def lift_sum_def)
qed

lemma trial_counters:
  assumes "hd_identity h = toy_ref toy_n1"
  shows "update_child_counters trial demo_writer demo_context h ''a'' None None (trial_world trial_stored n l) =
     (Inr h, trial_world trial_stored (Suc n) l)"
proof -
  have "seek (cm_gc trial) (toy_ref toy_n1) ''a'' (trial_world trial_stored n l) = (Inr (Some ''1''), trial_world trial_stored (Suc n) l)"
    using trial_gc_node(2) by (simp add: seek_def max_depth_def numeral_eq_Suc andthen_def toy_n1_def leaf_index_small give_def)
  then have "find_record (cm_gc trial) (toy_ref toy_n1) ''a'' (trial_world trial_stored n l) =
      (Inr \<lparr>id_revision = ''r'', id_entry = None\<rparr>, trial_world trial_stored (Suc n) l)"
    by (simp add: find_record_def andthen_def decode_identity_def trial_parts trial_codec_def lift_sum_def)
  then show ?thesis
    using assms by (simp add: update_child_counters_def affected_keys_def parent_key_def trial_parts andthen_def lift_sum_def count_state_def
        update_counter_def Let_def in_world_def give_def)
qed

lemma trial_prepare:
  "prepare_commit trial demo_writer demo_context (fresh_head 4 10 None) trial_mutation trial_id (toy_sha ''m'') False (trial_world trial_objects n l) =
     (Inr (trial_head, None), trial_world trial_stored (n + 6) (trial_node_written # l))"
proof -
  have first: "seek (cm_gc trial) no_ref ''a'' w = (Inr None, w)" for w
    using trial_gc_node(1) by (simp add: seek_def max_depth_def numeral_eq_Suc andthen_def empty_node_def leaf_index_small give_def)
  have orders: "update_orders (cm_gc trial) demo_writer demo_context h key None None w = (Inr h, w)" for h key w
    by (simp add: update_orders_def set_orders_def andthen_def give_def)
  note leaves = trial_leaf [OF trial_put(1)] trial_leaf [OF trial_put(2)]
  show ?thesis
    using first orders leaves [unfolded trial_receipt_def] trial_counters
    by (simp add: prepare_commit_def Let_def trial_mutation_def andthen_def give_def find_record_def next_entry_def lift_sum_def fresh_head_def
        trial_head_def numeral_eq_Suc)
qed

lemma trial_seek:
  "seek (cm_gc trial) (toy_ref toy_n1) ''a'' (trial_world trial_stored n l) = (Inr (Some ''1''), trial_world trial_stored (Suc n) l)"
  using trial_gc_node(2) by (simp add: seek_def max_depth_def numeral_eq_Suc andthen_def toy_n1_def leaf_index_small give_def)

lemma trial_id_nonempty: "trial_id \<noteq> []"
  by (simp add: trial_id_def exact_hex_nonempty [where n = 24])

lemma trial_found:
  "find_receipt trial trial_head ''a'' (toy_sha ''m'') (trial_world trial_stored n l) = (Inr trial_id, trial_world trial_stored (Suc n) l)"
proof -
  have "hd_receipts trial_head = toy_ref toy_n1" by (simp add: trial_head_def publish_fields_def)
  moreover have "cm_receipt_in trial ''1'' = Some trial_receipt" by (simp add: trial_def)
  ultimately show ?thesis
    using trial_seek trial_id_nonempty by (simp add: find_receipt_def andthen_def give_def) (simp add: trial_receipt_def)
qed

lemma trial_head_missing:
  "live_head trial_env (trial_world trial_objects n l) = (Inr (fresh_head 4 10 None, []), trial_world trial_objects (Suc (Suc n)) l)"
proof -
  have "get_version trial_env head_key head_limit (trial_world trial_objects n l) = (Inl NotFound, trial_world trial_objects (Suc n) l)"
    using trial_key by (simp add: get_version_def arrive_def Let_def trial_fields trial_objects_def)
  moreover have "as_protocol demo_admitted = 10" by (simp add: demo_admitted_def initial_admissions_def)
  ultimately show ?thesis
    using trial_coord [of trial_objects, OF trial_coordinator(1)]
    by (simp add: live_head_def read_head_def andthen_def give_def no_version_def)
qed

definition trial_published :: written where
  "trial_published = \<lparr>wr_key = head_key, wr_before = None, wr_after = Some ''H''\<rparr>"

lemma trial_commit:
  "commit_admitted trial demo_writer demo_context trial_mutation (trial_world trial_objects 0 []) =
     (Inr trial_id, trial_world (trial_stored(head_key \<mapsto> (''H'', trial_version ''H''))) 12 [trial_published, trial_node_written])"
proof -
  have frozen: "freeze_mutation trial trial_mutation = Inr (trial_mutation, toy_sha ''m'')"
    by (simp add: freeze_mutation_def trial_parts trial_fields) (simp add: trial_mutation_def)
  have fresh: "new_mutation_id trial_env (trial_world b n l) = (Inr trial_id, trial_world b (Suc n) l)" for b n l
    by (simp add: new_mutation_id_def trial_fields arrive_def trial_id_def)
  have none: "find_receipt trial (fresh_head 4 10 None) (mu_id trial_mutation) digest w = (Inr [], w)" for digest w
    using trial_gc_node(1)
    by (simp add: find_receipt_def fresh_head_def trial_mutation_def seek_def max_depth_def numeral_eq_Suc andthen_def empty_node_def
        leaf_index_small give_def)
  have absent: "trial_stored head_key = None" using trial_key by (simp add: trial_stored_def trial_objects_def)
  have put: "put_conditional trial_env head_key ''H'' \<lparr>pc_match = [], pc_create = True\<rparr> (trial_world trial_stored n l) =
      (Inr ''H'', trial_world (trial_stored(head_key \<mapsto> (''H'', trial_version ''H''))) (Suc n) (trial_published # l))" for n l
    using absent by (simp add: put_conditional_def Let_def arrive_def trial_fields holds_condition_def store_def trial_published_def trial_version_def)
  have ctx: "context_err trial_env w = (Inr (), w)" for w by (simp add: context_err_def trial_fields)
  have attempts: "commit_attempts = Suc 63" by (simp add: commit_attempts_def)
  have lease: "hd_lease (fresh_head 4 10 None) = []" by (simp add: fresh_head_def)
  note auth = trial_authority [of trial_objects, OF trial_coordinator(1)] trial_authority [of trial_stored, OF trial_coordinator(2)]
  have "commit_rounds trial demo_writer demo_context (toy_sha ''m'') trial_id commit_attempts trial_mutation (trial_world trial_objects 2 []) =
      (Inr trial_id, trial_world (trial_stored(head_key \<mapsto> (''H'', trial_version ''H''))) 12 [trial_published, trial_node_written])"
    unfolding attempts commit_rounds.simps(2) Let_def trial_parts
    using ctx trial_head_missing lease none trial_prepare auth put
    by (simp add: andthen_def give_def trial_fields)
  then show ?thesis
    using auth frozen fresh by (simp add: commit_admitted_def trial_parts andthen_def lift_sum_def numeral_eq_Suc)
qed

end
