(* ===== verification/CommitClaims.thy ===== *)
theory CommitClaims
  imports CommitDemo
begin

text \<open>
  What a commit promises: the head it publishes is prepared from the head it replaces, it writes the head at
  most once, and the trees of the new head are those of the old one with the mutation applied.
\<close>

subsection \<open>Writes of the head\<close>

definition head_log :: "world \<Rightarrow> written list" where
  "head_log w = filter (\<lambda>e. wr_key e = head_key) (w_log w)"

lemma head_log_arrive: "head_log (arrive X w) = head_log w"
  by (simp add: head_log_def arrive_def)

lemma head_log_store: "head_log (store X key raw n w) =
    (if key = head_key then [\<lparr>wr_key = key, wr_before = w_objects w key, wr_after = Some raw\<rparr>] else []) @ head_log w"
  by (simp add: head_log_def store_def)

lemma kinds_not_head: "kind \<in> {KindNodes, KindMetadata, KindHeads} \<Longrightarrow> immutable_key kind d \<noteq> head_key"
  by (auto simp: immutable_key_def head_key_def)

interpretation head_kept: commits_kept T "\<lambda>w. head_log w = l" for T l
  by unfold_locales (simp_all add: head_log_arrive head_log_store kinds_not_head)

text \<open>The write e replaces the version a head was read at by the head prepared from it.\<close>

definition head_published :: "commit_env \<Rightarrow> writer \<Rightarrow> call_context \<Rightarrow> mutation \<Rightarrow> bytes \<Rightarrow> bytes \<Rightarrow> written \<Rightarrow> bool" where
  "head_published T W C m revision digest e \<longleftrightarrow>
     (\<exists>base etag new next entry raw w0 w1 w2 w3. live_head (cm_x T) w0 = (Inr (base, etag), w1) \<and> hd_lease base = [] \<and>
        prepare_commit T W C base (m\<lparr>mu_next := new\<rparr>) revision digest (etag \<noteq> []) w2 = (Inr (next, entry), w3) \<and>
        r_head (x_run (cm_x T)) next = Some raw \<and> wr_key e = head_key \<and> wr_after e = Some raw \<and>
        (case wr_before e of None \<Rightarrow> etag = [] | Some (_, v) \<Rightarrow> ve_etag v = etag))"

lemma andthen_cases:
  assumes "andthen a f s = (r, s')"
  obtains (fails) e where "r = Inl e" "a s = (Inl e, s')" | (goes) x s1 where "a s = (Inr x, s1)" "f x s1 = (r, s')"
  using assms unfolding andthen_def by (auto split: prod.splits sum.splits)

lemma refused_cases:
  assumes "(if b then raise e else a) s = (r, s')"
  obtains (fails) "b" "r = Inl e" "s' = s" | (goes) "\<not> b" "a s = (r, s')"
  using assms by (auto simp: raise_def split: if_splits)

lemma given_cases:
  assumes "(if b then give x else a) s = (r, s')"
  obtains (gives) "b" "r = Inr x" "s' = s" | (goes) "\<not> b" "a s = (r, s')"
  using assms by (auto simp: give_def split: if_splits)

lemma present_cases:
  assumes "(case x of None \<Rightarrow> raise e | Some y \<Rightarrow> a y) s = (r, s')"
  obtains (fails) "r = Inl e" "s' = s" | (goes) y where "x = Some y" "a y s = (r, s')"
  using assms by (cases x) (auto simp: raise_def)

text \<open>A round that reaches the write.\<close>

definition reached :: "commit_env \<Rightarrow> writer \<Rightarrow> call_context \<Rightarrow> bytes \<Rightarrow> bytes \<Rightarrow> nat \<Rightarrow> mutation \<Rightarrow> head \<Rightarrow> bytes \<Rightarrow> head \<Rightarrow> entry option \<Rightarrow> bytes \<Rightarrow> world \<Rightarrow>
    (cerr + bytes) \<times> world \<Rightarrow> bool" where
  "reached T W C digest revision n m base etag next entry raw w4 out \<longleftrightarrow>
     (\<exists>w0 w1 w2 w3. live_head (cm_x T) w0 = (Inr (base, etag), w1) \<and> hd_lease base = [] \<and>
        prepare_commit T W C base m revision digest (etag \<noteq> []) w2 = (Inr (next, entry), w3)) \<and> r_head (x_run (cm_x T)) next = Some raw \<and>
     out = (case put_conditional (cm_x T) head_key raw \<lparr>pc_match = etag, pc_create = (etag = [])\<rparr> w4 of
                  (Inr _, w') \<Rightarrow> (Inr revision, w')
                | (Inl e, w') \<Rightarrow>
                    andthen (settle_commit T (mu_id m) digest e) (\<lambda>settled.
                      case settled of
                        Some committed \<Rightarrow> give committed
                      | None \<Rightarrow> commit_rounds T W C digest revision n (m\<lparr>mu_next := entry\<rparr>)) w')"

definition receipt_found :: "commit_env \<Rightarrow> mutation \<Rightarrow> bytes \<Rightarrow> bytes \<Rightarrow> bool" where
  "receipt_found T m digest found \<longleftrightarrow> found \<noteq> [] \<and> (\<exists>h w w'. find_receipt T h (mu_id m) digest w = (Inr found, w'))"

lemma round_cases:
  assumes "commit_rounds T W C digest revision (Suc n) m w = (r, w')" "head_log w = l"
  obtains (stopped) e where "r = Inl e" "head_log w' = l"
  | (known) found where "r = Inr found" "receipt_found T m digest found" "head_log w' = l"
  | (wrote) base etag "next" entry raw w4 where "reached T W C digest revision n m base etag next entry raw w4 (r, w')" "head_log w4 = l"
proof -
  note kept = keepsD [OF head_kept.kept_context] keepsD [OF head_kept.kept_live_head] keepsD [OF head_kept.kept_receipt]
    keepsD [OF head_kept.kept_prepare] keepsD [OF head_kept.kept_authority]
  note run = assms(1) [unfolded commit_rounds.simps Let_def]
  show thesis
    using run
  proof (cases rule: andthen_cases)
    case (goes x w1)
    have l1: "head_log w1 = l" by (rule kept(1) [OF assms(2) goes(1)])
    show thesis
      using goes(2)
    proof (cases rule: andthen_cases)
      case (goes h w2)
      obtain base etag where h: "h = (base, etag)" by fastforce
      note head = goes(1) [unfolded h]
      have l2: "head_log w2 = l" by (rule kept(2) [OF l1 goes(1)])
      show thesis
        using goes(2) [unfolded h prod.case]
      proof (cases rule: refused_cases)
        case goes
        note free = goes(1)
        show thesis
          using goes(2)
        proof (cases rule: andthen_cases)
          case (goes committed w3)
          have l3: "head_log w3 = l" by (rule kept(3) [OF l2 goes(1)])
          note receipt = goes(1)
          show thesis
            using goes(2)
          proof (cases rule: given_cases)
            case gives
            then show thesis using known [of committed] receipt l3 by (auto simp: receipt_found_def)
          next
            case goes
            show thesis
              using goes(2)
            proof (cases rule: andthen_cases)
              case (goes ne w4)
              obtain "next" entry where ne: "ne = (next, entry)" by fastforce
              have l4: "head_log w4 = l" by (rule kept(4) [OF l3 goes(1)])
              note prepared = goes(1) [unfolded ne]
              show thesis
                using goes(2) [unfolded ne prod.case]
              proof (cases rule: present_cases)
                case (goes raw)
                note encoded = goes(1)
                show thesis
                  using goes(2)
                proof (cases rule: andthen_cases)
                  case (goes u w5)
                  have l5: "head_log w5 = l" by (rule kept(5) [OF l4 goes(1)])
                  have "reached T W C digest revision n m base etag next entry raw w5 (r, w')"
                    unfolding reached_def using free head prepared encoded goes(2) by auto
                  then show thesis using wrote l5 by blast
                qed (use stopped kept(5) [OF l4] in blast)
              qed (use stopped l4 in blast)
            qed (use stopped kept(4) [OF l3] in blast)
          qed
        qed (use stopped kept(3) [OF l2] in blast)
      qed (use stopped l2 in blast)
    qed (use stopped kept(2) [OF l1] in blast)
  qed (use stopped kept(1) [OF assms(2)] in blast)
qed

lemma put_head_cases:
  assumes "put_conditional X head_key raw \<lparr>pc_match = etag, pc_create = (etag = [])\<rparr> w = (q, w')"
    and "\<forall>n e. x_fault X n = AppliedUnanswered e \<longrightarrow> \<not> is_err Precondition e"
  obtains (unwritten) e where "q = Inl e" "head_log w' = head_log w"
  | (written) e where "head_log w' = e # head_log w" "wr_key e = head_key" "wr_after e = Some raw"
      "case wr_before e of None \<Rightarrow> etag = [] | Some (_, v) \<Rightarrow> ve_etag v = etag" "\<And>f. q = Inl f \<Longrightarrow> \<not> is_err Precondition f"
proof (cases "holds_condition \<lparr>pc_match = etag, pc_create = (etag = [])\<rparr> (w_objects (arrive X w) head_key)")
  case ok: True
  let ?e = "\<lparr>wr_key = head_key, wr_before = w_objects (arrive X w) head_key, wr_after = Some raw\<rparr>"
  have b: "case wr_before ?e of None \<Rightarrow> etag = [] | Some (_, v) \<Rightarrow> ve_etag v = etag"
    using ok by (auto simp: holds_condition_def split: option.splits if_splits)
  show thesis
  proof (cases "x_fault X (w_calls w)")
    case Answered
    then show thesis using assms(1) ok b written [of ?e] by (auto simp: put_conditional_def Let_def head_log_store head_log_arrive)
  next
    case (Unanswered e)
    then show thesis using assms(1) unwritten by (auto simp: put_conditional_def Let_def head_log_arrive)
  next
    case (AppliedUnanswered e)
    then show thesis
      using assms(1) ok b written [of ?e] assms(2) AppliedUnanswered by (auto simp: put_conditional_def Let_def head_log_store head_log_arrive)
  qed
next
  case False
  then show thesis
    using assms(1) unwritten by (auto simp: put_conditional_def Let_def head_log_arrive split: call_fault.splits)
qed

lemma settle_cases:
  assumes "settle_commit T (mu_id m) digest e w = (r, w')" "head_log w = l"
  shows "head_log w' = l" "r = Inl f \<Longrightarrow> is_err CommitUnknown f" "r = Inr (Some found) \<Longrightarrow> receipt_found T m digest found"
    "r = Inr None \<Longrightarrow> is_err Precondition e"
proof -
  obtain q w1 where live: "live_head (cm_x T) w = (q, w1)" by fastforce
  have l1: "head_log w1 = l" by (rule keepsD [OF head_kept.kept_live_head assms(2) live])
  have "head_log w' = l \<and> (r = Inl f \<longrightarrow> is_err CommitUnknown f) \<and> (r = Inr (Some found) \<longrightarrow> receipt_found T m digest found) \<and>
      (r = Inr None \<longrightarrow> is_err Precondition e)"
  proof (cases q)
    case (Inl e')
    then show ?thesis using assms(1) live l1 by (auto simp: settle_commit_def)
  next
    case (Inr h)
    obtain c w2 where receipt: "find_receipt T (fst h) (mu_id m) digest w1 = (c, w2)" by fastforce
    have "head_log w2 = l" by (rule keepsD [OF head_kept.kept_receipt l1 receipt])
    then show ?thesis
      using assms(1) live Inr receipt by (cases h; cases c) (auto simp: settle_commit_def receipt_found_def split: if_splits)
  qed
  then show "head_log w' = l" "r = Inl f \<Longrightarrow> is_err CommitUnknown f" "r = Inr (Some found) \<Longrightarrow> receipt_found T m digest found"
    "r = Inr None \<Longrightarrow> is_err Precondition e" by auto
qed

definition settled_once :: "commit_env \<Rightarrow> writer \<Rightarrow> call_context \<Rightarrow> mutation \<Rightarrow> bytes \<Rightarrow> bytes \<Rightarrow> written list \<Rightarrow> written list \<Rightarrow> cerr + bytes \<Rightarrow> bool" where
  "settled_once T W C m revision digest l l' r \<longleftrightarrow>
     (\<exists>es. l' = es @ l \<and> length es \<le> 1 \<and> (\<forall>e\<in>set es. head_published T W C m revision digest e) \<and>
        (case r of Inl e \<Rightarrow> es = [] \<or> is_err CommitUnknown e
         | Inr found \<Rightarrow> receipt_found T m digest found \<or> es \<noteq> [] \<and> found = revision))"

lemma settled_next: "settled_once T W C (m\<lparr>mu_next := new\<rparr>) revision digest l l' r \<Longrightarrow> settled_once T W C m revision digest l l' r"
proof -
  have receipt: "receipt_found T (m\<lparr>mu_next := new\<rparr>) digest = receipt_found T m digest" by (simp add: receipt_found_def fun_eq_iff)
  have "head_published T W C (m\<lparr>mu_next := new\<rparr>) revision digest = head_published T W C m revision digest"
    by (simp add: head_published_def fun_eq_iff)
  then show "settled_once T W C (m\<lparr>mu_next := new\<rparr>) revision digest l l' r \<Longrightarrow> ?thesis"
    unfolding settled_once_def receipt by simp
qed

lemma rounds_settled:
  assumes "\<forall>n e. x_fault (cm_x T) n = AppliedUnanswered e \<longrightarrow> \<not> is_err Precondition e"
  shows "commit_rounds T W C digest revision n m w = (r, w') \<Longrightarrow> settled_once T W C m revision digest (head_log w) (head_log w') r"
proof (induction n arbitrary: m w)
  case 0
  then show ?case by (auto simp: settled_once_def raise_def)
next
  case (Suc n)
  from Suc.prems refl show ?case
  proof (cases rule: round_cases)
    case (wrote base etag "next" entry raw w4)
    obtain q w5 where put: "put_conditional (cm_x T) head_key raw \<lparr>pc_match = etag, pc_create = (etag = [])\<rparr> w4 = (q, w5)" by fastforce
    from put assms show ?thesis
    proof (cases rule: put_head_cases)
      case (unwritten e)
      have run: "andthen (settle_commit T (mu_id m) digest e) (\<lambda>settled. case settled of Some committed \<Rightarrow> give committed
          | None \<Rightarrow> commit_rounds T W C digest revision n (m\<lparr>mu_next := entry\<rparr>)) w5 = (r, w')"
        using wrote(1) put unwritten(1) by (simp add: reached_def)
      have l5: "head_log w5 = head_log w" using unwritten(2) wrote(2) by simp
      from run show ?thesis
      proof (cases rule: andthen_cases)
        case (goes x w6)
        note s = settle_cases [OF goes(1) l5]
        show ?thesis
        proof (cases x)
          case None
          then have "settled_once T W C (m\<lparr>mu_next := entry\<rparr>) revision digest (head_log w6) (head_log w') r"
            using goes(2) by (intro Suc.IH) simp
          then show ?thesis using s(1) settled_next by simp
        next
          case (Some c)
          then show ?thesis using goes(2) s(1) s(3) [of c] by (auto simp: settled_once_def give_def)
        qed
      qed (use settle_cases [OF _ l5] in \<open>auto simp: settled_once_def\<close>)
    next
      case (written e)
      have published: "head_published T W C m revision digest e"
        using wrote(1) written(2-4) unfolding reached_def head_published_def by (cases m) fastforce
      have l5: "head_log w5 = e # head_log w" using written(1) wrote(2) by simp
      have once: "settled_once T W C m revision digest (head_log w) (e # head_log w) r"
        if "case r of Inl f \<Rightarrow> is_err CommitUnknown f | Inr found \<Rightarrow> receipt_found T m digest found \<or> found = revision"
        using that published by (auto simp: settled_once_def intro!: exI [of _ "[e]"] split: sum.splits)
      show ?thesis
      proof (cases q)
        case (Inr v)
        then show ?thesis using wrote(1) put l5 once by (simp add: reached_def)
      next
        case (Inl f)
        have run: "andthen (settle_commit T (mu_id m) digest f) (\<lambda>settled. case settled of Some committed \<Rightarrow> give committed
            | None \<Rightarrow> commit_rounds T W C digest revision n (m\<lparr>mu_next := entry\<rparr>)) w5 = (r, w')"
          using wrote(1) put Inl by (simp add: reached_def)
        from run show ?thesis
        proof (cases rule: andthen_cases)
          case (goes x w6)
          note s = settle_cases [OF goes(1) l5]
          show ?thesis
          proof (cases x)
            case None
            then show ?thesis using s(4) written(5) [OF Inl] by simp
          next
            case (Some c)
            then show ?thesis using goes(2) s(1) s(3) [of c] once by (auto simp: give_def)
          qed
        qed (use settle_cases [OF _ l5] once in auto)
      qed
    qed
  qed (auto simp: settled_once_def)
qed

subsection \<open>Over the nodes of the bucket\<close>

lemma prepare_nodes:
  assumes "prepare_commit T W C base m revision digest existing w = (Inr (next, e), w')" "nodes_last (cm_x T)"
    and "c_sha (cm_nodes T) = t_sha (x_run (cm_x T))"
  shows "within (cm_gc T) (node_bytes (w_objects w')) w'" "within (cm_gc T) (node_bytes (w_objects w')) w"
proof -
  show after: "within (cm_gc T) (node_bytes (w_objects w')) w'"
    using assms(2,3) by (auto simp: within_def node_bytes_def split: if_splits)
  show "within (cm_gc T) (node_bytes (w_objects w')) w"
    using keepsD [OF commit_grows.kept_prepare _ assms(1)] after by (auto simp: outgrown_def)
qed

lemma rooted_later:
  assumes "rooted G K V U ref es" "U \<subseteq>\<^sub>m U'"
  shows "rooted G K V U' ref es"
proof -
  have "load (gc_nodes G) U' ref = load (gc_nodes G) U ref"
  proof (cases "rkey ref = []")
    case False
    then have same: "U' (rkey ref) = U (rkey ref)" using assms by (auto simp: rooted_def map_le_def)
    show ?thesis unfolding load_def same ..
  qed (simp add: load_def)
  then show ?thesis
    using assms tree_objs [OF _ assms(2)] map_le_implies_dom_le [OF assms(2)] unfolding rooted_def by fastforce
qed

lemma prepared_publishes:
  assumes "prepare_commit T W C base m revision digest existing w = (Inr (next, e), w')" "nodes_last (cm_x T)"
    and "c_sha (cm_nodes T) = t_sha (x_run (cm_x T))" "commit_codec T K V"
    and "tree (cm_nodes T) K V (node_bytes (w_objects w)) h (hd_identity base) es"
    and "tree (cm_nodes T) K V (node_bytes (w_objects w)) h' (hd_receipts base) rs"
    and "K (mu_key m)" "K (mu_id m)" "length es + 4 \<le> max_uint64" "length rs < max_uint64"
  shows "publishes (cm_gc T) K V (node_bytes (w_objects w')) es rs m revision digest base next e"
proof -
  let ?U = "node_bytes (w_objects w')"
  note within = prepare_nodes [OF assms(1-3)]
  have sub: "node_bytes (w_objects w) \<subseteq>\<^sub>m ?U" using within(2) by (simp add: within_def)
  have "rooted (cm_gc T) K V ?U (hd_identity base) es" "rooted (cm_gc T) K V ?U (hd_receipts base) rs"
    using tree_objs [OF assms(5) sub] tree_objs [OF assms(6) sub] by (auto intro: rooted_tree)
  from yieldsD [OF yields_prepare [OF assms(4) this assms(7-10)] assms(1)] show ?thesis
    using within(1) by (simp add: outgrown_def)
qed

text \<open>
  Claim C6. What a commit prepares, over the entries es of the records and rs of the receipts of the head it
  starts from: the mutation expected the revision that es has for its session; in the identity tree of the next
  head its record is set to the new entry, and besides that only counts of children may differ, in the
  session and its parents; in the receipt tree its receipt is added; the generation is one higher. The
  hypotheses: the other machines leave node objects as they are, which the admission of the commit promises,
  and the encodings of \<open>commit_codec\<close>. A root that no reader could decode, as one with too many children, is
  left open by \<open>rooted\<close>.
\<close>

theorem commit_refines_map:
  assumes "prepare_commit T W C base m revision digest existing w = (Inr (next, e), w')" "nodes_last (cm_x T)"
    and "c_sha (cm_nodes T) = t_sha (x_run (cm_x T))" "commit_codec T K V"
    and "tree (cm_nodes T) K V (node_bytes (w_objects w)) h (hd_identity base) es"
    and "tree (cm_nodes T) K V (node_bytes (w_objects w)) h' (hd_receipts base) rs"
    and "K (mu_key m)" "K (mu_id m)" "length es + 4 \<le> max_uint64" "length rs < max_uint64"
  shows "publishes (cm_gc T) K V (node_bytes (w_objects w')) es rs m revision digest base next e"
  by (rule prepared_publishes [OF assms])

theorem commit_refines_map_witness:
  "publishes (cm_gc trial) (\<lambda>_. True) (\<lambda>_. True) (node_bytes trial_stored) [] [] trial_mutation trial_id (toy_sha ''m'') (fresh_head 4 10 None) trial_head None"
proof -
  have codec: "commit_codec trial (\<lambda>_. True) (\<lambda>_. True)" using toy_codec by (simp add: commit_codec_def trial_parts)
  have "nodes_last (cm_x trial)" "c_sha (cm_nodes trial) = t_sha (x_run (cm_x trial))"
    by (simp_all add: nodes_last_def trial_parts trial_fields toy_def)
  from commit_refines_map [OF trial_prepare [of 0 "[]"] this codec, of 1 "[]" 1 "[]"] show ?thesis
    using tree_no_ref [of toy _ _ _ 0] by (simp add: trial_parts fresh_head_def max_uint64_def)
qed

text \<open>
  Claim C8. A retry is settled by the receipt: at any time after a commit was prepared, with its nodes still
  in the bucket, what the lookup of its mutation in the receipts of the next head answers is its own
  revision.
\<close>

theorem receipt_settles_retry:
  assumes "prepare_commit T W C base m revision digest existing w = (Inr (next, e), w')" "nodes_last (cm_x T)"
    and "c_sha (cm_nodes T) = t_sha (x_run (cm_x T))" "commit_codec T K V"
    and "tree (cm_nodes T) K V (node_bytes (w_objects w)) h (hd_identity base) es"
    and "tree (cm_nodes T) K V (node_bytes (w_objects w)) h' (hd_receipts base) rs"
    and "K (mu_key m)" "K (mu_id m)" "length es + 4 \<le> max_uint64" "length rs < max_uint64"
    and "\<And>r b. encode_tree_value (cm_codec T) (mu_id m) (ReceiptValue r) = Inr b \<Longrightarrow> cm_receipt_in T b = Some r"
    and "node_bytes (w_objects w') \<subseteq>\<^sub>m node_bytes (w_objects w1)" "find_receipt T next (mu_id m) digest w1 = (Inr found, w2)"
  shows "found = revision"
proof -
  let ?G = "cm_gc T" and ?U = "node_bytes (w_objects w2)"
  have within: "within ?G ?U w2" using assms(2,3) by (auto simp: within_def node_bytes_def split: if_splits)
  then have "within ?G ?U w1"
    using keepsD [OF commit_grows.kept_receipt _ assms(13), of ?U] by (auto simp: outgrown_def)
  then have sub: "node_bytes (w_objects w') \<subseteq>\<^sub>m ?U" using assms(12) by (auto simp: within_def intro: map_le_trans)
  obtain r b where b: "encode_tree_value (cm_codec T) (mu_id m) (ReceiptValue r) = Inr b" "mr_revision r = revision"
      and "rooted ?G K V (node_bytes (w_objects w')) (hd_receipts next) (upd (mu_id m) (Some b) rs)"
    using prepared_publishes [OF assms(1-10)] by (force simp: publishes_def)
  then have "rooted ?G K V ?U (hd_receipts next) (upd (mu_id m) (Some b) rs)" using rooted_later [OF _ sub] by blast
  note sought = yields_rooted_seek [OF this, of "mu_id m"]
  have "yields (outgrown ?G ?U) (find_receipt T next (mu_id m) digest) (\<lambda>found. found = revision)"
    unfolding find_receipt_def
  proof (rule yields_andthen [OF sought], (intro keeps_rules)[1])
    fix v assume "v = map_of (upd (mu_id m) (Some b) rs) (mu_id m)"
    then have v: "v = Some b" by (simp add: map_of_upd)
    show "yields (outgrown ?G ?U) (case v of None \<Rightarrow> give [] | Some raw \<Rightarrow> (case cm_receipt_in T raw of None \<Rightarrow> raise Refused
        | Some r \<Rightarrow> if mr_digest r \<noteq> digest \<or> mr_revision r = [] \<or> mr_session r = [] then raise MutationReuse else give (mr_revision r)))
      (\<lambda>found. found = revision)"
      using assms(11) [OF b(1)] b(2) v by (simp add: yields_give yields_raise)
  qed
  from yieldsD [OF this assms(13)] show ?thesis using within by (simp add: outgrown_def)
qed


theorem receipt_settles_retry_witness:
  "\<exists>found w. find_receipt trial trial_head (mu_id trial_mutation) (toy_sha ''m'') (trial_world trial_stored 6 []) = (Inr found, w) \<and> found = trial_id"
proof -
  have codec: "commit_codec trial (\<lambda>_. True) (\<lambda>_. True)" using toy_codec by (simp add: commit_codec_def trial_parts)
  have env: "nodes_last (cm_x trial)" "c_sha (cm_nodes trial) = t_sha (x_run (cm_x trial))"
    by (simp_all add: nodes_last_def trial_parts trial_fields toy_def)
  have receipts: "r = trial_receipt" if "encode_tree_value (cm_codec trial) ''a'' (ReceiptValue r) = Inr b" for r b
    using that by (auto simp: encode_tree_value_def picker_tree_key_def has_prefix_def trial_parts trial_codec_def marshalled_def Let_def sbind_def
        split: option.splits if_splits)
  have encoded: "cm_receipt_in trial b = Some r" if a: "encode_tree_value (cm_codec trial) (mu_id trial_mutation) (ReceiptValue r) = Inr b" for r b
  proof -
    have "r = trial_receipt" using receipts [of r b] a by (simp add: trial_mutation_def)
    then have "b = ''1''" using a trial_receipt_encoded by (auto simp: trial_mutation_def trial_parts)
    with \<open>r = trial_receipt\<close> show ?thesis by (simp add: trial_def)
  qed
  obtain found w where run: "find_receipt trial trial_head (mu_id trial_mutation) (toy_sha ''m'') (trial_world trial_stored 6 []) = (Inr found, w)"
    using trial_found by (simp add: trial_mutation_def)
  have "found = trial_id"
    by (rule receipt_settles_retry [OF trial_prepare [of 0 "[]"] env codec _ _ _ _ _ _ encoded _ run, of 1 "[]" 1 "[]"])
      (use tree_no_ref [of toy _ _ _ 0] in \<open>simp_all add: trial_parts fresh_head_def max_uint64_def\<close>)
  with run show ?thesis by blast
qed

subsection \<open>Properties of a whole commit\<close>

text \<open>
  Claim C7. A commit writes the head at most once, conditionally on the version it was prepared from; the
  written head is the one prepared from it. An error other than an unknown outcome means that the head was
  not written. A revision that is returned is that of this commit, whose head was written, or was found in the
  receipt of an earlier attempt. The hypothesis is the provider's contract that a write it carried out is never
  reported as a failed precondition.
\<close>

theorem commit_writes_head_once:
  assumes "\<forall>n e. x_fault (cm_x T) n = AppliedUnanswered e \<longrightarrow> \<not> is_err Precondition e"
    and "commit_admitted T W C m w = (r, w')"
  shows "(\<exists>e. r = Inl e) \<and> head_log w' = head_log w \<or>
     (\<exists>frozen digest revision es. freeze_mutation T m = Inr (frozen, digest) \<and> head_log w' = es @ head_log w \<and> length es \<le> 1 \<and>
        (\<forall>e\<in>set es. head_published T W C frozen revision digest e) \<and>
        (case r of Inl e \<Rightarrow> es = [] \<or> is_err CommitUnknown e
         | Inr found \<Rightarrow> receipt_found T frozen digest found \<or> es \<noteq> [] \<and> found = revision))"
  (is "?early \<or> ?settled")
  using assms(2) unfolding commit_admitted_def
proof (cases rule: andthen_cases)
  case (fails e)
  then show ?thesis using keepsD [OF head_kept.kept_authority refl] by blast
next
  case (goes x w1)
  have l1: "head_log w1 = head_log w" by (rule keepsD [OF head_kept.kept_authority refl goes(1)])
  from goes(2) show ?thesis
  proof (cases rule: andthen_cases)
    case (goes frozen w2)
    obtain m' digest where frozen: "frozen = (m', digest)" by fastforce
    then have f: "freeze_mutation T m = Inr (m', digest)" and w2: "w2 = w1" using goes(1) by (auto simp: lift_sum_def)
    from goes(2) [unfolded frozen prod.case] show ?thesis
    proof (cases rule: andthen_cases)
      case (goes revision w3)
      have "head_log w3 = head_log w" using keepsD [OF head_kept.kept_new_id l1 goes(1) [unfolded w2]] .
      with rounds_settled [OF assms(1) goes(2)] have "settled_once T W C m' revision digest (head_log w) (head_log w') r" by simp
      then show ?thesis using f unfolding settled_once_def by blast
    qed (use keepsD [OF head_kept.kept_new_id l1] w2 in blast)
  qed (use l1 in \<open>auto simp: lift_sum_def\<close>)
qed

theorem commit_writes_head_once_witness:
  "commit_admitted trial demo_writer demo_context trial_mutation (trial_world trial_objects 0 []) =
     (Inr trial_id, trial_world (trial_stored(head_key \<mapsto> (''H'', trial_version ''H''))) 12 [trial_published, trial_node_written]) \<and>
   (\<exists>revision. head_published trial demo_writer demo_context trial_mutation revision (toy_sha ''m'') trial_published)"
proof (rule conjI [OF trial_commit])
  have "freeze_mutation trial trial_mutation = Inr (trial_mutation, toy_sha ''m'')"
    by (simp add: freeze_mutation_def trial_parts trial_fields) (simp add: trial_mutation_def)
  moreover have "head_log (trial_world b n [trial_published, trial_node_written]) = [trial_published]" for b n
    using trial_key by (simp add: head_log_def trial_published_def trial_node_written_def)
  moreover have "head_log (trial_world b n []) = []" for b n by (simp add: head_log_def)
  ultimately show "\<exists>revision. head_published trial demo_writer demo_context trial_mutation revision (toy_sha ''m'') trial_published"
    using commit_writes_head_once [OF _ trial_commit] by (auto simp: trial_parts trial_fields)
qed

end
