(* ===== verification/Spec2Isabelle.thy ===== *)
theory Spec2Isabelle
  imports JsonEncode CatalogMap RetentionClaims RecoveryClaims SnapshotClaims GcClaims CommitClaims
begin

text \<open>
  A verification development for the core of \<open>agent-archive\<close>, a program that archives the sessions of
  coding agents in an object store (S3 or R2) which several machines share without a server of their own. All
  guarantees rest on the objects of the bucket, on compare-and-swap writes, and on what each process
  keeps in memory.

  \<^bold>\<open>Parts and theories.\<close>

  \<^item> \<open>GoBase\<close>, \<open>GoText\<close>, \<open>GoUtf8\<close>: what the code uses of Go and of its library: byte strings, prefixes, hexadecimal,
    results as sums, steps over a state (\<open>andthen\<close>, \<open>attempt\<close>, \<open>ensure\<close> for \<open>defer\<close>) and their proof rules.
  \<^item> \<open>ReadBudget\<close>, \<open>MemoryBudget\<close>: \<open>internal/agentapi/read_budget.go\<close> and \<open>captured_read_budget.go\<close>, the
    ledger that bounds the memory of concurrent reads. Budgets, scopes and handles live in a heap, since the
    code shares them by pointer. \<open>reservation_ledger\<close> is the interface the encoder and the deletion use.
  \<^item> \<open>JsonRaw\<close>, \<open>JsonGrammar\<close>: the scanner of \<open>internal/jsonwire/raw.go\<close>, and the JSON grammar it decides.
  \<^item> \<open>JsonEscape\<close>, \<open>JsonWire\<close>, \<open>JsonBound\<close>, \<open>JsonStream\<close>, \<open>JsonEncode\<close>: \<open>internal/jsonwire/size.go\<close>,
    \<open>traverse.go\<close>, \<open>encode.go\<close>: the wire length, the streaming encoder, the reference text of a value, and the
    refinement between them.
  \<^item> \<open>CatalogTree\<close>, \<open>CatalogContents\<close>, \<open>CatalogUpdate\<close>, \<open>CatalogMap\<close>: \<open>internal/catalog/tree.go\<close>, the immutable
    search trees of the catalog. The bucket is a map from keys to bytes and every call may fault;
    \<open>CatalogMap\<close> shows that the trees implement finite maps.
  \<^item> \<open>ArchiveMetadata\<close>, \<open>RetentionBase\<close>, \<open>OwnedDelete\<close>, \<open>Retention\<close>: \<open>internal/archive/history.go\<close> and
    \<open>internal/retention/*.go\<close>: the sweep that deletes what a retention rule has made old. What the pass asks of
    local state, of the bucket and of its callbacks is an environment \<open>renv\<close> whose answers may depend on all
    events so far; the log of the events is what the properties speak about. \<open>RetentionSafety\<close>,
    \<open>RetentionRules\<close> hold the lemmas, \<open>RetentionClaims\<close> the properties.
  \<^item> \<open>Destination\<close>: \<open>internal/destination/values.go\<close>, \<open>config.DestinationID\<close>, the isolation of two destinations
    and the keys of a prefix.
  \<^item> \<open>CatalogState\<close>: the records of the head and of the coordinator object, and their validation
    (\<open>coordinator_validate.go\<close>, \<open>head_protocol.go\<close>, \<open>migration_intent.go\<close>, \<open>picker_upgrade.go\<close>,
    \<open>local/catalog_journal.go\<close>).
  \<^item> \<open>Coordinator\<close>, \<open>CoordinatorOps\<close>: \<open>internal/catalog/coordinator.go\<close> and \<open>write_authority.go\<close>, the admission lock
    kept in one object of the bucket.
  \<^item> \<open>Publication\<close>: publications, journals and the collector guard of one process (\<open>journal_publication.go\<close>,
    \<open>publication_claim.go\<close>, \<open>local/collector_guard.go\<close>). Pointers to claims are indices into \<open>ps_heap\<close>.
  \<^item> \<open>CatalogRecovery\<close>: lease, sweep, release and recovery of a collection (\<open>gc.go\<close>, \<open>gc_recovery.go\<close>).
  \<^item> \<open>GcMark\<close>: the marking of a collection and \<open>Collect\<close> as a whole. \<open>GcCalls\<close>: its locale \<open>calls_kept\<close> says which
    invariants survive every call but the deletions, on top of \<open>reads_kept\<close> for reads alone. \<open>GcReach\<close>: what a head refers to and which heads are retained, as
    inductive predicates, and that marking covers all of it. \<open>GcDemo\<close> runs one collection, \<open>GcClaims\<close> has the property.
  \<^item> \<open>CatalogCommit\<close>: commits (\<open>catalog.go\<close>, \<open>tree.go\<close>, \<open>child_counts.go\<close>): the tree operations again, now as calls on the
    bucket of a \<open>world\<close>, the order indexes, the child counters, receipts and the compare-and-swap on the head.
    \<open>CommitTrees\<close>: its locale \<open>creates_kept\<close> says which invariants survive the creation of immutable objects; since
    the nodes of the bucket only grow, a tree operation has the result that \<open>CatalogTree\<close> has over the nodes that are there at
    the end. \<open>CommitRefines\<close>: what a prepared head holds, as an update of two maps (\<open>publishes\<close>). \<open>CommitDemo\<close> runs
    one commit, \<open>CommitClaims\<close> has the properties.
  \<^item> \<open>CatalogEntry\<close>: entries of the catalog, the keys of its ordered indexes, picker rows and the encoding of tree
    values (\<open>catalog.go\<close>, \<open>picker_row.go\<close>, \<open>entry_codec.go\<close>).
  \<^item> \<open>Snapshot\<close>, \<open>SnapshotQuery\<close>, \<open>SnapshotReads\<close>: \<open>snapshot.go\<close>, \<open>delta.go\<close>, \<open>discovery.go\<close>, \<open>resolved_row.go\<close>,
    \<open>read_view.go\<close>: a reader pins the roots of one head for ten minutes and reads counts, pages, single
    identities, deltas and bodies through a cache of verified nodes and under a work budget. \<open>SnapshotTrees\<close>:
    what a node read gives while the objects of the trees are not replaced (\<open>undisturbed\<close>), and that it returns
    when the provider answers (\<open>served\<close>); its locale \<open>node_source\<close> is the interface of the walks, whose lemmas are in
    \<open>SnapshotCounts\<close>, \<open>SnapshotPages\<close> and \<open>SnapshotDeltas\<close>. \<open>SnapshotDemo\<close> is a small archive for the witnesses,
    \<open>SnapshotClaims\<close> has the properties.
  \<^item> \<open>MigrationIntent\<close>: \<open>internal/catalog/migration_intent.go\<close>.
  \<^item> \<open>CoordinatorSteps\<close>: the transitions of the coordinator's record as an inductive relation, one rule per
    operation; \<open>CoordinatorLock\<close>: the contract of an admission lock as a locale, its facts about runs, and
    its interpretation on that relation; \<open>CoordinatorRun\<close>, \<open>CoordinatorCalls\<close>, \<open>ProcessCalls\<close>: every call of the code
    only moves the object in the bucket along that relation; \<open>GuardCount\<close>: the claims account for the guard;
    \<open>CoordinatorClaims\<close>, \<open>RecoveryClaims\<close>: the properties.

  \<^bold>\<open>How the bucket and other machines are modelled.\<close> A \<open>world\<close> is the bucket, the number of calls made and the
  log of the writes this process had applied. Before each call \<open>x_others\<close> changes the bucket arbitrarily, and
  \<open>x_fault\<close> may fail it, with the write applied or not; quantifying over the environment covers every
  interleaving, every crash of another machine and every lost answer. The properties that speak of several
  calls assume \<open>lawful\<close>: an ETag names the bytes it was given to, a valid state is decoded from its encoding, and
  the other machines leave the coordinator in a state reachable by its transitions.

  \<^bold>\<open>Bounds.\<close> The scanner's nesting is bounded by 129 levels as in the code, so \<open>raw_run\<close> with that fuel always
  returns (\<open>validate_raw_total_sound\<close>); \<open>change_rounds\<close> counts the 64 attempts of \<open>change\<close>, \<open>commit_rounds\<close> those of
  \<open>commitAdmitted\<close>; \<open>lookup_rounds\<close> and
  \<open>change\<close> of the trees count the 64 levels the code allows, as do the walks of a snapshot and of a collection. The rounds of \<open>retained_rounds\<close> are an argument, since
  the code follows the predecessors without a bound: what a collection deletes is stated for every such number. Counters of the coordinator are 64-bit words that wrap.

  \<^bold>\<open>Parameters.\<close> SHA-256, HMAC, base64, \<open>encoding/json\<close> on the records, \<open>strconv.FormatFloat\<close>, \<open>strings.ToLower\<close>, \<open>url.Parse\<close>, the
  clock, the random source and the S3 SDK are parameters of the definitions.

  \<^bold>\<open>Not modelled.\<close> In the catalog: the pages of the picker, the adapter of the old metadata layout
  (\<open>store.go\<close>), the copying of a migration or of a picker upgrade. Outside of it: the local state store, collector and backfill, the parsers of the agents'
  formats and their redaction tables, discovery and the SQLite reader, search, statistics and rendering, configuration
  files, key chains, pairing and the command line; these are I/O or formats of other programs.
\<close>

end
